(* ===== verification/Prelude.thy ===== *)
theory Prelude
  imports Complex_Main "HOL-Library.Word" "HOL-Library.Sublist" "HOL-Library.List_Lexorder"
    "HOL-Library.Char_ord" "HOL-Library.Product_Lexorder" "HOL-Library.Multiset"
begin

text \<open>
  The vocabulary the component theories share: names for identifiers and instants, results of
  fallible Go functions as sums, nullable database columns, Go's fixed-width arithmetic,
  the byte-string helpers of Go's \<open>strings\<close> package that the code uses, sorting by a
  comparison function, and two interfaces: a state machine with an invariant, and a
  comparison that is decided by a key.
\<close>

named_theorems go_strings \<open>definitions of the modelled functions of Go's strings package\<close>
named_theorems res_simps \<open>case analysis of fallible results\<close>

section \<open>Identifiers, instants, bytes\<close>

type_synonym uuid = nat \<comment> \<open>the 128-bit value; \<open>pgtype.UUID.Valid\<close> is modelled by \<open>option\<close> where it matters\<close>
type_synonym instant = int
type_synonym duration = int
type_synonym byte = "8 word"
type_synonym bytes = "byte list"

section \<open>Fallible results\<close>

text \<open>A Go function returning \<open>(T, error)\<close> is a sum: \<open>Inl\<close> holds the error.\<close>

fun res_bind :: "'e + 'a \<Rightarrow> ('a \<Rightarrow> 'e + 'b) \<Rightarrow> 'e + 'b" where
  "res_bind (Inl e) f = Inl e"
| "res_bind (Inr a) f = f a"

lemma res_bind_Inr_iff [res_simps]:
  "res_bind r f = Inr b \<longleftrightarrow> (\<exists>a. r = Inr a \<and> f a = Inr b)"
  by (cases r) auto

lemma res_bind_Inl_iff [res_simps]:
  "res_bind r f = Inl e \<longleftrightarrow> r = Inl e \<or> (\<exists>a. r = Inr a \<and> f a = Inl e)"
  by (cases r) auto

text \<open>\<open>guard_err\<close> is \<open>if !ok { return err }\<close>.\<close>

definition guard_err :: "bool \<Rightarrow> 'e \<Rightarrow> 'e + unit" where
  "guard_err ok e = (if ok then Inr () else Inl e)"

lemma guard_err_iff [res_simps]:
  "guard_err ok e = Inr u \<longleftrightarrow> ok"
  "guard_err ok e = Inl e' \<longleftrightarrow> \<not> ok \<and> e' = e"
  by (auto simp: guard_err_def)

section \<open>Nullable columns\<close>

text \<open>\<open>pgtype.Int4\<close>, \<open>pgtype.Text\<close> and their kin: a value and a \<open>Valid\<close> flag.\<close>

datatype 'a pgval = PG (pg_val: 'a) (pg_valid: bool)

definition pg_option :: "'a pgval \<Rightarrow> 'a option" where
  "pg_option v = (if pg_valid v then Some (pg_val v) else None)"

lemma pg_option_PG [simp]: "pg_option (PG x b) = (if b then Some x else None)"
  by (simp add: pg_option_def)

section \<open>Fixed-width arithmetic\<close>

text \<open>Two's complement wrap-around of \<open>int64\<close> and \<open>int32\<close>, and Go's truncating division.\<close>

definition wrap64 :: "int \<Rightarrow> int" where
  "wrap64 x = (x + 2 ^ 63) mod 2 ^ 64 - 2 ^ 63"

definition wrap32 :: "int \<Rightarrow> int" where
  "wrap32 x = (x + 2 ^ 31) mod 2 ^ 32 - 2 ^ 31"

definition int64_range :: "int \<Rightarrow> bool" where
  "int64_range x \<longleftrightarrow> - (2 ^ 63) \<le> x \<and> x < 2 ^ 63"

definition quot :: "int \<Rightarrow> int \<Rightarrow> int" where
  "quot a b = sgn a * sgn b * (\<bar>a\<bar> div \<bar>b\<bar>)"

lemma wrap64_id: "int64_range x \<Longrightarrow> wrap64 x = x"
  by (simp add: wrap64_def int64_range_def)

lemma wrap64_range [simp]: "int64_range (wrap64 x)"
  by (simp add: wrap64_def int64_range_def)

lemma wrap64_signed: "wrap64 x = sint (word_of_int x :: 64 word)"
  by (simp add: wrap64_def sint_uint uint_word_of_int take_bit_eq_mod signed_take_bit_eq_take_bit_shift
      mod_simps add.commute)

lemma wrap32_id: "- (2 ^ 31) \<le> x \<Longrightarrow> x < 2 ^ 31 \<Longrightarrow> wrap32 x = x"
  by (simp add: wrap32_def)

lemma quot_nonneg: "0 \<le> a \<Longrightarrow> 0 < b \<Longrightarrow> quot a b = a div b"
  by (cases "a = 0") (simp_all add: quot_def)

lemma quot_ge_iff:
  assumes "0 < b"
  shows "quot a b > c \<longleftrightarrow> (if 0 \<le> a then a div b > c else - ((- a) div b) > c)"
  using assms by (cases "a = 0") (simp_all add: quot_def sgn_if)

section \<open>Byte strings\<close>

text \<open>
  Go strings are byte strings; \<open>string\<close> is a list of bytes, and \<open>strings.HasPrefix\<close> is
  \<open>prefix\<close>. \<open>strings.TrimSpace\<close> is modelled on ASCII white space.
\<close>

definition trim_prefix :: "string \<Rightarrow> string \<Rightarrow> string" where
  "trim_prefix p s = (if prefix p s then drop (length p) s else s)"

definition cut_prefix :: "string \<Rightarrow> string \<Rightarrow> string option" where
  "cut_prefix p s = (if prefix p s then Some (drop (length p) s) else None)"

definition go_space :: "char \<Rightarrow> bool" where
  "go_space c \<longleftrightarrow> c \<in> set [CHR '' '', CHR 0x09, CHR 0x0A, CHR 0x0B, CHR 0x0C, CHR 0x0D]"

definition trim_space :: "string \<Rightarrow> string" where
  "trim_space s = rev (dropWhile go_space (rev (dropWhile go_space s)))"

text \<open>\<open>strings.Split(s, sep)\<close> for a one-byte separator: always at least one piece.\<close>

fun split_on :: "char \<Rightarrow> string \<Rightarrow> string list" where
  "split_on c [] = [[]]"
| "split_on c (x # xs) =
     (if x = c then [] # split_on c xs
      else (case split_on c xs of [] \<Rightarrow> [[x]] | p # ps \<Rightarrow> (x # p) # ps))"

text \<open>\<open>strings.Join(parts, sep)\<close> for a one-byte separator.\<close>

fun join_with :: "char \<Rightarrow> string list \<Rightarrow> string" where
  "join_with c [] = []"
| "join_with c [p] = p"
| "join_with c (p # q # ps) = p @ c # join_with c (q # ps)"

lemmas [go_strings] = trim_prefix_def cut_prefix_def go_space_def trim_space_def

lemma split_on_nonempty [simp]: "split_on c s \<noteq> []"
  by (cases s) (auto split: list.splits)

lemma join_split [simp]: "join_with c (split_on c s) = s"
proof (induction s)
  case (Cons x xs)
  obtain p ps where *: "split_on c xs = p # ps"
    by (cases "split_on c xs") auto
  with Cons show ?case by (cases ps) auto
qed simp

lemma split_pieces: "p \<in> set (split_on c s) \<Longrightarrow> c \<notin> set p"
proof (induction s arbitrary: p)
  case (Cons x xs)
  then show ?case by (cases "split_on c xs") (auto split: if_splits)
qed simp

lemma split_on_no_sep: "c \<notin> set s \<Longrightarrow> split_on c s = [s]"
  by (induction s) auto

lemma split_on_append: "c \<notin> set p \<Longrightarrow> split_on c (p @ c # s) = p # split_on c s"
  by (induction p) auto

lemma split_join:
  "ps \<noteq> [] \<Longrightarrow> (\<And>p. p \<in> set ps \<Longrightarrow> c \<notin> set p) \<Longrightarrow> split_on c (join_with c ps) = ps"
  by (induction c ps rule: join_with.induct) (auto simp: split_on_no_sep split_on_append)

lemma trim_prefix_append [simp]: "trim_prefix p (p @ s) = s"
  by (simp add: trim_prefix_def)

lemma cut_prefix_Some: "cut_prefix p s = Some r \<longleftrightarrow> s = p @ r"
  by (auto simp: cut_prefix_def prefix_def)

text \<open>A field at an offset of a byte string, and what follows it.\<close>

lemma take_drop_step: "take m (drop k h) @ drop (k + m) h = drop k h"
  by (metis add.commute append_take_drop_id drop_drop)

section \<open>Sorting by a comparison\<close>

text \<open>
  \<open>sort.Slice(xs, less)\<close>: insertion by the comparison the code passes. Go's sort is not stable,
  so facts proved about it below hold only where the comparison separates the elements.
\<close>

fun insert_by :: "('a \<Rightarrow> 'a \<Rightarrow> bool) \<Rightarrow> 'a \<Rightarrow> 'a list \<Rightarrow> 'a list" where
  "insert_by lt x [] = [x]"
| "insert_by lt x (y # ys) = (if lt y x then y # insert_by lt x ys else x # y # ys)"

definition sort_by :: "('a \<Rightarrow> 'a \<Rightarrow> bool) \<Rightarrow> 'a list \<Rightarrow> 'a list" where
  "sort_by lt xs = foldr (insert_by lt) xs []"

lemma sort_by_simps [simp]:
  "sort_by lt [] = []"
  "sort_by lt (x # xs) = insert_by lt x (sort_by lt xs)"
  by (simp_all add: sort_by_def)

lemma mset_insert_by [simp]: "mset (insert_by lt x ys) = add_mset x (mset ys)"
  by (induction ys) auto

lemma mset_sort_by [simp]: "mset (sort_by lt xs) = mset xs"
  by (induction xs) auto

lemma set_sort_by [simp]: "set (sort_by lt xs) = set xs"
  by (metis mset_sort_by set_mset_mset)

text \<open>The interface of a comparison: it is decided by a key in a linear order.\<close>

locale key_comparison =
  fixes less :: "'a \<Rightarrow> 'a \<Rightarrow> bool"
    and key :: "'a \<Rightarrow> 'k::linorder"
  assumes less_key: "less a b \<longleftrightarrow> key a < key b"
begin

lemma insert_by_key: "insert_by less x ys = insort_key key x ys"
  by (induction ys) (auto simp: less_key)

lemma sort_by_key: "sort_by less xs = sort_key key xs"
  by (induction xs) (auto simp: insert_by_key)

lemma sorted_sort_by: "sorted (map key (sort_by less xs))"
  by (simp add: sort_by_key)

text \<open>The result does not depend on the order of the input, where the key separates its elements.\<close>

lemma sort_by_canonical:
  assumes "mset xs = mset ys" and "inj_on key (set xs)"
  shows "sort_by less xs = sort_by less ys"
proof -
  have "mset xs = mset (sort_key key ys)"
    using assms(1) by simp
  then have "sort_key key xs = sort_key key ys"
    using assms(2) by (rule sort_key_inj_key_eq) simp
  then show ?thesis by (simp add: sort_by_key)
qed

end

section \<open>State machines\<close>

text \<open>
  The interface of a component with a state: a deterministic step and an invariant that the
  admitted events keep. Its one lemma lifts the invariant to runs. In a \<open>machine\<close> every event is admitted.
\<close>

locale guarded_machine =
  fixes step :: "'s \<Rightarrow> 'e \<Rightarrow> 's"
    and inv :: "'s \<Rightarrow> bool"
    and admits :: "'e \<Rightarrow> bool"
  assumes guarded_step: "inv s \<Longrightarrow> admits e \<Longrightarrow> inv (step s e)"
begin

lemma guarded_run: "inv s \<Longrightarrow> \<forall>e \<in> set es. admits e \<Longrightarrow> inv (foldl step s es)"
  by (induction es arbitrary: s) (auto intro: guarded_step)

end

locale machine =
  fixes step :: "'s \<Rightarrow> 'e \<Rightarrow> 's"
    and inv :: "'s \<Rightarrow> bool"
  assumes step_inv: "inv s \<Longrightarrow> inv (step s e)"

sublocale machine \<subseteq> guarded: guarded_machine step inv "\<lambda>_. True"
  by unfold_locales (rule step_inv)

context machine
begin

lemma run_inv: "inv s \<Longrightarrow> inv (foldl step s es)"
  using guarded.guarded_run by simp

end

end
