(* ===== verification/Quota.thy ===== *)
theory Quota
  imports Prelude
begin

text \<open>
  Quotas (\<open>apps/api/internal/quota/quota.go\<close> and the sweep of
  \<open>apps/api/internal/worker/quota_task.go\<close>): the limits and the usage of a scope, the
  admission check of a pending application, the rising-edge threshold alert with its
  hysteresis, and the periodic sweep that turns alerts into e-mail tasks.

  CPU figures are \<open>float64\<close> in the code. The model leaves their type open
  (\<open>'f::{linorder, plus, zero}\<close>, no law of addition is used), so nothing proved here
  depends on exact arithmetic. Memory figures are \<open>int64\<close> and wrap around.
  Every query may fail: \<open>ok q\<close> says which ones do not.
\<close>

section \<open>Data\<close>

datatype scope = ScopeUser | ScopeProject

record 'f limits =
  max_applications :: "int option"
  max_cpu :: "'f option"
  max_memory_mb :: "int option"

record 'f usage =
  applications :: int
  cpu :: 'f
  memory_bytes :: int

record 'f quota_row =
  row_max_applications :: "int pgval"
  row_max_cpu :: "'f pgval"
  row_max_memory_mb :: "int pgval"

record 'f app_row =
  app_project :: uuid
  app_cpu_limit :: 'f
  app_memory_limit :: int

record alert_row =
  last_alerted_at :: instant
  last_alerted_percent :: int

record 'f quota_db =
  quotas :: "scope \<times> uuid \<rightharpoonup> 'f quota_row"
  apps :: "'f app_row list"
  owner_of :: "uuid \<rightharpoonup> uuid"
  alert_state :: "scope \<times> uuid \<rightharpoonup> alert_row"

datatype qop = ListAllProjects | GetQuota | CountByProject | SumByProject | CountByUser | SumByUser
  | GetAlertState | UpsertAlertState | GetAlertPreferences | GetOwnerInfo | EnqueueEmail

text \<open>\<open>ExceededError\<close> is one constructor per dimension (current, pending, limit);
  \<open>DivideByZero\<close> is Go's run-time panic.\<close>

datatype 'f quota_error =
    QueryFailed qop
  | ExceededApps scope int int int
  | ExceededCpu scope 'f 'f 'f
  | ExceededMem scope int int int
  | DivideByZero

section \<open>Limits and usage\<close>

definition limits_from_row :: "'f quota_row \<Rightarrow> 'f limits" where
  "limits_from_row r =
     \<lparr>max_applications = (if pg_valid (row_max_applications r) then Some (pg_val (row_max_applications r)) else None),
      max_cpu = (if pg_valid (row_max_cpu r) then Some (pg_val (row_max_cpu r)) else None),
      max_memory_mb = (if pg_valid (row_max_memory_mb r) then Some (pg_val (row_max_memory_mb r)) else None)\<rparr>"

definition limits_to_row :: "('f::zero) limits \<Rightarrow> 'f quota_row" where
  "limits_to_row l =
     \<lparr>row_max_applications = (case max_applications l of None \<Rightarrow> PG 0 False | Some n \<Rightarrow> PG n True),
      row_max_cpu = (case max_cpu l of None \<Rightarrow> PG 0 False | Some c \<Rightarrow> PG c True),
      row_max_memory_mb = (case max_memory_mb l of None \<Rightarrow> PG 0 False | Some m \<Rightarrow> PG m True)\<rparr>"

definition limits_for ::
    "(qop \<Rightarrow> bool) \<Rightarrow> 'f quota_db \<Rightarrow> scope \<Rightarrow> uuid \<Rightarrow> 'f quota_error + 'f limits" where
  "limits_for ok db sc sid =
     (if \<not> ok GetQuota then Inl (QueryFailed GetQuota)
      else case quotas db (sc, sid) of
        None \<Rightarrow> Inr \<lparr>max_applications = None, max_cpu = None, max_memory_mb = None\<rparr>
      | Some r \<Rightarrow> Inr (limits_from_row r))"

text \<open>\<open>COALESCE(SUM(x), 0)\<close>; a memory total that is no \<open>BIGINT\<close> fails the query's cast.\<close>

definition sum_cpu :: "('f::{plus, zero}) app_row list \<Rightarrow> 'f" where
  "sum_cpu xs = foldr (\<lambda>a s. app_cpu_limit a + s) xs 0"

definition sum_memory :: "'f app_row list \<Rightarrow> int option" where
  "sum_memory xs = (let m = sum_list (map app_memory_limit xs) in if int64_range m then Some m else None)"

definition usage_of ::
    "(qop \<Rightarrow> bool) \<Rightarrow> qop \<Rightarrow> qop \<Rightarrow> ('f::{plus, zero}) app_row list \<Rightarrow> 'f quota_error + 'f usage" where
  "usage_of ok count_op sum_op xs =
     (if \<not> ok count_op then Inl (QueryFailed count_op)
      else if \<not> ok sum_op then Inl (QueryFailed sum_op)
      else case sum_memory xs of
        None \<Rightarrow> Inl (QueryFailed sum_op)
      | Some m \<Rightarrow> Inr \<lparr>applications = int (length xs), cpu = sum_cpu xs, memory_bytes = m\<rparr>)"

definition project_apps :: "'f quota_db \<Rightarrow> uuid \<Rightarrow> 'f app_row list" where
  "project_apps db p = [a \<leftarrow> apps db. app_project a = p]"

definition user_apps :: "'f quota_db \<Rightarrow> uuid \<Rightarrow> 'f app_row list" where
  "user_apps db u = [a \<leftarrow> apps db. owner_of db (app_project a) = Some u]"

definition usage_for_project ::
    "(qop \<Rightarrow> bool) \<Rightarrow> ('f::{plus, zero}) quota_db \<Rightarrow> uuid \<Rightarrow> 'f quota_error + 'f usage" where
  "usage_for_project ok db p = usage_of ok CountByProject SumByProject (project_apps db p)"

definition usage_for_user ::
    "(qop \<Rightarrow> bool) \<Rightarrow> ('f::{plus, zero}) quota_db \<Rightarrow> uuid \<Rightarrow> 'f quota_error + 'f usage" where
  "usage_for_user ok db u = usage_of ok CountByUser SumByUser (user_apps db u)"

section \<open>The admission check\<close>

definition mib :: int where "mib = 1024 * 1024"

definition check_delta ::
    "scope \<Rightarrow> ('f::{linorder, plus}) limits \<Rightarrow> 'f usage \<Rightarrow> int \<Rightarrow> 'f \<Rightarrow> int \<Rightarrow> 'f quota_error + unit" where
  "check_delta sc l cur app_delta cpu_delta mem_delta =
     res_bind
       (case max_applications l of None \<Rightarrow> Inr ()
        | Some m \<Rightarrow>
            let pending = wrap64 (applications cur + app_delta)
            in guard_err (\<not> pending > m) (ExceededApps sc (applications cur) pending m)) (\<lambda>_.
     res_bind
       (case max_cpu l of None \<Rightarrow> Inr ()
        | Some m \<Rightarrow>
            let pending = cpu cur + cpu_delta
            in guard_err (\<not> pending > m) (ExceededCpu sc (cpu cur) pending m)) (\<lambda>_.
       (case max_memory_mb l of None \<Rightarrow> Inr ()
        | Some m \<Rightarrow>
            let pending_mb = quot (wrap64 (memory_bytes cur + mem_delta)) mib
            in guard_err (\<not> pending_mb > m)
                 (ExceededMem sc (quot (memory_bytes cur) mib) pending_mb m))))"

text \<open>\<open>CheckCurrentUsage\<close> and \<open>CheckApplicationCreate\<close> make the same four lookups in the same
  order; they differ in the deltas they pass to \<open>checkDelta\<close>.\<close>

definition check_scopes ::
    "(qop \<Rightarrow> bool) \<Rightarrow> ('f::{linorder, plus, zero}) quota_db \<Rightarrow> uuid \<Rightarrow> uuid
      \<Rightarrow> int \<Rightarrow> 'f \<Rightarrow> int \<Rightarrow> 'f quota_error + unit" where
  "check_scopes ok db p u app_delta cpu_delta mem_delta =
     res_bind (limits_for ok db ScopeProject p) (\<lambda>proj_limits.
     res_bind (usage_for_project ok db p) (\<lambda>proj_usage.
     res_bind (check_delta ScopeProject proj_limits proj_usage app_delta cpu_delta mem_delta) (\<lambda>_.
     res_bind (limits_for ok db ScopeUser u) (\<lambda>user_limits.
     res_bind (usage_for_user ok db u) (\<lambda>user_usage.
     check_delta ScopeUser user_limits user_usage app_delta cpu_delta mem_delta)))))"

definition check_current_usage ::
    "(qop \<Rightarrow> bool) \<Rightarrow> ('f::{linorder, plus, zero}) quota_db \<Rightarrow> uuid \<Rightarrow> uuid \<Rightarrow> 'f quota_error + unit" where
  "check_current_usage ok db p u = check_scopes ok db p u 0 0 0"

definition check_application_create ::
    "(qop \<Rightarrow> bool) \<Rightarrow> ('f::{linorder, plus, zero}) quota_db \<Rightarrow> uuid \<Rightarrow> uuid
      \<Rightarrow> 'f \<Rightarrow> int \<Rightarrow> 'f quota_error + unit" where
  "check_application_create ok db p u cpu_delta mem_delta = check_scopes ok db p u 1 cpu_delta mem_delta"

section \<open>Threshold alerts\<close>

definition alert_hysteresis :: int where "alert_hysteresis = 10"

definition eval_threshold :: "int \<Rightarrow> int \<Rightarrow> int \<Rightarrow> int \<Rightarrow> bool \<times> bool" where
  "eval_threshold last_percent threshold current_percent hysteresis =
     (let fire = last_percent < threshold \<and> current_percent \<ge> threshold
      in (fire, \<not> fire \<and> current_percent \<le> threshold - hysteresis))"

record threshold_alert =
  alert_project :: uuid
  alert_percent :: int
  alert_threshold :: int

definition maybe_alert_project_threshold ::
    "(qop \<Rightarrow> bool) \<Rightarrow> instant \<Rightarrow> uuid \<Rightarrow> int \<Rightarrow> ('f::{plus, zero}) quota_db
      \<Rightarrow> ('f quota_error + threshold_alert option) \<times> 'f quota_db" where
  "maybe_alert_project_threshold ok now p threshold db =
     (case limits_for ok db ScopeProject p of Inl e \<Rightarrow> (Inl e, db) | Inr l \<Rightarrow>
      (case max_applications l of None \<Rightarrow> (Inr None, db) | Some cap \<Rightarrow>
      (case usage_for_project ok db p of Inl e \<Rightarrow> (Inl e, db) | Inr usage \<Rightarrow>
       if cap = 0 then (Inl DivideByZero, db)
       else
         let current = quot (wrap64 (applications usage * 100)) cap
         in if \<not> ok GetAlertState then (Inl (QueryFailed GetAlertState), db)
            else
              let last_percent = (case alert_state db (ScopeProject, p) of
                                    None \<Rightarrow> 0 | Some st \<Rightarrow> last_alerted_percent st);
                  (fire, reset) = eval_threshold last_percent threshold current alert_hysteresis;
                  new_percent = (if reset then 0 else wrap32 current);
                  db' = (if fire \<or> reset
                         then db\<lparr>alert_state := (alert_state db)((ScopeProject, p) \<mapsto>
                                   \<lparr>last_alerted_at = now, last_alerted_percent = new_percent\<rparr>)\<rparr>
                         else db)
              in if (fire \<or> reset) \<and> \<not> ok UpsertAlertState
                 then (Inl (QueryFailed UpsertAlertState), db)
                 else if fire
                 then (Inr (Some \<lparr>alert_project = p, alert_percent = current, alert_threshold = threshold\<rparr>), db')
                 else (Inr None, db'))))"

section \<open>The sweep\<close>

text \<open>An owner's alert preferences: whether the alert is wanted, and the threshold.\<close>

record alert_prefs =
  quota_threshold :: bool
  quota_threshold_percent :: int

record email_task =
  email_owner :: uuid
  email_usage_percent :: int
  email_threshold_percent :: int

definition maybe_send_quota_alert ::
    "(qop \<Rightarrow> bool) \<Rightarrow> (uuid \<rightharpoonup> alert_prefs) \<Rightarrow> instant \<Rightarrow> uuid \<Rightarrow> uuid \<Rightarrow> ('f::{plus, zero}) quota_db
      \<Rightarrow> ('f quota_error + email_task option) \<times> 'f quota_db" where
  "maybe_send_quota_alert ok prefs now p owner db =
     (if \<not> ok GetAlertPreferences then (Inl (QueryFailed GetAlertPreferences), db)
      else if (case prefs owner of None \<Rightarrow> False | Some pr \<Rightarrow> \<not> quota_threshold pr) then (Inr None, db)
      else
        let threshold = (case prefs owner of None \<Rightarrow> 80 | Some pr \<Rightarrow> quota_threshold_percent pr)
        in case maybe_alert_project_threshold ok now p threshold db of
             (Inl e, db') \<Rightarrow> (Inl e, db')
           | (Inr None, db') \<Rightarrow> (Inr None, db')
           | (Inr (Some a), db') \<Rightarrow>
               if \<not> ok GetOwnerInfo then (Inl (QueryFailed GetOwnerInfo), db')
               else if \<not> ok EnqueueEmail then (Inl (QueryFailed EnqueueEmail), db')
               else (Inr (Some \<lparr>email_owner = owner, email_usage_percent = alert_percent a,
                                email_threshold_percent = alert_threshold a\<rparr>), db'))"

text \<open>
  The loop over the projects. An error is collected and the loop goes on; a panic leaves the
  handler, so the projects after it are not looked at (\<open>sweep_panicked\<close>).
\<close>

record 'f sweep =
  sweep_db :: "'f quota_db"
  sweep_sent :: "email_task list"
  sweep_errors :: "(uuid \<times> 'f quota_error) list"
  sweep_panicked :: bool

definition sweep_project ::
    "(qop \<Rightarrow> bool) \<Rightarrow> (uuid \<rightharpoonup> alert_prefs) \<Rightarrow> instant \<Rightarrow> ('f::{plus, zero}) sweep \<Rightarrow> uuid \<times> uuid \<Rightarrow> 'f sweep" where
  "sweep_project ok prefs now s po =
     (if sweep_panicked s then s
      else case maybe_send_quota_alert ok prefs now (fst po) (snd po) (sweep_db s) of
        (Inl DivideByZero, db') \<Rightarrow> s\<lparr>sweep_db := db', sweep_panicked := True\<rparr>
      | (Inl e, db') \<Rightarrow> s\<lparr>sweep_db := db', sweep_errors := sweep_errors s @ [(fst po, e)]\<rparr>
      | (Inr None, db') \<Rightarrow> s\<lparr>sweep_db := db'\<rparr>
      | (Inr (Some t), db') \<Rightarrow> s\<lparr>sweep_db := db', sweep_sent := sweep_sent s @ [t]\<rparr>)"

definition quota_threshold_sweep ::
    "(qop \<Rightarrow> bool) \<Rightarrow> (uuid \<rightharpoonup> alert_prefs) \<Rightarrow> instant \<Rightarrow> (uuid \<times> uuid) list \<Rightarrow> ('f::{plus, zero}) quota_db \<Rightarrow> 'f sweep" where
  "quota_threshold_sweep ok prefs now projects db =
     foldl (sweep_project ok prefs now)
       \<lparr>sweep_db = db, sweep_sent = [], sweep_errors = [], sweep_panicked = False\<rparr> projects"

text \<open>The handler: nothing to do when a service is not wired; a failed listing is its error.\<close>

definition handle_quota_threshold_sweep ::
    "bool \<Rightarrow> (qop \<Rightarrow> bool) \<Rightarrow> (uuid \<rightharpoonup> alert_prefs) \<Rightarrow> instant \<Rightarrow> (uuid \<times> uuid) list
      \<Rightarrow> ('f::{plus, zero}) quota_db \<Rightarrow> 'f quota_error + 'f sweep" where
  "handle_quota_threshold_sweep wired ok prefs now projects db =
     (if \<not> wired then Inr \<lparr>sweep_db = db, sweep_sent = [], sweep_errors = [], sweep_panicked = False\<rparr>
      else if \<not> ok ListAllProjects then Inl (QueryFailed ListAllProjects)
      else Inr (quota_threshold_sweep ok prefs now projects db))"

section \<open>Admission: what a passed check means\<close>

lemma limits_row_roundtrip [simp]: "limits_from_row (limits_to_row l) = l"
  by (cases l) (auto simp: limits_from_row_def limits_to_row_def split: option.splits)

text \<open>The specification: every capped dimension, with the delta added, is within its cap.\<close>

definition within_limits :: "('f::{linorder, plus}) limits \<Rightarrow> 'f usage \<Rightarrow> int \<Rightarrow> 'f \<Rightarrow> int \<Rightarrow> bool" where
  "within_limits l cur a c m \<longleftrightarrow>
     (case max_applications l of None \<Rightarrow> True | Some n \<Rightarrow> applications cur + a \<le> n) \<and>
     (case max_cpu l of None \<Rightarrow> True | Some n \<Rightarrow> cpu cur + c \<le> n) \<and>
     (case max_memory_mb l of None \<Rightarrow> True | Some n \<Rightarrow> (memory_bytes cur + m) div mib \<le> n)"

text \<open>The figures a check adds up stay in \<open>int64\<close>, and memory is not negative.\<close>

definition sane_figures :: "'f usage \<Rightarrow> int \<Rightarrow> int \<Rightarrow> bool" where
  "sane_figures cur a m \<longleftrightarrow> int64_range (applications cur + a) \<and>
     0 \<le> memory_bytes cur + m \<and> memory_bytes cur + m < 2 ^ 63"

lemma check_delta_within:
  assumes "sane_figures cur a m"
  shows "check_delta sc l cur a c m = Inr () \<longleftrightarrow> within_limits l cur a c m"
proof -
  have "wrap64 (applications cur + a) = applications cur + a"
    using assms by (simp add: sane_figures_def wrap64_id)
  moreover have "quot (wrap64 (memory_bytes cur + m)) mib = (memory_bytes cur + m) div mib"
    using assms by (simp add: sane_figures_def wrap64_id int64_range_def quot_nonneg mib_def)
  ultimately show ?thesis
    by (auto simp: check_delta_def within_limits_def Let_def res_simps not_less split: option.splits)
qed

lemma limits_for_ok:
  "limits_for ok db sc sid = Inr l \<longleftrightarrow> ok GetQuota \<and>
     l = (case quotas db (sc, sid) of None \<Rightarrow> \<lparr>max_applications = None, max_cpu = None, max_memory_mb = None\<rparr>
          | Some r \<Rightarrow> limits_from_row r)"
  by (auto simp: limits_for_def split: option.splits)

lemma usage_of_ok:
  "usage_of ok q1 q2 xs = Inr us \<longleftrightarrow> ok q1 \<and> ok q2 \<and> int64_range (sum_list (map app_memory_limit xs)) \<and>
     us = \<lparr>applications = int (length xs), cpu = sum_cpu xs, memory_bytes = sum_list (map app_memory_limit xs)\<rparr>"
  by (auto simp: usage_of_def sum_memory_def Let_def split: option.splits if_splits)

lemma check_scopes_ok:
  "check_scopes ok db p u a c m = Inr () \<longleftrightarrow>
     (\<exists>pl pu ul uu. limits_for ok db ScopeProject p = Inr pl \<and> usage_for_project ok db p = Inr pu \<and>
        check_delta ScopeProject pl pu a c m = Inr () \<and>
        limits_for ok db ScopeUser u = Inr ul \<and> usage_for_user ok db u = Inr uu \<and>
        check_delta ScopeUser ul uu a c m = Inr ())"
  by (auto simp: check_scopes_def res_simps)

text \<open>
  creating an application succeeds in the quota check exactly when the owner's and the
  project's usage, each with the new application's slot, CPU and memory added, are within the
  caps that are set. An absent quota row caps nothing. The lookups succeed and the figures fit
  \<open>int64\<close>; a requested memory that would make a total negative is excluded.
\<close>
theorem check_application_create_correct:
  assumes "limits_for ok db ScopeProject p = Inr pl" "usage_for_project ok db p = Inr pu"
    and "limits_for ok db ScopeUser u = Inr ul" "usage_for_user ok db u = Inr uu"
    and "sane_figures pu 1 m" "sane_figures uu 1 m"
  shows "check_application_create ok db p u c m = Inr () \<longleftrightarrow>
           within_limits pl pu 1 c m \<and> within_limits ul uu 1 c m"
  using assms by (simp add: check_application_create_def check_scopes_ok check_delta_within)

text \<open>A database with a project cap (one application, 2 cores, 512 MB) and one project.\<close>

definition demo_quota_db :: "rat app_row list \<Rightarrow> rat quota_db" where
  "demo_quota_db xs =
     \<lparr>quotas = [(ScopeProject, 7) \<mapsto> limits_to_row \<lparr>max_applications = Some 2, max_cpu = Some 2, max_memory_mb = Some 512\<rparr>],
      apps = xs, owner_of = [7 \<mapsto> 1], alert_state = Map.empty\<rparr>"

lemmas quota_eval = demo_quota_db_def limits_for_def usage_for_project_def usage_for_user_def project_apps_def
  user_apps_def usage_of_def sum_memory_def sum_cpu_def sane_figures_def within_limits_def mib_def int64_range_def

theorem check_application_create_correct_witness:
  "check_application_create (\<lambda>_. True) (demo_quota_db []) 7 1 2 (512 * mib) = Inr () \<and>
   check_application_create (\<lambda>_. True) (demo_quota_db []) 7 1 2 (513 * mib) \<noteq> Inr ()"
proof -
  let ?l = "\<lparr>max_applications = Some 2, max_cpu = Some 2, max_memory_mb = Some 512\<rparr> :: rat limits"
  let ?n = "\<lparr>max_applications = None, max_cpu = None, max_memory_mb = None\<rparr> :: rat limits"
  let ?u = "\<lparr>applications = 0, cpu = 0, memory_bytes = 0\<rparr> :: rat usage"
  have look: "limits_for (\<lambda>_. True) (demo_quota_db []) ScopeProject 7 = Inr ?l"
    "usage_for_project (\<lambda>_. True) (demo_quota_db []) 7 = Inr ?u"
    "limits_for (\<lambda>_. True) (demo_quota_db []) ScopeUser 1 = Inr ?n"
    "usage_for_user (\<lambda>_. True) (demo_quota_db []) 1 = Inr ?u"
    by (simp_all add: quota_eval)
  have fit: "sane_figures ?u 1 (512 * mib)" "sane_figures ?u 1 (513 * mib)"
    by (simp_all add: quota_eval)
  show ?thesis
    using check_application_create_correct [OF look fit(1) fit(1), of 2]
      check_application_create_correct [OF look fit(2) fit(2), of 2]
    by (simp add: within_limits_def mib_def)
qed

section \<open>Admission keeps the fleet inside its quota\<close>

definition add_app :: "'f app_row \<Rightarrow> 'f quota_db \<Rightarrow> 'f quota_db" where
  "add_app a db = db\<lparr>apps := a # apps db\<rparr>"

lemma limits_for_add_app [simp]: "limits_for ok (add_app a db) sc sid = limits_for ok db sc sid"
  by (simp add: limits_for_def add_app_def)

lemma filtered_memory:
  assumes "\<And>a. a \<in> set xs \<Longrightarrow> 0 \<le> app_memory_limit a"
  shows "0 \<le> sum_list (map app_memory_limit (filter P xs)) \<and>
         sum_list (map app_memory_limit (filter P xs)) \<le> sum_list (map app_memory_limit xs)"
  using assms by (induction xs) (auto simp: add_increasing)

lemma usage_after_add:
  assumes "usage_of ok q1 q2 xs = Inr us"
    and "int64_range (memory_bytes us + app_memory_limit a)"
  shows "usage_of ok q1 q2 (a # xs) = Inr \<lparr>applications = applications us + 1, cpu = sum_cpu (a # xs),
           memory_bytes = memory_bytes us + app_memory_limit a\<rparr>"
  using assms by (auto simp: usage_of_ok add.commute)

text \<open>
  CPU figures are floating point, summed by the database. The total after the insertion is not above the
  one the check compared: rounding aside it is the same figure.
\<close>

definition cpu_sum_settles :: "('f::{linorder, plus, zero}) app_row \<Rightarrow> 'f app_row list \<Rightarrow> bool" where
  "cpu_sum_settles a xs \<longleftrightarrow> sum_cpu (a # xs) + 0 \<le> sum_cpu xs + app_cpu_limit a"

lemma within_limits_settled:
  "within_limits l us a c m \<Longrightarrow> s + 0 \<le> cpu us + c \<Longrightarrow>
     within_limits l \<lparr>applications = applications us + a, cpu = s, memory_bytes = memory_bytes us + m\<rparr> 0 0 0"
  by (auto simp: within_limits_def split: option.splits)

text \<open>One scope: a passed check with the new row's figures leaves the scope inside its caps.\<close>

lemma scope_settled:
  assumes ok: "check_delta sc l us 1 (app_cpu_limit a) (app_memory_limit a) = Inr ()"
    and us: "usage_of ok' q1 q2 xs = Inr us"
    and rows: "\<And>b. b \<in> set xs \<Longrightarrow> 0 \<le> app_memory_limit b" "0 \<le> app_memory_limit a"
    and total: "sum_list (map app_memory_limit xs) + app_memory_limit a < 2 ^ 63" "int (length xs) < 2 ^ 62"
    and exact: "cpu_sum_settles a xs"
  shows "\<exists>us'. usage_of ok' q1 q2 (a # xs) = Inr us' \<and> check_delta sc l us' 0 0 0 = Inr ()"
proof -
  have mem: "memory_bytes us = sum_list (map app_memory_limit xs)" "applications us = int (length xs)" "cpu us = sum_cpu xs"
    using us by (auto simp: usage_of_ok)
  have nonneg: "0 \<le> memory_bytes us"
    unfolding mem using filtered_memory [of xs "\<lambda>_. True"] rows(1) by simp
  have sane: "sane_figures us 1 (app_memory_limit a)"
    using nonneg rows(2) total by (simp add: sane_figures_def mem int64_range_def)
  define us' where "us' = \<lparr>applications = applications us + 1, cpu = sum_cpu (a # xs),
           memory_bytes = memory_bytes us + app_memory_limit a\<rparr>"
  have "usage_of ok' q1 q2 (a # xs) = Inr us'"
    unfolding us'_def using us nonneg rows(2) total by (intro usage_after_add) (auto simp: mem int64_range_def)
  moreover have "within_limits l us' 0 0 0"
    unfolding us'_def using ok sane exact
    by (intro within_limits_settled [where c = "app_cpu_limit a"]) (simp_all add: check_delta_within cpu_sum_settles_def mem(3))
  moreover have "sane_figures us' 0 0"
    using sane by (simp add: sane_figures_def us'_def)
  ultimately show ?thesis by (auto simp: check_delta_within)
qed

text \<open>
  C37: an application admitted by the check and then inserted leaves project and owner within
  quota: the deploy worker's own check of the fleet passes right afterwards, when no stored memory limit
  nor the new one is negative, their total is below \<open>2 ^ 63\<close> (and the number of applications below \<open>2 ^ 62\<close>), and,
  CPU being floating point, the CPU total of the project and of the owner that the database returns after
  the insertion is not rounded above the sum the check compared.
\<close>
theorem create_keeps_within_quota:
  fixes db :: "('f::{linorder, plus, zero}) quota_db"
  assumes admitted: "check_application_create ok db p u c m = Inr ()"
    and owner: "owner_of db p = Some u"
    and rows: "\<forall>a \<in> set (apps db). 0 \<le> app_memory_limit a" "0 \<le> m"
    and total: "sum_list (map app_memory_limit (apps db)) + m < 2 ^ 63" "int (length (apps db)) < 2 ^ 62"
    and exact: "cpu_sum_settles \<lparr>app_project = p, app_cpu_limit = c, app_memory_limit = m\<rparr> (project_apps db p)"
      "cpu_sum_settles \<lparr>app_project = p, app_cpu_limit = c, app_memory_limit = m\<rparr> (user_apps db u)"
  shows "check_current_usage ok (add_app \<lparr>app_project = p, app_cpu_limit = c, app_memory_limit = m\<rparr> db) p u = Inr ()"
proof -
  let ?a = "\<lparr>app_project = p, app_cpu_limit = c, app_memory_limit = m\<rparr>"
  have sub: "sum_list (map app_memory_limit (filter P (apps db))) + m < 2 ^ 63 \<and>
      int (length (filter P (apps db))) < 2 ^ 62" for P
    using filtered_memory [of "apps db" P] rows(1) total
    by (auto intro: le_less_trans [OF length_filter_le])
  have new: "project_apps (add_app ?a db) p = ?a # project_apps db p"
    "user_apps (add_app ?a db) u = ?a # user_apps db u"
    using owner by (simp_all add: project_apps_def user_apps_def add_app_def)
  obtain pl pu ul uu where l: "limits_for ok db ScopeProject p = Inr pl" "limits_for ok db ScopeUser u = Inr ul"
    and us: "usage_for_project ok db p = Inr pu" "usage_for_user ok db u = Inr uu"
    and chk: "check_delta ScopeProject pl pu 1 c m = Inr ()" "check_delta ScopeUser ul uu 1 c m = Inr ()"
    using admitted by (auto simp: check_application_create_def check_scopes_ok)
  have "\<exists>pu'. usage_for_project ok (add_app ?a db) p = Inr pu' \<and> check_delta ScopeProject pl pu' 0 0 0 = Inr ()"
    unfolding usage_for_project_def new
    using rows chk(1) us(1) sub [of "\<lambda>a. app_project a = p"] exact(1)
    by (intro scope_settled [where us = pu]) (auto simp: usage_for_project_def project_apps_def)
  moreover have "\<exists>uu'. usage_for_user ok (add_app ?a db) u = Inr uu' \<and> check_delta ScopeUser ul uu' 0 0 0 = Inr ()"
    unfolding usage_for_user_def new
    using rows chk(2) us(2) sub [of "\<lambda>a. owner_of db (app_project a) = Some u"] exact(2)
    by (intro scope_settled [where us = uu]) (auto simp: usage_for_user_def user_apps_def)
  ultimately show ?thesis
    using l by (auto simp: check_current_usage_def check_scopes_ok)
qed

theorem create_keeps_within_quota_witness:
  "check_current_usage (\<lambda>_. True) (add_app \<lparr>app_project = 7, app_cpu_limit = 2, app_memory_limit = mib\<rparr> (demo_quota_db [])) 7 1 = Inr ()"
proof (rule create_keeps_within_quota)
  show "check_application_create (\<lambda>_. True) (demo_quota_db []) 7 1 2 mib = Inr ()"
    by (simp add: quota_eval check_application_create_def check_scopes_def check_delta_def guard_err_def
        limits_row_roundtrip wrap64_def quot_def)
qed (simp_all add: quota_eval cpu_sum_settles_def)

section \<open>Admission: negative requests\<close>

text \<open>
  \<open>CreateApplication\<close> passes the request's \<open>memory_limit\<close> on unchecked, and a stored negative
  limit lowers the sum every later check compares. on an empty project whose only cap is
  \<open>cap\<close> MB, an application asking for \<open>-want\<close> bytes is admitted, and after it one asking for
  \<open>want\<close>, whatever \<open>want\<close> is; the cap does not bound the memory of the second.
\<close>
theorem negative_memory_evades_cap:
  fixes db :: "rat quota_db"
  assumes empty: "apps db = []" and owner: "owner_of db p = Some u"
    and quota: "quotas db (ScopeProject, p) = Some (limits_to_row \<lparr>max_applications = None, max_cpu = None, max_memory_mb = Some cap\<rparr>)"
    and user: "quotas db (ScopeUser, u) = None"
    and want: "0 \<le> cap" "0 < want" "want < 2 ^ 63"
  shows "check_application_create (\<lambda>_. True) db p u 0 (- want) = Inr () \<and>
         check_application_create (\<lambda>_. True)
           (add_app \<lparr>app_project = p, app_cpu_limit = 0, app_memory_limit = - want\<rparr> db) p u 0 want = Inr ()"
proof -
  have "int64_range (- want)" and *: "wrap64 (- want) = - want" "wrap64 0 = 0"
    using want by (simp_all add: int64_range_def wrap64_id)
  moreover have "quot (- want) mib \<le> cap" "quot 0 mib \<le> cap"
    using want(1,2) by (simp_all add: quot_def mib_def sgn_if)
  ultimately show ?thesis
    using assms
    by (simp add: check_application_create_def check_scopes_ok limits_for_ok usage_for_project_def
        usage_for_user_def project_apps_def user_apps_def add_app_def usage_of_ok check_delta_def
        guard_err_def int64_range_def)
qed

theorem negative_memory_evades_cap_witness:
  "\<exists>db :: rat quota_db. quotas db (ScopeProject, 7) =
       Some (limits_to_row \<lparr>max_applications = None, max_cpu = None, max_memory_mb = Some 512\<rparr>) \<and>
     check_application_create (\<lambda>_. True)
       (add_app \<lparr>app_project = 7, app_cpu_limit = 0, app_memory_limit = - 4096 * mib\<rparr> db) 7 1 0 (4096 * mib) = Inr ()"
proof -
  let ?db = "\<lparr>quotas = [(ScopeProject, 7) \<mapsto> limits_to_row \<lparr>max_applications = None, max_cpu = None, max_memory_mb = Some 512\<rparr>],
      apps = [], owner_of = [7 \<mapsto> 1], alert_state = Map.empty\<rparr> :: rat quota_db"
  have "check_application_create (\<lambda>_. True)
       (add_app \<lparr>app_project = 7, app_cpu_limit = 0, app_memory_limit = - (4096 * mib)\<rparr> ?db) 7 1 0 (4096 * mib) = Inr ()"
    using negative_memory_evades_cap [of ?db 7 1 512 "4096 * mib"] by (simp add: mib_def)
  then show ?thesis by (intro exI [of _ ?db]) simp
qed

section \<open>Alerts: one per crossing\<close>

text \<open>
  The abstract alert: a stored percentage, fed one observed percentage at a time.
  \<open>alert_next\<close> is the new stored value, \<open>alert_trace\<close> which observations fire.
\<close>

definition alert_next :: "int \<Rightarrow> int \<Rightarrow> int \<Rightarrow> int" where
  "alert_next thr lst c =
     (case eval_threshold lst thr c alert_hysteresis of (fire, reset) \<Rightarrow>
        if reset then 0 else if fire then c else lst)"

fun alert_trace :: "int \<Rightarrow> int \<Rightarrow> int list \<Rightarrow> bool list" where
  "alert_trace thr lst [] = []"
| "alert_trace thr lst (c # cs) =
     fst (eval_threshold lst thr c alert_hysteresis) # alert_trace thr (alert_next thr lst c) cs"

lemma length_alert_trace [simp]: "length (alert_trace thr lst cs) = length cs"
  by (induction cs arbitrary: lst) auto

text \<open>While the stored value is at or above the threshold nothing fires before a drop.\<close>

lemma armed_only_by_drop:
  assumes "thr \<le> lst" "j < length cs" "alert_trace thr lst cs ! j"
  shows "\<exists>k<j. cs ! k \<le> thr - alert_hysteresis"
  using assms
proof (induction cs arbitrary: lst j)
  case (Cons c cs)
  from Cons.prems have j: "j \<noteq> 0"
    by (cases j) (auto simp: eval_threshold_def Let_def)
  then obtain i where i: "j = Suc i" by (cases j) auto
  show ?case
  proof (cases "c \<le> thr - alert_hysteresis")
    case True
    then show ?thesis using j by (intro exI [of _ 0]) auto
  next
    case False
    then have "alert_next thr lst c = lst"
      using Cons.prems(1) by (auto simp: alert_next_def eval_threshold_def Let_def)
    then obtain k where "k < i" "cs ! k \<le> thr - alert_hysteresis"
      using Cons.IH [of lst i] Cons.prems i by auto
    then show ?thesis using i by (intro exI [of _ "Suc k"]) auto
  qed
qed simp

lemma fires_separated:
  assumes "i < j" "j < length cs"
    and "alert_trace thr lst cs ! i" "alert_trace thr lst cs ! j"
  shows "\<exists>k. i < k \<and> k < j \<and> cs ! k \<le> thr - alert_hysteresis"
  using assms
proof (induction i arbitrary: lst j cs)
  case 0
  then obtain c rest where cs: "cs = c # rest" by (cases cs) auto
  obtain j' where j: "j = Suc j'" using "0.prems"(1) by (cases j) auto
  have "thr \<le> alert_next thr lst c"
    using "0.prems"(3) by (auto simp: cs alert_next_def eval_threshold_def Let_def)
  then obtain k where "k < j'" "rest ! k \<le> thr - alert_hysteresis"
    using armed_only_by_drop "0.prems" cs j by (metis Suc_less_eq alert_trace.simps(2) length_Cons nth_Cons_Suc)
  then show ?case using cs j by (intro exI [of _ "Suc k"]) auto
next
  case (Suc i)
  then obtain c rest where cs: "cs = c # rest" by (cases cs) auto
  obtain j' where j: "j = Suc j'" using Suc.prems(1) by (cases j) auto
  obtain k where "i < k" "k < j'" "rest ! k \<le> thr - alert_hysteresis"
    using Suc.IH [of j' rest "alert_next thr lst c"] Suc.prems cs j by auto
  then show ?case using cs j by (intro exI [of _ "Suc k"]) auto
qed

text \<open>
  in every sequence of observed usage percentages, between two alerts there is an
  observation at least \<open>alertHysteresis\<close> (10) points below the threshold: hovering around the
  threshold alerts once.
\<close>
theorem alert_once_per_crossing:
  assumes "i < j" "j < length cs"
    and "alert_trace thr lst cs ! i" "alert_trace thr lst cs ! j"
  shows "\<exists>k. i < k \<and> k < j \<and> cs ! k \<le> thr - alert_hysteresis"
  using assms by (rule fires_separated)

theorem alert_once_per_crossing_witness:
  "alert_trace 80 0 [85, 75, 90, 70, 80] = [True, False, False, False, True] \<and>
   (\<exists>k. 0 < k \<and> k < 4 \<and> [85, 75, 90, 70, 80] ! k \<le> (80 - alert_hysteresis :: int))"
proof -
  have t: "alert_trace 80 0 [85, 75, 90, 70, 80] = [True, False, False, False, True]"
    by (simp add: alert_next_def eval_threshold_def alert_hysteresis_def)
  then show ?thesis
    using alert_once_per_crossing [of 0 4 "[85, 75, 90, 70, 80]" 80 0] by simp
qed

text \<open>
  \<open>MaybeAlertProjectThreshold\<close> is one step of that trace: on a project with a positive cap it
  returns an alert exactly when the trace fires on the usage percentage, and the row it leaves
  stores the trace's next value.
\<close>

definition stored_percent :: "'f quota_db \<Rightarrow> uuid \<Rightarrow> int" where
  "stored_percent db p = (case alert_state db (ScopeProject, p) of None \<Rightarrow> 0 | Some st \<Rightarrow> last_alerted_percent st)"

theorem alert_refines_trace:
  fixes db :: "rat quota_db"
  assumes lim: "limits_for (\<lambda>_. True) db ScopeProject p = Inr l" "max_applications l = Some n" "0 < n"
    and us: "usage_for_project (\<lambda>_. True) db p = Inr us"
    and fit: "applications us * 100 < 2 ^ 31"
  shows "let c = applications us * 100 div n;
             res = maybe_alert_project_threshold (\<lambda>_. True) now p thr db
         in fst res = Inr (if fst (eval_threshold (stored_percent db p) thr c alert_hysteresis)
                           then Some \<lparr>alert_project = p, alert_percent = c, alert_threshold = thr\<rparr> else None) \<and>
            stored_percent (snd res) p = alert_next thr (stored_percent db p) c"
proof -
  have pos: "0 \<le> applications us"
    using us by (auto simp: usage_for_project_def usage_of_ok)
  define c where "c = applications us * 100 div n"
  have "quot (wrap64 (applications us * 100)) n = c"
    using pos fit lim(3) by (simp add: c_def wrap64_id int64_range_def quot_nonneg)
  moreover have "wrap32 c = c"
  proof (rule wrap32_id)
    have "c \<le> applications us * 100"
      using pos lim(3) zdiv_mono2 [of "applications us * 100" 1 n] by (simp add: c_def)
    then show "c < 2 ^ 31" using fit by simp
    have "0 \<le> c" using pos lim(3) by (simp add: c_def pos_imp_zdiv_nonneg_iff)
    then show "- (2 ^ 31) \<le> c" by simp
  qed
  ultimately show ?thesis
    using lim us
    by (simp add: maybe_alert_project_threshold_def Let_def eval_threshold_def alert_next_def stored_percent_def
        flip: c_def)
qed

theorem alert_refines_trace_witness:
  "fst (maybe_alert_project_threshold (\<lambda>_. True) 0 7 80
          (demo_quota_db [\<lparr>app_project = 7, app_cpu_limit = 0, app_memory_limit = 0\<rparr>,
                          \<lparr>app_project = 7, app_cpu_limit = 0, app_memory_limit = 0\<rparr>]))
   = Inr (Some \<lparr>alert_project = 7, alert_percent = 100, alert_threshold = 80\<rparr>)"
proof -
  let ?a = "\<lparr>app_project = 7, app_cpu_limit = 0, app_memory_limit = 0\<rparr> :: rat app_row"
  let ?l = "\<lparr>max_applications = Some 2, max_cpu = Some 2, max_memory_mb = Some 512\<rparr> :: rat limits"
  let ?u = "\<lparr>applications = 2, cpu = 0, memory_bytes = 0\<rparr> :: rat usage"
  have "limits_for (\<lambda>_. True) (demo_quota_db [?a, ?a]) ScopeProject 7 = Inr ?l"
    "usage_for_project (\<lambda>_. True) (demo_quota_db [?a, ?a]) 7 = Inr ?u"
    by (simp_all add: quota_eval)
  from alert_refines_trace [OF this(1) _ _ this(2), of 2 0 80] show ?thesis
    by (simp add: Let_def stored_percent_def demo_quota_db_def eval_threshold_def)
qed

text \<open>
  a project whose application cap is 0 stops the sweep. \<open>UpsertQuota\<close> accepts the cap, the
  usage percentage divides by it, and no later project of the sweep is looked at: nothing is
  sent for any of them.
\<close>
theorem zero_cap_stops_sweep:
  fixes db :: "rat quota_db"
  assumes "quotas db (ScopeProject, p) = Some (limits_to_row \<lparr>max_applications = Some 0, max_cpu = c, max_memory_mb = m\<rparr>)"
    and "usage_for_project (\<lambda>_. True) db p = Inr us"
    and "prefs owner = None"
  shows "let s = quota_threshold_sweep (\<lambda>_. True) prefs now ((p, owner) # rest) db
         in sweep_panicked s \<and> sweep_sent s = [] \<and> sweep_db s = db"
proof -
  let ?s0 = "\<lparr>sweep_db = db, sweep_sent = [], sweep_errors = [], sweep_panicked = False\<rparr>"
  let ?s1 = "sweep_project (\<lambda>_. True) prefs now ?s0 (p, owner)"
  have s1: "?s1 = ?s0\<lparr>sweep_panicked := True\<rparr>"
    using assms by (simp add: sweep_project_def maybe_send_quota_alert_def maybe_alert_project_threshold_def
        limits_for_def)
  have "sweep_panicked s \<Longrightarrow> foldl (sweep_project (\<lambda>_. True) prefs now) s rest = s" for s :: "rat sweep"
    by (induction rest) (simp_all add: sweep_project_def)
  then show ?thesis by (simp add: quota_threshold_sweep_def s1)
qed

theorem zero_cap_stops_sweep_witness:
  "\<exists>db :: rat quota_db. \<forall>rest. sweep_sent (quota_threshold_sweep (\<lambda>_. True) Map.empty 0 ((7, 1) # rest) db) = []"
proof -
  let ?db = "\<lparr>quotas = [(ScopeProject, 7) \<mapsto> limits_to_row \<lparr>max_applications = Some 0, max_cpu = None, max_memory_mb = None\<rparr>],
      apps = [], owner_of = [7 \<mapsto> 1], alert_state = Map.empty\<rparr> :: rat quota_db"
  have "usage_for_project (\<lambda>_. True) ?db 7 = Inr \<lparr>applications = 0, cpu = 0, memory_bytes = 0\<rparr>"
    by (simp add: quota_eval)
  then show ?thesis
    using zero_cap_stops_sweep [of ?db 7 None None _ Map.empty 1 0]
    by (intro exI [of _ ?db]) (simp add: Let_def)
qed

text \<open>
  below a threshold of 10 the alert never re-arms: usage is never negative, so the drop it
  waits for cannot happen, and such a project is alerted at most once, whatever its usage does.
\<close>
theorem low_threshold_alerts_once:
  assumes "thr < alert_hysteresis" "\<forall>c \<in> set cs. 0 \<le> c"
    and "i < length cs" "j < length cs" "alert_trace thr lst cs ! i" "alert_trace thr lst cs ! j"
  shows "i = j"
proof (rule ccontr)
  assume "i \<noteq> j"
  then obtain k where "k < length cs" "cs ! k \<le> thr - alert_hysteresis"
    using fires_separated [of i j cs thr lst] fires_separated [of j i cs thr lst] assms(3-6)
    by (metis less_trans neqE)
  moreover from this(1) have "0 \<le> cs ! k" using assms(2) by simp
  ultimately show False using assms(1) by linarith
qed

theorem low_threshold_alerts_once_witness:
  "alert_trace 5 0 [6, 0, 50] ! 0 \<and> \<not> alert_trace 5 0 [6, 0, 50] ! 2"
proof -
  have "alert_trace 5 0 [6, 0, 50] ! 0"
    by (simp add: eval_threshold_def)
  then show ?thesis
    using low_threshold_alerts_once [of 5 "[6, 0, 50]" 0 2 0] by (auto simp: alert_hysteresis_def)
qed

end
