(* ===== verification/Authz.thy ===== *)
theory Authz
  imports Prelude
begin

text \<open>
  Authorization: the scopes and the project pin of a personal access token
  (\<open>internal/server/middleware/scope.go\<close>), ownership and sharing on the REST side
  (\<open>internal/handler/authz.go\<close>), the same decision for MCP tools
  (\<open>internal/mcpserver/access.go\<close>, \<open>scope.go\<close>) and for WebSocket channels
  (\<open>internal/handler/ws_authz.go\<close>).

  The parser of textual UUIDs (\<open>pgtype.UUID.Scan\<close>, a third-party package) is the parameter
  \<open>scan\<close>. A row lookup is a value of \<open>lookup\<close>: found, absent, or failed.
\<close>

section \<open>UUIDs in canonical form\<close>

definition hex_char :: "nat \<Rightarrow> char" where
  "hex_char d = ''0123456789abcdef'' ! d"

fun hex_digits :: "nat \<Rightarrow> nat \<Rightarrow> string" where
  "hex_digits 0 n = []"
| "hex_digits (Suc k) n = hex_digits k (n div 16) @ [hex_char (n mod 16)]"

definition uuid_string :: "uuid \<Rightarrow> string" where
  "uuid_string u =
     (let h = hex_digits 32 u
      in take 8 h @ ''-'' @ take 4 (drop 8 h) @ ''-'' @ take 4 (drop 12 h) @ ''-''
         @ take 4 (drop 16 h) @ ''-'' @ drop 20 h)"

lemma length_hex_digits [simp]: "length (hex_digits k n) = k"
  by (induction k arbitrary: n) auto

lemma hex_char_inj: "a < 16 \<Longrightarrow> b < 16 \<Longrightarrow> hex_char a = hex_char b \<Longrightarrow> a = b"
  unfolding hex_char_def by (rule ccontr) (auto simp: less_Suc_eq eval_nat_numeral)

lemma hex_digits_inj:
  "m < 16 ^ k \<Longrightarrow> n < 16 ^ k \<Longrightarrow> hex_digits k m = hex_digits k n \<Longrightarrow> m = n"
proof (induction k arbitrary: m n)
  case (Suc k)
  then have "hex_digits k (m div 16) = hex_digits k (n div 16)" and "hex_char (m mod 16) = hex_char (n mod 16)"
    by auto
  then have "m div 16 = n div 16" "m mod 16 = n mod 16"
    using Suc.IH [of "m div 16" "n div 16"] Suc.prems hex_char_inj [of "m mod 16" "n mod 16"]
    by (auto simp: less_mult_imp_div_less mult.commute)
  then show ?case by (metis div_mult_mod_eq)
qed simp

lemma uuid_string_inj:
  assumes "u < 2 ^ 128" "v < 2 ^ 128" "uuid_string u = uuid_string v"
  shows "u = v"
proof -
  let ?h = "hex_digits 32 u" and ?k = "hex_digits 32 v"
  have parts: "take 8 ?h = take 8 ?k" "take 4 (drop 8 ?h) = take 4 (drop 8 ?k)"
    "take 4 (drop 12 ?h) = take 4 (drop 12 ?k)" "take 4 (drop 16 ?h) = take 4 (drop 16 ?k)"
    "drop 20 ?h = drop 20 ?k"
    using assms(3) by (auto simp: uuid_string_def Let_def append_eq_append_conv)
  have cat: "h = take 8 h @ take 4 (drop 8 h) @ take 4 (drop 12 h) @ take 4 (drop 16 h) @ drop 20 h"
    for h :: string
    using take_drop_step [of 8 0 h] take_drop_step [of 4 8 h] take_drop_step [of 4 12 h]
      take_drop_step [of 4 16 h] by simp
  have "?h = ?k" using cat [of ?h] cat [of ?k] parts by simp
  then show ?thesis using assms(1,2) by (intro hex_digits_inj [of u 32 v]) simp_all
qed

section \<open>The caller\<close>

text \<open>What \<open>Auth\<close> puts into the request context. \<open>ctx_scopes\<close> is \<open>None\<close> for a session.\<close>

record caller =
  ctx_user_id :: string
  ctx_role :: string
  ctx_token_id :: string
  ctx_scopes :: "string list option"
  ctx_pinned :: bool
  ctx_project_ids :: "string list option"

definition token_projects :: "caller \<Rightarrow> string list option" where
  "token_projects c =
     (if \<not> ctx_pinned c then None
      else case ctx_project_ids c of None \<Rightarrow> Some [] | Some ids \<Rightarrow> Some ids)"

section \<open>Scopes\<close>

fun scope_grants :: "string \<Rightarrow> string list" where
  "scope_grants required =
     (if required = ''read'' then [''read'', ''write'', ''deploy'']
      else if required = ''write'' then [''write'']
      else if required = ''deploy'' then [''deploy'', ''write'']
      else if required = ''metrics'' then [''metrics'', ''read'', ''write'', ''deploy'']
      else [])"

definition scope_satisfies :: "string list \<Rightarrow> string \<Rightarrow> bool" where
  "scope_satisfies token_scopes required \<longleftrightarrow>
     list_ex (\<lambda>s. list_ex (\<lambda>g. s = g) (scope_grants required)) token_scopes"

definition require_scope :: "string \<Rightarrow> caller \<Rightarrow> bool" where
  "require_scope required c =
     (case ctx_scopes c of None \<Rightarrow> True | Some scopes \<Rightarrow> scope_satisfies scopes required)"

definition require_scope_by_method :: "string \<Rightarrow> caller \<Rightarrow> bool" where
  "require_scope_by_method method c =
     require_scope (if method = ''GET'' \<or> method = ''HEAD'' \<or> method = ''OPTIONS'' then ''read'' else ''write'') c"

section \<open>The pin\<close>

definition pin_allows :: "caller \<Rightarrow> string \<Rightarrow> bool" where
  "pin_allows c project_id =
     (case token_projects c of None \<Rightarrow> True | Some ids \<Rightarrow> project_id \<in> set ids)"

definition deny_pinned_token :: "caller \<Rightarrow> bool" where
  "deny_pinned_token c \<longleftrightarrow> \<not> ctx_pinned c"

definition require_pinned_project_match :: "string \<Rightarrow> caller \<Rightarrow> bool" where
  "require_pinned_project_match requested c \<longleftrightarrow> requested = '''' \<or> pin_allows c requested"

definition require_session :: "caller \<Rightarrow> bool" where
  "require_session c \<longleftrightarrow> ctx_token_id c = ''''"

definition require_token :: "caller \<Rightarrow> bool" where
  "require_token c \<longleftrightarrow> ctx_token_id c \<noteq> ''''"

definition require_role :: "string list \<Rightarrow> caller \<Rightarrow> bool" where
  "require_role roles c \<longleftrightarrow> ctx_role c \<in> set roles"

section \<open>Ownership and sharing\<close>

text \<open>An owner row: the resource's own project, the project's owner and whether it is shared.\<close>

record owner_row =
  own_project :: uuid
  own_user :: "uuid option"
  own_shared :: bool

datatype 'a lookup = Found 'a | Absent | Failed

definition owner_may_access :: "(string \<Rightarrow> uuid option) \<Rightarrow> caller \<Rightarrow> uuid option \<Rightarrow> bool \<Rightarrow> bool" where
  "owner_may_access scan c owner shared \<longleftrightarrow>
     ctx_role c = ''admin'' \<or> shared \<or> owner = scan (ctx_user_id c)"

definition owner_is_caller :: "(string \<Rightarrow> uuid option) \<Rightarrow> caller \<Rightarrow> uuid option \<Rightarrow> bool \<Rightarrow> bool" where
  "owner_is_caller scan c owner shared \<longleftrightarrow>
     ctx_role c = ''admin'' \<or> owner = scan (ctx_user_id c)"

definition owned_access ::
    "caller \<Rightarrow> owner_row lookup \<Rightarrow> (caller \<Rightarrow> uuid option \<Rightarrow> bool \<Rightarrow> bool) \<Rightarrow> bool" where
  "owned_access c get_owner allow =
     (if \<not> ctx_pinned c \<and> ctx_role c = ''admin'' then True
      else case get_owner of
        Found row \<Rightarrow>
          if \<not> pin_allows c (uuid_string (own_project row)) then False
          else allow c (own_user row) (own_shared row)
      | _ \<Rightarrow> False)"

definition can_access_owned :: "(string \<Rightarrow> uuid option) \<Rightarrow> caller \<Rightarrow> owner_row lookup \<Rightarrow> bool" where
  "can_access_owned scan c get_owner = owned_access c get_owner (owner_may_access scan)"

definition is_owner_only :: "(string \<Rightarrow> uuid option) \<Rightarrow> caller \<Rightarrow> owner_row lookup \<Rightarrow> bool" where
  "is_owner_only scan c get_owner = owned_access c get_owner (owner_is_caller scan)"

text \<open>A git integration has an owner and no project: only the ownership rule applies.\<close>

definition can_access_integration :: "(string \<Rightarrow> uuid option) \<Rightarrow> caller \<Rightarrow> uuid option lookup \<Rightarrow> bool" where
  "can_access_integration scan c owner =
     (case owner of Found o' \<Rightarrow> owner_may_access scan c o' False | _ \<Rightarrow> False)"

definition can_attach_git_integration ::
    "(string \<Rightarrow> uuid option) \<Rightarrow> caller \<Rightarrow> uuid option \<Rightarrow> (uuid \<Rightarrow> uuid option lookup) \<Rightarrow> bool" where
  "can_attach_git_integration scan c integration owner_id =
     (case integration of None \<Rightarrow> True | Some i \<Rightarrow> can_access_integration scan c (owner_id i))"

section \<open>The tables behind the lookups\<close>

record access_db =
  app_owner :: "uuid \<Rightarrow> owner_row lookup"
  database_owner :: "uuid \<Rightarrow> owner_row lookup"
  domain_owner :: "uuid \<Rightarrow> owner_row lookup"
  deployment_owner :: "uuid \<Rightarrow> owner_row lookup"
  project_row :: "uuid \<Rightarrow> owner_row lookup"

definition can_access_application :: "(string \<Rightarrow> uuid option) \<Rightarrow> access_db \<Rightarrow> caller \<Rightarrow> uuid \<Rightarrow> bool" where
  "can_access_application scan db c a = can_access_owned scan c (app_owner db a)"

definition is_application_owner :: "(string \<Rightarrow> uuid option) \<Rightarrow> access_db \<Rightarrow> caller \<Rightarrow> uuid \<Rightarrow> bool" where
  "is_application_owner scan db c a = is_owner_only scan c (app_owner db a)"

definition can_access_database :: "(string \<Rightarrow> uuid option) \<Rightarrow> access_db \<Rightarrow> caller \<Rightarrow> uuid \<Rightarrow> bool" where
  "can_access_database scan db c d = can_access_owned scan c (database_owner db d)"

definition is_database_owner :: "(string \<Rightarrow> uuid option) \<Rightarrow> access_db \<Rightarrow> caller \<Rightarrow> uuid \<Rightarrow> bool" where
  "is_database_owner scan db c d = is_owner_only scan c (database_owner db d)"

definition can_access_domain :: "(string \<Rightarrow> uuid option) \<Rightarrow> access_db \<Rightarrow> caller \<Rightarrow> uuid \<Rightarrow> bool" where
  "can_access_domain scan db c d = can_access_owned scan c (domain_owner db d)"

definition is_domain_owner :: "(string \<Rightarrow> uuid option) \<Rightarrow> access_db \<Rightarrow> caller \<Rightarrow> uuid \<Rightarrow> bool" where
  "is_domain_owner scan db c d = is_owner_only scan c (domain_owner db d)"

section \<open>MCP tools\<close>

datatype mcp_error = AccessDenied | NotFound string | ScopeDenied string | UnknownTool string

definition not_found_or :: "caller \<Rightarrow> string \<Rightarrow> mcp_error" where
  "not_found_or c msg = (if ctx_role c = ''admin'' then NotFound msg else AccessDenied)"

definition mcp_can_access_owned :: "(string \<Rightarrow> uuid option) \<Rightarrow> caller \<Rightarrow> uuid option \<Rightarrow> bool \<Rightarrow> bool" where
  "mcp_can_access_owned scan c owner shared \<longleftrightarrow>
     ctx_role c = ''admin'' \<or> shared \<or> owner = scan (ctx_user_id c)"

definition authorize_project ::
    "(string \<Rightarrow> uuid option) \<Rightarrow> access_db \<Rightarrow> caller \<Rightarrow> uuid \<Rightarrow> mcp_error + owner_row" where
  "authorize_project scan db c p =
     (if \<not> pin_allows c (uuid_string p) then Inl AccessDenied
      else case project_row db p of
        Found row \<Rightarrow> if mcp_can_access_owned scan c (own_user row) (own_shared row) then Inr row else Inl AccessDenied
      | _ \<Rightarrow> Inl (not_found_or c ''project not found''))"

definition authorize_resource ::
    "(string \<Rightarrow> uuid option) \<Rightarrow> string \<Rightarrow> owner_row lookup \<Rightarrow> caller \<Rightarrow> uuid \<Rightarrow> mcp_error + unit" where
  "authorize_resource scan msg owner c p =
     (if \<not> pin_allows c (uuid_string p) then Inl AccessDenied
      else case owner of
        Found row \<Rightarrow> if mcp_can_access_owned scan c (own_user row) (own_shared row) then Inr () else Inl AccessDenied
      | _ \<Rightarrow> Inl (not_found_or c msg))"

definition authorize_application ::
    "(string \<Rightarrow> uuid option) \<Rightarrow> access_db \<Rightarrow> caller \<Rightarrow> uuid \<Rightarrow> uuid \<Rightarrow> mcp_error + unit" where
  "authorize_application scan db c a p = authorize_resource scan ''application not found'' (app_owner db a) c p"

definition authorize_database ::
    "(string \<Rightarrow> uuid option) \<Rightarrow> access_db \<Rightarrow> caller \<Rightarrow> uuid \<Rightarrow> uuid \<Rightarrow> mcp_error + unit" where
  "authorize_database scan db c d p = authorize_resource scan ''database not found'' (database_owner db d) c p"

definition clamp_limit :: "int \<Rightarrow> int \<Rightarrow> int \<Rightarrow> int" where
  "clamp_limit requested def_limit max_limit =
     (if requested \<le> 0 then def_limit else if requested > max_limit then max_limit else requested)"

definition tool_scopes :: "(string \<times> string) list" where
  "tool_scopes =
     [(''list_projects'', ''read''), (''get_project'', ''read''), (''list_applications'', ''read''),
      (''get_application'', ''read''), (''list_databases'', ''read''), (''get_database'', ''read''),
      (''list_deployments'', ''read''), (''get_deployment_logs'', ''read''), (''get_application_logs'', ''read''),
      (''list_domain_tls_status'', ''read''), (''list_project_backups'', ''read''),
      (''trigger_deployment'', ''deploy''),
      (''update_application'', ''write''), (''start_application'', ''write''), (''stop_application'', ''write''),
      (''set_application_env_vars'', ''write''),
      (''set_application_resources'', ''write''), (''set_application_health_check'', ''write''),
      (''set_application_runtime'', ''write''), (''set_database_resources'', ''write''),
      (''create_application'', ''write''), (''create_database'', ''write''), (''create_domain'', ''write'')]"

text \<open>The gate of \<open>tools/call\<close>: \<open>params\<close> is the called tool's name where the request has one.\<close>

definition require_tool_scope :: "caller \<Rightarrow> string \<Rightarrow> string option \<Rightarrow> mcp_error + unit" where
  "require_tool_scope c method params =
     (if method \<noteq> ''tools/call'' then Inr ()
      else case params of
        None \<Rightarrow> Inl (ScopeDenied '''')
      | Some tool \<Rightarrow>
          (case map_of tool_scopes tool of
             None \<Rightarrow> Inl (UnknownTool tool)
           | Some required \<Rightarrow>
               if scope_satisfies (case ctx_scopes c of None \<Rightarrow> [] | Some ss \<Rightarrow> ss) required
               then Inr () else Inl (ScopeDenied required)))"

section \<open>WebSocket channels\<close>

definition ws_admin_channels :: "string list" where
  "ws_admin_channels = [''metrics:host'', ''requests:all'']"

definition ws_open_channels :: "string list" where
  "ws_open_channels = [''platform'']"

definition ws_admin_channel_allowed :: "caller \<Rightarrow> string \<Rightarrow> bool" where
  "ws_admin_channel_allowed c channel =
     (if ctx_role c \<noteq> ''admin'' then False
      else if channel = ''requests:all'' \<and> ctx_pinned c then False
      else True)"

definition ws_project_access :: "(string \<Rightarrow> uuid option) \<Rightarrow> caller \<Rightarrow> owner_row \<Rightarrow> bool" where
  "ws_project_access scan c row \<longleftrightarrow>
     pin_allows c (uuid_string (own_project row)) \<and> owner_may_access scan c (own_user row) (own_shared row)"

definition ws_lookup :: "(string \<Rightarrow> uuid option) \<Rightarrow> caller \<Rightarrow> owner_row lookup \<Rightarrow> bool" where
  "ws_lookup scan c l = (case l of Found row \<Rightarrow> ws_project_access scan c row | _ \<Rightarrow> False)"

datatype resource_kind = RApplication | RApplicationOrDatabase | RDeployment | RDatabase

definition ws_resource_channels :: "(string \<times> resource_kind) list" where
  "ws_resource_channels =
     [(''requests:'', RApplication), (''metrics:app:'', RApplication), (''container-status:'', RApplication),
      (''container-logs:'', RApplicationOrDatabase), (''build-logs:'', RDeployment), (''database-status:'', RDatabase)]"

definition ws_check :: "(string \<Rightarrow> uuid option) \<Rightarrow> access_db \<Rightarrow> caller \<Rightarrow> resource_kind \<Rightarrow> uuid \<Rightarrow> bool" where
  "ws_check scan db c k i =
     (case k of
        RApplication \<Rightarrow> ws_lookup scan c (app_owner db i)
      | RDatabase \<Rightarrow> ws_lookup scan c (database_owner db i)
      | RDeployment \<Rightarrow> ws_lookup scan c (deployment_owner db i)
      | RApplicationOrDatabase \<Rightarrow>
          (case app_owner db i of
             Found row \<Rightarrow> ws_project_access scan c row
           | Failed \<Rightarrow> False
           | Absent \<Rightarrow> ws_lookup scan c (database_owner db i)))"

definition parse_canonical_uuid :: "(string \<Rightarrow> uuid option) \<Rightarrow> string \<Rightarrow> uuid option" where
  "parse_canonical_uuid scan s =
     (case scan s of None \<Rightarrow> None | Some i \<Rightarrow> if uuid_string i = s then Some i else None)"

text \<open>The loop over the rules: the first prefix that fits decides.\<close>

fun ws_rules :: "(string \<Rightarrow> uuid option) \<Rightarrow> access_db \<Rightarrow> caller \<Rightarrow> string \<Rightarrow> (string \<times> resource_kind) list \<Rightarrow> bool" where
  "ws_rules scan db c channel [] = False"
| "ws_rules scan db c channel ((p, k) # rules) =
     (case cut_prefix p channel of
        None \<Rightarrow> ws_rules scan db c channel rules
      | Some rest \<Rightarrow>
          (case parse_canonical_uuid scan rest of None \<Rightarrow> False | Some i \<Rightarrow> ws_check scan db c k i))"

definition authorize_channel :: "(string \<Rightarrow> uuid option) \<Rightarrow> access_db \<Rightarrow> caller \<Rightarrow> string \<Rightarrow> bool" where
  "authorize_channel scan db c channel =
     (if channel \<in> set ws_admin_channels then ws_admin_channel_allowed c channel
      else if channel \<in> set ws_open_channels then True
      else ws_rules scan db c channel ws_resource_channels)"

section \<open>Scopes form a chain\<close>

text \<open>The rank of a scope, from the narrowest to the widest.\<close>

definition scope_rank :: "string \<Rightarrow> nat option" where
  "scope_rank s = map_of [(''metrics'', 0), (''read'', 1), (''deploy'', 2), (''write'', 3)] s"

definition all_scopes :: "string list" where
  "all_scopes = [''read'', ''write'', ''deploy'', ''metrics'']"

lemma scope_grants_rank:
  "required \<in> set all_scopes \<Longrightarrow>
     g \<in> set (scope_grants required) \<longleftrightarrow> (\<exists>r k. scope_rank required = Some r \<and> scope_rank g = Some k \<and> r \<le> k)"
  by (auto simp: all_scopes_def scope_rank_def split: if_splits)

lemma scope_satisfies_iff: "scope_satisfies ss required \<longleftrightarrow> (\<exists>s \<in> set ss. s \<in> set (scope_grants required))"
  by (auto simp: scope_satisfies_def list_ex_iff simp del: scope_grants.simps)

text \<open>
  a token satisfies a required scope exactly when one of its scopes ranks at least as high
  in metrics < read < deploy < write; a required scope outside the four is satisfied by nobody.
\<close>
theorem scope_satisfies_chain:
  "scope_satisfies ss required \<longleftrightarrow>
     (\<exists>s \<in> set ss. \<exists>r k. scope_rank required = Some r \<and> scope_rank s = Some k \<and> r \<le> k)"
proof (cases "required \<in> set all_scopes")
  case True
  then show ?thesis by (simp add: scope_satisfies_iff scope_grants_rank del: scope_grants.simps)
next
  case False
  then show ?thesis by (simp add: scope_satisfies_iff all_scopes_def scope_rank_def)
qed

section \<open>The pin bounds every surface\<close>

lemma pin_allows_pinned: "ctx_pinned c \<Longrightarrow>
    pin_allows c p \<longleftrightarrow> (\<exists>ids. ctx_project_ids c = Some ids \<and> p \<in> set ids)"
  by (auto simp: pin_allows_def token_projects_def split: option.splits)

lemma owned_access_pinned:
  "ctx_pinned c \<Longrightarrow> owned_access c l allow \<Longrightarrow>
     \<exists>row. l = Found row \<and> pin_allows c (uuid_string (own_project row))"
  by (auto simp: owned_access_def split: lookup.splits if_splits)

lemma ws_lookup_iff: "ws_lookup scan c l \<longleftrightarrow> (\<exists>row. l = Found row \<and> ws_project_access scan c row)"
  by (cases l) (auto simp: ws_lookup_def)

text \<open>The row a WebSocket rule decides on.\<close>

definition ws_row :: "access_db \<Rightarrow> resource_kind \<Rightarrow> uuid \<Rightarrow> owner_row lookup" where
  "ws_row db k i =
     (case k of
        RApplication \<Rightarrow> app_owner db i | RDatabase \<Rightarrow> database_owner db i
      | RDeployment \<Rightarrow> deployment_owner db i
      | RApplicationOrDatabase \<Rightarrow> (case app_owner db i of Absent \<Rightarrow> database_owner db i | l \<Rightarrow> l))"

lemma ws_check_iff: "ws_check scan db c k i \<longleftrightarrow> ws_lookup scan c (ws_row db k i)"
  by (simp add: ws_check_def ws_row_def ws_lookup_def split: resource_kind.splits lookup.splits)

lemma ws_rules_sound:
  "ws_rules scan db c channel rules \<Longrightarrow>
     \<exists>p k i. (p, k) \<in> set rules \<and> channel = p @ uuid_string i \<and> ws_lookup scan c (ws_row db k i)"
  by (induction rules)
     (fastforce simp: cut_prefix_Some parse_canonical_uuid_def ws_check_iff split: option.splits if_splits)+

lemma ws_admin_channel_allowed_iff:
  "ws_admin_channel_allowed c ch \<longleftrightarrow> ctx_role c = ''admin'' \<and> (ch = ''requests:all'' \<longrightarrow> \<not> ctx_pinned c)"
  by (auto simp: ws_admin_channel_allowed_def)

lemma authorize_channel_cases:
  "authorize_channel scan db c channel \<Longrightarrow>
     channel \<in> set ws_admin_channels \<and> ws_admin_channel_allowed c channel \<or>
     channel \<in> set ws_open_channels \<or>
     (\<exists>p k i. (p, k) \<in> set ws_resource_channels \<and> channel = p @ uuid_string i \<and> ws_lookup scan c (ws_row db k i))"
  by (auto simp: authorize_channel_def dest!: ws_rules_sound split: if_splits)

text \<open>
  C13: a project-pinned token, whatever its role, reaches through REST (use or ownership rule),
  through an MCP tool and through a WebSocket resource channel only resources whose own
  project, read from the resource's row, is in the pin.
\<close>
theorem pinned_token_confined:
  assumes pinned: "ctx_pinned c" and ids: "ctx_project_ids c = Some ids"
  shows "(owned_access c l allow \<longrightarrow> (\<exists>row. l = Found row \<and> uuid_string (own_project row) \<in> set ids)) \<and>
         (authorize_project scan db c p = Inr row \<longrightarrow> uuid_string p \<in> set ids) \<and>
         (authorize_resource scan msg l c p = Inr () \<longrightarrow> uuid_string p \<in> set ids) \<and>
         (ws_check scan db c k i \<longrightarrow> (\<exists>row. ws_row db k i = Found row \<and> uuid_string (own_project row) \<in> set ids))"
  using owned_access_pinned [OF pinned, of l allow] pinned ids
  by (auto simp: pin_allows_pinned authorize_project_def authorize_resource_def ws_check_iff ws_lookup_iff
      ws_project_access_def split: if_splits)

text \<open>An application of project 5, owned by user 2, in a shared project.\<close>

definition demo_owner_row :: owner_row where
  "demo_owner_row = \<lparr>own_project = 5, own_user = Some 2, own_shared = True\<rparr>"

definition demo_access_db :: access_db where
  "demo_access_db = \<lparr>app_owner = (\<lambda>i. if i = 3 then Found demo_owner_row else Absent),
     database_owner = (\<lambda>_. Absent), domain_owner = (\<lambda>_. Absent), deployment_owner = (\<lambda>_. Absent),
     project_row = (\<lambda>i. if i = 5 then Found demo_owner_row else Absent)\<rparr>"

definition demo_caller :: "string \<Rightarrow> uuid list option \<Rightarrow> caller" where
  "demo_caller role pin =
     \<lparr>ctx_user_id = '''', ctx_role = role, ctx_token_id = ''t'', ctx_scopes = Some [''read''],
      ctx_pinned = (pin \<noteq> None), ctx_project_ids = map_option (map uuid_string) pin\<rparr>"

theorem pinned_token_confined_witness:
  "\<not> owned_access (demo_caller ''admin'' (Some [6])) (Found demo_owner_row) (owner_may_access (\<lambda>_. None)) \<and>
   owned_access (demo_caller ''admin'' (Some [5])) (Found demo_owner_row) (owner_may_access (\<lambda>_. None))"
proof -
  let ?c = "demo_caller ''admin'' (Some [6])"
  have "uuid_string 5 \<noteq> uuid_string 6" using uuid_string_inj [of 5 6] by auto
  then have "\<not> owned_access ?c (Found demo_owner_row) (owner_may_access (\<lambda>_. None))"
    using conjunct1 [OF pinned_token_confined [of ?c "[uuid_string 6]" "Found demo_owner_row" "owner_may_access (\<lambda>_. None)"]]
    by (simp add: demo_caller_def demo_owner_row_def)
  then show ?thesis
    by (simp add: owned_access_def demo_caller_def demo_owner_row_def pin_allows_def token_projects_def owner_may_access_def)
qed

section \<open>One rule on three surfaces\<close>

text \<open>
  C21: for an existing application the three surfaces decide alike: REST's
  \<open>canAccessApplication\<close>, the MCP tools' \<open>authorizeApplication\<close> (called with the application's
  own project) and the WebSocket authorizer of \<open>metrics:app:{id}\<close>. The only caller REST does not
  look the row up for, the unpinned admin, passes everywhere.
\<close>
theorem surfaces_agree:
  assumes "app_owner db a = Found row"
  shows "(can_access_application scan db c a \<longleftrightarrow> authorize_application scan db c a (own_project row) = Inr ()) \<and>
         (can_access_application scan db c a \<longleftrightarrow> ws_check scan db c RApplication a)"
  using assms
  by (auto simp: can_access_application_def can_access_owned_def owned_access_def authorize_application_def
      authorize_resource_def mcp_can_access_owned_def owner_may_access_def ws_check_def ws_lookup_def
      ws_project_access_def pin_allows_def token_projects_def)

theorem surfaces_agree_witness:
  "can_access_application (\<lambda>_. None) demo_access_db (demo_caller ''member'' None) 3 \<and>
   authorize_application (\<lambda>_. None) demo_access_db (demo_caller ''member'' None) 3 5 = Inr () \<and>
   ws_check (\<lambda>_. None) demo_access_db (demo_caller ''member'' None) RApplication 3"
proof -
  have row: "app_owner demo_access_db 3 = Found demo_owner_row" by (simp add: demo_access_db_def)
  have "can_access_application (\<lambda>_. None) demo_access_db (demo_caller ''member'' None) 3"
    by (simp add: can_access_application_def can_access_owned_def owned_access_def row demo_caller_def
        pin_allows_def token_projects_def owner_may_access_def demo_owner_row_def)
  then show ?thesis
    using surfaces_agree [OF row, of "\<lambda>_. None" "demo_caller ''member'' None"]
    unfolding demo_owner_row_def owner_row.simps by blast
qed

text \<open>
  the destructive gate is the narrower one: who may destroy may use, and a member who is
  not the owner never passes it, shared project or not.
\<close>
theorem owner_gate_narrower:
  "(is_owner_only scan c l \<longrightarrow> can_access_owned scan c l) \<and>
   (is_owner_only scan c l \<and> ctx_role c \<noteq> ''admin'' \<longrightarrow>
      (\<exists>row. l = Found row \<and> own_user row = scan (ctx_user_id c)))"
  by (auto simp: is_owner_only_def can_access_owned_def owned_access_def owner_may_access_def
      owner_is_caller_def split: lookup.splits if_splits)

theorem owner_gate_narrower_witness:
  "\<not> is_owner_only (\<lambda>_. Some 3) (demo_caller ''member'' None) (Found demo_owner_row) \<and>
   can_access_owned (\<lambda>_. Some 3) (demo_caller ''member'' None) (Found demo_owner_row)"
proof -
  have "\<not> is_owner_only (\<lambda>_. Some 3) (demo_caller ''member'' None) (Found demo_owner_row)"
    using owner_gate_narrower [of "\<lambda>_. Some 3" "demo_caller ''member'' None" "Found demo_owner_row"]
    by (auto simp: demo_caller_def demo_owner_row_def)
  then show ?thesis
    by (simp add: can_access_owned_def owned_access_def demo_caller_def demo_owner_row_def pin_allows_def
        token_projects_def owner_may_access_def)
qed

section \<open>Channels fail closed\<close>

text \<open>Who may hear a channel, stated on the channel's name and the resource's row.\<close>

definition channel_recognised :: "(string \<Rightarrow> uuid option) \<Rightarrow> access_db \<Rightarrow> caller \<Rightarrow> string \<Rightarrow> bool" where
  "channel_recognised scan db c channel \<longleftrightarrow>
     channel \<in> set ws_admin_channels \<and> ctx_role c = ''admin'' \<and> (channel = ''requests:all'' \<longrightarrow> \<not> ctx_pinned c) \<or>
     channel \<in> set ws_open_channels \<or>
     (\<exists>p k i row. (p, k) \<in> set ws_resource_channels \<and> channel = p @ uuid_string i \<and>
        ws_row db k i = Found row \<and> pin_allows c (uuid_string (own_project row)) \<and>
        owner_may_access scan c (own_user row) (own_shared row))"

lemma authorize_channel_recognised:
  "authorize_channel scan db c channel \<Longrightarrow> channel_recognised scan db c channel"
  unfolding channel_recognised_def
  using authorize_channel_cases [of scan db c channel]
  unfolding ws_admin_channel_allowed_iff ws_lookup_iff ws_project_access_def by blast

text \<open>
  an authorized channel is one of the two admin channels (and the caller an admin, unpinned
  for the cross-project firehose), the open one, or a known prefix followed by the canonical
  spelling of an existing resource's id whose project the caller may reach.
\<close>
theorem authorize_channel_fail_closed:
  assumes "authorize_channel scan db c channel"
  shows "channel \<in> set ws_admin_channels \<and> ctx_role c = ''admin'' \<and> (channel = ''requests:all'' \<longrightarrow> \<not> ctx_pinned c) \<or>
         channel \<in> set ws_open_channels \<or>
         (\<exists>p k i row. (p, k) \<in> set ws_resource_channels \<and> channel = p @ uuid_string i \<and>
            ws_row db k i = Found row \<and> pin_allows c (uuid_string (own_project row)) \<and>
            owner_may_access scan c (own_user row) (own_shared row))"
  using authorize_channel_recognised [OF assms] unfolding channel_recognised_def .

theorem authorize_channel_fail_closed_witness:
  "\<exists>p k i row. (p, k) \<in> set ws_resource_channels \<and> ''metrics:app:'' @ uuid_string 3 = p @ uuid_string i \<and>
     ws_row demo_access_db k i = Found row"
proof -
  let ?ch = "''metrics:app:'' @ uuid_string 3"
  have other: "?ch \<notin> set ws_admin_channels" "?ch \<notin> set ws_open_channels"
    by (simp_all add: ws_admin_channels_def ws_open_channels_def)
  have "ws_rules (\<lambda>s. if s = uuid_string 3 then Some 3 else None) demo_access_db
     (demo_caller ''member'' None) ?ch ws_resource_channels"
    by (simp add: ws_resource_channels_def cut_prefix_def parse_canonical_uuid_def ws_check_def ws_lookup_def
        ws_project_access_def demo_access_db_def demo_owner_row_def demo_caller_def pin_allows_def token_projects_def
        owner_may_access_def)
  then have "authorize_channel (\<lambda>s. if s = uuid_string 3 then Some 3 else None) demo_access_db
     (demo_caller ''member'' None) ?ch"
    using other by (simp only: authorize_channel_def if_False)
  from authorize_channel_fail_closed [OF this] other show ?thesis by blast
qed

text \<open>
  a tool call passes the MCP scope gate only for a tool declared in the table and with a
  scope of sufficient rank; a caller without scopes, a session included, is refused.
\<close>
theorem tool_scope_fail_closed:
  assumes "require_tool_scope c ''tools/call'' params = Inr ()"
  shows "\<exists>tool required ss s. params = Some tool \<and> map_of tool_scopes tool = Some required \<and>
           ctx_scopes c = Some ss \<and> s \<in> set ss \<and> s \<in> set (scope_grants required)"
  using assms
  by (cases "ctx_scopes c")
     (auto simp: require_tool_scope_def scope_satisfies_iff simp del: scope_grants.simps split: option.splits if_splits)

theorem tool_scope_fail_closed_witness:
  "require_tool_scope (demo_caller ''admin'' None) ''tools/call'' (Some ''list_projects'') = Inr () \<and>
   require_tool_scope (demo_caller ''admin'' None) ''tools/call'' (Some ''create_domain'') \<noteq> Inr ()"
proof -
  have "require_tool_scope (demo_caller ''admin'' None) ''tools/call'' (Some ''create_domain'') \<noteq> Inr ()"
    using tool_scope_fail_closed [of "demo_caller ''admin'' None" "Some ''create_domain''"]
    by (auto simp: demo_caller_def tool_scopes_def)
  then show ?thesis
    by (simp add: require_tool_scope_def tool_scopes_def demo_caller_def scope_satisfies_def)
qed

end
