(* ===== verification/Hub.thy ===== *)
theory Hub
  imports Prelude Authz "HOL-Library.AList"
begin

text \<open>
  The WebSocket hub (\<open>internal/ws/hub.go\<close>, \<open>client.go\<close>) as a state machine. An event is one
  atomic action of one goroutine: a handler registering a connection, a read pump handling one
  inbound frame or ending, a write pump taking one message, a producer broadcasting, or the
  \<open>Run\<close> loop receiving from one of its three channels. A Go channel is the FIFO of the
  values sent to it, blocked senders included: a value at a position beyond the capacity
  belongs to a sender that still waits. Client identities are numbers handed out by \<open>NewClient\<close>.
\<close>

section \<open>State\<close>

type_synonym ws_msg = "string \<times> string \<times> string" \<comment> \<open>channel, event, data\<close>

definition max_consecutive_drops :: nat where "max_consecutive_drops = 10"
definition send_buf_size :: nat where "send_buf_size = 64"
definition register_cap :: nat where "register_cap = 64"
definition unregister_cap :: nat where "unregister_cap = 64"

record 'x client =
  user_id :: string
  ctx :: 'x
  send_buf :: "ws_msg list"
  send_closed :: bool
  subscriptions :: "string list"
  drops :: nat
  reading :: bool

record 'x hub =
  clients :: "nat list"
  channels :: "(string \<times> nat list) list"
  user_conns :: "string \<Rightarrow> int option"
  max_conns :: int
  register_q :: "nat list"
  unregister_q :: "nat list"
  broadcast_q :: "ws_msg list"
  heap :: "nat \<Rightarrow> 'x client"
  next_id :: nat
  evicting :: "nat list" \<comment> \<open>slow clients the Run loop has still to send to \<open>unregisterCh\<close>\<close>
  stopped :: bool
  panicked :: bool

definition new_client :: "string \<Rightarrow> 'x \<Rightarrow> 'x client" where
  "new_client u x = \<lparr>user_id = u, ctx = x, send_buf = [], send_closed = False, subscriptions = [],
     drops = 0, reading = True\<rparr>"

definition new_hub :: "int \<Rightarrow> (nat \<Rightarrow> 'x client) \<Rightarrow> 'x hub" where
  "new_hub cap hp = \<lparr>clients = [], channels = [], user_conns = Map.empty, max_conns = cap,
     register_q = [], unregister_q = [], broadcast_q = [], heap = hp, next_id = 0,
     evicting = [], stopped = False, panicked = False\<rparr>"

section \<open>Operations\<close>

definition conn_count :: "'x hub \<Rightarrow> string \<Rightarrow> int" where
  "conn_count h u = (case user_conns h u of None \<Rightarrow> 0 | Some n \<Rightarrow> n)"

definition subs_of :: "'x hub \<Rightarrow> string \<Rightarrow> nat list" where
  "subs_of h ch = (case map_of (channels h) ch of None \<Rightarrow> [] | Some s \<Rightarrow> s)"

text \<open>\<open>HandleWebSocket\<close>: a new client, and \<open>Register\<close> with its per-user check.\<close>

definition connect :: "'x hub \<Rightarrow> string \<Rightarrow> 'x \<Rightarrow> 'x hub" where
  "connect h u x =
     (if conn_count h u \<ge> max_conns h then h
      else h\<lparr>heap := (heap h)(next_id h := new_client u x), next_id := next_id h + 1,
             register_q := register_q h @ [next_id h]\<rparr>)"

definition run_register :: "'x hub \<Rightarrow> 'x hub" where
  "run_register h =
     (case register_q h of
        [] \<Rightarrow> h
      | c # q \<Rightarrow>
          let u = user_id (heap h c)
          in h\<lparr>register_q := q, clients := List.insert c (clients h),
               user_conns := (user_conns h)(u \<mapsto> conn_count h u + 1)\<rparr>)"

text \<open>\<open>for ch, subs := range h.channels { delete(subs, c); if empty, delete the channel }\<close>.\<close>

definition drop_client :: "nat \<Rightarrow> (string \<times> nat list) list \<Rightarrow> (string \<times> nat list) list" where
  "drop_client c chs = filter (\<lambda>(ch, s). s \<noteq> []) (map (\<lambda>(ch, s). (ch, removeAll c s)) chs)"

definition run_unregister :: "'x hub \<Rightarrow> 'x hub" where
  "run_unregister h =
     (case unregister_q h of
        [] \<Rightarrow> h
      | c # q \<Rightarrow>
          if c \<in> set (clients h) then
            let u = user_id (heap h c); n = conn_count h u - 1
            in h\<lparr>unregister_q := q, clients := removeAll c (clients h),
                 user_conns := (if n \<le> 0 then (user_conns h)(u := None) else (user_conns h)(u \<mapsto> n)),
                 channels := drop_client c (channels h),
                 heap := (heap h)(c := (heap h c)\<lparr>send_closed := True\<rparr>),
                 panicked := send_closed (heap h c)\<rparr>
          else h\<lparr>unregister_q := q\<rparr>)"

text \<open>
  One broadcast over the subscribers, in some order of the map: \<open>None\<close> is the panic of a send
  on a closed channel; otherwise the clients after it and the slow ones to evict.
\<close>

fun deliver :: "ws_msg \<Rightarrow> nat list \<Rightarrow> (nat \<Rightarrow> 'x client) \<Rightarrow> ((nat \<Rightarrow> 'x client) \<times> nat list) option" where
  "deliver m [] hp = Some (hp, [])"
| "deliver m (c # cs) hp =
     (if send_closed (hp c) then None
      else if length (send_buf (hp c)) < send_buf_size
      then deliver m cs (hp(c := (hp c)\<lparr>send_buf := send_buf (hp c) @ [m], drops := 0\<rparr>))
      else
        let d = drops (hp c) + 1
        in (case deliver m cs (hp(c := (hp c)\<lparr>drops := d\<rparr>)) of
              None \<Rightarrow> None
            | Some (hp', slow) \<Rightarrow> Some (hp', if d \<ge> max_consecutive_drops then c # slow else slow)))"

definition run_broadcast :: "'x hub \<Rightarrow> 'x hub" where
  "run_broadcast h =
     (case broadcast_q h of
        [] \<Rightarrow> h
      | m # q \<Rightarrow>
          (case deliver m (subs_of h (fst m)) (heap h) of
             None \<Rightarrow> h\<lparr>broadcast_q := q, panicked := True\<rparr>
           | Some (hp, slow) \<Rightarrow> h\<lparr>broadcast_q := q, heap := hp, evicting := slow\<rparr>))"

text \<open>\<open>Run\<close> sends the next slow client to its own \<open>unregisterCh\<close>; it waits while that is full.\<close>

definition run_evict :: "'x hub \<Rightarrow> 'x hub" where
  "run_evict h =
     (case evicting h of
        [] \<Rightarrow> h
      | c # cs \<Rightarrow>
          if length (unregister_q h) < unregister_cap
          then h\<lparr>unregister_q := unregister_q h @ [c], evicting := cs\<rparr> else h)"

definition run_shutdown :: "'x hub \<Rightarrow> 'x hub" where
  "run_shutdown h =
     h\<lparr>clients := [], channels := [], user_conns := Map.empty,
       heap := (\<lambda>c. if c \<in> set (clients h) then (heap h c)\<lparr>send_closed := True\<rparr> else heap h c),
       panicked := list_ex (\<lambda>c. send_closed (heap h c)) (clients h), stopped := True\<rparr>"

definition subscribe :: "'x hub \<Rightarrow> nat \<Rightarrow> string \<Rightarrow> 'x hub" where
  "subscribe h c ch =
     h\<lparr>channels := AList.update ch (List.insert c (subs_of h ch)) (channels h),
       heap := (heap h)(c := (heap h c)\<lparr>subscriptions := List.insert ch (subscriptions (heap h c))\<rparr>)\<rparr>"

definition unsubscribe :: "'x hub \<Rightarrow> nat \<Rightarrow> string \<Rightarrow> 'x hub" where
  "unsubscribe h c ch =
     h\<lparr>channels := (case map_of (channels h) ch of
          None \<Rightarrow> channels h
        | Some s \<Rightarrow> if removeAll c s = [] then AList.delete ch (channels h)
                    else AList.update ch (removeAll c s) (channels h)),
       heap := (heap h)(c := (heap h c)\<lparr>subscriptions := removeAll ch (subscriptions (heap h c))\<rparr>)\<rparr>"

text \<open>One inbound frame of \<open>ReadPump\<close>; a nil authorizer refuses every subscribe.\<close>

definition inbound ::
    "('db \<Rightarrow> 'x \<Rightarrow> string \<Rightarrow> bool) option \<Rightarrow> 'db \<Rightarrow> 'x hub \<Rightarrow> nat \<Rightarrow> string \<Rightarrow> string \<Rightarrow> 'x hub" where
  "inbound authz db h c action ch =
     (if action = ''subscribe'' then
        if ch = '''' then h
        else (case authz of
                None \<Rightarrow> h
              | Some authorize \<Rightarrow> if authorize db (ctx (heap h c)) ch then subscribe h c ch else h)
      else if action = ''unsubscribe'' then if ch = '''' then h else unsubscribe h c ch
      else h)"

definition read_end :: "'x hub \<Rightarrow> nat \<Rightarrow> 'x hub" where
  "read_end h c =
     h\<lparr>unregister_q := unregister_q h @ [c], heap := (heap h)(c := (heap h c)\<lparr>reading := False\<rparr>)\<rparr>"

definition write_one :: "'x hub \<Rightarrow> nat \<Rightarrow> 'x hub" where
  "write_one h c = h\<lparr>heap := (heap h)(c := (heap h c)\<lparr>send_buf := drop 1 (send_buf (heap h c))\<rparr>)\<rparr>"

definition subscriber_count :: "'x hub \<Rightarrow> string \<Rightarrow> nat" where
  "subscriber_count h ch = length (subs_of h ch)"

definition active_channels_with_prefix :: "'x hub \<Rightarrow> string \<Rightarrow> string list" where
  "active_channels_with_prefix h p = map fst (filter (\<lambda>(ch, s). s \<noteq> [] \<and> prefix p ch) (channels h))"

section \<open>The machine\<close>

datatype ('x, 'db) hub_event =
    Connect string 'x
  | Inbound 'db nat string string
  | ReadEnd nat
  | WriteOne nat
  | Broadcast ws_msg
  | RunRegister
  | RunUnregister
  | RunBroadcast
  | RunEvict
  | Shutdown

text \<open>A read pump runs once \<open>Register\<close> has returned and until its connection ends.\<close>

definition pump_runs :: "'x hub \<Rightarrow> nat \<Rightarrow> bool" where
  "pump_runs h c \<longleftrightarrow> c < next_id h \<and> c \<notin> set (drop register_cap (register_q h)) \<and> reading (heap h c)"

definition run_selects :: "'x hub \<Rightarrow> bool" where
  "run_selects h \<longleftrightarrow> \<not> stopped h \<and> evicting h = []"

fun hub_act :: "('db \<Rightarrow> 'x \<Rightarrow> string \<Rightarrow> bool) option \<Rightarrow> 'x hub \<Rightarrow> ('x, 'db) hub_event \<Rightarrow> 'x hub" where
  "hub_act authz h (Connect u x) = connect h u x"
| "hub_act authz h (Inbound db c action ch) = (if pump_runs h c then inbound authz db h c action ch else h)"
| "hub_act authz h (ReadEnd c) = (if pump_runs h c then read_end h c else h)"
| "hub_act authz h (WriteOne c) = write_one h c"
| "hub_act authz h (Broadcast m) = h\<lparr>broadcast_q := broadcast_q h @ [m]\<rparr>"
| "hub_act authz h RunRegister = (if run_selects h then run_register h else h)"
| "hub_act authz h RunUnregister = (if run_selects h then run_unregister h else h)"
| "hub_act authz h RunBroadcast = (if run_selects h then run_broadcast h else h)"
| "hub_act authz h RunEvict = (if stopped h then h else run_evict h)"
| "hub_act authz h Shutdown = (if run_selects h then run_shutdown h else h)"

text \<open>A panic in the \<open>Run\<close> goroutine ends the process.\<close>

definition hub_step :: "('db \<Rightarrow> 'x \<Rightarrow> string \<Rightarrow> bool) option \<Rightarrow> 'x hub \<Rightarrow> ('x, 'db) hub_event \<Rightarrow> 'x hub" where
  "hub_step authz h e = (if panicked h then h else hub_act authz h e)"

abbreviation hub_run :: "('db \<Rightarrow> 'x \<Rightarrow> string \<Rightarrow> bool) option \<Rightarrow> 'x hub \<Rightarrow> ('x, 'db) hub_event list \<Rightarrow> 'x hub" where
  "hub_run authz \<equiv> foldl (hub_step authz)"

section \<open>The invariant of the bookkeeping\<close>

definition ids_ok :: "'x hub \<Rightarrow> bool" where
  "ids_ok h \<longleftrightarrow> distinct (clients h) \<and> distinct (register_q h) \<and> set (clients h) \<inter> set (register_q h) = {} \<and>
     (\<forall>c \<in> set (clients h) \<union> set (register_q h). c < next_id h \<and> \<not> send_closed (heap h c))"

definition members_of :: "'x hub \<Rightarrow> string \<Rightarrow> nat list" where
  "members_of h u = filter (\<lambda>c. user_id (heap h c) = u) (clients h)"

definition counts_ok :: "'x hub \<Rightarrow> bool" where
  "counts_ok h \<longleftrightarrow> (\<forall>u. user_conns h u =
     (if members_of h u = [] then None else Some (int (length (members_of h u)))))"

definition channels_ok :: "'x hub \<Rightarrow> bool" where
  "channels_ok h \<longleftrightarrow> distinct (map fst (channels h)) \<and>
     (\<forall>(ch, s) \<in> set (channels h). s \<noteq> [] \<and> distinct s \<and>
        (\<forall>c \<in> set s. c < next_id h \<and> ch \<in> set (subscriptions (heap h c))))"

definition buffers_ok :: "'x hub \<Rightarrow> bool" where
  "buffers_ok h \<longleftrightarrow> (\<forall>c < next_id h. length (send_buf (heap h c)) \<le> send_buf_size)"

definition hub_inv :: "'x hub \<Rightarrow> bool" where
  "hub_inv h \<longleftrightarrow> ids_ok h \<and> counts_ok h \<and> channels_ok h \<and> buffers_ok h"

named_theorems hub_defs \<open>the operations of the hub and the parts of its invariant\<close>

lemmas [hub_defs] = connect_def run_register_def run_unregister_def run_broadcast_def run_evict_def
  run_shutdown_def subscribe_def unsubscribe_def read_end_def write_one_def

lemma conn_count_eq: "counts_ok h \<Longrightarrow> conn_count h u = int (length (members_of h u))"
  by (auto simp: counts_ok_def conn_count_def)

lemma channels_okI:
  assumes "distinct (map fst (channels h))"
    and "\<And>ch s. (ch, s) \<in> set (channels h) \<Longrightarrow> s \<noteq> [] \<and> distinct s \<and>
           (\<forall>c \<in> set s. c < next_id h \<and> ch \<in> set (subscriptions (heap h c)))"
  shows "channels_ok h"
  using assms by (auto simp: channels_ok_def)

lemma channels_okD:
  assumes "channels_ok h" "(ch, s) \<in> set (channels h)"
  shows "s \<noteq> []" "distinct s" "\<And>c. c \<in> set s \<Longrightarrow> c < next_id h \<and> ch \<in> set (subscriptions (heap h c))"
  using assms by (auto simp: channels_ok_def)

lemma counts_cong:
  assumes "clients h' = clients h" "user_conns h' = user_conns h" "\<And>c. user_id (heap h' c) = user_id (heap h c)"
  shows "counts_ok h' = counts_ok h"
  using assms by (simp add: counts_ok_def members_of_def)

lemma set_AList_update:
  "distinct (map fst al) \<Longrightarrow> x \<in> set (AList.update k v al) \<longleftrightarrow> x = (k, v) \<or> fst x \<noteq> k \<and> x \<in> set al"
  by (induction al) force+

lemma set_AList_delete: "x \<in> set (AList.delete k al) \<longleftrightarrow> fst x \<noteq> k \<and> x \<in> set al"
  by (cases x) (simp add: AList.delete_eq, auto)

lemma drop_client_set: "(ch, s) \<in> set (drop_client c chs) \<longleftrightarrow> (\<exists>s'. (ch, s') \<in> set chs \<and> s = removeAll c s' \<and> s \<noteq> [])"
  by (auto simp: drop_client_def)

lemma drop_client_keys: "distinct (map fst chs) \<Longrightarrow> distinct (map fst (drop_client c chs))"
proof -
  have "map fst (map (\<lambda>(ch, s). (ch, removeAll c s)) chs) = map fst chs" by auto
  moreover assume "distinct (map fst chs)"
  ultimately show ?thesis unfolding drop_client_def by (metis distinct_map_filter)
qed

lemma subs_of_mem: "channels_ok h \<Longrightarrow> c \<in> set (subs_of h ch) \<longleftrightarrow> (\<exists>s. (ch, s) \<in> set (channels h) \<and> c \<in> set s)"
  by (auto simp: subs_of_def channels_ok_def split: option.splits dest: map_of_SomeD)

lemma subs_of_distinct: "channels_ok h \<Longrightarrow> distinct (subs_of h ch)"
  by (auto simp: subs_of_def channels_ok_def split: option.splits dest!: map_of_SomeD)

text \<open>What a delivery leaves alone.\<close>

definition kept :: "'x client \<Rightarrow> 'x client \<Rightarrow> bool" where
  "kept a b \<longleftrightarrow> user_id b = user_id a \<and> ctx b = ctx a \<and> send_closed b = send_closed a \<and>
     subscriptions b = subscriptions a \<and>
     (length (send_buf a) \<le> send_buf_size \<longrightarrow> length (send_buf b) \<le> send_buf_size)"

lemma kept_refl [simp]: "kept a a" by (simp add: kept_def)

lemma kept_trans: "kept a b \<Longrightarrow> kept b d \<Longrightarrow> kept a d" by (simp add: kept_def)

lemma kept_updates [simp]:
  "kept a (a\<lparr>drops := d\<rparr>)"
  "length (send_buf a) < send_buf_size \<Longrightarrow> kept a (a\<lparr>send_buf := send_buf a @ [m], drops := d\<rparr>)"
  by (simp_all add: kept_def)

lemma deliver_kept: "deliver m cs hp = Some (hp', slow) \<Longrightarrow> kept (hp c) (hp' c)"
proof (induction cs arbitrary: hp hp' slow)
  case (Cons a cs)
  obtain hp1 slow1 where rest: "deliver m cs hp1 = Some (hp', slow1)" and step: "kept (hp c) (hp1 c)"
    using Cons.prems by (auto simp: Let_def split: if_splits option.splits)
  show ?case using Cons.IH [OF rest] step by (rule kept_trans [rotated])
qed simp

lemma inv_irrelevant [simp]:
  "hub_inv (h\<lparr>broadcast_q := q\<rparr>) = hub_inv h" "hub_inv (h\<lparr>unregister_q := u\<rparr>) = hub_inv h"
  "hub_inv (h\<lparr>evicting := es\<rparr>) = hub_inv h" "hub_inv (h\<lparr>panicked := b\<rparr>) = hub_inv h"
  "hub_inv (h\<lparr>stopped := b\<rparr>) = hub_inv h"
  by (simp_all add: hub_inv_def ids_ok_def counts_ok_def members_of_def channels_ok_def buffers_ok_def)

lemma inv_heap: "hub_inv h \<Longrightarrow> (\<And>c. kept (heap h c) (hp c)) \<Longrightarrow> hub_inv (h\<lparr>heap := hp\<rparr>)"
  by (simp add: hub_inv_def ids_ok_def counts_ok_def members_of_def channels_ok_def buffers_ok_def kept_def)

lemma inv_run_broadcast: "hub_inv h \<Longrightarrow> hub_inv (run_broadcast h)"
proof (cases "broadcast_q h")
  case (Cons m q)
  assume inv: "hub_inv h"
  let ?h = "h\<lparr>broadcast_q := q\<rparr>"
  show ?thesis
  proof (cases "deliver m (subs_of h (fst m)) (heap h)")
    case None
    then have "run_broadcast h = ?h\<lparr>panicked := True\<rparr>" using Cons by (simp add: run_broadcast_def)
    then show ?thesis using inv by simp
  next
    case (Some p)
    then have "run_broadcast h = ?h\<lparr>heap := fst p\<rparr>\<lparr>evicting := snd p\<rparr>"
      using Cons by (cases p) (simp add: run_broadcast_def)
    moreover have "hub_inv (?h\<lparr>heap := fst p\<rparr>)"
      using inv Some deliver_kept [of m _ "heap h" "fst p" "snd p"] by (intro inv_heap) simp_all
    ultimately show ?thesis by (simp only: inv_irrelevant)
  qed
qed (simp add: run_broadcast_def)

lemma inv_write_one: "hub_inv h \<Longrightarrow> hub_inv (write_one h c)"
  unfolding write_one_def by (rule inv_heap) (auto simp: kept_def)

lemma inv_read_end: "hub_inv h \<Longrightarrow> hub_inv (read_end h c)"
proof -
  assume "hub_inv h"
  then have "hub_inv (h\<lparr>heap := (heap h)(c := (heap h c)\<lparr>reading := False\<rparr>)\<rparr>)"
    by (rule inv_heap) (auto simp: kept_def)
  then have "hub_inv (h\<lparr>heap := (heap h)(c := (heap h c)\<lparr>reading := False\<rparr>)\<rparr>
      \<lparr>unregister_q := unregister_q h @ [c]\<rparr>)"
    by (simp only: inv_irrelevant)
  moreover have "read_end h c = h\<lparr>heap := (heap h)(c := (heap h c)\<lparr>reading := False\<rparr>)\<rparr>
      \<lparr>unregister_q := unregister_q h @ [c]\<rparr>"
    by (cases h) (simp add: read_end_def)
  ultimately show ?thesis by simp
qed

lemma inv_run_evict: "hub_inv h \<Longrightarrow> hub_inv (run_evict h)"
  by (simp add: hub_inv_def ids_ok_def counts_ok_def members_of_def channels_ok_def buffers_ok_def run_evict_def
      split: list.splits)

lemma inv_connect: "hub_inv h \<Longrightarrow> hub_inv (connect h u x)"
proof (cases "conn_count h u \<ge> max_conns h")
  case False
  assume inv: "hub_inv h"
  let ?h = "h\<lparr>heap := (heap h)(next_id h := new_client u x), next_id := next_id h + 1,
             register_q := register_q h @ [next_id h]\<rparr>"
  have fresh: "next_id h \<notin> set (clients h)" "next_id h \<notin> set (register_q h)"
    using inv by (auto simp: hub_inv_def ids_ok_def)
  have "members_of ?h v = members_of h v" for v
    using fresh by (auto simp: members_of_def intro!: filter_cong)
  then have "counts_ok ?h" using inv by (simp add: hub_inv_def counts_ok_def)
  moreover have "ids_ok ?h"
    using inv fresh by (auto simp: hub_inv_def ids_ok_def new_client_def less_Suc_eq)
  moreover have "channels_ok ?h"
    using inv by (fastforce simp: hub_inv_def channels_ok_def)
  moreover have "buffers_ok ?h"
    using inv by (auto simp: hub_inv_def buffers_ok_def new_client_def send_buf_size_def less_Suc_eq)
  ultimately show ?thesis using False by (simp add: hub_inv_def connect_def)
qed (simp add: connect_def)

lemma inv_run_register: "hub_inv h \<Longrightarrow> hub_inv (run_register h)"
proof (cases "register_q h")
  case (Cons c q)
  assume inv: "hub_inv h"
  let ?u = "user_id (heap h c)"
  have new: "c \<notin> set (clients h)" and cnt: "counts_ok h"
    using inv Cons by (auto simp: hub_inv_def ids_ok_def)
  have "members_of (run_register h) v = (if v = ?u then c # members_of h v else members_of h v)" for v
    using new Cons by (simp add: run_register_def members_of_def Let_def)
  then have "counts_ok (run_register h)"
    using cnt Cons conn_count_eq [OF cnt, of ?u] by (simp add: counts_ok_def run_register_def Let_def)
  moreover have "ids_ok (run_register h)"
    using inv Cons new by (auto simp: hub_inv_def ids_ok_def run_register_def Let_def)
  moreover have "channels_ok (run_register h)" "buffers_ok (run_register h)"
    using inv Cons by (simp_all add: hub_inv_def channels_ok_def buffers_ok_def run_register_def Let_def)
  ultimately show ?thesis by (simp add: hub_inv_def)
qed (simp add: run_register_def)

lemma length_removeAll_distinct: "distinct xs \<Longrightarrow> c \<in> set xs \<Longrightarrow> length (removeAll c xs) = length xs - 1"
  by (metis distinct_remove1_removeAll length_remove1)

lemma inv_run_unregister: "hub_inv h \<Longrightarrow> hub_inv (run_unregister h)"
proof (cases "unregister_q h")
  case (Cons c q)
  assume inv: "hub_inv h"
  show ?thesis
  proof (cases "c \<in> set (clients h)")
    case mem: True
    let ?u = "user_id (heap h c)" and ?h = "run_unregister h"
    have cnt: "counts_ok h" and ids: "ids_ok h" and chs: "channels_ok h" using inv by (auto simp: hub_inv_def)
    have cu: "c \<in> set (members_of h ?u)" "distinct (members_of h ?u)"
      using mem ids by (auto simp: members_of_def ids_ok_def)
    then have pos: "members_of h ?u \<noteq> []" by auto
    have h: "?h = h\<lparr>unregister_q := q, clients := removeAll c (clients h),
         user_conns := (if conn_count h ?u - 1 \<le> 0 then (user_conns h)(?u := None)
                        else (user_conns h)(?u \<mapsto> conn_count h ?u - 1)),
         channels := drop_client c (channels h), heap := (heap h)(c := (heap h c)\<lparr>send_closed := True\<rparr>),
         panicked := send_closed (heap h c)\<rparr>"
      using mem Cons by (simp add: run_unregister_def Let_def)
    have "members_of ?h v = removeAll c (members_of h v)" for v
      unfolding h by (auto simp: members_of_def removeAll_filter_not_eq intro!: filter_cong)
    moreover have "removeAll c (members_of h v) = members_of h v" if "v \<noteq> ?u" for v
      using that by (intro removeAll_id) (auto simp: members_of_def)
    ultimately have m: "members_of ?h v = (if v = ?u then removeAll c (members_of h v) else members_of h v)" for v
      by simp
    have len: "int (length (removeAll c (members_of h ?u))) = conn_count h ?u - 1"
      using length_removeAll_distinct [OF cu(2,1)] pos conn_count_eq [OF cnt, of ?u] by (cases "members_of h ?u") auto
    have uc: "user_conns ?h = (if conn_count h ?u - 1 \<le> 0 then (user_conns h)(?u := None)
                        else (user_conns h)(?u \<mapsto> conn_count h ?u - 1))"
      by (simp add: h)
    have "user_conns ?h v = (if members_of ?h v = [] then None else Some (int (length (members_of ?h v))))" for v
    proof (cases "v = ?u")
      case True
      have "members_of ?h v = [] \<longleftrightarrow> conn_count h ?u - 1 \<le> 0"
        using len True unfolding m by (cases "removeAll c (members_of h ?u)") auto
      then show ?thesis using len True unfolding m uc by simp
    next
      case False
      then show ?thesis using cnt unfolding m uc by (simp add: counts_ok_def)
    qed
    then have "counts_ok ?h" by (simp add: counts_ok_def)
    moreover have "ids_ok ?h"
      using ids mem unfolding h by (auto simp: ids_ok_def distinct_removeAll)
    moreover have "channels_ok ?h"
    proof (rule channels_okI)
      show "distinct (map fst (channels ?h))"
        using chs unfolding h by (simp add: channels_ok_def drop_client_keys)
    next
      fix ch s assume "(ch, s) \<in> set (channels ?h)"
      then obtain s' where s': "(ch, s') \<in> set (channels h)" "s = removeAll c s'" "s \<noteq> []"
        unfolding h by (auto simp: drop_client_set)
      show "s \<noteq> [] \<and> distinct s \<and> (\<forall>x \<in> set s. x < next_id ?h \<and> ch \<in> set (subscriptions (heap ?h x)))"
        using channels_okD [OF chs s'(1)] s'(2,3) unfolding h by (auto simp: distinct_removeAll)
    qed
    moreover have "buffers_ok ?h"
      using inv unfolding h by (simp add: hub_inv_def buffers_ok_def)
    ultimately show ?thesis by (simp add: hub_inv_def)
  qed (use inv Cons in \<open>simp add: run_unregister_def\<close>)
qed (simp add: run_unregister_def)

lemma inv_run_shutdown: "hub_inv h \<Longrightarrow> hub_inv (run_shutdown h)"
  by (auto simp: hub_inv_def ids_ok_def counts_ok_def members_of_def channels_ok_def buffers_ok_def run_shutdown_def)

lemma inv_subscribe: "hub_inv h \<Longrightarrow> c < next_id h \<Longrightarrow> hub_inv (subscribe h c ch)"
proof -
  assume inv: "hub_inv h" and c: "c < next_id h"
  let ?h = "subscribe h c ch"
  have chs: "channels_ok h" using inv by (simp add: hub_inv_def)
  have old: "x < next_id h" "ch \<in> set (subscriptions (heap h x))" if "x \<in> set (subs_of h ch)" for x
    using that chs subs_of_mem [OF chs, of x ch] by (auto simp: channels_ok_def)
  have "counts_ok ?h" using inv by (subst counts_cong [of _ h]) (auto simp: hub_inv_def subscribe_def)
  moreover have "ids_ok ?h" "buffers_ok ?h"
    using inv by (auto simp: hub_inv_def ids_ok_def buffers_ok_def subscribe_def)
  moreover have "channels_ok ?h"
  proof (rule channels_okI)
    show "distinct (map fst (channels ?h))"
      using chs by (simp add: channels_ok_def subscribe_def distinct_update)
  next
    fix ch' s assume "(ch', s) \<in> set (channels ?h)"
    then have "ch' = ch \<and> s = List.insert c (subs_of h ch) \<or> ch' \<noteq> ch \<and> (ch', s) \<in> set (channels h)"
      using chs by (simp add: subscribe_def set_AList_update channels_ok_def)
    then show "s \<noteq> [] \<and> distinct s \<and> (\<forall>x \<in> set s. x < next_id ?h \<and> ch' \<in> set (subscriptions (heap ?h x)))"
    proof (elim disjE conjE)
      assume "ch' = ch" "s = List.insert c (subs_of h ch)"
      then show ?thesis
        using c old subs_of_distinct [OF chs, of ch] by (auto simp: subscribe_def List.insert_def)
    next
      assume "(ch', s) \<in> set (channels h)"
      then show ?thesis using channels_okD [OF chs, of ch' s] by (auto simp: subscribe_def)
    qed
  qed
  ultimately show ?thesis by (simp add: hub_inv_def)
qed

lemma inv_unsubscribe: "hub_inv h \<Longrightarrow> hub_inv (unsubscribe h c ch)"
proof -
  assume inv: "hub_inv h"
  let ?h = "unsubscribe h c ch"
  have chs: "channels_ok h" using inv by (simp add: hub_inv_def)
  have "counts_ok ?h" using inv by (subst counts_cong [of _ h]) (auto simp: hub_inv_def unsubscribe_def)
  moreover have "ids_ok ?h" "buffers_ok ?h"
    using inv by (auto simp: hub_inv_def ids_ok_def buffers_ok_def unsubscribe_def)
  moreover have "channels_ok ?h"
  proof (rule channels_okI)
    show "distinct (map fst (channels ?h))"
      using chs by (simp add: channels_ok_def unsubscribe_def distinct_update distinct_delete split: option.splits)
  next
    fix ch' s assume "(ch', s) \<in> set (channels ?h)"
    then have "s \<noteq> [] \<and> (\<exists>s'. (ch', s') \<in> set (channels h) \<and>
        (ch' = ch \<and> s = removeAll c s' \<or> ch' \<noteq> ch \<and> s = s'))"
      using chs channels_okD(1) [OF chs, of ch' s]
      by (auto simp: unsubscribe_def set_AList_update set_AList_delete channels_ok_def map_of_eq_None_iff
          split: option.splits if_splits dest: map_of_SomeD intro: rev_image_eqI)
    then show "s \<noteq> [] \<and> distinct s \<and> (\<forall>x \<in> set s. x < next_id ?h \<and> ch' \<in> set (subscriptions (heap ?h x)))"
      using channels_okD [OF chs, of ch'] by (auto simp: unsubscribe_def distinct_removeAll)
  qed
  ultimately show ?thesis by (simp add: hub_inv_def)
qed

lemma inv_hub_step: "hub_inv h \<Longrightarrow> hub_inv (hub_step authz h e)"
  by (cases e)
     (auto simp: hub_step_def inbound_def pump_runs_def inv_connect inv_run_register inv_run_unregister
       inv_run_broadcast inv_run_evict inv_run_shutdown inv_write_one inv_read_end inv_subscribe inv_unsubscribe
       split: option.splits)

interpretation bookkeeping: machine "hub_step authz" hub_inv
  by unfold_locales (rule inv_hub_step)

lemma inv_new_hub: "hub_inv (new_hub cap hp)"
  by (simp add: hub_inv_def ids_ok_def counts_ok_def members_of_def channels_ok_def buffers_ok_def new_hub_def)

lemmas run_hub_inv = bookkeeping.run_inv [OF inv_new_hub]

text \<open>
  C30: in every interleaving of connections, frames, disconnects, broadcasts and the \<open>Run\<close> loop
  the hub's books balance: \<open>userConns\<close> is exactly the number of registered clients of each user
  (no entry at zero), no channel without subscribers is kept, no client is registered twice or
  after its send channel was closed, and no send buffer exceeds its capacity.
\<close>
theorem hub_books_balance: "hub_inv (hub_run authz (new_hub cap hp) es)"
  by (rule run_hub_inv)

section \<open>What a broadcast does\<close>

definition full_buf :: "'x client \<Rightarrow> bool" where
  "full_buf c \<longleftrightarrow> send_buf_size \<le> length (send_buf c)"

definition after_send :: "ws_msg \<Rightarrow> 'x client \<Rightarrow> 'x client" where
  "after_send m c = (if full_buf c then c\<lparr>drops := drops c + 1\<rparr>
                     else c\<lparr>send_buf := send_buf c @ [m], drops := 0\<rparr>)"

definition is_slow :: "'x client \<Rightarrow> bool" where
  "is_slow c \<longleftrightarrow> full_buf c \<and> drops c + 1 \<ge> max_consecutive_drops"

lemma deliver_Cons:
  "deliver m (a # cs) hp =
     (if send_closed (hp a) then None
      else map_option (\<lambda>(hp', slow). (hp', if is_slow (hp a) then a # slow else slow))
             (deliver m cs (hp(a := after_send m (hp a)))))"
  by (auto simp: after_send_def full_buf_def is_slow_def Let_def not_le option.map_id0 option.map_ident id_def split: option.splits)

lemma after_send_closed [simp]: "send_closed (after_send m c) = send_closed c"
  by (simp add: after_send_def)

lemma deliver_spec:
  "distinct cs \<Longrightarrow> (\<And>c. c \<in> set cs \<Longrightarrow> \<not> send_closed (hp c)) \<Longrightarrow>
     deliver m cs hp = Some (\<lambda>c. if c \<in> set cs then after_send m (hp c) else hp c, filter (\<lambda>c. is_slow (hp c)) cs)"
proof (induction cs arbitrary: hp)
  case (Cons a cs)
  let ?hp = "hp(a := after_send m (hp a))"
  have "deliver m cs ?hp = Some (\<lambda>c. if c \<in> set cs then after_send m (?hp c) else ?hp c, filter (\<lambda>c. is_slow (?hp c)) cs)"
    using Cons.prems by (intro Cons.IH) (auto simp: after_send_def)
  moreover have "filter (\<lambda>c. is_slow (?hp c)) cs = filter (\<lambda>c. is_slow (hp c)) cs"
    using Cons.prems(1) by (intro filter_cong) auto
  moreover have "(\<lambda>c. if c \<in> set cs then after_send m (?hp c) else ?hp c) =
      (\<lambda>c. if c \<in> set (a # cs) then after_send m (hp c) else hp c)"
    using Cons.prems(1) by (auto simp: fun_eq_iff)
  ultimately show ?case
    using Cons.prems by (simp add: deliver_Cons del: deliver.simps)
qed auto

lemma deliver_closed: "c \<in> set cs \<Longrightarrow> send_closed (hp c) \<Longrightarrow> deliver m cs hp = None"
proof (induction cs arbitrary: hp)
  case (Cons a cs)
  then show ?case by (cases "c = a") (auto simp: deliver_Cons simp del: deliver.simps)
qed simp

text \<open>
  where every subscriber is still open, one turn of \<open>Run\<close> on a queued broadcast reaches
  exactly the subscribers of its channel: those with room get the frame and a fresh drop count,
  those without lose it and count one more, nobody else changes, and exactly the subscribers
  that reach ten consecutive drops are queued for eviction.
\<close>
theorem broadcast_reaches_subscribers:
  assumes "hub_inv h" "run_selects h" "\<not> panicked h" "broadcast_q h = m # q"
    and opened: "\<And>c. c \<in> set (subs_of h (fst m)) \<Longrightarrow> \<not> send_closed (heap h c)"
  shows "hub_step authz h RunBroadcast = h\<lparr>broadcast_q := q,
     heap := (\<lambda>c. if c \<in> set (subs_of h (fst m)) then after_send m (heap h c) else heap h c),
     evicting := filter (\<lambda>c. is_slow (heap h c)) (subs_of h (fst m))\<rparr>"
proof -
  have "distinct (subs_of h (fst m))" using assms(1) by (auto simp: hub_inv_def subs_of_distinct)
  from deliver_spec [OF this opened] assms(2-4) show ?thesis
    by (simp add: hub_step_def run_broadcast_def)
qed

section \<open>Panics\<close>

fun late :: "'x hub \<Rightarrow> ('x, 'db) hub_event \<Rightarrow> bool" where
  "late h (Inbound db c action ch) = (action = ''subscribe'' \<and> send_closed (heap h c))"
| "late h e = False"

fun no_late_subscribe :: "('db \<Rightarrow> 'x \<Rightarrow> string \<Rightarrow> bool) option \<Rightarrow> 'x hub \<Rightarrow> ('x, 'db) hub_event list \<Rightarrow> bool" where
  "no_late_subscribe authz h [] = True"
| "no_late_subscribe authz h (e # es) = (\<not> late h e \<and> no_late_subscribe authz (hub_step authz h e) es)"

definition calm :: "'x hub \<Rightarrow> bool" where
  "calm h \<longleftrightarrow> hub_inv h \<and> \<not> panicked h \<and>
     (\<forall>(ch, s) \<in> set (channels h). \<forall>c \<in> set s. \<not> send_closed (heap h c))"

definition punctual_step :: "('db \<Rightarrow> 'x \<Rightarrow> string \<Rightarrow> bool) option \<Rightarrow> 'x hub \<Rightarrow> ('x, 'db) hub_event \<Rightarrow> 'x hub" where
  "punctual_step authz h e = (if late h e then h else hub_step authz h e)"

lemma calm_cong:
  assumes "calm h" "hub_inv h'" "\<not> panicked h'"
    and "\<And>ch s c. (ch, s) \<in> set (channels h') \<Longrightarrow> c \<in> set s \<Longrightarrow> \<not> send_closed (heap h' c)"
  shows "calm h'"
  using assms by (auto simp: calm_def)

lemma run_unregister_not_panicked: "hub_inv h \<Longrightarrow> \<not> panicked h \<Longrightarrow> \<not> panicked (run_unregister h)"
  by (auto simp: hub_inv_def ids_ok_def run_unregister_def Let_def split: list.splits)

lemma run_shutdown_not_panicked: "hub_inv h \<Longrightarrow> \<not> panicked (run_shutdown h)"
  by (auto simp: hub_inv_def ids_ok_def run_shutdown_def list_ex_iff)

lemma calm_open: "calm h \<Longrightarrow> c \<in> set (subs_of h ch) \<Longrightarrow> \<not> send_closed (heap h c)"
  by (fastforce simp: calm_def subs_of_def split: option.splits dest: map_of_SomeD [OF sym])

lemma calm_run_broadcast: "calm h \<Longrightarrow> calm (run_broadcast h)"
proof (cases "broadcast_q h")
  case (Cons m q)
  assume calm: "calm h"
  then have inv: "hub_inv h" by (simp add: calm_def)
  have "distinct (subs_of h (fst m))" using inv by (auto simp: hub_inv_def subs_of_distinct)
  then have spec: "deliver m (subs_of h (fst m)) (heap h) =
     Some (\<lambda>c. if c \<in> set (subs_of h (fst m)) then after_send m (heap h c) else heap h c,
           filter (\<lambda>c. is_slow (heap h c)) (subs_of h (fst m)))"
    by (rule deliver_spec) (rule calm_open [OF calm])
  show ?thesis using spec calm Cons inv_run_broadcast [OF inv]
    by (intro calm_cong [OF calm]) (auto simp: run_broadcast_def calm_def split: if_splits)
qed (simp add: run_broadcast_def)

lemma calm_run_unregister: "calm h \<Longrightarrow> calm (run_unregister h)"
  by (rule calm_cong, assumption)
     (auto simp: calm_def inv_run_unregister run_unregister_not_panicked,
      auto simp: run_unregister_def Let_def drop_client_set split: list.splits if_splits)

lemma calm_subscribe: "calm h \<Longrightarrow> c < next_id h \<Longrightarrow> \<not> send_closed (heap h c) \<Longrightarrow> calm (subscribe h c ch)"
proof -
  assume calm: "calm h" and c: "c < next_id h" "\<not> send_closed (heap h c)"
  have d: "distinct (map fst (channels h))" using calm by (simp add: calm_def hub_inv_def channels_ok_def)
  show ?thesis
    using calm c calm_open [OF calm, of _ ch]
    by (intro calm_cong [OF calm] inv_subscribe)
       (auto simp: calm_def subscribe_def set_AList_update [OF d])
qed

lemma calm_unsubscribe: "calm h \<Longrightarrow> calm (unsubscribe h c ch)"
proof -
  assume calm: "calm h"
  have d: "distinct (map fst (channels h))" using calm by (simp add: calm_def hub_inv_def channels_ok_def)
  show ?thesis
    using calm
    by (intro calm_cong [OF calm] inv_unsubscribe)
       (auto simp: calm_def unsubscribe_def set_AList_update [OF d] set_AList_delete
          split: option.splits if_splits dest!: map_of_SomeD)
qed

lemma calm_connect: "calm h \<Longrightarrow> calm (connect h u x)"
  by (rule calm_cong, assumption) (auto simp: calm_def inv_connect, auto simp: connect_def new_client_def split: if_splits)

lemma calm_others:
  assumes "calm h"
  shows "calm (run_register h)" "calm (run_evict h)" "calm (run_shutdown h)" "calm (read_end h c)" "calm (write_one h c)"
    "calm (h\<lparr>broadcast_q := bs\<rparr>)"
proof -
  have inv: "hub_inv h" using assms by (simp add: calm_def)
  show "calm (run_register h)" "calm (run_evict h)"
    using inv_run_register [OF inv] inv_run_evict [OF inv] assms
    by (auto simp: calm_def run_register_def run_evict_def Let_def split: list.splits)
  show "calm (run_shutdown h)"
    using inv_run_shutdown [OF inv] run_shutdown_not_panicked [OF inv] by (simp add: calm_def) (simp add: run_shutdown_def)
  show "calm (read_end h c)" "calm (write_one h c)"
    using inv_read_end [OF inv, of c] inv_write_one [OF inv, of c] assms
    by (auto simp: calm_def, auto simp: read_end_def write_one_def split: if_splits)
  show "calm (h\<lparr>broadcast_q := bs\<rparr>)" using assms by (simp add: calm_def)
qed

lemma calm_punctual_step: "calm h \<Longrightarrow> calm (punctual_step authz h e)"
  by (cases e)
     (auto simp: punctual_step_def hub_step_def inbound_def pump_runs_def calm_connect calm_run_broadcast
       calm_run_unregister calm_subscribe calm_unsubscribe calm_others split: option.splits)

interpretation punctual: machine "punctual_step authz" calm
  by unfold_locales (rule calm_punctual_step)

lemma punctual_run: "no_late_subscribe authz h es \<Longrightarrow> hub_run authz h es = foldl (punctual_step authz) h es"
  by (induction es arbitrary: h) (auto simp: punctual_step_def)

lemma calm_new_hub: "calm (new_hub cap hp)"
  by (simp add: calm_def inv_new_hub) (simp add: new_hub_def)

text \<open>
  the \<open>Run\<close> goroutine never panics in a run in which no read pump handles a subscribe after
  the hub has closed its client's send channel: no channel is closed twice, and no broadcast
  sends on a closed one.
\<close>
theorem no_panic_without_late_subscribe:
  assumes "no_late_subscribe authz (new_hub cap hp) es"
  shows "\<not> panicked (hub_run authz (new_hub cap hp) es)"
  using punctual.run_inv [OF calm_new_hub, of authz cap hp es] punctual_run [OF assms]
  by (simp add: calm_def)

definition demo_hub :: "unit hub" where
  "demo_hub = new_hub 2 (\<lambda>_. new_client '''' ())"

definition demo_join :: "(unit, unit) hub_event list" where
  "demo_join = [Connect ''u'' (), RunRegister, Inbound () 0 ''subscribe'' ''platform'']"

theorem no_panic_without_late_subscribe_witness:
  "\<not> panicked (hub_run (Some (\<lambda>_ _ _. True)) demo_hub
      (demo_join @ [Broadcast (''platform'', ''update'', ''{}''), RunBroadcast, ReadEnd 0, RunUnregister]))"
proof -
  have "no_late_subscribe (Some (\<lambda>_ _ _. True)) demo_hub
      (demo_join @ [Broadcast (''platform'', ''update'', ''{}''), RunBroadcast, ReadEnd 0, RunUnregister])"
    by (simp add: demo_hub_def demo_join_def new_hub_def new_client_def hub_step_def connect_def conn_count_def
        run_selects_def run_register_def pump_runs_def register_cap_def)
  then show ?thesis
    unfolding demo_hub_def by (rule no_panic_without_late_subscribe)
qed

text \<open>The subscription of a closed client outlives its own clean-up: nothing removes it.\<close>

lemma hub_run_Cons: "hub_run authz h (e # es) = hub_run authz (hub_step authz h e) es"
  by simp

text \<open>
  a slow client the hub has evicted and closed still has a read pump; an authorized
  subscribe it handles puts the closed client back among a channel's subscribers, the clean-up
  of its own disconnect does not take it out (the client is no longer registered), and the
  next broadcast on that channel sends on the closed channel and panics \<open>Run\<close>.
\<close>
theorem late_subscribe_panics:
  assumes running: "run_selects h" "\<not> panicked h" and queues: "unregister_q h = []" "broadcast_q h = []"
    and evicted: "send_closed (heap h c)" "c \<notin> set (clients h)" and pump: "pump_runs h c"
    and ok: "authorize db (ctx (heap h c)) ch" "ch \<noteq> ''''"
  shows "panicked (hub_run (Some authorize) h
     [Inbound db c ''subscribe'' ch, ReadEnd c, RunUnregister, Broadcast (ch, ev, d), RunBroadcast])"
proof -
  let ?h1 = "subscribe h c ch"
  let ?h2 = "read_end ?h1 c"
  let ?h3 = "?h2\<lparr>unregister_q := []\<rparr>"
  let ?h4 = "?h3\<lparr>broadcast_q := [(ch, ev, d)]\<rparr>"
  have e1: "hub_step (Some authorize) h (Inbound db c ''subscribe'' ch) = ?h1"
    using running pump ok by (simp add: hub_step_def inbound_def)
  have e2: "hub_step (Some authorize) ?h1 (ReadEnd c) = ?h2"
    using running pump by (simp add: hub_step_def pump_runs_def subscribe_def)
  have e3: "hub_step (Some authorize) ?h2 RunUnregister = ?h3"
    using running queues evicted
    by (simp add: hub_step_def run_selects_def run_unregister_def read_end_def subscribe_def)
  have e4: "hub_step (Some authorize) ?h3 (Broadcast (ch, ev, d)) = ?h4"
    using running queues by (simp add: hub_step_def read_end_def subscribe_def)
  have mem: "c \<in> set (subs_of ?h4 ch)"
    by (simp add: subs_of_def read_end_def subscribe_def update_conv' List.insert_def)
  have cl: "send_closed (heap ?h4 c)" using evicted by (simp add: read_end_def subscribe_def)
  have "deliver (ch, ev, d) (subs_of ?h4 ch) (heap ?h4) = None" using mem cl by (rule deliver_closed)
  then have "panicked (run_broadcast ?h4)" by (simp add: run_broadcast_def)
  moreover have "hub_step (Some authorize) ?h4 RunBroadcast = run_broadcast ?h4"
    using running by (simp add: hub_step_def run_selects_def read_end_def subscribe_def)
  ultimately show ?thesis unfolding hub_run_Cons e1 e2 e3 e4 by simp
qed

definition demo_evicted :: "unit hub" where
  "demo_evicted = hub_run (Some (\<lambda>_ _ _. True)) demo_hub
     (demo_join @ concat (replicate 74 [Broadcast (''platform'', ''e'', ''d''), RunBroadcast]) @ [RunEvict, RunUnregister])"

abbreviation demo_frame :: ws_msg where
  "demo_frame \<equiv> (''platform'', ''e'', ''d'')"

text \<open>The hub after \<open>n\<close> broadcasts that nobody reads.\<close>

definition backlog :: "nat \<Rightarrow> unit hub" where
  "backlog n = demo_hub\<lparr>clients := [0], channels := [(''platform'', [0])], user_conns := [''u'' \<mapsto> 1], next_id := 1,
     heap := (\<lambda>_. new_client '''' ())(0 := (new_client ''u'' ())\<lparr>subscriptions := [''platform''],
        send_buf := replicate (min n 64) demo_frame, drops := n - 64\<rparr>),
     evicting := (if 74 \<le> n then [0] else [])\<rparr>"

lemma backlog_start: "hub_run (Some (\<lambda>_ _ _. True)) demo_hub demo_join = backlog 0"
  by (simp add: backlog_def demo_hub_def demo_join_def new_hub_def new_client_def hub_step_def connect_def conn_count_def
      run_selects_def run_register_def pump_runs_def register_cap_def inbound_def subscribe_def subs_of_def)

lemma backlog_step:
  assumes "n < 74"
  shows "hub_run authz (backlog n) [Broadcast demo_frame, RunBroadcast] = backlog (Suc n)"
proof (cases "n < 64")
  case True
  then have "min n 64 = n" "min (Suc n) 64 = Suc n" "n - 64 = 0" "Suc n - 64 = 0" by simp_all
  then show ?thesis using True assms
    by (simp add: backlog_def demo_hub_def new_hub_def hub_step_def run_selects_def run_broadcast_def subs_of_def
        new_client_def send_buf_size_def replicate_append_same)
next
  case False
  then have "min n 64 = 64" "min (Suc n) 64 = 64" "Suc n - 64 = Suc (n - 64)" by simp_all
  then show ?thesis using False assms
    by (simp add: backlog_def demo_hub_def new_hub_def hub_step_def run_selects_def run_broadcast_def subs_of_def
        new_client_def send_buf_size_def max_consecutive_drops_def) arith
qed

lemma backlog_run:
  "n + k \<le> 74 \<Longrightarrow> hub_run authz (backlog n) (concat (replicate k [Broadcast demo_frame, RunBroadcast])) = backlog (n + k)"
proof (induction k arbitrary: n)
  case (Suc k)
  then show ?case
    using backlog_step [of n authz] Suc.IH [of "Suc n"] by simp
qed simp

lemma demo_evicted_eq: "demo_evicted = hub_run (Some (\<lambda>_ _ _. True)) (backlog 74) [RunEvict, RunUnregister :: (unit, unit) hub_event]"
  unfolding demo_evicted_def foldl_append backlog_start
  using backlog_run [of 0 74 "Some (\<lambda>_ _ _. True) :: (unit \<Rightarrow> unit \<Rightarrow> string \<Rightarrow> bool) option"] by simp

lemma demo_evicted_facts:
  "run_selects demo_evicted" "\<not> panicked demo_evicted" "unregister_q demo_evicted = []"
  "broadcast_q demo_evicted = []" "send_closed (heap demo_evicted 0)" "0 \<notin> set (clients demo_evicted)"
  "pump_runs demo_evicted 0"
  by (simp_all add: demo_evicted_eq backlog_def demo_hub_def new_hub_def hub_step_def run_evict_def unregister_cap_def
      run_selects_def run_unregister_def Let_def new_client_def pump_runs_def conn_count_def)

theorem late_subscribe_panics_witness:
  "panicked (hub_run (Some (\<lambda>_ _ _. True)) demo_evicted
     [Inbound () 0 ''subscribe'' ''platform'', ReadEnd 0, RunUnregister, Broadcast demo_frame, RunBroadcast])"
  by (rule late_subscribe_panics) (simp_all add: demo_evicted_facts)

section \<open>Deadlock\<close>

definition stuck :: "'x hub \<Rightarrow> bool" where
  "stuck h \<longleftrightarrow> evicting h \<noteq> [] \<and> unregister_cap < length (evicting h) + length (unregister_q h)"

lemma stuck_step: "stuck h \<Longrightarrow> stuck (hub_step authz h e)"
  by (cases e)
     (auto simp: stuck_def hub_step_def run_selects_def connect_def inbound_def subscribe_def unsubscribe_def
       read_end_def write_one_def run_evict_def split: list.splits option.splits if_splits)

interpretation blocked: machine "hub_step authz" stuck
  by unfold_locales (rule stuck_step)

text \<open>
  when one broadcast finds more slow clients than \<open>unregisterCh\<close> has room for, \<open>Run\<close> blocks
  for ever on its own channel: whatever happens next, clients remain to be evicted, so \<open>Run\<close>
  never selects again and no registration, unregistration or broadcast is processed.
\<close>
theorem slow_burst_deadlocks_run:
  assumes "run_selects h" "\<not> panicked h" "broadcast_q h = m # q"
    and "deliver m (subs_of h (fst m)) (heap h) = Some (hp, slow)"
    and "unregister_cap < length slow + length (unregister_q h)" "slow \<noteq> []"
  shows "\<not> run_selects (hub_run authz h (RunBroadcast # es))"
proof -
  have "stuck (hub_step authz h RunBroadcast)"
    using assms by (simp add: hub_step_def run_broadcast_def stuck_def)
  then have "stuck (hub_run authz h (RunBroadcast # es))"
    unfolding hub_run_Cons by (rule blocked.run_inv)
  then show ?thesis by (simp add: stuck_def run_selects_def)
qed

definition crowd_hub :: "nat \<Rightarrow> unit hub" where
  "crowd_hub n = (new_hub 100 (\<lambda>_. (new_client ''u'' ())\<lparr>send_buf := replicate 64 (''x'', ''e'', ''d''), drops := 9\<rparr>))
     \<lparr>clients := [0..<n], channels := [(''x'', [0..<n])], next_id := n, broadcast_q := [(''x'', ''e'', ''d'')]\<rparr>"

theorem slow_burst_deadlocks_run_witness:
  "\<forall>es :: (unit, unit) hub_event list. \<not> run_selects (hub_run None (crowd_hub 65) (RunBroadcast # es))"
proof -
  let ?h = "crowd_hub 65" and ?m = "(''x'', ''e'', ''d'')"
  have subs: "subs_of ?h ''x'' = [0..<65]" by (simp add: subs_of_def crowd_hub_def del: upt_rec_numeral)
  have slow: "is_slow (heap ?h c)" for c
    by (simp add: crowd_hub_def new_hub_def new_client_def is_slow_def full_buf_def send_buf_size_def max_consecutive_drops_def)
  have "deliver ?m (subs_of ?h ''x'') (heap ?h) =
     Some (\<lambda>c. if c \<in> set (subs_of ?h ''x'') then after_send ?m (heap ?h c) else heap ?h c,
           filter (\<lambda>c. is_slow (heap ?h c)) (subs_of ?h ''x''))"
    by (rule deliver_spec) (simp only: subs distinct_upt, simp add: crowd_hub_def new_hub_def new_client_def)
  moreover have "filter (\<lambda>c. is_slow (heap ?h c)) (subs_of ?h ''x'') = [0..<65]"
    using slow subs by simp
  ultimately have d: "deliver ?m (subs_of ?h (fst ?m)) (heap ?h) =
     Some (\<lambda>c. if c \<in> set (subs_of ?h ''x'') then after_send ?m (heap ?h c) else heap ?h c, [0..<65])"
    by simp
  have h: "run_selects ?h" "\<not> panicked ?h" "broadcast_q ?h = ?m # []" "unregister_q ?h = []"
    by (simp_all add: run_selects_def crowd_hub_def new_hub_def)
  show ?thesis
    by (rule allI, rule slow_burst_deadlocks_run [OF h(1-3) d]) (simp_all add: h(4) unregister_cap_def)
qed

section \<open>Who hears a channel\<close>

text \<open>
  The interface of \<open>ChannelAuthorizer\<close>: it approves only what it positively recognises.
  The hub's guarantee to every such implementation: a subscriber was admitted by it.
\<close>

lemma step_ctx: "c < next_id h \<Longrightarrow> ctx (heap (hub_step authz h e) c) = ctx (heap h c)"
proof (cases e)
  case RunBroadcast
  have "ctx (heap (run_broadcast h) c) = ctx (heap h c)"
    using deliver_kept [of _ _ "heap h" _ _ c]
    by (auto simp: run_broadcast_def kept_def split: list.splits option.splits)
  with RunBroadcast show ?thesis by (simp add: hub_step_def)
qed (auto simp: hub_step_def connect_def inbound_def subscribe_def unsubscribe_def run_register_def run_unregister_def
  run_evict_def run_shutdown_def read_end_def write_one_def Let_def split: list.splits option.splits)

lemma step_subscriber:
  assumes inv: "hub_inv h" and mem: "c \<in> set (subs_of (hub_step (Some authorize) h e) ch)"
  shows "c < next_id h \<and> (c \<in> set (subs_of h ch) \<or>
           (\<exists>db. e = Inbound db c ''subscribe'' ch \<and> authorize db (ctx (heap h c)) ch \<and> pump_runs h c))"
proof -
  have inv': "channels_ok (hub_step (Some authorize) h e)" and chs: "channels_ok h"
    using inv_hub_step [OF inv] inv by (auto simp: hub_inv_def)
  have d: "distinct (map fst (channels h))" using chs by (simp add: channels_ok_def)
  obtain s where s: "(ch, s) \<in> set (channels (hub_step (Some authorize) h e))" "c \<in> set s"
    using mem subs_of_mem [OF inv'] by blast
  have "(\<exists>s. (ch, s) \<in> set (channels h) \<and> c \<in> set s) \<or>
           c < next_id h \<and> (\<exists>db. e = Inbound db c ''subscribe'' ch \<and> authorize db (ctx (heap h c)) ch \<and> pump_runs h c)"
    using s subs_of_mem [OF chs, of c ch]
    by (cases e)
       (auto simp: hub_step_def connect_def inbound_def subscribe_def unsubscribe_def run_register_def
         run_unregister_def run_broadcast_def run_evict_def run_shutdown_def read_end_def write_one_def Let_def
         pump_runs_def set_AList_update [OF d] set_AList_delete drop_client_set
         split: list.splits option.splits if_splits dest!: map_of_SomeD)
  then show ?thesis
    using subs_of_mem [OF chs, of c ch] channels_okD(3) [OF chs] by blast
qed

locale channel_authorizer =
  fixes authorize :: "'db \<Rightarrow> 'x \<Rightarrow> string \<Rightarrow> bool"
    and recognised :: "'db \<Rightarrow> 'x \<Rightarrow> string \<Rightarrow> bool"
  assumes fail_closed: "authorize db x ch \<Longrightarrow> recognised db x ch"
begin

lemma subscriber_recognised:
  assumes "c \<in> set (subs_of (hub_run (Some authorize) (new_hub cap hp) es) ch)"
  shows "\<exists>db. Inbound db c ''subscribe'' ch \<in> set es \<and>
     recognised db (ctx (heap (hub_run (Some authorize) (new_hub cap hp) es) c)) ch"
  using assms
proof (induction es rule: rev_induct)
  case Nil
  then show ?case by (simp add: new_hub_def subs_of_def)
next
  case (snoc e es)
  let ?h = "hub_run (Some authorize) (new_hub cap hp) es"
  have mem: "c \<in> set (subs_of (hub_step (Some authorize) ?h e) ch)" using snoc.prems by simp
  from step_subscriber [OF run_hub_inv mem]
  show ?case using snoc.IH step_ctx [of c ?h "Some authorize" e] fail_closed by auto
qed

end

interpretation dashboard: channel_authorizer "authorize_channel scan" "channel_recognised scan"
  by unfold_locales (rule authorize_channel_recognised)

text \<open>
  C20: in every run of the hub behind the dashboard's authorizer, a client subscribed to a
  channel asked for exactly that channel and was, at that moment, an admin on an admin channel,
  anybody on the open one, or a caller whose pin and ownership reach the resource whose
  canonical id ends the channel's name.
\<close>
theorem subscribers_are_authorized:
  assumes "c \<in> set (subs_of (hub_run (Some (authorize_channel scan)) (new_hub cap hp) es) ch)"
  shows "\<exists>db. Inbound db c ''subscribe'' ch \<in> set es \<and>
     channel_recognised scan db (ctx (heap (hub_run (Some (authorize_channel scan)) (new_hub cap hp) es) c)) ch"
  using assms by (rule dashboard.subscriber_recognised)

theorem subscribers_are_authorized_witness:
  "\<exists>db. Inbound db 0 ''subscribe'' ''platform'' \<in> set
       [Connect ''u'' (demo_caller ''member'' None), RunRegister, Inbound demo_access_db 0 ''subscribe'' ''platform''] \<and>
     channel_recognised (\<lambda>_. None) db (demo_caller ''member'' None) ''platform''"
proof -
  let ?x = "demo_caller ''member'' None" and ?hp = "\<lambda>_. new_client '''' (demo_caller ''member'' None)"
  let ?es = "[Connect ''u'' ?x, RunRegister, Inbound demo_access_db 0 ''subscribe'' ''platform'']"
  let ?h = "hub_run (Some (authorize_channel (\<lambda>_. None))) (new_hub 2 ?hp) ?es"
  have ok: "authorize_channel (\<lambda>_. None) demo_access_db ?x ''platform''"
    by (simp add: authorize_channel_def ws_admin_channels_def ws_open_channels_def)
  note defs = new_hub_def new_client_def hub_step_def connect_def conn_count_def run_selects_def run_register_def
    pump_runs_def register_cap_def inbound_def subscribe_def subs_of_def Let_def
  have "0 \<in> set (subs_of ?h ''platform'')" using ok by (simp add: defs)
  moreover have "ctx (heap ?h 0) = ?x" using ok by (simp add: defs)
  ultimately show ?thesis
    using subscribers_are_authorized [of 0 "\<lambda>_. None" 2 ?hp ?es "''platform''"] by simp
qed

theorem broadcast_reaches_subscribers_witness:
  "send_buf (heap (hub_step (Some (\<lambda>_ _ _. True)) (hub_run (Some (\<lambda>_ _ _. True)) demo_hub
      (demo_join @ [Broadcast demo_frame])) (RunBroadcast :: (unit, unit) hub_event)) 0) = [demo_frame]"
proof -
  let ?z = "Some (\<lambda>_ _ _. True) :: (unit \<Rightarrow> unit \<Rightarrow> string \<Rightarrow> bool) option"
  let ?h = "hub_run ?z demo_hub (demo_join @ [Broadcast demo_frame])"
  have e: "?h = (backlog 0)\<lparr>broadcast_q := [demo_frame]\<rparr>"
    by (simp add: backlog_start hub_step_def) (simp add: backlog_def demo_hub_def new_hub_def)
  have facts: "run_selects ?h" "\<not> panicked ?h" "broadcast_q ?h = demo_frame # []"
    "subs_of ?h (fst demo_frame) = [0]" "heap ?h 0 = (new_client ''u'' ())\<lparr>subscriptions := [''platform'']\<rparr>"
    unfolding e by (simp_all add: backlog_def demo_hub_def new_hub_def run_selects_def subs_of_def new_client_def)
  have "hub_inv ?h" unfolding demo_hub_def by (rule run_hub_inv)
  from broadcast_reaches_subscribers [OF this facts(1-3), of ?z] facts(4,5)
  show ?thesis by (simp add: new_client_def after_send_def full_buf_def send_buf_size_def)
qed

section \<open>Two races of registration\<close>

definition waiting :: "string \<Rightarrow> int \<Rightarrow> nat \<Rightarrow> 'x hub \<Rightarrow> bool" where
  "waiting u cap k h \<longleftrightarrow> length (register_q h) = k \<and> conn_count h u = 0 \<and> \<not> panicked h \<and> run_selects h \<and>
     max_conns h = cap \<and> (\<forall>c \<in> set (register_q h). user_id (heap h c) = u \<and> c < next_id h)"

lemma waiting_connect: "1 \<le> cap \<Longrightarrow> waiting u cap k h \<Longrightarrow> waiting u cap (Suc k) (hub_step authz h (Connect u x))"
  by (auto simp: waiting_def hub_step_def connect_def new_client_def conn_count_def run_selects_def less_Suc_eq)

lemma waiting_connects: "1 \<le> cap \<Longrightarrow> waiting u cap j h \<Longrightarrow> waiting u cap (j + k) (hub_run authz h (replicate k (Connect u x)))"
proof (induction k arbitrary: j h)
  case (Suc k)
  then show ?case using waiting_connect [of cap u j h authz x] Suc.IH [of "Suc j"] by simp
qed simp

lemma race_registers:
  "run_selects h \<Longrightarrow> \<not> panicked h \<Longrightarrow> length (register_q h) = k \<Longrightarrow> \<forall>c \<in> set (register_q h). user_id (heap h c) = u \<Longrightarrow>
     conn_count (hub_run authz h (replicate k RunRegister)) u = conn_count h u + int k"
proof (induction k arbitrary: h)
  case (Suc k)
  then obtain c q where q: "register_q h = c # q" by (cases "register_q h") auto
  let ?h = "run_register h"
  have "run_selects ?h" "\<not> panicked ?h" "length (register_q ?h) = k"
    "\<forall>c \<in> set (register_q ?h). user_id (heap ?h c) = u" "conn_count ?h u = conn_count h u + 1"
    using Suc.prems q by (auto simp: run_register_def run_selects_def Let_def conn_count_def)
  then show ?case using Suc.IH [of ?h] Suc.prems by (simp add: hub_step_def)
qed simp

text \<open>
  the per-user connection cap is checked against a count that only \<open>Run\<close> raises: any number
  \<open>k\<close> of handshakes of one user that arrive before \<open>Run\<close> takes the first from \<open>registerCh\<close> are
  all admitted, whatever the cap.
\<close>
theorem connection_cap_race:
  assumes "1 \<le> cap"
  shows "conn_count (hub_run authz (new_hub cap hp) (replicate k (Connect u x) @ replicate k RunRegister)) u = int k"
proof -
  let ?h = "hub_run authz (new_hub cap hp) (replicate k (Connect u x))"
  have "length (register_q ?h) = k \<and> conn_count ?h u = 0 \<and> \<not> panicked ?h \<and> run_selects ?h \<and>
      (\<forall>c \<in> set (register_q ?h). user_id (heap ?h c) = u)"
    using waiting_connects [OF assms, of u 0 "new_hub cap hp" k authz x]
    by (simp add: waiting_def) (simp add: new_hub_def conn_count_def run_selects_def)
  then show ?thesis using race_registers [of ?h k u authz] by simp
qed

theorem connection_cap_race_witness:
  "conn_count (hub_run None demo_hub
     (replicate 7 (Connect ''u'' ()) @ replicate 7 (RunRegister :: (unit, unit) hub_event))) ''u'' = 7 \<and> max_conns demo_hub = 2"
proof
  show "conn_count (hub_run None demo_hub
     (replicate 7 (Connect ''u'' ()) @ replicate 7 (RunRegister :: (unit, unit) hub_event))) ''u'' = 7"
    unfolding demo_hub_def by (subst connection_cap_race) simp_all
qed (simp add: demo_hub_def new_hub_def)

definition ghost :: "nat \<Rightarrow> 'x hub \<Rightarrow> bool" where
  "ghost c h \<longleftrightarrow> hub_inv h \<and> c \<in> set (clients h) \<and> c < next_id h \<and> \<not> reading (heap h c) \<and> c \<notin> set (unregister_q h) \<and>
     c \<notin> set (evicting h) \<and> (\<forall>ch. c \<notin> set (subs_of h ch))"

lemma deliver_slow_subset: "deliver m cs hp = Some (hp', slow) \<Longrightarrow> set slow \<subseteq> set cs"
proof (induction cs arbitrary: hp hp' slow)
  case (Cons a cs)
  then show ?case by (fastforce simp: deliver_Cons simp del: deliver.simps split: if_splits)
qed simp

lemma deliver_reading: "deliver m cs hp = Some (hp', slow) \<Longrightarrow> reading (hp' c) = reading (hp c)"
proof (induction cs arbitrary: hp hp' slow)
  case (Cons a cs)
  obtain slow1 where "deliver m cs (hp(a := after_send m (hp a))) = Some (hp', slow1)"
    using Cons.prems unfolding deliver_Cons by (auto split: if_splits)
  from Cons.IH [OF this] show ?case by (simp add: after_send_def)
qed simp

lemma ghost_step:
  assumes "ghost c h" "e \<noteq> Shutdown"
  shows "ghost c (hub_step (Some authorize) h e)"
proof -
  let ?h = "hub_step (Some authorize) h e"
  have inv: "hub_inv h" using assms by (simp add: ghost_def)
  have silent: "c \<notin> set (subs_of ?h ch)" for ch
    using step_subscriber [OF inv, of c authorize e ch] assms by (auto simp: ghost_def pump_runs_def)
  have slow: "c \<notin> set slow" if "deliver m (subs_of h ch) (heap h) = Some (hp, slow)" for m ch hp slow
    using deliver_slow_subset [OF that] assms by (auto simp: ghost_def)
  show ?thesis
    using assms silent inv_hub_step [OF inv, of "Some authorize" e] slow deliver_reading [of _ _ "heap h" _ _ c]
    by (cases e)
       (auto simp: ghost_def hub_step_def connect_def run_register_def Let_def run_unregister_def run_broadcast_def
          run_evict_def read_end_def write_one_def inbound_def subscribe_def unsubscribe_def pump_runs_def run_selects_def
          split: list.splits option.splits if_splits)
qed

definition living_step :: "('db \<Rightarrow> 'x \<Rightarrow> string \<Rightarrow> bool) \<Rightarrow> 'x hub \<Rightarrow> ('x, 'db) hub_event \<Rightarrow> 'x hub" where
  "living_step authorize h e = (if e = Shutdown then h else hub_step (Some authorize) h e)"

interpretation haunted: machine "living_step authorize" "ghost c"
  by unfold_locales (simp add: living_step_def ghost_step)

lemma living_run: "Shutdown \<notin> set es \<Longrightarrow> hub_run (Some authorize) h es = foldl (living_step authorize) h es"
  by (induction es arbitrary: h) (auto simp: living_step_def)

text \<open>
  \<open>registerCh\<close> and \<open>unregisterCh\<close> are unordered with respect to each other. A client that
  disconnects before \<open>Run\<close> takes its registration can be unregistered first, which does
  nothing, and registered afterwards: from then on, until the server stops, it is registered
  and counts against its user's cap although its connection is gone.
\<close>
theorem unregister_first_leaks_slot:
  assumes "1 \<le> cap" "Shutdown \<notin> set es"
  shows "let h = hub_run (Some authorize) (new_hub cap hp)
               ([Connect u x, ReadEnd 0, RunUnregister, RunRegister] @ es)
         in 0 \<in> set (clients h) \<and> \<not> pump_runs h 0"
proof -
  let ?h = "hub_run (Some authorize) (new_hub cap hp) [Connect u x, ReadEnd 0, RunUnregister, RunRegister]"
  have "hub_inv ?h" by (rule run_hub_inv)
  moreover have "0 \<in> set (clients ?h) \<and> 0 < next_id ?h \<and> \<not> reading (heap ?h 0) \<and> unregister_q ?h = [] \<and>
      evicting ?h = [] \<and> channels ?h = []"
    using assms(1)
    by (simp add: new_hub_def new_client_def hub_step_def connect_def conn_count_def pump_runs_def register_cap_def
        read_end_def run_selects_def run_unregister_def run_register_def Let_def)
  ultimately have "ghost 0 ?h" by (simp add: ghost_def subs_of_def)
  from haunted.run_inv [OF this, of authorize es] living_run [OF assms(2), of authorize ?h]
  show ?thesis by (simp add: Let_def ghost_def pump_runs_def)
qed

theorem unregister_first_leaks_slot_witness:
  "0 \<in> set (clients (hub_run (Some (\<lambda>_ _ _. True)) demo_hub
     ([Connect ''u'' (), ReadEnd 0, RunUnregister, RunRegister] @ [RunBroadcast :: (unit, unit) hub_event])))"
  using unregister_first_leaks_slot [of 2 "[RunBroadcast]" "\<lambda>(_::unit) (_::unit) _. True" "\<lambda>_. new_client '''' ()" "''u''" "()"]
  unfolding demo_hub_def Let_def by simp

end
