(* ===== verification/Keyring.thy ===== *)
theory Keyring
  imports Prelude
begin

text \<open>
  Encryption of stored secrets: the envelope of \<open>internal/pkg/crypto/keyring.go\<close> and the key
  rotation command \<open>cmd/rewrap\<close>.

  AES-GCM is the parameter \<open>aead\<close> (sealing and opening under a key and a nonce), its documented
  behaviour the hypothesis \<open>aead_ok\<close>. \<open>rand.Reader\<close> is an explicit list of bytes still to be
  read; a read beyond it fails. A key map is an association list with distinct versions.
\<close>

section \<open>The cipher\<close>

record aead =
  gcm_seal :: "bytes \<Rightarrow> bytes \<Rightarrow> bytes \<Rightarrow> bytes" \<comment> \<open>key, nonce, plaintext\<close>
  gcm_open :: "bytes \<Rightarrow> bytes \<Rightarrow> bytes \<Rightarrow> bytes option"

definition aead_ok :: "aead \<Rightarrow> bool" where
  "aead_ok a \<longleftrightarrow>
     (\<forall>k n p. gcm_open a k n (gcm_seal a k n p) = Some p) \<and>
     (\<forall>k n c p. gcm_open a k n c = Some p \<longrightarrow> c = gcm_seal a k n p) \<and>
     (\<forall>k n p. length (gcm_seal a k n p) = length p + 16)"

definition nonce_size :: nat where "nonce_size = 12"

text \<open>\<open>aes.NewCipher\<close> takes 16, 24 or 32 bytes.\<close>

definition cipher_key :: "bytes \<Rightarrow> bool" where
  "cipher_key k \<longleftrightarrow> length k \<in> {16, 24, 32}"

definition read_full :: "nat \<Rightarrow> bytes \<Rightarrow> string + (bytes \<times> bytes)" where
  "read_full n rnd = (if length rnd < n then Inl ''EOF'' else Inr (take n rnd, drop n rnd))"

definition seal_gcm :: "aead \<Rightarrow> bytes \<Rightarrow> bytes \<Rightarrow> bytes \<Rightarrow> string + ((bytes \<times> bytes) \<times> bytes)" where
  "seal_gcm a key plaintext rnd =
     (if \<not> cipher_key key then Inl ''key size''
      else res_bind (read_full nonce_size rnd)
             (\<lambda>(nonce, rnd'). Inr ((nonce, gcm_seal a key nonce plaintext), rnd')))"

definition open_gcm :: "aead \<Rightarrow> bytes \<Rightarrow> bytes \<Rightarrow> bytes \<Rightarrow> string + bytes" where
  "open_gcm a key nonce ct =
     (if \<not> cipher_key key then Inl ''key size''
      else case gcm_open a key nonce ct of None \<Rightarrow> Inl ''authentication failed'' | Some p \<Rightarrow> Inr p)"

section \<open>The keyring\<close>

definition envelope_magic :: bytes where "envelope_magic = [0x50, 0x61, 0x61, 0x53, 0x01]"
definition envelope_header_len :: nat where "envelope_header_len = 6"
definition dek_nonce_len :: nat where "dek_nonce_len = 12"
definition wrapped_dek_len :: nat where "wrapped_dek_len = 48"
definition data_nonce_len :: nat where "data_nonce_len = 12"
definition gcm_tag_len :: nat where "gcm_tag_len = 16"
definition dek_len :: nat where "dek_len = 32"
definition kek_len :: nat where "kek_len = 32"

definition envelope_min_len :: nat where
  "envelope_min_len = envelope_header_len + dek_nonce_len + wrapped_dek_len + data_nonce_len + gcm_tag_len"

named_theorems env_lens \<open>the lengths of the envelope's fields\<close>

lemmas [env_lens] = envelope_header_len_def dek_nonce_len_def wrapped_dek_len_def data_nonce_len_def
  gcm_tag_len_def dek_len_def kek_len_def envelope_min_len_def nonce_size_def

record keyring =
  keks :: "(byte \<times> bytes) list"
  current_version :: byte

definition new_keyring :: "(byte \<times> bytes) list \<Rightarrow> byte \<Rightarrow> string + keyring" where
  "new_keyring ks current =
     (if ks = [] then Inl ''at least one KEK is required''
      else if map_of ks current = None then Inl ''current version not present''
      else if \<not> list_all (\<lambda>(v, k). length k = kek_len) ks then Inl ''KEK size''
      else Inr \<lparr>keks = ks, current_version = current\<rparr>)"

definition versions :: "keyring \<Rightarrow> byte list" where
  "versions k = map word_of_nat (sort (map (unat \<circ> fst) (keks k)))"

definition encrypt_with_version :: "aead \<Rightarrow> keyring \<Rightarrow> bytes \<Rightarrow> byte \<Rightarrow> bytes \<Rightarrow> string + (bytes \<times> bytes)" where
  "encrypt_with_version a k plaintext version rnd =
     (case map_of (keks k) version of
        None \<Rightarrow> Inl ''unknown KEK version''
      | Some kek \<Rightarrow>
          res_bind (read_full dek_len rnd) (\<lambda>(dek, rnd1).
          res_bind (seal_gcm a kek dek rnd1) (\<lambda>((dek_nonce, wrapped_dek), rnd2).
          res_bind (seal_gcm a dek plaintext rnd2) (\<lambda>((data_nonce, data_ct), rnd3).
            Inr (envelope_magic @ [version] @ dek_nonce @ wrapped_dek @ data_nonce @ data_ct, rnd3)))))"

definition encrypt :: "aead \<Rightarrow> keyring \<Rightarrow> bytes \<Rightarrow> bytes \<Rightarrow> string + (bytes \<times> bytes)" where
  "encrypt a k plaintext rnd = encrypt_with_version a k plaintext (current_version k) rnd"

definition is_envelope :: "bytes \<Rightarrow> bool" where
  "is_envelope ct = (if length ct < envelope_min_len then False
                     else take (length envelope_magic) ct = envelope_magic)"

definition decrypt_envelope :: "aead \<Rightarrow> keyring \<Rightarrow> bytes \<Rightarrow> string + bytes" where
  "decrypt_envelope a k ct =
     (if length ct < envelope_min_len then Inl ''ciphertext too short''
      else case map_of (keks k) (ct ! 5) of
        None \<Rightarrow> Inl ''unknown KEK version''
      | Some kek \<Rightarrow>
          let rest0 = drop envelope_header_len ct;
              dek_nonce = take dek_nonce_len rest0; rest1 = drop dek_nonce_len rest0;
              wrapped_dek = take wrapped_dek_len rest1; rest2 = drop wrapped_dek_len rest1;
              data_nonce = take data_nonce_len rest2; data_ct = drop data_nonce_len rest2
          in res_bind (open_gcm a kek dek_nonce wrapped_dek) (\<lambda>dek. open_gcm a dek data_nonce data_ct))"

definition decrypt_legacy :: "aead \<Rightarrow> keyring \<Rightarrow> bytes \<Rightarrow> string + bytes" where
  "decrypt_legacy a k ct =
     (case map_of (keks k) 1 of
        None \<Rightarrow> Inl ''KEK v1 required''
      | Some kek \<Rightarrow>
          if \<not> cipher_key kek then Inl ''key size''
          else if length ct < nonce_size then Inl ''ciphertext too short''
          else case gcm_open a kek (take nonce_size ct) (drop nonce_size ct) of
                 None \<Rightarrow> Inl ''authentication failed'' | Some p \<Rightarrow> Inr p)"

definition decrypt :: "aead \<Rightarrow> keyring \<Rightarrow> bytes \<Rightarrow> string + bytes" where
  "decrypt a k ct = (if is_envelope ct then decrypt_envelope a k ct else decrypt_legacy a k ct)"

definition rewrap :: "aead \<Rightarrow> keyring \<Rightarrow> bytes \<Rightarrow> bytes \<Rightarrow> string + (bytes \<times> bytes)" where
  "rewrap a k ct rnd = res_bind (decrypt a k ct) (\<lambda>plaintext. encrypt a k plaintext rnd)"

definition is_current :: "keyring \<Rightarrow> bytes \<Rightarrow> bool" where
  "is_current k ct = (if \<not> is_envelope ct then False else ct ! 5 = current_version k)"

section \<open>Configuration\<close>

definition hex_value :: "char \<Rightarrow> nat option" where
  "hex_value c =
     (let n = (of_char c :: nat)
      in if 48 \<le> n \<and> n \<le> 57 then Some (n - 48)
         else if 97 \<le> n \<and> n \<le> 102 then Some (n - 87)
         else if 65 \<le> n \<and> n \<le> 70 then Some (n - 55)
         else None)"

fun hex_decode :: "string \<Rightarrow> bytes option" where
  "hex_decode [] = Some []"
| "hex_decode [c] = None"
| "hex_decode (c # d # s) =
     (case (hex_value c, hex_value d) of
        (Some x, Some y) \<Rightarrow> map_option ((#) (word_of_nat (16 * x + y))) (hex_decode s)
      | _ \<Rightarrow> None)"

text \<open>\<open>strconv.Atoi\<close>: an optional sign, at least one digit, within \<open>int64\<close>.\<close>

definition digit_value :: "char \<Rightarrow> nat option" where
  "digit_value c = (let n = (of_char c :: nat) in if 48 \<le> n \<and> n \<le> 57 then Some (n - 48) else None)"

fun digits_value :: "nat \<Rightarrow> string \<Rightarrow> nat option" where
  "digits_value acc [] = Some acc"
| "digits_value acc (c # s) =
     (case digit_value c of None \<Rightarrow> None | Some d \<Rightarrow> digits_value (10 * acc + d) s)"

definition atoi :: "string \<Rightarrow> int option" where
  "atoi s =
     (let (neg, body) = (case s of c # t \<Rightarrow> if c = CHR ''-'' then (True, t) else if c = CHR ''+'' then (False, t) else (False, s)
                         | [] \<Rightarrow> (False, []))
      in if body = [] then None
         else case digits_value 0 body of
           None \<Rightarrow> None
         | Some n \<Rightarrow> let v = (if neg then - int n else int n) in if int64_range v then Some v else None)"

text \<open>\<open>strings.SplitN(s, ":", 2)\<close>: \<open>None\<close> when there is no separator.\<close>

definition split_pair :: "string \<Rightarrow> (string \<times> string) option" where
  "split_pair s =
     (let p = takeWhile (\<lambda>c. c \<noteq> CHR '':'') s
      in if length p = length s then None else Some (p, drop (Suc (length p)) s))"

definition parse_version :: "string \<Rightarrow> int option" where
  "parse_version s =
     (case atoi (trim_prefix ''v'' (trim_space s)) of
        None \<Rightarrow> None | Some n \<Rightarrow> if n < 1 \<or> n > 255 then None else Some n)"

fun parse_entries :: "(byte \<times> bytes) list \<Rightarrow> string list \<Rightarrow> string + (byte \<times> bytes) list" where
  "parse_entries ks [] = Inr ks"
| "parse_entries ks (e # es) =
     (let entry = trim_space e
      in if entry = '''' then parse_entries ks es
         else case split_pair entry of
           None \<Rightarrow> Inl ''invalid ENCRYPTION_KEYS entry''
         | Some (v, h) \<Rightarrow>
             (case parse_version v of
                None \<Rightarrow> Inl ''invalid version''
              | Some n \<Rightarrow>
                  (case hex_decode (trim_space h) of
                     None \<Rightarrow> Inl ''decode hex''
                   | Some key \<Rightarrow>
                       if length key \<noteq> kek_len then Inl ''key size''
                       else if map_of ks (word_of_int n) \<noteq> None then Inl ''duplicate version''
                       else parse_entries (ks @ [(word_of_int n, key)]) es)))"

definition parse_keyring_env :: "string \<Rightarrow> string \<Rightarrow> string \<Rightarrow> string + keyring" where
  "parse_keyring_env encryption_keys encryption_key current_str =
     res_bind
       (if trim_space encryption_keys \<noteq> '''' then parse_entries [] (split_on CHR '','' encryption_keys)
        else if trim_space encryption_key \<noteq> '''' then
          (case hex_decode (trim_space encryption_key) of
             None \<Rightarrow> Inl ''decode ENCRYPTION_KEY hex''
           | Some key \<Rightarrow> if length key \<noteq> kek_len then Inl ''key size'' else Inr [(1, key)])
        else Inr [])
       (\<lambda>ks. if ks = [] then Inl ''no keys configured''
             else res_bind
               (if trim_space current_str = ''''
                then Inr (word_of_nat (last (sort (map (unat \<circ> fst) ks))))
                else (case parse_version current_str of
                        None \<Rightarrow> Inl ''invalid ENCRYPTION_KEY_CURRENT'' | Some n \<Rightarrow> Inr (word_of_int n)))
               (new_keyring ks))"

section \<open>Envelopes\<close>

definition ring_ok :: "keyring \<Rightarrow> bool" where
  "ring_ok k \<longleftrightarrow> (\<forall>(v, key) \<in> set (keks k). length key = kek_len) \<and> map_of (keks k) (current_version k) \<noteq> None"

text \<open>The bytes of an envelope, from its parts.\<close>

definition envelope :: "aead \<Rightarrow> byte \<Rightarrow> bytes \<Rightarrow> bytes \<Rightarrow> bytes \<Rightarrow> bytes \<Rightarrow> bytes \<Rightarrow> bytes" where
  "envelope a version kek dek n1 n2 plaintext =
     envelope_magic @ [version] @ n1 @ gcm_seal a kek n1 dek @ n2 @ gcm_seal a dek n2 plaintext"

lemma aeadD:
  assumes "aead_ok a"
  shows "gcm_open a k n (gcm_seal a k n p) = Some p"
    and "gcm_open a k n c = Some p \<Longrightarrow> c = gcm_seal a k n p"
    and "length (gcm_seal a k n p) = length p + 16"
  using assms by (auto simp: aead_ok_def)

lemma kek_cipher_key: "length k = kek_len \<Longrightarrow> cipher_key k"
  by (simp add: cipher_key_def kek_len_def)

lemma read_full_Inr [res_simps]: "read_full n r = Inr (x, r') \<longleftrightarrow> n \<le> length r \<and> x = take n r \<and> r' = drop n r"
  by (auto simp: read_full_def)

lemma seal_gcm_Inr:
  "seal_gcm a key p r = Inr ((n, c), r') \<longleftrightarrow>
     cipher_key key \<and> nonce_size \<le> length r \<and> n = take nonce_size r \<and> c = gcm_seal a key n p \<and> r' = drop nonce_size r"
  by (auto simp: seal_gcm_def read_full_def)

lemma ring_key: "ring_ok k \<Longrightarrow> map_of (keks k) v = Some kek \<Longrightarrow> length kek = kek_len"
  by (auto simp: ring_ok_def dest!: map_of_SomeD)

lemma encrypt_envelope:
  assumes "ring_ok k" "map_of (keks k) v = Some kek" "56 \<le> length rnd"
  shows "encrypt_with_version a k p v rnd =
     Inr (envelope a v kek (take 32 rnd) (take 12 (drop 32 rnd)) (take 12 (drop 44 rnd)) p, drop 56 rnd)"
  using assms ring_key [OF assms(1,2)]
  by (simp add: encrypt_with_version_def seal_gcm_def read_full_def envelope_def cipher_key_def env_lens) arith

lemma encrypt_Inr:
  assumes "ring_ok k" "encrypt_with_version a k p v rnd = Inr (ct, rnd')"
  shows "56 \<le> length rnd \<and> (\<exists>kek. map_of (keks k) v = Some kek \<and>
     ct = envelope a v kek (take 32 rnd) (take 12 (drop 32 rnd)) (take 12 (drop 44 rnd)) p) \<and> rnd' = drop 56 rnd"
proof -
  from assms(2) obtain kek where kek: "map_of (keks k) v = Some kek"
    by (auto simp: encrypt_with_version_def split: option.splits)
  have "56 \<le> length rnd"
    using assms(2) kek
    by (auto simp: encrypt_with_version_def seal_gcm_def read_full_def env_lens split: if_splits)
  with encrypt_envelope [OF assms(1) kek this, of a p] assms(2) kek show ?thesis by simp
qed

lemma envelope_shape:
  assumes "aead_ok a" "length dek = dek_len" "length n1 = 12" "length n2 = 12"
  shows "is_envelope (envelope a v kek dek n1 n2 p)" "envelope a v kek dek n1 n2 p ! 5 = v"
  using assms by (simp_all add: is_envelope_def envelope_def aeadD(3) env_lens envelope_magic_def)

lemma decrypt_envelope_of_envelope:
  assumes "aead_ok a" "length dek = dek_len" "length n1 = 12" "length n2 = 12"
    and "map_of (keks k) v = Some kek" "length kek = kek_len"
  shows "decrypt a k (envelope a v kek dek n1 n2 p) = Inr p"
proof -
  have "decrypt a k (envelope a v kek dek n1 n2 p) = decrypt_envelope a k (envelope a v kek dek n1 n2 p)"
    using envelope_shape(1) [OF assms(1-4)] by (simp add: decrypt_def)
  also have "\<dots> = Inr p"
    using assms by (simp add: decrypt_envelope_def envelope_def aeadD open_gcm_def cipher_key_def env_lens envelope_magic_def Let_def)
  finally show ?thesis .
qed

lemma decrypt_encrypt:
  assumes "aead_ok a" "ring_ok k" "encrypt_with_version a k p v rnd = Inr (ct, rnd')" "map_of (keks k') v = map_of (keks k) v"
  shows "decrypt a k' ct = Inr p \<and> is_envelope ct \<and> ct ! 5 = v"
proof -
  from encrypt_Inr [OF assms(2,3)] obtain kek where
    l: "56 \<le> length rnd" and kek: "map_of (keks k) v = Some kek" and
    ct: "ct = envelope a v kek (take 32 rnd) (take 12 (drop 32 rnd)) (take 12 (drop 44 rnd)) p" by blast
  have len: "length (take 32 rnd) = dek_len" "length (take 12 (drop 32 rnd)) = 12" "length (take 12 (drop 44 rnd)) = 12"
    using l by (simp_all add: dek_len_def)
  show ?thesis
    using decrypt_envelope_of_envelope [OF assms(1) len, of k' v kek p] envelope_shape [OF assms(1) len, of v kek p]
      ring_key [OF assms(2) kek] kek assms(4) ct by simp
qed

text \<open>
  C32: with enough randomness \<open>Encrypt\<close> succeeds, and whatever it returns decrypts to the
  plaintext, under the same keyring and under every keyring that still holds the version it
  was sealed with.
\<close>
theorem encrypt_roundtrip:
  assumes "aead_ok a" "ring_ok k" "56 \<le> length rnd" "map_of (keks k') (current_version k) = map_of (keks k) (current_version k)"
  shows "\<exists>ct rnd'. encrypt a k p rnd = Inr (ct, rnd') \<and> decrypt a k' ct = Inr p \<and> is_current k ct"
proof -
  obtain kek where "map_of (keks k) (current_version k) = Some kek" using assms(2) by (auto simp: ring_ok_def)
  from encrypt_envelope [OF assms(2) this assms(3)] obtain ct rnd' where e: "encrypt a k p rnd = Inr (ct, rnd')"
    by (simp add: encrypt_def)
  with decrypt_encrypt [OF assms(1,2) _ assms(4), of p rnd ct rnd'] show ?thesis
    by (auto simp: encrypt_def is_current_def)
qed

text \<open>
  decryption is exact. An envelope that decrypts at all is, byte for byte, one that
  encryption of that plaintext under the named key produces for some randomness: nothing in
  the magic, the version, the nonces, the wrapped key or the data can be altered.
\<close>
theorem decrypt_only_sealed:
  assumes "aead_ok a" "ring_ok k" "is_envelope ct" "decrypt a k ct = Inr p"
  shows "\<exists>kek dek n1 n2. map_of (keks k) (ct ! 5) = Some kek \<and> length n1 = 12 \<and> length n2 = 12 \<and>
     ct = envelope a (ct ! 5) kek dek n1 n2 p \<and>
     (length dek = dek_len \<and> encrypt_with_version a k p (ct ! 5) (dek @ n1 @ n2) = Inr (ct, []))"
proof -
  have len: "94 \<le> length ct" and magic: "take 5 ct = envelope_magic"
    using assms(3) by (auto simp: is_envelope_def env_lens envelope_magic_def eval_nat_numeral split: if_splits)
  have "decrypt_envelope a k ct = Inr p" using assms(3,4) by (simp add: decrypt_def)
  then obtain kek dek where kek: "map_of (keks k) (ct ! 5) = Some kek" and
    w: "gcm_open a kek (take 12 (drop 6 ct)) (take 48 (drop 18 ct)) = Some dek" and
    d: "gcm_open a dek (take 12 (drop 66 ct)) (drop 78 ct) = Some p" and dk: "cipher_key dek"
    using len
    by (auto simp: decrypt_envelope_def open_gcm_def env_lens Let_def add.commute res_simps split: option.splits if_splits)
  let ?n1 = "take 12 (drop 6 ct)" and ?n2 = "take 12 (drop 66 ct)"
  have ws: "take 48 (drop 18 ct) = gcm_seal a kek ?n1 dek" and ds: "drop 78 ct = gcm_seal a dek ?n2 p"
    using aeadD(2) [OF assms(1) w] aeadD(2) [OF assms(1) d] by auto
  have dl: "length dek = dek_len"
    using arg_cong [OF ws, of length] aeadD(3) [OF assms(1)] len by (simp add: dek_len_def)
  have cat: "ct = take 5 ct @ [ct ! 5] @ take 12 (drop 6 ct) @ take 48 (drop 18 ct) @ take 12 (drop 66 ct) @ drop 78 ct"
  proof -
    have "ct = take 5 ct @ drop 5 ct" by simp
    also have "drop 5 ct = ct ! 5 # drop 6 ct" using len by (simp add: Cons_nth_drop_Suc [symmetric] eval_nat_numeral)
    also have "drop 6 ct = take 12 (drop 6 ct) @ take 48 (drop 18 ct) @ take 12 (drop 66 ct) @ drop 78 ct"
      using take_drop_step [of 12 6 ct] take_drop_step [of 48 18 ct] take_drop_step [of 12 66 ct] by simp
    finally show ?thesis by simp
  qed
  have ct: "ct = envelope a (ct ! 5) kek dek ?n1 ?n2 p"
    using cat unfolding envelope_def ws [symmetric] ds [symmetric] magic [symmetric] by simp
  have l: "length ?n1 = 12" "length ?n2 = 12" using len by simp_all
  have "encrypt_with_version a k p (ct ! 5) (dek @ ?n1 @ ?n2) = Inr (ct, [])"
    using encrypt_envelope [OF assms(2) kek, of "dek @ ?n1 @ ?n2" a p] dl l ct by (simp add: dek_len_def)
  with kek l ct dl show ?thesis by blast
qed

text \<open>A cipher that satisfies the hypothesis: a tag of sixteen zero bytes in front.\<close>

definition toy_aead :: aead where
  "toy_aead = \<lparr>gcm_seal = (\<lambda>k n p. replicate 16 0 @ p),
     gcm_open = (\<lambda>k n c. if take 16 c = replicate 16 0 then Some (drop 16 c) else None)\<rparr>"

lemma toy_aead_ok: "aead_ok toy_aead"
proof -
  have "c = replicate 16 0 @ drop 16 c" if "take 16 c = replicate 16 0" for c :: bytes
    using that by (metis append_take_drop_id)
  then show ?thesis by (auto simp: aead_ok_def toy_aead_def)
qed

definition demo_ring :: keyring where
  "demo_ring = \<lparr>keks = [(1, replicate 32 7), (2, replicate 32 9)], current_version = 2\<rparr>"

lemma demo_ring_ok: "ring_ok demo_ring"
  by (simp add: ring_ok_def demo_ring_def kek_len_def)

theorem encrypt_roundtrip_witness:
  "\<exists>ct rnd'. encrypt toy_aead demo_ring [1, 2] (replicate 56 3) = Inr (ct, rnd') \<and>
     decrypt toy_aead \<lparr>keks = [(2, replicate 32 9)], current_version = 2\<rparr> ct = Inr [1, 2] \<and> is_current demo_ring ct"
  by (rule encrypt_roundtrip [OF toy_aead_ok demo_ring_ok]) (simp_all add: demo_ring_def)

theorem decrypt_only_sealed_witness:
  "\<exists>ct kek dek n1 n2. decrypt toy_aead demo_ring ct = Inr [1, 2] \<and> ct = envelope toy_aead (ct ! 5) kek dek n1 n2 [1, 2]"
proof -
  let ?ct = "envelope toy_aead 2 (replicate 32 9) (replicate 32 3) (replicate 12 3) (replicate 12 3) [1, 2]"
  have d: "decrypt toy_aead demo_ring ?ct = Inr [1, 2]"
    by (rule decrypt_envelope_of_envelope [OF toy_aead_ok]) (simp_all add: demo_ring_def env_lens)
  moreover have "is_envelope ?ct"
    by (rule envelope_shape(1) [OF toy_aead_ok]) (simp_all add: env_lens)
  ultimately show ?thesis
    using decrypt_only_sealed [OF toy_aead_ok demo_ring_ok, of ?ct "[1, 2]"] by blast
qed

section \<open>Legacy ciphertexts\<close>

text \<open>
  a ciphertext from before the keyring, a nonce followed by the sealed text, still decrypts
  under version 1, provided its random nonce does not happen to start with the envelope's magic.
\<close>
theorem legacy_decrypts:
  assumes "aead_ok a" "ring_ok k" "map_of (keks k) 1 = Some kek" "length nonce = nonce_size"
    and "take 5 nonce \<noteq> envelope_magic"
  shows "decrypt a k (nonce @ gcm_seal a kek nonce p) = Inr p \<and> \<not> is_current k (nonce @ gcm_seal a kek nonce p)"
proof -
  have "\<not> is_envelope (nonce @ gcm_seal a kek nonce p)"
    using assms(4,5) by (auto simp: is_envelope_def envelope_magic_def nonce_size_def eval_nat_numeral)
  then show ?thesis
    using assms ring_key [OF assms(2,3)]
    by (simp add: decrypt_def is_current_def decrypt_legacy_def aeadD cipher_key_def kek_len_def)
qed

theorem legacy_decrypts_witness:
  "decrypt toy_aead demo_ring (replicate 12 5 @ gcm_seal toy_aead (replicate 32 7) (replicate 12 5) [1]) = Inr [1]"
proof -
  have "take 5 (replicate 12 5) \<noteq> envelope_magic" by code_simp
  then show ?thesis
    by (intro conjunct1 [OF legacy_decrypts [OF toy_aead_ok demo_ring_ok]]) (simp_all add: demo_ring_def nonce_size_def)
qed

section \<open>Rewrapping\<close>

lemma rewrap_Inr:
  assumes "aead_ok a" "ring_ok k" "rewrap a k ct rnd = Inr (ct', rnd')"
  shows "\<exists>p. decrypt a k ct = Inr p \<and> is_current k ct' \<and>
     (\<forall>k'. map_of (keks k') (current_version k) = map_of (keks k) (current_version k) \<longrightarrow> decrypt a k' ct' = Inr p)"
proof -
  from assms(3) obtain p where p: "decrypt a k ct = Inr p" "encrypt_with_version a k p (current_version k) rnd = Inr (ct', rnd')"
    by (auto simp: rewrap_def encrypt_def res_simps)
  show ?thesis
    using decrypt_encrypt [OF assms(1,2) p(2)] p(1) by (auto simp: is_current_def)
qed

subsection \<open>Base64\<close>

definition b64_alphabet :: string where
  "b64_alphabet = ''ABCDEFGHIJKLMNOPQRSTUVWXYZabcdefghijklmnopqrstuvwxyz0123456789+/''"

definition b64_char :: "nat \<Rightarrow> char" where "b64_char i = b64_alphabet ! i"
definition b64_value :: "char \<Rightarrow> nat option" where "b64_value c = map_of (zip b64_alphabet [0..<64]) c"

fun b64_encode :: "bytes \<Rightarrow> string" where
  "b64_encode [] = ''''"
| "b64_encode [a] = (let n = 65536 * unat a
     in [b64_char (n div 262144), b64_char (n div 4096 mod 64), CHR ''='', CHR ''=''])"
| "b64_encode [a, b] = (let n = 65536 * unat a + 256 * unat b
     in [b64_char (n div 262144), b64_char (n div 4096 mod 64), b64_char (n div 64 mod 64), CHR ''=''])"
| "b64_encode (a # b # c # r) = (let n = 65536 * unat a + 256 * unat b + unat c
     in b64_char (n div 262144) # b64_char (n div 4096 mod 64) # b64_char (n div 64 mod 64) # b64_char (n mod 64)
        # b64_encode r)"

text \<open>One quantum; padding is only legal at the end.\<close>

fun b64_quads :: "string \<Rightarrow> bytes option" where
  "b64_quads [] = Some []"
| "b64_quads (w # x # y # z # r) =
     (case (b64_value w, b64_value x) of
        (Some i, Some j) \<Rightarrow>
          if y = CHR ''='' then
            (if z = CHR ''='' \<and> r = [] then Some [word_of_nat ((262144 * i + 4096 * j) div 65536)] else None)
          else (case b64_value y of
            None \<Rightarrow> None
          | Some k \<Rightarrow>
              if z = CHR ''='' then
                (if r = [] then let n = 262144 * i + 4096 * j + 64 * k
                   in Some [word_of_nat (n div 65536), word_of_nat (n div 256 mod 256)] else None)
              else (case b64_value z of
                None \<Rightarrow> None
              | Some l \<Rightarrow> let n = 262144 * i + 4096 * j + 64 * k + l
                  in map_option (\<lambda>bs. word_of_nat (n div 65536) # word_of_nat (n div 256 mod 256) # word_of_nat (n mod 256) # bs)
                       (b64_quads r)))
      | _ \<Rightarrow> None)"
| "b64_quads s = None"

text \<open>\<open>StdEncoding.DecodeString\<close> skips line breaks.\<close>

definition b64_decode :: "string \<Rightarrow> bytes option" where
  "b64_decode s = b64_quads (filter (\<lambda>c. c \<noteq> CHR 0x0A \<and> c \<noteq> CHR 0x0D) s)"

lemma b64_alphabet_facts: "length b64_alphabet = 64" "distinct b64_alphabet"
  "CHR ''='' \<notin> set b64_alphabet" "CHR 0x0A \<notin> set b64_alphabet" "CHR 0x0D \<notin> set b64_alphabet"
  by (simp_all add: b64_alphabet_def)

lemma b64_value_char: "i < 64 \<Longrightarrow> b64_value (b64_char i) = Some i"
  using b64_alphabet_facts(1,2) map_of_zip_nth [of b64_alphabet "[0..<64]" i]
  by (simp add: b64_value_def b64_char_def del: upt_rec_numeral)

lemma b64_char_mem: "i < 64 \<Longrightarrow> b64_char i \<in> set b64_alphabet"
  by (simp add: b64_char_def b64_alphabet_facts(1))

lemma b64_char_neq: "i < 64 \<Longrightarrow> b64_char i \<noteq> CHR ''=''" "i < 64 \<Longrightarrow> b64_char i \<noteq> CHR 0x0A"
  "i < 64 \<Longrightarrow> b64_char i \<noteq> CHR 0x0D"
  using b64_char_mem [of i] b64_alphabet_facts(3-5) by metis+

lemma byte_bound: "unat (b :: byte) < 256"
proof -
  have "unat b < 2 ^ LENGTH(8)" by (rule unsigned_less)
  then show ?thesis by simp
qed

lemma base64_place: "64 * y + r = n \<Longrightarrow> 64 * z + s = y \<Longrightarrow> 64 * w + t = z \<Longrightarrow> 262144 * w + 4096 * t + 64 * s + r = (n :: nat)"
  by simp

lemma sextets: "262144 * (n div 262144) + 4096 * (n div 4096 mod 64) + 64 * (n div 64 mod 64) + n mod 64 = (n :: nat)"
proof -
  have e: "n div 4096 = n div 64 div 64" "n div 262144 = n div 64 div 64 div 64"
    by (simp_all add: div_mult2_eq [symmetric])
  show ?thesis
    unfolding e by (rule base64_place) (rule mult_div_mod_eq)+
qed

lemma octets:
  assumes "a < 256" "b < 256" "c < 256" and n: "n = 65536 * a + 256 * b + (c :: nat)"
  shows "n div 65536 = a" "n div 256 mod 256 = b" "n mod 256 = c" "n div 262144 < 64"
proof -
  have e: "n = (256 * a + b) * 256 + c" using n by simp
  have q: "n div 256 = 256 * a + b" unfolding e using assms(3) by simp
  show "n mod 256 = c" unfolding e using assms(3) by (simp only: mod_mult_self3 mod_less)
  show "n div 256 mod 256 = b" unfolding q using assms(2) by simp
  have "n div 65536 = n div 256 div 256" by (simp add: div_mult2_eq [symmetric])
  then show "n div 65536 = a" unfolding q using assms(2) by simp
  show "n div 262144 < 64" using assms by auto
qed

lemma b64_quads_encode: "b64_quads (b64_encode bs) = Some bs"
proof (induction bs rule: b64_encode.induct)
  case (2 a)
  define n where "n = 65536 * unat a + 256 * 0 + 0"
  have "n mod 64 = 0" "n div 64 mod 64 = 0" by (simp_all add: n_def)
  with sextets [of n] have "262144 * (n div 262144) + 4096 * (n div 4096 mod 64) = n" by simp
  moreover note o = octets [OF byte_bound [of a] _ _ n_def]
  ultimately show ?case using o(1,4) by (simp add: b64_value_char Let_def) (simp add: n_def)
next
  case (3 a b)
  define n where "n = 65536 * unat a + 256 * unat b + 0"
  have "n mod 64 = 0" by (simp add: n_def)
  with sextets [of n] have "262144 * (n div 262144) + 4096 * (n div 4096 mod 64) + 64 * (n div 64 mod 64) = n" by simp
  moreover note o = octets [OF byte_bound [of a] byte_bound [of b] _ n_def]
  ultimately show ?case using o(1,2,4) by (simp add: b64_value_char b64_char_neq Let_def n_def [simplified, symmetric])
next
  case (4 a b c r)
  define n where "n = 65536 * unat a + 256 * unat b + unat c"
  note o = octets [OF byte_bound [of a] byte_bound [of b] byte_bound [of c] n_def]
  show ?case using o sextets [of n] 4
    by (simp add: b64_value_char b64_char_neq Let_def n_def [symmetric])
qed simp

lemma b64_encode_chars: "c \<in> set (b64_encode bs) \<Longrightarrow> c \<in> insert CHR ''='' (set b64_alphabet)"
proof (induction bs rule: b64_encode.induct)
  case (4 a b c' r)
  have "(65536 * unat a + 256 * unat b + unat c') div 262144 < 64"
    by (rule octets(4) [OF byte_bound byte_bound byte_bound refl])
  with 4 show ?case by (auto simp: Let_def b64_char_mem)
next
  case (2 a)
  have "(65536 * unat a) div 262144 < 64" using byte_bound [of a] by auto
  with 2 show ?case by (auto simp: Let_def b64_char_mem)
next
  case (3 a b)
  have "(65536 * unat a + 256 * unat b) div 262144 < 64"  using byte_bound [of a] byte_bound [of b] by auto
  with 3 show ?case by (auto simp: Let_def b64_char_mem)
qed simp

lemma b64_roundtrip: "b64_decode (b64_encode bs) = Some bs"
proof -
  have "filter (\<lambda>c. c \<noteq> CHR 0x0A \<and> c \<noteq> CHR 0x0D) (b64_encode bs) = b64_encode bs"
    using b64_encode_chars [of _ bs] b64_alphabet_facts(4,5) by (intro filter_True) auto
  then show ?thesis by (simp add: b64_decode_def b64_quads_encode)
qed

section \<open>The rotation command\<close>

text \<open>
  A column holding ciphertext, as rows of an id and a nullable value; the settings table.
  \<open>faults\<close> says which database calls succeed.
\<close>

type_synonym column = "(string \<times> bytes option) list"

record secret_db =
  columns :: "string \<times> string \<Rightarrow> column"
  settings :: "string \<Rightarrow> string option"

record faults =
  select_ok :: "string \<times> string \<Rightarrow> bool"
  update_ok :: "string \<times> string \<Rightarrow> string \<Rightarrow> bool"
  setting_select_ok :: "string \<Rightarrow> bool"
  setting_update_ok :: "string \<Rightarrow> bool"

definition targets :: "(string \<times> string) list" where
  "targets =
     [(''applications'', ''git_credentials_encrypted''), (''applications'', ''webhook_secret_encrypted''),
      (''applications'', ''deploy_hook_token_encrypted''), (''application_file_mounts'', ''content_encrypted''),
      (''databases'', ''credentials_encrypted''), (''domains'', ''ssl_credentials_encrypted''),
      (''certificates'', ''cert_pem_encrypted''), (''certificates'', ''key_pem_encrypted''),
      (''env_vars'', ''value_encrypted''), (''project_env_vars'', ''value_encrypted''),
      (''git_provider_configs'', ''secret_encrypted''), (''git_integrations'', ''config_encrypted''),
      (''backup_destinations'', ''credentials_encrypted''), (''notification_channels'', ''config_encrypted''),
      (''dns_providers'', ''credentials_encrypted''), (''users'', ''totp_secret_encrypted''),
      (''database_tombstones'', ''credentials_encrypted'')]"

definition setting_targets :: "string list" where
  "setting_targets = [''smtp_password_encrypted'']"

definition update_row :: "string \<Rightarrow> bytes \<Rightarrow> column \<Rightarrow> column" where
  "update_row i v rows = map (\<lambda>(j, w). if j = i then (j, Some v) else (j, w)) rows"

definition select_rows :: "column \<Rightarrow> (string \<times> bytes) list" where
  "select_rows rows = List.map_filter (\<lambda>(i, v). map_option (Pair i) v) rows"

text \<open>
  The loop over one batch: the batch was read before the first update. \<open>False\<close> in the result
  is an error, after which nothing else of the batch is written.
\<close>

fun rewrap_rows ::
    "aead \<Rightarrow> keyring \<Rightarrow> bool \<Rightarrow> (string \<Rightarrow> bool) \<Rightarrow> (string \<times> bytes) list \<Rightarrow> column \<Rightarrow> bytes \<Rightarrow> bool \<times> column \<times> bytes" where
  "rewrap_rows a k dry ok [] col rnd = (True, col, rnd)"
| "rewrap_rows a k dry ok ((i, enc) # batch) col rnd =
     (if enc = [] then rewrap_rows a k dry ok batch col rnd
      else if is_current k enc then rewrap_rows a k dry ok batch col rnd
      else case rewrap a k enc rnd of
        Inl e \<Rightarrow> (False, col, rnd)
      | Inr (upgraded, rnd') \<Rightarrow>
          if dry then rewrap_rows a k dry ok batch col rnd'
          else if \<not> ok i then (False, col, rnd')
          else rewrap_rows a k dry ok batch (update_row i upgraded col) rnd')"

definition rewrap_table ::
    "aead \<Rightarrow> keyring \<Rightarrow> bool \<Rightarrow> faults \<Rightarrow> string \<times> string \<Rightarrow> secret_db \<Rightarrow> bytes \<Rightarrow> bool \<times> secret_db \<times> bytes" where
  "rewrap_table a k dry f t db rnd =
     (if \<not> select_ok f t then (False, db, rnd)
      else case rewrap_rows a k dry (update_ok f t) (select_rows (columns db t)) (columns db t) rnd of
        (ok, col, rnd') \<Rightarrow> (ok, db\<lparr>columns := (columns db)(t := col)\<rparr>, rnd'))"

definition rewrap_setting ::
    "aead \<Rightarrow> keyring \<Rightarrow> bool \<Rightarrow> faults \<Rightarrow> string \<Rightarrow> secret_db \<Rightarrow> bytes \<Rightarrow> bool \<times> secret_db \<times> bytes" where
  "rewrap_setting a k dry f key db rnd =
     (if \<not> setting_select_ok f key then (False, db, rnd)
      else case settings db key of
        None \<Rightarrow> (True, db, rnd)
      | Some encoded \<Rightarrow>
          if encoded = '''' then (True, db, rnd)
          else case b64_decode encoded of
            None \<Rightarrow> (False, db, rnd)
          | Some raw \<Rightarrow>
              if is_current k raw then (True, db, rnd)
              else case rewrap a k raw rnd of
                Inl e \<Rightarrow> (False, db, rnd)
              | Inr (upgraded, rnd') \<Rightarrow>
                  if dry then (True, db, rnd')
                  else if \<not> setting_update_ok f key then (False, db, rnd')
                  else (True, db\<lparr>settings := (settings db)(key \<mapsto> b64_encode upgraded)\<rparr>, rnd'))"

text \<open>A loop of \<open>main\<close>: a failed target is counted and the next one is tried.\<close>

fun rewrap_all :: "('t \<Rightarrow> secret_db \<Rightarrow> bytes \<Rightarrow> bool \<times> secret_db \<times> bytes) \<Rightarrow> 't list \<Rightarrow> secret_db \<Rightarrow> bytes \<Rightarrow> nat \<times> secret_db \<times> bytes" where
  "rewrap_all step [] db rnd = (0, db, rnd)"
| "rewrap_all step (t # ts) db rnd =
     (case step t db rnd of
        (ok, db1, rnd1) \<Rightarrow>
          (case rewrap_all step ts db1 rnd1 of (failed, db2, rnd2) \<Rightarrow> (if ok then failed else Suc failed, db2, rnd2)))"

text \<open>The command: its exit code and the database it leaves.\<close>

definition rewrap_main :: "aead \<Rightarrow> keyring \<Rightarrow> bool \<Rightarrow> faults \<Rightarrow> secret_db \<Rightarrow> bytes \<Rightarrow> nat \<times> secret_db" where
  "rewrap_main a k dry f db rnd =
     (case rewrap_all (rewrap_setting a k dry f) setting_targets db rnd of
        (failed1, db1, rnd1) \<Rightarrow>
          (case rewrap_all (rewrap_table a k dry f) targets db1 rnd1 of
             (failed2, db2, rnd2) \<Rightarrow> (if failed1 + failed2 > 0 then 1 else 0, db2)))"

section \<open>What rotation guarantees\<close>

text \<open>A stored value after a run: the same, or sealed under the current key with the same plaintext.\<close>

definition resealed :: "aead \<Rightarrow> keyring \<Rightarrow> bytes \<Rightarrow> bytes \<Rightarrow> bool" where
  "resealed a k old new \<longleftrightarrow> new = old \<or>
     (is_current k new \<and> (\<exists>p. decrypt a k old = Inr p \<and>
        (\<forall>k'. map_of (keks k') (current_version k) = map_of (keks k) (current_version k) \<longrightarrow> decrypt a k' new = Inr p)))"

fun resealed_opt :: "aead \<Rightarrow> keyring \<Rightarrow> bytes option \<Rightarrow> bytes option \<Rightarrow> bool" where
  "resealed_opt a k None v \<longleftrightarrow> v = None"
| "resealed_opt a k (Some old) v \<longleftrightarrow> (\<exists>new. v = Some new \<and> resealed a k old new)"

definition column_resealed :: "aead \<Rightarrow> keyring \<Rightarrow> column \<Rightarrow> column \<Rightarrow> bool" where
  "column_resealed a k old new \<longleftrightarrow> list_all2 (\<lambda>(i, v) (j, w). i = j \<and> resealed_opt a k v w) old new"

text \<open>A value that needs no older key: absent, empty, or sealed under the current one.\<close>

definition settled :: "keyring \<Rightarrow> bytes option \<Rightarrow> bool" where
  "settled k v \<longleftrightarrow> (case v of None \<Rightarrow> True | Some enc \<Rightarrow> enc = [] \<or> is_current k enc)"

lemma resealed_refl [simp]: "resealed a k x x" "resealed_opt a k v v"
  by (simp add: resealed_def) (cases v, simp_all add: resealed_def)

lemma resealed_trans: "resealed a k x y \<Longrightarrow> resealed a k y z \<Longrightarrow> resealed a k x z"
  unfolding resealed_def by (metis Inr_inject)

lemma resealed_opt_trans: "resealed_opt a k x y \<Longrightarrow> resealed_opt a k y z \<Longrightarrow> resealed_opt a k x z"
  by (cases x; cases y) (auto intro: resealed_trans)

lemma settled_resealed: "settled k v \<Longrightarrow> resealed_opt a k v w \<Longrightarrow> settled k w"
  by (cases v) (auto simp: settled_def resealed_def)

lemma column_resealed_refl [simp]: "column_resealed a k c c"
  by (auto simp: column_resealed_def intro!: list.rel_refl)

lemma column_resealed_trans: "column_resealed a k x y \<Longrightarrow> column_resealed a k y z \<Longrightarrow> column_resealed a k x z"
  unfolding column_resealed_def
  by (rule list_all2_trans [where ?P1.0 = "\<lambda>(i, v) (j, w). i = j \<and> resealed_opt a k v w"
        and ?P2.0 = "\<lambda>(i, v) (j, w). i = j \<and> resealed_opt a k v w"])
     (auto intro: resealed_opt_trans)

lemma column_resealed_keys: "column_resealed a k x y \<Longrightarrow> map fst y = map fst x"
  unfolding column_resealed_def by (induction rule: list_all2_induct) auto

lemma column_resealed_mem:
  "column_resealed a k x y \<Longrightarrow> (i, v) \<in> set y \<Longrightarrow> \<exists>w. (i, w) \<in> set x \<and> resealed_opt a k w v"
  unfolding column_resealed_def by (induction rule: list_all2_induct) auto

lemma update_row_keys [simp]: "map fst (update_row i v c) = map fst c"
  by (induction c) (auto simp: update_row_def)

lemma update_row_mem: "(j, w) \<in> set (update_row i v c) \<longleftrightarrow> (if j = i then w = Some v \<and> i \<in> fst ` set c else (j, w) \<in> set c)"
  unfolding update_row_def by (induction c) (auto split: if_splits)

lemma update_row_resealed:
  "distinct (map fst c) \<Longrightarrow> (i, Some old) \<in> set c \<Longrightarrow> resealed a k old new \<Longrightarrow> column_resealed a k c (update_row i new c)"
proof -
  assume d: "distinct (map fst c)" and m: "(i, Some old) \<in> set c" and r: "resealed a k old new"
  have "resealed_opt a k w (Some new)" if "(i, w) \<in> set c" for w
  proof -
    have "w = Some old" using d m that by (meson eq_key_imp_eq_value)
    then show ?thesis using r by simp
  qed
  then have "list_all2 (\<lambda>x y. (\<lambda>(i, v) (j, w). i = j \<and> resealed_opt a k v w) x
      (case y of (j, w) \<Rightarrow> if j = i then (j, Some new) else (j, w))) c c"
    using r by (intro list.rel_refl_strong) (auto split: if_splits)
  then show ?thesis unfolding column_resealed_def update_row_def list_all2_map2 .
qed

lemma select_rows_mem: "(i, e) \<in> set (select_rows c) \<longleftrightarrow> (i, Some e) \<in> set c"
  by (force simp: select_rows_def map_filter_def)

lemma select_rows_keys: "distinct (map fst c) \<Longrightarrow> distinct (map fst (select_rows c))"
proof (induction c)
  case (Cons x c)
  have "fst ` set (select_rows c) \<subseteq> fst ` set c" by (force simp: select_rows_def map_filter_def)
  with Cons show ?case by (cases x) (auto simp: select_rows_def map_filter_simps split: option.splits)
qed (simp add: select_rows_def map_filter_simps)

lemma rewrap_rows_spec:
  assumes "aead_ok a" "ring_ok k"
  shows "distinct (map fst col) \<Longrightarrow> distinct (map fst batch) \<Longrightarrow> (\<And>i e. (i, e) \<in> set batch \<Longrightarrow> (i, Some e) \<in> set col) \<Longrightarrow>
    rewrap_rows a k dry ok batch col rnd = (good, col', rnd') \<Longrightarrow>
    column_resealed a k col col' \<and> (dry \<longrightarrow> col' = col) \<and>
    (good \<and> \<not> dry \<longrightarrow> (\<forall>(i, e) \<in> set batch. \<forall>v. (i, v) \<in> set col' \<longrightarrow> settled k v))"
proof (induction batch arbitrary: col rnd)
  case (Cons r batch)
  obtain i enc where r: "r = (i, enc)" by (cases r)
  have mem: "(i, Some enc) \<in> set col" using Cons.prems(3) r by simp
  have only: "v = Some enc" if "(i, v) \<in> set col" for v
    using Cons.prems(1) mem that by (meson eq_key_imp_eq_value)
  show ?case
  proof (cases "enc = [] \<or> is_current k enc")
    case True
    then have run: "rewrap_rows a k dry ok batch col rnd = (good, col', rnd')" using Cons.prems(4) r by (auto split: if_splits)
    have IH: "column_resealed a k col col' \<and> (dry \<longrightarrow> col' = col) \<and>
      (good \<and> \<not> dry \<longrightarrow> (\<forall>(i, e) \<in> set batch. \<forall>v. (i, v) \<in> set col' \<longrightarrow> settled k v))"
      using Cons.prems by (intro Cons.IH [OF _ _ _ run]) auto
    have "settled k v" if v: "(i, v) \<in> set col'" for v
    proof -
      obtain w where w: "(i, w) \<in> set col" "resealed_opt a k w v"
        using column_resealed_mem [OF conjunct1 [OF IH] v] by blast
      have "settled k w" using only [OF w(1)] True by (simp add: settled_def)
      then show ?thesis using w(2) by (rule settled_resealed)
    qed
    with IH r show ?thesis by auto
  next
    case False
    show ?thesis
    proof (cases "rewrap a k enc rnd")
      case (Inl e)
      then show ?thesis using Cons.prems(4) False r by auto
    next
      case (Inr p)
      obtain up rnd1 where up: "rewrap a k enc rnd = Inr (up, rnd1)" using Inr by (cases p) auto
      have re: "resealed a k enc up" and cur: "is_current k up"
        using rewrap_Inr [OF assms up] by (auto simp: resealed_def)
      show ?thesis
      proof (cases "dry \<or> \<not> ok i")
        case True
        show ?thesis
        proof (cases dry)
          case True
          then have "rewrap_rows a k dry ok batch col rnd1 = (good, col', rnd')" using Cons.prems(4) False r up by auto
          from Cons.IH [OF _ _ _ this] Cons.prems True show ?thesis by auto
        next
          case nd: False
          then show ?thesis using Cons.prems(4) False r up True by auto
        qed
      next
        case go: False
        let ?col = "update_row i up col"
        have run: "rewrap_rows a k dry ok batch ?col rnd1 = (good, col', rnd')"
          using Cons.prems(4) False r up go by auto
        have "(j, Some e) \<in> set ?col" if "(j, e) \<in> set batch" for j e
        proof -
          have "j \<noteq> i" using that Cons.prems(2) r by force
          with that Cons.prems(3) show ?thesis by (simp add: update_row_mem)
        qed
        then have IH: "column_resealed a k ?col col' \<and> (dry \<longrightarrow> col' = ?col) \<and>
          (good \<and> \<not> dry \<longrightarrow> (\<forall>(i, e) \<in> set batch. \<forall>v. (i, v) \<in> set col' \<longrightarrow> settled k v))"
          using Cons.prems by (intro Cons.IH [OF _ _ _ run]) auto
        have "settled k v" if v: "(i, v) \<in> set col'" for v
        proof -
          obtain w where w: "(i, w) \<in> set ?col" "resealed_opt a k w v"
            using column_resealed_mem [OF conjunct1 [OF IH] v] by blast
          then have "w = Some up" by (simp add: update_row_mem)
          then have "settled k w" using cur by (simp add: settled_def)
          then show ?thesis using w(2) by (rule settled_resealed)
        qed
        moreover have "column_resealed a k col col'"
          using column_resealed_trans [OF update_row_resealed [OF Cons.prems(1) mem re]] IH by blast
        ultimately show ?thesis using IH go r by auto
      qed
    qed
  qed
qed auto

definition setting_resealed :: "aead \<Rightarrow> keyring \<Rightarrow> string option \<Rightarrow> string option \<Rightarrow> bool" where
  "setting_resealed a k old new \<longleftrightarrow> new = old \<or>
     (\<exists>enc raw sealed. old = Some enc \<and> b64_decode enc = Some raw \<and> new = Some (b64_encode sealed) \<and> resealed a k raw sealed)"

definition setting_settled :: "keyring \<Rightarrow> string option \<Rightarrow> bool" where
  "setting_settled k v \<longleftrightarrow> (case v of None \<Rightarrow> True | Some enc \<Rightarrow> enc = '''' \<or> (\<exists>raw. b64_decode enc = Some raw \<and> is_current k raw))"

definition keyed :: "secret_db \<Rightarrow> bool" where
  "keyed db \<longleftrightarrow> (\<forall>t. distinct (map fst (columns db t)))"

definition db_resealed :: "aead \<Rightarrow> keyring \<Rightarrow> secret_db \<Rightarrow> secret_db \<Rightarrow> bool" where
  "db_resealed a k db db' \<longleftrightarrow>
     (\<forall>t. column_resealed a k (columns db t) (columns db' t)) \<and>
     (\<forall>key. setting_resealed a k (settings db key) (settings db' key))"

definition table_settled :: "keyring \<Rightarrow> secret_db \<Rightarrow> string \<times> string \<Rightarrow> bool" where
  "table_settled k db t \<longleftrightarrow> (\<forall>(i, v) \<in> set (columns db t). settled k v)"

lemma current_decrypt:
  "is_current k ct \<Longrightarrow> map_of (keks k') (current_version k) = map_of (keks k) (current_version k) \<Longrightarrow>
     decrypt a k' ct = decrypt a k ct"
  by (auto simp: is_current_def decrypt_def decrypt_envelope_def split: if_splits)

lemma table_settled_resealed:
  "table_settled k db t \<Longrightarrow> column_resealed a k (columns db t) (columns db' t) \<Longrightarrow> table_settled k db' t"
proof -
  assume old: "table_settled k db t" and r: "column_resealed a k (columns db t) (columns db' t)"
  have "settled k v" if v: "(i, v) \<in> set (columns db' t)" for i v
  proof -
    obtain w where w: "(i, w) \<in> set (columns db t)" "resealed_opt a k w v"
      using column_resealed_mem [OF r v] by blast
    have "settled k w" using old w(1) by (auto simp: table_settled_def)
    then show ?thesis using w(2) by (rule settled_resealed)
  qed
  then show ?thesis by (auto simp: table_settled_def)
qed

lemma rewrap_table_spec:
  assumes "aead_ok a" "ring_ok k" "keyed db" "rewrap_table a k dry f t db rnd = (good, db', rnd')"
  shows "settings db' = settings db \<and> (\<forall>u. column_resealed a k (columns db u) (columns db' u)) \<and>
     (dry \<longrightarrow> db' = db) \<and> (good \<and> \<not> dry \<longrightarrow> table_settled k db' t)"
proof (cases "select_ok f t")
  case True
  obtain col where rows: "rewrap_rows a k dry (update_ok f t) (select_rows (columns db t)) (columns db t) rnd = (good, col, rnd')"
    and db': "db' = db\<lparr>columns := (columns db)(t := col)\<rparr>"
    using assms(4) True by (auto simp: rewrap_table_def split: prod.splits)
  have d: "distinct (map fst (columns db t))" using assms(3) unfolding keyed_def by blast
  have spec: "column_resealed a k (columns db t) col \<and> (dry \<longrightarrow> col = columns db t) \<and>
    (good \<and> \<not> dry \<longrightarrow> (\<forall>(i, e) \<in> set (select_rows (columns db t)). \<forall>v. (i, v) \<in> set col \<longrightarrow> settled k v))"
    by (rule rewrap_rows_spec [OF assms(1,2) d select_rows_keys [OF d] _ rows]) (simp add: select_rows_mem)
  have "settled k v" if v: "(i, v) \<in> set col" and ok: "good \<and> \<not> dry" for i v
  proof -
    obtain w where w: "(i, w) \<in> set (columns db t)" "resealed_opt a k w v"
      using column_resealed_mem [OF conjunct1 [OF spec] v] by blast
    show ?thesis
    proof (cases w)
      case None
      with w show ?thesis by (simp add: settled_def)
    next
      case (Some e)
      then have "(i, e) \<in> set (select_rows (columns db t))" using w by (simp add: select_rows_mem)
      with spec ok v show ?thesis by blast
    qed
  qed
  then show ?thesis using spec db' by (auto simp: table_settled_def)
qed (use assms in \<open>auto simp: rewrap_table_def\<close>)

lemma keyed_resealed: "keyed db \<Longrightarrow> (\<And>u. column_resealed a k (columns db u) (columns db' u)) \<Longrightarrow> keyed db'"
  by (metis keyed_def column_resealed_keys)

lemma rewrap_tables_spec:
  assumes "aead_ok a" "ring_ok k"
  shows "keyed db \<Longrightarrow> rewrap_all (rewrap_table a k dry f) ts db rnd = (failed, db', rnd') \<Longrightarrow>
     settings db' = settings db \<and> (\<forall>u. column_resealed a k (columns db u) (columns db' u)) \<and>
     (dry \<longrightarrow> db' = db) \<and> (failed = 0 \<and> \<not> dry \<longrightarrow> (\<forall>t \<in> set ts. table_settled k db' t))"
proof (induction ts arbitrary: db rnd failed)
  case (Cons t ts)
  obtain ok db1 rnd1 where s: "rewrap_table a k dry f t db rnd = (ok, db1, rnd1)" by (cases "rewrap_table a k dry f t db rnd") auto
  note one = rewrap_table_spec [OF assms Cons.prems(1) s]
  obtain n where r: "rewrap_all (rewrap_table a k dry f) ts db1 rnd1 = (n, db', rnd')" and
    failed: "failed = (if ok then n else Suc n)"
    using Cons.prems(2) s by (auto split: prod.splits)
  have k1: "keyed db1" by (rule keyed_resealed [OF Cons.prems(1)]) (use one in blast)
  note IH = Cons.IH [OF k1 r]
  have "table_settled k db' t" if "failed = 0 \<and> \<not> dry"
  proof (rule table_settled_resealed)
    show "table_settled k db1 t" using one that failed by (auto split: if_splits)
    show "column_resealed a k (columns db1 t) (columns db' t)" using IH by blast
  qed
  moreover have "column_resealed a k (columns db u) (columns db' u)" for u
    by (rule column_resealed_trans [of _ _ _ "columns db1 u"]) (use one IH in blast)+
  ultimately show ?case using one IH failed by (auto split: if_splits)
qed simp

lemma rewrap_setting_spec:
  assumes "aead_ok a" "ring_ok k" "rewrap_setting a k dry f key db rnd = (good, db', rnd')"
  shows "columns db' = columns db \<and> (\<forall>s. setting_resealed a k (settings db s) (settings db' s)) \<and>
     (dry \<longrightarrow> db' = db) \<and> (good \<and> \<not> dry \<longrightarrow> setting_settled k (settings db' key))"
  using assms(3) rewrap_Inr [OF assms(1,2)]
  by (auto simp: rewrap_setting_def setting_resealed_def setting_settled_def b64_roundtrip resealed_def
      split: if_splits option.splits sum.splits prod.splits) blast+

lemma rewrap_main_spec:
  assumes "aead_ok a" "ring_ok k" "keyed db" "rewrap_main a k dry f db rnd = (code, db')"
  shows "db_resealed a k db db' \<and> (dry \<longrightarrow> db' = db) \<and>
     (code = 0 \<and> \<not> dry \<longrightarrow> (\<forall>t \<in> set targets. table_settled k db' t) \<and>
        (\<forall>s \<in> set setting_targets. setting_settled k (settings db' s)))"
proof -
  let ?s = "''smtp_password_encrypted''"
  obtain ok db1 rnd1 where s: "rewrap_setting a k dry f ?s db rnd = (ok, db1, rnd1)"
    by (cases "rewrap_setting a k dry f ?s db rnd") auto
  obtain n rnd2 where t: "rewrap_all (rewrap_table a k dry f) targets db1 rnd1 = (n, db', rnd2)"
    and code: "code = (if (if ok then 0 else 1) + n > 0 then 1 else 0)"
    using assms(4) s by (auto simp: rewrap_main_def setting_targets_def split: prod.splits)
  note set = rewrap_setting_spec [OF assms(1,2) s]
  have "keyed db1" using set assms(3) by (simp add: keyed_def)
  note tab = rewrap_tables_spec [OF assms(1,2) this t]
  show ?thesis
    using set tab code by (auto simp: db_resealed_def setting_targets_def split: if_splits)
qed

text \<open>
  C33: whatever happens during a rotation run, a failure half way included, every stored secret
  is either untouched or sealed under the current key with the same plaintext; a dry run
  changes nothing.
\<close>
theorem rewrap_preserves_secrets:
  assumes "aead_ok a" "ring_ok k" "keyed db" "rewrap_main a k dry f db rnd = (code, db')"
  shows "db_resealed a k db db' \<and> (dry \<longrightarrow> db' = db)"
  using rewrap_main_spec [OF assms] by blast

text \<open>
  C31: when a run that is not dry exits with 0, the older keys can be retired: no ciphertext left
  in a target column needs them. Every non-empty value is sealed under the current version and
  decrypts to the same result under any keyring that keeps only that key, and so does the
  SMTP password in the settings table.
\<close>
theorem rewrap_success_retires_keys:
  assumes "aead_ok a" "ring_ok k" "keyed db" "rewrap_main a k False f db rnd = (0, db')"
    and "t \<in> set targets" "(i, Some enc) \<in> set (columns db' t)" "enc \<noteq> []"
    and "map_of (keks k') (current_version k) = map_of (keks k) (current_version k)"
  shows "is_current k enc \<and> decrypt a k' enc = decrypt a k enc \<and>
     (\<forall>s \<in> set setting_targets. setting_settled k (settings db' s))"
proof -
  have "settled k (Some enc)" and s: "\<forall>s \<in> set setting_targets. setting_settled k (settings db' s)"
    using rewrap_main_spec [OF assms(1-4)] assms(5,6) by (auto simp: table_settled_def)
  then have "is_current k enc" using assms(7) by (simp add: settled_def)
  with current_decrypt [OF this assms(8)] s show ?thesis by blast
qed

text \<open>
  the batch is read before the first update and a row is rewritten by its id alone: a secret
  the API stores in between is overwritten by the re-encryption of the value read before.
\<close>
theorem rewrap_overwrites_concurrent_write:
  assumes "aead_ok a" "ring_ok k" "old \<noteq> []" "\<not> is_current k old"
    and "rewrap_rows a k False ok [(i, old)] col rnd = (True, col', rnd')" "(i, Some new) \<in> set col"
  shows "\<exists>enc p. (i, Some enc) \<in> set col' \<and> decrypt a k old = Inr p \<and> decrypt a k enc = Inr p"
proof -
  obtain up where up: "rewrap a k old rnd = Inr (up, rnd')" and col': "col' = update_row i up col"
    using assms(3-5) by (auto split: sum.splits if_splits)
  have "(i, Some up) \<in> set col'" using assms(6) col' by (force simp: update_row_mem)
  with rewrap_Inr [OF assms(1,2) up] show ?thesis by blast
qed

text \<open>One application with a secret under version 1.\<close>

definition demo_secret :: bytes where
  "demo_secret = envelope toy_aead 1 (replicate 32 7) (replicate 32 3) (replicate 12 3) (replicate 12 3) [1, 2]"

definition demo_db :: secret_db where
  "demo_db = \<lparr>columns = (\<lambda>t. if t = (''users'', ''totp_secret_encrypted'') then [(''u1'', Some demo_secret), (''u2'', None)] else []),
     settings = Map.empty\<rparr>"

definition no_faults :: faults where
  "no_faults = \<lparr>select_ok = (\<lambda>_. True), update_ok = (\<lambda>_ _. True), setting_select_ok = (\<lambda>_. True), setting_update_ok = (\<lambda>_. True)\<rparr>"

lemma demo_secret_facts: "decrypt toy_aead demo_ring demo_secret = Inr [1, 2]" "\<not> is_current demo_ring demo_secret" "demo_secret \<noteq> []"
proof -
  show "decrypt toy_aead demo_ring demo_secret = Inr [1, 2]"
    unfolding demo_secret_def by (rule decrypt_envelope_of_envelope [OF toy_aead_ok]) (simp_all add: demo_ring_def env_lens)
  have "demo_secret ! 5 = 1"
    unfolding demo_secret_def by (rule envelope_shape(2) [OF toy_aead_ok]) (simp_all add: env_lens)
  then show "\<not> is_current demo_ring demo_secret" by (simp add: is_current_def demo_ring_def)
  show "demo_secret \<noteq> []" by (simp add: demo_secret_def envelope_def envelope_magic_def)
qed

lemma demo_rewrap: "\<exists>up. rewrap toy_aead demo_ring demo_secret (replicate 56 3) = Inr (up, [])"
proof -
  have "map_of (keks demo_ring) 2 = Some (replicate 32 9)" "current_version demo_ring = 2" by (simp_all add: demo_ring_def)
  then show ?thesis
    using encrypt_envelope [OF demo_ring_ok, of 2 "replicate 32 9" "replicate 56 3" toy_aead "[1, 2]"]
    by (simp add: rewrap_def demo_secret_facts encrypt_def)
qed

lemma demo_run: "\<exists>db'. rewrap_main toy_aead demo_ring False no_faults demo_db (replicate 56 3) = (0, db')"
proof -
  obtain up where "rewrap toy_aead demo_ring demo_secret (replicate 56 3) = Inr (up, [])" using demo_rewrap by blast
  then show ?thesis
    by (simp add: rewrap_main_def setting_targets_def rewrap_setting_def targets_def rewrap_table_def no_faults_def
        demo_db_def select_rows_def map_filter_simps demo_secret_facts)
qed

lemma demo_keyed: "keyed demo_db"
  by (simp add: keyed_def demo_db_def)

theorem rewrap_preserves_secrets_witness:
  "\<exists>code db'. rewrap_main toy_aead demo_ring False no_faults demo_db (replicate 56 3) = (code, db') \<and>
     db_resealed toy_aead demo_ring demo_db db'"
  using demo_run rewrap_preserves_secrets [OF toy_aead_ok demo_ring_ok demo_keyed] by blast

theorem rewrap_success_retires_keys_witness:
  "\<exists>db' enc. rewrap_main toy_aead demo_ring False no_faults demo_db (replicate 56 3) = (0, db') \<and>
     (''u1'', Some enc) \<in> set (columns db' (''users'', ''totp_secret_encrypted'')) \<and>
     decrypt toy_aead \<lparr>keks = [(2, replicate 32 9)], current_version = 2\<rparr> enc = decrypt toy_aead demo_ring enc"
proof -
  let ?t = "(''users'', ''totp_secret_encrypted'')"
  obtain db' where run: "rewrap_main toy_aead demo_ring False no_faults demo_db (replicate 56 3) = (0, db')"
    using demo_run by blast
  have "column_resealed toy_aead demo_ring (columns demo_db ?t) (columns db' ?t)"
    using rewrap_main_spec [OF toy_aead_ok demo_ring_ok demo_keyed run] by (simp add: db_resealed_def)
  then obtain enc where enc: "(''u1'', Some enc) \<in> set (columns db' ?t)" "resealed toy_aead demo_ring demo_secret enc"
    by (auto simp: column_resealed_def demo_db_def list_all2_Cons1)
  have "enc \<noteq> []" using enc(2) demo_secret_facts(3) by (auto simp: resealed_def is_current_def is_envelope_def env_lens)
  with rewrap_success_retires_keys [OF toy_aead_ok demo_ring_ok demo_keyed run _ enc(1),
      of "\<lparr>keks = [(2, replicate 32 9)], current_version = 2\<rparr>"] run enc(1)
  show ?thesis by (auto simp: targets_def demo_ring_def)
qed

theorem rewrap_overwrites_concurrent_write_witness:
  "\<exists>col' enc. rewrap_rows toy_aead demo_ring False (\<lambda>_. True) [(''u1'', demo_secret)] [(''u1'', Some [9])] (replicate 56 3)
       = (True, col', []) \<and> (''u1'', Some enc) \<in> set col' \<and> decrypt toy_aead demo_ring enc = Inr [1, 2]"
proof -
  obtain col' where r: "rewrap_rows toy_aead demo_ring False (\<lambda>_. True) [(''u1'', demo_secret)] [(''u1'', Some [9])]
      (replicate 56 3) = (True, col', [])"
    using demo_rewrap demo_secret_facts by auto
  from rewrap_overwrites_concurrent_write [OF toy_aead_ok demo_ring_ok demo_secret_facts(3,2) r] r demo_secret_facts(1)
  show ?thesis by auto
qed

section \<open>What the configuration yields\<close>

lemma parse_version_range: "parse_version s = Some n \<Longrightarrow> 1 \<le> n \<and> n \<le> 255"
  by (auto simp: parse_version_def split: option.splits if_splits)

lemma parse_entries_ok:
  "parse_entries ks es = Inr ks' \<Longrightarrow> distinct (map fst ks) \<Longrightarrow> (\<forall>(v, key) \<in> set ks. v \<noteq> 0 \<and> length key = kek_len) \<Longrightarrow>
     distinct (map fst ks') \<and> (\<forall>(v, key) \<in> set ks'. v \<noteq> 0 \<and> length key = kek_len)"
proof (induction es arbitrary: ks)
  case (Cons e es)
  show ?case
  proof (cases "trim_space e = ''''")
    case True
    then have "parse_entries ks es = Inr ks'" using Cons.prems(1) by simp
    then show ?thesis by (rule Cons.IH) (use Cons.prems in simp_all)
  next
    case False
    obtain v h n key where v: "parse_version v = Some n"
      and h: "length key = kek_len" "map_of ks (word_of_int n) = None"
      and rest: "parse_entries (ks @ [(word_of_int n, key)]) es = Inr ks'"
      using Cons.prems(1) False by (auto simp: Let_def split: if_splits option.splits prod.splits)
    have nz: "(word_of_int n :: byte) \<noteq> 0"
      using parse_version_range [OF v] by (auto simp: word_of_int_eq_0_iff dest: zdvd_imp_le)
    show ?thesis
      by (rule Cons.IH [OF rest]) (use Cons.prems(2,3) h nz in \<open>auto simp: map_of_eq_None_iff\<close>)
  qed
qed simp

text \<open>
  a keyring that the configuration parses into is well formed: distinct versions between 1
  and 255, keys of 32 bytes, the current version among them, and without an explicit current
  version the highest one. So everything proved above for a well-formed ring holds at run time.
\<close>
theorem parsed_keyring_ok:
  assumes "parse_keyring_env keys key cur = Inr k"
  shows "ring_ok k \<and> distinct (map fst (keks k)) \<and> (\<forall>v \<in> set (map fst (keks k)). v \<noteq> 0) \<and>
     (trim_space cur = '''' \<longrightarrow> (\<forall>v \<in> set (map fst (keks k)). v \<le> current_version k))"
proof -
  obtain ks cv where ks: "(if trim_space keys \<noteq> '''' then parse_entries [] (split_on CHR '','' keys)
        else if trim_space key \<noteq> '''' then
          (case hex_decode (trim_space key) of
             None \<Rightarrow> Inl ''decode ENCRYPTION_KEY hex''
           | Some key \<Rightarrow> if length key \<noteq> kek_len then Inl ''key size'' else Inr [(1, key)])
        else Inr []) = Inr ks" and ne: "ks \<noteq> []"
    and cv: "trim_space cur = '''' \<Longrightarrow> cv = word_of_nat (last (sort (map (unat \<circ> fst) ks)))"
    and k: "new_keyring ks cv = Inr k"
    using assms by (auto simp: parse_keyring_env_def res_simps split: if_splits)
  have ok: "distinct (map fst ks) \<and> (\<forall>(v, key) \<in> set ks. v \<noteq> 0 \<and> length key = kek_len)"
    using ks parse_entries_ok [of "[]" _ ks] by (auto split: if_splits option.splits)
  have ring: "keks k = ks" "current_version k = cv" "map_of ks cv \<noteq> None"
    using k by (auto simp: new_keyring_def split: if_splits)
  have "v \<le> cv" if "trim_space cur = ''''" "v \<in> fst ` set ks" for v
  proof -
    let ?ns = "sort (map (unat \<circ> fst) ks)"
    have "unat v \<in> set ?ns" using that(2) by auto
    then obtain i where i: "i < length ?ns" "?ns ! i = unat v" by (metis in_set_conv_nth)
    have "?ns ! i \<le> last ?ns"
    proof -
      have "?ns \<noteq> []" using i(1) by (metis list.size(3) not_less_zero)
      then have "last ?ns = ?ns ! (length ?ns - 1)" by (rule last_conv_nth)
      moreover have "?ns ! i \<le> ?ns ! (length ?ns - 1)" using i(1) by (intro sorted_nth_mono) auto
      ultimately show ?thesis by simp
    qed
    moreover have "?ns \<noteq> []" using i(1) by (metis list.size(3) not_less_zero)
    then have "last ?ns \<in> unat ` fst ` set ks"
      using last_in_set [of ?ns] by (simp add: image_image)
    then obtain w where w: "last ?ns = unat (w :: byte)" by blast
    ultimately have "unat v \<le> unat w" using i by simp
    then show ?thesis using cv [OF that(1)] w by (simp add: word_le_nat_alt)
  qed
  with ok ring show ?thesis by (auto simp: ring_ok_def)
qed

theorem parsed_keyring_ok_witness:
  "\<exists>k. parse_keyring_env (''v1:'' @ replicate 64 CHR ''a'' @ '',v2:'' @ replicate 64 CHR ''0'') '''' '''' = Inr k \<and>
     current_version k = 2 \<and> ring_ok k"
proof -
  have "parse_keyring_env (''v1:'' @ replicate 64 CHR ''a'' @ '',v2:'' @ replicate 64 CHR ''0'') '''' '''' =
     Inr \<lparr>keks = [(1, replicate 32 0xaa), (2, replicate 32 0)], current_version = 2\<rparr>"
    by code_simp
  moreover from parsed_keyring_ok [OF this] have "ring_ok \<lparr>keks = [(1, replicate 32 0xaa), (2, replicate 32 0)], current_version = 2\<rparr>"
    by blast
  ultimately show ?thesis by auto
qed

end
