(* ===== verification/Totp.thy ===== *)
theory Totp
  imports Prelude Keyring
begin

text \<open>
  The second factor (\<open>internal/service/totp.go\<close>, \<open>store/queries/totp.sql\<close>): one-time codes
  with a replay guard, recovery codes, enrollment, removal.

  Every operation takes the user row its caller has read and the database as it is when the
  operation runs: between the two, other requests may have changed the database, so a stale
  row is just a different argument. The code generator of the OTP library is the parameter
  \<open>gen\<close> (secret, time step), \<open>crypto/sha256\<close> the parameter \<open>sha\<close>, AES-GCM the parameter \<open>a\<close>
  of the keyring.
\<close>

section \<open>State\<close>

record totp_user =
  totp_id :: uuid
  totp_secret :: bytes \<comment> \<open>encrypted; empty when there is none\<close>
  totp_enabled :: bool
  totp_last_step :: "int option"

record recovery_code =
  rc_user :: uuid
  rc_hash :: bytes
  rc_used :: bool

record totp_db =
  totp_users :: "uuid \<Rightarrow> totp_user option"
  recovery_codes :: "recovery_code list"

datatype factor_error = InvalidSecondFactor | SecondFactorUsed | TOTPNotEnrolled | UnsupportedMethod | FactorInternal

definition totp_period :: int where "totp_period = 30"
definition totp_skew :: int where "totp_skew = 1"
definition recovery_code_count :: nat where "recovery_code_count = 10"
definition recovery_code_bytes :: nat where "recovery_code_bytes = 10"

definition has_mfa :: "totp_user \<Rightarrow> bool" where "has_mfa u = totp_enabled u"

section \<open>The statements of totp.sql\<close>

definition update_user :: "uuid \<Rightarrow> (totp_user \<Rightarrow> totp_user) \<Rightarrow> totp_db \<Rightarrow> totp_db" where
  "update_user i f db = db\<lparr>totp_users := (totp_users db)(i := map_option f (totp_users db i))\<rparr>"

definition set_user_totp_secret :: "uuid \<Rightarrow> bytes \<Rightarrow> totp_db \<Rightarrow> totp_db" where
  "set_user_totp_secret i enc =
     update_user i (\<lambda>u. u\<lparr>totp_secret := enc, totp_enabled := False, totp_last_step := None\<rparr>)"

definition enable_user_totp :: "uuid \<Rightarrow> int \<Rightarrow> totp_db \<Rightarrow> nat \<times> totp_db" where
  "enable_user_totp i step db =
     (case totp_users db i of
        None \<Rightarrow> (0, db)
      | Some u \<Rightarrow> if totp_secret u = [] then (0, db)
                  else (1, update_user i (\<lambda>u. u\<lparr>totp_enabled := True, totp_last_step := Some step\<rparr>) db))"

definition set_user_totp_last_step :: "uuid \<Rightarrow> int \<Rightarrow> totp_db \<Rightarrow> nat \<times> totp_db" where
  "set_user_totp_last_step i step db =
     (case totp_users db i of
        None \<Rightarrow> (0, db)
      | Some u \<Rightarrow>
          if (case totp_last_step u of None \<Rightarrow> True | Some l \<Rightarrow> l < step)
          then (1, update_user i (\<lambda>u. u\<lparr>totp_last_step := Some step\<rparr>) db) else (0, db))"

definition disable_user_totp :: "uuid \<Rightarrow> totp_db \<Rightarrow> totp_db" where
  "disable_user_totp i = update_user i (\<lambda>u. u\<lparr>totp_secret := [], totp_enabled := False, totp_last_step := None\<rparr>)"

definition insert_recovery_code :: "uuid \<Rightarrow> bytes \<Rightarrow> totp_db \<Rightarrow> totp_db" where
  "insert_recovery_code i h db =
     db\<lparr>recovery_codes := recovery_codes db @ [\<lparr>rc_user = i, rc_hash = h, rc_used = False\<rparr>]\<rparr>"

definition delete_recovery_codes :: "uuid \<Rightarrow> totp_db \<Rightarrow> totp_db" where
  "delete_recovery_codes i db = db\<lparr>recovery_codes := filter (\<lambda>r. rc_user r \<noteq> i) (recovery_codes db)\<rparr>"

definition unused_of :: "uuid \<Rightarrow> totp_db \<Rightarrow> recovery_code list" where
  "unused_of i db = filter (\<lambda>r. rc_user r = i \<and> \<not> rc_used r) (recovery_codes db)"

definition count_unused_recovery_codes :: "uuid \<Rightarrow> totp_db \<Rightarrow> nat" where
  "count_unused_recovery_codes i db = length (unused_of i db)"

definition spend_hash :: "uuid \<Rightarrow> bytes \<Rightarrow> recovery_code \<Rightarrow> recovery_code" where
  "spend_hash i h r = (if rc_user r = i \<and> rc_hash r = h \<and> \<not> rc_used r then r\<lparr>rc_used := True\<rparr> else r)"

definition consume_row :: "uuid \<Rightarrow> bytes \<Rightarrow> totp_db \<Rightarrow> bool \<times> totp_db" where
  "consume_row i h db =
     (if list_ex (\<lambda>r. rc_user r = i \<and> rc_hash r = h \<and> \<not> rc_used r) (recovery_codes db)
      then (True, db\<lparr>recovery_codes := map (spend_hash i h) (recovery_codes db)\<rparr>)
      else (False, db))"

section \<open>Codes\<close>

fun check_steps :: "(int \<Rightarrow> string option) \<Rightarrow> string \<Rightarrow> int option \<Rightarrow> int list \<Rightarrow> factor_error + int" where
  "check_steps expected code lst [] = Inl InvalidSecondFactor"
| "check_steps expected code lst (step # steps) =
     (case expected step of
        None \<Rightarrow> Inl FactorInternal
      | Some e \<Rightarrow>
          if e \<noteq> code then check_steps expected code lst steps
          else if (case lst of None \<Rightarrow> False | Some l \<Rightarrow> step \<le> l) then Inl SecondFactorUsed
          else Inr step)"

definition check_code ::
    "aead \<Rightarrow> keyring \<Rightarrow> (bytes \<Rightarrow> int \<Rightarrow> string option) \<Rightarrow> totp_user \<Rightarrow> string \<Rightarrow> instant \<Rightarrow> factor_error + int" where
  "check_code a k gen user raw now =
     (let code = trim_space raw
      in if code = '''' then Inl InvalidSecondFactor
         else if totp_secret user = [] then Inl TOTPNotEnrolled
         else case decrypt a k (totp_secret user) of
           Inl e \<Rightarrow> Inl FactorInternal
         | Inr secret \<Rightarrow>
             let current = quot now totp_period
             in check_steps (gen secret) code (totp_last_step user) [current - totp_skew .. current + totp_skew])"

definition to_upper_char :: "char \<Rightarrow> char" where
  "to_upper_char c = (let n = (of_char c :: nat) in if 97 \<le> n \<and> n \<le> 122 then char_of (n - 32) else c)"

definition normalise_recovery :: "string \<Rightarrow> string" where
  "normalise_recovery code = map to_upper_char (filter (\<lambda>c. c \<noteq> CHR ''-'') (trim_space code))"

definition hash_recovery_code :: "(string \<Rightarrow> bytes) \<Rightarrow> string \<Rightarrow> bytes" where
  "hash_recovery_code sha code = sha (normalise_recovery code)"

definition consume_recovery_code :: "(string \<Rightarrow> bytes) \<Rightarrow> uuid \<Rightarrow> string \<Rightarrow> totp_db \<Rightarrow> (factor_error + unit) \<times> totp_db" where
  "consume_recovery_code sha i code db =
     (case consume_row i (hash_recovery_code sha code) db of
        (True, db') \<Rightarrow> (Inr (), db')
      | (False, db') \<Rightarrow> (Inl InvalidSecondFactor, db'))"

text \<open>Base32 without padding, on whole groups of five bytes.\<close>

definition b32_char :: "nat \<Rightarrow> char" where "b32_char i = ''ABCDEFGHIJKLMNOPQRSTUVWXYZ234567'' ! i"

fun b32_encode :: "bytes \<Rightarrow> string" where
  "b32_encode (a # b # c # d # e # r) =
     (let n = (((unat a * 256 + unat b) * 256 + unat c) * 256 + unat d) * 256 + unat e
      in map (\<lambda>i. b32_char (n div 32 ^ (7 - i) mod 32)) [0..<8] @ b32_encode r)"
| "b32_encode bs = []"

definition generate_recovery_code :: "bytes \<Rightarrow> factor_error + (string \<times> bytes)" where
  "generate_recovery_code rnd =
     (case read_full recovery_code_bytes rnd of
        Inl e \<Rightarrow> Inl FactorInternal
      | Inr (buf, rnd') \<Rightarrow>
          let raw = b32_encode buf
          in Inr (take 4 raw @ ''-'' @ take 4 (drop 4 raw) @ ''-'' @ take 4 (drop 8 raw) @ ''-'' @ drop 12 raw, rnd'))"

fun insert_codes :: "(string \<Rightarrow> bytes) \<Rightarrow> nat \<Rightarrow> uuid \<Rightarrow> bytes \<Rightarrow> totp_db \<Rightarrow> factor_error + (string list \<times> totp_db)" where
  "insert_codes sha 0 i rnd db = Inr ([], db)"
| "insert_codes sha (Suc n) i rnd db =
     res_bind (generate_recovery_code rnd) (\<lambda>(code, rnd').
     res_bind (insert_codes sha n i rnd' (insert_recovery_code i (hash_recovery_code sha code) db))
       (\<lambda>(codes, db'). Inr (code # codes, db')))"

definition replace_recovery_codes :: "(string \<Rightarrow> bytes) \<Rightarrow> uuid \<Rightarrow> bytes \<Rightarrow> totp_db \<Rightarrow> factor_error + (string list \<times> totp_db)" where
  "replace_recovery_codes sha i rnd db = insert_codes sha recovery_code_count i rnd (delete_recovery_codes i db)"

text \<open>\<open>store.WithTx\<close>: an error rolls the database back.\<close>

definition with_tx :: "(totp_db \<Rightarrow> 'e + ('b \<times> totp_db)) \<Rightarrow> totp_db \<Rightarrow> ('e + 'b) \<times> totp_db" where
  "with_tx f db = (case f db of Inl e \<Rightarrow> (Inl e, db) | Inr (b, db') \<Rightarrow> (Inr b, db'))"

section \<open>The service\<close>

definition methods :: "totp_db \<Rightarrow> totp_user \<Rightarrow> string list" where
  "methods db user =
     (if \<not> has_mfa user then []
      else if count_unused_recovery_codes (totp_id user) db > 0 then [''totp'', ''recovery_code''] else [''totp''])"

definition enroll :: "aead \<Rightarrow> keyring \<Rightarrow> totp_user \<Rightarrow> bytes \<Rightarrow> bytes \<Rightarrow> totp_db \<Rightarrow> (factor_error + bytes) \<times> totp_db" where
  "enroll a k user secret rnd db =
     (case encrypt a k secret rnd of
        Inl e \<Rightarrow> (Inl FactorInternal, db)
      | Inr (enc, rnd') \<Rightarrow> (Inr secret, set_user_totp_secret (totp_id user) enc db))"

definition confirm_enrollment ::
    "aead \<Rightarrow> keyring \<Rightarrow> (bytes \<Rightarrow> int \<Rightarrow> string option) \<Rightarrow> (string \<Rightarrow> bytes) \<Rightarrow> totp_user \<Rightarrow> string \<Rightarrow> instant \<Rightarrow> bytes \<Rightarrow>
     totp_db \<Rightarrow> (factor_error + string list) \<times> totp_db" where
  "confirm_enrollment a k gen sha user code now rnd db =
     (case check_code a k gen user code now of
        Inl e \<Rightarrow> (Inl e, db)
      | Inr step \<Rightarrow>
          with_tx (\<lambda>db. case enable_user_totp (totp_id user) step db of
                     (n, db') \<Rightarrow> if n = 0 then Inl TOTPNotEnrolled
                                 else replace_recovery_codes sha (totp_id user) rnd db') db)"

definition verify ::
    "aead \<Rightarrow> keyring \<Rightarrow> (bytes \<Rightarrow> int \<Rightarrow> string option) \<Rightarrow> (string \<Rightarrow> bytes) \<Rightarrow> totp_user \<Rightarrow> string \<Rightarrow> string \<Rightarrow> instant \<Rightarrow>
     totp_db \<Rightarrow> (factor_error + unit) \<times> totp_db" where
  "verify a k gen sha user meth code now db =
     (if meth = ''totp'' then
        (case check_code a k gen user code now of
           Inl e \<Rightarrow> (Inl e, db)
         | Inr step \<Rightarrow>
             (case set_user_totp_last_step (totp_id user) step db of
                (n, db') \<Rightarrow> if n = 0 then (Inl SecondFactorUsed, db') else (Inr (), db')))
      else if meth = ''recovery_code'' then consume_recovery_code sha (totp_id user) code db
      else (Inl UnsupportedMethod, db))"

definition disable :: "uuid \<Rightarrow> totp_db \<Rightarrow> totp_db" where
  "disable i db = delete_recovery_codes i (disable_user_totp i db)"

definition regenerate_recovery_codes ::
    "(string \<Rightarrow> bytes) \<Rightarrow> totp_user \<Rightarrow> bytes \<Rightarrow> totp_db \<Rightarrow> (factor_error + string list) \<times> totp_db" where
  "regenerate_recovery_codes sha user rnd db =
     (if \<not> has_mfa user then (Inl TOTPNotEnrolled, db)
      else with_tx (replace_recovery_codes sha (totp_id user) rnd) db)"

section \<open>Replay\<close>

definition last_step_of :: "totp_db \<Rightarrow> uuid \<Rightarrow> int option" where
  "last_step_of db i = Option.bind (totp_users db i) totp_last_step"

definition above :: "int option \<Rightarrow> int \<Rightarrow> bool" where
  "above l s = (case l of None \<Rightarrow> True | Some n \<Rightarrow> n < s)"

lemma above_Some [simp]: "above (Some n) s \<longleftrightarrow> n < s"
  by (simp add: above_def)

lemma above_trans: "n < s \<Longrightarrow> above l n \<Longrightarrow> above l s"
  by (cases l) (simp_all add: above_def)

lemma check_steps_Inr:
  "check_steps expected code lst steps = Inr s \<Longrightarrow> s \<in> set steps \<and> expected s = Some code \<and> above lst s"
  by (induction steps) (auto simp: above_def split: option.splits if_splits)

lemma set_last_step_cases:
  assumes "set_user_totp_last_step i s db = (n, db')"
  shows "(n = 0 \<and> db' = db) \<or> (n = 1 \<and> above (last_step_of db i) s \<and> last_step_of db' i = Some s \<and>
     recovery_codes db' = recovery_codes db \<and> (\<forall>j. j \<noteq> i \<longrightarrow> totp_users db' j = totp_users db j))"
  using assms
  by (auto simp: set_user_totp_last_step_def above_def last_step_of_def update_user_def split: option.splits if_splits)

lemma consume_frame: "consume_recovery_code sha i c db = (r, db') \<Longrightarrow> totp_users db' = totp_users db"
  by (auto simp: consume_recovery_code_def consume_row_def split: if_splits prod.splits bool.splits)

text \<open>The steps a sequence of verifications accepts for a user; each request may hold any stale row.\<close>

type_synonym factor_request = "totp_user \<times> string \<times> string \<times> instant"

fun accepted_steps ::
    "aead \<Rightarrow> keyring \<Rightarrow> (bytes \<Rightarrow> int \<Rightarrow> string option) \<Rightarrow> (string \<Rightarrow> bytes) \<Rightarrow> uuid \<Rightarrow> factor_request list \<Rightarrow> totp_db \<Rightarrow> int list" where
  "accepted_steps a k gen sha i [] db = []"
| "accepted_steps a k gen sha i ((u, m, c, t) # rs) db =
     (case verify a k gen sha u m c t db of
        (r, db') \<Rightarrow>
          (if r = Inr () \<and> m = ''totp'' \<and> totp_id u = i
           then (case check_code a k gen u c t of Inr s \<Rightarrow> [s] | Inl e \<Rightarrow> []) else [])
          @ accepted_steps a k gen sha i rs db')"

lemma verify_totp_cases:
  assumes "verify a k gen sha u ''totp'' c t db = (r, db')"
  shows "(r \<noteq> Inr () \<and> db' = db) \<or>
     (\<exists>s. r = Inr () \<and> check_code a k gen u c t = Inr s \<and> above (last_step_of db (totp_id u)) s \<and>
        last_step_of db' (totp_id u) = Some s \<and> recovery_codes db' = recovery_codes db \<and>
        (\<forall>j. j \<noteq> totp_id u \<longrightarrow> totp_users db' j = totp_users db j))"
proof (cases "check_code a k gen u c t")
  case (Inr s)
  obtain n d where n: "set_user_totp_last_step (totp_id u) s db = (n, d)"
    by (cases "set_user_totp_last_step (totp_id u) s db")
  from set_last_step_cases [OF n] show ?thesis
    using assms Inr n by (auto simp: verify_def split: if_splits)
qed (use assms in \<open>auto simp: verify_def\<close>)

lemma verify_other_frame:
  "m \<noteq> ''totp'' \<Longrightarrow> verify a k gen sha u m c t db = (r, db') \<Longrightarrow> totp_users db' = totp_users db"
  by (auto simp: verify_def dest: consume_frame split: if_splits)

lemma accepted_above:
  "(\<forall>s \<in> set (accepted_steps a k gen sha i rs db). above (last_step_of db i) s) \<and>
   sorted_wrt (<) (accepted_steps a k gen sha i rs db)"
proof (induction rs arbitrary: db)
  case (Cons q rs)
  obtain u m c t where q: "q = (u, m, c, t)" by (cases q)
  obtain r db' where v: "verify a k gen sha u m c t db = (r, db')" by (cases "verify a k gen sha u m c t db")
  let ?rest = "accepted_steps a k gen sha i rs db'"
  have step: "(accepted_steps a k gen sha i (q # rs) db = ?rest \<and> last_step_of db' i = last_step_of db i) \<or>
     (\<exists>s. accepted_steps a k gen sha i (q # rs) db = s # ?rest \<and> above (last_step_of db i) s \<and> last_step_of db' i = Some s)"
  proof (cases "m = ''totp''")
    case True
    from verify_totp_cases [of a k gen sha u c t db r db'] v True q show ?thesis
      by (cases "totp_id u = i") (auto simp: last_step_of_def)
  next
    case False
    from verify_other_frame [OF False v] v False q show ?thesis by (simp add: last_step_of_def)
  qed
  from step Cons.IH [of db']
  show ?case by (fastforce intro: above_trans)
qed simp

text \<open>
  C29: however verifications interleave, and whatever rows they had read before, the one-time
  code steps accepted for a user strictly increase: no step is ever accepted twice, and none at
  or before the last step recorded.
\<close>
theorem totp_step_accepted_once:
  "sorted_wrt (<) (accepted_steps a k gen sha i rs db) \<and>
   list_all (above (last_step_of db i)) (accepted_steps a k gen sha i rs db)"
  using accepted_above [of a k gen sha i rs db] by (simp add: list_all_iff)

text \<open>
  an accepted code is the code of the user's stored secret for a time step at most one away
  from the current one, and later than the last step the caller knew of.
\<close>
theorem accepted_code_is_current:
  assumes "verify a k gen sha u ''totp'' raw now db = (Inr (), db')"
  shows "\<exists>secret s. decrypt a k (totp_secret u) = Inr secret \<and> gen secret s = Some (trim_space raw) \<and>
     \<bar>s - quot now totp_period\<bar> \<le> totp_skew \<and> above (totp_last_step u) s"
proof -
  obtain s where s: "check_code a k gen u raw now = Inr s" using verify_totp_cases [OF assms] by auto
  then obtain secret where "decrypt a k (totp_secret u) = Inr secret"
    and c: "check_steps (gen secret) (trim_space raw) (totp_last_step u)
         [quot now totp_period - totp_skew .. quot now totp_period + totp_skew] = Inr s"
    by (auto simp: check_code_def Let_def split: if_splits sum.splits)
  with check_steps_Inr [OF c] show ?thesis by (auto simp: abs_le_iff)
qed

section \<open>Recovery codes\<close>

definition spent :: "uuid \<Rightarrow> bytes \<Rightarrow> totp_db \<Rightarrow> bool" where
  "spent i h db \<longleftrightarrow> (\<forall>r \<in> set (recovery_codes db). rc_user r = i \<and> rc_hash r = h \<longrightarrow> rc_used r)"

lemma consume_row_cases:
  "consume_row i h db = (b, db') \<Longrightarrow> (b \<longleftrightarrow> \<not> spent i h db) \<and> spent i h db' \<and> (spent j g db \<longrightarrow> spent j g db')"
  by (auto simp: consume_row_def spent_def spend_hash_def list_ex_iff split: if_splits)

lemma verify_keeps_spent:
  "verify a k gen sha u m c t db = (r, db') \<Longrightarrow> spent i h db \<Longrightarrow> spent i h db'"
proof (cases "m = ''totp''")
  case True
  assume "verify a k gen sha u m c t db = (r, db')" "spent i h db"
  then show ?thesis using True verify_totp_cases [of a k gen sha u c t db r db'] by (auto simp: spent_def)
next
  case False
  assume "verify a k gen sha u m c t db = (r, db')" "spent i h db"
  then show ?thesis
    using False consume_row_cases [of "totp_id u" "hash_recovery_code sha c" db _ db' i h]
    by (auto simp: verify_def consume_recovery_code_def split: if_splits prod.splits bool.splits)
qed

lemma verify_keeps_spent_snd: "spent i h db \<Longrightarrow> spent i h (snd (verify a k gen sha u m c t db))"
  by (cases "verify a k gen sha u m c t db") (auto dest: verify_keeps_spent)

fun verify_run ::
    "aead \<Rightarrow> keyring \<Rightarrow> (bytes \<Rightarrow> int \<Rightarrow> string option) \<Rightarrow> (string \<Rightarrow> bytes) \<Rightarrow> factor_request list \<Rightarrow> totp_db \<Rightarrow> totp_db" where
  "verify_run a k gen sha [] db = db"
| "verify_run a k gen sha ((u, m, c, t) # rs) db = verify_run a k gen sha rs (snd (verify a k gen sha u m c t db))"

lemma verify_run_spent: "spent i h db \<Longrightarrow> spent i h (verify_run a k gen sha rs db)"
proof (induction rs arbitrary: db)
  case (Cons q rs)
  show ?case by (cases q) (simp add: Cons.IH verify_keeps_spent_snd Cons.prems)
qed simp

text \<open>
  a recovery code works once. After a verification accepted it, no later one does, under
  any spelling that normalises to it and whatever other verifications come in between.
\<close>
theorem recovery_code_single_use:
  assumes "verify a k gen sha u ''recovery_code'' code now db = (Inr (), db')"
    and "normalise_recovery code' = normalise_recovery code" "totp_id u' = totp_id u"
  shows "fst (verify a k gen sha u' ''recovery_code'' code' now' (verify_run a k gen sha rs db')) = Inl InvalidSecondFactor"
proof -
  have "spent (totp_id u) (hash_recovery_code sha code) db'"
    using assms(1) consume_row_cases [of "totp_id u" "hash_recovery_code sha code" db True db']
    by (auto simp: verify_def consume_recovery_code_def split: prod.splits bool.splits)
  from verify_run_spent [OF this] have sp: "spent (totp_id u) (hash_recovery_code sha code) (verify_run a k gen sha rs db')" .
  obtain b d where c: "consume_row (totp_id u) (hash_recovery_code sha code) (verify_run a k gen sha rs db') = (b, d)"
    by (cases "consume_row (totp_id u) (hash_recovery_code sha code) (verify_run a k gen sha rs db')")
  have "\<not> b" using consume_row_cases [OF c] sp by simp
  with c assms(2,3) show ?thesis
    by (simp add: verify_def consume_recovery_code_def hash_recovery_code_def)
qed

section \<open>Enrollment and fresh codes\<close>

definition codes_of :: "uuid \<Rightarrow> totp_db \<Rightarrow> recovery_code list" where
  "codes_of i db = filter (\<lambda>r. rc_user r = i) (recovery_codes db)"

lemma insert_codes_spec:
  "insert_codes sha n i rnd db = Inr (codes, db') \<Longrightarrow>
     length codes = n \<and> totp_users db' = totp_users db \<and>
     recovery_codes db' = recovery_codes db @
       map (\<lambda>c. \<lparr>rc_user = i, rc_hash = hash_recovery_code sha c, rc_used = False\<rparr>) codes"
proof (induction n arbitrary: rnd db codes)
  case (Suc n)
  then obtain code rnd1 cs where "generate_recovery_code rnd = Inr (code, rnd1)"
    and r: "insert_codes sha n i rnd1 (insert_recovery_code i (hash_recovery_code sha code) db) = Inr (cs, db')"
    and codes: "codes = code # cs"
    by (auto simp: res_simps)
  from Suc.IH [OF r] codes show ?case by (simp add: insert_recovery_code_def)
qed simp

lemma replace_codes_spec:
  assumes "replace_recovery_codes sha i rnd db = Inr (codes, db')"
  shows "length codes = 10 \<and> totp_users db' = totp_users db \<and>
     codes_of i db' = map (\<lambda>c. \<lparr>rc_user = i, rc_hash = hash_recovery_code sha c, rc_used = False\<rparr>) codes \<and>
     (\<forall>j. j \<noteq> i \<longrightarrow> codes_of j db' = codes_of j db)"
proof -
  have "filter (\<lambda>r. rc_user r = j) (map (\<lambda>c. \<lparr>rc_user = i, rc_hash = hash_recovery_code sha c, rc_used = False\<rparr>) cs) =
      (if j = i then map (\<lambda>c. \<lparr>rc_user = i, rc_hash = hash_recovery_code sha c, rc_used = False\<rparr>) cs else [])" for j cs
    by (induction cs) auto
  then show ?thesis
    using insert_codes_spec [of sha recovery_code_count i rnd "delete_recovery_codes i db" codes db'] assms
    by (auto simp: replace_recovery_codes_def recovery_code_count_def delete_recovery_codes_def codes_of_def
        intro!: filter_cong)
qed

text \<open>
  confirming an enrollment is all or nothing. Either the database is unchanged and an error
  is returned, or the factor is on, the step of the confirming code is spent, and the user has
  exactly the ten returned recovery codes, all unused.
\<close>
theorem confirm_all_or_nothing:
  assumes "confirm_enrollment a k gen sha user code now rnd db = (r, db')"
  shows "(\<exists>e. r = Inl e) \<and> db' = db \<or>
     (\<exists>codes u s. r = Inr codes \<and> length codes = 10 \<and> check_code a k gen user code now = Inr s \<and>
        totp_users db' (totp_id user) = Some u \<and> has_mfa u \<and> totp_last_step u = Some s \<and>
        codes_of (totp_id user) db' =
          map (\<lambda>c. \<lparr>rc_user = totp_id user, rc_hash = hash_recovery_code sha c, rc_used = False\<rparr>) codes)"
proof (cases "check_code a k gen user code now")
  case (Inr s)
  obtain n d where e: "enable_user_totp (totp_id user) s db = (n, d)" by (cases "enable_user_totp (totp_id user) s db")
  show ?thesis
  proof (cases "n = 0 \<or> (\<exists>err. replace_recovery_codes sha (totp_id user) rnd d = Inl err)")
    case True
    then show ?thesis using assms Inr e
      by (cases "n = 0") (auto simp: confirm_enrollment_def with_tx_def)
  next
    case False
    then obtain codes d' where rep: "replace_recovery_codes sha (totp_id user) rnd d = Inr (codes, d')"
      by (cases "replace_recovery_codes sha (totp_id user) rnd d") auto
    have "r = Inr codes" "db' = d'" using assms Inr e rep False by (auto simp: confirm_enrollment_def with_tx_def)
    moreover obtain u where "totp_users d (totp_id user) = Some u" "has_mfa u" "totp_last_step u = Some s"
      using e False by (auto simp: enable_user_totp_def update_user_def has_mfa_def split: option.splits if_splits)
    ultimately show ?thesis using replace_codes_spec [OF rep] Inr by auto
  qed
qed (use assms in \<open>auto simp: confirm_enrollment_def\<close>)

text \<open>
  regenerating kills the previous list. Afterwards a code is accepted only if it hashes like
  one of the ten new ones, whatever the table held before.
\<close>
theorem regenerate_kills_old_codes:
  assumes "regenerate_recovery_codes sha user rnd db = (Inr codes, db')"
    and "fst (consume_recovery_code sha (totp_id user) code db') = Inr ()"
  shows "length codes = 10 \<and> (\<exists>c \<in> set codes. hash_recovery_code sha code = hash_recovery_code sha c)"
proof -
  have rep: "replace_recovery_codes sha (totp_id user) rnd db = Inr (codes, db')"
    using assms(1) by (auto simp: regenerate_recovery_codes_def with_tx_def split: if_splits sum.splits)
  have "\<not> spent (totp_id user) (hash_recovery_code sha code) db'"
    using assms(2) consume_row_cases [of "totp_id user" "hash_recovery_code sha code" db']
    by (auto simp: consume_recovery_code_def split: prod.splits bool.splits)
  then obtain r where "r \<in> set (codes_of (totp_id user) db')" "rc_hash r = hash_recovery_code sha code"
    by (auto simp: spent_def codes_of_def)
  then have "length codes = 10" "rc_hash r = hash_recovery_code sha code"
    "r \<in> set (map (\<lambda>c. \<lparr>rc_user = totp_id user, rc_hash = hash_recovery_code sha c, rc_used = False\<rparr>) codes)"
    using replace_codes_spec [OF rep] by simp_all
  then show ?thesis unfolding set_map by (elim imageE) (rule conjI, assumption, rule bexI, simp_all)
qed

section \<open>The interface of a second factor\<close>

text \<open>
  \<open>SecondFactorVerifier\<close> as the login challenge uses it. The law it relies on: a code accepted
  once is refused when it is presented again at the same moment, from the same row as before.
\<close>

locale second_factor =
  fixes verifier :: "'u \<Rightarrow> string \<Rightarrow> string \<Rightarrow> instant \<Rightarrow> 'f \<Rightarrow> ('e + unit) \<times> 'f"
  assumes verifier_spends: "verifier u m c t f = (Inr (), f') \<Longrightarrow> fst (verifier u m c t f') \<noteq> Inr ()"

lemma verify_spends:
  assumes "verify a k gen sha u m c t db = (Inr (), db')"
  shows "fst (verify a k gen sha u m c t db') \<noteq> Inr ()"
proof (cases "m = ''totp''")
  case True
  then obtain s where s: "check_code a k gen u c t = Inr s" "last_step_of db' (totp_id u) = Some s"
    using assms verify_totp_cases [of a k gen sha u c t db "Inr ()" db'] by auto
  show ?thesis
  proof
    assume "fst (verify a k gen sha u m c t db') = Inr ()"
    then obtain d where "verify a k gen sha u ''totp'' c t db' = (Inr (), d)" using True by (metis prod.collapse)
    from verify_totp_cases [OF this] s show False by auto
  qed
next
  case False
  then have rc: "m = ''recovery_code''" using assms by (auto simp: verify_def split: if_splits)
  have "spent (totp_id u) (hash_recovery_code sha c) db'"
    using assms rc consume_row_cases [of "totp_id u" "hash_recovery_code sha c" db True db']
    by (auto simp: verify_def consume_recovery_code_def split: prod.splits bool.splits)
  then show ?thesis
    using rc consume_row_cases [of "totp_id u" "hash_recovery_code sha c" db']
    by (auto simp: verify_def consume_recovery_code_def split: prod.splits bool.splits)
qed

interpretation totp: second_factor "verify a k gen sha"
  by unfold_locales (rule verify_spends)

section \<open>Witnesses\<close>

definition demo_gen :: "bytes \<Rightarrow> int \<Rightarrow> string option" where
  "demo_gen secret step = Some (if step = 4 then ''123456'' else ''000000'')"

definition demo_totp_user :: totp_user where
  "demo_totp_user = \<lparr>totp_id = 5, totp_secret = demo_secret, totp_enabled = True, totp_last_step = None\<rparr>"

definition demo_totp_db :: totp_db where
  "demo_totp_db = \<lparr>totp_users = (\<lambda>i. if i = 5 then Some demo_totp_user else None),
     recovery_codes = [\<lparr>rc_user = 5, rc_hash = [65], rc_used = False\<rparr>]\<rparr>"

definition demo_sha :: "string \<Rightarrow> bytes" where "demo_sha = map of_char"

lemma demo_check: "check_code toy_aead demo_ring demo_gen demo_totp_user ''123456'' 120 = Inr 4"
  by (simp add: check_code_def demo_totp_user_def demo_secret_facts trim_space_def go_space_def quot_def totp_period_def
      totp_skew_def demo_gen_def upto.simps)

lemma demo_verify:
  "\<exists>d. verify toy_aead demo_ring demo_gen demo_sha demo_totp_user ''totp'' ''123456'' 120 demo_totp_db = (Inr (), d)"
  by (simp add: verify_def demo_check) (simp add: set_user_totp_last_step_def demo_totp_db_def demo_totp_user_def)

theorem accepted_code_is_current_witness:
  "\<exists>secret s. decrypt toy_aead demo_ring demo_secret = Inr secret \<and> demo_gen secret s = Some ''123456'' \<and> \<bar>s - 4\<bar> \<le> 1"
proof -
  obtain d where "verify toy_aead demo_ring demo_gen demo_sha demo_totp_user ''totp'' ''123456'' 120 demo_totp_db = (Inr (), d)"
    using demo_verify by blast
  from accepted_code_is_current [OF this] show ?thesis
    by (auto simp: demo_totp_user_def trim_space_def go_space_def quot_def totp_period_def totp_skew_def)
qed

theorem recovery_code_single_use_witness:
  "fst (verify toy_aead demo_ring demo_gen demo_sha demo_totp_user ''recovery_code'' ''-a'' 120
     (snd (verify toy_aead demo_ring demo_gen demo_sha demo_totp_user ''recovery_code'' ''A'' 120 demo_totp_db)))
   = Inl InvalidSecondFactor"
proof -
  have h: "hash_recovery_code demo_sha ''A'' = [65]" by code_simp
  have "fst (verify toy_aead demo_ring demo_gen demo_sha demo_totp_user ''recovery_code'' ''A'' 120 demo_totp_db) = Inr ()"
    by (simp add: verify_def consume_recovery_code_def h demo_totp_user_def consume_row_def demo_totp_db_def)
  moreover have "normalise_recovery ''-a'' = normalise_recovery ''A''" by code_simp
  ultimately show ?thesis
    using recovery_code_single_use [of toy_aead demo_ring demo_gen demo_sha demo_totp_user "''A''" 120 demo_totp_db
        "snd (verify toy_aead demo_ring demo_gen demo_sha demo_totp_user ''recovery_code'' ''A'' 120 demo_totp_db)"
        "''-a''" demo_totp_user 120 "[]"]
    by (metis prod.collapse verify_run.simps(1))
qed

theorem confirm_all_or_nothing_witness:
  "confirm_enrollment toy_aead demo_ring demo_gen demo_sha demo_totp_user ''000001'' 120 (replicate 100 0) demo_totp_db
   = (Inl InvalidSecondFactor, demo_totp_db)"
proof -
  have "check_code toy_aead demo_ring demo_gen demo_totp_user ''000001'' 120 = Inl InvalidSecondFactor"
    by (simp add: check_code_def demo_totp_user_def demo_secret_facts trim_space_def go_space_def quot_def totp_period_def
        totp_skew_def demo_gen_def upto.simps)
  then have "confirm_enrollment toy_aead demo_ring demo_gen demo_sha demo_totp_user ''000001'' 120 (replicate 100 0) demo_totp_db
   = (Inl InvalidSecondFactor, demo_totp_db)" by (simp add: confirm_enrollment_def)
  with confirm_all_or_nothing [OF this] show ?thesis by auto
qed

definition demo_code :: string where "demo_code = ''AAAA-AAAA-AAAA-AAAA''"

definition demo_fresh_db :: totp_db where
  "demo_fresh_db = \<lparr>totp_users = totp_users demo_totp_db,
     recovery_codes = replicate 10 \<lparr>rc_user = 5, rc_hash = hash_recovery_code demo_sha demo_code, rc_used = False\<rparr>\<rparr>"

lemma demo_b32: "b32_encode (replicate 10 0) = ''AAAAAAAAAAAAAAAA''"
proof -
  have r: "replicate 10 (0::8 word) = [0, 0, 0, 0, 0, 0, 0, 0, 0, 0]" by (simp add: eval_nat_numeral)
  have z: "map (\<lambda>i::nat. b32_char 0) [0..<8] = ''AAAAAAAA''"
    by (simp add: b32_char_def upt_rec)
  show ?thesis unfolding r by (simp add: z)
qed

lemma demo_generate: "generate_recovery_code (replicate 10 0 @ rnd) = Inr (demo_code, rnd)"
  by (simp add: generate_recovery_code_def read_full_def recovery_code_bytes_def demo_b32 demo_code_def)

lemma demo_insert:
  "insert_codes demo_sha n 5 (replicate (10 * n) 0) db =
     Inr (replicate n demo_code, db\<lparr>recovery_codes := recovery_codes db @
       replicate n \<lparr>rc_user = 5, rc_hash = hash_recovery_code demo_sha demo_code, rc_used = False\<rparr>\<rparr>)"
proof (induction n arbitrary: db)
  case (Suc n)
  have r: "replicate (10 * Suc n) (0::8 word) = replicate 10 0 @ replicate (10 * n) 0"
    by (simp only: replicate_add [symmetric] mult_Suc_right)
  show ?case unfolding r insert_codes.simps demo_generate by (simp add: res_simps Suc.IH insert_recovery_code_def)
qed simp

lemma demo_regenerate:
  "regenerate_recovery_codes demo_sha demo_totp_user (replicate 100 0) demo_totp_db = (Inr (replicate 10 demo_code), demo_fresh_db)"
  using demo_insert [of 10 "delete_recovery_codes 5 demo_totp_db"]
  by (simp add: regenerate_recovery_codes_def has_mfa_def with_tx_def replace_recovery_codes_def recovery_code_count_def
      demo_totp_user_def) (simp add: demo_fresh_db_def demo_totp_db_def delete_recovery_codes_def)

theorem regenerate_kills_old_codes_witness:
  "\<exists>c \<in> set (replicate 10 demo_code). hash_recovery_code demo_sha demo_code = hash_recovery_code demo_sha c"
proof -
  have "fst (consume_recovery_code demo_sha (totp_id demo_totp_user) demo_code demo_fresh_db) = Inr ()"
    by (simp add: consume_recovery_code_def consume_row_def demo_fresh_db_def demo_totp_user_def list_ex_iff)
  from conjunct2 [OF regenerate_kills_old_codes [OF demo_regenerate this]] show ?thesis .
qed

end
