(* ===== verification/Sessions.thy ===== *)
theory Sessions
  imports Prelude Totp
begin

text \<open>
  Sessions: login with lockout and second-factor challenge, refresh-token rotation, access-token
  validation and revocation (\<open>internal/service/auth.go\<close>, \<open>internal/service/auth_challenge.go\<close>,
  the session handlers of \<open>internal/handler/auth.go\<close> and \<open>internal/handler/totp.go\<close>, and
  \<open>store/queries/refresh_tokens.sql\<close>, \<open>login_attempts.sql\<close>).

  The state holds the tables and the Redis keys the code uses, with Redis expiry as an instant
  compared with the clock; time is in seconds. Random strings (tokens, challenge, token ids) are
  arguments. The JWT library, bcrypt, SHA-256 and \<open>strings.ToLower\<close> are the fields of the
  environment; what is assumed of the JWT library is \<open>jwt_ok\<close>. Of the database errors those are kept
  that the code swallows: the update that revokes a rotated token (\<open>rev_ok\<close>), and the queries of the
  lockout, which a request is given as the predicate \<open>ans\<close> of the queries that answer. A lockout query
  that fails lets the request through. A session is also handed out by \<open>AcceptInvitation\<close>
  (\<open>internal/handler/invitations.go\<close>) and by the two handlers that turn a second factor on or off.
\<close>

section \<open>State\<close>

record account =
  ac_email :: string
  ac_role :: string
  ac_password :: string

type_synonym user_row = "account \<times> totp_user"

abbreviation row_id :: "user_row \<Rightarrow> uuid" where "row_id u \<equiv> totp_id (snd u)"
abbreviation row_email :: "user_row \<Rightarrow> string" where "row_email u \<equiv> ac_email (fst u)"

record refresh_row =
  rr_id :: nat
  rr_user :: uuid
  rr_hash :: bytes
  rr_expires :: instant
  rr_revoked :: bool

record attempt_row =
  at_count :: int
  at_first :: "instant option"
  at_locked :: "instant option"

record challenge =
  ch_user :: "uuid option"
  ch_attempts :: int
  ch_expires :: "instant option"

record invitation =
  iv_hash :: bytes
  iv_email :: string
  iv_role :: string
  iv_expires :: "instant option"
  iv_accepted :: bool

record auth_state =
  clock :: instant
  accounts :: "(uuid \<times> account) list"
  factor_db :: totp_db
  refresh_tokens :: "refresh_row list"
  login_attempts :: "string \<Rightarrow> attempt_row option"
  redis_up :: bool
  token_seq :: "uuid \<Rightarrow> (int \<times> instant) option"
  jwt_blacklist :: "string \<Rightarrow> instant option"
  challenges :: "bytes \<Rightarrow> challenge option"
  invitations :: "invitation list"

record claims =
  cl_id :: string
  cl_user :: uuid
  cl_email :: string
  cl_role :: string
  cl_tseq :: int
  cl_exp :: instant

type_synonym factor_verifier = "totp_user \<Rightarrow> string \<Rightarrow> string \<Rightarrow> instant \<Rightarrow> totp_db \<Rightarrow> (factor_error + unit) \<times> totp_db"
type_synonym factor_confirmer = "totp_user \<Rightarrow> string \<Rightarrow> instant \<Rightarrow> bytes \<Rightarrow> totp_db \<Rightarrow> (factor_error + string list) \<times> totp_db"

record auth_env =
  access_expiry :: duration
  refresh_expiry :: duration
  has_redis :: bool
  jwt_sign :: "claims \<Rightarrow> string"
  jwt_parse :: "string \<Rightarrow> instant \<Rightarrow> claims option"
  pw_ok :: "string \<Rightarrow> string \<Rightarrow> bool"
  sha256 :: "string \<Rightarrow> bytes"
  to_lower :: "string \<Rightarrow> string"
  env_factor :: "((totp_db \<Rightarrow> totp_user \<Rightarrow> string list) \<times> factor_verifier) option"
  env_verify :: factor_verifier
  env_confirm :: factor_confirmer

datatype auth_error = InvalidCredentials | InvalidToken | InvalidChallenge | SecondFactorUnavailable | AuthInternal
  | Factor factor_error

definition lockout_threshold :: int where "lockout_threshold = 5"
definition lockout_window :: duration where "lockout_window = 15 * 60"
definition lockout_duration :: duration where "lockout_duration = 15 * 60"
definition challenge_ttl :: duration where "challenge_ttl = 5 * 60"
definition challenge_max_attempts :: int where "challenge_max_attempts = 5"

definition expiry_or :: "int \<Rightarrow> duration \<Rightarrow> duration" where
  "expiry_or hours fallback = (let d = hours * 3600 in if d \<le> 0 then fallback else d)"

text \<open>
  \<open>NewAuthService\<close> with \<open>SetSecondFactorVerifier\<close>: the wiring of the server. The handlers verify and
  confirm with the TOTP service they hold themselves.
\<close>

definition new_auth_service ::
    "int \<Rightarrow> int \<Rightarrow> bool \<Rightarrow> (claims \<Rightarrow> string) \<Rightarrow> (string \<Rightarrow> instant \<Rightarrow> claims option) \<Rightarrow> (string \<Rightarrow> string \<Rightarrow> bool) \<Rightarrow>
     (string \<Rightarrow> bytes) \<Rightarrow> (string \<Rightarrow> string) \<Rightarrow> factor_verifier \<Rightarrow> factor_confirmer \<Rightarrow> auth_env" where
  "new_auth_service ah rh rdb sig prs pw sha lower ver conf =
     \<lparr>access_expiry = expiry_or ah 3600, refresh_expiry = expiry_or rh (7 * 24 * 3600), has_redis = rdb,
      jwt_sign = sig, jwt_parse = prs, pw_ok = pw, sha256 = sha, to_lower = lower, env_factor = Some (methods, ver),
      env_verify = ver, env_confirm = conf\<rparr>"

text \<open>What is relied on of the JWT library: a signed token parses to its claims until it expires.\<close>

definition jwt_ok :: "auth_env \<Rightarrow> bool" where
  "jwt_ok env \<longleftrightarrow> (\<forall>c t. jwt_parse env (jwt_sign env c) t = (if t < cl_exp c then Some c else None))"

section \<open>Users\<close>

definition get_user_by_id :: "uuid \<Rightarrow> auth_state \<Rightarrow> user_row option" where
  "get_user_by_id i st =
     (case (map_of (accounts st) i, totp_users (factor_db st) i) of
        (Some a, Some t) \<Rightarrow> Some (a, t)
      | _ \<Rightarrow> None)"

definition get_user_by_email :: "string \<Rightarrow> auth_state \<Rightarrow> user_row option" where
  "get_user_by_email email st =
     (case find (\<lambda>(i, a). ac_email a = email) (accounts st) of
        None \<Rightarrow> None
      | Some (i, a) \<Rightarrow> get_user_by_id i st)"

section \<open>Refresh tokens and the token sequence\<close>

definition redis_ok :: "auth_env \<Rightarrow> auth_state \<Rightarrow> bool" where
  "redis_ok env st \<longleftrightarrow> has_redis env \<and> redis_up st"

definition hash_refresh_token :: "auth_env \<Rightarrow> string \<Rightarrow> bytes" where
  "hash_refresh_token env plain = sha256 env plain"

definition get_active_refresh_token :: "bytes \<Rightarrow> auth_state \<Rightarrow> refresh_row option" where
  "get_active_refresh_token h st =
     find (\<lambda>r. rr_hash r = h \<and> \<not> rr_revoked r \<and> clock st < rr_expires r) (refresh_tokens st)"

definition revoke_where :: "(refresh_row \<Rightarrow> bool) \<Rightarrow> auth_state \<Rightarrow> auth_state" where
  "revoke_where p st =
     st\<lparr>refresh_tokens := map (\<lambda>r. if p r then r\<lparr>rr_revoked := True\<rparr> else r) (refresh_tokens st)\<rparr>"

text \<open>\<open>token_hash\<close> is UNIQUE, so the insert fails on a hash the table already has.\<close>

definition create_refresh_token :: "uuid \<Rightarrow> bytes \<Rightarrow> instant \<Rightarrow> auth_state \<Rightarrow> (auth_error + unit) \<times> auth_state" where
  "create_refresh_token i h e st =
     (if list_ex (\<lambda>r. rr_hash r = h) (refresh_tokens st) then (Inl AuthInternal, st)
      else (Inr (), st\<lparr>refresh_tokens := refresh_tokens st @
             [\<lparr>rr_id = length (refresh_tokens st), rr_user = i, rr_hash = h, rr_expires = e, rr_revoked = False\<rparr>]\<rparr>))"

definition current_token_seq :: "auth_env \<Rightarrow> auth_state \<Rightarrow> uuid \<Rightarrow> int" where
  "current_token_seq env st i =
     (if \<not> redis_ok env st then 0
      else case token_seq st i of
        None \<Rightarrow> 0
      | Some (n, e) \<Rightarrow> if clock st < e then n else 0)"

definition revoke_user_sessions :: "auth_env \<Rightarrow> uuid \<Rightarrow> auth_state \<Rightarrow> auth_state" where
  "revoke_user_sessions env i st =
     (let st1 = revoke_where (\<lambda>r. rr_user r = i) st
      in if \<not> redis_ok env st1 then st1
         else st1\<lparr>token_seq := (token_seq st1)(i \<mapsto> (current_token_seq env st1 i + 1, clock st1 + access_expiry env))\<rparr>)"

record login_result =
  lr_token :: string
  lr_refresh :: string
  lr_user :: uuid

definition access_claims :: "auth_env \<Rightarrow> user_row \<Rightarrow> int \<Rightarrow> string \<Rightarrow> instant \<Rightarrow> claims" where
  "access_claims env u tseq jti now =
     \<lparr>cl_id = jti, cl_user = row_id u, cl_email = row_email u, cl_role = ac_role (fst u), cl_tseq = tseq,
      cl_exp = now + access_expiry env\<rparr>"

definition issue_session :: "auth_env \<Rightarrow> user_row \<Rightarrow> string \<Rightarrow> string \<Rightarrow> auth_state \<Rightarrow> (auth_error + login_result) \<times> auth_state" where
  "issue_session env u plain jti st =
     (let tseq = current_token_seq env st (row_id u);
          access = jwt_sign env (access_claims env u tseq jti (clock st))
      in case create_refresh_token (row_id u) (hash_refresh_token env plain) (clock st + refresh_expiry env) st of
           (Inl e, st') \<Rightarrow> (Inl e, st')
         | (Inr _, st') \<Rightarrow> (Inr \<lparr>lr_token = access, lr_refresh = plain, lr_user = row_id u\<rparr>, st'))"

text \<open>\<open>Refresh\<close>, in the two steps another request can come between.\<close>

definition refresh_lookup :: "auth_env \<Rightarrow> string \<Rightarrow> auth_state \<Rightarrow> auth_error + refresh_row" where
  "refresh_lookup env tok st =
     (if tok = '''' then Inl InvalidToken
      else case get_active_refresh_token (hash_refresh_token env tok) st of
        None \<Rightarrow> Inl InvalidToken
      | Some row \<Rightarrow> Inr row)"

definition refresh_finish ::
    "auth_env \<Rightarrow> refresh_row \<Rightarrow> bool \<Rightarrow> string \<Rightarrow> string \<Rightarrow> auth_state \<Rightarrow> (auth_error + login_result) \<times> auth_state" where
  "refresh_finish env row rev_ok plain jti st =
     (let st1 = (if rev_ok then revoke_where (\<lambda>r. rr_id r = rr_id row) st else st)
      in case get_user_by_id (rr_user row) st1 of
           None \<Rightarrow> (Inl InvalidToken, st1)
         | Some u \<Rightarrow> issue_session env u plain jti st1)"

definition refresh ::
    "auth_env \<Rightarrow> string \<Rightarrow> bool \<Rightarrow> string \<Rightarrow> string \<Rightarrow> auth_state \<Rightarrow> (auth_error + login_result) \<times> auth_state" where
  "refresh env tok rev_ok plain jti st =
     (case refresh_lookup env tok st of
        Inl e \<Rightarrow> (Inl e, st)
      | Inr row \<Rightarrow> refresh_finish env row rev_ok plain jti st)"

definition revoke_refresh_token :: "auth_env \<Rightarrow> string \<Rightarrow> auth_state \<Rightarrow> auth_state" where
  "revoke_refresh_token env tok st =
     (if tok = '''' then st else revoke_where (\<lambda>r. rr_hash r = hash_refresh_token env tok) st)"

section \<open>Access tokens\<close>

definition blacklisted :: "auth_env \<Rightarrow> auth_state \<Rightarrow> claims \<Rightarrow> bool" where
  "blacklisted env st c \<longleftrightarrow>
     cl_id c \<noteq> '''' \<and> redis_up st \<and> (case jwt_blacklist st (cl_id c) of None \<Rightarrow> False | Some e \<Rightarrow> clock st < e)"

definition validate_token :: "auth_env \<Rightarrow> string \<Rightarrow> auth_state \<Rightarrow> auth_error + claims" where
  "validate_token env tok st =
     (case jwt_parse env tok (clock st) of
        None \<Rightarrow> Inl InvalidToken
      | Some c \<Rightarrow>
          if \<not> has_redis env then Inr c
          else if blacklisted env st c then Inl InvalidToken
          else if cl_tseq c < current_token_seq env st (cl_user c) then Inl InvalidToken
          else Inr c)"

definition blacklist_token :: "auth_env \<Rightarrow> string \<Rightarrow> auth_state \<Rightarrow> auth_state" where
  "blacklist_token env tok st =
     (case validate_token env tok st of
        Inl e \<Rightarrow> st
      | Inr c \<Rightarrow>
          if cl_id c = '''' \<or> \<not> redis_ok env st \<or> cl_exp c - clock st \<le> 0 then st
          else st\<lparr>jwt_blacklist := (jwt_blacklist st)(cl_id c \<mapsto> cl_exp c)\<rparr>)"

section \<open>Lockout\<close>

definition check_lockout :: "string \<Rightarrow> auth_state \<Rightarrow> duration option" where
  "check_lockout key st =
     (case Option.bind (login_attempts st key) at_locked of
        None \<Rightarrow> None
      | Some l \<Rightarrow> if l - clock st \<le> 0 then None else Some (l - clock st))"

definition increment_failed_login :: "string \<Rightarrow> instant \<Rightarrow> auth_state \<Rightarrow> attempt_row \<times> auth_state" where
  "increment_failed_login key window st =
     (let row = (case login_attempts st key of
                   None \<Rightarrow> \<lparr>at_count = 1, at_first = Some (clock st), at_locked = None\<rparr>
                 | Some r \<Rightarrow>
                     if (case at_first r of None \<Rightarrow> True | Some f \<Rightarrow> f < window)
                     then r\<lparr>at_count := 1, at_first := Some (clock st)\<rparr>
                     else r\<lparr>at_count := at_count r + 1\<rparr>)
      in (row, st\<lparr>login_attempts := (login_attempts st)(key \<mapsto> row)\<rparr>))"

definition lock_account :: "string \<Rightarrow> instant \<Rightarrow> auth_state \<Rightarrow> auth_state" where
  "lock_account key l st =
     st\<lparr>login_attempts := (login_attempts st)(key := map_option (\<lambda>r. r\<lparr>at_locked := Some l\<rparr>) (login_attempts st key))\<rparr>"

definition record_failed_login :: "(string \<Rightarrow> bool) \<Rightarrow> string \<Rightarrow> auth_state \<Rightarrow> bool \<times> auth_state" where
  "record_failed_login ans key st =
     (if \<not> ans ''IncrementFailedLogin'' then (False, st)
      else case increment_failed_login key (clock st - lockout_window) st of
        (row, st1) \<Rightarrow>
          if at_count row < lockout_threshold \<or> \<not> ans ''LockAccount'' then (False, st1)
          else (True, lock_account key (clock st1 + lockout_duration) st1))"

definition reset_login_attempts :: "(string \<Rightarrow> bool) \<Rightarrow> string \<Rightarrow> auth_state \<Rightarrow> auth_state" where
  "reset_login_attempts ans key st =
     (if ans ''ResetLoginAttempts'' then st\<lparr>login_attempts := (login_attempts st)(key := None)\<rparr> else st)"

text \<open>What a handler makes of \<open>CheckLockout\<close>: when the query fails the request goes on as if unlocked.\<close>

definition observed_lockout :: "(string \<Rightarrow> bool) \<Rightarrow> string \<Rightarrow> string \<Rightarrow> auth_state \<Rightarrow> duration option" where
  "observed_lockout ans q key st = (if ans q then check_lockout key st else None)"

section \<open>The login challenge\<close>

definition challenge_key :: "auth_env \<Rightarrow> string \<Rightarrow> bytes" where
  "challenge_key env tok = sha256 env tok"

text \<open>A Redis hash as a reader sees it: gone once its expiry has passed.\<close>

definition live_challenge :: "bytes \<Rightarrow> auth_state \<Rightarrow> challenge option" where
  "live_challenge key st =
     (case challenges st key of
        None \<Rightarrow> None
      | Some c \<Rightarrow> if (case ch_expires c of None \<Rightarrow> True | Some e \<Rightarrow> clock st < e) then Some c else None)"

definition del_challenge :: "bytes \<Rightarrow> auth_state \<Rightarrow> auth_state" where
  "del_challenge key st = st\<lparr>challenges := (challenges st)(key := None)\<rparr>"

text \<open>\<open>HINCRBY key attempts 1\<close> creates the hash when it is missing: no user, no expiry.\<close>

definition hincr_attempts :: "bytes \<Rightarrow> auth_state \<Rightarrow> int \<times> auth_state" where
  "hincr_attempts key st =
     (let c = (case live_challenge key st of
                 None \<Rightarrow> \<lparr>ch_user = None, ch_attempts = 1, ch_expires = None\<rparr>
               | Some c \<Rightarrow> c\<lparr>ch_attempts := ch_attempts c + 1\<rparr>)
      in (ch_attempts c, st\<lparr>challenges := (challenges st)(key \<mapsto> c)\<rparr>))"

record login_challenge =
  lc_token :: string
  lc_methods :: "string list"

definition issue_challenge :: "auth_env \<Rightarrow> user_row \<Rightarrow> string \<Rightarrow> auth_state \<Rightarrow> (auth_error + login_challenge) \<times> auth_state" where
  "issue_challenge env u tok st =
     (case env_factor env of
        None \<Rightarrow> (Inl SecondFactorUnavailable, st)
      | Some (meths, ver) \<Rightarrow>
          if \<not> has_redis env then (Inl SecondFactorUnavailable, st)
          else if meths (factor_db st) (snd u) = [] then (Inl SecondFactorUnavailable, st)
          else if \<not> redis_up st then (Inl AuthInternal, st)
          else (Inr \<lparr>lc_token = tok, lc_methods = meths (factor_db st) (snd u)\<rparr>,
                st\<lparr>challenges := (challenges st)(challenge_key env tok \<mapsto>
                     \<lparr>ch_user = Some (row_id u), ch_attempts = 0, ch_expires = Some (clock st + challenge_ttl)\<rparr>)\<rparr>))"

definition challenge_subject :: "auth_env \<Rightarrow> string \<Rightarrow> auth_state \<Rightarrow> user_row option" where
  "challenge_subject env tok st =
     (if \<not> redis_ok env st \<or> tok = '''' then None
      else case Option.bind (live_challenge (challenge_key env tok) st) ch_user of
        None \<Rightarrow> None
      | Some i \<Rightarrow> get_user_by_id i st)"

text \<open>\<open>CompleteLoginChallenge\<close>, in the two steps another request can come between.\<close>

definition challenge_read :: "auth_env \<Rightarrow> string \<Rightarrow> auth_state \<Rightarrow> auth_error + user_row" where
  "challenge_read env tok st =
     (if \<not> has_redis env \<or> env_factor env = None then Inl SecondFactorUnavailable
      else if \<not> redis_up st then Inl InvalidChallenge
      else case Option.bind (live_challenge (challenge_key env tok) st) ch_user of
        None \<Rightarrow> Inl InvalidChallenge
      | Some i \<Rightarrow> (case get_user_by_id i st of None \<Rightarrow> Inl InvalidChallenge | Some u \<Rightarrow> Inr u))"

definition run_verifier ::
    "auth_env \<Rightarrow> user_row \<Rightarrow> string \<Rightarrow> string \<Rightarrow> auth_state \<Rightarrow> (factor_error + unit) \<times> auth_state" where
  "run_verifier env u meth code st =
     (case env_factor env of
        None \<Rightarrow> (Inl FactorInternal, st)
      | Some (meths, ver) \<Rightarrow>
          (case ver (snd u) meth code (clock st) (factor_db st) of (r, f) \<Rightarrow> (r, st\<lparr>factor_db := f\<rparr>)))"

definition challenge_finish ::
    "auth_env \<Rightarrow> (string \<Rightarrow> bool) \<Rightarrow> user_row \<Rightarrow> string \<Rightarrow> string \<Rightarrow> string \<Rightarrow> string \<Rightarrow> string \<Rightarrow> auth_state \<Rightarrow>
     (auth_error + login_result) \<times> auth_state" where
  "challenge_finish env ans u tok meth code plain jti st =
     (if \<not> redis_up st then (Inl AuthInternal, st)
      else case hincr_attempts (challenge_key env tok) st of
        (n, st1) \<Rightarrow>
          if n > challenge_max_attempts then (Inl InvalidChallenge, del_challenge (challenge_key env tok) st1)
          else case run_verifier env u meth code st1 of
            (Inl e, st2) \<Rightarrow>
              (Inl (Factor e), snd (record_failed_login ans (to_lower env (row_email u))
                 (if n \<ge> challenge_max_attempts then del_challenge (challenge_key env tok) st2 else st2)))
          | (Inr _, st2) \<Rightarrow>
              issue_session env u plain jti
                (reset_login_attempts ans (to_lower env (row_email u)) (del_challenge (challenge_key env tok) st2)))"

definition complete_login_challenge ::
    "auth_env \<Rightarrow> (string \<Rightarrow> bool) \<Rightarrow> string \<Rightarrow> string \<Rightarrow> string \<Rightarrow> string \<Rightarrow> string \<Rightarrow> auth_state \<Rightarrow> (auth_error + login_result) \<times> auth_state" where
  "complete_login_challenge env ans tok meth code plain jti st =
     (case challenge_read env tok st of
        Inl e \<Rightarrow> (Inl e, st)
      | Inr u \<Rightarrow> challenge_finish env ans u tok meth code plain jti st)"

section \<open>Login\<close>

datatype login_outcome = Session login_result | Challenge login_challenge

definition login ::
    "auth_env \<Rightarrow> string \<Rightarrow> string \<Rightarrow> string \<Rightarrow> string \<Rightarrow> string \<Rightarrow> auth_state \<Rightarrow> (auth_error + login_outcome) \<times> auth_state" where
  "login env email pw plain jti chal st =
     (case get_user_by_email email st of
        None \<Rightarrow> (Inl InvalidCredentials, st)
      | Some u \<Rightarrow>
          if \<not> pw_ok env (ac_password (fst u)) pw then (Inl InvalidCredentials, st)
          else if has_mfa (snd u) then
            (case issue_challenge env u chal st of
               (Inl e, st') \<Rightarrow> (Inl e, st') | (Inr c, st') \<Rightarrow> (Inr (Challenge c), st'))
          else
            (case issue_session env u plain jti st of
               (Inl e, st') \<Rightarrow> (Inl e, st') | (Inr s, st') \<Rightarrow> (Inr (Session s), st')))"

section \<open>The handlers\<close>

datatype reply = BadRequest | Conflict | LockedOut int | Refused auth_error | Challenged login_challenge | SessionOk login_result | Done

definition to_lower_char :: "char \<Rightarrow> char" where
  "to_lower_char c = (let n = (of_char c :: nat) in if 65 \<le> n \<and> n \<le> 90 then char_of (n + 32) else c)"

definition normalise_email :: "string \<Rightarrow> string" where
  "normalise_email s = map to_lower_char s"

definition retry_after :: "duration \<Rightarrow> int" where
  "retry_after d = (if d < 1 then 1 else d)"

definition handle_login ::
    "auth_env \<Rightarrow> (string \<Rightarrow> bool) \<Rightarrow> string \<Rightarrow> string \<Rightarrow> string \<Rightarrow> string \<Rightarrow> string \<Rightarrow> auth_state \<Rightarrow> reply \<times> auth_state" where
  "handle_login env ans email pw plain jti chal st =
     (if email = '''' \<or> pw = '''' then (BadRequest, st)
      else case observed_lockout ans ''GetLoginAttempt'' (normalise_email email) st of
        Some d \<Rightarrow> (LockedOut (retry_after d), st)
      | None \<Rightarrow>
          (case login env email pw plain jti chal st of
             (Inl InvalidCredentials, st1) \<Rightarrow>
               (let st2 = snd (record_failed_login ans (normalise_email email) st1)
                in case observed_lockout ans ''GetLoginAttempt again'' (normalise_email email) st2 of
                     Some d \<Rightarrow> (LockedOut (retry_after d), st2)
                   | None \<Rightarrow> (Refused InvalidCredentials, st2))
           | (Inl e, st1) \<Rightarrow> (Refused e, st1)
           | (Inr (Challenge c), st1) \<Rightarrow> (Challenged c, st1)
           | (Inr (Session s), st1) \<Rightarrow> (SessionOk s, reset_login_attempts ans (normalise_email email) st1)))"

definition handle_verify_login ::
    "auth_env \<Rightarrow> (string \<Rightarrow> bool) \<Rightarrow> string \<Rightarrow> string \<Rightarrow> string \<Rightarrow> string \<Rightarrow> string \<Rightarrow> auth_state \<Rightarrow> reply \<times> auth_state" where
  "handle_verify_login env ans chal meth code plain jti st =
     (if chal = '''' \<or> trim_space code = '''' then (BadRequest, st)
      else case Option.bind (challenge_subject env chal st) (\<lambda>u. observed_lockout ans ''GetLoginAttempt'' (normalise_email (row_email u)) st) of
        Some d \<Rightarrow> (LockedOut (retry_after d), st)
      | None \<Rightarrow>
          (case complete_login_challenge env ans chal (if meth = '''' then ''totp'' else meth) code plain jti st of
             (Inl e, st1) \<Rightarrow> (Refused e, st1)
           | (Inr s, st1) \<Rightarrow> (SessionOk s, st1)))"

text \<open>Every error of \<open>Refresh\<close> is the same 401.\<close>

definition handle_refresh :: "auth_env \<Rightarrow> string option \<Rightarrow> bool \<Rightarrow> string \<Rightarrow> string \<Rightarrow> auth_state \<Rightarrow> reply \<times> auth_state" where
  "handle_refresh env cookie rev_ok plain jti st =
     (case cookie of
        None \<Rightarrow> (Refused InvalidToken, st)
      | Some tok \<Rightarrow>
          if tok = '''' then (Refused InvalidToken, st)
          else case refresh env tok rev_ok plain jti st of
            (Inl e, st1) \<Rightarrow> (Refused InvalidToken, st1)
          | (Inr s, st1) \<Rightarrow> (SessionOk s, st1))"

definition extract_token_from_request :: "string option \<Rightarrow> string option \<Rightarrow> string" where
  "extract_token_from_request auth cookie =
     (case Option.bind auth (\<lambda>a. if length a > 7 \<and> prefix ''Bearer '' a then Some (drop 7 a) else None) of
        Some t \<Rightarrow> t
      | None \<Rightarrow> (case cookie of Some c \<Rightarrow> c | None \<Rightarrow> ''''))"

definition handle_logout :: "auth_env \<Rightarrow> string option \<Rightarrow> string option \<Rightarrow> string option \<Rightarrow> auth_state \<Rightarrow> reply \<times> auth_state" where
  "handle_logout env refresh_cookie auth cookie st =
     (let st1 = (case refresh_cookie of None \<Rightarrow> st | Some r \<Rightarrow> revoke_refresh_token env r st);
          tok = extract_token_from_request auth cookie
      in (Done, if tok = '''' then st1 else blacklist_token env tok st1))"

definition set_password :: "uuid \<Rightarrow> string \<Rightarrow> auth_state \<Rightarrow> auth_state" where
  "set_password i h st =
     st\<lparr>accounts := map (\<lambda>(j, a). (j, if j = i then a\<lparr>ac_password := h\<rparr> else a)) (accounts st)\<rparr>"

definition handle_change_password ::
    "auth_env \<Rightarrow> uuid \<Rightarrow> string \<Rightarrow> string \<Rightarrow> string \<Rightarrow> auth_state \<Rightarrow> reply \<times> auth_state" where
  "handle_change_password env i current new newhash st =
     (if current = '''' \<or> new = '''' \<or> length new < 8 then (BadRequest, st)
      else case get_user_by_id i st of
        None \<Rightarrow> (Refused AuthInternal, st)
      | Some u \<Rightarrow>
          if \<not> pw_ok env (ac_password (fst u)) current then (Refused InvalidCredentials, st)
          else (Done, revoke_user_sessions env i (set_password i newhash st)))"

text \<open>
  A factor was turned on or off: every session of the user ends and this request gets a new one. The
  user of the request is the one the middleware signed in; a failing issue leaves it signed out. The
  recovery codes the first reply also carries are left out of it.
\<close>

definition rotate_session :: "auth_env \<Rightarrow> user_row \<Rightarrow> string \<Rightarrow> string \<Rightarrow> auth_state \<Rightarrow> reply \<times> auth_state" where
  "rotate_session env u plain jti st =
     (case issue_session env u plain jti (revoke_user_sessions env (row_id u) st) of
        (Inl e, st') \<Rightarrow> (Done, st')
      | (Inr s, st') \<Rightarrow> (SessionOk s, st'))"

definition handle_verify_enrollment ::
    "auth_env \<Rightarrow> uuid \<Rightarrow> string \<Rightarrow> bytes \<Rightarrow> string \<Rightarrow> string \<Rightarrow> auth_state \<Rightarrow> reply \<times> auth_state" where
  "handle_verify_enrollment env i code rnd plain jti st =
     (if trim_space code = '''' then (BadRequest, st)
      else case get_user_by_id i st of
        None \<Rightarrow> (Refused InvalidToken, st)
      | Some u \<Rightarrow>
          if has_mfa (snd u) then (Conflict, st)
          else case env_confirm env (snd u) code (clock st) rnd (factor_db st) of
            (Inl e, f) \<Rightarrow> (Refused (Factor e), st\<lparr>factor_db := f\<rparr>)
          | (Inr codes, f) \<Rightarrow> rotate_session env u plain jti (st\<lparr>factor_db := f\<rparr>))"

definition handle_disable_totp ::
    "auth_env \<Rightarrow> uuid \<Rightarrow> string \<Rightarrow> string \<Rightarrow> string \<Rightarrow> string \<Rightarrow> string \<Rightarrow> auth_state \<Rightarrow> reply \<times> auth_state" where
  "handle_disable_totp env i pw meth code plain jti st =
     (case get_user_by_id i st of
        None \<Rightarrow> (Refused InvalidToken, st)
      | Some u \<Rightarrow>
          if \<not> has_mfa (snd u) then (Conflict, st)
          else if \<not> pw_ok env (ac_password (fst u)) pw then (Refused InvalidCredentials, st)
          else case env_verify env (snd u) (if meth = '''' then ''totp'' else meth) code (clock st) (factor_db st) of
            (Inl e, f) \<Rightarrow> (Refused (Factor e), st\<lparr>factor_db := f\<rparr>)
          | (Inr _, f) \<Rightarrow> rotate_session env u plain jti (st\<lparr>factor_db := disable i f\<rparr>))"

text \<open>The new user, under the id the database gives it; its address may be taken.\<close>

definition register :: "uuid \<Rightarrow> string \<Rightarrow> string \<Rightarrow> string \<Rightarrow> auth_state \<Rightarrow> (reply + user_row) \<times> auth_state" where
  "register i email role h st =
     (if get_user_by_email email st \<noteq> None then (Inl Conflict, st)
      else if i \<in> fst ` set (accounts st) \<or> email \<in> (\<lambda>(_, a). ac_email a) ` set (accounts st) then (Inl (Refused AuthInternal), st)
      else let a = \<lparr>ac_email = email, ac_role = role, ac_password = h\<rparr>;
               t = \<lparr>totp_id = i, totp_secret = [], totp_enabled = False, totp_last_step = None\<rparr>
        in (Inr (a, t), st\<lparr>accounts := accounts st @ [(i, a)],
              factor_db := (factor_db st)\<lparr>totp_users := (totp_users (factor_db st))(i \<mapsto> t)\<rparr>\<rparr>))"

definition get_invitation_by_hash :: "bytes \<Rightarrow> auth_state \<Rightarrow> invitation option" where
  "get_invitation_by_hash h st = find (\<lambda>v. iv_hash v = h) (invitations st)"

definition mark_invitation_accepted :: "bytes \<Rightarrow> auth_state \<Rightarrow> auth_state" where
  "mark_invitation_accepted h st =
     st\<lparr>invitations := map (\<lambda>v. if iv_hash v = h then v\<lparr>iv_accepted := True\<rparr> else v) (invitations st)\<rparr>"

definition handle_accept_invitation ::
    "auth_env \<Rightarrow> string \<Rightarrow> string \<Rightarrow> uuid \<Rightarrow> string \<Rightarrow> string \<Rightarrow> string \<Rightarrow> auth_state \<Rightarrow> reply \<times> auth_state" where
  "handle_accept_invitation env tok pw i newhash plain jti st =
     (if tok = '''' \<or> pw = '''' \<or> length pw < 8 then (BadRequest, st)
      else case get_invitation_by_hash (sha256 env tok) st of
        None \<Rightarrow> (BadRequest, st)
      | Some v \<Rightarrow>
          if iv_accepted v \<or> (case iv_expires v of None \<Rightarrow> True | Some e \<Rightarrow> e < clock st) then (BadRequest, st)
          else case register i (iv_email v) (iv_role v) newhash st of
            (Inl r, st1) \<Rightarrow> (r, st1)
          | (Inr u, st1) \<Rightarrow>
              (case issue_session env u plain jti (mark_invitation_accepted (sha256 env tok) st1) of
                 (Inl e, st2) \<Rightarrow> (Refused AuthInternal, st2)
               | (Inr s, st2) \<Rightarrow> (SessionOk s, st2)))"

text \<open>The HTTP status of a reply (\<open>writeSecondFactorError\<close> and the handlers' own codes).\<close>

fun status_of :: "reply \<Rightarrow> nat" where
  "status_of BadRequest = 400"
| "status_of Conflict = 409"
| "status_of (LockedOut n) = 429"
| "status_of (Refused (Factor UnsupportedMethod)) = 400"
| "status_of (Refused (Factor TOTPNotEnrolled)) = 409"
| "status_of (Refused (Factor FactorInternal)) = 500"
| "status_of (Refused SecondFactorUnavailable) = 503"
| "status_of (Refused AuthInternal) = 500"
| "status_of (Refused e) = 401"
| "status_of r = 200"

section \<open>Runs\<close>

datatype auth_event =
    EvLogin "string \<Rightarrow> bool" string string string string string
  | EvVerify "string \<Rightarrow> bool" string string string string string
  | EvRefresh "string option" bool string string
  | EvLogout "string option" "string option" "string option"
  | EvPassword uuid string string string
  | EvRevoke uuid
  | EvWait nat
  | EvEnrolled uuid string bytes string string
  | EvDisable uuid string string string string string
  | EvAccept string string uuid string string string

fun auth_step :: "auth_env \<Rightarrow> auth_state \<Rightarrow> auth_event \<Rightarrow> reply \<times> auth_state" where
  "auth_step env st (EvLogin ans email pw plain jti chal) = handle_login env ans email pw plain jti chal st"
| "auth_step env st (EvVerify ans chal meth code plain jti) = handle_verify_login env ans chal meth code plain jti st"
| "auth_step env st (EvRefresh cookie rev_ok plain jti) = handle_refresh env cookie rev_ok plain jti st"
| "auth_step env st (EvLogout r auth cookie) = handle_logout env r auth cookie st"
| "auth_step env st (EvPassword i current new newhash) = handle_change_password env i current new newhash st"
| "auth_step env st (EvRevoke i) = (Done, revoke_user_sessions env i st)"
| "auth_step env st (EvWait n) = (Done, st\<lparr>clock := clock st + int n\<rparr>)"
| "auth_step env st (EvEnrolled i code rnd plain jti) = handle_verify_enrollment env i code rnd plain jti st"
| "auth_step env st (EvDisable i pw meth code plain jti) = handle_disable_totp env i pw meth code plain jti st"
| "auth_step env st (EvAccept tok pw i newhash plain jti) = handle_accept_invitation env tok pw i newhash plain jti st"

abbreviation auth_next :: "auth_env \<Rightarrow> auth_state \<Rightarrow> auth_event \<Rightarrow> auth_state" where
  "auth_next env st e \<equiv> snd (auth_step env st e)"

section \<open>What an operation leaves alone\<close>

text \<open>The clock, the reach of Redis and the token sequences; only a revocation touches the last.\<close>

definition same_base :: "auth_state \<Rightarrow> auth_state \<Rightarrow> bool" where
  "same_base st st' \<longleftrightarrow> clock st' = clock st \<and> redis_up st' = redis_up st \<and> token_seq st' = token_seq st"

lemma same_base_refl [simp]: "same_base st st"
  by (simp add: same_base_def)

lemma same_base_trans: "same_base a b \<Longrightarrow> same_base b c \<Longrightarrow> same_base a c"
  by (simp add: same_base_def)

lemma base_record_failed [simp]: "same_base a (snd (record_failed_login ans k st)) \<longleftrightarrow> same_base a st"
  by (simp add: same_base_def record_failed_login_def increment_failed_login_def lock_account_def Let_def split: prod.splits)

lemma base_reset [simp]: "same_base a (reset_login_attempts ans k st) \<longleftrightarrow> same_base a st"
  by (simp add: same_base_def reset_login_attempts_def)

lemma base_del [simp]: "same_base a (del_challenge k st) \<longleftrightarrow> same_base a st"
  by (simp add: same_base_def del_challenge_def)

lemma base_revoke_where [simp]: "same_base a (revoke_where p st) \<longleftrightarrow> same_base a st"
  by (simp add: same_base_def revoke_where_def)

lemma base_set_password [simp]: "same_base a (set_password i h st) \<longleftrightarrow> same_base a st"
  by (simp add: same_base_def set_password_def)

lemma base_issue_session [simp]: "same_base a (snd (issue_session env u plain jti st)) \<longleftrightarrow> same_base a st"
  by (simp add: same_base_def issue_session_def create_refresh_token_def Let_def)

lemma base_issue_challenge [simp]: "same_base a (snd (issue_challenge env u tok st)) \<longleftrightarrow> same_base a st"
  by (simp add: same_base_def issue_challenge_def split: option.splits)

lemma base_run_verifier [simp]: "same_base a (snd (run_verifier env u m c st)) \<longleftrightarrow> same_base a st"
  by (simp add: same_base_def run_verifier_def split: option.splits prod.splits)

lemma base_hincr [simp]: "same_base a (snd (hincr_attempts k st)) \<longleftrightarrow> same_base a st"
  by (simp add: same_base_def hincr_attempts_def Let_def)

lemma base_blacklist [simp]: "same_base a (blacklist_token env tok st) \<longleftrightarrow> same_base a st"
  by (simp add: same_base_def blacklist_token_def split: sum.splits)

lemma base_revoke_refresh [simp]: "same_base a (revoke_refresh_token env tok st) \<longleftrightarrow> same_base a st"
  by (simp add: revoke_refresh_token_def)

lemma base_refresh [simp]: "same_base a (snd (refresh env tok ok plain jti st)) \<longleftrightarrow> same_base a st"
  by (auto simp: refresh_def refresh_finish_def Let_def split: sum.splits option.splits)

text \<open>
  The outcomes of the last step of a challenge: too many attempts, a refused factor, a session.
\<close>

lemma challenge_finish_cases:
  assumes "redis_up st" and h: "hincr_attempts (challenge_key env tok) st = (n, st1)"
    and v: "run_verifier env u meth code st1 = (r, st2)"
  shows "challenge_finish env ans u tok meth code plain jti st =
    (if n > challenge_max_attempts then (Inl InvalidChallenge, del_challenge (challenge_key env tok) st1)
     else case r of
       Inl e \<Rightarrow> (Inl (Factor e), snd (record_failed_login ans (to_lower env (row_email u))
                 (if n \<ge> challenge_max_attempts then del_challenge (challenge_key env tok) st2 else st2)))
     | Inr _ \<Rightarrow> issue_session env u plain jti
                (reset_login_attempts ans (to_lower env (row_email u)) (del_challenge (challenge_key env tok) st2)))"
  using assms by (auto simp: challenge_finish_def split: sum.splits)

lemma base_challenge_finish [simp]:
  "same_base a (snd (challenge_finish env ans u tok meth code plain jti st)) \<longleftrightarrow> same_base a st"
proof (cases "redis_up st")
  case True
  obtain n st1 where h: "hincr_attempts (challenge_key env tok) st = (n, st1)"
    by (cases "hincr_attempts (challenge_key env tok) st")
  obtain r st2 where v: "run_verifier env u meth code st1 = (r, st2)" by (cases "run_verifier env u meth code st1")
  have "same_base a st1 \<longleftrightarrow> same_base a st" using base_hincr [of a "challenge_key env tok" st] h by simp
  moreover have "same_base a st2 \<longleftrightarrow> same_base a st1" using base_run_verifier [of a env u meth code st1] v by simp
  ultimately show ?thesis by (simp add: challenge_finish_cases [OF True h v] split: sum.splits)
qed (simp add: challenge_finish_def)

lemma base_complete [simp]:
  "same_base a (snd (complete_login_challenge env ans tok meth code plain jti st)) \<longleftrightarrow> same_base a st"
  by (simp add: complete_login_challenge_def split: sum.splits)

lemma snd_lift: "snd (case p of (Inl e, st') \<Rightarrow> (Inl e, st') | (Inr c, st') \<Rightarrow> (Inr (f c), st')) = snd p"
  by (simp split: prod.splits sum.splits)

lemma base_login [simp]: "same_base a (snd (login env email pw plain jti chal st)) \<longleftrightarrow> same_base a st"
  by (simp add: login_def snd_lift split: option.splits)

lemma base_handle_login [simp]: "same_base st (snd (handle_login env ans email pw plain jti chal st))"
proof -
  obtain r st1 where l: "login env email pw plain jti chal st = (r, st1)" by (cases "login env email pw plain jti chal st")
  then have "same_base st st1" using base_login [of st env email pw plain jti chal st] by simp
  then show ?thesis
    by (auto simp: handle_login_def Let_def l split: option.splits sum.splits auth_error.splits login_outcome.splits)
qed

lemma base_handle_verify [simp]: "same_base st (snd (handle_verify_login env ans chal meth code plain jti st))"
proof -
  define m where "m = (if meth = '''' then ''totp'' else meth)"
  obtain r st1 where c: "complete_login_challenge env ans chal m code plain jti st = (r, st1)"
    by fastforce
  then have "same_base st st1" using base_complete [of st env ans chal m code plain jti st] by simp
  then show ?thesis unfolding handle_verify_login_def m_def [symmetric] by (auto simp: c split: option.splits sum.splits)
qed

lemma base_handle_refresh [simp]: "same_base st (snd (handle_refresh env cookie ok plain jti st))"
proof (cases cookie)
  case (Some tok)
  obtain r st1 where c: "refresh env tok ok plain jti st = (r, st1)" by fastforce
  then have "same_base st st1" using base_refresh [of st env tok ok plain jti st] by simp
  with Some show ?thesis by (auto simp: handle_refresh_def c split: sum.splits)
qed (simp add: handle_refresh_def)

text \<open>
  What a request does in terms of the state's parts. Turning a factor on or off is a change of the factors, a
  revocation and an issue; accepting an invitation is a registration and an issue.
\<close>

lemma snd_rotate: "snd (rotate_session env u plain jti st) = snd (issue_session env u plain jti (revoke_user_sessions env (row_id u) st))"
  by (simp add: rotate_session_def split: prod.splits sum.splits)

lemma enrolled_cases:
  "snd (handle_verify_enrollment env i code rnd plain jti st) = st \<or>
   (\<exists>f. snd (handle_verify_enrollment env i code rnd plain jti st) = st\<lparr>factor_db := f\<rparr>) \<or>
   (\<exists>f u. snd (handle_verify_enrollment env i code rnd plain jti st) =
      snd (issue_session env u plain jti (revoke_user_sessions env (row_id u) (st\<lparr>factor_db := f\<rparr>))))"
  by (simp add: handle_verify_enrollment_def snd_rotate split: option.split prod.split sum.split) blast

lemma disable_cases:
  "snd (handle_disable_totp env i pw meth code plain jti st) = st \<or>
   (\<exists>f. snd (handle_disable_totp env i pw meth code plain jti st) = st\<lparr>factor_db := f\<rparr>) \<or>
   (\<exists>f u. snd (handle_disable_totp env i pw meth code plain jti st) =
      snd (issue_session env u plain jti (revoke_user_sessions env (row_id u) (st\<lparr>factor_db := f\<rparr>))))"
  by (simp add: handle_disable_totp_def snd_rotate split: option.split prod.split sum.split) blast

lemma snd_accept: "snd (case p of (Inl e, st') \<Rightarrow> (Refused AuthInternal, st') | (Inr s, st') \<Rightarrow> (SessionOk s, st')) = snd p"
  by (simp split: prod.splits sum.splits)

lemma registered:
  "register i email role h st = (Inr u, st1) \<Longrightarrow> ac_email (fst u) = email \<and> row_id u = i \<and>
     st1 = st\<lparr>accounts := accounts st @ [(i, fst u)],
       factor_db := (factor_db st)\<lparr>totp_users := (totp_users (factor_db st))(i \<mapsto> snd u)\<rparr>\<rparr>"
  by (auto simp: register_def Let_def split: if_splits)

lemma accept_cases:
  obtains "snd (handle_accept_invitation env tok pw i newhash plain jti st) = st"
  | v a f u where "get_invitation_by_hash (sha256 env tok) st = Some v" "ac_email a = iv_email v"
      "snd (handle_accept_invitation env tok pw i newhash plain jti st) =
         snd (issue_session env u plain jti (mark_invitation_accepted (sha256 env tok) (st\<lparr>accounts := accounts st @ [(i, a)], factor_db := f\<rparr>)))"
proof (cases "get_invitation_by_hash (sha256 env tok) st")
  case None
  then show ?thesis using that(1) by (simp add: handle_accept_invitation_def)
next
  case (Some v)
  obtain r st1 where r: "register i (iv_email v) (iv_role v) newhash st = (r, st1)" by fastforce
  show ?thesis
  proof (cases r)
    case (Inl x)
    then have "st1 = st" using r by (auto simp: register_def Let_def split: if_splits)
    then show ?thesis using that(1) by (simp add: handle_accept_invitation_def Some r Inl)
  next
    case (Inr u)
    then obtain a f where "ac_email a = iv_email v" "st1 = st\<lparr>accounts := accounts st @ [(i, a)], factor_db := f\<rparr>"
      using registered [of i "iv_email v" "iv_role v" newhash st u st1] r by blast
    then show ?thesis using that Some
      by (cases "snd (handle_accept_invitation env tok pw i newhash plain jti st) = st")
        (auto simp: handle_accept_invitation_def r Inr snd_accept split: if_splits)
  qed
qed

lemma base_factor [simp]: "same_base a (st\<lparr>factor_db := f\<rparr>) \<longleftrightarrow> same_base a st"
  by (simp add: same_base_def)

lemma base_accept [simp]: "same_base st (snd (handle_accept_invitation env tok pw i newhash plain jti st))"
proof (cases rule: accept_cases [of env tok pw i newhash plain jti st])
  case (2 v a f u)
  then show ?thesis by (simp add: mark_invitation_accepted_def) (simp add: same_base_def)
qed simp

text \<open>The requests that revoke sessions or let time pass; the others keep the clock and the sequences.\<close>

fun moves :: "auth_event \<Rightarrow> bool" where
  "moves (EvRevoke i) = True"
| "moves (EvPassword i c n h) = True"
| "moves (EvWait n) = True"
| "moves (EvEnrolled i code rnd plain jti) = True"
| "moves (EvDisable i pw meth code plain jti) = True"
| "moves e = False"

lemma base_auth_step: "\<not> moves e \<Longrightarrow> same_base st (auth_next env st e)"
  by (cases e) (auto simp: handle_logout_def Let_def split: option.splits)

section \<open>Revoked access tokens\<close>

text \<open>
  The state in which a token can never be accepted again: the sequence key outlives it and
  stands above its sequence number.
\<close>

definition outlived :: "auth_env \<Rightarrow> claims \<Rightarrow> auth_state \<Rightarrow> bool" where
  "outlived env c st \<longleftrightarrow>
     redis_ok env st \<and> 0 \<le> access_expiry env \<and> cl_exp c \<le> clock st + access_expiry env \<and>
     (cl_exp c \<le> clock st \<or>
      (\<exists>n e. token_seq st (cl_user c) = Some (n, e) \<and> cl_tseq c < n \<and> cl_exp c \<le> e))"

lemma outlived_same_base: "same_base st st' \<Longrightarrow> outlived env c st \<Longrightarrow> outlived env c st'"
  by (simp add: same_base_def outlived_def redis_ok_def)

lemma outlived_revoke: "outlived env c st \<Longrightarrow> outlived env c (revoke_user_sessions env i st)"
  by (auto simp: outlived_def revoke_user_sessions_def Let_def redis_ok_def revoke_where_def current_token_seq_def
      split: if_splits)

lemma outlived_wait: "outlived env c st \<Longrightarrow> outlived env c (st\<lparr>clock := clock st + int n\<rparr>)"
  by (auto simp: outlived_def redis_ok_def)

lemma outlived_rotated:
  assumes "outlived env c st"
  shows "outlived env c (snd (issue_session env u plain jti (revoke_user_sessions env j (st\<lparr>factor_db := f\<rparr>))))"
    "outlived env c (st\<lparr>factor_db := f\<rparr>)"
proof -
  show f: "outlived env c (st\<lparr>factor_db := f\<rparr>)" by (rule outlived_same_base [OF _ assms]) simp
  show "outlived env c (snd (issue_session env u plain jti (revoke_user_sessions env j (st\<lparr>factor_db := f\<rparr>))))"
    by (rule outlived_same_base [OF _ outlived_revoke [OF f, where i = j]]) simp
qed

lemma outlived_step:
  assumes *: "outlived env c st"
  shows "outlived env c (auth_next env st e)"
proof (cases "moves e")
  case False
  then show ?thesis by (rule outlived_same_base [OF base_auth_step *])
next
  case True
  then show ?thesis
  proof (cases e)
    case (EvPassword i cur new h)
    have "outlived env c (set_password i h st)" by (rule outlived_same_base [OF _ *]) simp
    with * EvPassword show ?thesis by (auto simp: handle_change_password_def outlived_revoke split: option.splits)
  next
    case (EvEnrolled i code rnd plain jti)
    with enrolled_cases [of env i code rnd plain jti st] outlived_rotated [OF *] * show ?thesis by (elim disjE exE) simp_all
  next
    case (EvDisable i pw meth code plain jti)
    with disable_cases [of env i pw meth code plain jti st] outlived_rotated [OF *] * show ?thesis by (elim disjE exE) simp_all
  qed (simp_all add: outlived_revoke outlived_wait *)
qed

lemma outlived_refused:
  assumes "jwt_ok env" "outlived env c st"
  shows "validate_token env (jwt_sign env c) st = Inl InvalidToken"
proof (cases "clock st < cl_exp c")
  case True
  with assms show ?thesis
    by (auto simp: outlived_def jwt_ok_def validate_token_def current_token_seq_def redis_ok_def)
qed (use assms in \<open>simp add: jwt_ok_def validate_token_def\<close>)

interpretation outlived: machine "auth_next env" "outlived env c"
  by unfold_locales (rule outlived_step)

text \<open>
  C25: revocation is final while Redis answers. On a server with a Redis that is up, an access lifetime
  that is not negative and a JWT library as in \<open>jwt_ok\<close>, once a user's
  sessions are revoked, every access token issued to that user before, with a sequence number the counter
  had reached and no more than an access lifetime to run, is refused in every later state, whatever
  requests of this theory come in and however long one waits. (The reach of Redis does not change in these
  runs; without it \<open>ValidateToken\<close> fails open.)
\<close>
theorem revocation_is_final:
  assumes "jwt_ok env" "redis_ok env st" "0 \<le> access_expiry env"
    and "cl_tseq c \<le> current_token_seq env st (cl_user c)" "cl_exp c \<le> clock st + access_expiry env"
  shows "validate_token env (jwt_sign env c) (foldl (auth_next env) (revoke_user_sessions env (cl_user c) st) es)
    = Inl InvalidToken"
proof -
  have "outlived env c (revoke_user_sessions env (cl_user c) st)"
    using assms by (auto simp: outlived_def revoke_user_sessions_def Let_def redis_ok_def revoke_where_def
        current_token_seq_def split: option.splits)
  from outlived_refused [OF assms(1) outlived.run_inv [OF this]] show ?thesis .
qed

section \<open>The revocation that misses\<close>

text \<open>
  the sequence key lives for one access lifetime after a revocation, and a token issued while
  it lives carries its value. If the key has expired while such a token has not, the next
  revocation counts from zero again and leaves the token valid.
\<close>
theorem revocation_misses_token:
  assumes "jwt_ok env" "redis_ok env st"
    and "token_seq st (cl_user c) = Some (n, e)" "e \<le> clock st" "1 \<le> cl_tseq c" "clock st < cl_exp c"
    and "\<not> blacklisted env st c"
  shows "validate_token env (jwt_sign env c) (revoke_user_sessions env (cl_user c) st) = Inr c"
  using assms
  by (auto simp add: validate_token_def jwt_ok_def revoke_user_sessions_def Let_def redis_ok_def revoke_where_def
      current_token_seq_def blacklisted_def split: option.splits)

section \<open>Rotation of refresh tokens\<close>

lemma keeps_refresh_tokens [simp]:
  "refresh_tokens (snd (record_failed_login ans k st)) = refresh_tokens st"
  "refresh_tokens (reset_login_attempts ans k st) = refresh_tokens st"
  "refresh_tokens (del_challenge key st) = refresh_tokens st"
  "refresh_tokens (set_password i h st) = refresh_tokens st"
  "refresh_tokens (snd (issue_challenge env u tok st)) = refresh_tokens st"
  "refresh_tokens (snd (run_verifier env u m c st)) = refresh_tokens st"
  "refresh_tokens (snd (hincr_attempts key st)) = refresh_tokens st"
  "refresh_tokens (blacklist_token env tok st) = refresh_tokens st"
  "refresh_tokens (mark_invitation_accepted hv st) = refresh_tokens st"
  by (simp_all add: record_failed_login_def increment_failed_login_def lock_account_def reset_login_attempts_def
      del_challenge_def set_password_def issue_challenge_def run_verifier_def hincr_attempts_def blacklist_token_def Let_def
      mark_invitation_accepted_def split: prod.splits option.splits sum.splits)

text \<open>The table holds the hash, and only in revoked rows: no session can come from the token any more.\<close>

definition spent_refresh :: "bytes \<Rightarrow> auth_state \<Rightarrow> bool" where
  "spent_refresh h st \<longleftrightarrow>
     (\<exists>r \<in> set (refresh_tokens st). rr_hash r = h) \<and> (\<forall>r \<in> set (refresh_tokens st). rr_hash r = h \<longrightarrow> rr_revoked r)"

lemma spent_cong: "refresh_tokens st' = refresh_tokens st \<Longrightarrow> spent_refresh h st' = spent_refresh h st"
  by (simp add: spent_refresh_def)

lemma spent_revoke_where: "spent_refresh h st \<Longrightarrow> spent_refresh h (revoke_where p st)"
  by (auto simp: spent_refresh_def revoke_where_def simp del: if_image_distrib split: if_splits)

lemma spent_issue_session: "spent_refresh h st \<Longrightarrow> spent_refresh h (snd (issue_session env u plain jti st))"
  by (auto simp: spent_refresh_def issue_session_def create_refresh_token_def Let_def list_ex_iff)

lemma spent_refresh_op: "spent_refresh h st \<Longrightarrow> spent_refresh h (snd (refresh env tok ok plain jti st))"
  by (auto simp: refresh_def refresh_finish_def Let_def spent_issue_session spent_revoke_where split: sum.splits option.splits)

lemma spent_revoke_user: "spent_refresh h st \<Longrightarrow> spent_refresh h (revoke_user_sessions env i st)"
  using spent_revoke_where [of h st "\<lambda>r. rr_user r = i"] by (simp add: revoke_user_sessions_def Let_def spent_refresh_def)

lemma spent_challenge_finish:
  assumes "spent_refresh h st"
  shows "spent_refresh h (snd (challenge_finish env ans u tok meth code plain jti st))"
proof (cases "redis_up st")
  case True
  obtain n st1 where hi: "hincr_attempts (challenge_key env tok) st = (n, st1)"
    by (cases "hincr_attempts (challenge_key env tok) st")
  obtain r st2 where v: "run_verifier env u meth code st1 = (r, st2)" by (cases "run_verifier env u meth code st1")
  have "refresh_tokens st1 = refresh_tokens st" "refresh_tokens st2 = refresh_tokens st1"
    using keeps_refresh_tokens(7) [of "challenge_key env tok" st] keeps_refresh_tokens(6) [of env u meth code st1] hi v
    by simp_all
  with assms show ?thesis
    by (auto simp: challenge_finish_cases [OF True hi v] spent_refresh_def intro!: spent_issue_session [unfolded spent_refresh_def]
        split: sum.splits)
qed (simp add: challenge_finish_def assms)

lemma spent_complete:
  "spent_refresh h st \<Longrightarrow> spent_refresh h (snd (complete_login_challenge env ans tok meth code plain jti st))"
  by (simp add: complete_login_challenge_def spent_challenge_finish split: sum.splits)

lemma spent_login: "spent_refresh h st \<Longrightarrow> spent_refresh h (snd (login env email pw plain jti chal st))"
  by (auto simp: login_def snd_lift spent_issue_session spent_refresh_def [of h "snd (issue_challenge _ _ _ _)"]
      split: option.splits) (auto simp: spent_refresh_def)

text \<open>A handler adds nothing to what the service did to the table.\<close>

lemma handle_login_table: "refresh_tokens (snd (handle_login env ans email pw plain jti chal st)) \<in>
    {refresh_tokens st, refresh_tokens (snd (login env email pw plain jti chal st))}"
proof -
  obtain r st1 where l: "login env email pw plain jti chal st = (r, st1)" by (cases "login env email pw plain jti chal st")
  then show ?thesis
    by (auto simp: handle_login_def Let_def split: option.splits sum.splits auth_error.splits login_outcome.splits)
qed

lemma handle_verify_table: "refresh_tokens (snd (handle_verify_login env ans chal meth code plain jti st)) \<in>
    {refresh_tokens st, refresh_tokens (snd (complete_login_challenge env ans chal (if meth = '''' then ''totp'' else meth) code plain jti st))}"
proof -
  define m where "m = (if meth = '''' then ''totp'' else meth)"
  obtain r st1 where c: "complete_login_challenge env ans chal m code plain jti st = (r, st1)" by fastforce
  show ?thesis unfolding handle_verify_login_def m_def [symmetric] by (auto simp: c split: option.splits sum.splits)
qed

lemma spent_handle_login: "spent_refresh h st \<Longrightarrow> spent_refresh h (snd (handle_login env ans email pw plain jti chal st))"
  using handle_login_table [of env ans email pw plain jti chal st] spent_login [of h st env email pw plain jti chal]
  by (auto simp: spent_refresh_def)

lemma spent_handle_verify: "spent_refresh h st \<Longrightarrow> spent_refresh h (snd (handle_verify_login env ans chal meth code plain jti st))"
  using handle_verify_table [of env ans chal meth code plain jti st]
    spent_complete [of h st env ans chal "if meth = '''' then ''totp'' else meth" code plain jti]
  unfolding spent_refresh_def by (metis insert_iff singletonD)

lemma spent_handle_refresh: "spent_refresh h st \<Longrightarrow> spent_refresh h (snd (handle_refresh env cookie ok plain jti st))"
proof (cases cookie)
  case (Some tok)
  assume *: "spent_refresh h st"
  obtain r st1 where c: "refresh env tok ok plain jti st = (r, st1)" by fastforce
  with spent_refresh_op [OF *, of env tok ok plain jti] have "spent_refresh h st1" by simp
  with Some * show ?thesis by (auto simp: handle_refresh_def c split: sum.splits)
qed (simp add: handle_refresh_def)

lemma spent_rotated:
  assumes "spent_refresh h st"
  shows "spent_refresh h (snd (issue_session env u plain jti (revoke_user_sessions env j (st\<lparr>factor_db := f\<rparr>))))"
    "spent_refresh h (st\<lparr>factor_db := f\<rparr>)"
proof -
  show f: "spent_refresh h (st\<lparr>factor_db := f\<rparr>)" using assms by (simp add: spent_refresh_def)
  show "spent_refresh h (snd (issue_session env u plain jti (revoke_user_sessions env j (st\<lparr>factor_db := f\<rparr>))))"
    by (rule spent_issue_session [OF spent_revoke_user [OF f]])
qed

lemma spent_accept:
  assumes "spent_refresh h st"
  shows "spent_refresh h (snd (handle_accept_invitation env tok pw i newhash plain jti st))"
proof (cases rule: accept_cases [of env tok pw i newhash plain jti st])
  case (2 v a f u)
  have "spent_refresh h (mark_invitation_accepted (sha256 env tok) (st\<lparr>accounts := accounts st @ [(i, a)], factor_db := f\<rparr>))"
    using assms by (simp add: spent_refresh_def)
  from spent_issue_session [OF this] show ?thesis by (simp only: 2(3))
qed (use assms in simp)

lemma spent_frames [simp]:
  "spent_refresh h (blacklist_token env tok st) = spent_refresh h st"
  "spent_refresh h (set_password i p st) = spent_refresh h st"
  "spent_refresh h (st\<lparr>clock := t\<rparr>) = spent_refresh h st"
  by (simp_all add: spent_refresh_def)

lemma spent_step:
  assumes "spent_refresh h st"
  shows "spent_refresh h (auth_next env st e)"
proof (cases e)
  case (EvLogout r auth cookie)
  have "spent_refresh h (case r of None \<Rightarrow> st | Some r \<Rightarrow> revoke_refresh_token env r st)"
    using assms by (simp add: revoke_refresh_token_def spent_revoke_where split: option.splits)
  with EvLogout show ?thesis by (simp add: handle_logout_def Let_def)
next
  case (EvPassword i c n h')
  with assms show ?thesis by (simp add: handle_change_password_def spent_revoke_user split: option.splits)
next
  case (EvEnrolled i code rnd plain jti)
  with enrolled_cases [of env i code rnd plain jti st] spent_rotated [OF assms] assms show ?thesis by (elim disjE exE) simp_all
next
  case (EvDisable i pw meth code plain jti)
  with disable_cases [of env i pw meth code plain jti st] spent_rotated [OF assms] assms show ?thesis by (elim disjE exE) simp_all
qed (use assms in \<open>simp_all add: spent_revoke_user spent_handle_login spent_handle_verify spent_handle_refresh spent_accept\<close>)

interpretation spent: machine "auth_next env" "spent_refresh h"
  by unfold_locales (rule spent_step)

lemma find_Some_in: "find P xs = Some x \<Longrightarrow> x \<in> set xs \<and> P x"
  by (induction xs) (auto split: if_splits)

lemma spent_lookup: "spent_refresh (hash_refresh_token env tok) st \<Longrightarrow> refresh_lookup env tok st = Inl InvalidToken"
  by (auto simp: spent_refresh_def refresh_lookup_def get_active_refresh_token_def split: option.splits
      dest!: find_Some_in)

text \<open>
  C27: rotation is single use when the revocation is written. After a refresh token has bought a session
  and the update that revokes its row succeeded (the code only warns when it fails), and token hashes are
  unique in the table, the token buys nothing in any later state, whatever requests come in between.
\<close>
theorem refresh_token_single_use:
  assumes "refresh env tok True plain jti st = (Inr s, st')" "distinct (map rr_hash (refresh_tokens st))"
  shows "fst (handle_refresh env (Some tok) ok' plain' jti' (foldl (auth_next env) st' es)) = Refused InvalidToken"
proof -
  obtain row where row: "row \<in> set (refresh_tokens st)" "rr_hash row = hash_refresh_token env tok"
    and fin: "refresh_finish env row True plain jti st = (Inr s, st')"
    using assms(1)
    by (auto simp: refresh_def refresh_lookup_def get_active_refresh_token_def split: if_splits option.splits sum.splits
        dest!: find_Some_in)
  have "spent_refresh (hash_refresh_token env tok) (revoke_where (\<lambda>r. rr_id r = rr_id row) st)"
    using row assms(2) by (auto simp: spent_refresh_def revoke_where_def distinct_map inj_on_def simp del: if_image_distrib)
  then have "spent_refresh (hash_refresh_token env tok) st'"
    using fin spent_issue_session [of "hash_refresh_token env tok" "revoke_where (\<lambda>r. rr_id r = rr_id row) st" env _ plain jti]
    by (auto simp: refresh_finish_def Let_def split: option.splits) (metis snd_conv)
  from spent_lookup [OF spent.run_inv [OF this]] show ?thesis by (simp add: handle_refresh_def refresh_def)
qed

lemma users_kept [simp]:
  "get_user_by_id i (revoke_where p st) = get_user_by_id i st"
  "get_user_by_id i (revoke_user_sessions env j st) = get_user_by_id i st"
  by (auto simp: get_user_by_id_def revoke_where_def revoke_user_sessions_def Let_def split: option.splits)

lemma hashes_kept:
  "map rr_hash (refresh_tokens (revoke_where p st)) = map rr_hash (refresh_tokens st)"
  by (simp add: revoke_where_def)

lemma hashes_kept_user:
  "map rr_hash (refresh_tokens (revoke_user_sessions env j st)) = map rr_hash (refresh_tokens st)"
  using hashes_kept [of "\<lambda>r. rr_user r = j" st] by (simp add: revoke_user_sessions_def Let_def)

lemma hash_listed: "list_ex (\<lambda>r. rr_hash r = h) rs \<longleftrightarrow> h \<in> set (map rr_hash rs)"
  by (induction rs) auto

text \<open>
  a refresh in flight outlives a revocation. If a request has looked its refresh token up
  when the user's sessions are revoked, its second half still creates a session, whose access
  token is accepted and whose refresh token is active.
\<close>
theorem inflight_refresh_outlives_revocation:
  assumes "refresh_lookup env tok st = Inr row" "get_user_by_id (rr_user row) st = Some u"
    and "jwt_ok env" "0 < access_expiry env" "0 < refresh_expiry env" "jwt_blacklist st jti = None"
    and "\<forall>r \<in> set (refresh_tokens st). rr_hash r \<noteq> hash_refresh_token env plain"
  shows "\<exists>s st' c. refresh_finish env row True plain jti (revoke_user_sessions env (rr_user row) st) = (Inr s, st') \<and>
     validate_token env (lr_token s) st' = Inr c \<and> cl_user c = row_id u \<and>
     get_active_refresh_token (hash_refresh_token env plain) st' \<noteq> None"
proof -
  define st1 where "st1 = revoke_where (\<lambda>r. rr_id r = rr_id row) (revoke_user_sessions env (rr_user row) st)"
  have u: "get_user_by_id (rr_user row) st1 = Some u"
    using assms(2) by (simp add: st1_def)
  have fresh: "\<not> list_ex (\<lambda>r. rr_hash r = hash_refresh_token env plain) (refresh_tokens st1)"
    using assms(7) unfolding hash_listed st1_def hashes_kept hashes_kept_user by auto
  have bl: "jwt_blacklist st1 jti = None"
    using assms(6) by (simp add: st1_def revoke_where_def revoke_user_sessions_def Let_def)
  define c where "c = access_claims env u (current_token_seq env st1 (row_id u)) jti (clock st1)"
  define new where "new = \<lparr>rr_id = length (refresh_tokens st1), rr_user = row_id u, rr_hash = hash_refresh_token env plain,
               rr_expires = clock st1 + refresh_expiry env, rr_revoked = False\<rparr>"
  define st2 where "st2 = st1\<lparr>refresh_tokens := refresh_tokens st1 @ [new]\<rparr>"
  have fin: "refresh_finish env row True plain jti (revoke_user_sessions env (rr_user row) st) =
      (Inr \<lparr>lr_token = jwt_sign env c, lr_refresh = plain, lr_user = row_id u\<rparr>, st2)"
    using u fresh by (simp add: refresh_finish_def st1_def [symmetric] issue_session_def create_refresh_token_def Let_def
        c_def st2_def new_def)
  have "validate_token env (jwt_sign env c) st2 = Inr c"
    using assms(3,4) bl by (auto simp: validate_token_def jwt_ok_def c_def access_claims_def st2_def blacklisted_def
        current_token_seq_def redis_ok_def split: option.splits)
  moreover have "get_active_refresh_token (hash_refresh_token env plain) st2 \<noteq> None"
  proof
    assume "get_active_refresh_token (hash_refresh_token env plain) st2 = None"
    moreover have "new \<in> set (refresh_tokens st2)" "clock st2 = clock st1" by (simp_all add: st2_def)
    ultimately have "\<not> (rr_hash new = hash_refresh_token env plain \<and> \<not> rr_revoked new \<and> clock st1 < rr_expires new)"
      unfolding get_active_refresh_token_def find_None_iff by metis
    then show False using assms(5) by (simp add: new_def)
  qed
  ultimately show ?thesis using fin by (auto simp: c_def access_claims_def)
qed

section \<open>No session without credentials\<close>

lemma issue_session_user: "issue_session env u plain jti st = (Inr s, st') \<Longrightarrow> lr_user s = row_id u"
  by (auto simp: issue_session_def Let_def create_refresh_token_def split: if_splits)

lemma rotate_session_user: "rotate_session env u plain jti st = (SessionOk s, st') \<Longrightarrow> lr_user s = row_id u"
  by (auto simp: rotate_session_def dest: issue_session_user split: prod.splits sum.splits)

lemma register_role: "register i email role h st = (Inr u, st1) \<Longrightarrow> ac_role (fst u) = role \<and> i \<notin> fst ` set (accounts st)"
  by (auto simp: register_def Let_def split: if_splits)

lemma register_Inl: "register i email role h st = (Inl r, st1) \<Longrightarrow> r = Conflict \<or> r = Refused AuthInternal"
  by (auto simp: register_def Let_def split: if_splits)

lemma factors_issued: "factor_db (snd (issue_session env u plain jti st)) = factor_db st" "accounts (snd (issue_session env u plain jti st)) = accounts st"
  by (simp_all add: issue_session_def create_refresh_token_def Let_def)

lemma users_issued [simp]:
  "get_user_by_id i (snd (issue_session env u plain jti st)) = get_user_by_id i st"
  "get_user_by_id i (mark_invitation_accepted h st) = get_user_by_id i st"
  by (simp_all add: get_user_by_id_def factors_issued mark_invitation_accepted_def)

lemma registered_user:
  assumes "register i email role h st = (Inr u, st1)"
  shows "get_user_by_id i st1 = Some u"
proof -
  have "map_of (accounts st) i = None" using register_role [OF assms] by (simp add: map_of_eq_None_iff)
  then show ?thesis using registered [OF assms] by (simp add: get_user_by_id_def map_of_append map_add_def)
qed

lemma accepted_session:
  assumes "handle_accept_invitation env tok pw i newhash plain jti st = (SessionOk s, st')"
  shows "\<exists>v e u. v \<in> set (invitations st) \<and> iv_hash v = sha256 env tok \<and> \<not> iv_accepted v \<and> iv_expires v = Some e \<and> clock st \<le> e \<and>
    get_user_by_id i st' = Some u \<and> row_email u = iv_email v \<and> ac_role (fst u) = iv_role v \<and> i \<notin> fst ` set (accounts st) \<and> lr_user s = i"
proof -
  obtain v e where v: "get_invitation_by_hash (sha256 env tok) st = Some v" "\<not> iv_accepted v" "iv_expires v = Some e" "clock st \<le> e"
    using assms by (auto simp: handle_accept_invitation_def split: if_splits option.splits)
  obtain r st1 where r: "register i (iv_email v) (iv_role v) newhash st = (r, st1)" by fastforce
  obtain u where u: "r = Inr u"
    using assms register_Inl [of i "iv_email v" "iv_role v" newhash st _ st1] r
    by (cases r) (auto simp: handle_accept_invitation_def v split: if_splits)
  obtain x st2 where x: "issue_session env u plain jti (mark_invitation_accepted (sha256 env tok) st1) = (x, st2)" by fastforce
  have s: "x = Inr s" "st' = st2"
    using assms v by (auto simp: handle_accept_invitation_def r u x split: if_splits sum.splits)
  note reg = registered [OF r [unfolded u]] register_role [OF r [unfolded u]] registered_user [OF r [unfolded u]]
  have "get_user_by_id i st' = Some u"
    using users_issued(1) [of i env u plain jti "mark_invitation_accepted (sha256 env tok) st1"] reg(3) by (simp add: x s(2))
  moreover have "lr_user s = i" using issue_session_user [OF x [unfolded s(1)]] reg(1) by simp
  moreover have "v \<in> set (invitations st)" "iv_hash v = sha256 env tok"
    using v(1) by (auto simp: get_invitation_by_hash_def dest: find_Some_in)
  ultimately show ?thesis using v(2-) reg(1,2) by blast
qed

lemma challenge_read_subject:
  "challenge_read env tok st = Inr u \<Longrightarrow> tok \<noteq> '''' \<Longrightarrow> challenge_subject env tok st = Some u"
  by (auto simp: challenge_read_def challenge_subject_def redis_ok_def split: if_splits option.splits)

lemma clock_hincr [simp]: "clock (snd (hincr_attempts k st)) = clock st" "factor_db (snd (hincr_attempts k st)) = factor_db st"
  by (simp_all add: hincr_attempts_def Let_def)

lemma challenge_finish_Inr:
  assumes "challenge_finish env ans u tok meth code plain jti st = (Inr s, st')"
  shows "lr_user s = row_id u \<and> (\<exists>m ver. env_factor env = Some (m, ver) \<and>
     fst (ver (snd u) meth code (clock st) (factor_db st)) = Inr ())"
proof -
  have up: "redis_up st" using assms by (auto simp: challenge_finish_def split: if_splits)
  obtain n st1 where hi: "hincr_attempts (challenge_key env tok) st = (n, st1)"
    by (cases "hincr_attempts (challenge_key env tok) st")
  obtain r st2 where v: "run_verifier env u meth code st1 = (r, st2)" by (cases "run_verifier env u meth code st1")
  have "r = Inr ()" and iss: "lr_user s = row_id u"
    using assms by (auto simp: challenge_finish_cases [OF up hi v] issue_session_user split: if_splits sum.splits)
  moreover have "clock st1 = clock st" "factor_db st1 = factor_db st"
    using clock_hincr [of "challenge_key env tok" st] hi by simp_all
  ultimately show ?thesis using v by (auto simp: run_verifier_def split: option.splits prod.splits)
qed

text \<open>
  C26: every session is paid for. Over all the handlers that issue one: a login yields a session only for a
  user without a second factor whose password matches and who is not seen to be locked out; a verification
  only for the subject of a live challenge whose code the verifier accepts now; a refresh only for the owner
  of an active refresh token; turning a second factor on only for the signed-in user whose code confirms
  the enrollment; turning it off only for the signed-in user with the password and an accepted code;
  accepting an invitation only for the holder of an invitation that is neither accepted nor expired, as
  the new user of its address and role; and logout, password change and revocation yield none.
\<close>
theorem session_needs_credentials:
  assumes "auth_step env st e = (SessionOk s, st')"
  shows "case e of
     EvLogin ans email pw plain jti chal \<Rightarrow>
       (\<exists>u. get_user_by_email email st = Some u \<and> pw_ok env (ac_password (fst u)) pw \<and> \<not> has_mfa (snd u) \<and>
          observed_lockout ans ''GetLoginAttempt'' (normalise_email email) st = None \<and> lr_user s = row_id u)
   | EvVerify ans chal meth code plain jti \<Rightarrow>
       (\<exists>u m ver. challenge_subject env chal st = Some u \<and>
          observed_lockout ans ''GetLoginAttempt'' (normalise_email (row_email u)) st = None \<and>
          env_factor env = Some (m, ver) \<and>
          fst (ver (snd u) (if meth = '''' then ''totp'' else meth) code (clock st) (factor_db st)) = Inr () \<and>
          lr_user s = row_id u)
   | EvRefresh cookie ok plain jti \<Rightarrow>
       (\<exists>tok row u. cookie = Some tok \<and> refresh_lookup env tok st = Inr row \<and>
          get_user_by_id (rr_user row) st = Some u \<and> lr_user s = row_id u)
   | EvEnrolled i code rnd plain jti \<Rightarrow>
       (\<exists>u codes f. get_user_by_id i st = Some u \<and> \<not> has_mfa (snd u) \<and>
          env_confirm env (snd u) code (clock st) rnd (factor_db st) = (Inr codes, f) \<and> lr_user s = row_id u)
   | EvDisable i pw meth code plain jti \<Rightarrow>
       (\<exists>u. get_user_by_id i st = Some u \<and> pw_ok env (ac_password (fst u)) pw \<and>
          fst (env_verify env (snd u) (if meth = '''' then ''totp'' else meth) code (clock st) (factor_db st)) = Inr () \<and>
          lr_user s = row_id u)
   | EvAccept tok pw i newhash plain jti \<Rightarrow>
       (\<exists>v e u. v \<in> set (invitations st) \<and> iv_hash v = sha256 env tok \<and> \<not> iv_accepted v \<and> iv_expires v = Some e \<and> clock st \<le> e \<and>
          get_user_by_id i st' = Some u \<and> row_email u = iv_email v \<and> ac_role (fst u) = iv_role v \<and> i \<notin> fst ` set (accounts st) \<and>
          lr_user s = i)
   | _ \<Rightarrow> False"
proof (cases e)
  case (EvLogin ans email pw plain jti chal)
  with assms show ?thesis
    by (auto simp: handle_login_def login_def Let_def dest: issue_session_user
        split: if_splits option.splits prod.splits sum.splits auth_error.splits login_outcome.splits)
next
  case (EvVerify ans chal meth code plain jti)
  define m where "m = (if meth = '''' then ''totp'' else meth)"
  from EvVerify assms have h: "handle_verify_login env ans chal meth code plain jti st = (SessionOk s, st')" by simp
  then have ne: "chal \<noteq> ''''" by (auto simp: handle_verify_login_def split: if_splits)
  obtain u where rd: "challenge_read env chal st = Inr u"
    and fin: "challenge_finish env ans u chal m code plain jti st = (Inr s, st')"
    using h unfolding handle_verify_login_def m_def [symmetric]
    by (auto simp: complete_login_challenge_def split: if_splits option.splits prod.splits sum.splits)
  have "observed_lockout ans ''GetLoginAttempt'' (normalise_email (row_email u)) st = None"
    using h challenge_read_subject [OF rd ne]
    by (auto simp: handle_verify_login_def split: if_splits option.splits)
  with challenge_finish_Inr [OF fin] challenge_read_subject [OF rd ne] EvVerify show ?thesis
    by (cases u) (auto simp: m_def)
next
  case (EvRefresh cookie ok plain jti)
  with EvRefresh assms show ?thesis
    by (auto simp: handle_refresh_def refresh_def refresh_finish_def Let_def dest: issue_session_user
        split: if_splits option.splits prod.splits sum.splits)
next
  case (EvEnrolled i code rnd plain jti)
  with assms show ?thesis
    by (auto simp: handle_verify_enrollment_def dest: rotate_session_user split: if_splits option.splits prod.splits sum.splits)
next
  case (EvDisable i pw meth code plain jti)
  with assms show ?thesis
    by (auto simp: handle_disable_totp_def dest: rotate_session_user split: if_splits option.splits prod.splits sum.splits)
next
  case (EvAccept tok pw i newhash plain jti)
  with accepted_session [of env tok pw i newhash plain jti st s st'] assms show ?thesis by simp
qed (use assms in \<open>auto simp: handle_logout_def handle_change_password_def Let_def split: if_splits option.splits\<close>)

section \<open>Lockout\<close>

lemma keeps_attempts [simp]:
  "login_attempts (snd (issue_session env u plain jti st)) = login_attempts st"
  "login_attempts (revoke_where p st) = login_attempts st"
  "login_attempts (revoke_user_sessions env i st) = login_attempts st"
  "login_attempts (del_challenge key st) = login_attempts st"
  "login_attempts (set_password i h st) = login_attempts st"
  "login_attempts (snd (issue_challenge env u tok st)) = login_attempts st"
  "login_attempts (snd (run_verifier env u m c st)) = login_attempts st"
  "login_attempts (snd (hincr_attempts key st)) = login_attempts st"
  "login_attempts (blacklist_token env tok st) = login_attempts st"
  "login_attempts (snd (refresh env tok ok plain jti st)) = login_attempts st"
  by (simp_all add: issue_session_def create_refresh_token_def revoke_where_def revoke_user_sessions_def refresh_def
      refresh_finish_def
      del_challenge_def set_password_def issue_challenge_def run_verifier_def hincr_attempts_def blacklist_token_def Let_def
      split: prod.splits option.splits sum.splits)

lemma attempts_other [simp]:
  "k \<noteq> key \<Longrightarrow> login_attempts (snd (record_failed_login ans k st)) key = login_attempts st key"
  "k \<noteq> key \<Longrightarrow> login_attempts (reset_login_attempts ans k st) key = login_attempts st key"
  by (simp_all add: record_failed_login_def increment_failed_login_def lock_account_def Let_def reset_login_attempts_def
      split: prod.splits)

lemma keeps_accounts [simp]:
  "accounts (snd (record_failed_login ans k st)) = accounts st"
  "accounts (reset_login_attempts ans k st) = accounts st"
  "accounts (snd (issue_session env u plain jti st)) = accounts st"
  "accounts (revoke_where p st) = accounts st"
  "accounts (revoke_user_sessions env i st) = accounts st"
  "accounts (del_challenge key st) = accounts st"
  "accounts (snd (issue_challenge env u tok st)) = accounts st"
  "accounts (snd (run_verifier env u m c st)) = accounts st"
  "accounts (snd (hincr_attempts key st)) = accounts st"
  "accounts (blacklist_token env tok st) = accounts st"
  "accounts (snd (refresh env tok ok plain jti st)) = accounts st"
  by (simp_all add: record_failed_login_def increment_failed_login_def lock_account_def reset_login_attempts_def
      issue_session_def create_refresh_token_def revoke_where_def revoke_user_sessions_def refresh_def
      refresh_finish_def
      del_challenge_def issue_challenge_def run_verifier_def hincr_attempts_def blacklist_token_def Let_def
      split: prod.splits option.splits sum.splits)

lemma keeps_invitations [simp]:
  "invitations (snd (record_failed_login ans k st)) = invitations st"
  "invitations (reset_login_attempts ans k st) = invitations st"
  "invitations (snd (issue_session env u plain jti st)) = invitations st"
  "invitations (revoke_where p st) = invitations st"
  "invitations (revoke_user_sessions env i st) = invitations st"
  "invitations (del_challenge key st) = invitations st"
  "invitations (snd (issue_challenge env u tok st)) = invitations st"
  "invitations (snd (run_verifier env u m c st)) = invitations st"
  "invitations (snd (hincr_attempts key st)) = invitations st"
  "invitations (blacklist_token env tok st) = invitations st"
  "invitations (snd (refresh env tok ok plain jti st)) = invitations st"
  "invitations (set_password i h st) = invitations st"
  by (simp_all add: set_password_def record_failed_login_def increment_failed_login_def lock_account_def reset_login_attempts_def
      issue_session_def create_refresh_token_def revoke_where_def revoke_user_sessions_def refresh_def
      refresh_finish_def
      del_challenge_def issue_challenge_def run_verifier_def hincr_attempts_def blacklist_token_def Let_def
      split: prod.splits option.splits sum.splits)

lemma login_frames [simp]:
  "login_attempts (snd (login env email pw plain jti chal st)) = login_attempts st"
  "accounts (snd (login env email pw plain jti chal st)) = accounts st"
  "invitations (snd (login env email pw plain jti chal st)) = invitations st"
  by (simp_all add: login_def snd_lift split: option.splits)

lemma challenge_finish_frames:
  "to_lower env (row_email u) \<noteq> key \<Longrightarrow>
     login_attempts (snd (challenge_finish env ans u tok meth code plain jti st)) key = login_attempts st key"
  "accounts (snd (challenge_finish env ans u tok meth code plain jti st)) = accounts st"
  "invitations (snd (challenge_finish env ans u tok meth code plain jti st)) = invitations st"
proof -
  obtain n st1 where hi: "hincr_attempts (challenge_key env tok) st = (n, st1)"
    by (cases "hincr_attempts (challenge_key env tok) st")
  obtain r st2 where v: "run_verifier env u meth code st1 = (r, st2)" by (cases "run_verifier env u meth code st1")
  have eqs: "login_attempts st1 = login_attempts st" "accounts st1 = accounts st"
      "login_attempts st2 = login_attempts st1" "accounts st2 = accounts st1"
      "invitations st1 = invitations st" "invitations st2 = invitations st1"
    using keeps_attempts(8) [of "challenge_key env tok" st] keeps_accounts(9) [of "challenge_key env tok" st] hi
      keeps_attempts(7) [of env u meth code st1] keeps_accounts(8) [of env u meth code st1]
      keeps_invitations(8) [of env u meth code st1] keeps_invitations(9) [of "challenge_key env tok" st] v by simp_all
  show "accounts (snd (challenge_finish env ans u tok meth code plain jti st)) = accounts st"
    "invitations (snd (challenge_finish env ans u tok meth code plain jti st)) = invitations st"
    by (cases "redis_up st", simp add: challenge_finish_cases [OF _ hi v] eqs split: sum.splits, simp add: challenge_finish_def)+
  show "login_attempts (snd (challenge_finish env ans u tok meth code plain jti st)) key = login_attempts st key"
    if "to_lower env (row_email u) \<noteq> key"
    using that
    by (cases "redis_up st", simp add: challenge_finish_cases [OF _ hi v] eqs split: sum.splits, simp add: challenge_finish_def)
qed

text \<open>
  \<open>strings.ToLower\<close>, used by the challenge, agrees with the handlers' ASCII lower-casing on the
  e-mails of the accounts and of the pending invitations; it does when they are ASCII.
\<close>

definition same_keys :: "auth_env \<Rightarrow> auth_state \<Rightarrow> bool" where
  "same_keys env st \<longleftrightarrow> (\<forall>(i, a) \<in> set (accounts st). to_lower env (ac_email a) = normalise_email (ac_email a)) \<and>
     (\<forall>v \<in> set (invitations st). to_lower env (iv_email v) = normalise_email (iv_email v))"

definition locked_until :: "auth_env \<Rightarrow> string \<Rightarrow> instant \<Rightarrow> auth_state \<Rightarrow> bool" where
  "locked_until env key l st \<longleftrightarrow> same_keys env st \<and>
     (l \<le> clock st \<or> (\<exists>r. login_attempts st key = Some r \<and> at_locked r = Some l))"

lemma locked_check: "locked_until env key l st \<Longrightarrow> clock st < l \<Longrightarrow> check_lockout key st = Some (l - clock st)"
  by (auto simp: locked_until_def check_lockout_def)

lemma locked_cong:
  "locked_until env key l st \<Longrightarrow> clock st' = clock st \<Longrightarrow> accounts st' = accounts st \<Longrightarrow>
   invitations st' = invitations st \<Longrightarrow> login_attempts st' key = login_attempts st key \<Longrightarrow> locked_until env key l st'"
  by (simp add: locked_until_def same_keys_def)

lemma same_base_clock: "same_base st st' \<Longrightarrow> clock st' = clock st"
  by (simp add: same_base_def)

lemma row_account: "get_user_by_id i st = Some u \<Longrightarrow> same_keys env st \<Longrightarrow> to_lower env (row_email u) = normalise_email (row_email u)"
  by (auto simp: get_user_by_id_def same_keys_def split: option.splits dest!: map_of_SomeD)

lemma locked_handle_login:
  assumes "locked_until env key l st" "clock st < l" and "ans ''GetLoginAttempt''"
  shows "locked_until env key l (snd (handle_login env ans email pw plain jti chal st))"
proof (cases "normalise_email email = key")
  case True
  with assms locked_check [OF assms(1,2)] show ?thesis by (simp add: handle_login_def observed_lockout_def)
next
  case False
  obtain r st1 where lg: "login env email pw plain jti chal st = (r, st1)" by (cases "login env email pw plain jti chal st")
  then have "login_attempts st1 = login_attempts st" "accounts st1 = accounts st" "invitations st1 = invitations st"
    using login_frames [of env email pw plain jti chal st] by simp_all
  with False show ?thesis
    by (intro locked_cong [OF assms(1) same_base_clock [OF base_handle_login]])
      (auto simp: handle_login_def Let_def lg split: option.splits sum.splits auth_error.splits login_outcome.splits)
qed

lemma locked_handle_verify:
  assumes "locked_until env key l st" "clock st < l" and ans: "ans ''GetLoginAttempt''"
  shows "locked_until env key l (snd (handle_verify_login env ans chal meth code plain jti st))"
proof -
  define m where "m = (if meth = '''' then ''totp'' else meth)"
  consider (same) "snd (handle_verify_login env ans chal meth code plain jti st) = st"
    | (fin) u where "challenge_subject env chal st = Some u" "check_lockout (normalise_email (row_email u)) st = None"
        "snd (handle_verify_login env ans chal meth code plain jti st) = snd (challenge_finish env ans u chal m code plain jti st)"
  proof (cases "chal = '''' \<or> trim_space code = ''''")
    case True
    then show ?thesis using same by (simp add: handle_verify_login_def)
  next
    case False
    show ?thesis
    proof (cases "Option.bind (challenge_subject env chal st) (\<lambda>u. observed_lockout ans ''GetLoginAttempt'' (normalise_email (row_email u)) st)")
      case None
      show ?thesis
      proof (cases "challenge_read env chal st")
        case (Inl e)
        with None False show ?thesis
          by (intro same) (simp add: handle_verify_login_def complete_login_challenge_def)
      next
        case (Inr u)
        obtain r st1 where c: "challenge_finish env ans u chal m code plain jti st = (r, st1)"
          by (cases "challenge_finish env ans u chal m code plain jti st")
        have "snd (handle_verify_login env ans chal meth code plain jti st) = snd (challenge_finish env ans u chal m code plain jti st)"
          using None False Inr c unfolding handle_verify_login_def m_def [symmetric]
          by (simp add: complete_login_challenge_def split: sum.splits)
        with challenge_read_subject [OF Inr] False None ans show ?thesis by (intro fin [of u]) (simp_all add: observed_lockout_def)
      qed
    next
      case (Some d)
      then show ?thesis using False same by (simp add: handle_verify_login_def)
    qed
  qed
  then show ?thesis
  proof cases
    case same
    then show ?thesis using assms by simp
  next
    case fin
    obtain i where "get_user_by_id i st = Some u"
      using fin(1) by (auto simp: challenge_subject_def split: if_splits option.splits)
    then have "to_lower env (row_email u) = normalise_email (row_email u)"
      using assms(1) by (simp add: row_account locked_until_def)
    moreover have "normalise_email (row_email u) \<noteq> key" using fin(2) locked_check [OF assms(1,2)] by auto
    ultimately show ?thesis
      using fin(3) same_base_clock [OF base_handle_verify [of st env ans chal meth code plain jti]]
      by (intro locked_cong [OF assms(1)]) (simp_all add: challenge_finish_frames)
  qed
qed

lemma locked_same_key: "same_keys env st \<Longrightarrow> same_keys env (set_password i h st)"
  by (auto simp: same_keys_def set_password_def split: if_splits)

lemma handler_accounts [simp]:
  "accounts (snd (handle_login env ans email pw plain jti chal st)) = accounts st"
  "accounts (snd (handle_verify_login env ans chal meth code plain jti st)) = accounts st"
  "accounts (snd (handle_refresh env cookie ok plain jti st)) = accounts st"
  "invitations (snd (handle_login env ans email pw plain jti chal st)) = invitations st"
  "invitations (snd (handle_verify_login env ans chal meth code plain jti st)) = invitations st"
  "invitations (snd (handle_refresh env cookie ok plain jti st)) = invitations st"
proof -
  obtain r st1 where lg: "login env email pw plain jti chal st = (r, st1)" by (cases "login env email pw plain jti chal st")
  with login_frames(2,3) [of env email pw plain jti chal st]
  show "accounts (snd (handle_login env ans email pw plain jti chal st)) = accounts st"
    "invitations (snd (handle_login env ans email pw plain jti chal st)) = invitations st"
    by (auto simp: handle_login_def Let_def split: option.splits sum.splits auth_error.splits login_outcome.splits)
next
  define m where "m = (if meth = '''' then ''totp'' else meth)"
  obtain r st1 where c: "complete_login_challenge env ans chal m code plain jti st = (r, st1)" by fastforce
  have "accounts (snd (complete_login_challenge env ans chal m code plain jti st)) = accounts st"
    "invitations (snd (complete_login_challenge env ans chal m code plain jti st)) = invitations st"
    by (simp_all add: complete_login_challenge_def challenge_finish_frames split: sum.splits)
  with c show "accounts (snd (handle_verify_login env ans chal meth code plain jti st)) = accounts st"
    "invitations (snd (handle_verify_login env ans chal meth code plain jti st)) = invitations st"
    unfolding handle_verify_login_def m_def [symmetric] by (simp_all split: option.splits sum.splits)
next
  obtain r st1 where c: "refresh env (the cookie) ok plain jti st = (r, st1)" by fastforce
  with keeps_accounts(11) [of env "the cookie" ok plain jti st] keeps_invitations(11) [of env "the cookie" ok plain jti st]
  show "accounts (snd (handle_refresh env cookie ok plain jti st)) = accounts st"
    "invitations (snd (handle_refresh env cookie ok plain jti st)) = invitations st"
    by (auto simp: handle_refresh_def split: option.splits sum.splits)
qed

lemma logout_accounts [simp]: "accounts (snd (handle_logout env r auth cookie st)) = accounts st"
  "invitations (snd (handle_logout env r auth cookie st)) = invitations st"
  by (simp_all add: handle_logout_def Let_def revoke_refresh_token_def split: option.splits)

lemma same_keys_cong: "accounts st' = accounts st \<Longrightarrow> invitations st' = invitations st \<Longrightarrow> same_keys env st' = same_keys env st"
  by (simp add: same_keys_def)

lemma same_keys_accept:
  assumes sk: "same_keys env st"
  shows "same_keys env (snd (handle_accept_invitation env tok pw i newhash plain jti st))"
proof (cases rule: accept_cases [of env tok pw i newhash plain jti st])
  case (2 v a f u)
  from 2(1) have "v \<in> set (invitations st)" by (auto simp: get_invitation_by_hash_def dest: find_Some_in)
  with sk 2(2) have "same_keys env (mark_invitation_accepted (sha256 env tok) (st\<lparr>accounts := accounts st @ [(i, a)], factor_db := f\<rparr>))"
    by (auto simp: same_keys_def mark_invitation_accepted_def)
  then show ?thesis unfolding 2(3) by (simp add: same_keys_def)
qed (use sk in simp)

lemma same_keys_step: "same_keys env st \<Longrightarrow> same_keys env (auth_next env st e)"
proof (cases e)
  case (EvPassword i c n h)
  assume sk: "same_keys env st"
  have "same_keys env (revoke_user_sessions env i (set_password i h st)) = same_keys env (set_password i h st)"
    by (rule same_keys_cong) simp_all
  with locked_same_key [OF sk] sk EvPassword show ?thesis
    by (simp add: handle_change_password_def split: option.splits)
next
  assume sk: "same_keys env st"
  case (EvEnrolled i code rnd plain jti)
  with enrolled_cases [of env i code rnd plain jti st] sk show ?thesis by (elim disjE exE) (simp_all add: same_keys_def)
next
  assume sk: "same_keys env st"
  case (EvDisable i pw meth code plain jti)
  with disable_cases [of env i pw meth code plain jti st] sk show ?thesis by (elim disjE exE) (simp_all add: same_keys_def)
next
  assume sk: "same_keys env st"
  case (EvAccept tok pw i newhash plain jti)
  with same_keys_accept [OF sk] show ?thesis by simp
qed (simp_all add: same_keys_def)

lemma clock_rotated: "clock (snd (issue_session env u plain jti (revoke_user_sessions env j st))) = clock st"
  using same_base_clock [OF base_issue_session [THEN iffD2, OF same_base_refl], of env u plain jti "revoke_user_sessions env j st"]
  by (simp add: revoke_user_sessions_def revoke_where_def Let_def)

lemma clock_step: "clock st \<le> clock (auth_next env st e)"
proof (cases "moves e")
  case True
  show ?thesis
  proof (cases e)
    case (EvEnrolled i code rnd plain jti)
    with enrolled_cases [of env i code rnd plain jti st] show ?thesis by (elim disjE exE) (simp_all add: clock_rotated)
  next
    case (EvDisable i pw meth code plain jti)
    with disable_cases [of env i pw meth code plain jti st] show ?thesis by (elim disjE exE) (simp_all add: clock_rotated)
  qed (use True in \<open>auto simp: revoke_user_sessions_def revoke_where_def Let_def handle_change_password_def set_password_def
        split: option.splits\<close>)
next
  case False
  then show ?thesis using same_base_clock [OF base_auth_step [of e st env]] by simp
qed

text \<open>The requests whose look at the lockout, if they take one, is answered.\<close>

fun lockout_read :: "auth_event \<Rightarrow> bool" where
  "lockout_read (EvLogin ans email pw plain jti chal) = ans ''GetLoginAttempt''"
| "lockout_read (EvVerify ans chal meth code plain jti) = ans ''GetLoginAttempt''"
| "lockout_read e = True"

lemma locked_rotated:
  assumes "locked_until env key l st"
  shows "locked_until env key l (snd (issue_session env u plain jti (revoke_user_sessions env j (st\<lparr>factor_db := f\<rparr>))))"
    "locked_until env key l (st\<lparr>factor_db := f\<rparr>)"
  using assms by (simp_all add: locked_until_def same_keys_def clock_rotated)

lemma locked_accept:
  assumes "locked_until env key l st"
  shows "locked_until env key l (snd (handle_accept_invitation env tok pw i newhash plain jti st))"
proof -
  have "login_attempts (snd (handle_accept_invitation env tok pw i newhash plain jti st)) = login_attempts st"
    by (cases rule: accept_cases [of env tok pw i newhash plain jti st]) (simp_all add: mark_invitation_accepted_def)
  with assms same_keys_accept [of env st] same_base_clock [OF base_accept] show ?thesis by (simp add: locked_until_def)
qed

lemma locked_step:
  assumes "locked_until env key l st" and read: "lockout_read e"
  shows "locked_until env key l (auth_next env st e)"
proof (cases "clock st < l")
  case False
  then show ?thesis using clock_step [of st env e] same_keys_step [of env st e] assms(1) by (simp add: locked_until_def)
next
  case True
  show ?thesis
  proof (cases e)
    case (EvLogin ans email pw plain jti chal)
    with locked_handle_login [OF assms(1) True] read show ?thesis by simp
  next
    case (EvVerify ans chal meth code plain jti)
    with locked_handle_verify [OF assms(1) True] read show ?thesis by simp
  next
    case (EvRefresh cookie ok plain jti)
    obtain r st1 where c: "refresh env (the cookie) ok plain jti st = (r, st1)" by fastforce
    have "clock st1 = clock st" using same_base_clock [of st st1] base_refresh [of st env "the cookie" ok plain jti st] c by simp
    with keeps_accounts(11) [of env "the cookie" ok plain jti st] keeps_attempts(10) [of env "the cookie" ok plain jti st]
      keeps_invitations(11) [of env "the cookie" ok plain jti st] c EvRefresh show ?thesis
      by (intro locked_cong [OF assms(1)]) (auto simp: handle_refresh_def split: option.splits sum.splits)
  next
    case (EvPassword i c n h)
    have "locked_until env key l (revoke_user_sessions env i (set_password i h st))"
      using assms by (auto simp: locked_until_def locked_same_key same_keys_def [of env "revoke_user_sessions _ _ _"]
          revoke_user_sessions_def revoke_where_def Let_def set_password_def) (auto simp: same_keys_def)
    with assms(1) EvPassword show ?thesis by (simp add: handle_change_password_def split: option.splits)
  next
    case (EvLogout r auth cookie)
    then show ?thesis
      by (intro locked_cong [OF assms(1)] same_base_clock [OF base_auth_step])
        (simp_all add: handle_logout_def Let_def revoke_refresh_token_def split: option.splits)
  next
    case (EvRevoke i)
    then show ?thesis
      by (intro locked_cong [OF assms(1)]) (simp_all add: revoke_user_sessions_def revoke_where_def Let_def)
  next
    case (EvWait n)
    with assms(1) show ?thesis by (auto simp: locked_until_def same_keys_def)
  next
    case (EvEnrolled i code rnd plain jti)
    with enrolled_cases [of env i code rnd plain jti st] locked_rotated [OF assms(1)] assms(1) show ?thesis by (elim disjE exE) simp_all
  next
    case (EvDisable i pw meth code plain jti)
    with disable_cases [of env i pw meth code plain jti st] locked_rotated [OF assms(1)] assms(1) show ?thesis by (elim disjE exE) simp_all
  next
    case (EvAccept tok pw i newhash plain jti)
    with locked_accept [OF assms(1)] show ?thesis by simp
  qed
qed

interpretation locked: guarded_machine "auth_next env" "locked_until env key l" lockout_read
  by unfold_locales (rule locked_step)

text \<open>
  C28: a lock holds while it can be read. Once an address is locked, every login with a spelling of it is
  answered with the time that is left, right password or not, in every later state until the lock expires,
  whatever requests come in between, as long as the query for the lockout answers this request and those
  in between (a handler whose query fails goes on as if the address were free), and the addresses of the
  accounts and invitations have the same lower case for the handlers, which lower ASCII only, as for the
  login challenge, which lowers Unicode. Whether the counter's other queries answer does not matter.
\<close>
theorem lockout_holds:
  assumes "same_keys env st" "login_attempts st key = Some r" "at_locked r = Some l"
    and "clock (foldl (auth_next env) st es) < l"
    and "normalise_email email = key" "email \<noteq> ''''" "pw \<noteq> ''''"
    and "\<forall>e \<in> set es. lockout_read e" "ans ''GetLoginAttempt''"
  shows "handle_login env ans email pw plain jti chal (foldl (auth_next env) st es) =
    (LockedOut (l - clock (foldl (auth_next env) st es)), foldl (auth_next env) st es)"
proof -
  have "locked_until env key l st" using assms(1-3) by (simp add: locked_until_def)
  from locked_check [OF locked.guarded_run [OF this assms(8)] assms(4)] assms(4-) show ?thesis
    by (simp add: handle_login_def retry_after_def observed_lockout_def)
qed

section \<open>The guessing budget of a challenge\<close>

lemma keeps_challenges [simp]:
  "challenges (snd (record_failed_login ans k st)) = challenges st"
  "challenges (reset_login_attempts ans k st) = challenges st"
  "challenges (snd (issue_session env u plain jti st)) = challenges st"
  "challenges (revoke_where p st) = challenges st"
  "challenges (revoke_user_sessions env i st) = challenges st"
  "challenges (set_password i h st) = challenges st"
  "challenges (snd (run_verifier env u m c st)) = challenges st"
  "challenges (blacklist_token env tok st) = challenges st"
  "challenges (revoke_refresh_token env tok st) = challenges st"
  "challenges (snd (refresh env tok ok plain jti st)) = challenges st"
  by (simp_all add: record_failed_login_def increment_failed_login_def lock_account_def reset_login_attempts_def
      issue_session_def create_refresh_token_def revoke_where_def revoke_user_sessions_def refresh_def revoke_refresh_token_def
      refresh_finish_def set_password_def run_verifier_def blacklist_token_def Let_def
      split: prod.splits option.splits sum.splits)

text \<open>Attempts a challenge has left: none once it is gone or has no user.\<close>

definition budget :: "bytes \<Rightarrow> auth_state \<Rightarrow> nat" where
  "budget key st =
     (case live_challenge key st of
        None \<Rightarrow> 0
      | Some c \<Rightarrow> if ch_user c = None then 0 else nat (challenge_max_attempts - ch_attempts c))"

lemma budget_mono: "challenges st' key = challenges st key \<Longrightarrow> clock st \<le> clock st' \<Longrightarrow> budget key st' \<le> budget key st"
  by (auto simp: budget_def live_challenge_def split: option.splits if_splits)

lemma budget_gone [simp]: "challenges st key = None \<Longrightarrow> budget key st = 0"
  by (simp add: budget_def live_challenge_def)

text \<open>A reply that tells the caller what the verifier said.\<close>

fun verdict :: "reply \<Rightarrow> bool" where
  "verdict (Refused (Factor e)) = True"
| "verdict (Refused AuthInternal) = True"
| "verdict (SessionOk s) = True"
| "verdict r = False"

fun final_verdict :: "reply \<Rightarrow> bool" where
  "final_verdict (Refused (Factor e)) = False"
| "final_verdict r = verdict r"

lemma challenge_other_key:
  "challenge_key env tok \<noteq> key \<Longrightarrow>
     challenges (snd (challenge_finish env ans u tok meth code plain jti st)) key = challenges st key"
proof -
  assume other: "challenge_key env tok \<noteq> key"
  obtain n st1 where hi: "hincr_attempts (challenge_key env tok) st = (n, st1)"
    by (cases "hincr_attempts (challenge_key env tok) st")
  obtain r st2 where v: "run_verifier env u meth code st1 = (r, st2)" by (cases "run_verifier env u meth code st1")
  have "challenges st1 key = challenges st key" using hi other by (auto simp: hincr_attempts_def Let_def)
  moreover have "challenges st2 = challenges st1" using keeps_challenges(7) [of env u meth code st1] v by simp
  ultimately show ?thesis using other
    by (cases "redis_up st", simp add: challenge_finish_cases [OF _ hi v] del_challenge_def split: sum.splits,
        simp add: challenge_finish_def)
qed

lemma challenge_cost:
  assumes rd: "challenge_read env tok st = Inr u"
    and fin: "challenge_finish env ans u tok meth code plain jti st = (r, st')"
  shows "(case r of
      Inl (Factor e) \<Rightarrow> budget (challenge_key env tok) st' < budget (challenge_key env tok) st
    | Inl AuthInternal \<Rightarrow> budget (challenge_key env tok) st' = 0 \<and> 0 < budget (challenge_key env tok) st
    | Inr s \<Rightarrow> budget (challenge_key env tok) st' = 0 \<and> 0 < budget (challenge_key env tok) st
    | _ \<Rightarrow> budget (challenge_key env tok) st' = 0)"
proof -
  let ?k = "challenge_key env tok"
  have up: "redis_up st" using rd by (auto simp: challenge_read_def split: if_splits)
  obtain c where c: "live_challenge ?k st = Some c" "ch_user c \<noteq> None"
    using rd by (auto simp: challenge_read_def bind_eq_Some_conv split: if_splits option.splits)
  define n where "n = ch_attempts c + 1"
  define st1 where "st1 = st\<lparr>challenges := (challenges st)(?k \<mapsto> c\<lparr>ch_attempts := n\<rparr>)\<rparr>"
  have hi: "hincr_attempts ?k st = (n, st1)" using c by (simp add: hincr_attempts_def Let_def n_def st1_def)
  obtain v st2 where v: "run_verifier env u meth code st1 = (v, st2)" by (cases "run_verifier env u meth code st1")
  have st2: "challenges st2 ?k = Some (c\<lparr>ch_attempts := n\<rparr>)"
  proof -
    have "challenges st2 = challenges st1" using keeps_challenges(7) [of env u meth code st1] v by simp
    then show ?thesis by (simp add: st1_def)
  qed
  have b: "budget ?k st = nat (5 - ch_attempts c)" using c by (auto simp: budget_def challenge_max_attempts_def)
  show ?thesis
  proof (cases "n > challenge_max_attempts")
    case True
    then show ?thesis using fin by (auto simp: challenge_finish_cases [OF up hi v] del_challenge_def)
  next
    case False
    then have pos: "0 < budget ?k st" by (simp add: b n_def challenge_max_attempts_def)
    show ?thesis
    proof (cases v)
      case (Inl e)
      have "budget ?k st' < budget ?k st"
      proof (cases "n \<ge> challenge_max_attempts")
        case True
        then show ?thesis using fin Inl False pos by (auto simp: challenge_finish_cases [OF up hi v] del_challenge_def)
      next
        case low: False
        have "challenges st' ?k = Some (c\<lparr>ch_attempts := n\<rparr>)"
          using fin Inl low st2 False by (auto simp: challenge_finish_cases [OF up hi v])
        then have "budget ?k st' \<le> nat (5 - n)"
          by (simp add: budget_def live_challenge_def challenge_max_attempts_def)
        then show ?thesis using False by (simp add: b n_def challenge_max_attempts_def)
      qed
      then show ?thesis using fin Inl False by (auto simp: challenge_finish_cases [OF up hi v])
    next
      case (Inr x)
      let ?d = "reset_login_attempts ans (to_lower env (row_email u)) (del_challenge ?k st2)"
      have iss: "issue_session env u plain jti ?d = (r, st')"
        using fin Inr False by (simp add: challenge_finish_cases [OF up hi v])
      then have "challenges st' ?k = None"
        using keeps_challenges(3) [of env u plain jti ?d] by (simp add: del_challenge_def)
      moreover have "r = Inl AuthInternal \<or> (\<exists>s. r = Inr s)"
        using iss by (auto simp: issue_session_def create_refresh_token_def Let_def split: if_splits)
      ultimately show ?thesis using pos by auto
    qed
  qed
qed

lemma verify_cost:
  assumes h: "handle_verify_login env ans tok meth code plain jti st = (r, st')"
  shows "budget (challenge_key env tok) st' \<le> budget (challenge_key env tok) st \<and>
     (verdict r \<longrightarrow> budget (challenge_key env tok) st' < budget (challenge_key env tok) st) \<and>
     (final_verdict r \<longrightarrow> budget (challenge_key env tok) st' = 0)"
proof -
  define m where "m = (if meth = '''' then ''totp'' else meth)"
  consider (same) "st' = st" "\<not> verdict r"
    | (fin) u q where "challenge_read env tok st = Inr u" "challenge_finish env ans u tok m code plain jti st = (q, st')"
        "r = (case q of Inl e \<Rightarrow> Refused e | Inr s \<Rightarrow> SessionOk s)"
    using h unfolding handle_verify_login_def m_def [symmetric]
    by (cases "challenge_read env tok st")
      (auto simp: complete_login_challenge_def challenge_read_def split: if_splits option.splits prod.splits sum.splits)
  then show ?thesis
  proof cases
    case same
    then show ?thesis by (cases r rule: final_verdict.cases) auto
  next
    case fin
    from challenge_cost [OF fin(1,2)] fin(3) show ?thesis
      by (cases q) (auto split: auth_error.splits)
  qed
qed

text \<open>What the other requests do to a challenge: at most, time runs out for it.\<close>

fun touches :: "auth_env \<Rightarrow> bytes \<Rightarrow> auth_event \<Rightarrow> bool" where
  "touches env key (EvLogin ans email pw plain jti chal) = (challenge_key env chal = key)"
| "touches env key (EvVerify ans chal meth code plain jti) = (challenge_key env chal = key)"
| "touches env key e = False"

lemma issue_challenge_other:
  "challenge_key env tok \<noteq> key \<Longrightarrow> challenges (snd (issue_challenge env u tok st)) key = challenges st key"
  by (simp add: issue_challenge_def split: option.splits)

lemma untouched:
  assumes "\<not> touches env key e"
  shows "challenges (auth_next env st e) key = challenges st key"
proof (cases e)
  case (EvLogin ans email pw plain jti chal)
  obtain r st1 where lg: "login env email pw plain jti chal st = (r, st1)" by (cases "login env email pw plain jti chal st")
  have "challenges (snd (login env email pw plain jti chal st)) key = challenges st key"
    using assms EvLogin by (simp add: login_def snd_lift issue_challenge_other split: option.splits)
  with lg EvLogin show ?thesis
    by (auto simp: handle_login_def Let_def split: option.splits sum.splits auth_error.splits login_outcome.splits)
next
  case (EvVerify ans chal meth code plain jti)
  define m where "m = (if meth = '''' then ''totp'' else meth)"
  obtain r st1 where c: "complete_login_challenge env ans chal m code plain jti st = (r, st1)" by fastforce
  have "challenges (snd (complete_login_challenge env ans chal m code plain jti st)) key = challenges st key"
    using assms EvVerify by (simp add: complete_login_challenge_def challenge_other_key split: sum.splits)
  with c EvVerify show ?thesis
    unfolding EvVerify auth_step.simps handle_verify_login_def m_def [symmetric] by (simp split: option.splits sum.splits)
next
  case (EvRefresh cookie ok plain jti)
  obtain r st1 where c: "refresh env (the cookie) ok plain jti st = (r, st1)" by fastforce
  with keeps_challenges(10) [of env "the cookie" ok plain jti st] EvRefresh show ?thesis
    by (auto simp: handle_refresh_def split: option.splits sum.splits)
next
  case (EvEnrolled i code rnd plain jti)
  with enrolled_cases [of env i code rnd plain jti st] show ?thesis by (elim disjE exE) simp_all
next
  case (EvDisable i pw meth code plain jti)
  with disable_cases [of env i pw meth code plain jti st] show ?thesis by (elim disjE exE) simp_all
next
  case (EvAccept tok pw i newhash plain jti)
  then show ?thesis
    by (cases rule: accept_cases [of env tok pw i newhash plain jti st]) (simp_all add: mark_invitation_accepted_def)
qed (simp_all add: handle_logout_def handle_change_password_def Let_def split: option.splits)

text \<open>The verdicts a sequence of requests gets on one challenge.\<close>

fun verdicts :: "auth_env \<Rightarrow> bytes \<Rightarrow> auth_event list \<Rightarrow> auth_state \<Rightarrow> reply list" where
  "verdicts env key [] st = []"
| "verdicts env key (e # es) st =
     (case auth_step env st e of
        (r, st') \<Rightarrow> (if touches env key e \<and> verdict r then [r] else []) @ verdicts env key es st')"

fun mints :: "auth_env \<Rightarrow> bytes \<Rightarrow> auth_event \<Rightarrow> bool" where
  "mints env key (EvLogin ans email pw plain jti chal) = (challenge_key env chal = key)"
| "mints env key e = False"

definition spent_well :: "nat \<Rightarrow> reply list \<Rightarrow> bool" where
  "spent_well n rs \<longleftrightarrow> length rs \<le> n \<and> (\<forall>r \<in> set (butlast rs). \<not> final_verdict r)"

lemma spent_well_Cons: "spent_well m rs \<Longrightarrow> m < n \<Longrightarrow> (final_verdict r \<Longrightarrow> m = 0) \<Longrightarrow> spent_well n (r # rs)"
  by (cases rs) (auto simp: spent_well_def)

lemma spent_well_mono: "spent_well m rs \<Longrightarrow> m \<le> n \<Longrightarrow> spent_well n rs"
  by (auto simp: spent_well_def)

lemma verdicts_bounded:
  "\<forall>e \<in> set es. \<not> mints env key e \<Longrightarrow> spent_well (budget key st) (verdicts env key es st)"
proof (induction es arbitrary: st)
  case (Cons e es)
  obtain r st' where s: "auth_step env st e = (r, st')" by (cases "auth_step env st e")
  have ih: "spent_well (budget key st') (verdicts env key es st')" using Cons by simp
  show ?case
  proof (cases "touches env key e")
    case True
    then obtain ans tok meth code plain jti where e: "e = EvVerify ans tok meth code plain jti" "challenge_key env tok = key"
      using Cons.prems by (cases e) auto
    with s verify_cost [of env ans tok meth code plain jti st r st'] ih show ?thesis
      by (auto simp: True intro: spent_well_Cons spent_well_mono)
  next
    case False
    have "budget key st' \<le> budget key st"
      using untouched [OF False, of st] clock_step [of st env e] s by (intro budget_mono) simp_all
    with ih s False show ?thesis by (auto intro: spent_well_mono)
  qed
qed (simp add: spent_well_def)

text \<open>
  a challenge is worth five guesses and one session. However its holder's requests and all
  others are sequenced, at most five of them learn what the verifier says, and only the last of
  these can be other than a refusal.
\<close>
theorem challenge_allows_five_guesses:
  assumes "issue_challenge env u tok st = (Inr c, st1)"
    and "\<forall>e \<in> set es. \<not> mints env (challenge_key env tok) e"
  shows "length (verdicts env (challenge_key env tok) es st1) \<le> 5 \<and>
     (\<forall>r \<in> set (butlast (verdicts env (challenge_key env tok) es st1)). \<not> final_verdict r)"
proof -
  have "budget (challenge_key env tok) st1 \<le> 5"
    using assms(1)
    by (auto simp: issue_challenge_def budget_def live_challenge_def challenge_max_attempts_def split: option.splits if_splits)
  with verdicts_bounded [OF assms(2), of st1] show ?thesis by (simp add: spent_well_def)
qed

section \<open>Racing guesses\<close>

text \<open>The last steps of requests that have all read the challenge while it was live.\<close>

fun finish_all :: "auth_env \<Rightarrow> (string \<Rightarrow> bool) \<Rightarrow> user_row \<Rightarrow> string \<Rightarrow> (string \<times> string) list \<Rightarrow> auth_state \<Rightarrow> (auth_error + login_result) list" where
  "finish_all env ans u tok [] st = []"
| "finish_all env ans u tok ((meth, code) # gs) st =
     (case challenge_finish env ans u tok meth code '''' '''' st of (r, st') \<Rightarrow> r # finish_all env ans u tok gs st')"

definition young :: "bytes \<Rightarrow> auth_state \<Rightarrow> bool" where
  "young key st \<longleftrightarrow> (\<forall>c. live_challenge key st = Some c \<longrightarrow> ch_attempts c < challenge_max_attempts)"

lemma racing_step:
  assumes "redis_up st" "env_factor env = Some (ms, ver)" "young (challenge_key env tok) st"
    and "\<And>t f. ver (snd u) meth code t f = (Inl InvalidSecondFactor, f)"
    and "challenge_finish env ans u tok meth code plain jti st = (r, st')"
  shows "r = Inl (Factor InvalidSecondFactor) \<and> redis_up st' \<and> young (challenge_key env tok) st'"
proof -
  let ?k = "challenge_key env tok"
  obtain n st1 where hi: "hincr_attempts ?k st = (n, st1)" by (cases "hincr_attempts ?k st")
  have n: "n \<le> challenge_max_attempts" and live: "\<And>c. live_challenge ?k st1 = Some c \<Longrightarrow> ch_attempts c = n"
    using hi assms(3)
    by (auto simp: hincr_attempts_def young_def Let_def challenge_max_attempts_def live_challenge_def split: option.splits if_splits)
  have v: "run_verifier env u meth code st1 = (Inl InvalidSecondFactor, st1)"
    using assms(2,4) by (simp add: run_verifier_def)
  have up: "redis_up st1" using hi assms(1) base_hincr [of st ?k st] by (simp add: same_base_def)
  have eqs: "live_challenge ?k (snd (record_failed_login ans k s)) = live_challenge ?k s"
    "redis_up (snd (record_failed_login ans k s)) = redis_up s" for k s
    using base_record_failed [of s ans k s] by (auto simp: live_challenge_def same_base_def split: option.splits)
  have del: "live_challenge ?k (del_challenge ?k s) = None" "redis_up (del_challenge ?k s) = redis_up s" for s
    by (simp_all add: live_challenge_def del_challenge_def)
  show ?thesis
    using assms(5) n up live
    by (auto simp: challenge_finish_cases [OF assms(1) hi v] young_def eqs del split: if_splits)
qed

text \<open>
  the five-guess limit does not bound concurrent guesses. Requests that have all read a live
  challenge each get their code checked, however many there are: the fifth failure deletes the
  counter, and the next increment creates it afresh.
\<close>
theorem racing_guesses_are_unbounded:
  assumes "redis_up st" "env_factor env = Some (ms, ver)"
    and "live_challenge (challenge_key env tok) st = Some c" "ch_attempts c < challenge_max_attempts"
    and "\<forall>(meth, code) \<in> set gs. \<forall>t f. ver (snd u) meth code t f = (Inl InvalidSecondFactor, f)"
  shows "finish_all env ans u tok gs st = replicate (length gs) (Inl (Factor InvalidSecondFactor))"
proof -
  have "young (challenge_key env tok) st" using assms(3,4) by (simp add: young_def)
  with assms(1,5) show ?thesis
  proof (induction gs arbitrary: st)
    case (Cons g gs)
    obtain meth code where g: "g = (meth, code)" by (cases g)
    obtain r st' where f: "challenge_finish env ans u tok meth code '''' '''' st = (r, st')" by fastforce
    have "r = Inl (Factor InvalidSecondFactor) \<and> redis_up st' \<and> young (challenge_key env tok) st'"
      by (rule racing_step [OF Cons.prems(1) assms(2) Cons.prems(3) _ f]) (use Cons.prems(2) g in auto)
    with Cons.IH [of st'] Cons.prems(2) g f show ?case by simp
  qed simp
qed

section \<open>One code, one session\<close>

lemma challenge_finish_factor:
  assumes "challenge_finish env ans u tok meth code plain jti st = (Inr s, st')" "env_factor env = Some (ms, ver)"
  shows "clock st' = clock st \<and> ver (snd u) meth code (clock st) (factor_db st) = (Inr (), factor_db st')"
proof -
  have up: "redis_up st" using assms by (auto simp: challenge_finish_def split: if_splits)
  obtain n st1 where hi: "hincr_attempts (challenge_key env tok) st = (n, st1)"
    by (cases "hincr_attempts (challenge_key env tok) st")
  obtain r st2 where v: "run_verifier env u meth code st1 = (r, st2)" by (cases "run_verifier env u meth code st1")
  have r: "r = Inr ()" and iss: "issue_session env u plain jti
      (reset_login_attempts ans (to_lower env (row_email u)) (del_challenge (challenge_key env tok) st2)) = (Inr s, st')"
    using assms(1) by (auto simp: challenge_finish_cases [OF up hi v] split: if_splits sum.splits)
  have "clock st1 = clock st" "factor_db st1 = factor_db st"
    using clock_hincr [of "challenge_key env tok" st] hi by simp_all
  with v r assms(2) have "ver (snd u) meth code (clock st) (factor_db st) = (Inr (), factor_db st2)"
    by (auto simp: run_verifier_def split: prod.splits)
  moreover have "factor_db st' = factor_db st2"
    using iss by (auto simp: issue_session_def create_refresh_token_def Let_def reset_login_attempts_def del_challenge_def
        split: if_splits)
  moreover have "clock st' = clock st"
    using base_challenge_finish [of st env ans u tok meth code plain jti st] assms(1) by (simp add: same_base_def)
  ultimately show ?thesis by simp
qed

text \<open>The login service on top of any verifier that spends what it accepts.\<close>

locale login_service = second_factor verifier
  for verifier :: "totp_user \<Rightarrow> string \<Rightarrow> string \<Rightarrow> instant \<Rightarrow> totp_db \<Rightarrow> (factor_error + unit) \<times> totp_db" +
  fixes env :: auth_env
  assumes wired: "env_factor env = Some (methods, verifier)"
begin

lemma second_submission_fails:
  assumes "challenge_finish env ans u tok meth code plain jti st = (Inr s, st')"
  shows "fst (challenge_finish env ans u tok' meth code plain' jti' st') \<noteq> Inr s'"
proof
  assume a: "fst (challenge_finish env ans u tok' meth code plain' jti' st') = Inr s'"
  obtain st'' where "challenge_finish env ans u tok' meth code plain' jti' st' = (Inr s', st'')"
    using a by (cases "challenge_finish env ans u tok' meth code plain' jti' st'") auto
  from challenge_finish_factor [OF this wired] challenge_finish_factor [OF assms wired]
  show False using verifier_spends [of "snd u" meth code "clock st" "factor_db st" "factor_db st'"] by simp
qed

end

interpretation server: login_service "verify a k gen sha"
  "new_auth_service ah rh rdb sig prs pw sh lower (verify a k gen sha) conf"
  by unfold_locales (simp add: new_auth_service_def)

text \<open>
  one code, one session. On the server as it is wired, two requests that present the same
  code in the same instant, on the same or different challenges, from the same row, cannot both
  end in a session.
\<close>
theorem same_code_one_session:
  assumes "challenge_finish (new_auth_service ah rh rdb sig prs pw sh lower (verify a k gen sha) conf) ans u tok meth code plain jti st
    = (Inr s, st')"
  shows "fst (challenge_finish (new_auth_service ah rh rdb sig prs pw sh lower (verify a k gen sha) conf) ans u tok' meth code plain' jti' st')
    \<noteq> Inr s'"
  by (rule server.second_submission_fails [OF assms])

section \<open>Witnesses\<close>

text \<open>A signer that writes the claims down, with its reader.\<close>

fun enc_str :: "string \<Rightarrow> string" where
  "enc_str [] = ''0''"
| "enc_str (c # s) = CHR ''1'' # c # enc_str s"

fun dec_str :: "string \<Rightarrow> string \<times> string" where
  "dec_str [] = ([], [])"
| "dec_str [x] = ([], [])"
| "dec_str (x # c # r) = (if x = CHR ''0'' then ([], c # r) else case dec_str r of (s, t) \<Rightarrow> (c # s, t))"

lemma dec_enc_str [simp]: "r \<noteq> [] \<Longrightarrow> dec_str (enc_str s @ r) = (s, r)"
  by (induction s) (auto simp: neq_Nil_conv)

definition enc_int :: "int \<Rightarrow> string" where
  "enc_int i = enc_str (replicate (nat i) CHR ''i'') @ enc_str (replicate (nat (- i)) CHR ''i'')"

definition dec_int :: "string \<Rightarrow> int \<times> string" where
  "dec_int s = (case dec_str s of (a, r) \<Rightarrow> case dec_str r of (b, t) \<Rightarrow> (int (length a) - int (length b), t))"

lemma dec_enc_int [simp]: "r \<noteq> [] \<Longrightarrow> dec_int (enc_int i @ r) = (i, r)"
  by (simp add: dec_int_def enc_int_def)

definition demo_sign :: "claims \<Rightarrow> string" where
  "demo_sign c = enc_str (cl_id c) @ enc_int (int (cl_user c)) @ enc_str (cl_email c) @ enc_str (cl_role c) @
     enc_int (cl_tseq c) @ enc_int (cl_exp c) @ ''.''"

definition demo_parse :: "string \<Rightarrow> instant \<Rightarrow> claims option" where
  "demo_parse tok t =
     (case dec_str tok of (jti, r1) \<Rightarrow> case dec_int r1 of (u, r2) \<Rightarrow> case dec_str r2 of (em, r3) \<Rightarrow>
      case dec_str r3 of (ro, r4) \<Rightarrow> case dec_int r4 of (sq, r5) \<Rightarrow> case dec_int r5 of (ex, r6) \<Rightarrow>
        if t < ex then Some \<lparr>cl_id = jti, cl_user = nat u, cl_email = em, cl_role = ro, cl_tseq = sq, cl_exp = ex\<rparr> else None)"

definition demo_account :: account where
  "demo_account = \<lparr>ac_email = ''a@b'', ac_role = ''admin'', ac_password = ''hash''\<rparr>"

definition demo_ver :: factor_verifier where
  "demo_ver u m c t f = (if c = ''7'' then (Inr (), f) else (Inl InvalidSecondFactor, f))"

definition demo_env :: auth_env where
  "demo_env = new_auth_service 1 0 True demo_sign demo_parse (\<lambda>h p. p = ''secret'') (map of_char) normalise_email demo_ver
     (\<lambda>_ _ _ _ f. (Inl InvalidSecondFactor, f))"

definition demo_auth_state :: "bool \<Rightarrow> auth_state" where
  "demo_auth_state mfa = \<lparr>clock = 1000, accounts = [(5, demo_account)],
     factor_db = \<lparr>totp_users = (\<lambda>i. if i = 5 then Some \<lparr>totp_id = 5, totp_secret = [1], totp_enabled = mfa, totp_last_step = None\<rparr> else None),
       recovery_codes = []\<rparr>,
     refresh_tokens = [\<lparr>rr_id = 0, rr_user = 5, rr_hash = map of_char ''r'', rr_expires = 9000, rr_revoked = False\<rparr>],
     login_attempts = (\<lambda>k. if k = ''a@b'' then Some \<lparr>at_count = 5, at_first = Some 900, at_locked = Some 1800\<rparr> else None),
     redis_up = True, token_seq = (\<lambda>i. if i = 5 then Some (1, 990) else None), jwt_blacklist = (\<lambda>_. None),
     challenges = (\<lambda>_. None),
     invitations = [\<lparr>iv_hash = map of_char ''inv'', iv_email = ''c@d'', iv_role = ''member'', iv_expires = Some 2000, iv_accepted = False\<rparr>]\<rparr>"

lemmas demo_auth_defs = demo_env_def new_auth_service_def expiry_or_def demo_auth_state_def demo_account_def

lemma demo_jwt_ok: "jwt_ok demo_env"
  by (simp add: jwt_ok_def demo_env_def new_auth_service_def demo_parse_def demo_sign_def)

definition demo_claims :: claims where
  "demo_claims = \<lparr>cl_id = ''j'', cl_user = 5, cl_email = ''a@b'', cl_role = ''admin'', cl_tseq = 0, cl_exp = 4000\<rparr>"

theorem revocation_is_final_witness:
  "validate_token demo_env (jwt_sign demo_env demo_claims)
     (foldl (auth_next demo_env) (revoke_user_sessions demo_env 5 (demo_auth_state False)) [EvWait 5, EvRevoke 5]) = Inl InvalidToken"
proof -
  have "cl_tseq demo_claims \<le> current_token_seq demo_env (demo_auth_state False) (cl_user demo_claims)"
    by (simp add: demo_claims_def current_token_seq_def demo_auth_defs)
  moreover have "redis_ok demo_env (demo_auth_state False)" "0 \<le> access_expiry demo_env"
    "cl_exp demo_claims \<le> clock (demo_auth_state False) + access_expiry demo_env"
    by (simp_all add: redis_ok_def demo_claims_def demo_auth_defs)
  ultimately show ?thesis
    using revocation_is_final [OF demo_jwt_ok, of "demo_auth_state False" demo_claims "[EvWait 5, EvRevoke 5]"]
    by (simp add: demo_claims_def)
qed

theorem revocation_misses_token_witness:
  "validate_token demo_env (jwt_sign demo_env (demo_claims\<lparr>cl_tseq := 1\<rparr>))
     (revoke_user_sessions demo_env 5 (demo_auth_state False)) = Inr (demo_claims\<lparr>cl_tseq := 1\<rparr>)"
  using revocation_misses_token [OF demo_jwt_ok, of "demo_auth_state False" "demo_claims\<lparr>cl_tseq := 1\<rparr>" 1 990]
  by (simp add: redis_ok_def demo_claims_def blacklisted_def demo_auth_defs)

lemma demo_refresh: "\<exists>s st'. refresh demo_env ''r'' True ''n'' ''j'' (demo_auth_state False) = (Inr s, st')"
  by (simp add: refresh_def refresh_lookup_def get_active_refresh_token_def hash_refresh_token_def refresh_finish_def Let_def
      get_user_by_id_def revoke_where_def issue_session_def create_refresh_token_def demo_auth_defs)

theorem refresh_token_single_use_witness:
  "fst (handle_refresh demo_env (Some ''r'') True ''m'' ''k''
     (foldl (auth_next demo_env) (snd (refresh demo_env ''r'' True ''n'' ''j'' (demo_auth_state False))) [EvWait 5]))
   = Refused InvalidToken"
proof -
  obtain s st' where r: "refresh demo_env ''r'' True ''n'' ''j'' (demo_auth_state False) = (Inr s, st')"
    using demo_refresh by blast
  have "distinct (map rr_hash (refresh_tokens (demo_auth_state False)))" by (simp add: demo_auth_state_def)
  from refresh_token_single_use [OF r this, of True "''m''" "''k''" "[EvWait 5]"] show ?thesis by (simp add: r)
qed

theorem inflight_refresh_outlives_revocation_witness:
  "\<exists>row s st'. refresh_lookup demo_env ''r'' (demo_auth_state False) = Inr row \<and>
     refresh_finish demo_env row True ''n'' ''j'' (revoke_user_sessions demo_env 5 (demo_auth_state False)) = (Inr s, st')"
proof -
  obtain row where row: "refresh_lookup demo_env ''r'' (demo_auth_state False) = Inr row" "rr_user row = 5"
    by (simp add: refresh_lookup_def get_active_refresh_token_def hash_refresh_token_def demo_auth_defs)
  obtain u where u: "get_user_by_id (rr_user row) (demo_auth_state False) = Some u"
    by (simp add: get_user_by_id_def demo_auth_defs row(2))
  have x: "0 < access_expiry demo_env" "0 < refresh_expiry demo_env" "jwt_blacklist (demo_auth_state False) ''j'' = None"
    "\<forall>r \<in> set (refresh_tokens (demo_auth_state False)). rr_hash r \<noteq> hash_refresh_token demo_env ''n''"
    by (simp_all add: demo_auth_defs hash_refresh_token_def)
  from inflight_refresh_outlives_revocation [OF row(1) u demo_jwt_ok x] row show ?thesis by auto
qed

theorem session_needs_credentials_witness:
  "\<exists>row u. refresh_lookup demo_env ''r'' (demo_auth_state False) = Inr row \<and>
     get_user_by_id (rr_user row) (demo_auth_state False) = Some u \<and> row_id u = 5"
proof -
  obtain s st' where "refresh demo_env ''r'' True ''n'' ''j'' (demo_auth_state False) = (Inr s, st')"
    using demo_refresh by blast
  then have s: "auth_step demo_env (demo_auth_state False) (EvRefresh (Some ''r'') True ''n'' ''j'') = (SessionOk s, st')"
    by (simp add: handle_refresh_def)
  have id: "get_user_by_id i (demo_auth_state False) = Some (a, b) \<Longrightarrow> totp_id b = 5" for i a b
    by (auto simp: get_user_by_id_def demo_auth_defs split: if_splits option.splits)
  from session_needs_credentials [OF s] show ?thesis by (auto dest: id)
qed

theorem lockout_holds_witness:
  "handle_login demo_env (\<lambda>_. True) ''A@b'' ''secret'' '''' '''' '''' (foldl (auth_next demo_env) (demo_auth_state False) [EvWait 5]) =
    (LockedOut 795, foldl (auth_next demo_env) (demo_auth_state False) [EvWait 5])"
proof -
  have "same_keys demo_env (demo_auth_state False)" by (simp add: same_keys_def demo_auth_defs)
  moreover have "normalise_email ''A@b'' = ''a@b''" by code_simp
  ultimately show ?thesis
    using lockout_holds [of demo_env "demo_auth_state False" "''a@b''" "\<lparr>at_count = 5, at_first = Some 900, at_locked = Some 1800\<rparr>"
      1800 "[EvWait 5]" "''A@b''" "''secret''" "\<lambda>_. True" "''''" "''''" "''''"]
    by (simp add: demo_auth_state_def)
qed

definition demo_row :: user_row where
  "demo_row = (demo_account, \<lparr>totp_id = 5, totp_secret = [1], totp_enabled = True, totp_last_step = None\<rparr>)"

lemma demo_challenge:
  "issue_challenge demo_env demo_row ''c'' (demo_auth_state True) =
    (Inr \<lparr>lc_token = ''c'', lc_methods = [''totp'']\<rparr>,
     (demo_auth_state True)\<lparr>challenges := (\<lambda>_. None)(challenge_key demo_env ''c'' \<mapsto>
        \<lparr>ch_user = Some 5, ch_attempts = 0, ch_expires = Some 1300\<rparr>)\<rparr>)"
  by (simp add: issue_challenge_def demo_auth_defs demo_row_def methods_def has_mfa_def count_unused_recovery_codes_def
      unused_of_def challenge_ttl_def)

theorem challenge_allows_five_guesses_witness:
  "length (verdicts demo_env (challenge_key demo_env ''c'') (replicate 9 (EvVerify (\<lambda>_. True) ''c'' ''totp'' ''1'' ''n'' ''j''))
     (snd (issue_challenge demo_env demo_row ''c'' (demo_auth_state True)))) \<le> 5"
  using conjunct1 [OF challenge_allows_five_guesses [OF demo_challenge,
      of "replicate 9 (EvVerify (\<lambda>_. True) ''c'' ''totp'' ''1'' ''n'' ''j'')"]]
  by (simp add: demo_challenge)

theorem racing_guesses_are_unbounded_witness:
  "finish_all demo_env (\<lambda>_. True) demo_row ''c'' (replicate 100 (''totp'', ''1'')) (snd (issue_challenge demo_env demo_row ''c'' (demo_auth_state True)))
    = replicate 100 (Inl (Factor InvalidSecondFactor))"
proof -
  let ?st = "snd (issue_challenge demo_env demo_row ''c'' (demo_auth_state True))"
  have "live_challenge (challenge_key demo_env ''c'') ?st = Some \<lparr>ch_user = Some 5, ch_attempts = 0, ch_expires = Some 1300\<rparr>"
    by (simp add: demo_challenge) (simp add: live_challenge_def demo_auth_state_def)
  moreover have "redis_up ?st" by (simp add: demo_challenge) (simp add: demo_auth_state_def)
  moreover have "env_factor demo_env = Some (methods, demo_ver)" by (simp add: demo_env_def new_auth_service_def)
  ultimately show ?thesis
    using racing_guesses_are_unbounded [of ?st demo_env methods demo_ver "''c''" _ "replicate 100 (''totp'', ''1'')" demo_row]
    by (simp add: challenge_max_attempts_def demo_ver_def)
qed

definition demo_server :: auth_env where
  "demo_server = new_auth_service 1 0 True demo_sign demo_parse (\<lambda>h p. p = ''secret'') (map of_char) normalise_email
     (verify toy_aead demo_ring demo_gen demo_sha) (confirm_enrollment toy_aead demo_ring demo_gen demo_sha)"

lemma demo_finish:
  "\<exists>s st'. challenge_finish demo_server (\<lambda>_. True) (demo_account, demo_totp_user) ''c'' ''totp'' ''123456'' ''n'' ''j''
     ((demo_auth_state True)\<lparr>clock := 120, factor_db := demo_totp_db\<rparr>) = (Inr s, st')"
proof -
  obtain f where v: "verify toy_aead demo_ring demo_gen demo_sha demo_totp_user ''totp'' ''123456'' 120 demo_totp_db = (Inr (), f)"
    using demo_verify by blast
  show ?thesis
    by (simp add: challenge_finish_def hincr_attempts_def live_challenge_def run_verifier_def demo_server_def new_auth_service_def
        demo_auth_state_def v challenge_max_attempts_def issue_session_def create_refresh_token_def reset_login_attempts_def
        del_challenge_def Let_def hash_refresh_token_def)
qed

theorem same_code_one_session_witness:
  "\<exists>s st'. challenge_finish demo_server (\<lambda>_. True) (demo_account, demo_totp_user) ''c'' ''totp'' ''123456'' ''n'' ''j''
     ((demo_auth_state True)\<lparr>clock := 120, factor_db := demo_totp_db\<rparr>) = (Inr s, st') \<and>
     (\<forall>s'. fst (challenge_finish demo_server (\<lambda>_. True) (demo_account, demo_totp_user) ''d'' ''totp'' ''123456'' ''m'' ''k'' st') \<noteq> Inr s')"
proof -
  obtain s st' where f: "challenge_finish demo_server (\<lambda>_. True) (demo_account, demo_totp_user) ''c'' ''totp'' ''123456'' ''n'' ''j''
     ((demo_auth_state True)\<lparr>clock := 120, factor_db := demo_totp_db\<rparr>) = (Inr s, st')" using demo_finish by blast
  have "fst (challenge_finish demo_server (\<lambda>_. True) (demo_account, demo_totp_user) ''d'' ''totp'' ''123456'' ''m'' ''k'' st') \<noteq> Inr s'" for s'
    unfolding demo_server_def by (rule same_code_one_session [OF f [unfolded demo_server_def]])
  with f show ?thesis by blast
qed

end
