(* ===== verification/Tokens.thy ===== *)
theory Tokens
  imports Prelude Authz Sessions
begin

text \<open>
  Personal access tokens and the authentication middleware (\<open>internal/service/token.go\<close>,
  \<open>internal/handler/tokens.go\<close>, \<open>internal/server/middleware/auth.go\<close>, \<open>csrf.go\<close>, and the
  statements of \<open>store/generated/api_tokens.sql.go\<close> with the constraints of migrations 000066
  and 000067). The middleware joins the other theories: a session goes through
  \<open>validate_token\<close> of the sessions, and its result is the caller the authorization rules read.

  The random plaintext and the row id are arguments; SHA-256 is the parameter \<open>sha\<close>, UUID
  parsing the parameter \<open>scan\<close>, the projects table a lookup.
\<close>

section \<open>State\<close>

record token_row =
  tk_id :: uuid
  tk_user :: uuid
  tk_name :: string
  tk_hash :: bytes
  tk_scopes :: "string list"
  tk_pinned :: bool
  tk_role :: string
  tk_expires :: "instant option"
  tk_used :: "instant option"

record token_db =
  api_tokens :: "token_row list"
  token_pins :: "(uuid \<times> uuid) list"
  user_roles :: "uuid \<Rightarrow> string option"
  project_ids :: "uuid list"

record auth_token =
  at_token :: uuid
  at_user :: uuid
  at_role :: string
  at_scopes :: "string list"
  at_pinned :: bool
  at_projects :: "string list"

datatype token_error = InvalidAPIToken | TokenLookupFailed

definition token_prefix :: string where "token_prefix = ''belune_pat_''"
definition last_used_coarsen :: duration where "last_used_coarsen = 5 * 60"

definition has_token_prefix :: "string \<Rightarrow> bool" where
  "has_token_prefix s = prefix token_prefix s"

definition min_role :: "string \<Rightarrow> string \<Rightarrow> string" where
  "min_role a b = (if a = ''admin'' \<and> b = ''admin'' then ''admin'' else ''member'')"

section \<open>The statements\<close>

definition create_api_token_row :: "token_row \<Rightarrow> token_db \<Rightarrow> token_db option" where
  "create_api_token_row t db =
     (if list_ex (\<lambda>r. tk_id r = tk_id t \<or> tk_hash r = tk_hash t) (api_tokens db) \<or> user_roles db (tk_user t) = None
      then None else Some (db\<lparr>api_tokens := api_tokens db @ [t]\<rparr>))"

definition create_token_pins :: "uuid \<Rightarrow> uuid list \<Rightarrow> token_db \<Rightarrow> token_db option" where
  "create_token_pins i ps db =
     (if \<not> distinct ps \<or> list_ex (\<lambda>p. (i, p) \<in> set (token_pins db) \<or> p \<notin> set (project_ids db)) ps
      then None else Some (db\<lparr>token_pins := token_pins db @ map (Pair i) ps\<rparr>))"

definition get_token_by_hash :: "bytes \<Rightarrow> token_db \<Rightarrow> (token_row \<times> string \<times> uuid list) option" where
  "get_token_by_hash h db =
     (case find (\<lambda>t. tk_hash t = h) (api_tokens db) of
        None \<Rightarrow> None
      | Some t \<Rightarrow>
          (case user_roles db (tk_user t) of
             None \<Rightarrow> None
           | Some r \<Rightarrow> Some (t, r, map snd (filter (\<lambda>(i, p). i = tk_id t) (token_pins db)))))"

definition update_last_used :: "uuid \<Rightarrow> instant \<Rightarrow> instant \<Rightarrow> token_db \<Rightarrow> token_db" where
  "update_last_used i now threshold db =
     db\<lparr>api_tokens := map (\<lambda>t. if tk_id t = i \<and> (case tk_used t of None \<Rightarrow> True | Some u \<Rightarrow> u < threshold)
                           then t\<lparr>tk_used := Some now\<rparr> else t) (api_tokens db)\<rparr>"

definition delete_api_token :: "uuid \<Rightarrow> uuid \<Rightarrow> token_db \<Rightarrow> (string \<times> token_db) option" where
  "delete_api_token i u db =
     (case find (\<lambda>t. tk_id t = i \<and> tk_user t = u) (api_tokens db) of
        None \<Rightarrow> None
      | Some t \<Rightarrow> Some (tk_name t,
          db\<lparr>api_tokens := filter (\<lambda>t. \<not> (tk_id t = i \<and> tk_user t = u)) (api_tokens db),
             token_pins := filter (\<lambda>(j, p). j \<noteq> i) (token_pins db)\<rparr>))"

text \<open>What other parts of the server do to these tables: role changes, and deletions that cascade.\<close>

definition set_user_role :: "uuid \<Rightarrow> string \<Rightarrow> token_db \<Rightarrow> token_db" where
  "set_user_role u r db = db\<lparr>user_roles := (user_roles db)(u := map_option (\<lambda>_. r) (user_roles db u))\<rparr>"

definition drop_project :: "uuid \<Rightarrow> token_db \<Rightarrow> token_db" where
  "drop_project p db = db\<lparr>project_ids := filter (\<lambda>q. q \<noteq> p) (project_ids db),
     token_pins := filter (\<lambda>(i, q). q \<noteq> p) (token_pins db)\<rparr>"

definition drop_user :: "uuid \<Rightarrow> token_db \<Rightarrow> token_db" where
  "drop_user u db =
     (let gone = map tk_id (filter (\<lambda>t. tk_user t = u) (api_tokens db))
      in db\<lparr>user_roles := (user_roles db)(u := None), api_tokens := filter (\<lambda>t. tk_user t \<noteq> u) (api_tokens db),
            token_pins := filter (\<lambda>(i, p). i \<notin> set gone) (token_pins db)\<rparr>)"

section \<open>The service\<close>

definition authenticate :: "(string \<Rightarrow> bytes) \<Rightarrow> bool \<Rightarrow> string \<Rightarrow> instant \<Rightarrow> token_db \<Rightarrow> (token_error + auth_token) \<times> token_db" where
  "authenticate sha db_ok plain now db =
     (if \<not> db_ok then (Inl TokenLookupFailed, db)
      else case get_token_by_hash (sha plain) db of
        None \<Rightarrow> (Inl InvalidAPIToken, db)
      | Some (t, role, pids) \<Rightarrow>
          if (case tk_expires t of None \<Rightarrow> False | Some e \<Rightarrow> e < now) then (Inl InvalidAPIToken, db)
          else (Inr \<lparr>at_token = tk_id t, at_user = tk_user t, at_role = min_role (tk_role t) role,
                     at_scopes = tk_scopes t, at_pinned = tk_pinned t, at_projects = map uuid_string pids\<rparr>,
                update_last_used (tk_id t) now (now - last_used_coarsen) db))"

text \<open>\<open>Create\<close>: the row and its pins in one transaction.\<close>

definition create_token :: "token_row \<Rightarrow> uuid list \<Rightarrow> token_db \<Rightarrow> token_db option" where
  "create_token t ps db =
     Option.bind (create_api_token_row t db) (\<lambda>db1. if ps = [] then Some db1 else create_token_pins (tk_id t) ps db1)"

section \<open>The handlers\<close>

definition valid_token_expiry_days :: "int list" where
  "valid_token_expiry_days = [1, 7, 14, 30, 60, 90]"

definition max_pinned_projects :: nat where "max_pinned_projects = 100"

fun norm_scopes :: "string list \<Rightarrow> string list \<Rightarrow> string list" where
  "norm_scopes seen [] = []"
| "norm_scopes seen (s # ss) =
     (if s \<notin> set all_scopes \<or> s \<in> set seen then norm_scopes seen ss else s # norm_scopes (s # seen) ss)"

definition normalize_scopes :: "string list \<Rightarrow> string list option" where
  "normalize_scopes requested = (let out = norm_scopes [] requested in if out = [] then None else Some out)"

datatype token_reply = TkBad string | TkForbidden | TkNotFound | TkFailed | TkCreated token_row "uuid list" | TkDeleted string

text \<open>The loop over the requested project ids; blank ones are skipped, repeated ones kept once.\<close>

fun pin_loop ::
    "(string \<Rightarrow> uuid option) \<Rightarrow> (uuid \<Rightarrow> owner_row lookup) \<Rightarrow> caller \<Rightarrow> uuid list \<Rightarrow> string list \<Rightarrow> token_reply + uuid list" where
  "pin_loop scan projects c seen [] = Inr []"
| "pin_loop scan projects c seen (raw # raws) =
     (if raw = '''' then pin_loop scan projects c seen raws
      else case scan raw of
        None \<Rightarrow> Inl (TkBad ''invalid project id'')
      | Some p \<Rightarrow>
          if p \<in> set seen then pin_loop scan projects c seen raws
          else if \<not> can_access_owned scan c (projects p) then Inl TkForbidden
          else (case projects p of
                  Found row \<Rightarrow> res_bind (pin_loop scan projects c (p # seen) raws) (\<lambda>ps. Inr (p # ps))
                | _ \<Rightarrow> Inl TkNotFound))"

definition new_token_row ::
    "(string \<Rightarrow> bytes) \<Rightarrow> caller \<Rightarrow> uuid \<Rightarrow> string \<Rightarrow> int option \<Rightarrow> string list \<Rightarrow> string \<Rightarrow> uuid \<Rightarrow> instant \<Rightarrow>
     uuid list \<Rightarrow> token_row" where
  "new_token_row sha c user name days ss plain i now ps =
     \<lparr>tk_id = i, tk_user = user, tk_name = trim_space name, tk_hash = sha (token_prefix @ plain),
      tk_scopes = ss, tk_pinned = (ps \<noteq> []), tk_role = ctx_role c,
      tk_expires = map_option (\<lambda>d. now + d * 86400) days, tk_used = None\<rparr>"

definition handle_create_token ::
    "(string \<Rightarrow> bytes) \<Rightarrow> (string \<Rightarrow> uuid option) \<Rightarrow> (uuid \<Rightarrow> owner_row lookup) \<Rightarrow> caller \<Rightarrow> uuid \<Rightarrow> string \<Rightarrow>
     int option \<Rightarrow> string list \<Rightarrow> string list \<Rightarrow> string \<Rightarrow> uuid \<Rightarrow> instant \<Rightarrow> token_db \<Rightarrow> token_reply \<times> token_db" where
  "handle_create_token sha scan projects c user name days scopes raws plain i now db =
     (if trim_space name = '''' then (TkBad ''name is required'', db)
      else case normalize_scopes scopes of
        None \<Rightarrow> (TkBad ''select at least one valid scope'', db)
      | Some ss \<Rightarrow>
          if (case days of None \<Rightarrow> False | Some d \<Rightarrow> d \<notin> set valid_token_expiry_days)
          then (TkBad ''invalid expires_in_days'', db)
          else if length raws > max_pinned_projects then (TkBad ''cannot pin to more projects'', db)
          else case pin_loop scan projects c [] raws of
            Inl r \<Rightarrow> (r, db)
          | Inr ps \<Rightarrow>
              (let t = new_token_row sha c user name days ss plain i now ps
               in case create_token t ps db of
                    None \<Rightarrow> (TkFailed, db)
                  | Some db' \<Rightarrow> (TkCreated t ps, db')))"

definition handle_delete_token :: "uuid \<Rightarrow> uuid \<Rightarrow> token_db \<Rightarrow> token_reply \<times> token_db" where
  "handle_delete_token i user db =
     (case delete_api_token i user db of None \<Rightarrow> (TkNotFound, db) | Some (name, db') \<Rightarrow> (TkDeleted name, db'))"

section \<open>The middleware\<close>

record http_request =
  rq_method :: string
  rq_auth :: string \<comment> \<open>the Authorization header, empty when absent\<close>
  rq_cookie :: "string option" \<comment> \<open>the session cookie\<close>
  rq_csrf_cookie :: "string option"
  rq_csrf_header :: string

definition bearer_token :: "http_request \<Rightarrow> string option" where
  "bearer_token r = cut_prefix ''Bearer '' (rq_auth r)"

definition extract_token :: "http_request \<Rightarrow> string" where
  "extract_token r =
     (case bearer_token r of
        Some v \<Rightarrow> v
      | None \<Rightarrow> (case rq_cookie r of Some v \<Rightarrow> v | None \<Rightarrow> ''''))"

definition token_caller :: "auth_token \<Rightarrow> caller" where
  "token_caller t =
     \<lparr>ctx_user_id = uuid_string (at_user t), ctx_role = at_role t, ctx_token_id = uuid_string (at_token t),
      ctx_scopes = Some (at_scopes t), ctx_pinned = at_pinned t,
      ctx_project_ids = (if at_pinned t then Some (at_projects t) else None)\<rparr>"

definition session_caller :: "claims \<Rightarrow> caller" where
  "session_caller c =
     \<lparr>ctx_user_id = uuid_string (cl_user c), ctx_role = cl_role c, ctx_token_id = '''',
      ctx_scopes = None, ctx_pinned = False, ctx_project_ids = None\<rparr>"

text \<open>The result of \<open>Auth\<close>: a status, or the caller the handlers see.\<close>

definition auth_middleware ::
    "auth_env \<Rightarrow> bool \<Rightarrow> http_request \<Rightarrow> auth_state \<Rightarrow> token_db \<Rightarrow> (nat + caller) \<times> token_db" where
  "auth_middleware env db_ok r st db =
     (case (case bearer_token r of Some b \<Rightarrow> if has_token_prefix b then Some b else None | None \<Rightarrow> None) of
        Some b \<Rightarrow>
          (case authenticate (sha256 env) db_ok b (clock st) db of
             (Inl InvalidAPIToken, db') \<Rightarrow> (Inl 401, db')
           | (Inl TokenLookupFailed, db') \<Rightarrow> (Inl 500, db')
           | (Inr t, db') \<Rightarrow> (Inr (token_caller t), db'))
      | None \<Rightarrow>
          if extract_token r = '''' then (Inl 401, db)
          else (case validate_token env (extract_token r) st of
                  Inl e \<Rightarrow> (Inl 401, db)
                | Inr c \<Rightarrow> (Inr (session_caller c), db)))"

definition csrf :: "http_request \<Rightarrow> bool" where
  "csrf r \<longleftrightarrow>
     rq_method r = ''GET'' \<or> rq_method r = ''HEAD'' \<or> rq_method r = ''OPTIONS''
     \<or> prefix ''Bearer '' (rq_auth r)
     \<or> (case rq_csrf_cookie r of
          None \<Rightarrow> False
        | Some v \<Rightarrow> v \<noteq> '''' \<and> rq_csrf_header r \<noteq> '''' \<and> v = rq_csrf_header r)"

section \<open>A token only shrinks\<close>

datatype token_event =
    TeCreate token_row "uuid list"
  | TeDelete uuid uuid
  | TeRole uuid string
  | TeDropProject uuid
  | TeDropUser uuid
  | TeUse string bool instant

fun token_step :: "(string \<Rightarrow> bytes) \<Rightarrow> token_db \<Rightarrow> token_event \<Rightarrow> token_db" where
  "token_step sha db (TeCreate t ps) = (case create_token t ps db of None \<Rightarrow> db | Some db' \<Rightarrow> db')"
| "token_step sha db (TeDelete i u) = snd (handle_delete_token i u db)"
| "token_step sha db (TeRole u r) = set_user_role u r db"
| "token_step sha db (TeDropProject p) = drop_project p db"
| "token_step sha db (TeDropUser u) = drop_user u db"
| "token_step sha db (TeUse plain ok now) = snd (authenticate sha ok plain now db)"

text \<open>Random ids and hashes are not drawn twice.\<close>

fun fresh_for :: "token_row \<Rightarrow> token_event \<Rightarrow> bool" where
  "fresh_for t (TeCreate r ps) = (tk_id r \<noteq> tk_id t \<and> tk_hash r \<noteq> tk_hash t)"
| "fresh_for t e = True"

definition core :: "token_row \<Rightarrow> token_row" where "core t = t\<lparr>tk_used := None\<rparr>"

definition minted :: "token_row \<Rightarrow> uuid set \<Rightarrow> token_db \<Rightarrow> bool" where
  "minted t P db \<longleftrightarrow>
     (\<forall>r \<in> set (api_tokens db). tk_id r = tk_id t \<or> tk_hash r = tk_hash t \<longrightarrow> core r = core t) \<and>
     (\<forall>p. (tk_id t, p) \<in> set (token_pins db) \<longrightarrow> p \<in> P)"

definition forgotten :: "token_row \<Rightarrow> token_db \<Rightarrow> bool" where
  "forgotten t db \<longleftrightarrow> (\<forall>r \<in> set (api_tokens db). tk_hash r \<noteq> tk_hash t)"

lemma update_last_used_tokens: "r \<in> set (api_tokens (update_last_used i now th db)) \<Longrightarrow>
    \<exists>q \<in> set (api_tokens db). core r = core q \<and> tk_id r = tk_id q \<and> tk_hash r = tk_hash q"
  by (auto simp: update_last_used_def core_def simp del: if_image_distrib split: if_splits)

lemma update_last_used_pins [simp]: "token_pins (update_last_used i now th db) = token_pins db"
  by (simp add: update_last_used_def)

lemma create_token_tables:
  "create_token r ps db = Some db' \<Longrightarrow>
     api_tokens db' = api_tokens db @ [r] \<and> set (token_pins db') = set (token_pins db) \<union> Pair (tk_id r) ` set ps \<and>
     (\<forall>q \<in> set (api_tokens db). tk_id q \<noteq> tk_id r \<and> tk_hash q \<noteq> tk_hash r) \<and> user_roles db' = user_roles db"
  by (auto simp: create_token_def create_api_token_row_def create_token_pins_def bind_eq_Some_conv list_ex_iff split: if_splits)

lemma delete_tables:
  "set (api_tokens (snd (handle_delete_token i u db))) \<subseteq> set (api_tokens db) \<and>
   set (token_pins (snd (handle_delete_token i u db))) \<subseteq> set (token_pins db)"
  by (auto simp: handle_delete_token_def delete_api_token_def split: option.splits)

lemma minted_subset:
  "minted t P db \<Longrightarrow> set (api_tokens db') \<subseteq> set (api_tokens db) \<Longrightarrow> set (token_pins db') \<subseteq> set (token_pins db) \<Longrightarrow> minted t P db'"
  by (auto simp: minted_def)

lemma minted_touch: "minted t P db \<Longrightarrow> minted t P (update_last_used i now th db)"
  by (auto simp: minted_def dest!: update_last_used_tokens)

lemma minted_step: "minted t P db \<Longrightarrow> fresh_for t e \<Longrightarrow> minted t P (token_step sha db e)"
proof (cases e)
  case (TeCreate r ps)
  assume "minted t P db" "fresh_for t e"
  with TeCreate show ?thesis
    by (cases "create_token r ps db") (auto simp: minted_def dest!: create_token_tables)
next
  case (TeUse plain ok now)
  assume "minted t P db"
  with TeUse show ?thesis by (auto simp: authenticate_def minted_touch split: option.splits prod.splits)
next
  case (TeDelete i u)
  assume "minted t P db"
  with TeDelete show ?thesis using delete_tables [of i u db] by (auto intro: minted_subset)
qed (auto elim!: minted_subset simp: set_user_role_def drop_project_def drop_user_def Let_def)

lemma minted_run: "minted t P db \<Longrightarrow> \<forall>e \<in> set es. fresh_for t e \<Longrightarrow> minted t P (foldl (token_step sha) db es)"
  by (induction es arbitrary: db) (simp_all add: minted_step)

lemma forgotten_step: "forgotten t db \<Longrightarrow> fresh_for t e \<Longrightarrow> forgotten t (token_step sha db e)"
proof (cases e)
  case (TeCreate r ps)
  assume "forgotten t db" "fresh_for t e"
  with TeCreate show ?thesis
    by (cases "create_token r ps db") (auto simp: forgotten_def dest!: create_token_tables)
next
  case (TeUse plain ok now)
  assume "forgotten t db"
  with TeUse show ?thesis
    by (auto simp: authenticate_def forgotten_def split: option.splits prod.splits dest!: update_last_used_tokens)
next
  case (TeDelete i u)
  assume "forgotten t db"
  with TeDelete show ?thesis using delete_tables [of i u db] by (auto simp: forgotten_def)
qed (auto simp: forgotten_def set_user_role_def drop_project_def drop_user_def Let_def)

lemma forgotten_run: "forgotten t db \<Longrightarrow> \<forall>e \<in> set es. fresh_for t e \<Longrightarrow> forgotten t (foldl (token_step sha) db es)"
  by (induction es arbitrary: db) (simp_all add: forgotten_step)

lemma authenticate_Inr:
  assumes "authenticate sha ok plain now db = (Inr a, db')"
  obtains t role where "t \<in> set (api_tokens db)" "tk_hash t = sha plain" "user_roles db (tk_user t) = Some role"
    "case tk_expires t of None \<Rightarrow> True | Some e \<Rightarrow> now \<le> e"
    "at_token a = tk_id t" "at_user a = tk_user t" "at_role a = min_role (tk_role t) role" "at_scopes a = tk_scopes t"
    "at_pinned a = tk_pinned t" "set (at_projects a) = uuid_string ` {p. (tk_id t, p) \<in> set (token_pins db)}"
proof -
  obtain t role pids where g: "get_token_by_hash (sha plain) db = Some (t, role, pids)"
    and e: "case tk_expires t of None \<Rightarrow> True | Some e \<Rightarrow> now \<le> e"
    and a: "a = \<lparr>at_token = tk_id t, at_user = tk_user t, at_role = min_role (tk_role t) role,
                     at_scopes = tk_scopes t, at_pinned = tk_pinned t, at_projects = map uuid_string pids\<rparr>"
    using assms by (auto simp: authenticate_def split: if_splits option.splits prod.splits)
  from g have f: "find (\<lambda>t. tk_hash t = sha plain) (api_tokens db) = Some t" and r: "user_roles db (tk_user t) = Some role"
    and p: "pids = map snd (filter (\<lambda>(i, p). i = tk_id t) (token_pins db))"
    by (auto simp: get_token_by_hash_def split: option.splits)
  have "set pids = {p. (tk_id t, p) \<in> set (token_pins db)}" by (force simp: p)
  with find_Some_in [OF f] r e a show thesis by (intro that [of t role]) simp_all
qed

lemma core_fields:
  assumes "core r = core t"
  shows "tk_id r = tk_id t" "tk_user r = tk_user t" "tk_role r = tk_role t" "tk_scopes r = tk_scopes t"
    "tk_pinned r = tk_pinned t" "tk_expires r = tk_expires t"
  using assms by (cases r; cases t; simp add: core_def)+

text \<open>
  C14: a token only shrinks. Whatever happens after it was minted (role changes, deleted projects
  and users, other tokens, its own use), what it authenticates as has the scopes, the pin flag and
  the owner it was minted with, reaches at most the projects it was pinned to, is an admin only
  if it was minted by one and its owner is one now, and is never accepted past its expiry.
\<close>
theorem token_only_shrinks:
  assumes "create_token t ps db = Some db0" "\<forall>p. (tk_id t, p) \<notin> set (token_pins db)"
    and "\<forall>e \<in> set es. fresh_for t e" "sha plain = tk_hash t"
    and "authenticate sha ok plain now (foldl (token_step sha) db0 es) = (Inr a, db')"
  shows "at_user a = tk_user t \<and> at_scopes a = tk_scopes t \<and> at_pinned a = tk_pinned t \<and>
     set (at_projects a) \<subseteq> uuid_string ` set ps \<and>
     (at_role a = ''admin'' \<longrightarrow> tk_role t = ''admin'' \<and>
        user_roles (foldl (token_step sha) db0 es) (tk_user t) = Some ''admin'') \<and>
     (case tk_expires t of None \<Rightarrow> True | Some e \<Rightarrow> now \<le> e)"
proof -
  have "minted t (set ps) db0" using create_token_tables [OF assms(1)] assms(2) by (auto simp: minted_def)
  from minted_run [OF this assms(3)] have m: "minted t (set ps) (foldl (token_step sha) db0 es)" .
  obtain r role where r: "r \<in> set (api_tokens (foldl (token_step sha) db0 es))" "tk_hash r = sha plain"
    "user_roles (foldl (token_step sha) db0 es) (tk_user r) = Some role"
    "case tk_expires r of None \<Rightarrow> True | Some e \<Rightarrow> now \<le> e"
    "at_token a = tk_id r" "at_user a = tk_user r" "at_role a = min_role (tk_role r) role" "at_scopes a = tk_scopes r"
    "at_pinned a = tk_pinned r"
    "set (at_projects a) = uuid_string ` {p. (tk_id r, p) \<in> set (token_pins (foldl (token_step sha) db0 es))}"
    by (rule authenticate_Inr [OF assms(5)])
  have "core r = core t" using m r(1,2) assms(4) by (simp add: minted_def)
  with core_fields [OF this] r m show ?thesis by (auto simp: minted_def min_role_def split: if_splits)
qed

text \<open>
  a deleted token is dead for good: from its deletion on, every authentication with it fails
  with \<open>ErrInvalidAPIToken\<close> as long as the database answers.
\<close>
theorem deleted_token_stays_dead:
  assumes "handle_delete_token (tk_id t) (tk_user t) db = (TkDeleted name, db0)"
    and "t \<in> set (api_tokens db)" "distinct (map tk_hash (api_tokens db))"
    and "\<forall>e \<in> set es. fresh_for t e" "sha plain = tk_hash t"
  shows "fst (authenticate sha True plain now (foldl (token_step sha) db0 es)) = Inl InvalidAPIToken"
proof -
  have "\<forall>r \<in> set (api_tokens db). tk_hash r = tk_hash t \<longrightarrow> r = t"
    using assms(2,3) by (auto simp: distinct_map inj_on_def)
  then have "forgotten t db0"
    using assms(1) by (auto simp: handle_delete_token_def delete_api_token_def forgotten_def split: option.splits prod.splits)
  from forgotten_run [OF this assms(4)] have "forgotten t (foldl (token_step sha) db0 es)" .
  then have "find (\<lambda>t. tk_hash t = sha plain) (api_tokens (foldl (token_step sha) db0 es)) = None"
    using assms(5) by (auto simp: forgotten_def find_None_iff)
  then show ?thesis by (simp add: authenticate_def get_token_by_hash_def)
qed

section \<open>Who the middleware lets in\<close>

text \<open>
  C15: what a browser sends by itself never acts alone. If the CSRF check and the authentication
  both pass a request that is not a plain read, then either the credential is the explicit
  Authorization header, or the caller is a session (never a token) of the cookie and the request
  carries the CSRF value of its cookie in the header.
\<close>
theorem cookie_identity_needs_csrf:
  assumes "csrf r" "rq_method r \<notin> {''GET'', ''HEAD'', ''OPTIONS''}"
    and "auth_middleware env ok r st db = (Inr c, db')"
  shows "(\<exists>b. bearer_token r = Some b \<and> extract_token r = b \<and> b \<noteq> '''') \<or>
     (\<exists>cl v. bearer_token r = None \<and> rq_cookie r = Some v \<and> validate_token env v st = Inr cl \<and> c = session_caller cl \<and>
        ctx_token_id c = '''' \<and> rq_csrf_cookie r = Some (rq_csrf_header r) \<and> rq_csrf_header r \<noteq> '''')"
proof (cases "bearer_token r")
  case None
  then have np: "\<not> prefix ''Bearer '' (rq_auth r)" by (auto simp: bearer_token_def cut_prefix_def split: if_splits)
  then have "rq_csrf_cookie r = Some (rq_csrf_header r)" "rq_csrf_header r \<noteq> ''''"
    using assms(1,2) by (auto simp: csrf_def split: option.splits)
  moreover obtain cl v where "rq_cookie r = Some v" "validate_token env v st = Inr cl" "c = session_caller cl"
    using assms(3) None
    by (auto simp: auth_middleware_def extract_token_def split: if_splits option.splits sum.splits)
  ultimately show ?thesis using None by (simp add: session_caller_def)
next
  case (Some b)
  have "b \<noteq> ''''"
    using assms(3) Some by (auto simp: auth_middleware_def extract_token_def has_token_prefix_def token_prefix_def split: if_splits)
  with Some show ?thesis by (simp add: extract_token_def)
qed

section \<open>What a create request mints\<close>

lemma norm_scopes_set: "set (norm_scopes seen ss) = (set ss \<inter> set all_scopes) - set seen \<and> distinct (norm_scopes seen ss)"
  by (induction ss arbitrary: seen) auto

lemma pin_loop_Inr:
  "pin_loop scan projects c seen raws = Inr ps \<Longrightarrow>
     distinct ps \<and> set ps = {p. \<exists>raw \<in> set raws. raw \<noteq> '''' \<and> scan raw = Some p} - set seen \<and>
     (\<forall>p \<in> set ps. can_access_owned scan c (projects p) \<and> (\<exists>row. projects p = Found row))"
proof (induction raws arbitrary: seen ps)
  case (Cons raw raws)
  show ?case
  proof (cases "raw = ''''")
    case True
    with Cons show ?thesis by auto
  next
    case False
    with Cons.prems obtain p where p: "scan raw = Some p" by (auto split: option.splits)
    show ?thesis
    proof (cases "p \<in> set seen")
      case True
      with Cons False p show ?thesis by auto
    next
      case out: False
      with Cons.prems False p obtain row qs where q: "pin_loop scan projects c (p # seen) raws = Inr qs" "ps = p # qs"
          "can_access_owned scan c (projects p)" "projects p = Found row"
        by (auto simp: res_simps split: if_splits lookup.splits)
      from Cons.IH [OF q(1)] q False p out show ?thesis by auto
    qed
  qed
qed simp

lemma pin_loop_Inl: "pin_loop scan projects c seen raws = Inl r \<Longrightarrow> r \<in> {TkBad ''invalid project id'', TkForbidden, TkNotFound}"
  by (induction raws arbitrary: seen) (auto simp: res_simps split: if_splits option.splits lookup.splits)

lemma pin_loop_parses: "pin_loop scan projects c seen raws = Inr ps \<Longrightarrow> raw \<in> set raws \<Longrightarrow> raw \<noteq> '''' \<Longrightarrow> \<exists>p. scan raw = Some p"
  by (induction raws arbitrary: seen ps) (auto simp: res_simps split: if_splits option.splits lookup.splits)

text \<open>
  a created token is exactly what was asked for: known scopes from the request, at least one,
  none twice; the role of the caller; pinned to exactly the projects named, each of which exists
  and is within the caller's reach; and pinned at all only if some project id was not blank.
\<close>
theorem created_token_matches_request:
  assumes "handle_create_token sha scan projects c user name days scopes raws plain i now db = (TkCreated t ps, db')"
  shows "set (tk_scopes t) = set scopes \<inter> set all_scopes \<and> tk_scopes t \<noteq> [] \<and> distinct (tk_scopes t) \<and>
     tk_role t = ctx_role c \<and> tk_user t = user \<and>
     distinct ps \<and> set ps = {p. \<exists>raw \<in> set raws. raw \<noteq> '''' \<and> scan raw = Some p} \<and>
     (\<forall>p \<in> set ps. can_access_owned scan c (projects p) \<and> (\<exists>row. projects p = Found row)) \<and>
     (tk_pinned t \<longleftrightarrow> (\<exists>raw \<in> set raws. raw \<noteq> '''')) \<and>
     create_token t ps db = Some db'"
proof -
  obtain ss where ss: "normalize_scopes scopes = Some ss" and pl: "pin_loop scan projects c [] raws = Inr ps"
    and t: "t = new_token_row sha c user name days ss plain i now ps"
    and cr: "create_token t ps db = Some db'"
    using assms by (auto simp: handle_create_token_def Let_def split: if_splits option.splits sum.splits dest: pin_loop_Inl)
  have "(\<exists>p. \<exists>raw \<in> set raws. raw \<noteq> '''' \<and> scan raw = Some p) \<longleftrightarrow> (\<exists>raw \<in> set raws. raw \<noteq> '''')"
    using pin_loop_parses [OF pl] by (intro iffI) (blast, metis)
  moreover have "set ps = {p. \<exists>raw \<in> set raws. raw \<noteq> '''' \<and> scan raw = Some p}" using pin_loop_Inr [OF pl] by simp
  then have "(\<exists>p. p \<in> set ps) \<longleftrightarrow> (\<exists>p. \<exists>raw \<in> set raws. raw \<noteq> '''' \<and> scan raw = Some p)" by simp
  moreover have "ps \<noteq> [] \<longleftrightarrow> (\<exists>p. p \<in> set ps)" by (cases ps) auto
  ultimately have "ps \<noteq> [] \<longleftrightarrow> (\<exists>raw \<in> set raws. raw \<noteq> '''')" by simp
  moreover have "set ss = set scopes \<inter> set all_scopes \<and> distinct ss \<and> ss \<noteq> []"
    using ss norm_scopes_set [of "[]" scopes] by (auto simp: normalize_scopes_def Let_def split: if_splits)
  ultimately show ?thesis using pin_loop_Inr [OF pl] cr by (simp add: t new_token_row_def)
qed

text \<open>
  a create request is never answered with a server error by the tables' own constraints: with a
  fresh id and hash, a live owner, and projects that exist for the database when they exist for
  the handler, the insert of the row and of its pins goes through.
\<close>
theorem create_never_violates_constraints:
  assumes "\<forall>r \<in> set (api_tokens db). tk_id r \<noteq> i \<and> tk_hash r \<noteq> sha (token_prefix @ plain)"
    and "user_roles db user \<noteq> None" "\<forall>p. (i, p) \<notin> set (token_pins db)"
    and "\<forall>p row. projects p = Found row \<longrightarrow> p \<in> set (project_ids db)"
  shows "fst (handle_create_token sha scan projects c user name days scopes raws plain i now db) \<noteq> TkFailed"
proof -
  have ok: "\<exists>db'. create_token (new_token_row sha c user name days ss plain i now ps) ps db = Some db'"
    if "pin_loop scan projects c [] raws = Inr ps" for ps ss
    using pin_loop_Inr [OF that] assms
    by (auto simp: create_token_def create_api_token_row_def create_token_pins_def list_ex_iff new_token_row_def)
  show ?thesis
  proof (cases "pin_loop scan projects c [] raws")
    case (Inl r)
    with pin_loop_Inl [OF Inl] show ?thesis by (auto simp: handle_create_token_def split: option.splits)
  next
    case (Inr ps)
    show ?thesis
    proof (cases "normalize_scopes scopes")
      case (Some ss)
      obtain db' where "create_token (new_token_row sha c user name days ss plain i now ps) ps db = Some db'"
        using ok [OF Inr] by blast
      with Inr Some show ?thesis by (simp add: handle_create_token_def)
    qed (simp add: handle_create_token_def)
  qed
qed

section \<open>Witnesses\<close>

definition demo_tsha :: "string \<Rightarrow> bytes" where "demo_tsha = map of_char"

definition demo_token :: token_row where
  "demo_token = \<lparr>tk_id = 8, tk_user = 5, tk_name = ''ci'', tk_hash = demo_tsha (token_prefix @ ''x''), tk_scopes = [''read''],
     tk_pinned = True, tk_role = ''admin'', tk_expires = None, tk_used = None\<rparr>"

definition demo_token_db :: token_db where
  "demo_token_db = \<lparr>api_tokens = [], token_pins = [], user_roles = (\<lambda>u. if u = 5 then Some ''admin'' else None),
     project_ids = [3, 4]\<rparr>"

definition demo_token_db1 :: token_db where
  "demo_token_db1 = demo_token_db\<lparr>api_tokens := [demo_token], token_pins := [(8, 3), (8, 4)]\<rparr>"

lemma demo_create: "create_token demo_token [3, 4] demo_token_db = Some demo_token_db1"
  by (simp add: create_token_def create_api_token_row_def create_token_pins_def demo_token_db_def demo_token_db1_def demo_token_def)

lemma demo_authenticate:
  "fst (authenticate demo_tsha True (token_prefix @ ''x'') 100
     (foldl (token_step demo_tsha) demo_token_db1 [TeRole 5 ''member'', TeDropProject 3])) =
   Inr \<lparr>at_token = 8, at_user = 5, at_role = ''member'', at_scopes = [''read''], at_pinned = True, at_projects = [uuid_string 4]\<rparr>"
  by (simp add: authenticate_def get_token_by_hash_def demo_token_db1_def demo_token_db_def demo_token_def set_user_role_def
      drop_project_def min_role_def)

theorem token_only_shrinks_witness:
  "\<exists>a. fst (authenticate demo_tsha True (token_prefix @ ''x'') 100
     (foldl (token_step demo_tsha) demo_token_db1 [TeRole 5 ''member'', TeDropProject 3])) = Inr a \<and>
   set (at_projects a) \<subseteq> uuid_string ` {3, 4} \<and> at_scopes a = [''read'']"
proof -
  obtain a db' where a: "authenticate demo_tsha True (token_prefix @ ''x'') 100
     (foldl (token_step demo_tsha) demo_token_db1 [TeRole 5 ''member'', TeDropProject 3]) = (Inr a, db')"
    using demo_authenticate by (metis prod.collapse)
  have "\<forall>p. (tk_id demo_token, p) \<notin> set (token_pins demo_token_db)" by (simp add: demo_token_db_def)
  moreover have "\<forall>e \<in> set [TeRole 5 ''member'', TeDropProject 3]. fresh_for demo_token e" by simp
  moreover have "demo_tsha (token_prefix @ ''x'') = tk_hash demo_token" by (simp add: demo_token_def)
  ultimately have "set (at_projects a) \<subseteq> uuid_string ` set [3, 4]" "at_scopes a = tk_scopes demo_token"
    using token_only_shrinks [OF demo_create _ _ _ a] by blast+
  with a show ?thesis by (auto simp: demo_token_def)
qed

theorem deleted_token_stays_dead_witness:
  "fst (authenticate demo_tsha True (token_prefix @ ''x'') 100
     (foldl (token_step demo_tsha) (snd (handle_delete_token 8 5 demo_token_db1)) [TeRole 5 ''admin''])) = Inl InvalidAPIToken"
proof -
  have d: "handle_delete_token (tk_id demo_token) (tk_user demo_token) demo_token_db1 =
      (TkDeleted ''ci'', demo_token_db)"
    by (simp add: handle_delete_token_def delete_api_token_def demo_token_db1_def demo_token_def demo_token_db_def)
  have "fst (authenticate demo_tsha True (token_prefix @ ''x'') 100
     (foldl (token_step demo_tsha) demo_token_db [TeRole 5 ''admin''])) = Inl InvalidAPIToken"
    by (rule deleted_token_stays_dead [OF d]) (simp_all add: demo_token_db1_def demo_token_def)
  with d show ?thesis by (simp add: demo_token_def)
qed

theorem cookie_identity_needs_csrf_witness:
  "\<exists>c. fst (auth_middleware demo_env True \<lparr>rq_method = ''POST'', rq_auth = '''', rq_cookie = Some (demo_sign demo_claims),
      rq_csrf_cookie = Some ''z'', rq_csrf_header = ''z''\<rparr> ((demo_auth_state False)\<lparr>token_seq := \<lambda>_. None\<rparr>) demo_token_db) = Inr c \<and>
    ctx_token_id c = ''''"
proof -
  let ?r = "\<lparr>rq_method = ''POST'', rq_auth = '''', rq_cookie = Some (demo_sign demo_claims),
      rq_csrf_cookie = Some ''z'', rq_csrf_header = ''z''\<rparr>"
  let ?st = "(demo_auth_state False)\<lparr>token_seq := \<lambda>_. None\<rparr>"
  have j: "jwt_parse demo_env (demo_sign demo_claims) 1000 = Some demo_claims"
    using demo_jwt_ok by (simp add: jwt_ok_def demo_env_def new_auth_service_def demo_claims_def)
  have b: "bearer_token ?r = None" by (simp add: bearer_token_def cut_prefix_def)
  have n: "demo_sign demo_claims \<noteq> ''''" by (simp add: demo_sign_def)
  have "validate_token demo_env (demo_sign demo_claims) ?st = Inr demo_claims"
    using j by (simp add: validate_token_def demo_auth_state_def blacklisted_def current_token_seq_def demo_claims_def)
  then have a: "auth_middleware demo_env True ?r ?st demo_token_db = (Inr (session_caller demo_claims), demo_token_db)"
    using n by (simp add: auth_middleware_def b extract_token_def)
  have "csrf ?r" by (simp add: csrf_def)
  from cookie_identity_needs_csrf [OF this _ a] b a show ?thesis by (auto simp: session_caller_def)
qed

definition demo_scan :: "string \<Rightarrow> uuid option" where
  "demo_scan s = (if s = ''p'' then Some 3 else None)"

definition demo_projects :: "uuid \<Rightarrow> owner_row lookup" where
  "demo_projects p = (if p = 3 then Found \<lparr>own_project = 3, own_user = Some 5, own_shared = False\<rparr> else Absent)"

definition demo_admin :: caller where
  "demo_admin = \<lparr>ctx_user_id = ''u'', ctx_role = ''admin'', ctx_token_id = '''', ctx_scopes = None, ctx_pinned = False,
     ctx_project_ids = None\<rparr>"

lemma demo_create_request:
  "handle_create_token demo_tsha demo_scan demo_projects demo_admin 5 ''ci'' None [''read'', ''root'', ''read''] ['''', ''p'', ''p''] ''x'' 8 100
     demo_token_db = (TkCreated (new_token_row demo_tsha demo_admin 5 ''ci'' None [''read''] ''x'' 8 100 [3]) [3],
       demo_token_db\<lparr>api_tokens := [new_token_row demo_tsha demo_admin 5 ''ci'' None [''read''] ''x'' 8 100 [3]], token_pins := [(8, 3)]\<rparr>)"
  by (simp add: handle_create_token_def trim_space_def go_space_def normalize_scopes_def all_scopes_def max_pinned_projects_def
      demo_scan_def can_access_owned_def owned_access_def demo_admin_def demo_projects_def new_token_row_def create_token_def
      create_api_token_row_def create_token_pins_def demo_token_db_def Let_def)

theorem created_token_matches_request_witness:
  "set (tk_scopes (new_token_row demo_tsha demo_admin 5 ''ci'' None [''read''] ''x'' 8 100 [3])) =
     set [''read'', ''root'', ''read''] \<inter> set all_scopes"
  using created_token_matches_request [OF demo_create_request] by blast

theorem create_never_violates_constraints_witness:
  "fst (handle_create_token demo_tsha demo_scan demo_projects demo_admin 5 ''ci'' None [''read''] [''p''] ''x'' 8 100 demo_token_db) \<noteq> TkFailed"
  by (rule create_never_violates_constraints) (simp_all add: demo_token_db_def demo_projects_def)

end
