(* ===== verification/Json.thy ===== *)
theory Json
  imports Prelude
begin

text \<open>
  \<open>encoding/json\<close> on syntax trees, as the code uses it. Numbers are integers: a fraction or an
  exponent, which \<open>int\<close> fields refuse, is left out. Decoding into a struct takes the members in order,
  a later one overriding; \<open>null\<close> leaves the zero value; names match up to ASCII case. A strict decoder
  (\<open>DisallowUnknownFields\<close>) refuses a name the struct lacks; \<open>json.Unmarshal\<close> skips it, and on a value
  of the wrong type keeps going and reports the error at the end. Decoding into \<open>any\<close> and encoding
  again keeps the last member of a name and sorts the names.
\<close>

section \<open>JSON\<close>

datatype json = JNull | JBool bool | JNum int | JStr string | JArr "json list" | JObj "(string \<times> json) list"

datatype raw_json = RawEmpty | RawBad | Raw json

definition fold_case :: "string \<Rightarrow> string" where
  "fold_case s = map (\<lambda>c. let n = (of_char c :: nat) in if 65 \<le> n \<and> n \<le> 90 then char_of (n + 32) else c) s"

text \<open>Decoding the members of an object into a struct; \<open>set_member\<close> is \<open>None\<close> on an error.\<close>

fun decode_members :: "(string \<Rightarrow> json \<Rightarrow> 's \<Rightarrow> 's option) \<Rightarrow> (string \<times> json) list \<Rightarrow> 's \<Rightarrow> 's option" where
  "decode_members set_member [] s = Some s"
| "decode_members set_member ((k, v) # ms) s =
     (case set_member k v s of None \<Rightarrow> None | Some s' \<Rightarrow> decode_members set_member ms s')"

definition decode_struct :: "(string \<Rightarrow> json \<Rightarrow> 's \<Rightarrow> 's option) \<Rightarrow> 's \<Rightarrow> json \<Rightarrow> 's option" where
  "decode_struct set_member zero v =
     (case v of JNull \<Rightarrow> Some zero | JObj ms \<Rightarrow> decode_members set_member ms zero | _ \<Rightarrow> None)"

definition decode_string :: "string \<Rightarrow> json \<Rightarrow> string option" where
  "decode_string old v = (case v of JNull \<Rightarrow> Some old | JStr s \<Rightarrow> Some s | _ \<Rightarrow> None)"

definition decode_int :: "int \<Rightarrow> json \<Rightarrow> int option" where
  "decode_int old v = (case v of JNull \<Rightarrow> Some old | JNum n \<Rightarrow> if int64_range n then Some n else None | _ \<Rightarrow> None)"

fun decode_all :: "('a \<Rightarrow> 'b option) \<Rightarrow> 'a list \<Rightarrow> 'b list option" where
  "decode_all f [] = Some []"
| "decode_all f (x # xs) =
     (case f x of None \<Rightarrow> None | Some y \<Rightarrow> (case decode_all f xs of None \<Rightarrow> None | Some ys \<Rightarrow> Some (y # ys)))"

definition decode_strings :: "json \<Rightarrow> string list option" where
  "decode_strings v = (case v of JNull \<Rightarrow> Some [] | JArr vs \<Rightarrow> decode_all (decode_string '''') vs | _ \<Rightarrow> None)"

definition put_member :: "'k \<Rightarrow> 'v \<Rightarrow> ('k \<times> 'v) list \<Rightarrow> ('k \<times> 'v) list" where
  "put_member k v m = filter (\<lambda>(k', _). k' \<noteq> k) m @ [(k, v)]"

fun decode_map :: "(string \<times> json) list \<Rightarrow> (string \<times> string list) list \<Rightarrow> (string \<times> string list) list option" where
  "decode_map [] m = Some m"
| "decode_map ((k, v) # ms) m =
     (case decode_strings v of None \<Rightarrow> None | Some vs \<Rightarrow> decode_map ms (put_member k vs m))"

definition decode_string_map :: "(string \<times> string list) list \<Rightarrow> json \<Rightarrow> (string \<times> string list) list option" where
  "decode_string_map old v = (case v of JNull \<Rightarrow> Some [] | JObj ms \<Rightarrow> decode_map ms old | _ \<Rightarrow> None)"

text \<open>\<open>json.Unmarshal\<close>: what was decoded, and whether there was no error.\<close>

fun lenient_members :: "(string \<Rightarrow> json \<Rightarrow> 's \<Rightarrow> 's \<times> bool) \<Rightarrow> (string \<times> json) list \<Rightarrow> 's \<Rightarrow> 's \<times> bool" where
  "lenient_members set_member [] s = (s, True)"
| "lenient_members set_member ((k, v) # ms) s =
     (let (s1, ok1) = set_member k v s; (s2, ok2) = lenient_members set_member ms s1 in (s2, ok1 \<and> ok2))"

definition lenient_struct :: "(string \<Rightarrow> json \<Rightarrow> 's \<Rightarrow> 's \<times> bool) \<Rightarrow> 's \<Rightarrow> json \<Rightarrow> 's \<times> bool" where
  "lenient_struct set_member zero v =
     (case v of JNull \<Rightarrow> (zero, True) | JObj ms \<Rightarrow> lenient_members set_member ms zero | _ \<Rightarrow> (zero, False))"

definition lenient_string :: "string \<Rightarrow> json \<Rightarrow> string \<times> bool" where
  "lenient_string old v = (case v of JNull \<Rightarrow> (old, True) | JStr s \<Rightarrow> (s, True) | _ \<Rightarrow> (old, False))"

definition lenient_list :: "(json \<Rightarrow> 'a \<times> bool) \<Rightarrow> 'a list \<Rightarrow> json \<Rightarrow> 'a list \<times> bool" where
  "lenient_list f old v =
     (case v of JNull \<Rightarrow> ([], True) | JArr vs \<Rightarrow> (map (fst \<circ> f) vs, list_all (snd \<circ> f) vs) | _ \<Rightarrow> (old, False))"

text \<open>Member lookup in a \<open>map[string]any\<close>, and the value \<open>any\<close> normalises to.\<close>

definition member :: "string \<Rightarrow> json \<Rightarrow> json option" where
  "member k v = (case v of JObj ms \<Rightarrow> map_of (rev ms) k | _ \<Rightarrow> None)"

definition norm_members :: "(string \<times> json) list \<Rightarrow> (string \<times> json) list" where
  "norm_members ms = sort_key fst (fold (\<lambda>(k, v). put_member k v) ms [])"

primrec json_norm :: "json \<Rightarrow> json" where
  "json_norm JNull = JNull"
| "json_norm (JBool b) = JBool b"
| "json_norm (JNum n) = JNum n"
| "json_norm (JStr s) = JStr s"
| "json_norm (JArr vs) = JArr (map json_norm vs)"
| "json_norm (JObj ms) = JObj (norm_members (map (map_prod id json_norm) ms))"

abbreviation jstrs :: "string list \<Rightarrow> json" where
  "jstrs xs \<equiv> JArr (map JStr xs)"

text \<open>\<open>fmt.Sprintf("%d", n)\<close> and \<open>("%02x", b)\<close>.\<close>

fun show_nat :: "nat \<Rightarrow> string" where
  "show_nat n = (if n < 10 then [char_of (48 + n)] else show_nat (n div 10) @ [char_of (48 + n mod 10)])"

declare show_nat.simps [simp del]

definition show_int :: "int \<Rightarrow> string" where
  "show_int i = (if i < 0 then CHR ''-'' # show_nat (nat (- i)) else show_nat (nat i))"

definition hex_digit :: "nat \<Rightarrow> char" where
  "hex_digit n = char_of (if n < 10 then 48 + n else 87 + n)"

definition show_hex :: "bytes \<Rightarrow> string" where
  "show_hex bs = concat (map (\<lambda>b. let n = unat b in [hex_digit (n div 16), hex_digit (n mod 16)]) bs)"

section \<open>Normal forms are normal\<close>

definition dedupe :: "(string \<times> json) list \<Rightarrow> (string \<times> json) list" where
  "dedupe ms = fold (\<lambda>(k, v). put_member k v) ms []"

lemma norm_members_alt: "norm_members ms = sort_key fst (dedupe ms)"
  by (simp add: norm_members_def dedupe_def)

lemma put_member_fst: "fst ` set (put_member k v m) = insert k (fst ` set m)"
  by (auto simp: put_member_def)

lemma put_member_distinct: "distinct (map fst m) \<Longrightarrow> distinct (map fst (put_member k v m))"
  by (auto simp: put_member_def distinct_map_filter)

lemma put_member_new: "k \<notin> fst ` set m \<Longrightarrow> put_member k v m = m @ [(k, v)]"
  unfolding put_member_def by (subst filter_True) force+

lemma fold_put_distinct:
  "distinct (map fst m) \<Longrightarrow> distinct (map fst (fold (\<lambda>(k, v). put_member k v) ms m))"
  by (induction ms arbitrary: m) (auto simp: put_member_distinct)

lemma fold_put_id:
  "distinct (map fst (m @ ms)) \<Longrightarrow> fold (\<lambda>(k, v). put_member k v) ms m = m @ ms"
  by (induction ms arbitrary: m) (auto simp: put_member_new)

lemma dedupe_id: "distinct (map fst ms) \<Longrightarrow> dedupe ms = ms"
  by (simp add: dedupe_def fold_put_id)

lemma dedupe_distinct: "distinct (map fst (dedupe ms))"
  by (simp add: dedupe_def fold_put_distinct)

lemma norm_members_distinct: "distinct (map fst (norm_members ms))"
proof -
  have "mset (map fst (norm_members ms)) = mset (map fst (dedupe ms))"
    by (simp add: norm_members_alt)
  then show ?thesis using dedupe_distinct mset_eq_imp_distinct_iff by blast
qed

lemma norm_members_idem: "norm_members (norm_members ms) = norm_members ms"
  using norm_members_distinct [of ms]
  by (simp add: norm_members_alt [of "norm_members ms"] dedupe_id sorted_sort_id)
     (simp add: norm_members_alt sort_key_id_if_sorted)

definition on_value :: "('b \<Rightarrow> 'c) \<Rightarrow> 'a \<times> 'b \<Rightarrow> 'a \<times> 'c" where
  "on_value f = map_prod id f"

lemma on_value_simps [simp]: "on_value f (k, v) = (k, f v)" "fst (on_value f x) = fst x"
  by (simp_all add: on_value_def)

lemma filter_on_value: "filter (\<lambda>(k', _). P k') (map (on_value f) m) = map (on_value f) (filter (\<lambda>(k', _). P k') m)"
  by (induction m) auto

lemma fold_put_map:
  "fold (\<lambda>(k, v). put_member k v) (map (on_value f) ms) (map (on_value f) m) =
   map (on_value f) (fold (\<lambda>(k, v). put_member k v) ms m)"
proof (induction ms arbitrary: m)
  case (Cons x ms)
  have "put_member k (f v) (map (on_value f) m) = map (on_value f) (put_member k v m)" for k v
    by (simp add: put_member_def filter_on_value)
  then show ?case using Cons by (cases x) simp
qed simp

lemma insort_key_on_value:
  "insort_key fst (on_value f x) (map (on_value f) m) = map (on_value f) (insort_key fst x m)"
  by (induction m) auto

lemma sort_key_on_value: "sort_key fst (map (on_value f) m) = map (on_value f) (sort_key fst m)"
  by (induction m) (auto simp: insort_key_on_value simp del: on_value_simps(1))

lemma norm_members_map: "norm_members (map (on_value f) ms) = map (on_value f) (norm_members ms)"
  using fold_put_map [of f ms "[]"] by (simp add: norm_members_alt dedupe_def sort_key_on_value)

lemma json_norm_obj: "json_norm (JObj ms) = JObj (norm_members (map (on_value json_norm) ms))"
  by (simp add: on_value_def)

lemma json_norm_idem [simp]: "json_norm (json_norm v) = json_norm v"
proof (induction v)
  case (JObj ms)
  have "map (on_value json_norm) (map (on_value json_norm) ms) = map (on_value json_norm) ms"
    using JObj by (auto simp: on_value_def snds.simps)
  then show ?case
    by (simp only: json_norm_obj norm_members_map [symmetric] norm_members_idem)
qed auto

lemma is_object_norm [simp]: "(\<exists>ms. json_norm v = JObj ms) \<longleftrightarrow> (\<exists>ms. v = JObj ms)"
  by (cases v) auto

section \<open>Lookup in a normal form\<close>

lemma map_of_put: "map_of (put_member a b m) = (map_of m)(a \<mapsto> b)"
proof
  fix q show "map_of (put_member a b m) q = ((map_of m)(a \<mapsto> b)) q"
    by (induction m) (auto simp: put_member_def)
qed

lemma map_of_fold_put: "map_of (fold (\<lambda>(k, v). put_member k v) xs m) = map_of m ++ map_of (rev xs)"
proof (induction xs arbitrary: m)
  case (Cons x xs)
  then show ?case
    by (cases x) (simp add: map_of_put map_add_def fun_eq_iff split: option.splits)
qed simp

lemma map_of_dedupe: "map_of (dedupe xs) = map_of (rev xs)"
  by (simp add: dedupe_def map_of_fold_put)

lemma map_of_norm: "map_of (norm_members xs) = map_of (rev xs)"
proof -
  have "set (norm_members xs) = set (dedupe xs)" by (simp add: norm_members_alt)
  then have "map_of (norm_members xs) = map_of (dedupe xs)"
    using map_of_inject_set [OF norm_members_distinct dedupe_distinct] by blast
  then show ?thesis by (simp add: map_of_dedupe)
qed

lemma map_of_rev_norm: "map_of (rev (norm_members xs)) = map_of (rev xs)"
proof -
  have "distinct (map fst (rev (norm_members xs)))"
    by (simp add: rev_map [symmetric] norm_members_distinct)
  then have "map_of (rev (norm_members xs)) = map_of (norm_members xs)"
    using map_of_inject_set [OF _ norm_members_distinct, of "rev (norm_members xs)" xs] by simp
  then show ?thesis by (simp add: map_of_norm)
qed

lemma map_of_on_value: "map_of (map (on_value f) ms) k = map_option f (map_of ms k)"
  by (induction ms) (auto simp: on_value_def)

lemma member_norm: "member k (json_norm v) = map_option json_norm (member k v)"
  by (cases v) (auto simp: member_def json_norm_obj map_of_rev_norm rev_map map_of_on_value simp del: json_norm.simps(6))

end
