(* ===== verification/Features.thy ===== *)
theory Features
  imports Json
begin

text \<open>
  Route features (\<open>internal/proxy/features.go\<close>, \<open>features_normalize.go\<close>): the typed schema of each
  feature's stored JSON, its validation, and the normalisation that keeps plaintext passwords out
  of the database.

  \<open>net.ParseCIDR\<close>/\<open>ParseIP\<close>, \<open>time.ParseDuration\<close> (in nanoseconds) and \<open>bcrypt\<close> are parameters.
\<close>

section \<open>The typed configurations\<close>

record basic_auth_config =
  ba_username :: string
  ba_hashed :: string
  ba_password :: string

record header_ops =
  ho_set :: "(string \<times> string list) list"
  ho_add :: "(string \<times> string list) list"
  ho_delete :: "string list"

record headers_config =
  hc_request :: "header_ops option"
  hc_response :: "header_ops option"

record redirect_config =
  rd_from :: string
  rd_to :: string
  rd_status :: int

record rate_limit_config =
  rl_window :: string
  rl_max :: int

datatype feature_config =
    BasicAuth basic_auth_config
  | Headers headers_config
  | IPAllowlist "string list"
  | Redirect redirect_config
  | RateLimit rate_limit_config

definition set_basic_auth :: "string \<Rightarrow> json \<Rightarrow> basic_auth_config \<Rightarrow> basic_auth_config option" where
  "set_basic_auth k v c =
     (let f = fold_case k
      in if f = ''username'' then map_option (\<lambda>s. c\<lparr>ba_username := s\<rparr>) (decode_string (ba_username c) v)
         else if f = ''hashed_password'' then map_option (\<lambda>s. c\<lparr>ba_hashed := s\<rparr>) (decode_string (ba_hashed c) v)
         else if f = ''password'' then map_option (\<lambda>s. c\<lparr>ba_password := s\<rparr>) (decode_string (ba_password c) v)
         else None)"

definition set_header_ops :: "string \<Rightarrow> json \<Rightarrow> header_ops \<Rightarrow> header_ops option" where
  "set_header_ops k v c =
     (let f = fold_case k
      in if f = ''set'' then map_option (\<lambda>m. c\<lparr>ho_set := m\<rparr>) (decode_string_map (ho_set c) v)
         else if f = ''add'' then map_option (\<lambda>m. c\<lparr>ho_add := m\<rparr>) (decode_string_map (ho_add c) v)
         else if f = ''delete'' then map_option (\<lambda>m. c\<lparr>ho_delete := m\<rparr>) (decode_strings v)
         else None)"

definition decode_header_ops :: "header_ops option \<Rightarrow> json \<Rightarrow> header_ops option option" where
  "decode_header_ops old v =
     (let zero = (case old of Some h \<Rightarrow> h | None \<Rightarrow> \<lparr>ho_set = [], ho_add = [], ho_delete = []\<rparr>)
      in case v of
           JNull \<Rightarrow> Some None
         | JObj ms \<Rightarrow> map_option Some (decode_members set_header_ops ms zero)
         | _ \<Rightarrow> None)"

definition set_headers :: "string \<Rightarrow> json \<Rightarrow> headers_config \<Rightarrow> headers_config option" where
  "set_headers k v c =
     (let f = fold_case k
      in if f = ''request'' then map_option (\<lambda>h. c\<lparr>hc_request := h\<rparr>) (decode_header_ops (hc_request c) v)
         else if f = ''response'' then map_option (\<lambda>h. c\<lparr>hc_response := h\<rparr>) (decode_header_ops (hc_response c) v)
         else None)"

definition set_ranges :: "string \<Rightarrow> json \<Rightarrow> string list \<Rightarrow> string list option" where
  "set_ranges k v c = (if fold_case k = ''ranges'' then decode_strings v else None)"

definition set_redirect :: "string \<Rightarrow> json \<Rightarrow> redirect_config \<Rightarrow> redirect_config option" where
  "set_redirect k v c =
     (let f = fold_case k
      in if f = ''from'' then map_option (\<lambda>s. c\<lparr>rd_from := s\<rparr>) (decode_string (rd_from c) v)
         else if f = ''to'' then map_option (\<lambda>s. c\<lparr>rd_to := s\<rparr>) (decode_string (rd_to c) v)
         else if f = ''status_code'' then map_option (\<lambda>n. c\<lparr>rd_status := n\<rparr>) (decode_int (rd_status c) v)
         else None)"

definition set_rate_limit :: "string \<Rightarrow> json \<Rightarrow> rate_limit_config \<Rightarrow> rate_limit_config option" where
  "set_rate_limit k v c =
     (let f = fold_case k
      in if f = ''window'' then map_option (\<lambda>s. c\<lparr>rl_window := s\<rparr>) (decode_string (rl_window c) v)
         else if f = ''max_events'' then map_option (\<lambda>n. c\<lparr>rl_max := n\<rparr>) (decode_int (rl_max c) v)
         else None)"

section \<open>Validation\<close>

definition required_module :: "string \<Rightarrow> string" where
  "required_module t = (if t = ''rate_limit'' then ''http.handlers.rate_limit'' else '''')"

definition module_backed_features :: "string list" where
  "module_backed_features = sort (filter (\<lambda>t. required_module t \<noteq> '''') [''rate_limit''])"

definition rate_limit_min_window :: int where "rate_limit_min_window = 10 ^ 9"
definition rate_limit_max_window :: int where "rate_limit_max_window = 3600 * 10 ^ 9"

definition strict_unmarshal :: "(string \<Rightarrow> json \<Rightarrow> 's \<Rightarrow> 's option) \<Rightarrow> 's \<Rightarrow> raw_json \<Rightarrow> 's option" where
  "strict_unmarshal set_member zero raw = (case raw of Raw v \<Rightarrow> decode_struct set_member zero v | _ \<Rightarrow> None)"

abbreviation basic_auth_zero :: basic_auth_config where
  "basic_auth_zero \<equiv> \<lparr>ba_username = '''', ba_hashed = '''', ba_password = ''''\<rparr>"

definition parse_feature_config ::
    "(string \<Rightarrow> bool) \<Rightarrow> (string \<Rightarrow> int option) \<Rightarrow> string \<Rightarrow> raw_json \<Rightarrow> string + feature_config" where
  "parse_feature_config is_range duration t raw =
     (if raw = RawEmpty then Inl ''config required''
      else if t = ''basic_auth'' then
        (case strict_unmarshal set_basic_auth basic_auth_zero raw of
           None \<Rightarrow> Inl ''decode''
         | Some c \<Rightarrow>
             if ba_username c = '''' \<or> ba_hashed c = '''' then Inl ''username and hashed_password are required''
             else Inr (BasicAuth c))
      else if t = ''headers'' then
        (case strict_unmarshal set_headers \<lparr>hc_request = None, hc_response = None\<rparr> raw of
           None \<Rightarrow> Inl ''decode''
         | Some c \<Rightarrow>
             if hc_request c = None \<and> hc_response c = None then Inl ''at least one of request or response must be set''
             else Inr (Headers c))
      else if t = ''ip_allowlist'' then
        (case strict_unmarshal set_ranges [] raw of
           None \<Rightarrow> Inl ''decode''
         | Some rs \<Rightarrow>
             if rs = [] then Inl ''at least one CIDR range is required''
             else if list_ex (\<lambda>r. \<not> is_range r) rs then Inl ''not a valid CIDR or IP''
             else Inr (IPAllowlist rs))
      else if t = ''redirect'' then
        (case strict_unmarshal set_redirect \<lparr>rd_from = '''', rd_to = '''', rd_status = 0\<rparr> raw of
           None \<Rightarrow> Inl ''decode''
         | Some c \<Rightarrow>
             if rd_from c = '''' \<or> rd_to c = '''' then Inl ''from and to are required''
             else if \<not> prefix ''/'' (rd_from c) then Inl ''from must be a path starting with /''
             else let st = (if rd_status c = 0 then 301 else rd_status c)
                  in if st < 300 \<or> st \<ge> 400 then Inl ''status_code must be a 3xx value''
                     else Inr (Redirect (c\<lparr>rd_status := st\<rparr>)))
      else if t = ''rate_limit'' then
        (case strict_unmarshal set_rate_limit \<lparr>rl_window = '''', rl_max = 0\<rparr> raw of
           None \<Rightarrow> Inl ''decode''
         | Some c \<Rightarrow>
             if rl_max c < 1 then Inl ''max_events is required and must be at least 1''
             else if rl_window c = '''' then Inl ''window is required''
             else case duration (rl_window c) of
               None \<Rightarrow> Inl ''window is not a duration''
             | Some d \<Rightarrow>
                 if d < rate_limit_min_window \<or> d > rate_limit_max_window then Inl ''window out of bounds''
                 else Inr (RateLimit c))
      else Inl ''unknown feature type'')"

section \<open>Normalisation\<close>

definition bcrypt_max_password_bytes :: nat where "bcrypt_max_password_bytes = 72"

definition bcrypt_char :: "char \<Rightarrow> bool" where
  "bcrypt_char c \<longleftrightarrow> c = CHR ''.'' \<or> c = CHR ''/'' \<or>
     (let n = (of_char c :: nat) in (48 \<le> n \<and> n \<le> 57) \<or> (65 \<le> n \<and> n \<le> 90) \<or> (97 \<le> n \<and> n \<le> 122))"

definition bcrypt_shape :: "string \<Rightarrow> bool" where
  "bcrypt_shape s \<longleftrightarrow>
     length s = 60 \<and> take 2 s = ''$2'' \<and> s ! 2 \<in> set ''aby'' \<and> s ! 3 = CHR ''$'' \<and>
     list_all (\<lambda>c. let n = (of_char c :: nat) in 48 \<le> n \<and> n \<le> 57) (take 2 (drop 4 s)) \<and>
     s ! 6 = CHR ''$'' \<and> list_all bcrypt_char (drop 7 s)"

datatype normalize_error = BadConfig string | HashFailed

text \<open>\<open>json.Unmarshal\<close> without the strict flag: unknown members are skipped.\<close>

definition set_basic_auth_lenient :: "string \<Rightarrow> json \<Rightarrow> basic_auth_config \<Rightarrow> basic_auth_config option" where
  "set_basic_auth_lenient k v c =
     (if fold_case k \<in> set [''username'', ''hashed_password'', ''password''] then set_basic_auth k v c else Some c)"

definition stored_hashed_password :: "raw_json \<Rightarrow> string" where
  "stored_hashed_password stored =
     (case strict_unmarshal set_basic_auth_lenient basic_auth_zero stored of None \<Rightarrow> '''' | Some c \<Rightarrow> ba_hashed c)"

definition marshal_basic_auth :: "basic_auth_config \<Rightarrow> json" where
  "marshal_basic_auth c =
     JObj ([(''username'', JStr (ba_username c)), (''hashed_password'', JStr (ba_hashed c))] @
           (if ba_password c = '''' then [] else [(''password'', JStr (ba_password c))]))"

definition normalize_feature_config ::
    "(string \<Rightarrow> string option) \<Rightarrow> string \<Rightarrow> raw_json \<Rightarrow> raw_json \<Rightarrow> normalize_error + raw_json" where
  "normalize_feature_config bcrypt t raw stored =
     (if t \<noteq> ''basic_auth'' then Inr raw
      else if raw = RawEmpty then Inl (BadConfig ''config required'')
      else case strict_unmarshal set_basic_auth basic_auth_zero raw of
        None \<Rightarrow> Inl (BadConfig ''decode'')
      | Some c \<Rightarrow>
          if ba_username c = '''' \<or> (ba_password c = '''' \<and> ba_hashed c = '''')
          then Inl (BadConfig ''username and password are required'')
          else if ba_password c \<noteq> '''' then
            (if length (ba_password c) > bcrypt_max_password_bytes then Inl (BadConfig ''password too long'')
             else case bcrypt (ba_password c) of
               None \<Rightarrow> Inl HashFailed
             | Some h \<Rightarrow> Inr (Raw (marshal_basic_auth (basic_auth_zero\<lparr>ba_username := ba_username c, ba_hashed := h\<rparr>))))
          else if ba_hashed c = stored_hashed_password stored \<or> bcrypt_shape (ba_hashed c) then
            Inr (Raw (marshal_basic_auth (basic_auth_zero\<lparr>ba_username := ba_username c, ba_hashed := ba_hashed c\<rparr>)))
          else Inl (BadConfig ''hashed_password must be a bcrypt hash''))"

section \<open>What is stored\<close>

lemma parse_marshalled:
  assumes "ba_password c = ''''"
  shows "strict_unmarshal set_basic_auth basic_auth_zero (Raw (marshal_basic_auth c)) = Some c"
proof -
  have "fold_case ''username'' = ''username''" "fold_case ''hashed_password'' = ''hashed_password''" by code_simp+
  with assms show ?thesis
    by (simp add: strict_unmarshal_def decode_struct_def marshal_basic_auth_def set_basic_auth_def decode_string_def)
qed

definition stored_auth :: "string \<Rightarrow> string \<Rightarrow> raw_json" where
  "stored_auth u h = Raw (marshal_basic_auth \<lparr>ba_username = u, ba_hashed = h, ba_password = ''''\<rparr>)"

lemma normalized_form:
  assumes "normalize_feature_config bcrypt ''basic_auth'' raw stored = Inr out"
    and "\<forall>p h. bcrypt p = Some h \<longrightarrow> h \<noteq> ''''"
  shows "\<exists>u h. out = stored_auth u h \<and> u \<noteq> '''' \<and> h \<noteq> '''' \<and>
     ((\<exists>p. bcrypt p = Some h) \<or> h = stored_hashed_password stored \<or> bcrypt_shape h)"
proof -
  from assms(1) obtain c where c: "strict_unmarshal set_basic_auth basic_auth_zero raw = Some c"
    "ba_username c \<noteq> ''''" "ba_password c \<noteq> '''' \<or> ba_hashed c \<noteq> ''''"
    by (auto simp: normalize_feature_config_def split: if_splits option.splits)
  show ?thesis
  proof (cases "ba_password c = ''''")
    case True
    with assms(1) c have "out = stored_auth (ba_username c) (ba_hashed c)"
      "ba_hashed c = stored_hashed_password stored \<or> bcrypt_shape (ba_hashed c)"
      by (simp_all add: normalize_feature_config_def stored_auth_def split: if_splits)
    with True c show ?thesis by blast
  next
    case False
    with assms(1) c obtain h where "bcrypt (ba_password c) = Some h" "out = stored_auth (ba_username c) h"
      by (simp add: normalize_feature_config_def stored_auth_def split: if_splits option.splits)
    with assms(2) c show ?thesis by blast
  qed
qed

text \<open>
  C34: a plaintext password never reaches the database and never disarms the gate. Whatever basic
  auth configuration normalisation lets through has exactly a user name and a hash, which is the
  hash of the password sent, the hash already stored, or bcrypt-shaped; the route builder accepts
  it; and saving it again unchanged stores the same bytes.
\<close>
theorem normalized_basic_auth_is_safe:
  assumes "normalize_feature_config bcrypt ''basic_auth'' raw stored = Inr out"
    and "\<forall>p h. bcrypt p = Some h \<longrightarrow> h \<noteq> ''''"
  shows "\<exists>u h. out = Raw (JObj [(''username'', JStr u), (''hashed_password'', JStr h)]) \<and> u \<noteq> '''' \<and> h \<noteq> '''' \<and>
     ((\<exists>p. bcrypt p = Some h) \<or> h = stored_hashed_password stored \<or> bcrypt_shape h) \<and>
     parse_feature_config is_range duration ''basic_auth'' out =
       Inr (BasicAuth \<lparr>ba_username = u, ba_hashed = h, ba_password = ''''\<rparr>) \<and>
     normalize_feature_config bcrypt ''basic_auth'' out out = Inr out"
proof -
  obtain u h where "out = stored_auth u h" and ne: "u \<noteq> ''''" "h \<noteq> ''''"
    and src: "(\<exists>p. bcrypt p = Some h) \<or> h = stored_hashed_password stored \<or> bcrypt_shape h"
    using normalized_form [OF assms] by blast
  then have out: "out = Raw (marshal_basic_auth \<lparr>ba_username = u, ba_hashed = h, ba_password = ''''\<rparr>)"
    by (simp add: stored_auth_def)
  let ?c = "\<lparr>ba_username = u, ba_hashed = h, ba_password = ''''\<rparr>"
  have p: "strict_unmarshal set_basic_auth basic_auth_zero out = Some ?c" by (simp add: out parse_marshalled)
  have "fold_case ''username'' = ''username''" "fold_case ''hashed_password'' = ''hashed_password''" by code_simp+
  then have "stored_hashed_password out = h"
    by (simp add: stored_hashed_password_def out strict_unmarshal_def decode_struct_def marshal_basic_auth_def
        set_basic_auth_lenient_def set_basic_auth_def decode_string_def)
  then have "normalize_feature_config bcrypt ''basic_auth'' out out = Inr out"
    using ne by (simp add: normalize_feature_config_def p) (simp add: out)
  moreover have "parse_feature_config is_range duration ''basic_auth'' out = Inr (BasicAuth ?c)"
    using ne by (simp add: parse_feature_config_def p) (simp add: out)
  ultimately show ?thesis using ne src by (auto simp: out marshal_basic_auth_def)
qed

theorem normalized_basic_auth_is_safe_witness:
  "\<exists>out. normalize_feature_config (\<lambda>p. Some (''h'' @ p)) ''basic_auth''
      (Raw (JObj [(''username'', JStr ''u''), (''Password'', JStr ''p''), (''hashed_password'', JStr ''x'')])) RawEmpty = Inr out \<and>
     normalize_feature_config (\<lambda>p. Some (''h'' @ p)) ''basic_auth'' out out = Inr out"
proof -
  let ?b = "\<lambda>p. Some (''h'' @ p)"
  have f: "fold_case ''username'' = ''username''" "fold_case ''Password'' = ''password''"
    "fold_case ''hashed_password'' = ''hashed_password''" by code_simp+
  obtain out where n: "normalize_feature_config ?b ''basic_auth''
      (Raw (JObj [(''username'', JStr ''u''), (''Password'', JStr ''p''), (''hashed_password'', JStr ''x'')])) RawEmpty = Inr out"
    by (simp add: normalize_feature_config_def strict_unmarshal_def decode_struct_def set_basic_auth_def f decode_string_def
        bcrypt_max_password_bytes_def)
  from normalized_basic_auth_is_safe [OF n] n show ?thesis by auto
qed

end
