(* ===== verification/DomainRules.thy ===== *)
theory DomainRules
  imports Json
begin

text \<open>
  The pure rules of a domain (\<open>internal/handler/domains.go\<close>, \<open>internal/proxy/interface.go\<close>): which
  hostnames and paths are accepted and in which shape they are stored, and how a write resolves its
  TLS mode, certificate and DNS provider. \<open>scan_uuid\<close> is \<open>pgtype.UUID.Scan\<close>, a parameter.
\<close>

section \<open>Hostnames\<close>

definition go_digit :: "char \<Rightarrow> bool" where
  "go_digit c \<longleftrightarrow> (let n = (of_char c :: nat) in 48 \<le> n \<and> n \<le> 57)"

definition go_letter :: "char \<Rightarrow> bool" where
  "go_letter c \<longleftrightarrow> (let n = (of_char c :: nat) in (65 \<le> n \<and> n \<le> 90) \<or> (97 \<le> n \<and> n \<le> 122))"

definition alnum :: "char \<Rightarrow> bool" where
  "alnum c \<longleftrightarrow> go_digit c \<or> go_letter c"

text \<open>\<open>hostnameRegex\<close>: the labels of the name, all but the last, and the last.\<close>

definition valid_label :: "string \<Rightarrow> bool" where
  "valid_label l \<longleftrightarrow> l \<noteq> [] \<and> length l \<le> 63 \<and> alnum (hd l) \<and> alnum (List.last l) \<and> list_all (\<lambda>c. alnum c \<or> c = CHR ''-'') l"

definition valid_hostname :: "string \<Rightarrow> bool" where
  "valid_hostname h \<longleftrightarrow> h = ''localhost'' \<or>
     (let ls = split_on CHR ''.'' h
      in 2 \<le> length ls \<and> list_all valid_label (butlast ls) \<and> 2 \<le> length (List.last ls) \<and> list_all go_letter (List.last ls))"

definition valid_domain_hostname :: "string \<Rightarrow> bool" where
  "valid_domain_hostname h = valid_hostname (trim_prefix ''*.'' h)"

section \<open>Paths\<close>

definition trim_right :: "char \<Rightarrow> string \<Rightarrow> string" where
  "trim_right c s = rev (dropWhile ((=) c) (rev s))"

definition normalize_domain_path :: "string \<Rightarrow> string" where
  "normalize_domain_path p0 =
     (let p = trim_space p0
      in if p = '''' then ''/''
         else let p = (if prefix ''/'' p then p else CHR ''/'' # p)
              in if p \<noteq> ''/'' then trim_right CHR ''/'' p else p)"

definition path_char :: "char \<Rightarrow> bool" where
  "path_char c \<longleftrightarrow> alnum c \<or> c \<in> set ''-._~/''"

datatype path_error = PathTooLong | PathShape | PathEmptySegment

definition validate_domain_path :: "string \<Rightarrow> path_error option" where
  "validate_domain_path p =
     (if length p > 255 then Some PathTooLong
      else if \<not> (prefix ''/'' p \<and> list_all path_char (drop 1 p)) then Some PathShape
      else if sublist ''//'' p then Some PathEmptySegment else None)"

definition normalize_internal_path :: "string \<Rightarrow> string" where
  "normalize_internal_path p0 =
     (let p = trim_space p0
      in if p = '''' \<or> p = ''/'' then ''''
         else trim_right CHR ''/'' (if prefix ''/'' p then p else CHR ''/'' # p))"

definition validate_internal_path :: "string \<Rightarrow> path_error option" where
  "validate_internal_path p = (if p = '''' then None else validate_domain_path p)"

section \<open>TLS choices\<close>

definition valid_ssl_modes :: "string list" where
  "valid_ssl_modes = [''automatic'', ''custom'', ''off'', ''dns_challenge'']"

definition validate_ssl_mode :: "string \<Rightarrow> bool" where
  "validate_ssl_mode m \<longleftrightarrow> m \<in> set valid_ssl_modes"

definition coerce_force_https :: "string \<Rightarrow> bool \<Rightarrow> bool" where
  "coerce_force_https m f \<longleftrightarrow> f \<and> m \<noteq> ''off''"

definition wildcard_needs_dns :: "string \<Rightarrow> string \<Rightarrow> bool" where
  "wildcard_needs_dns h m \<longleftrightarrow> prefix ''*.'' h \<and> m \<noteq> ''dns_challenge''"

definition parse_certificate_id :: "(string \<Rightarrow> uuid option) \<Rightarrow> string \<Rightarrow> string \<Rightarrow> string + uuid option" where
  "parse_certificate_id scan_uuid m c =
     (if m \<noteq> ''custom'' then Inr None
      else if c = '''' then Inl ''ssl_mode custom requires certificate_id''
      else case scan_uuid c of None \<Rightarrow> Inl ''invalid certificate_id'' | Some u \<Rightarrow> Inr (Some u))"

definition resolve_dns_provider_id ::
    "(string \<Rightarrow> uuid option) \<Rightarrow> string \<Rightarrow> string option \<Rightarrow> uuid option \<Rightarrow> string + uuid option" where
  "resolve_dns_provider_id scan_uuid m requested stored =
     (if m \<noteq> ''dns_challenge'' then Inr None
      else case requested of
        None \<Rightarrow> Inr stored
      | Some r \<Rightarrow>
          if r = '''' then Inr None
          else (case scan_uuid r of None \<Rightarrow> Inl ''invalid dns_provider_id'' | Some u \<Rightarrow> Inr (Some u)))"

section \<open>The shape of what is stored\<close>

lemma trim_right_id: "s = '''' \<or> List.last s \<noteq> c \<Longrightarrow> trim_right c s = s"
  by (cases s rule: rev_cases) (auto simp: trim_right_def)

lemma trim_right_last: "trim_right c s = '''' \<or> List.last (trim_right c s) \<noteq> c"
proof (cases "dropWhile ((=) c) (rev s)")
  case (Cons x xs)
  then have "x \<noteq> c" by (metis dropWhile_eq_Cons_conv)
  with Cons show ?thesis by (simp add: trim_right_def)
qed (simp add: trim_right_def)

lemma trim_right_prefix: "prefix (trim_right c s) s"
proof (induction s rule: rev_induct)
  case (snoc x xs)
  then show ?case by (auto simp: trim_right_def intro: prefix_order.trans)
qed (simp add: trim_right_def)

lemma trim_space_id:
  assumes "\<And>c. c \<in> set s \<Longrightarrow> \<not> go_space c"
  shows "trim_space s = s"
proof -
  have "dropWhile go_space t = t" if "set t \<subseteq> set s" for t
    using that assms by (cases t) auto
  then show ?thesis by (simp add: trim_space_def)
qed

text \<open>A public path as the domains table and the proxy hold it.\<close>

definition stored_path :: "string \<Rightarrow> bool" where
  "stored_path p \<longleftrightarrow> validate_domain_path p = None \<and> (p = ''/'' \<or> List.last p \<noteq> CHR ''/'')"

lemma path_char_not_space: "path_char c \<Longrightarrow> \<not> go_space c"
  by (auto simp: path_char_def alnum_def go_digit_def go_letter_def go_space_def)

lemma stored_pathD:
  assumes "stored_path p"
  shows "prefix ''/'' p" "length p \<le> 255" "\<not> sublist ''//'' p" "list_all path_char p" "p \<noteq> ''''"
    "p = ''/'' \<or> List.last p \<noteq> CHR ''/''"
  using assms by (auto simp: stored_path_def validate_domain_path_def path_char_def prefix_def split: if_splits)

lemma accepted_path:
  assumes "validate_domain_path (normalize_domain_path p) = None"
  shows "stored_path (normalize_domain_path p)"
proof -
  let ?q = "normalize_domain_path p"
  have "?q = ''/'' \<or> (\<exists>s. ?q = trim_right CHR ''/'' s)"
    by (auto simp: normalize_domain_path_def Let_def)
  moreover have "?q \<noteq> ''''"
    using assms by (auto simp: validate_domain_path_def split: if_splits)
  ultimately have "?q = ''/'' \<or> List.last ?q \<noteq> CHR ''/''"
    using trim_right_last by metis
  with assms show ?thesis by (simp add: stored_path_def)
qed

lemma accepted_internal_path:
  assumes "validate_internal_path (normalize_internal_path p) = None"
  shows "normalize_internal_path p = '''' \<or> stored_path (normalize_internal_path p)"
proof -
  let ?q = "normalize_internal_path p"
  have "?q = '''' \<or> (\<exists>s. ?q = trim_right CHR ''/'' s)"
    by (auto simp: normalize_internal_path_def Let_def)
  then have "?q = '''' \<or> List.last ?q \<noteq> CHR ''/''"
    using trim_right_last by metis
  with assms show ?thesis by (auto simp: stored_path_def validate_internal_path_def)
qed

text \<open>
  path canonicalisation. Whatever a client sends as a path, what is accepted is rooted, has no
  empty segment, no trailing slash unless it is the root, no character the route builder gives a
  meaning to, and at most 255 bytes; and storing it again changes nothing, so a re-save cannot move
  a domain.
\<close>
theorem accepted_path_is_canonical:
  assumes "validate_domain_path (normalize_domain_path p) = None"
  shows "stored_path (normalize_domain_path p) \<and>
    normalize_domain_path (normalize_domain_path p) = normalize_domain_path p \<and>
    CHR ''*'' \<notin> set (normalize_domain_path p) \<and> CHR ''{'' \<notin> set (normalize_domain_path p)"
proof -
  let ?q = "normalize_domain_path p"
  have root: "normalize_domain_path ''/'' = ''/''" by code_simp
  have st: "stored_path ?q" using assms by (rule accepted_path)
  note d = stored_pathD [OF st]
  note last = d(6)
  have "trim_space ?q = ?q"
    using d(4) path_char_not_space by (intro trim_space_id) (auto simp: list_all_iff)
  moreover have "?q \<noteq> ''/'' \<Longrightarrow> trim_right CHR ''/'' ?q = ?q"
    using last by (intro trim_right_id) auto
  ultimately have "normalize_domain_path ?q = ?q"
    using d(1,5) root by (cases "?q = ''/''") (simp_all add: normalize_domain_path_def [of ?q] Let_def)
  moreover have "CHR ''*'' \<notin> set ?q" "CHR ''{'' \<notin> set ?q"
    using d(4) by (auto simp: list_all_iff path_char_def alnum_def go_digit_def go_letter_def)
  ultimately show ?thesis using st by blast
qed

theorem accepted_path_is_canonical_witness:
  "normalize_domain_path '' api/v2// '' = ''/api/v2'' \<and> stored_path ''/api/v2''"
proof -
  have n: "normalize_domain_path '' api/v2// '' = ''/api/v2''" by code_simp
  have "validate_domain_path ''/api/v2'' = None" by code_simp
  with accepted_path_is_canonical [of "'' api/v2// ''"] n show ?thesis by simp
qed

end
