(* ===== verification/Routes.thy ===== *)
theory Routes
  imports Features DomainRules
begin

text \<open>
  The routes Belune writes into Caddy (\<open>internal/proxy/caddy/routes.go\<close>, \<open>waf.go\<close>,
  \<open>internal/proxy/interface.go\<close>): the rendering of a route configuration, the path matcher and its
  inverse, the route id, and the order of the route table.

  A route is JSON; \<open>caddyHandle\<close> maps are written as objects in the order of the source, which is not
  significant (\<open>json_norm\<close> sorts them, as Go's encoder and Caddy do). SHA-256 is a parameter.
\<close>

section \<open>Route configurations\<close>

record route_feature =
  rf_type :: string
  rf_config :: raw_json
  rf_enabled :: bool

record route_config =
  rc_host :: string
  rc_path :: string
  rc_strip :: bool
  rc_internal :: string
  rc_target :: string
  rc_tls :: bool
  rc_force_https :: bool
  rc_ssl_mode :: string
  rc_ssl_provider :: string
  rc_cert :: string
  rc_key :: string
  rc_features :: "route_feature list"
  rc_advanced :: raw_json
  rc_health :: string

record caddy_match =
  cm_host :: "string list"
  cm_path :: "string list"

record caddy_route =
  cr_id :: string
  cr_match :: "caddy_match list"
  cr_handle :: "json list"

definition catch_all_route_id :: string where "catch_all_route_id = ''route-catch-all''"
definition waf_route_id :: string where "waf_route_id = ''route-waf''"
definition dashboard_route_id :: string where "dashboard_route_id = ''route-dashboard''"

definition valid_ssl_mode :: "string \<Rightarrow> bool" where
  "valid_ssl_mode m \<longleftrightarrow> m \<in> set ['''', ''off'', ''automatic'', ''custom'', ''dns_challenge'']"

definition marshal_match :: "caddy_match \<Rightarrow> json" where
  "marshal_match m = JObj ((''host'', jstrs (cm_host m)) #
     (if cm_path m = [] then [] else [(''path'', jstrs (cm_path m))]))"

definition marshal_route :: "caddy_route \<Rightarrow> json" where
  "marshal_route r = JObj ((''@id'', JStr (cr_id r)) #
     (if cr_match r = [] then [] else [(''match'', JArr (map marshal_match (cr_match r)))]) @
     [(''handle'', JArr (cr_handle r))])"

section \<open>Paths and identifiers\<close>

definition is_root_path :: "string \<Rightarrow> bool" where
  "is_root_path p \<longleftrightarrow> p = '''' \<or> p = ''/''"

definition path_matcher :: "string \<Rightarrow> string list" where
  "path_matcher p = (if is_root_path p then [] else [p, p @ ''/*''])"

definition trim_suffix :: "string \<Rightarrow> string \<Rightarrow> string" where
  "trim_suffix x s = (if suffix x s then take (length s - length x) s else s)"

definition path_from_matcher :: "string list \<Rightarrow> string" where
  "path_from_matcher ms =
     (if ms = [] then ''/''
      else case find (\<lambda>p. \<not> suffix ''/*'' p) ms of
        Some p \<Rightarrow> p
      | None \<Rightarrow> trim_suffix ''/*'' (hd ms))"

definition trim_char :: "char \<Rightarrow> string \<Rightarrow> string" where
  "trim_char c s = rev (dropWhile ((=) c) (rev (dropWhile ((=) c) s)))"

text \<open>Every run of other characters becomes one hyphen; the flag says that a run is open.\<close>

fun slug_runs :: "bool \<Rightarrow> string \<Rightarrow> string" where
  "slug_runs inrun [] = []"
| "slug_runs inrun (c # cs) =
     (if alnum c then c # slug_runs False cs
      else if inrun then slug_runs True cs else CHR ''-'' # slug_runs True cs)"

definition path_slug :: "string \<Rightarrow> string" where
  "path_slug p = trim_char CHR ''-'' (slug_runs False p)"

fun replace_first :: "string \<Rightarrow> string \<Rightarrow> string \<Rightarrow> string" where
  "replace_first old new [] = (if old = [] then new else [])"
| "replace_first old new (c # cs) =
     (if prefix old (c # cs) then new @ drop (length old) (c # cs) else c # replace_first old new cs)"

definition id_host :: "string \<Rightarrow> string" where
  "id_host h = replace_first ''*.'' ''_wildcard_.'' h"

definition route_id_for :: "(string \<Rightarrow> bytes) \<Rightarrow> string \<Rightarrow> string \<Rightarrow> string" where
  "route_id_for sha h p =
     (if is_root_path p then ''route-'' @ id_host h
      else ''route-'' @ id_host h @ ''-'' @ path_slug p @ ''-'' @ show_hex (take 3 (sha p)))"

section \<open>Rendering a route\<close>

definition target_to_dial :: "string \<Rightarrow> string" where
  "target_to_dial t =
     (if length t > 7 \<and> prefix ''http://'' t then drop 7 t
      else if length t > 8 \<and> prefix ''https://'' t then drop 8 t else t)"

definition new_reverse_proxy_handle :: "string list \<Rightarrow> string \<Rightarrow> json" where
  "new_reverse_proxy_handle dials health = JObj
     ([(''handler'', JStr ''reverse_proxy''),
       (''upstreams'', JArr (map (\<lambda>d. JObj [(''dial'', JStr d)]) dials))] @
      (if health = '''' then [] else
        [(''health_checks'', JObj [(''active'', JObj
           [(''uri'', JStr health), (''interval'', JStr ''30s''), (''timeout'', JStr ''5s''),
            (''expect_status'', JNum 2)])])]))"

definition header_ops_to_map :: "header_ops \<Rightarrow> json" where
  "header_ops_to_map ops = JObj
     ((if ho_set ops = [] then [] else [(''set'', JObj (map (\<lambda>(k, vs). (k, jstrs vs)) (ho_set ops)))]) @
      (if ho_add ops = [] then [] else [(''add'', JObj (map (\<lambda>(k, vs). (k, jstrs vs)) (ho_add ops)))]) @
      (if ho_delete ops = [] then [] else [(''delete'', jstrs (ho_delete ops))]))"

definition subroute :: "json \<Rightarrow> (string \<times> json) list \<Rightarrow> json" where
  "subroute m response = JObj [(''handler'', JStr ''subroute''),
     (''routes'', JArr [JObj [(''match'', JArr [m]),
        (''handle'', JArr [JObj ((''handler'', JStr ''static_response'') # response)])]])]"

definition https_redirect :: json where
  "https_redirect = subroute (JObj [(''protocol'', JStr ''http'')])
     [(''headers'', JObj [(''Location'', jstrs [''{http.request.scheme}s://{http.request.host}{http.request.uri}''])]),
      (''status_code'', JStr ''301'')]"

definition feature_handler :: "string \<Rightarrow> feature_config \<Rightarrow> json" where
  "feature_handler zone f = (case f of
     BasicAuth c \<Rightarrow> JObj [(''handler'', JStr ''authentication''),
       (''providers'', JObj [(''http_basic'', JObj [(''accounts'',
          JArr [JObj [(''username'', JStr (ba_username c)), (''password'', JStr (ba_hashed c))]])])])]
   | Headers c \<Rightarrow> JObj ((''handler'', JStr ''headers'') #
       (case hc_request c of None \<Rightarrow> [] | Some o1 \<Rightarrow> [(''request'', header_ops_to_map o1)]) @
       (case hc_response c of None \<Rightarrow> [] | Some o2 \<Rightarrow> [(''response'', header_ops_to_map o2)]))
   | RateLimit c \<Rightarrow> JObj [(''handler'', JStr ''rate_limit''),
       (''rate_limits'', JObj [(zone, JObj [(''key'', JStr ''{http.request.remote.host}''),
          (''window'', JStr (rl_window c)), (''max_events'', JNum (rl_max c))])])]
   | IPAllowlist rs \<Rightarrow> subroute (JObj [(''not'', JArr [JObj [(''remote_ip'', JObj [(''ranges'', jstrs rs)])]])])
       [(''status_code'', JStr ''403''), (''body'', JStr ''Forbidden'')]
   | Redirect c \<Rightarrow> subroute (JObj [(''path'', jstrs [rd_from c])])
       [(''headers'', JObj [(''Location'', jstrs [rd_to c])]), (''status_code'', JStr (show_int (rd_status c)))])"

definition advanced_handler_allowlist :: "string list" where
  "advanced_handler_allowlist = [''headers'', ''rewrite'', ''redir'', ''handle_path'', ''subroute'', ''authentication'']"

definition handler_name :: "json \<Rightarrow> string" where
  "handler_name h = (case member ''handler'' h of Some (JStr s) \<Rightarrow> s | _ \<Rightarrow> '''')"

datatype build_error = AdvancedNotAList | AdvancedDisallowed "nat list"

definition is_map :: "json \<Rightarrow> bool" where
  "is_map v = (case v of JNull \<Rightarrow> True | JObj _ \<Rightarrow> True | _ \<Rightarrow> False)"

definition parse_advanced_config :: "raw_json \<Rightarrow> build_error + json list" where
  "parse_advanced_config raw =
     (case raw of
        Raw JNull \<Rightarrow> Inr []
      | Raw (JArr hs) \<Rightarrow>
          if \<not> list_all is_map hs then Inl AdvancedNotAList
          else let bad = filter (\<lambda>i. handler_name (hs ! i) \<notin> set advanced_handler_allowlist) [0..<length hs]
               in if bad \<noteq> [] then Inl (AdvancedDisallowed bad) else Inr (map json_norm hs)
      | _ \<Rightarrow> Inl AdvancedNotAList)"

record build_env =
  be_sha :: "string \<Rightarrow> bytes"
  be_is_range :: "string \<Rightarrow> bool"
  be_duration :: "string \<Rightarrow> int option"

definition feature_handlers :: "build_env \<Rightarrow> route_config \<Rightarrow> json list" where
  "feature_handlers env cfg = concat (map (\<lambda>f.
     if \<not> rf_enabled f then []
     else case parse_feature_config (be_is_range env) (be_duration env) (rf_type f) (rf_config f) of
       Inl _ \<Rightarrow> []
     | Inr c \<Rightarrow> [feature_handler (route_id_for (be_sha env) (rc_host cfg) (rc_path cfg)) c]) (rc_features cfg))"

definition build_feature_handlers :: "build_env \<Rightarrow> route_config \<Rightarrow> build_error + json list" where
  "build_feature_handlers env cfg =
     (if rc_advanced cfg = RawEmpty then Inr (feature_handlers env cfg)
      else res_bind (parse_advanced_config (rc_advanced cfg)) (\<lambda>adv. Inr (feature_handlers env cfg @ adv)))"

definition build_route :: "build_env \<Rightarrow> route_config \<Rightarrow> build_error + caddy_route" where
  "build_route env cfg = res_bind (build_feature_handlers env cfg) (\<lambda>hs.
     let hs = hs @ (if rc_strip cfg \<and> \<not> is_root_path (rc_path cfg)
                    then [JObj [(''handler'', JStr ''rewrite''), (''strip_path_prefix'', JStr (rc_path cfg))]] else []);
         hs = hs @ (if rc_internal cfg \<noteq> ''''
                    then [JObj [(''handler'', JStr ''rewrite''), (''uri'', JStr (rc_internal cfg @ ''{http.request.uri}''))]] else []);
         hs = hs @ [new_reverse_proxy_handle [target_to_dial (rc_target cfg)] (rc_health cfg)];
         hs = (if rc_force_https cfg \<and> rc_ssl_mode cfg \<noteq> ''off'' then https_redirect # hs else hs)
     in Inr \<lparr>cr_id = route_id_for (be_sha env) (rc_host cfg) (rc_path cfg),
             cr_match = [\<lparr>cm_host = [rc_host cfg], cm_path = path_matcher (rc_path cfg)\<rparr>],
             cr_handle = hs\<rparr>)"

section \<open>Reading routes back\<close>

record match_probe =
  mp_host :: "string list"
  mp_path :: "string list"

record route_probe =
  rp_id :: string
  rp_match :: "match_probe list"
  rp_handle :: "json list"

abbreviation no_match :: match_probe where "no_match \<equiv> \<lparr>mp_host = [], mp_path = []\<rparr>"
abbreviation no_route :: route_probe where "no_route \<equiv> \<lparr>rp_id = '''', rp_match = [], rp_handle = []\<rparr>"

definition lenient_strings :: "string list \<Rightarrow> json \<Rightarrow> string list \<times> bool" where
  "lenient_strings = lenient_list (lenient_string '''')"

text \<open>The probe structs differ in the members they read: \<open>host\<close> alone, or \<open>host\<close> and \<open>path\<close>.\<close>

definition set_match :: "bool \<Rightarrow> string \<Rightarrow> json \<Rightarrow> match_probe \<Rightarrow> match_probe \<times> bool" where
  "set_match with_path k v m =
     (if fold_case k = ''host'' then (let (hs, ok) = lenient_strings (mp_host m) v in (m\<lparr>mp_host := hs\<rparr>, ok))
      else if with_path \<and> fold_case k = ''path'' then (let (ps, ok) = lenient_strings (mp_path m) v in (m\<lparr>mp_path := ps\<rparr>, ok))
      else (m, True))"

definition lenient_matches :: "bool \<Rightarrow> match_probe list \<Rightarrow> json \<Rightarrow> match_probe list \<times> bool" where
  "lenient_matches with_path = lenient_list (lenient_struct (set_match with_path) no_match)"

definition lenient_handle :: "json \<Rightarrow> json \<times> bool" where
  "lenient_handle v = (if is_map v then (v, True) else (JNull, False))"

definition set_probe :: "bool \<Rightarrow> bool \<Rightarrow> bool \<Rightarrow> string \<Rightarrow> json \<Rightarrow> route_probe \<Rightarrow> route_probe \<times> bool" where
  "set_probe with_id with_path with_handle k v p =
     (if with_id \<and> fold_case k = ''@id'' then (let (s, ok) = lenient_string (rp_id p) v in (p\<lparr>rp_id := s\<rparr>, ok))
      else if fold_case k = ''match'' then (let (ms, ok) = lenient_matches with_path (rp_match p) v in (p\<lparr>rp_match := ms\<rparr>, ok))
      else if with_handle \<and> fold_case k = ''handle'' then
        (let (hs, ok) = lenient_list lenient_handle (rp_handle p) v in (p\<lparr>rp_handle := hs\<rparr>, ok))
      else (p, True))"

definition table_probe :: "json \<Rightarrow> route_probe \<times> bool" where
  "table_probe = lenient_struct (set_probe True False False) no_route"

definition key_probe :: "json \<Rightarrow> route_probe \<times> bool" where
  "key_probe = lenient_struct (set_probe False True False) no_route"

definition list_probe :: "json \<Rightarrow> route_probe \<times> bool" where
  "list_probe = lenient_struct (set_probe True True True) no_route"

definition probe_hosts :: "route_probe \<Rightarrow> string list" where
  "probe_hosts p = (case rp_match p of [] \<Rightarrow> [] | m # _ \<Rightarrow> mp_host m)"

text \<open>\<open>ListRoutes\<close> on the decoded array: one entry per route with a host matcher, the WAF's apart.\<close>

definition last_proxy_dial :: "json list \<Rightarrow> string" where
  "last_proxy_dial hs =
     (case find (\<lambda>h. member ''handler'' h = Some (JStr ''reverse_proxy'')) (rev hs) of
        None \<Rightarrow> ''''
      | Some h \<Rightarrow>
          (case member ''upstreams'' h of
             Some (JArr (u # _)) \<Rightarrow> (case member ''dial'' u of Some (JStr d) \<Rightarrow> d | _ \<Rightarrow> '''')
           | _ \<Rightarrow> ''''))"

record listed_route =
  li_host :: string
  li_path :: string
  li_target :: string

definition listed :: "route_probe \<Rightarrow> listed_route list" where
  "listed p =
     (if rp_id p = waf_route_id then []
      else case rp_match p of
        m # _ \<Rightarrow> (case mp_host m of
          h # _ \<Rightarrow> [\<lparr>li_host = h, li_path = path_from_matcher (mp_path m), li_target = last_proxy_dial (rp_handle p)\<rparr>]
        | [] \<Rightarrow> [])
      | [] \<Rightarrow> [])"

definition list_decoded :: "json list \<Rightarrow> listed_route list option" where
  "list_decoded vs =
     (if list_all (snd \<circ> list_probe) vs then Some (concat (map (listed \<circ> fst \<circ> list_probe) vs)) else None)"

section \<open>The order of the table\<close>

record route_key =
  rk_hostless :: bool
  rk_wild :: bool
  rk_depth :: nat
  rk_path :: string
  rk_host :: string

definition path_depth :: "string \<Rightarrow> nat" where
  "path_depth p = (if is_root_path p then 0 else count_list (trim_char CHR ''/'' p) CHR ''/'' + 1)"

definition key_of :: "json \<Rightarrow> route_key" where
  "key_of raw = (let (p, ok) = key_probe raw in
     case rp_match p of
       m # _ \<Rightarrow>
         if \<not> ok then \<lparr>rk_hostless = True, rk_wild = False, rk_depth = 0, rk_path = '''', rk_host = ''''\<rparr>
         else let host = (case mp_host m of h # _ \<Rightarrow> h | [] \<Rightarrow> ''''); path = path_from_matcher (mp_path m)
              in \<lparr>rk_hostless = (host = ''''), rk_wild = prefix ''*.'' host, rk_depth = path_depth path,
                  rk_path = path, rk_host = host\<rparr>
     | [] \<Rightarrow> \<lparr>rk_hostless = True, rk_wild = False, rk_depth = 0, rk_path = '''', rk_host = ''''\<rparr>)"

definition route_less :: "json \<Rightarrow> json \<Rightarrow> bool" where
  "route_less x y = (let a = key_of x; b = key_of y in
     if rk_hostless a \<noteq> rk_hostless b then \<not> rk_hostless a
     else if rk_wild a \<noteq> rk_wild b then \<not> rk_wild a
     else if rk_depth a \<noteq> rk_depth b then rk_depth a > rk_depth b
     else if rk_path a \<noteq> rk_path b then rk_path a < rk_path b
     else rk_host a < rk_host b)"

definition sort_routes_by_specificity :: "json list \<Rightarrow> json list" where
  "sort_routes_by_specificity = sort_by route_less"

text \<open>The key as a tuple of the library's lexicographic order; depth counts down.\<close>

definition order_key :: "json \<Rightarrow> bool \<times> bool \<times> int \<times> string \<times> string" where
  "order_key r = (let k = key_of r in (rk_hostless k, rk_wild k, - int (rk_depth k), rk_path k, rk_host k))"

interpretation specificity: key_comparison route_less order_key
  by unfold_locales (auto simp: route_less_def order_key_def Let_def less_prod_def')

definition catch_all_route :: "string \<Rightarrow> caddy_route" where
  "catch_all_route up = \<lparr>cr_id = catch_all_route_id, cr_match = [],
     cr_handle = [new_reverse_proxy_handle [up] '''']\<rparr>"

text \<open>
  \<open>reorderRoutes\<close>, between the read and the write: the last route of each reserved id is kept, the
  WAF's in front, the catch-all at the end; what has no host is dropped.
\<close>

definition route_id :: "json \<Rightarrow> string" where
  "route_id r = rp_id (fst (table_probe r))"

definition is_domain_route :: "json \<Rightarrow> bool" where
  "is_domain_route r \<longleftrightarrow> route_id r \<noteq> catch_all_route_id \<and> route_id r \<noteq> waf_route_id \<and>
     probe_hosts (fst (table_probe r)) \<noteq> []"

definition last_with_id :: "string \<Rightarrow> json list \<Rightarrow> json option" where
  "last_with_id i rs = find (\<lambda>r. route_id r = i) (rev rs)"

definition reorder_list :: "string \<Rightarrow> json list \<Rightarrow> json list" where
  "reorder_list up raw =
     (case last_with_id waf_route_id raw of None \<Rightarrow> [] | Some w \<Rightarrow> [w]) @
     sort_routes_by_specificity (filter is_domain_route raw) @
     [case last_with_id catch_all_route_id raw of None \<Rightarrow> marshal_route (catch_all_route up) | Some c \<Rightarrow> c]"

text \<open>\<open>InitCatchAll\<close>, between the read and the write; an undecodable route is dropped.\<close>

definition init_list :: "string \<Rightarrow> json list \<Rightarrow> json list" where
  "init_list up raw =
     filter (\<lambda>r. snd (table_probe r) \<and> route_id r \<noteq> catch_all_route_id \<and> probe_hosts (fst (table_probe r)) \<noteq> []) raw @
     [marshal_route (catch_all_route up)]"

section \<open>What is read back from what was written\<close>

lemma field_names [simp]:
  "fold_case ''@id'' = ''@id''" "fold_case ''match'' = ''match''" "fold_case ''handle'' = ''handle''"
  "fold_case ''host'' = ''host''" "fold_case ''path'' = ''path''"
  by code_simp+

lemma field_order:
  "''@id'' \<le> ''match''" "''@id'' \<le> ''handle''" "\<not> ''match'' \<le> ''handle''" "''handle'' \<le> ''match''" "''host'' \<le> ''path''"
  by code_simp+

lemma norm_match:
  "json_norm (marshal_match m) = marshal_match m"
  by (simp add: marshal_match_def norm_members_def put_member_def field_order o_def)

lemma norm_marshal:
  "json_norm (marshal_route r) = JObj ((''@id'', JStr (cr_id r)) # (''handle'', JArr (map json_norm (cr_handle r))) #
     (if cr_match r = [] then [] else [(''match'', JArr (map marshal_match (cr_match r)))]))"
  by (simp add: marshal_route_def norm_members_def put_member_def field_order o_def norm_match)

lemma lenient_strings_jstrs [simp]: "lenient_strings old (jstrs xs) = (xs, True)"
  by (simp add: lenient_strings_def lenient_list_def lenient_string_def list_all_iff o_def)

lemma probe_marshal_match:
  "lenient_struct (set_match wp) no_match (marshal_match m) =
     (\<lparr>mp_host = cm_host m, mp_path = (if wp then cm_path m else [])\<rparr>, True)"
  by (simp add: marshal_match_def lenient_struct_def set_match_def)

definition probes_of :: "bool \<Rightarrow> caddy_route \<Rightarrow> match_probe list" where
  "probes_of wp r = map (\<lambda>m. \<lparr>mp_host = cm_host m, mp_path = (if wp then cm_path m else [])\<rparr>) (cr_match r)"

lemma probe_marshal_matches:
  "lenient_matches wp old (JArr (map marshal_match ms)) =
     (map (\<lambda>m. \<lparr>mp_host = cm_host m, mp_path = (if wp then cm_path m else [])\<rparr>) ms, True)"
  by (simp add: lenient_matches_def lenient_list_def probe_marshal_match list_all_iff o_def)

lemma table_probe_norm:
  "table_probe (json_norm (marshal_route r)) = (\<lparr>rp_id = cr_id r, rp_match = probes_of False r, rp_handle = []\<rparr>, True)"
  by (simp add: table_probe_def norm_marshal lenient_struct_def set_probe_def lenient_string_def
      probe_marshal_matches probes_of_def)

lemma key_probe_norm:
  "key_probe (json_norm (marshal_route r)) = (\<lparr>rp_id = '''', rp_match = probes_of True r, rp_handle = []\<rparr>, True)"
  by (simp add: key_probe_def norm_marshal lenient_struct_def set_probe_def probe_marshal_matches probes_of_def)

section \<open>The handler chain\<close>

lemma is_map_norm [simp]: "is_map (json_norm v) = is_map v"
  by (cases v) (auto simp: is_map_def)

lemma lenient_handles: "list_all is_map hs \<Longrightarrow> lenient_list lenient_handle old (JArr hs) = (hs, True)"
  by (auto simp: lenient_list_def lenient_handle_def list_all_iff o_def intro!: map_idI)

lemma list_probe_norm:
  assumes "list_all is_map (cr_handle r)"
  shows "list_probe (json_norm (marshal_route r)) =
    (\<lparr>rp_id = cr_id r, rp_match = probes_of True r, rp_handle = map json_norm (cr_handle r)\<rparr>, True)"
  using assms
  by (simp add: list_probe_def norm_marshal lenient_struct_def set_probe_def lenient_string_def
      probe_marshal_matches probes_of_def lenient_handles list_all_iff)

definition route_prefix :: "build_env \<Rightarrow> route_config \<Rightarrow> json list \<Rightarrow> json list" where
  "route_prefix env cfg adv =
     (if rc_force_https cfg \<and> rc_ssl_mode cfg \<noteq> ''off'' then [https_redirect] else []) @
     feature_handlers env cfg @ adv @
     (if rc_strip cfg \<and> \<not> is_root_path (rc_path cfg)
      then [JObj [(''handler'', JStr ''rewrite''), (''strip_path_prefix'', JStr (rc_path cfg))]] else []) @
     (if rc_internal cfg \<noteq> ''''
      then [JObj [(''handler'', JStr ''rewrite''), (''uri'', JStr (rc_internal cfg @ ''{http.request.uri}''))]] else [])"

lemma build_route_Inr:
  assumes "build_route env cfg = Inr r"
  obtains adv where "cr_handle r = route_prefix env cfg adv @ [new_reverse_proxy_handle [target_to_dial (rc_target cfg)] (rc_health cfg)]"
    "(rc_advanced cfg = RawEmpty \<and> adv = []) \<or> parse_advanced_config (rc_advanced cfg) = Inr adv"
    "cr_id r = route_id_for (be_sha env) (rc_host cfg) (rc_path cfg)"
    "cr_match r = [\<lparr>cm_host = [rc_host cfg], cm_path = path_matcher (rc_path cfg)\<rparr>]"
  using assms
  by (auto simp: build_route_def build_feature_handlers_def route_prefix_def Let_def res_simps split: if_splits)

lemma advanced_Inr:
  assumes "parse_advanced_config raw = Inr adv" and "h \<in> set adv"
  shows "is_map h \<and> handler_name h \<in> set advanced_handler_allowlist"
proof -
  from assms obtain hs where adv: "adv = map json_norm hs" and m: "list_all is_map hs"
    and ok: "\<And>i. i < length hs \<Longrightarrow> handler_name (hs ! i) \<in> set advanced_handler_allowlist"
    by (auto simp: parse_advanced_config_def Let_def filter_empty_conv split: raw_json.splits json.splits if_splits)
  from assms(2) adv obtain x where x: "x \<in> set hs" "h = json_norm x" by auto
  then have "handler_name x \<in> set advanced_handler_allowlist" using ok by (metis in_set_conv_nth)
  moreover have "handler_name (json_norm x) = handler_name x"
    by (auto simp: handler_name_def member_norm split: option.splits json.splits)
  ultimately show ?thesis using x m by (auto simp: list_all_iff)
qed

lemma feature_handler_shape: "is_map (feature_handler z f) \<and> handler_name (feature_handler z f) \<noteq> ''reverse_proxy''"
  by (cases f) (auto simp: feature_handler_def subroute_def is_map_def handler_name_def member_def
      split: option.splits if_splits)

lemma feature_handlers_shape:
  "h \<in> set (feature_handlers env cfg) \<Longrightarrow> is_map h \<and> handler_name h \<noteq> ''reverse_proxy''"
  by (auto simp: feature_handlers_def feature_handler_shape split: if_splits sum.splits)

lemma route_prefix_shape:
  assumes "\<And>h. h \<in> set adv \<Longrightarrow> is_map h \<and> handler_name h \<noteq> ''reverse_proxy''"
    and "h \<in> set (route_prefix env cfg adv)"
  shows "is_map h \<and> handler_name h \<noteq> ''reverse_proxy''"
  using assms feature_handlers_shape [of h env cfg]
  by (auto simp: route_prefix_def https_redirect_def subroute_def is_map_def handler_name_def member_def split: if_splits)

lemma proxy_handle_shape:
  "is_map (new_reverse_proxy_handle ds hp)"
  "member ''handler'' (new_reverse_proxy_handle ds hp) = Some (JStr ''reverse_proxy'')"
  "member ''upstreams'' (new_reverse_proxy_handle ds hp) = Some (JArr (map (\<lambda>d. JObj [(''dial'', JStr d)]) ds))"
  by (auto simp: new_reverse_proxy_handle_def is_map_def member_def)

lemma built_handles:
  assumes "build_route env cfg = Inr r"
  shows "\<exists>adv hs. cr_handle r = hs @ [new_reverse_proxy_handle [target_to_dial (rc_target cfg)] (rc_health cfg)] \<and>
    hs = route_prefix env cfg adv \<and> (\<forall>h \<in> set hs. is_map h \<and> handler_name h \<noteq> ''reverse_proxy'')"
proof -
  from assms obtain adv where c: "cr_handle r = route_prefix env cfg adv @ [new_reverse_proxy_handle [target_to_dial (rc_target cfg)] (rc_health cfg)]"
    and a: "(rc_advanced cfg = RawEmpty \<and> adv = []) \<or> parse_advanced_config (rc_advanced cfg) = Inr adv"
    by (rule build_route_Inr)
  have "is_map h \<and> handler_name h \<noteq> ''reverse_proxy''" if "h \<in> set adv" for h
    using a that advanced_Inr [of "rc_advanced cfg" adv h] by (auto simp: advanced_handler_allowlist_def)
  then show ?thesis using c route_prefix_shape by blast
qed

text \<open>
  C18: the gate stands in front of the application. In a built route the last handler is the proxy to
  the configured target, no earlier handler of the chain is a proxy, whatever the advanced
  configuration says, every enabled feature whose stored configuration parses has its handler in the
  chain before the public prefix is stripped, and the redirect to HTTPS comes first of all when the
  domain asks for it and TLS is not off.
\<close>
theorem features_guard_the_proxy:
  assumes "build_route env cfg = Inr r"
  shows "\<exists>guards tails. cr_handle r =
       guards @ tails @ [new_reverse_proxy_handle [target_to_dial (rc_target cfg)] (rc_health cfg)] \<and>
     (\<forall>h \<in> set (guards @ tails). handler_name h \<noteq> ''reverse_proxy'') \<and>
     length tails \<le> 2 \<and> (\<forall>h \<in> set tails. handler_name h = ''rewrite'') \<and>
     (rc_force_https cfg \<and> rc_ssl_mode cfg \<noteq> ''off'' \<longrightarrow> (\<exists>rest. guards = https_redirect # rest)) \<and>
     (\<forall>f \<in> set (rc_features cfg). \<forall>c. rf_enabled f \<longrightarrow>
        parse_feature_config (be_is_range env) (be_duration env) (rf_type f) (rf_config f) = Inr c \<longrightarrow>
        feature_handler (route_id_for (be_sha env) (rc_host cfg) (rc_path cfg)) c \<in> set guards)"
proof -
  from built_handles [OF assms] obtain adv where c: "cr_handle r = route_prefix env cfg adv @ [new_reverse_proxy_handle [target_to_dial (rc_target cfg)] (rc_health cfg)]"
    and np: "\<forall>h \<in> set (route_prefix env cfg adv). is_map h \<and> handler_name h \<noteq> ''reverse_proxy''"
    by blast
  define guards where "guards = (if rc_force_https cfg \<and> rc_ssl_mode cfg \<noteq> ''off'' then [https_redirect] else []) @
     feature_handlers env cfg @ adv"
  define tails where "tails = (if rc_strip cfg \<and> \<not> is_root_path (rc_path cfg)
      then [JObj [(''handler'', JStr ''rewrite''), (''strip_path_prefix'', JStr (rc_path cfg))]] else []) @
     (if rc_internal cfg \<noteq> ''''
      then [JObj [(''handler'', JStr ''rewrite''), (''uri'', JStr (rc_internal cfg @ ''{http.request.uri}''))]] else [])"
  have p: "route_prefix env cfg adv = guards @ tails"
    by (simp add: route_prefix_def guards_def tails_def)
  have "length tails \<le> 2" "\<forall>h \<in> set tails. handler_name h = ''rewrite''"
    by (auto simp: tails_def handler_name_def member_def)
  moreover have "\<exists>rest. guards = https_redirect # rest" if "rc_force_https cfg" "rc_ssl_mode cfg \<noteq> ''off''"
    using that by (simp add: guards_def)
  moreover have "feature_handler (route_id_for (be_sha env) (rc_host cfg) (rc_path cfg)) x \<in> set guards"
    if "f \<in> set (rc_features cfg)" "rf_enabled f"
      "parse_feature_config (be_is_range env) (be_duration env) (rf_type f) (rf_config f) = Inr x" for f x
    using that by (force simp: guards_def feature_handlers_def)
  ultimately show ?thesis using c np p by (intro exI [of _ guards] exI [of _ tails]) auto
qed

definition demo_build_env :: build_env where
  "demo_build_env = \<lparr>be_sha = (\<lambda>s. map of_char s), be_is_range = (\<lambda>_. True), be_duration = (\<lambda>_. None)\<rparr>"

definition demo_cfg :: "string \<Rightarrow> string \<Rightarrow> route_config" where
  "demo_cfg h p = \<lparr>rc_host = h, rc_path = p, rc_strip = True, rc_internal = '''', rc_target = ''http://app:8080'', rc_tls = True,
     rc_force_https = True, rc_ssl_mode = ''automatic'', rc_ssl_provider = '''', rc_cert = '''', rc_key = '''',
     rc_features = [\<lparr>rf_type = ''ip_allowlist'', rf_config = Raw (JObj [(''ranges'', jstrs [''10.0.0.0/8''])]), rf_enabled = True\<rparr>],
     rc_advanced = RawEmpty, rc_health = ''''\<rparr>"

lemma demo_builds: "\<exists>r. build_route demo_build_env (demo_cfg h p) = Inr r"
  by (simp add: build_route_def build_feature_handlers_def demo_cfg_def)

theorem features_guard_the_proxy_witness:
  "\<exists>r guards tails. build_route demo_build_env (demo_cfg ''a.io'' ''/api'') = Inr r \<and>
     cr_handle r = guards @ tails @ [new_reverse_proxy_handle [''app:8080''] ''''] \<and>
     (\<forall>h \<in> set (guards @ tails). handler_name h \<noteq> ''reverse_proxy'')"
proof -
  obtain r where r: "build_route demo_build_env (demo_cfg ''a.io'' ''/api'') = Inr r" using demo_builds by blast
  have d: "target_to_dial (rc_target (demo_cfg ''a.io'' ''/api'')) = ''app:8080''" "rc_health (demo_cfg ''a.io'' ''/api'') = ''''"
    by (simp_all add: demo_cfg_def target_to_dial_def)
  from features_guard_the_proxy [OF r] r show ?thesis unfolding d by blast
qed

text \<open>
  the allowlist of the advanced configuration is one level deep. Whatever a \<open>subroute\<close> holds
  inside and whatever providers an \<open>authentication\<close> handler names is accepted and reaches Caddy, so a
  nested \<open>reverse_proxy\<close> to any upstream passes the check that is meant to refuse it, and nothing
  scopes \<open>authentication\<close> to \<open>http_basic\<close>.
\<close>
theorem advanced_allowlist_is_shallow:
  "parse_advanced_config (Raw (JArr [JObj [(''handler'', JStr ''subroute''), (''routes'', inner)],
                                     JObj [(''handler'', JStr ''authentication''), (''providers'', prov)]])) =
     Inr [JObj [(''handler'', JStr ''subroute''), (''routes'', json_norm inner)],
          JObj [(''handler'', JStr ''authentication''), (''providers'', json_norm prov)]]"
proof -
  have o: "''handler'' \<le> ''routes''" "''handler'' \<le> ''providers''" by code_simp+
  have r: "[0..<2] = [0, 1 :: nat]" by (simp add: upt_rec)
  show ?thesis
    by (simp add: parse_advanced_config_def is_map_def Let_def r handler_name_def member_def
        advanced_handler_allowlist_def norm_members_def put_member_def o numeral_2_eq_2)
qed

section \<open>Round trips\<close>

lemma path_round_trip:
  "\<not> suffix ''/*'' p \<Longrightarrow> path_from_matcher (path_matcher p) = (if is_root_path p then ''/'' else p)"
  by (simp add: path_from_matcher_def path_matcher_def)

lemma dial_member: "member ''dial'' (JObj [(''dial'', JStr d)]) = Some (JStr d)"
  by (simp add: member_def)

lemma norm_dial: "json_norm (JObj [(''dial'', JStr d)]) = JObj [(''dial'', JStr d)]"
  by (simp add: norm_members_def put_member_def)

lemma last_proxy_dial_built:
  "last_proxy_dial (map json_norm (hs @ [new_reverse_proxy_handle [d] hp])) = d"
  by (simp add: last_proxy_dial_def member_norm proxy_handle_shape norm_dial dial_member del: json_norm.simps(6))

lemma built_is_map:
  assumes "build_route env cfg = Inr r"
  shows "list_all is_map (cr_handle r)"
  using built_handles [OF assms] proxy_handle_shape(1) by (auto simp: list_all_iff)

lemma built_match:
  assumes "build_route env cfg = Inr r"
  shows "cr_id r = route_id_for (be_sha env) (rc_host cfg) (rc_path cfg)"
    "cr_match r = [\<lparr>cm_host = [rc_host cfg], cm_path = path_matcher (rc_path cfg)\<rparr>]"
  using assms by (auto elim: build_route_Inr)

lemma route_id_prefix: "prefix ''route-'' (route_id_for sha h p)"
  by (simp add: route_id_for_def)

section \<open>Route identifiers\<close>

text \<open>What follows the last dot of a hostname has no hyphen: a top-level domain is letters only.\<close>

definition top_label :: "string \<Rightarrow> string" where
  "top_label s = rev (takeWhile ((\<noteq>) CHR ''.'') (rev s))"

lemma takeWhile_skip: "c \<notin> set u \<Longrightarrow> takeWhile ((\<noteq>) c) (u @ v) = u @ takeWhile ((\<noteq>) c) v"
  by (induction u) auto

lemma takeWhile_absent: "c \<notin> set u \<Longrightarrow> takeWhile ((\<noteq>) c) u = u"
  by (induction u) auto

lemma takeWhile_present: "c \<in> set u \<Longrightarrow> takeWhile ((\<noteq>) c) (u @ v) = takeWhile ((\<noteq>) c) u"
  by (induction u) auto

lemma top_label_append: "CHR ''.'' \<notin> set t \<Longrightarrow> top_label (s @ t) = top_label s @ t"
  by (simp add: top_label_def takeWhile_skip)

lemma split_on_long: "c \<in> set s \<Longrightarrow> 2 \<le> length (split_on c s)"
proof (induction s)
  case (Cons x xs)
  show ?case
  proof (cases "x = c")
    case True
    then show ?thesis by (cases "split_on c xs") auto
  next
    case False
    with Cons have "2 \<le> length (split_on c xs)" by simp
    with False show ?thesis by (cases "split_on c xs") auto
  qed
qed simp

lemma top_label_split: "top_label s = List.last (split_on CHR ''.'' s)"
proof (induction s)
  case (Cons x xs)
  show ?case
  proof (cases "CHR ''.'' \<in> set xs")
    case True
    then have "top_label (x # xs) = top_label xs"
      by (simp add: top_label_def takeWhile_present)
    with Cons split_on_long [OF True] show ?thesis
      by (cases "split_on CHR ''.'' xs") auto
  next
    case False
    then show ?thesis by (auto simp: top_label_def split_on_no_sep takeWhile_skip)
  qed
qed (simp add: top_label_def)

lemma cut_after_host:
  assumes "x1 @ t1 = x2 @ t2" and "CHR ''.'' \<notin> set t1" "CHR ''.'' \<notin> set t2"
    and "CHR ''-'' \<notin> set (top_label x1)" "CHR ''-'' \<notin> set (top_label x2)"
    and "t1 = '''' \<or> hd t1 = CHR ''-''" "t2 = '''' \<or> hd t2 = CHR ''-''"
  shows "x1 = x2 \<and> t1 = t2"
proof -
  have tw: "takeWhile ((\<noteq>) CHR ''-'') (top_label x @ t) = top_label x"
    if "CHR ''-'' \<notin> set (top_label x)" "t = '''' \<or> hd t = CHR ''-''" for x t
    using that by (cases t) (auto simp: takeWhile_skip takeWhile_absent)
  have "top_label x1 @ t1 = top_label x2 @ t2"
    using assms(1-3) by (metis top_label_append)
  then have "top_label x1 = top_label x2"
    using tw assms(4-7) by metis
  with \<open>top_label x1 @ t1 = top_label x2 @ t2\<close> assms(1) show ?thesis by simp
qed

lemma alnum_not: "alnum c \<Longrightarrow> c \<noteq> CHR ''.'' \<and> c \<noteq> CHR ''*'' \<and> c \<noteq> CHR ''_'' \<and> c \<noteq> CHR ''-'' \<and> c \<noteq> CHR ''/''"
  by (auto simp: alnum_def go_digit_def go_letter_def)

lemma slug_runs_chars: "c \<in> set (slug_runs b p) \<Longrightarrow> alnum c \<or> c = CHR ''-''"
  by (induction b p rule: slug_runs.induct) (auto split: if_splits)

lemma slug_no_dot: "CHR ''.'' \<notin> set (path_slug p)"
proof
  assume "CHR ''.'' \<in> set (path_slug p)"
  then have "CHR ''.'' \<in> set (slug_runs False p)"
    by (auto simp: path_slug_def trim_char_def dest!: set_dropWhileD)
  then show False using slug_runs_chars alnum_not by blast
qed

lemma code_of_char: "k < 256 \<Longrightarrow> (of_char (char_of k) :: nat) = k" for k :: nat
  by (simp only: of_char_of mod_less)

lemma hex_digit_code: "n < 16 \<Longrightarrow> (of_char (hex_digit n) :: nat) = (if n < 10 then 48 + n else 87 + n)"
  unfolding hex_digit_def by (rule code_of_char) simp

lemma hex_digit_eq:
  assumes "m < 16" and "n < 16"
  shows "hex_digit m = hex_digit n \<longleftrightarrow> m = n"
proof
  assume "hex_digit m = hex_digit n"
  then have "(if m < 10 then 48 + m else 87 + m) = (if n < 10 then 48 + n else 87 + n)"
    using hex_digit_code [OF assms(1)] hex_digit_code [OF assms(2)] by metis
  then show "m = n" by (simp split: if_splits)
qed simp

lemma hex_no_dot: "n < 16 \<Longrightarrow> hex_digit n \<noteq> CHR ''.''"
proof
  assume "n < 16" "hex_digit n = CHR ''.''"
  then have "(46 :: nat) = (if n < 10 then 48 + n else 87 + n)"
    using hex_digit_code [of n] by simp
  then show False by (simp split: if_splits)
qed

lemma show_hex_Cons: "show_hex (b # bs) = hex_digit (unat b div 16) # hex_digit (unat b mod 16) # show_hex bs"
  by (simp add: show_hex_def Let_def)

lemma byte_lt: "unat (b :: byte) < 256"
  using unsigned_less [of b, where ?'a = nat] by simp

lemma nibbles: "unat (b :: byte) div 16 < 16" "unat (b :: byte) mod 16 < 16"
  using byte_lt [of b] by (auto simp: less_mult_imp_div_less)

lemma show_hex_no_dot: "CHR ''.'' \<notin> set (show_hex bs)"
proof (induction bs)
  case (Cons b bs)
  moreover have "hex_digit (unat b div 16) \<noteq> CHR ''.''" "hex_digit (unat b mod 16) \<noteq> CHR ''.''"
    using hex_no_dot nibbles by blast+
  ultimately show ?case by (simp add: show_hex_Cons)
qed (simp add: show_hex_def)

lemma length_show_hex: "length (show_hex bs) = 2 * length bs"
  by (induction bs) (simp_all add: show_hex_Cons, simp add: show_hex_def)

lemma show_hex_inj: "length bs = length cs \<Longrightarrow> show_hex bs = show_hex cs \<longleftrightarrow> bs = cs"
proof (induction bs cs rule: list_induct2)
  case (Cons b bs c cs)
  have "b = c" if "unat b div 16 = unat c div 16" "unat b mod 16 = unat c mod 16"
    using that by (metis div_mult_mod_eq word_eq_iff_unsigned)
  with Cons show ?case
    using nibbles [of b] nibbles [of c] by (auto simp: show_hex_Cons hex_digit_eq)
qed (simp add: show_hex_def)

lemma valid_hostname_chars: "valid_hostname v \<Longrightarrow> c \<in> set v \<Longrightarrow> alnum c \<or> c = CHR ''-'' \<or> c = CHR ''.''"
proof -
  assume v: "valid_hostname v" and c: "c \<in> set v"
  show ?thesis
  proof (cases "v = ''localhost''")
    case True
    with c show ?thesis by (auto simp: alnum_def go_digit_def go_letter_def)
  next
    case False
    let ?ls = "split_on CHR ''.'' v"
    have ls: "\<forall>l \<in> set ?ls. \<forall>x \<in> set l. alnum x \<or> x = CHR ''-''"
    proof -
      have "?ls = butlast ?ls @ [List.last ?ls]" by simp
      then have "set ?ls = set (butlast ?ls) \<union> {List.last ?ls}" by (metis set_append list.simps(15) empty_set)
      with v False show ?thesis
        by (auto simp: valid_hostname_def Let_def list_all_iff valid_label_def alnum_def)
    qed
    have j: "x \<in> set (join_with d ps) \<Longrightarrow> x = d \<or> (\<exists>p \<in> set ps. x \<in> set p)" for x d ps
      by (induction d ps rule: join_with.induct) auto
    from c have "c \<in> set (join_with CHR ''.'' ?ls)" by simp
    from j [OF this] ls show ?thesis by blast
  qed
qed

lemma valid_hostname_top: "valid_hostname v \<Longrightarrow> CHR ''-'' \<notin> set (top_label v)"
proof -
  assume v: "valid_hostname v"
  show ?thesis
  proof (cases "v = ''localhost''")
    case True
    then show ?thesis by (auto simp: top_label_def dest!: set_takeWhileD)
  next
    case False
    then have "list_all go_letter (top_label v)" using v
      by (simp add: valid_hostname_def Let_def top_label_split)
    then show ?thesis by (auto simp: list_all_iff go_letter_def)
  qed
qed

lemma replace_first_absent: "\<not> sublist old s \<Longrightarrow> replace_first old new s = s"
  by (induction s) (auto simp: sublist_Cons_right)

lemma sublist_set: "sublist u v \<Longrightarrow> set u \<subseteq> set v"
  by (auto simp: sublist_def)

lemma id_host_wild: "id_host (''*.'' @ v) = ''_wildcard_.'' @ v"
  by (simp add: id_host_def)

lemma id_host_plain: "valid_hostname h \<Longrightarrow> id_host h = h"
proof -
  assume h: "valid_hostname h"
  have "\<not> sublist ''*.'' h"
  proof
    assume "sublist ''*.'' h"
    then have "CHR ''*'' \<in> set h" using sublist_set by fastforce
    then show False using valid_hostname_chars [OF h] alnum_not by blast
  qed
  then show ?thesis by (simp add: id_host_def replace_first_absent)
qed

lemma domain_host_cases:
  assumes "valid_domain_hostname h"
  obtains "valid_hostname h" "id_host h = h" "CHR ''*'' \<notin> set h" "CHR ''_'' \<notin> set h"
    | v where "h = ''*.'' @ v" "valid_hostname v" "id_host h = ''_wildcard_.'' @ v"
proof (cases "prefix ''*.'' h")
  case True
  then obtain v where h: "h = ''*.'' @ v" by (auto simp: prefix_def)
  moreover have "valid_hostname v"
    using assms unfolding h valid_domain_hostname_def trim_prefix_append .
  ultimately show ?thesis using that(2) id_host_wild by blast
next
  case False
  with assms have "valid_hostname h" by (simp add: valid_domain_hostname_def trim_prefix_def)
  with that(1) id_host_plain valid_hostname_chars alnum_not show ?thesis by blast
qed

lemma id_host_inj:
  assumes "valid_domain_hostname h" "valid_domain_hostname h'" "id_host h = id_host h'"
  shows "h = h'"
proof -
  have plain: "''_wildcard_.'' @ v \<noteq> w" if "CHR ''_'' \<notin> set w" for v w :: string
    using that by auto
  from assms show ?thesis
    by (elim domain_host_cases) (use plain in auto)
qed

lemma id_host_top: "valid_domain_hostname h \<Longrightarrow> CHR ''-'' \<notin> set (top_label (id_host h))"
proof (erule domain_host_cases)
  fix v assume v: "h = ''*.'' @ v" "valid_hostname v" "id_host h = ''_wildcard_.'' @ v"
  have "top_label (''_wildcard_.'' @ v) = top_label v"
  proof (cases "CHR ''.'' \<in> set v")
    case True
    then show ?thesis unfolding top_label_def rev_append by (subst takeWhile_present) auto
  next
    case False
    then show ?thesis by (simp add: top_label_def takeWhile_skip takeWhile_absent)
  qed
  with v show ?thesis using valid_hostname_top by simp
qed (simp add: valid_hostname_top)

definition id_tail :: "(string \<Rightarrow> bytes) \<Rightarrow> string \<Rightarrow> string" where
  "id_tail sha p = (if is_root_path p then '''' else ''-'' @ path_slug p @ ''-'' @ show_hex (take 3 (sha p)))"

lemma route_id_alt: "route_id_for sha h p = ''route-'' @ id_host h @ id_tail sha p"
  by (simp add: route_id_for_def id_tail_def)

lemma id_tail_facts: "CHR ''.'' \<notin> set (id_tail sha p)" "id_tail sha p = '''' \<or> hd (id_tail sha p) = CHR ''-''"
  using slug_no_dot show_hex_no_dot by (auto simp: id_tail_def)

lemma id_tail_eq:
  assumes "length (sha p) = 32" "length (sha q) = 32"
  shows "id_tail sha p = id_tail sha q \<longleftrightarrow>
    (is_root_path p \<and> is_root_path q) \<or>
    (\<not> is_root_path p \<and> \<not> is_root_path q \<and> path_slug p = path_slug q \<and> take 3 (sha p) = take 3 (sha q))"
proof -
  have l: "length (take 3 (sha p)) = length (take 3 (sha q))" using assms by simp
  then have "length (show_hex (take 3 (sha p))) = length (show_hex (take 3 (sha q)))"
    by (simp add: length_show_hex)
  then show ?thesis
    using show_hex_inj [OF l] by (auto simp: id_tail_def)
qed

text \<open>
  C35: a route id names one route. For hostnames the API accepts, two routes share an id exactly when
  they are on the same host and are both the whole host, or have paths whose slugs agree and whose
  digests agree in their first 24 bits; and no route has one of the ids Belune keeps for itself.
\<close>
theorem route_ids_identify:
  assumes "valid_domain_hostname h1" and "valid_domain_hostname h2"
    and "length (sha p1) = 32" and "length (sha p2) = 32"
  shows "(route_id_for sha h1 p1 = route_id_for sha h2 p2 \<longleftrightarrow>
      h1 = h2 \<and> ((is_root_path p1 \<and> is_root_path p2) \<or>
        (\<not> is_root_path p1 \<and> \<not> is_root_path p2 \<and> path_slug p1 = path_slug p2 \<and> take 3 (sha p1) = take 3 (sha p2)))) \<and>
    route_id_for sha h1 p1 \<notin> {catch_all_route_id, waf_route_id, dashboard_route_id}"
proof
  have "route_id_for sha h1 p1 = route_id_for sha h2 p2 \<longleftrightarrow>
      id_host h1 = id_host h2 \<and> id_tail sha p1 = id_tail sha p2"
    using cut_after_host [OF _ id_tail_facts(1) id_tail_facts(1) id_host_top id_host_top id_tail_facts(2) id_tail_facts(2)] assms
    by (auto simp: route_id_alt)
  then show "route_id_for sha h1 p1 = route_id_for sha h2 p2 \<longleftrightarrow>
      h1 = h2 \<and> ((is_root_path p1 \<and> is_root_path p2) \<or>
        (\<not> is_root_path p1 \<and> \<not> is_root_path p2 \<and> path_slug p1 = path_slug p2 \<and> take 3 (sha p1) = take 3 (sha p2)))"
    using id_host_inj assms id_tail_eq by metis
next
  have d: "CHR ''.'' \<in> set (id_host h1) \<or> id_host h1 = ''localhost''"
    using assms(1)
  proof (rule domain_host_cases)
    assume "valid_hostname h1" "id_host h1 = h1"
    then show ?thesis
      by (cases "CHR ''.'' \<in> set h1") (auto simp: valid_hostname_def Let_def split_on_no_sep)
  qed auto
  have "''localhost'' @ t \<notin> {''catch-all'', ''waf'', ''dashboard''}" for t by simp
  with d show "route_id_for sha h1 p1 \<notin> {catch_all_route_id, waf_route_id, dashboard_route_id}"
    by (auto simp: route_id_alt catch_all_route_id_def waf_route_id_def dashboard_route_id_def)
       (auto simp: append_eq_Cons_conv Cons_eq_append_conv)
qed

theorem route_ids_identify_witness:
  "route_id_for (\<lambda>s. replicate 29 0 @ [1, 2, 3]) ''a.io'' ''/x/y'' = route_id_for (\<lambda>s. replicate 29 0 @ [1, 2, 3]) ''a.io'' ''/x-y'' \<and>
   route_id_for (\<lambda>s. replicate 29 0 @ [1, 2, 3]) ''a.io'' ''/x'' \<noteq> route_id_for (\<lambda>s. replicate 29 0 @ [1, 2, 3]) ''a-x.io'' ''/''"
proof -
  have v: "valid_domain_hostname ''a.io''" "valid_domain_hostname ''a-x.io''" by code_simp+
  have s: "path_slug ''/x/y'' = path_slug ''/x-y''" by code_simp
  note t = route_ids_identify [of _ _ "\<lambda>s. replicate 29 0 @ [1, 2, 3]"]
  from t [OF v(1) v(1), of "''/x/y''" "''/x-y''"] s t [OF v(1) v(2), of "''/x''" "''/''"]
  show ?thesis by (simp add: is_root_path_def)
qed

section \<open>The order of the table\<close>

lemma list_round_trip:
  assumes "build_route env cfg = Inr r" and "\<not> suffix ''/*'' (rc_path cfg)"
    and "cr_id r \<noteq> waf_route_id"
  shows "list_decoded [json_norm (marshal_route r)] =
    Some [\<lparr>li_host = rc_host cfg, li_path = (if is_root_path (rc_path cfg) then ''/'' else rc_path cfg),
           li_target = target_to_dial (rc_target cfg)\<rparr>]"
proof -
  from built_handles [OF assms(1)] obtain hs where
    h: "cr_handle r = hs @ [new_reverse_proxy_handle [target_to_dial (rc_target cfg)] (rc_health cfg)]" by blast
  have "last_proxy_dial (map json_norm (cr_handle r)) = target_to_dial (rc_target cfg)"
    unfolding h by (rule last_proxy_dial_built)
  then show ?thesis
    using assms(2,3) path_round_trip [of "rc_path cfg"]
    by (simp add: list_decoded_def list_probe_norm built_is_map [OF assms(1)] listed_def probes_of_def built_match [OF assms(1)])
qed

text \<open>
  What Caddy documents of its matchers, for the routes written here: a host entry is a name, or
  \<open>*.\<close> and a domain of which it matches the names one label below; a path entry is exact or, with
  \<open>/*\<close>, a prefix; a route without a matcher matches every request; the first route that matches
  serves it. Hosts and paths are compared in lower case: \<open>lower\<close> is \<open>strings.ToLower\<close>, of which only
  the ASCII letters and a leading \<open>*.\<close> matter here. The path of a request is the one Caddy matches,
  decoded and cleaned. \<open>caddy_matching\<close> is that contract on a matcher given as a parameter.
\<close>

definition lower_ok :: "(string \<Rightarrow> string) \<Rightarrow> bool" where
  "lower_ok lower \<longleftrightarrow> (\<forall>s. (\<forall>c \<in> set s. (of_char c :: nat) < 128) \<longrightarrow> lower s = fold_case s) \<and>
     (\<forall>s. prefix ''*.'' (lower s) = prefix ''*.'' s)"

definition host_covers :: "string \<Rightarrow> string \<Rightarrow> bool" where
  "host_covers h n \<longleftrightarrow> n = h \<or>
     (prefix ''*.'' h \<and> (case split_on CHR ''.'' n of l # ls \<Rightarrow> l \<noteq> '''' \<and> ls = split_on CHR ''.'' (drop 2 h) | [] \<Rightarrow> False))"

definition path_covers :: "string \<Rightarrow> string \<Rightarrow> bool" where
  "path_covers p q \<longleftrightarrow> is_root_path p \<or> q = p \<or> prefix (p @ ''/'') q"

definition caddy_matching :: "(string \<Rightarrow> string) \<Rightarrow> (json \<Rightarrow> string \<Rightarrow> string \<Rightarrow> bool) \<Rightarrow> bool" where
  "caddy_matching lower hits \<longleftrightarrow>
     (\<forall>r h p n q. cr_match r = [\<lparr>cm_host = [h], cm_path = path_matcher p\<rparr>] \<longrightarrow> stored_path p \<longrightarrow>
        hits (json_norm (marshal_route r)) n q = (host_covers (lower h) (lower n) \<and> path_covers (lower p) (lower q)))"

definition matcher_demo :: "json \<Rightarrow> string \<Rightarrow> string \<Rightarrow> bool" where
  "matcher_demo j n q = (case rp_match (fst (key_probe j)) of
     [] \<Rightarrow> True
   | m # _ \<Rightarrow> list_ex (\<lambda>h. host_covers (fold_case h) (fold_case n)) (mp_host m) \<and>
       path_covers (fold_case (path_from_matcher (mp_path m))) (fold_case q))"

lemma stored_no_star: "stored_path p \<Longrightarrow> \<not> suffix ''/*'' p"
proof
  assume "stored_path p" "suffix ''/*'' p"
  then have "CHR ''*'' \<in> set p" "list_all path_char p" by (auto simp: suffix_def dest: stored_pathD(4))
  then show False by (auto simp: list_all_iff path_char_def alnum_def go_digit_def go_letter_def)
qed

lemma fold_char_same:
  assumes "(of_char d :: nat) < 65"
  shows "(let n = (of_char c :: nat) in if 65 \<le> n \<and> n \<le> 90 then char_of (n + 32) else c) = d \<longleftrightarrow> c = d"
proof (cases "65 \<le> (of_char c :: nat) \<and> (of_char c :: nat) \<le> 90")
  case True
  then have "(of_char (char_of ((of_char c :: nat) + 32) :: char) :: nat) = of_char c + 32" by simp
  then have "char_of ((of_char c :: nat) + 32) \<noteq> d" using assms True by auto
  moreover have "c \<noteq> d" using True assms by auto
  ultimately show ?thesis using True by (simp add: Let_def)
qed (auto simp: Let_def)

lemmas fold_char_slash = fold_char_same [of "CHR ''/''", simplified]

lemma fold_case_path [simp]:
  "length (fold_case p) = length p" "count_list (fold_case p) CHR ''/'' = count_list p CHR ''/''" "is_root_path (fold_case p) = is_root_path p"
proof -
  show "length (fold_case p) = length p" by (simp add: fold_case_def)
  show "count_list (fold_case p) CHR ''/'' = count_list p CHR ''/''"
    unfolding fold_case_def by (induction p) (simp_all add: fold_char_slash)
  show "is_root_path (fold_case p) = is_root_path p"
    by (auto simp: is_root_path_def fold_case_def fold_char_slash map_eq_Cons_conv)
qed

lemma fold_case_root: "fold_case ''/'' = ''/''"
  by code_simp

lemma matcher_demo_ok: "caddy_matching fold_case matcher_demo"
  by (auto simp: caddy_matching_def matcher_demo_def key_probe_norm probes_of_def path_round_trip stored_no_star
      path_covers_def is_root_path_def fold_case_root) (simp_all add: fold_case_def)

lemma fold_case_lowers: "lower_ok fold_case"
proof -
  have "prefix ''*.'' (fold_case s) = prefix ''*.'' s" for s
  proof -
    have low: "(of_char CHR ''*'' :: nat) < 65" "(of_char CHR ''.'' :: nat) < 65" by simp_all
    show ?thesis
    proof (cases s)
      case (Cons a t)
      then show ?thesis
        by (cases t) (simp_all add: fold_case_def eq_commute [of "CHR ''*''"] eq_commute [of "CHR ''.''"] fold_char_same [OF low(1)] fold_char_same [OF low(2)])
    qed (simp add: fold_case_def)
  qed
  then show ?thesis by (simp add: lower_ok_def)
qed

lemma stored_lower:
  assumes "lower_ok lower" and "stored_path p"
  shows "lower p = fold_case p"
proof -
  have "(of_char c :: nat) < 128" if "c \<in> set p" for c
    using stored_pathD(4) [OF assms(2)] that
    by (auto simp: list_all_iff path_char_def alnum_def go_digit_def go_letter_def Let_def)
  then show ?thesis using assms(1) by (simp add: lower_ok_def)
qed

definition served_key :: "route_config \<Rightarrow> bool \<times> bool \<times> int \<times> string \<times> string" where
  "served_key c = (rc_host c = '''', prefix ''*.'' (rc_host c), - int (path_depth (rc_path c)), rc_path c, rc_host c)"

lemma order_key_built:
  assumes "build_route env c = Inr r" and "stored_path (rc_path c)"
  shows "order_key (json_norm (marshal_route r)) = served_key c"
proof -
  have "path_from_matcher (path_matcher (rc_path c)) = rc_path c"
    using assms(2) path_round_trip [OF stored_no_star [OF assms(2)]] stored_pathD(5) [OF assms(2)]
    by (auto simp: is_root_path_def)
  then show ?thesis
    by (simp add: order_key_def key_of_def key_probe_norm probes_of_def built_match(2) [OF assms(1)] served_key_def Let_def)
qed

lemma stored_path_depth:
  assumes "stored_path p" and "\<not> is_root_path p"
  shows "path_depth p = count_list p CHR ''/''"
proof -
  note d = stored_pathD [OF assms(1)]
  from d(1) obtain t where p: "p = CHR ''/'' # t" by (auto simp: prefix_def)
  with assms(2) have t: "t \<noteq> ''''" by (auto simp: is_root_path_def)
  have h: "hd t \<noteq> CHR ''/''"
  proof
    assume "hd t = CHR ''/''"
    with t p obtain u where "p = ''//'' @ u" by (cases t) auto
    with d(3) show False by simp
  qed
  have l: "List.last t \<noteq> CHR ''/''" using d(6) assms(2) p t by (simp add: is_root_path_def)
  have "dropWhile ((=) CHR ''/'') t = t" using h t by (cases t) auto
  moreover have "dropWhile ((=) CHR ''/'') (rev t) = rev t" using l t by (cases t rule: rev_cases) auto
  ultimately have "trim_char CHR ''/'' p = t" by (simp add: trim_char_def p)
  then show ?thesis using assms(2) by (simp add: path_depth_def p)
qed

lemma deeper_is_longer:
  assumes "path_covers (fold_case p) q" "path_covers (fold_case p') q" "stored_path p" "stored_path p'" "path_depth p \<le> path_depth p'"
  shows "length p \<le> length p'"
proof (rule ccontr)
  assume "\<not> ?thesis"
  then have len: "length p' < length p" by simp
  have "1 \<le> length p'" using stored_pathD(5) [OF assms(4)] by (cases p') auto
  with len have p: "\<not> is_root_path p" by (auto simp: is_root_path_def)
  have pd: "path_depth p = count_list p CHR ''/''" using stored_path_depth assms(3) p by blast
  obtain t where "p = CHR ''/'' # t" using stored_pathD(1) [OF assms(3)] by (auto simp: prefix_def)
  then have "path_depth p \<noteq> 0" using pd by simp
  then have np: "\<not> is_root_path p'" using assms(5) by (auto simp: path_depth_def)
  let ?p = "fold_case p" and ?p' = "fold_case p'"
  have pq: "prefix ?p q" using assms(1) p unfolding path_covers_def by (metis append_prefixD prefix_order.refl fold_case_path(3))
  have "q \<noteq> ?p'" using len prefix_length_le [OF pq] by force
  then have "prefix (?p' @ ''/'') q" using assms(2) np unfolding path_covers_def by simp
  moreover have "length (?p' @ ''/'') \<le> length ?p" using len by simp
  ultimately have "prefix (?p' @ ''/'') ?p" using pq prefix_length_prefix by blast
  then obtain u where "?p = (?p' @ ''/'') @ u" unfolding prefix_def by blast
  then have "count_list ?p CHR ''/'' > count_list ?p' CHR ''/''" by simp
  then have "path_depth p > path_depth p'"
    using pd stored_path_depth [OF assms(4) np] by simp
  with assms(5) show False by simp
qed

lemma find_least:
  assumes "sorted (map f xs)" and "y \<in> set xs" "P y"
  shows "\<exists>x. find P xs = Some x \<and> x \<in> set xs \<and> P x \<and> f x \<le> f y"
  using assms by (induction xs) auto

lemma find_prefix: "find P xs = Some x \<Longrightarrow> find P (xs @ ys) = Some x"
  by (induction xs) auto

lemma reorder_without_waf:
  "\<exists>c. filter (\<lambda>r. route_id r \<noteq> waf_route_id) (reorder_list up raw) =
     sort_routes_by_specificity (filter is_domain_route raw) @ c"
proof -
  have "filter (\<lambda>r. route_id r \<noteq> waf_route_id) (sort_routes_by_specificity (filter is_domain_route raw)) =
      sort_routes_by_specificity (filter is_domain_route raw)"
    by (auto simp: filter_id_conv sort_routes_by_specificity_def is_domain_route_def)
  moreover have "route_id w = waf_route_id" if "last_with_id waf_route_id raw = Some w" for w
    using that by (auto simp: last_with_id_def find_Some_iff)
  ultimately show ?thesis
    by (auto simp: reorder_list_def split: option.splits)
qed

definition routes_valid :: "build_env \<Rightarrow> route_config list \<Rightarrow> bool" where
  "routes_valid env cfgs \<longleftrightarrow> (\<forall>c \<in> set cfgs. rc_host c \<noteq> '''' \<and> stored_path (rc_path c) \<and>
     (\<exists>r. build_route env c = Inr r \<and> cr_id r \<notin> {catch_all_route_id, waf_route_id}))"

definition table_entry :: "build_env \<Rightarrow> route_config \<Rightarrow> json" where
  "table_entry env c = (case build_route env c of Inr r \<Rightarrow> json_norm (marshal_route r) | Inl _ \<Rightarrow> JNull)"

lemma table_entry_Inr: "build_route env c = Inr r \<Longrightarrow> table_entry env c = json_norm (marshal_route r)"
  by (simp add: table_entry_def)

lemma table_entry_domain:
  assumes "routes_valid env cfgs" "c \<in> set cfgs"
  shows "is_domain_route (table_entry env c)" "order_key (table_entry env c) = served_key c"
proof -
  from assms obtain r where r: "build_route env c = Inr r" "cr_id r \<notin> {catch_all_route_id, waf_route_id}"
    and s: "stored_path (rc_path c)" by (auto simp: routes_valid_def)
  show "is_domain_route (table_entry env c)"
    using r by (simp add: table_entry_Inr is_domain_route_def route_id_def table_probe_norm probe_hosts_def probes_of_def built_match(2))
  show "order_key (table_entry env c) = served_key c"
    using r(1) s by (simp add: table_entry_Inr order_key_built)
qed

text \<open>
  C4: a request reaches the most specific route. After a reorder, whatever else the table held and in
  whatever order Caddy returned it, a request that some configured domain covers (the case of letters
  aside, as Caddy compares) is served by a configured domain that covers it: of an exact hostname if one
  covers it, and no configured domain on that hostname that covers the request has a longer path prefix.
\<close>
theorem request_reaches_most_specific:
  assumes "lower_ok lower" and "caddy_matching lower hits" and "routes_valid env cfgs"
    and "mset (filter is_domain_route raw) = mset (map (table_entry env) cfgs)"
    and "\<exists>c \<in> set cfgs. host_covers (lower (rc_host c)) (lower n) \<and> path_covers (lower (rc_path c)) (lower q)"
  shows "\<exists>c' \<in> set cfgs.
    find (\<lambda>r. hits r n q) (filter (\<lambda>r. route_id r \<noteq> waf_route_id) (reorder_list up raw)) = Some (table_entry env c') \<and>
    host_covers (lower (rc_host c')) (lower n) \<and> path_covers (lower (rc_path c')) (lower q) \<and>
    (\<forall>c \<in> set cfgs. host_covers (lower (rc_host c)) (lower n) \<longrightarrow> path_covers (lower (rc_path c)) (lower q) \<longrightarrow>
      (\<not> prefix ''*.'' (rc_host c) \<longrightarrow> lower (rc_host c') = lower n) \<and>
      (lower (rc_host c') = lower (rc_host c) \<longrightarrow> length (rc_path c) \<le> length (rc_path c')))"
proof -
  obtain c\<^sub>0 where c\<^sub>0: "c\<^sub>0 \<in> set cfgs" "host_covers (lower (rc_host c\<^sub>0)) (lower n)" "path_covers (lower (rc_path c\<^sub>0)) (lower q)"
    using assms(5) by blast
  let ?D = "sort_routes_by_specificity (filter is_domain_route raw)"
  have hit: "hits (table_entry env d) n q = (host_covers (lower (rc_host d)) (lower n) \<and> path_covers (lower (rc_path d)) (lower q))" if "d \<in> set cfgs" for d
  proof -
    from that assms(3) obtain r where r: "build_route env d = Inr r" and s: "stored_path (rc_path d)"
      by (auto simp: routes_valid_def)
    show ?thesis
      using assms(2) built_match(2) [OF r] s unfolding caddy_matching_def table_entry_Inr [OF r] by blast
  qed
  have set_D: "set ?D = table_entry env ` set cfgs"
    unfolding sort_routes_by_specificity_def set_sort_by using assms(4) by (metis list.set_map mset_eq_setD)
  have sorted: "sorted (map order_key ?D)"
    unfolding sort_routes_by_specificity_def by (rule specificity.sorted_sort_by)
  from find_least [OF sorted, of "table_entry env c\<^sub>0" "\<lambda>r. hits r n q"] obtain x where
    x: "find (\<lambda>r. hits r n q) ?D = Some x" "x \<in> set ?D" "hits x n q"
    using set_D c\<^sub>0 hit by blast
  from x(2) set_D obtain c' where c': "c' \<in> set cfgs" "x = table_entry env c'" by blast
  obtain t where "filter (\<lambda>r. route_id r \<noteq> waf_route_id) (reorder_list up raw) = ?D @ t"
    using reorder_without_waf by blast
  then have f: "find (\<lambda>r. hits r n q) (filter (\<lambda>r. route_id r \<noteq> waf_route_id) (reorder_list up raw)) = Some (table_entry env c')"
    using x(1) c'(2) by (simp add: find_prefix)
  have cov: "host_covers (lower (rc_host c')) (lower n)" "path_covers (lower (rc_path c')) (lower q)"
    using hit c' x(3) by auto
  have best: "(\<not> prefix ''*.'' (rc_host c) \<longrightarrow> lower (rc_host c') = lower n) \<and>
      (lower (rc_host c') = lower (rc_host c) \<longrightarrow> length (rc_path c) \<le> length (rc_path c'))"
    if c: "c \<in> set cfgs" "host_covers (lower (rc_host c)) (lower n)" "path_covers (lower (rc_path c)) (lower q)" for c
  proof -
  have "order_key x \<le> order_key (table_entry env c)"
    using find_least [OF sorted, of "table_entry env c" "\<lambda>r. hits r n q"] set_D c hit x(1) by auto
  then have "served_key c' \<le> served_key c"
    using table_entry_domain(2) [OF assms(3)] c' c(1) by simp
  moreover have "rc_host c \<noteq> ''''" "rc_host c' \<noteq> ''''" and st: "stored_path (rc_path c)" "stored_path (rc_path c')"
    using assms(3) c(1) c'(1) by (auto simp: routes_valid_def)
  ultimately have k: "\<not> prefix ''*.'' (rc_host c) \<longrightarrow> \<not> prefix ''*.'' (rc_host c')"
    "prefix ''*.'' (rc_host c) = prefix ''*.'' (rc_host c') \<longrightarrow> path_depth (rc_path c) \<le> path_depth (rc_path c')"
    by (auto simp: served_key_def less_eq_prod_def less_prod_def)
  have star: "prefix ''*.'' (lower s) = prefix ''*.'' s" for s using assms(1) by (simp add: lower_ok_def)
  have "\<not> prefix ''*.'' (rc_host c) \<longrightarrow> lower (rc_host c') = lower n"
    using k(1) cov(1) star [of "rc_host c'"] by (auto simp: host_covers_def)
  moreover have "length (rc_path c) \<le> length (rc_path c')" if "lower (rc_host c') = lower (rc_host c)"
    using k(2) that star [of "rc_host c"] star [of "rc_host c'"] c(3) cov(2) st
    by (auto simp: stored_lower [OF assms(1)] intro: deeper_is_longer [where q = "lower q"])
  ultimately show ?thesis by blast
  qed
  show ?thesis using f cov c'(1) best by blast
qed

lemma last_with_id_unique:
  assumes "mset xs = mset ys" and "distinct (map route_id xs)"
  shows "last_with_id i xs = last_with_id i ys"
proof -
  have uniq: "last_with_id i zs = Some r \<longleftrightarrow> r \<in> set zs \<and> route_id r = i" if "distinct (map route_id zs)" for zs r
  proof -
    have "find (\<lambda>r. route_id r = i) zs = Some r \<longleftrightarrow> r \<in> set zs \<and> route_id r = i"
      if "distinct (map route_id zs)" for zs
      using that by (induction zs) force+
    then show ?thesis using that by (simp add: last_with_id_def rev_map [symmetric])
  qed
  have "distinct (map route_id ys)"
    using assms mset_eq_imp_distinct_iff mset_map by metis
  moreover have "set xs = set ys" using assms(1) by (rule mset_eq_setD)
  ultimately have "last_with_id i xs = Some r \<longleftrightarrow> last_with_id i ys = Some r" for r
    using uniq assms(2) by simp
  then show ?thesis by (metis option.exhaust)
qed

text \<open>
  the table is written the same whatever order it is read in. Where the domains differ in host or
  path, two reads of the same routes in different orders lead to the same table, so a pass that changes
  nothing writes what is already there.
\<close>
theorem reorder_is_deterministic:
  assumes "routes_valid env cfgs" and "distinct (map (\<lambda>c. (rc_path c, rc_host c)) cfgs)"
    and "mset (filter is_domain_route raw) = mset (map (table_entry env) cfgs)"
    and "distinct (map route_id raw)" and "mset raw' = mset raw"
  shows "reorder_list up raw' = reorder_list up raw"
proof -
  have set_eq: "set (filter is_domain_route raw) = table_entry env ` set cfgs"
    using assms(3) by (metis list.set_map mset_eq_setD)
  have "inj_on order_key (set (filter is_domain_route raw))"
  proof (rule inj_onI)
    fix x y assume x: "x \<in> set (filter is_domain_route raw)" and y: "y \<in> set (filter is_domain_route raw)"
      and k: "order_key x = order_key y"
    from x y set_eq obtain a b where ab: "a \<in> set cfgs" "b \<in> set cfgs" "x = table_entry env a" "y = table_entry env b"
      by blast
    with k have "served_key a = served_key b" using table_entry_domain(2) [OF assms(1)] by simp
    then have "(rc_path a, rc_host a) = (rc_path b, rc_host b)" by (simp add: served_key_def)
    with ab(1,2) assms(2) have "a = b" by (auto simp: distinct_map inj_on_def)
    with ab show "x = y" by simp
  qed
  moreover have "mset (filter is_domain_route raw) = mset (filter is_domain_route raw')"
    using assms(5) by (simp add: mset_filter)
  ultimately have "sort_by route_less (filter is_domain_route raw) = sort_by route_less (filter is_domain_route raw')"
    by (intro specificity.sort_by_canonical)
  moreover have "last_with_id i raw = last_with_id i raw'" for i
    using last_with_id_unique assms(4,5) by metis
  ultimately show ?thesis by (simp add: reorder_list_def sort_routes_by_specificity_def)
qed

definition demo_route :: "string \<Rightarrow> string \<Rightarrow> caddy_route" where
  "demo_route h p = (case build_route demo_build_env (demo_cfg h p) of Inr r \<Rightarrow> r | Inl _ \<Rightarrow> catch_all_route '''')"

lemma demo_route_built: "build_route demo_build_env (demo_cfg h p) = Inr (demo_route h p)"
  using demo_builds [of h p] by (auto simp: demo_route_def)

lemma demo_entry: "table_entry demo_build_env (demo_cfg h p) = json_norm (marshal_route (demo_route h p))"
  by (simp add: table_entry_def demo_route_built)

lemma demo_route_fields:
  "cr_id (demo_route h p) = route_id_for (be_sha demo_build_env) h p"
  "cr_match (demo_route h p) = [\<lparr>cm_host = [h], cm_path = path_matcher p\<rparr>]"
  using built_match [OF demo_route_built [of h p]] by (simp_all add: demo_cfg_def)

definition demo_cfgs :: "route_config list" where
  "demo_cfgs = [demo_cfg ''a.io'' ''/'', demo_cfg ''a.io'' ''/api'']"

lemma demo_ids:
  "route_id_for (be_sha demo_build_env) ''a.io'' ''/'' = ''route-a.io''"
  "prefix ''route-a.io-api-'' (route_id_for (be_sha demo_build_env) ''a.io'' ''/api'')"
proof -
  have "id_host ''a.io'' = ''a.io''" "path_slug ''/api'' = ''api''" by code_simp+
  then show "route_id_for (be_sha demo_build_env) ''a.io'' ''/'' = ''route-a.io''"
    "prefix ''route-a.io-api-'' (route_id_for (be_sha demo_build_env) ''a.io'' ''/api'')"
    by (simp_all add: route_id_for_def is_root_path_def)
qed

lemma demo_stored: "stored_path ''/''" "stored_path ''/api''"
  by code_simp+

lemma demo_routes_valid: "routes_valid demo_build_env demo_cfgs"
proof -
  have "route_id_for (be_sha demo_build_env) ''a.io'' p \<notin> {catch_all_route_id, waf_route_id}"
    if "p \<in> {''/'', ''/api''}" for p
    using demo_ids that by (auto simp: catch_all_route_id_def waf_route_id_def prefix_def)
  then show ?thesis
    using demo_route_built demo_stored
    by (auto simp: routes_valid_def demo_cfgs_def demo_route_fields) (auto simp: demo_cfg_def)
qed

theorem request_reaches_most_specific_witness:
  "find (\<lambda>r. matcher_demo r ''a.io'' ''/API/users'') (filter (\<lambda>r. route_id r \<noteq> waf_route_id)
      (reorder_list ''up'' (map (table_entry demo_build_env) demo_cfgs))) = Some (table_entry demo_build_env (demo_cfg ''a.io'' ''/api''))"
proof -
  have f: "filter is_domain_route (map (table_entry demo_build_env) demo_cfgs) = map (table_entry demo_build_env) demo_cfgs"
    using table_entry_domain(1) [OF demo_routes_valid] by (auto simp: filter_id_conv)
  let ?c = "demo_cfg ''a.io'' ''/api''"
  have low: "fold_case ''a.io'' = ''a.io''" "fold_case ''/api'' = ''/api''" "fold_case ''/API/users'' = ''/api/users''" by code_simp+
  have c: "?c \<in> set demo_cfgs" "host_covers (fold_case (rc_host ?c)) (fold_case ''a.io'')" "path_covers (fold_case (rc_path ?c)) (fold_case ''/API/users'')"
    by (simp_all add: demo_cfgs_def demo_cfg_def host_covers_def path_covers_def low)
  have ms: "mset (filter is_domain_route (map (table_entry demo_build_env) demo_cfgs)) = mset (map (table_entry demo_build_env) demo_cfgs)"
    using f by simp
  have ex: "\<exists>c \<in> set demo_cfgs. host_covers (fold_case (rc_host c)) (fold_case ''a.io'') \<and> path_covers (fold_case (rc_path c)) (fold_case ''/API/users'')"
    using c by blast
  from request_reaches_most_specific [OF fold_case_lowers matcher_demo_ok demo_routes_valid ms ex, where up = "''up''"] c
  obtain c' where "c' \<in> set demo_cfgs" "fold_case (rc_host c') = fold_case (rc_host ?c) \<longrightarrow> length (rc_path ?c) \<le> length (rc_path c')"
    and s: "find (\<lambda>r. matcher_demo r ''a.io'' ''/API/users'') (filter (\<lambda>r. route_id r \<noteq> waf_route_id)
      (reorder_list ''up'' (map (table_entry demo_build_env) demo_cfgs))) = Some (table_entry demo_build_env c')"
    by blast
  then have "c' = demo_cfg ''a.io'' ''/api''" by (auto simp: demo_cfgs_def demo_cfg_def)
  with s show ?thesis by simp
qed

theorem reorder_is_deterministic_witness:
  "reorder_list ''up'' (rev (map (table_entry demo_build_env) demo_cfgs)) = reorder_list ''up'' (map (table_entry demo_build_env) demo_cfgs)"
proof -
  have f: "filter is_domain_route (map (table_entry demo_build_env) demo_cfgs) = map (table_entry demo_build_env) demo_cfgs"
    using table_entry_domain(1) [OF demo_routes_valid] by (auto simp: filter_id_conv)
  have d: "distinct (map (\<lambda>c. (rc_path c, rc_host c)) demo_cfgs)" by (simp add: demo_cfgs_def demo_cfg_def)
  have "route_id (table_entry demo_build_env (demo_cfg h p)) = route_id_for (be_sha demo_build_env) h p" for h p
    by (simp add: demo_entry route_id_def table_probe_norm demo_route_fields)
  then have i: "distinct (map route_id (map (table_entry demo_build_env) demo_cfgs))"
    using demo_ids by (auto simp: demo_cfgs_def prefix_def)
  from reorder_is_deterministic [OF demo_routes_valid d _ i, of "rev (map (table_entry demo_build_env) demo_cfgs)" "''up''"] f
  show ?thesis by simp
qed

end
