(* ===== verification/CaddyAdmin.thy ===== *)
theory CaddyAdmin
  imports Routes
begin

text \<open>
  The client of Caddy's admin API (\<open>internal/proxy/caddy\<close>: \<open>client.go\<close>, \<open>routes.go\<close>, \<open>tls.go\<close>,
  \<open>access_log.go\<close>): the state it keeps in memory, its requests, the server configuration, the certificate
  store and the DNS-01 policies.

  Caddy is a parameter: a function from a request and Caddy's state to a reply and the state after it.
  \<open>NoAnswer\<close> is a transport error. A reply carries its body as text and as parsed JSON. Building a
  request and encoding a body do not fail here; timeouts are transport errors; logging and metrics are
  left out. The injected \<open>TLSErrorSink\<close> is a log of what it is called with.
\<close>

section \<open>Requests\<close>

datatype http_method = GET | POST | PUT | PATCH | DELETE

datatype caddy_reply = NoAnswer | Reply (reply_status: nat) (reply_json: raw_json) (reply_text: string)

type_synonym 's caddy = "http_method \<Rightarrow> string \<Rightarrow> json option \<Rightarrow> 's \<Rightarrow> caddy_reply \<times> 's"

datatype px_error =
    Unreachable
  | Refused nat
  | Undecodable
  | BadRoute build_error
  | TlsRefused string
  | Crashed

text \<open>
  The client. A Go panic ends the process: \<open>px_dead\<close> is set and no request is sent any more, so that
  what Caddy has seen is what it had seen at the panic.
\<close>

record 's px =
  px_skip :: "string set"
  px_skip_certs :: "string set"
  px_dashboard :: string
  px_tls_errors :: "(string \<times> px_error) list"
  px_dead :: bool
  px_caddy :: 's

definition default_dashboard_upstream :: string where "default_dashboard_upstream = ''belune:8080''"

definition new_proxy_client :: "'s \<Rightarrow> 's px" where
  "new_proxy_client s = \<lparr>px_skip = {}, px_skip_certs = {}, px_dashboard = default_dashboard_upstream,
     px_tls_errors = [], px_dead = False, px_caddy = s\<rparr>"

definition set_dashboard_upstream :: "string \<Rightarrow> 's px \<Rightarrow> 's px" where
  "set_dashboard_upstream addr px = (if addr \<noteq> '''' then px\<lparr>px_dashboard := addr\<rparr> else px)"

definition report_tls_error :: "string \<Rightarrow> px_error \<Rightarrow> 's px \<Rightarrow> 's px" where
  "report_tls_error h reason px = px\<lparr>px_tls_errors := px_tls_errors px @ [(h, reason)]\<rparr>"

definition request :: "'s caddy \<Rightarrow> http_method \<Rightarrow> string \<Rightarrow> json option \<Rightarrow> 's px \<Rightarrow> caddy_reply \<times> 's px" where
  "request http m path body px =
     (if px_dead px then (NoAnswer, px)
      else let (r, s) = http m path body (px_caddy px) in (r, px\<lparr>px_caddy := s\<rparr>))"

text \<open>A write whose reply matters only by its status: \<open>sendJSON\<close>, \<open>patchRoutes\<close> and the posts.\<close>

definition send_json :: "'s caddy \<Rightarrow> http_method \<Rightarrow> string \<Rightarrow> json \<Rightarrow> 's px \<Rightarrow> px_error option \<times> 's px" where
  "send_json http m path v px =
     (let (r, px) = request http m path (Some v) px
      in case r of
        NoAnswer \<Rightarrow> (Some Unreachable, px)
      | Reply st _ _ \<Rightarrow> (if st \<ge> 400 then Some (Refused st) else None, px))"

definition server_path :: string where "server_path = ''/config/apps/http/servers/srv0''"
definition routes_path :: string where "routes_path = server_path @ ''/routes''"

definition id_path :: "string \<Rightarrow> string" where
  "id_path i = ''/id/'' @ i"

definition unknown_object :: "string \<Rightarrow> bool" where
  "unknown_object text = sublist ''unknown object'' text"

definition ping :: "'s caddy \<Rightarrow> 's px \<Rightarrow> px_error option \<times> 's px" where
  "ping http px =
     (let (r, px) = request http GET (server_path @ ''/listen'') None px
      in case r of NoAnswer \<Rightarrow> (Some Unreachable, px)
         | Reply st _ _ \<Rightarrow> (if st \<ge> 400 then Some (Refused st) else None, px))"

section \<open>The route table\<close>

definition decode_array :: "raw_json \<Rightarrow> json list option" where
  "decode_array body = (case body of Raw JNull \<Rightarrow> Some [] | Raw (JArr vs) \<Rightarrow> Some vs | _ \<Rightarrow> None)"

definition fetch_raw_routes :: "'s caddy \<Rightarrow> 's px \<Rightarrow> (px_error + json list) \<times> 's px" where
  "fetch_raw_routes http px =
     (let (r, px) = request http GET routes_path None px
      in case r of
        NoAnswer \<Rightarrow> (Inl Unreachable, px)
      | Reply _ body _ \<Rightarrow>
          (case decode_array body of None \<Rightarrow> (Inl Undecodable, px) | Some vs \<Rightarrow> (Inr vs, px)))"

definition patch_routes :: "'s caddy \<Rightarrow> json list \<Rightarrow> 's px \<Rightarrow> px_error option \<times> 's px" where
  "patch_routes http rs = send_json http PATCH routes_path (JArr rs)"

definition reorder_routes :: "'s caddy \<Rightarrow> 's px \<Rightarrow> px_error option \<times> 's px" where
  "reorder_routes http px =
     (case fetch_raw_routes http px of
        (Inl e, px) \<Rightarrow> (Some e, px)
      | (Inr raw, px) \<Rightarrow> patch_routes http (reorder_list (px_dashboard px) raw) px)"

definition list_routes :: "'s caddy \<Rightarrow> 's px \<Rightarrow> (px_error + listed_route list) \<times> 's px" where
  "list_routes http px =
     (let (r, px) = request http GET routes_path None px
      in case r of
        NoAnswer \<Rightarrow> (Inl Unreachable, px)
      | Reply _ body _ \<Rightarrow>
          (case decode_array body of
             None \<Rightarrow> (Inl Undecodable, px)
           | Some vs \<Rightarrow> (case list_decoded vs of None \<Rightarrow> (Inl Undecodable, px) | Some ls \<Rightarrow> (Inr ls, px))))"

text \<open>\<open>fetchRouteByID\<close>: a missing route is not an error.\<close>

definition fetch_route_by_id :: "'s caddy \<Rightarrow> string \<Rightarrow> 's px \<Rightarrow> (px_error + raw_json option) \<times> 's px" where
  "fetch_route_by_id http i px =
     (let (r, px) = request http GET (id_path i) None px
      in case r of
        NoAnswer \<Rightarrow> (Inl Unreachable, px)
      | Reply st body text \<Rightarrow>
          (if st = 404 \<or> unknown_object text then (Inr None, px)
           else if st \<ge> 400 then (Inl (Refused st), px)
           else (Inr (Some body), px)))"

text \<open>\<open>deleteRouteByID\<close>, and the request of \<open>RemoveRoute\<close>; the flag says that something was deleted.\<close>

definition delete_route_by_id :: "'s caddy \<Rightarrow> string \<Rightarrow> 's px \<Rightarrow> (px_error + bool) \<times> 's px" where
  "delete_route_by_id http i px =
     (let (r, px) = request http DELETE (id_path i) None px
      in case r of
        NoAnswer \<Rightarrow> (Inl Unreachable, px)
      | Reply st _ text \<Rightarrow>
          (if st \<ge> 400 then (if st = 404 \<or> unknown_object text then (Inr False, px) else (Inl (Refused st), px))
           else (Inr True, px)))"

definition route_json_equal :: "raw_json \<Rightarrow> json \<Rightarrow> bool" where
  "route_json_equal current desired = (case current of Raw v \<Rightarrow> json_norm v = json_norm desired | _ \<Rightarrow> False)"

section \<open>The server configuration\<close>

definition server_listen :: "string list" where "server_listen = ['':80'', '':443'']"

text \<open>\<open>fetchServer\<close>: a \<open>null\<close> body leaves a nil map, which can be read and not written.\<close>

definition fetch_server :: "'s caddy \<Rightarrow> 's px \<Rightarrow> (px_error + (string \<times> json) list option) \<times> 's px" where
  "fetch_server http px =
     (let (r, px) = request http GET server_path None px
      in case r of
        NoAnswer \<Rightarrow> (Inl Unreachable, px)
      | Reply st body _ \<Rightarrow>
          (if st \<ge> 400 then (Inl (Refused st), px)
           else case body of
             Raw (JObj ms) \<Rightarrow> (Inr (Some ms), px)
           | Raw JNull \<Rightarrow> (Inr None, px)
           | _ \<Rightarrow> (Inl Undecodable, px)))"

definition skip_lists :: "'s px \<Rightarrow> string list \<times> string list" where
  "skip_lists px = (sorted_list_of_set (px_skip px), sorted_list_of_set (px_skip_certs px))"

definition automatic_https :: "'s px \<Rightarrow> json" where
  "automatic_https px = (case skip_lists px of (skip, certs) \<Rightarrow>
     JObj [(''disable_redirects'', JBool True), (''skip'', jstrs skip), (''skip_certificates'', jstrs certs)])"

definition server_config :: "json list option \<Rightarrow> 's px \<Rightarrow> (string \<times> json) list \<Rightarrow> (string \<times> json) list" where
  "server_config routes px ms =
     (let ms = put_member ''listen'' (jstrs server_listen) ms;
          ms = put_member ''automatic_https'' (automatic_https px) ms;
          ms = put_member ''tls_connection_policies'' (JArr [JObj []]) ms
      in case routes of None \<Rightarrow> ms | Some rs \<Rightarrow> put_member ''routes'' (JArr rs) ms)"

definition ensure_server :: "'s caddy \<Rightarrow> json list option \<Rightarrow> 's px \<Rightarrow> px_error option \<times> 's px" where
  "ensure_server http routes px =
     (case fetch_server http px of
        (Inl e, px) \<Rightarrow> (Some e, px)
      | (Inr None, px) \<Rightarrow> (Some Crashed, px\<lparr>px_dead := True\<rparr>)
      | (Inr (Some ms), px) \<Rightarrow> send_json http PATCH server_path (JObj (server_config routes px ms)) px)"

definition set_membership :: "string \<Rightarrow> bool \<Rightarrow> string set \<Rightarrow> bool \<times> string set" where
  "set_membership k want S =
     (if want \<and> k \<notin> S then (True, insert k S) else if \<not> want \<and> k \<in> S then (True, S - {k}) else (False, S))"

definition set_mode :: "string \<Rightarrow> string \<Rightarrow> 's px \<Rightarrow> bool \<times> 's px" where
  "set_mode h m px =
     (let (c1, s1) = set_membership h (m = ''off'') (px_skip px);
          (c2, s2) = set_membership h (m = ''custom'') (px_skip_certs px)
      in (c1 \<or> c2, px\<lparr>px_skip := s1, px_skip_certs := s2\<rparr>))"

definition forget_host :: "string \<Rightarrow> 's px \<Rightarrow> bool \<times> 's px" where
  "forget_host h px =
     (let (c1, s1) = set_membership h False (px_skip px);
          (c2, s2) = set_membership h False (px_skip_certs px)
      in (c1 \<or> c2, px\<lparr>px_skip := s1, px_skip_certs := s2\<rparr>))"

definition sync_auto_https :: "'s caddy \<Rightarrow> string list \<Rightarrow> string list \<Rightarrow> 's px \<Rightarrow> px_error option \<times> 's px" where
  "sync_auto_https http skip certs px =
     ensure_server http None (px\<lparr>px_skip := set skip, px_skip_certs := set certs\<rparr>)"

definition init_catch_all :: "'s caddy \<Rightarrow> 's px \<Rightarrow> 's px" where
  "init_catch_all http px =
     (case fetch_raw_routes http px of
        (Inl e, px) \<Rightarrow> px
      | (Inr raw, px) \<Rightarrow> snd (ensure_server http (Some (init_list (px_dashboard px) raw)) px))"

section \<open>Writes that swallow refusals\<close>

text \<open>\<open>doConfig\<close> reports the status, 0 for a transport error; \<open>putOrPatchConfig\<close> reports nothing.\<close>

definition do_config :: "'s caddy \<Rightarrow> http_method \<Rightarrow> string \<Rightarrow> json \<Rightarrow> 's px \<Rightarrow> nat \<times> 's px" where
  "do_config http m path v px =
     (let (r, px) = request http m path (Some v) px
      in case r of NoAnswer \<Rightarrow> (0, px) | Reply st _ _ \<Rightarrow> (st, px))"

definition put_or_patch_config :: "'s caddy \<Rightarrow> string \<Rightarrow> json \<Rightarrow> 's px \<Rightarrow> px_error option \<times> 's px" where
  "put_or_patch_config http path v px =
     (let (st, px) = do_config http PUT path v px
      in if st \<noteq> 409 then (None, px) else (None, snd (do_config http PATCH path v px)))"

section \<open>Certificates\<close>

record pem_cert =
  pc_cert :: string
  pc_key :: string
  pc_tags :: "string list"

record host_certificate =
  hc_host :: string
  hc_cert_pem :: string
  hc_key_pem :: string

definition certs_path :: string where "certs_path = ''/config/apps/tls/certificates''"
definition automation_path :: string where "automation_path = ''/config/apps/tls/automation''"

definition set_pem :: "string \<Rightarrow> json \<Rightarrow> pem_cert \<Rightarrow> pem_cert \<times> bool" where
  "set_pem k v c =
     (if fold_case k = ''certificate'' then (let (s, ok) = lenient_string (pc_cert c) v in (c\<lparr>pc_cert := s\<rparr>, ok))
      else if fold_case k = ''key'' then (let (s, ok) = lenient_string (pc_key c) v in (c\<lparr>pc_key := s\<rparr>, ok))
      else if fold_case k = ''tags'' then (let (ts, ok) = lenient_strings (pc_tags c) v in (c\<lparr>pc_tags := ts\<rparr>, ok))
      else (c, True))"

definition set_load_pem :: "string \<Rightarrow> json \<Rightarrow> pem_cert list \<Rightarrow> pem_cert list \<times> bool" where
  "set_load_pem k v cs =
     (if fold_case k = ''load_pem''
      then lenient_list (lenient_struct set_pem \<lparr>pc_cert = '''', pc_key = '''', pc_tags = []\<rparr>) cs v
      else (cs, True))"

definition decode_certs :: "raw_json \<Rightarrow> pem_cert list option" where
  "decode_certs body = (case body of
     Raw v \<Rightarrow> (case lenient_struct set_load_pem [] v of (cs, ok) \<Rightarrow> if ok then Some cs else None)
   | _ \<Rightarrow> None)"

definition list_pem_certs :: "'s caddy \<Rightarrow> 's px \<Rightarrow> (px_error + pem_cert list) \<times> 's px" where
  "list_pem_certs http px =
     (let (r, px) = request http GET certs_path None px
      in case r of
        NoAnswer \<Rightarrow> (Inl Unreachable, px)
      | Reply st body text \<Rightarrow>
          (if st = 404 then (Inr [], px)
           else if st \<ge> 400 then
             (if st = 400 \<and> sublist ''invalid traversal path'' text then (Inr [], px) else (Inl (Refused st), px))
           else case decode_certs body of None \<Rightarrow> (Inl Undecodable, px) | Some cs \<Rightarrow> (Inr cs, px)))"

definition marshal_cert :: "pem_cert \<Rightarrow> json" where
  "marshal_cert c = JObj ([(''certificate'', JStr (pc_cert c)), (''key'', JStr (pc_key c))] @
     (if pc_tags c = [] then [] else [(''tags'', jstrs (pc_tags c))]))"

definition write_pem_certs :: "'s caddy \<Rightarrow> pem_cert list \<Rightarrow> 's px \<Rightarrow> px_error option \<times> 's px" where
  "write_pem_certs http cs = put_or_patch_config http certs_path (JObj [(''load_pem'', JArr (map marshal_cert cs))])"

definition has_tag :: "string \<Rightarrow> pem_cert \<Rightarrow> bool" where
  "has_tag t c = list_ex ((=) t) (pc_tags c)"

definition load_pem_cert :: "'s caddy \<Rightarrow> host_certificate \<Rightarrow> 's px \<Rightarrow> px_error option \<times> 's px" where
  "load_pem_cert http c px =
     (case list_pem_certs http px of
        (Inl e, px) \<Rightarrow> (Some e, px)
      | (Inr current, px) \<Rightarrow> write_pem_certs http (filter (\<lambda>x. \<not> has_tag (hc_host c) x) current @
          [\<lparr>pc_cert = hc_cert_pem c, pc_key = hc_key_pem c, pc_tags = [hc_host c]\<rparr>]) px)"

definition setup_tls :: "'s caddy \<Rightarrow> string \<Rightarrow> string \<Rightarrow> string \<Rightarrow> string \<Rightarrow> 's px \<Rightarrow> px_error option \<times> 's px" where
  "setup_tls http h m cert key px =
     (if m \<in> {'''', ''automatic'', ''dns_challenge'', ''off''} then (None, px)
      else if m = ''custom'' then
        (if cert = '''' \<or> key = '''' then (Some (TlsRefused ''custom SSL mode requires a certificate to be selected''), px)
         else load_pem_cert http \<lparr>hc_host = h, hc_cert_pem = cert, hc_key_pem = key\<rparr> px)
      else (Some (TlsRefused ''unknown ssl_mode''), px))"

definition desired_certs :: "host_certificate list \<Rightarrow> pem_cert list" where
  "desired_certs certs = sort_by (\<lambda>a b. hd (pc_tags a) < hd (pc_tags b))
     (map (\<lambda>c. \<lparr>pc_cert = hc_cert_pem c, pc_key = hc_key_pem c, pc_tags = [hc_host c]\<rparr>)
       (filter (\<lambda>c. hc_cert_pem c \<noteq> '''' \<and> hc_key_pem c \<noteq> '''') certs))"

definition pem_certs_equal :: "pem_cert list \<Rightarrow> pem_cert list \<Rightarrow> bool" where
  "pem_certs_equal a b \<longleftrightarrow> length a = length b \<and>
     list_all (\<lambda>(x, y). pc_cert x = pc_cert y \<and> pc_key x = pc_key y \<and> pc_tags x = pc_tags y) (zip a b)"

definition sync_certificates :: "'s caddy \<Rightarrow> host_certificate list \<Rightarrow> 's px \<Rightarrow> px_error option \<times> 's px" where
  "sync_certificates http certs px =
     (case list_pem_certs http px of
        (Inl e, px) \<Rightarrow> (Some e, px)
      | (Inr current, px) \<Rightarrow>
          (if pem_certs_equal current (desired_certs certs) then (None, px)
           else write_pem_certs http (desired_certs certs) px))"

end
