(* ===== verification/CaddyClient.thy ===== *)
theory CaddyClient
  imports CaddyAdmin
begin

text \<open>
  The operations of the Caddy client (\<open>internal/proxy/caddy\<close>: \<open>routes.go\<close>, \<open>dashboard.go\<close>, \<open>waf.go\<close>):
  adding, removing and ensuring a route, the dashboard's route and the WAF's. Theorems about what they
  leave in Caddy take Caddy's documented behaviour, \<open>caddy_ok\<close>, as a hypothesis on the parameter.
\<close>

section \<open>Application routes\<close>

definition remove_route :: "'s caddy \<Rightarrow> build_env \<Rightarrow> string \<Rightarrow> string \<Rightarrow> 's px \<Rightarrow> px_error option \<times> 's px" where
  "remove_route http env h p px =
     (case delete_route_by_id http (route_id_for (be_sha env) h p) px of
        (Inl e, px) \<Rightarrow> (Some e, px)
      | (Inr False, px) \<Rightarrow> (None, px)
      | (Inr True, px) \<Rightarrow>
          (case forget_host h px of (changed, px) \<Rightarrow>
             (None, if changed then snd (ensure_server http None px) else px)))"

definition apply_mode :: "'s caddy \<Rightarrow> route_config \<Rightarrow> 's px \<Rightarrow> 's px" where
  "apply_mode http cfg px =
     (case set_mode (rc_host cfg) (rc_ssl_mode cfg) px of (changed, px) \<Rightarrow>
        if changed then snd (ensure_server http None px) else px)"

definition apply_tls :: "'s caddy \<Rightarrow> route_config \<Rightarrow> 's px \<Rightarrow> 's px" where
  "apply_tls http cfg px =
     (if rc_tls cfg \<and> rc_ssl_mode cfg = ''custom'' then
        (case setup_tls http (rc_host cfg) (rc_ssl_mode cfg) (rc_cert cfg) (rc_key cfg) px of
           (None, px) \<Rightarrow> px
         | (Some e, px) \<Rightarrow> report_tls_error (rc_host cfg) e px)
      else px)"

definition post_route :: "'s caddy \<Rightarrow> caddy_route \<Rightarrow> 's px \<Rightarrow> px_error option \<times> 's px" where
  "post_route http r px =
     (case send_json http POST routes_path (marshal_route r) px of
        (Some e, px) \<Rightarrow> (Some e, px)
      | (None, px) \<Rightarrow> reorder_routes http px)"

definition add_route :: "'s caddy \<Rightarrow> build_env \<Rightarrow> route_config \<Rightarrow> 's px \<Rightarrow> px_error option \<times> 's px" where
  "add_route http env cfg px =
     (let px = snd (remove_route http env (rc_host cfg) (rc_path cfg) px)
      in case build_route env cfg of
        Inl e \<Rightarrow> (Some (BadRoute e), px)
      | Inr r \<Rightarrow> post_route http r (apply_tls http cfg (apply_mode http cfg px)))"

definition ensure_route :: "'s caddy \<Rightarrow> build_env \<Rightarrow> route_config \<Rightarrow> 's px \<Rightarrow> (px_error + bool) \<times> 's px" where
  "ensure_route http env cfg px =
     (case build_route env cfg of
        Inl e \<Rightarrow> (Inl (BadRoute e), px)
      | Inr desired \<Rightarrow>
          (case fetch_route_by_id http (route_id_for (be_sha env) (rc_host cfg) (rc_path cfg)) px of
             (Inl e, px) \<Rightarrow> (Inl e, px)
           | (Inr current, px) \<Rightarrow>
               (if (case current of None \<Rightarrow> False | Some c \<Rightarrow> route_json_equal c (marshal_route desired)) then (Inr False, px)
                else case add_route http env cfg px of
                  (Some e, px) \<Rightarrow> (Inl e, px)
                | (None, px) \<Rightarrow> (Inr True, px))))"

section \<open>The dashboard's route\<close>

record handle_probe =
  hp_handler :: string
  hp_dials :: "string list"

definition set_dial :: "string \<Rightarrow> json \<Rightarrow> string \<Rightarrow> string \<times> bool" where
  "set_dial k v d = (if fold_case k = ''dial'' then lenient_string d v else (d, True))"

definition set_handle :: "string \<Rightarrow> json \<Rightarrow> handle_probe \<Rightarrow> handle_probe \<times> bool" where
  "set_handle k v h =
     (if fold_case k = ''handler'' then (let (s, ok) = lenient_string (hp_handler h) v in (h\<lparr>hp_handler := s\<rparr>, ok))
      else if fold_case k = ''upstreams'' then
        (let (ds, ok) = lenient_list (lenient_struct set_dial '''') (hp_dials h) v in (h\<lparr>hp_dials := ds\<rparr>, ok))
      else (h, True))"

definition set_dash_handles :: "string \<Rightarrow> json \<Rightarrow> handle_probe list \<Rightarrow> handle_probe list \<times> bool" where
  "set_dash_handles k v hs =
     (if fold_case k = ''handle''
      then lenient_list (lenient_struct set_handle \<lparr>hp_handler = '''', hp_dials = []\<rparr>) hs v else (hs, True))"

record dashboard_state =
  ds_host :: string
  ds_force :: bool
  ds_upstream :: string

text \<open>The last reverse proxy with an upstream decides where the route dials.\<close>

definition dashboard_of :: "json \<Rightarrow> dashboard_state option" where
  "dashboard_of r =
     (case lenient_struct set_dash_handles [] r of (hs, ok) \<Rightarrow>
        if snd (table_probe r) \<and> ok \<and> route_id r = dashboard_route_id then
          Some \<lparr>ds_host = (case probe_hosts (fst (table_probe r)) of h # _ \<Rightarrow> h | [] \<Rightarrow> ''''),
            ds_force = list_ex (\<lambda>h. hp_handler h = ''subroute'') hs,
            ds_upstream = foldl (\<lambda>u h. if hp_handler h = ''reverse_proxy'' then
               (case hp_dials h of d # _ \<Rightarrow> d | [] \<Rightarrow> u) else u) '''' hs\<rparr>
        else None)"

definition dashboard_route_state :: "'s caddy \<Rightarrow> 's px \<Rightarrow> (px_error + dashboard_state option) \<times> 's px" where
  "dashboard_route_state http px =
     (case fetch_raw_routes http px of
        (Inl e, px) \<Rightarrow> (Inl e, px)
      | (Inr raw, px) \<Rightarrow> (Inr (case List.map_filter dashboard_of raw of d # _ \<Rightarrow> Some d | [] \<Rightarrow> None), px))"

definition dashboard_route :: "string \<Rightarrow> bool \<Rightarrow> string \<Rightarrow> caddy_route" where
  "dashboard_route h force up = \<lparr>cr_id = dashboard_route_id,
     cr_match = [\<lparr>cm_host = [h], cm_path = []\<rparr>],
     cr_handle = (if force then [https_redirect] else []) @ [new_reverse_proxy_handle [up] '''']\<rparr>"

definition set_dashboard_route :: "'s caddy \<Rightarrow> string \<Rightarrow> string \<Rightarrow> 's px \<Rightarrow> px_error option \<times> 's px" where
  "set_dashboard_route http h m px =
     (let force = (m \<noteq> ''off'') in
      case dashboard_route_state http px of
        (Inl e, px) \<Rightarrow> (Some e, px)
      | (Inr current, px) \<Rightarrow>
          if current = Some \<lparr>ds_host = h, ds_force = force, ds_upstream = px_dashboard px\<rparr> then (None, px)
          else (case (if current \<noteq> None then delete_route_by_id http dashboard_route_id px else (Inr False, px)) of
                  (Inl e, px) \<Rightarrow> (Some e, px)
                | (Inr _, px) \<Rightarrow>
                    if h = '''' then (None, px)
                    else post_route http (dashboard_route h force (px_dashboard px)) px))"

section \<open>The WAF's route\<close>

record waf_config =
  wc_enabled :: bool
  wc_hosts :: "string list"

definition tx_header :: string where "tx_header = ''X-Belune-Waf-Tx''"

definition newline :: string where "newline = [CHR 0x0A]"

definition waf_directives :: string where
  \<open>waf_directives = concat (map (\<lambda>l. l @ newline)
     [''Include @coraza.conf-recommended'',
      ''Include @crs-setup.conf.example'',
      ''Include @owasp_crs/*.conf'',
      ''SecResponseBodyAccess Off'',
      ''SecAuditEngine Off'',
      ''SecDebugLogLevel 1'',
      ''SecRequestBodyLimit 131072'',
      ''SecRequestBodyInMemoryLimit 131072'',
      ''SecRequestBodyLimitAction ProcessPartial'',
      ''SecRule &REQUEST_HEADERS:Content-Length "@eq 0" "id:1000001,phase:1,pass,nolog,ctl:requestBodyAccess=Off"'',
      ''SecRule REQUEST_HEADERS:Content-Length "@gt 131072" "id:1000002,phase:1,pass,nolog,ctl:requestBodyAccess=Off"'',
      ''SecRule REQUEST_HEADERS:Transfer-Encoding "@rx .+" "id:1000003,phase:1,pass,nolog,ctl:requestBodyAccess=Off"'',
      ''SecRuleEngine DetectionOnly''])\<close>

definition build_waf_route :: "string list \<Rightarrow> caddy_route" where
  "build_waf_route hosts = \<lparr>cr_id = waf_route_id, cr_match = [\<lparr>cm_host = hosts, cm_path = []\<rparr>],
     cr_handle =
       [JObj [(''handler'', JStr ''headers''),
              (''request'', JObj [(''set'', JObj [(tx_header, jstrs [''{http.request.host}_{http.request.uuid}''])])])],
        JObj [(''handler'', JStr ''waf''), (''load_owasp_crs'', JBool True), (''directives'', JStr waf_directives),
              (''tx_id_req_header'', JStr tx_header)],
        JObj [(''handler'', JStr ''headers''), (''request'', JObj [(''delete'', jstrs [tx_header])])]]\<rparr>"

text \<open>\<open>strings.ToLower\<close> on ASCII.\<close>

definition waf_hosts :: "string list \<Rightarrow> string list" where
  "waf_hosts hs = sort (remdups (filter (\<lambda>h. h \<noteq> '''') (map (\<lambda>h. fold_case (trim_space h)) hs)))"

definition first_route_path :: string where "first_route_path = routes_path @ ''/0''"

definition sync_waf_route :: "'s caddy \<Rightarrow> waf_config \<Rightarrow> 's px \<Rightarrow> px_error option \<times> 's px" where
  "sync_waf_route http cfg px =
     (let hosts = waf_hosts (wc_hosts cfg) in
      case fetch_route_by_id http waf_route_id px of
        (Inl e, px) \<Rightarrow> (Some e, px)
      | (Inr current, px) \<Rightarrow>
          if \<not> wc_enabled cfg \<or> hosts = [] then
            (case current of
               None \<Rightarrow> (None, px)
             | Some _ \<Rightarrow> (case delete_route_by_id http waf_route_id px of
                 (Inl e, px) \<Rightarrow> (Some e, px) | (Inr _, px) \<Rightarrow> (None, px)))
          else let desired = marshal_route (build_waf_route hosts) in
            (case current of
               Some c \<Rightarrow> (if route_json_equal c desired then (None, px)
                          else send_json http PATCH (id_path waf_route_id) desired px)
             | None \<Rightarrow> send_json http PUT first_route_path desired px))"

section \<open>What Caddy promises\<close>

text \<open>
  Caddy's admin API as documented, on a view of its state: whether it is up with \<open>srv0\<close> loaded, the
  route table as it reads back, which routes load (their modules are present), and the text of a
  body. Values are stored decoded and read back with sorted names (\<open>json_norm\<close>); a write that does not
  load changes nothing; an id names one object; other paths leave the table alone.
\<close>

record 's caddy_view =
  cv_up :: "'s \<Rightarrow> bool"
  cv_table :: "'s \<Rightarrow> json list"
  cv_loads :: "json \<Rightarrow> bool"
  cv_text :: "json \<Rightarrow> string"

definition table_ok :: "'s caddy_view \<Rightarrow> json list \<Rightarrow> bool" where
  "table_ok V rs \<longleftrightarrow> list_all (cv_loads V) rs \<and> map json_norm rs = rs \<and>
     distinct (filter (\<lambda>i. i \<noteq> '''') (map route_id rs))"

definition answers :: "'s caddy \<Rightarrow> 's caddy_view \<Rightarrow> http_method \<Rightarrow> string \<Rightarrow> json option \<Rightarrow> 's \<Rightarrow> json list \<Rightarrow> bool" where
  "answers http V m path body s rs \<longleftrightarrow>
     cv_up V (snd (http m path body s)) \<and> cv_table V (snd (http m path body s)) = rs"

definition succeeds :: "caddy_reply \<Rightarrow> bool" where
  "succeeds r \<longleftrightarrow> (case r of Reply st _ _ \<Rightarrow> st < 400 | NoAnswer \<Rightarrow> False)"

definition missing :: "caddy_reply \<Rightarrow> bool" where
  "missing r \<longleftrightarrow> (case r of Reply st _ text \<Rightarrow> st \<ge> 400 \<and> (st = 404 \<or> unknown_object text) | NoAnswer \<Rightarrow> False)"

definition reads_ok :: "'s caddy \<Rightarrow> 's caddy_view \<Rightarrow> 's \<Rightarrow> bool" where
  "reads_ok http V s \<longleftrightarrow>
     table_ok V (cv_table V s) \<and>
     (\<exists>t. http GET routes_path None s = (Reply 200 (Raw (JArr (cv_table V s))) t, s)) \<and>
     (\<exists>t ms. http GET server_path None s = (Reply 200 (Raw (JObj ms)) t, s) \<and>
        distinct (map fst ms) \<and> map_of ms ''routes'' = Some (JArr (cv_table V s))) \<and>
     (\<forall>i. i \<noteq> '''' \<longrightarrow> (case find (\<lambda>r. route_id r = i) (cv_table V s) of
        Some r \<Rightarrow> http GET (id_path i) None s = (Reply 200 (Raw r) (cv_text V r), s)
      | None \<Rightarrow> missing (fst (http GET (id_path i) None s)) \<and> snd (http GET (id_path i) None s) = s))"

definition writes_ok :: "'s caddy \<Rightarrow> 's caddy_view \<Rightarrow> 's \<Rightarrow> bool" where
  "writes_ok http V s \<longleftrightarrow>
     (\<forall>r. cv_loads V r \<longrightarrow> route_id (json_norm r) \<notin> set (map route_id (cv_table V s)) \<longrightarrow>
        succeeds (fst (http POST routes_path (Some r) s)) \<and>
        answers http V POST routes_path (Some r) s (cv_table V s @ [json_norm r])) \<and>
     (\<forall>rs. list_all (cv_loads V) rs \<longrightarrow> distinct (filter (\<lambda>i. i \<noteq> '''') (map (route_id \<circ> json_norm) rs)) \<longrightarrow>
        succeeds (fst (http PATCH routes_path (Some (JArr rs)) s)) \<and>
        answers http V PATCH routes_path (Some (JArr rs)) s (map json_norm rs)) \<and>
     (\<forall>ms. map_of ms ''routes'' = Some (JArr (cv_table V s)) \<longrightarrow> distinct (map fst ms) \<longrightarrow>
        answers http V PATCH server_path (Some (JObj ms)) s (cv_table V s)) \<and>
     (\<forall>i. i \<noteq> '''' \<longrightarrow>
        (if i \<in> set (map route_id (cv_table V s)) then succeeds (fst (http DELETE (id_path i) None s))
         else missing (fst (http DELETE (id_path i) None s))) \<and>
        answers http V DELETE (id_path i) None s (filter (\<lambda>r. route_id r \<noteq> i) (cv_table V s))) \<and>
     (\<forall>m path body. path \<in> {certs_path, automation_path} \<longrightarrow> answers http V m path body s (cv_table V s)) \<and>
     (\<forall>r. route_id (json_norm r) \<notin> set (map route_id (cv_table V s)) \<longrightarrow>
        answers http V PUT first_route_path (Some r) s (if cv_loads V r then json_norm r # cv_table V s else cv_table V s)) \<and>
     (\<forall>r. route_id (json_norm r) \<noteq> '''' \<longrightarrow> route_id (json_norm r) \<in> set (map route_id (cv_table V s)) \<longrightarrow>
        answers http V PATCH (id_path (route_id (json_norm r))) (Some r) s
          (if cv_loads V r then map (\<lambda>x. if route_id x = route_id (json_norm r) then json_norm r else x) (cv_table V s)
           else cv_table V s))"

definition caddy_ok :: "'s caddy \<Rightarrow> 's caddy_view \<Rightarrow> bool" where
  "caddy_ok http V \<longleftrightarrow>
     (\<forall>r. cv_loads V (json_norm r) = cv_loads V r) \<and>
     (\<forall>up. cv_loads V (marshal_route (catch_all_route up))) \<and>
     (\<forall>s. cv_up V s \<longrightarrow> reads_ok http V s \<and> writes_ok http V s)"

definition ready :: "'s caddy \<Rightarrow> 's caddy_view \<Rightarrow> 's px \<Rightarrow> bool" where
  "ready http V px \<longleftrightarrow> caddy_ok http V \<and> \<not> px_dead px \<and> cv_up V (px_caddy px)"

abbreviation table :: "'s caddy_view \<Rightarrow> 's px \<Rightarrow> json list" where
  "table V px \<equiv> cv_table V (px_caddy px)"

text \<open>A step that keeps Caddy up and leaves the given table.\<close>

definition leaves :: "'s caddy \<Rightarrow> 's caddy_view \<Rightarrow> 's px \<Rightarrow> json list \<Rightarrow> bool" where
  "leaves http V px rs \<longleftrightarrow> ready http V px \<and> table V px = rs"

section \<open>The operations against a Caddy that is up\<close>

lemma request_ready:
  "ready http V px \<Longrightarrow>
   request http m path body px = (fst (http m path body (px_caddy px)), px\<lparr>px_caddy := snd (http m path body (px_caddy px))\<rparr>)"
  by (simp add: request_def ready_def split: prod.splits)

lemma ready_reads: "ready http V px \<Longrightarrow> reads_ok http V (px_caddy px)"
  by (simp add: ready_def caddy_ok_def)

lemma ready_writes: "ready http V px \<Longrightarrow> writes_ok http V (px_caddy px)"
  by (simp add: ready_def caddy_ok_def)

lemma ready_table: "ready http V px \<Longrightarrow> table_ok V (table V px)"
  using ready_reads by (auto simp: reads_ok_def)

lemma ready_step:
  "ready http V px \<Longrightarrow> answers http V m path body (px_caddy px) rs \<Longrightarrow>
   leaves http V (px\<lparr>px_caddy := snd (http m path body (px_caddy px))\<rparr>) rs"
  by (simp add: ready_def leaves_def answers_def)

lemma leaves_memory [simp]:
  "leaves http V (px\<lparr>px_skip := a, px_skip_certs := b\<rparr>) rs = leaves http V px rs"
  "leaves http V (px\<lparr>px_skip := a\<rparr>) rs = leaves http V px rs"
  "leaves http V (px\<lparr>px_skip_certs := b\<rparr>) rs = leaves http V px rs"
  "leaves http V (px\<lparr>px_tls_errors := c\<rparr>) rs = leaves http V px rs"
  "ready http V (px\<lparr>px_skip := a, px_skip_certs := b\<rparr>) = ready http V px"
  "table V (px\<lparr>px_skip := a, px_skip_certs := b\<rparr>) = table V px"
  by (simp_all add: leaves_def ready_def)

lemma same_caddy [simp]: "(px :: 's px)\<lparr>px_caddy := px_caddy px\<rparr> = px"
  by simp

lemma fetch_raw_ready: "ready http V px \<Longrightarrow> fetch_raw_routes http px = (Inr (table V px), px)"
  using ready_reads [of http V px]
  by (auto simp: fetch_raw_routes_def request_ready reads_ok_def decode_array_def)

lemma reads_id:
  "reads_ok http V s \<Longrightarrow> i \<noteq> '''' \<Longrightarrow> (case find (\<lambda>r. route_id r = i) (cv_table V s) of
        Some r \<Rightarrow> http GET (id_path i) None s = (Reply 200 (Raw r) (cv_text V r), s)
      | None \<Rightarrow> missing (fst (http GET (id_path i) None s)) \<and> snd (http GET (id_path i) None s) = s)"
  by (simp add: reads_ok_def)

lemma fetch_by_id_ready:
  assumes "ready http V px" "i \<noteq> ''''"
    and "\<And>r. r \<in> set (table V px) \<Longrightarrow> route_id r = i \<Longrightarrow> \<not> unknown_object (cv_text V r)"
  shows "fetch_route_by_id http i px = (Inr (map_option Raw (find (\<lambda>r. route_id r = i) (table V px))), px)"
proof (cases "find (\<lambda>r. route_id r = i) (table V px)")
  case None
  with reads_id [OF ready_reads [OF assms(1)] assms(2)]
  have "missing (fst (http GET (id_path i) None (px_caddy px)))" "snd (http GET (id_path i) None (px_caddy px)) = px_caddy px"
    by simp_all
  with None show ?thesis
    by (auto simp: fetch_route_by_id_def request_ready [OF assms(1)] missing_def split: caddy_reply.splits)
next
  case (Some r)
  then have "r \<in> set (table V px)" "route_id r = i" by (auto simp: find_Some_iff)
  with assms(3) have "\<not> unknown_object (cv_text V r)" by blast
  moreover have "http GET (id_path i) None (px_caddy px) = (Reply 200 (Raw r) (cv_text V r), px_caddy px)"
    using reads_id [OF ready_reads [OF assms(1)] assms(2)] Some by simp
  ultimately show ?thesis
    using Some by (simp add: fetch_route_by_id_def request_ready [OF assms(1)])
qed

definition same_client :: "'s px \<Rightarrow> 's px \<Rightarrow> bool" where
  "same_client px px' \<longleftrightarrow> px_skip px' = px_skip px \<and> px_skip_certs px' = px_skip_certs px \<and>
     px_dashboard px' = px_dashboard px \<and> px_tls_errors px' = px_tls_errors px"

lemma delete_ready:
  assumes "ready http V px" "i \<noteq> ''''"
  shows "\<exists>px'. delete_route_by_id http i px = (Inr (i \<in> set (map route_id (table V px))), px') \<and>
    leaves http V px' (filter (\<lambda>r. route_id r \<noteq> i) (table V px)) \<and> same_client px px'"
proof -
  let ?r = "http DELETE (id_path i) None (px_caddy px)"
  have w: "if i \<in> set (map route_id (table V px)) then succeeds (fst ?r) else missing (fst ?r)"
    "answers http V DELETE (id_path i) None (px_caddy px) (filter (\<lambda>r. route_id r \<noteq> i) (table V px))"
    using ready_writes [OF assms(1)] assms(2) by (auto simp: writes_ok_def)
  have "delete_route_by_id http i px = (Inr (i \<in> set (map route_id (table V px))), px\<lparr>px_caddy := snd ?r\<rparr>)"
    using w(1) by (auto simp: delete_route_by_id_def request_ready [OF assms(1)] succeeds_def missing_def split: caddy_reply.splits if_splits)
  with ready_step [OF assms(1) w(2)] show ?thesis by (auto simp: same_client_def)
qed

lemma fetch_server_ready:
  assumes "ready http V px"
  obtains ms where "fetch_server http px = (Inr (Some ms), px)" "distinct (map fst ms)" "map_of ms ''routes'' = Some (JArr (table V px))"
  using ready_reads [OF assms] by (auto simp: reads_ok_def fetch_server_def request_ready [OF assms])

lemma send_json_ready:
  assumes "ready http V px" and "answers http V m path (Some v) (px_caddy px) rs"
  shows "leaves http V (snd (send_json http m path v px)) rs \<and> same_client px (snd (send_json http m path v px)) \<and>
    (succeeds (fst (http m path (Some v) (px_caddy px))) \<longrightarrow> fst (send_json http m path v px) = None)"
  using ready_step [OF assms]
  by (auto simp: send_json_def request_ready [OF assms(1)] same_client_def succeeds_def split: caddy_reply.splits)

lemma put_member_lookup: "map_of (put_member a b m) = (map_of m)(a \<mapsto> b)"
  by (rule map_of_put)

lemma ensure_server_ready:
  assumes "ready http V px"
  shows "leaves http V (snd (ensure_server http None px)) (table V px) \<and> same_client px (snd (ensure_server http None px))"
proof -
  obtain ms where ms: "fetch_server http px = (Inr (Some ms), px)" "distinct (map fst ms)" "map_of ms ''routes'' = Some (JArr (table V px))"
    using fetch_server_ready [OF assms] .
  have "map_of (server_config None px ms) ''routes'' = Some (JArr (table V px))"
    using ms(3) by (simp add: server_config_def Let_def map_of_put)
  moreover have "distinct (map fst (server_config None px ms))"
    using ms(2) by (simp add: server_config_def Let_def put_member_distinct)
  ultimately have "answers http V PATCH server_path (Some (JObj (server_config None px ms))) (px_caddy px) (table V px)"
    using ready_writes [OF assms] by (auto simp: writes_ok_def)
  from send_json_ready [OF assms this] ms(1) show ?thesis by (simp add: ensure_server_def)
qed

lemma leaves_ready: "leaves http V px rs \<Longrightarrow> ready http V px"
  by (simp add: leaves_def)

lemma leaves_table: "leaves http V px rs \<Longrightarrow> table V px = rs"
  by (simp add: leaves_def)

lemma apply_mode_leaves:
  assumes "leaves http V px rs"
  shows "leaves http V (apply_mode http cfg px) rs \<and> px_dashboard (apply_mode http cfg px) = px_dashboard px"
proof -
  obtain ch px1 where m: "set_mode (rc_host cfg) (rc_ssl_mode cfg) px = (ch, px1)" by fastforce
  then have l: "leaves http V px1 rs" "px_dashboard px1 = px_dashboard px"
    using assms by (auto simp: set_mode_def split: prod.splits)
  then have "leaves http V (snd (ensure_server http None px1)) rs \<and> px_dashboard (snd (ensure_server http None px1)) = px_dashboard px"
    using ensure_server_ready [of http V px1] leaves_table [OF l(1)] by (auto simp: leaves_ready same_client_def)
  with m l show ?thesis by (auto simp: apply_mode_def)
qed

lemma writes_config:
  "writes_ok http V s \<Longrightarrow> path \<in> {certs_path, automation_path} \<Longrightarrow> answers http V m path body s (cv_table V s)"
  unfolding writes_ok_def by blast

lemma config_request:
  assumes "leaves http V px rs" and "path \<in> {certs_path, automation_path}"
  shows "leaves http V (snd (request http m path body px)) rs \<and> same_client px (snd (request http m path body px))"
proof -
  have r: "ready http V px" and t: "table V px = rs" using assms by (auto simp: leaves_def)
  then have "answers http V m path body (px_caddy px) rs"
    using writes_config [OF ready_writes [OF r] assms(2)] by simp
  from ready_step [OF r this] show ?thesis by (simp add: request_ready [OF r] same_client_def)
qed

lemmas certs_request = config_request [where path = certs_path, simplified]

lemma do_config_leaves:
  assumes "leaves http V p rs" and "path \<in> {certs_path, automation_path}"
  shows "leaves http V (snd (do_config http m path v p)) rs \<and> same_client p (snd (do_config http m path v p))"
  using config_request [OF assms, of m "Some v"] by (auto simp: do_config_def split: prod.splits caddy_reply.splits)

lemma same_client_trans: "same_client a b \<Longrightarrow> same_client b c \<Longrightarrow> same_client a c"
  by (simp add: same_client_def)

lemma same_client_refl [simp]: "same_client px px"
  by (simp add: same_client_def)

lemma write_certs_leaves:
  assumes "leaves http V px rs"
  shows "leaves http V (snd (write_pem_certs http cs px)) rs \<and> same_client px (snd (write_pem_certs http cs px))"
proof -
  note d = do_config_leaves [where path = certs_path, simplified]
  let ?v = "JObj [(''load_pem'', JArr (map marshal_cert cs))]"
  obtain st px1 where p: "do_config http PUT certs_path ?v px = (st, px1)" by fastforce
  with d [OF assms, of PUT ?v] have l: "leaves http V px1 rs" "same_client px px1" by simp_all
  with d [OF l(1), of PATCH ?v] p show ?thesis
    by (auto simp: write_pem_certs_def put_or_patch_config_def same_client_def)
qed

lemma list_certs_leaves:
  assumes "leaves http V px rs"
  shows "leaves http V (snd (list_pem_certs http px)) rs \<and> same_client px (snd (list_pem_certs http px))"
  using certs_request [OF assms, of GET None] by (auto simp: list_pem_certs_def split: prod.splits caddy_reply.splits option.splits)

lemma setup_tls_leaves:
  assumes "leaves http V px rs"
  shows "leaves http V (snd (setup_tls http h m c k px)) rs \<and> same_client px (snd (setup_tls http h m c k px))"
proof -
  have "leaves http V (snd (load_pem_cert http x px)) rs \<and> same_client px (snd (load_pem_cert http x px))" for x
  proof -
    obtain l px1 where p: "list_pem_certs http px = (l, px1)" by fastforce
    with list_certs_leaves [OF assms] have l: "leaves http V px1 rs" "same_client px px1" by (metis snd_conv)+
    with write_certs_leaves [OF l(1)] p show ?thesis
      by (auto simp: load_pem_cert_def same_client_def split: sum.splits)
  qed
  then show ?thesis using assms by (simp add: setup_tls_def)
qed

lemma apply_tls_leaves:
  assumes "leaves http V px rs"
  shows "leaves http V (apply_tls http cfg px) rs \<and> px_dashboard (apply_tls http cfg px) = px_dashboard px"
  using setup_tls_leaves [OF assms, of "rc_host cfg" "rc_ssl_mode cfg" "rc_cert cfg" "rc_key cfg"] assms
  by (auto simp: apply_tls_def report_tls_error_def same_client_def split: prod.splits option.splits)

lemma sync_certificates_leaves:
  assumes "leaves http V px rs"
  shows "leaves http V (snd (sync_certificates http cs px)) rs \<and> same_client px (snd (sync_certificates http cs px))"
proof -
  obtain l px1 where p: "list_pem_certs http px = (l, px1)" by fastforce
  with list_certs_leaves [OF assms] have l: "leaves http V px1 rs" "same_client px px1" by (metis snd_conv)+
  with write_certs_leaves [OF l(1)] p show ?thesis
    by (auto simp: sync_certificates_def same_client_def split: sum.splits)
qed

section \<open>The table after a reorder\<close>

lemma route_id_marshal: "route_id (json_norm (marshal_route r)) = cr_id r"
  by (simp add: route_id_def table_probe_norm)

lemma last_with_id_in: "last_with_id i rs = Some w \<Longrightarrow> w \<in> set rs \<and> route_id w = i"
proof -
  assume "last_with_id i rs = Some w"
  then obtain k where "k < length (rev rs)" "w = rev rs ! k" "route_id w = i"
    by (auto simp: last_with_id_def find_Some_iff)
  then show ?thesis by (metis nth_mem set_rev)
qed

lemma reorder_members:
  assumes "map json_norm rs = rs" and "r \<in> set (map json_norm (reorder_list up rs))"
  shows "(r \<in> set rs) \<or> r = json_norm (marshal_route (catch_all_route up))"
proof -
  have n: "x \<in> set rs \<Longrightarrow> json_norm x = x" for x using assms(1) by (metis list.set_map imageE json_norm_idem)
  from assms(2) have "\<exists>x. r = json_norm x \<and> (x \<in> set rs \<or> x = marshal_route (catch_all_route up))"
    by (auto simp: reorder_list_def sort_routes_by_specificity_def dest: last_with_id_in last_with_id_in [OF sym]
        split: option.splits)
  then show ?thesis using n by auto
qed

lemma domain_not_reserved: "is_domain_route r \<Longrightarrow> route_id r \<notin> {catch_all_route_id, waf_route_id}"
  by (simp add: is_domain_route_def)

lemma norm_filter_sort:
  assumes "map json_norm rs = rs"
  shows "map json_norm (sort_routes_by_specificity (filter is_domain_route rs)) = sort_routes_by_specificity (filter is_domain_route rs)"
proof -
  have n: "x \<in> set rs \<Longrightarrow> json_norm x = x" for x using assms by (metis list.set_map imageE json_norm_idem)
  show ?thesis by (rule map_idI) (auto simp: sort_routes_by_specificity_def n)
qed

lemmas reserved_not_domain = last_with_id_in [THEN conjunct2]

lemma catch_all_not_domain: "\<not> is_domain_route (json_norm (marshal_route (catch_all_route up)))"
  by (simp add: is_domain_route_def route_id_marshal catch_all_route_def)

lemma last_with_id_norm:
  assumes "map json_norm rs = rs" "last_with_id i rs = Some w"
  shows "json_norm w = w"
proof -
  have "w \<in> set rs" using last_with_id_in [OF assms(2)] by blast
  then show ?thesis using assms(1) by (metis list.set_map imageE json_norm_idem)
qed

lemma reorder_domain_entries:
  assumes "map json_norm rs = rs"
  shows "mset (filter is_domain_route (map json_norm (reorder_list up rs))) = mset (filter is_domain_route rs)"
proof -
  let ?D = "sort_routes_by_specificity (filter is_domain_route rs)"
  have "filter is_domain_route ?D = ?D" by (auto simp: filter_id_conv sort_routes_by_specificity_def)
  moreover have "\<not> is_domain_route w" if "last_with_id i rs = Some w" "i \<in> {catch_all_route_id, waf_route_id}" for i w
    using last_with_id_in [OF that(1)] that(2) by (auto simp: is_domain_route_def)
  ultimately have "filter is_domain_route (map json_norm (reorder_list up rs)) = ?D"
    using catch_all_not_domain
    by (auto simp: reorder_list_def norm_filter_sort [OF assms] last_with_id_norm [OF assms] split: option.splits)
  then show ?thesis by (simp add: sort_routes_by_specificity_def)
qed

definition ids :: "json list \<Rightarrow> string list" where
  "ids rs = filter (\<lambda>i. i \<noteq> '''') (map route_id rs)"

lemma ids_simps [simp]: "ids [] = []" "ids (r # rs) = (if route_id r = '''' then ids rs else route_id r # ids rs)"
  "ids (xs @ ys) = ids xs @ ids ys"
  by (simp_all add: ids_def)

lemma mset_ids: "mset (ids rs) = filter_mset (\<lambda>i. i \<noteq> '''') (image_mset route_id (mset rs))"
  by (simp add: ids_def mset_filter)

lemma set_ids: "set (ids rs) = route_id ` set rs - {''''}"
  by (auto simp: ids_def)

lemma distinct_ids_filter: "distinct (ids rs) \<Longrightarrow> distinct (ids (filter P rs))"
  by (induction rs) (auto simp: set_ids split: if_splits)

lemma distinct_ids_reorder:
  assumes "map json_norm rs = rs" "distinct (ids rs)"
  shows "distinct (ids (map json_norm (reorder_list up rs)))"
proof -
  let ?D = "sort_routes_by_specificity (filter is_domain_route rs)"
  have "mset (ids ?D) = mset (ids (filter is_domain_route rs))"
    by (simp add: mset_ids sort_routes_by_specificity_def)
  then have d: "distinct (ids ?D)"
    using distinct_ids_filter [OF assms(2)] mset_eq_imp_distinct_iff by blast
  have "i \<in> set (ids ?D) \<Longrightarrow> i \<notin> {catch_all_route_id, waf_route_id}" for i
    by (auto simp: set_ids sort_routes_by_specificity_def is_domain_route_def)
  moreover have "catch_all_route_id \<noteq> waf_route_id" by (simp add: catch_all_route_id_def waf_route_id_def)
  moreover have "route_id (json_norm (marshal_route (catch_all_route up))) = catch_all_route_id"
    by (simp add: route_id_marshal catch_all_route_def)
  ultimately show ?thesis using d
    by (auto simp: reorder_list_def norm_filter_sort [OF assms(1)] last_with_id_norm [OF assms(1)] last_with_id_in
        split: option.splits)
qed

lemma reorder_ready:
  assumes "leaves http V px rs"
  shows "\<exists>px'. reorder_routes http px = (None, px') \<and> leaves http V px' (map json_norm (reorder_list (px_dashboard px) rs)) \<and>
    same_client px px'"
proof -
  have r: "ready http V px" and t: "table V px = rs" using assms by (auto simp: leaves_def)
  let ?L = "reorder_list (px_dashboard px) rs"
  have ok: "table_ok V rs" using ready_table [OF r] t by simp
  then have n: "map json_norm rs = rs" and di: "distinct (ids rs)" and lo: "\<forall>x \<in> set rs. cv_loads V x"
    by (auto simp: table_ok_def ids_def list_all_iff)
  have c: "cv_loads V (marshal_route (catch_all_route u))" "cv_loads V (json_norm x) = cv_loads V x" for u x
    using r by (auto simp: ready_def caddy_ok_def)
  have "list_all (cv_loads V) ?L"
  proof -
    have "cv_loads V (json_norm x)" if "x \<in> set ?L" for x
    proof -
      have "json_norm x \<in> set rs \<or> json_norm x = json_norm (marshal_route (catch_all_route (px_dashboard px)))"
        using reorder_members [OF n, of "json_norm x" "px_dashboard px"] that by auto
      then show ?thesis using lo c by metis
    qed
    then show ?thesis using c(2) by (simp add: list_all_iff)
  qed
  moreover have "distinct (filter (\<lambda>i. i \<noteq> '''') (map (route_id \<circ> json_norm) ?L))"
    using distinct_ids_reorder [OF n di] by (simp add: ids_def)
  ultimately have "succeeds (fst (http PATCH routes_path (Some (JArr ?L)) (px_caddy px)))"
    "answers http V PATCH routes_path (Some (JArr ?L)) (px_caddy px) (map json_norm ?L)"
    using ready_writes [OF r] by (auto simp: writes_ok_def)
  with send_json_ready [OF r, of PATCH routes_path "JArr ?L"] show ?thesis
    by (cases "send_json http PATCH routes_path (JArr ?L) px")
       (auto simp: reorder_routes_def fetch_raw_ready [OF r] patch_routes_def t)
qed

lemma post_route_ready:
  assumes "leaves http V px rs" "cv_loads V (marshal_route r)" "cr_id r \<notin> route_id ` set rs"
  shows "\<exists>px'. post_route http r px = (None, px') \<and>
    leaves http V px' (map json_norm (reorder_list (px_dashboard px) (rs @ [json_norm (marshal_route r)]))) \<and> same_client px px'"
proof -
  have rd: "ready http V px" and t: "table V px = rs" using assms(1) by (auto simp: leaves_def)
  have "succeeds (fst (http POST routes_path (Some (marshal_route r)) (px_caddy px)))"
    "answers http V POST routes_path (Some (marshal_route r)) (px_caddy px) (rs @ [json_norm (marshal_route r)])"
    using ready_writes [OF rd] assms(2,3) t by (auto simp: writes_ok_def route_id_marshal)
  from send_json_ready [OF rd this(2)] this(1) obtain px1 where
    p: "send_json http POST routes_path (marshal_route r) px = (None, px1)"
    "leaves http V px1 (rs @ [json_norm (marshal_route r)])" "same_client px px1"
    by (cases "send_json http POST routes_path (marshal_route r) px") auto
  from reorder_ready [OF p(2)] p(1,3) show ?thesis
    by (auto simp: post_route_def same_client_def)
qed

lemma remove_route_ready:
  assumes "leaves http V px rs"
  shows "\<exists>px'. remove_route http env h p px = (None, px') \<and> px_dashboard px' = px_dashboard px \<and>
    leaves http V px' (filter (\<lambda>r. route_id r \<noteq> route_id_for (be_sha env) h p) rs)"
proof -
  let ?i = "route_id_for (be_sha env) h p"
  have i: "?i \<noteq> ''''" by (simp add: route_id_for_def)
  have rd: "ready http V px" and t: "table V px = rs" using assms by (auto simp: leaves_def)
  from delete_ready [OF rd i] t obtain px1 where
    d: "delete_route_by_id http ?i px = (Inr (?i \<in> set (map route_id rs)), px1)"
    and l: "leaves http V px1 (filter (\<lambda>r. route_id r \<noteq> ?i) rs)" "same_client px px1" by auto
  obtain ch px2 where f: "forget_host h px1 = (ch, px2)" by fastforce
  then have l2: "leaves http V px2 (filter (\<lambda>r. route_id r \<noteq> ?i) rs)" "px_dashboard px2 = px_dashboard px"
    using l by (auto simp: forget_host_def same_client_def split: prod.splits)
  from ensure_server_ready [OF leaves_ready [OF l2(1)]] l2 leaves_table [OF l2(1)]
  have "leaves http V (snd (ensure_server http None px2)) (filter (\<lambda>r. route_id r \<noteq> ?i) rs)"
    "px_dashboard (snd (ensure_server http None px2)) = px_dashboard px"
    by (auto simp: same_client_def)
  with d f l l2 show ?thesis by (auto simp: remove_route_def same_client_def split: bool.splits)
qed

text \<open>What \<open>AddRoute\<close> leaves: the same table, the route under its id replaced, in order.\<close>

definition replaced :: "string \<Rightarrow> json \<Rightarrow> json list \<Rightarrow> json list \<Rightarrow> bool" where
  "replaced i new before after \<longleftrightarrow>
     mset (filter is_domain_route after) =
     mset (filter (\<lambda>r. is_domain_route r \<and> route_id r \<noteq> i) before) + {#new#}"

lemma add_route_ready:
  assumes "leaves http V px rs" and "build_route env cfg = Inr r" and "cv_loads V (marshal_route r)"
  shows "\<exists>px'. add_route http env cfg px = (None, px') \<and> px_dashboard px' = px_dashboard px \<and>
    leaves http V px' (map json_norm (reorder_list (px_dashboard px)
      (filter (\<lambda>x. route_id x \<noteq> cr_id r) rs @ [json_norm (marshal_route r)])))"
proof -
  have id: "route_id_for (be_sha env) (rc_host cfg) (rc_path cfg) = cr_id r"
    using built_match(1) [OF assms(2)] by simp
  from remove_route_ready [OF assms(1), of env "rc_host cfg" "rc_path cfg"] obtain px1 where
    r1: "remove_route http env (rc_host cfg) (rc_path cfg) px = (None, px1)" "px_dashboard px1 = px_dashboard px"
    "leaves http V px1 (filter (\<lambda>x. route_id x \<noteq> cr_id r) rs)" unfolding id by blast
  let ?px = "apply_tls http cfg (apply_mode http cfg px1)"
  have l: "leaves http V ?px (filter (\<lambda>x. route_id x \<noteq> cr_id r) rs)" "px_dashboard ?px = px_dashboard px"
    using apply_mode_leaves [OF r1(3), of cfg] apply_tls_leaves [of http V "apply_mode http cfg px1" _ cfg] r1(2) by auto
  have "cr_id r \<notin> route_id ` set (filter (\<lambda>x. route_id x \<noteq> cr_id r) rs)" by auto
  from post_route_ready [OF l(1) assms(3) this] r1(1) l(2) assms(2) show ?thesis
    by (auto simp: add_route_def Let_def same_client_def)
qed

lemma built_is_domain:
  assumes "build_route env cfg = Inr r" "cr_id r \<notin> {catch_all_route_id, waf_route_id}"
  shows "is_domain_route (json_norm (marshal_route r))"
  using assms by (simp add: is_domain_route_def route_id_marshal table_probe_norm probe_hosts_def probes_of_def built_match(2))

lemma replaced_by_add:
  assumes "map json_norm rs = rs" "is_domain_route (json_norm (marshal_route r))"
  shows "replaced (cr_id r) (json_norm (marshal_route r)) rs
    (map json_norm (reorder_list up (filter (\<lambda>x. route_id x \<noteq> cr_id r) rs @ [json_norm (marshal_route r)])))"
proof -
  let ?rs = "filter (\<lambda>x. route_id x \<noteq> cr_id r) rs @ [json_norm (marshal_route r)]"
  have n: "x \<in> set rs \<Longrightarrow> json_norm x = x" for x using assms(1) by (metis list.set_map imageE json_norm_idem)
  have "map json_norm ?rs = ?rs" by (auto simp: n intro!: map_idI)
  from reorder_domain_entries [OF this] assms(2) show ?thesis
    by (simp add: replaced_def conj_commute)
qed

text \<open>A configuration the proxy can hold: it builds, it has an id of its own, and Caddy loads it.\<close>

definition servable :: "'s caddy_view \<Rightarrow> build_env \<Rightarrow> route_config \<Rightarrow> bool" where
  "servable V env cfg \<longleftrightarrow> (\<exists>r. build_route env cfg = Inr r \<and> cr_id r \<notin> {catch_all_route_id, waf_route_id} \<and>
     cv_loads V (marshal_route r))"

abbreviation cfg_id :: "build_env \<Rightarrow> route_config \<Rightarrow> string" where
  "cfg_id env cfg \<equiv> route_id_for (be_sha env) (rc_host cfg) (rc_path cfg)"

lemma find_entry:
  assumes "e \<in> set rs" "distinct (ids rs)" "route_id e = i" "i \<noteq> ''''"
  shows "find (\<lambda>r. route_id r = i) rs = Some e"
  using assms
proof (induction rs)
  case (Cons x xs)
  show ?case
  proof (cases "x = e")
    case False
    with Cons.prems have "e \<in> set xs" by simp
    then have "i \<in> set (ids xs)" using Cons.prems(3,4) by (auto simp: set_ids)
    with Cons.prems(2,4) have "route_id x \<noteq> i" "distinct (ids xs)" by (auto split: if_splits)
    with Cons \<open>e \<in> set xs\<close> show ?thesis by simp
  qed (use Cons.prems in simp)
qed simp

lemma split_by_id:
  assumes "e \<in> set rs" "distinct (ids rs)" "route_id e = i" "i \<noteq> ''''" "P e"
  shows "mset (filter P rs) = mset (filter (\<lambda>r. P r \<and> route_id r \<noteq> i) rs) + {#e#}"
  using assms
proof (induction rs)
  case (Cons x xs)
  show ?case
  proof (cases "x = e")
    case True
    with Cons.prems have "i \<notin> route_id ` set xs" by (auto simp: set_ids)
    then have "filter (\<lambda>r. P r \<and> route_id r \<noteq> i) xs = filter P xs" by (auto intro!: filter_cong)
    with True Cons.prems show ?thesis by simp
  next
    case False
    with Cons.prems have "e \<in> set xs" by simp
    then have "i \<in> set (ids xs)" using Cons.prems(3,4) by (auto simp: set_ids)
    with Cons.prems(2,4) have "route_id x \<noteq> i" "distinct (ids xs)" by (auto split: if_splits)
    with Cons \<open>e \<in> set xs\<close> show ?thesis by simp
  qed
qed simp

lemma in_of_filter_mset:
  assumes "mset (filter P after) = M + {#e#}"
  shows "e \<in> set after"
proof -
  have "e \<in># mset (filter P after)" using assms by simp
  then show ?thesis by simp
qed

lemma ensure_noop:
  assumes "ready http V px" "servable V env cfg" "table_entry env cfg \<in> set (table V px)"
    and "\<not> unknown_object (cv_text V (table_entry env cfg))"
  shows "ensure_route http env cfg px = (Inr False, px)"
proof -
  from assms(2) obtain r where r: "build_route env cfg = Inr r" by (auto simp: servable_def)
  have e: "table_entry env cfg = json_norm (marshal_route r)" by (simp add: table_entry_Inr [OF r])
  have id: "route_id (table_entry env cfg) = cfg_id env cfg"
    using built_match(1) [OF r] by (simp add: e route_id_marshal)
  have i: "cfg_id env cfg \<noteq> ''''" by (simp add: route_id_for_def)
  have d: "distinct (ids (table V px))" using ready_table [OF assms(1)] by (simp add: table_ok_def ids_def)
  have f: "find (\<lambda>r. route_id r = cfg_id env cfg) (table V px) = Some (table_entry env cfg)"
    using find_entry [OF assms(3) d id i] .
  have "fetch_route_by_id http (cfg_id env cfg) px = (Inr (Some (Raw (table_entry env cfg))), px)"
  proof -
    have "\<not> unknown_object (cv_text V x)" if "x \<in> set (table V px)" "route_id x = cfg_id env cfg" for x
      using find_entry [OF that(1) d that(2) i] f assms(4) by simp
    from fetch_by_id_ready [OF assms(1) i this] f show ?thesis by simp
  qed
  then show ?thesis by (simp add: ensure_route_def r e route_json_equal_def)
qed

lemma added_members:
  assumes "map json_norm rs = rs"
    and "x \<in> set (map json_norm (reorder_list up (filter P rs @ [json_norm m])))"
  shows "x \<in> set rs \<or> x = json_norm m \<or> x = json_norm (marshal_route (catch_all_route up))"
proof -
  have n: "json_norm y = y" if "y \<in> set rs" for y using that assms(1) by (metis list.set_map imageE json_norm_idem)
  have "map json_norm (filter P rs @ [json_norm m]) = filter P rs @ [json_norm m]" by (auto simp: n intro!: map_idI)
  from reorder_members [OF this assms(2)] show ?thesis by auto
qed

lemma add_settles:
  assumes "ready http V px" and "servable V env cfg"
  shows "\<exists>px'. add_route http env cfg px = (None, px') \<and> ready http V px' \<and> table_entry env cfg \<in> set (table V px') \<and>
     mset (filter is_domain_route (table V px')) =
       mset (filter (\<lambda>r. is_domain_route r \<and> route_id r \<noteq> cfg_id env cfg) (table V px)) + {#table_entry env cfg#} \<and>
     px_dashboard px' = px_dashboard px \<and>
     (\<forall>x \<in> set (table V px'). x \<in> set (table V px) \<or> x = table_entry env cfg \<or>
       x = json_norm (marshal_route (catch_all_route (px_dashboard px))))"
proof -
  from assms(2) obtain r where r: "build_route env cfg = Inr r" "cr_id r \<notin> {catch_all_route_id, waf_route_id}"
    "cv_loads V (marshal_route r)" by (auto simp: servable_def)
  have e: "table_entry env cfg = json_norm (marshal_route r)" by (simp add: table_entry_Inr [OF r(1)])
  have id: "cr_id r = cfg_id env cfg" using built_match(1) [OF r(1)] by simp
  have dom: "is_domain_route (table_entry env cfg)" using built_is_domain [OF r(1,2)] by (simp add: e)
  have n: "map json_norm (table V px) = table V px" using ready_table [OF assms(1)] by (simp add: table_ok_def)
  have "leaves http V px (table V px)" using assms(1) by (simp add: leaves_def)
  from add_route_ready [OF this r(1,3)] obtain px' where
    a: "add_route http env cfg px = (None, px')" "px_dashboard px' = px_dashboard px"
    "leaves http V px' (map json_norm (reorder_list (px_dashboard px)
      (filter (\<lambda>x. route_id x \<noteq> cr_id r) (table V px) @ [json_norm (marshal_route r)])))" by blast
  have rep: "replaced (cr_id r) (table_entry env cfg) (table V px) (table V px')"
    using replaced_by_add [OF n, of r "px_dashboard px"] dom leaves_table [OF a(3)] by (simp add: e)
  then have "table_entry env cfg \<in> set (table V px')"
    unfolding replaced_def by (rule in_of_filter_mset)
  moreover have "x \<in> set (table V px) \<or> x = table_entry env cfg \<or> x = json_norm (marshal_route (catch_all_route (px_dashboard px)))"
    if "x \<in> set (table V px')" for x
    using added_members [OF n] that leaves_table [OF a(3)] by (auto simp: e)
  ultimately show ?thesis using a(1,2) rep leaves_ready [OF a(3)] by (auto simp: replaced_def id)
qed

lemma ensure_settles:
  assumes "ready http V px" and "servable V env cfg"
    and "\<And>r. r = table_entry env cfg \<or> r \<in> set (table V px) \<Longrightarrow> \<not> unknown_object (cv_text V r)"
  shows "\<exists>px'. ensure_route http env cfg px = (Inr (table_entry env cfg \<notin> set (table V px)), px') \<and> ready http V px' \<and>
     table_entry env cfg \<in> set (table V px') \<and>
     mset (filter is_domain_route (table V px')) =
       mset (filter (\<lambda>r. is_domain_route r \<and> route_id r \<noteq> cfg_id env cfg) (table V px)) + {#table_entry env cfg#} \<and>
     ensure_route http env cfg px' = (Inr False, px') \<and> px_dashboard px' = px_dashboard px \<and>
     (\<forall>x \<in> set (table V px'). x \<in> set (table V px) \<or> x = table_entry env cfg \<or>
       x = json_norm (marshal_route (catch_all_route (px_dashboard px))))"
proof -
  from assms(2) obtain r where r: "build_route env cfg = Inr r" "cr_id r \<notin> {catch_all_route_id, waf_route_id}"
    "cv_loads V (marshal_route r)" by (auto simp: servable_def)
  have e: "table_entry env cfg = json_norm (marshal_route r)" by (simp add: table_entry_Inr [OF r(1)])
  have id: "cr_id r = cfg_id env cfg" using built_match(1) [OF r(1)] by simp
  have i: "cfg_id env cfg \<noteq> ''''" by (simp add: route_id_for_def)
  have dom: "is_domain_route (table_entry env cfg)" using built_is_domain [OF r(1,2)] by (simp add: e)
  have ok: "table_ok V (table V px)" by (rule ready_table [OF assms(1)])
  then have d: "distinct (ids (table V px))" and n: "map json_norm (table V px) = table V px"
    by (auto simp: table_ok_def ids_def)
  show ?thesis
  proof (cases "table_entry env cfg \<in> set (table V px)")
    case True
    have s: "ensure_route http env cfg px = (Inr False, px)"
      using ensure_noop [OF assms(1,2) True] assms(3) by blast
    have "route_id (table_entry env cfg) = cfg_id env cfg" by (simp add: e route_id_marshal id)
    from split_by_id [where P = is_domain_route, OF True d this i dom] True s assms(1) show ?thesis
      by (intro exI [of _ px]) simp
  next
    case False
    obtain cur where f: "fetch_route_by_id http (cfg_id env cfg) px = (Inr cur, px)"
      "cur = map_option Raw (find (\<lambda>r. route_id r = cfg_id env cfg) (table V px))"
      using fetch_by_id_ready [OF assms(1) i] assms(3) by blast
    have "\<not> (case cur of None \<Rightarrow> False | Some c \<Rightarrow> route_json_equal c (marshal_route r))"
    proof (cases "find (\<lambda>r. route_id r = cfg_id env cfg) (table V px)")
      case (Some x)
      then have x: "x \<in> set (table V px)" by (auto simp: find_Some_iff)
      then have "json_norm x = x" using n by (metis list.set_map imageE json_norm_idem)
      with x False f(2) Some show ?thesis by (auto simp: route_json_equal_def e)
    qed (simp add: f)
    moreover from add_settles [OF assms(1,2)] obtain px' where
      a: "add_route http env cfg px = (None, px')" "ready http V px'" "table_entry env cfg \<in> set (table V px')"
      "mset (filter is_domain_route (table V px')) =
         mset (filter (\<lambda>r. is_domain_route r \<and> route_id r \<noteq> cfg_id env cfg) (table V px)) + {#table_entry env cfg#}"
      "px_dashboard px' = px_dashboard px"
      "\<forall>x \<in> set (table V px'). x \<in> set (table V px) \<or> x = table_entry env cfg \<or>
         x = json_norm (marshal_route (catch_all_route (px_dashboard px)))" by blast
    ultimately have en: "ensure_route http env cfg px = (Inr True, px')"
      by (simp add: ensure_route_def r(1) f(1))
    have "ensure_route http env cfg px' = (Inr False, px')"
      using ensure_noop [OF a(2) assms(2) a(3)] assms(3) by blast
    with False en a show ?thesis by (intro exI [of _ px']) simp
  qed
qed

text \<open>
  C5: ensuring a route establishes it, and only it. Against a Caddy that is up, \<open>EnsureRoute\<close> of a
  configuration Caddy can load succeeds and leaves Caddy up with exactly the rendered route under its
  id and every other application route as it was, whatever the table held before; ensuring it again
  sends nothing and reports no change.
\<close>
theorem ensure_route_establishes:
  assumes "ready http V px" and "servable V env cfg"
    and "\<And>r. r = table_entry env cfg \<or> r \<in> set (table V px) \<Longrightarrow> \<not> unknown_object (cv_text V r)"
  shows "\<exists>changed px'. ensure_route http env cfg px = (Inr changed, px') \<and> ready http V px' \<and>
     table_entry env cfg \<in> set (table V px') \<and>
     mset (filter is_domain_route (table V px')) =
       mset (filter (\<lambda>r. is_domain_route r \<and> route_id r \<noteq> cfg_id env cfg) (table V px)) + {#table_entry env cfg#} \<and>
     ensure_route http env cfg px' = (Inr False, px')"
  using ensure_settles [OF assms] by blast

section \<open>A Caddy that satisfies the contract\<close>

definition demo_ok_reply :: caddy_reply where "demo_ok_reply = Reply 200 (Raw JNull) ''''"

definition demo_caddy :: "json list caddy" where
  "demo_caddy m path body s =
     (if path = routes_path then
        (case m of
           GET \<Rightarrow> (Reply 200 (Raw (JArr s)) '''', s)
         | POST \<Rightarrow> (case body of Some r \<Rightarrow> (demo_ok_reply, s @ [json_norm r]) | None \<Rightarrow> (demo_ok_reply, s))
         | PATCH \<Rightarrow> (case body of Some (JArr rs) \<Rightarrow> (demo_ok_reply, map json_norm rs) | _ \<Rightarrow> (demo_ok_reply, s))
         | _ \<Rightarrow> (demo_ok_reply, s))
      else if path = server_path then
        (case m of
           GET \<Rightarrow> (Reply 200 (Raw (JObj [(''routes'', JArr s)])) '''', s)
         | PATCH \<Rightarrow> (case body of
               Some (JObj ms) \<Rightarrow> (case map_of ms ''routes'' of Some (JArr rs) \<Rightarrow> (demo_ok_reply, map json_norm rs) | _ \<Rightarrow> (demo_ok_reply, s))
             | _ \<Rightarrow> (demo_ok_reply, s))
         | _ \<Rightarrow> (demo_ok_reply, s))
      else if path = first_route_path then
        (case body of Some r \<Rightarrow> (demo_ok_reply, json_norm r # s) | None \<Rightarrow> (demo_ok_reply, s))
      else case cut_prefix ''/id/'' path of
        Some i \<Rightarrow>
          (case find (\<lambda>r. route_id r = i) s of
             None \<Rightarrow> (Reply 404 RawEmpty '''', s)
           | Some r \<Rightarrow>
               (if m = DELETE then (demo_ok_reply, filter (\<lambda>r. route_id r \<noteq> i) s)
                else case (m, body) of
                  (PATCH, Some v) \<Rightarrow> (demo_ok_reply, map (\<lambda>x. if route_id x = i then json_norm v else x) s)
                | _ \<Rightarrow> (Reply 200 (Raw r) '''', s)))
      | None \<Rightarrow> (demo_ok_reply, s))"

definition demo_view :: "json list caddy_view" where
  "demo_view = \<lparr>cv_up = (\<lambda>s. map json_norm s = s \<and> distinct (ids s)), cv_table = id, cv_loads = (\<lambda>_. True), cv_text = (\<lambda>_. '''')\<rparr>"

lemma demo_paths [simp]:
  "routes_path \<noteq> server_path" "server_path \<noteq> routes_path" "id_path i \<noteq> routes_path" "id_path i \<noteq> server_path"
  "certs_path \<noteq> routes_path" "certs_path \<noteq> server_path" "cut_prefix ''/id/'' (id_path i) = Some i" "cut_prefix ''/id/'' certs_path = None"
  "automation_path \<noteq> routes_path" "automation_path \<noteq> server_path" "cut_prefix ''/id/'' automation_path = None"
  "first_route_path \<noteq> routes_path" "first_route_path \<noteq> server_path" "id_path i \<noteq> first_route_path"
  "routes_path \<noteq> first_route_path" "server_path \<noteq> first_route_path"
  "certs_path \<noteq> first_route_path" "automation_path \<noteq> first_route_path"
  by (simp_all add: routes_path_def server_path_def id_path_def certs_path_def automation_path_def first_route_path_def cut_prefix_def)

lemma demo_table_ok: "cv_up demo_view s = table_ok demo_view s"
  by (auto simp: demo_view_def table_ok_def ids_def list_all_iff)

lemma map_norm_in: "map json_norm s = s \<Longrightarrow> r \<in> set s \<Longrightarrow> json_norm r = r"
  by (metis list.set_map imageE json_norm_idem)

lemma demo_reads: "cv_up demo_view s \<Longrightarrow> reads_ok demo_caddy demo_view s"
  unfolding reads_ok_def demo_table_ok
  by (auto simp: demo_caddy_def missing_def demo_view_def split: option.splits)

lemma demo_writes:
  assumes "cv_up demo_view s"
  shows "writes_ok demo_caddy demo_view s"
proof -
  from assms have n: "map json_norm s = s" and d: "distinct (ids s)" by (auto simp: demo_view_def)
  have a: "(\<forall>r. cv_loads demo_view r \<longrightarrow> route_id (json_norm r) \<notin> set (map route_id (cv_table demo_view s)) \<longrightarrow>
        succeeds (fst (demo_caddy POST routes_path (Some r) s)) \<and>
        answers demo_caddy demo_view POST routes_path (Some r) s (cv_table demo_view s @ [json_norm r]))"
    using n d by (auto simp: demo_caddy_def demo_ok_reply_def succeeds_def answers_def demo_view_def set_ids)
  have b: "(\<forall>rs. list_all (cv_loads demo_view) rs \<longrightarrow> distinct (filter (\<lambda>i. i \<noteq> '''') (map (route_id \<circ> json_norm) rs)) \<longrightarrow>
        succeeds (fst (demo_caddy PATCH routes_path (Some (JArr rs)) s)) \<and>
        answers demo_caddy demo_view PATCH routes_path (Some (JArr rs)) s (map json_norm rs))"
    by (auto simp: demo_caddy_def demo_ok_reply_def succeeds_def answers_def demo_view_def ids_def)
  have c: "(\<forall>ms. map_of ms ''routes'' = Some (JArr (cv_table demo_view s)) \<longrightarrow> distinct (map fst ms) \<longrightarrow>
        answers demo_caddy demo_view PATCH server_path (Some (JObj ms)) s (cv_table demo_view s))"
    using n d by (auto simp: demo_caddy_def demo_ok_reply_def answers_def demo_view_def)
  have e: "find (\<lambda>r. route_id r = i) s = None \<longleftrightarrow> i \<notin> route_id ` set s" for i
    by (auto simp: find_None_iff)
  have f: "map json_norm (filter P s) = filter P s" for P
    by (rule map_idI) (auto dest: map_norm_in [OF n])
  have g: "i \<notin> route_id ` set s \<Longrightarrow> filter (\<lambda>r. route_id r \<noteq> i) s = s" for i
    by (auto simp: filter_id_conv)
  have "(\<forall>i. i \<noteq> '''' \<longrightarrow>
        (if i \<in> set (map route_id (cv_table demo_view s)) then succeeds (fst (demo_caddy DELETE (id_path i) None s))
         else missing (fst (demo_caddy DELETE (id_path i) None s))) \<and>
        answers demo_caddy demo_view DELETE (id_path i) None s (filter (\<lambda>r. route_id r \<noteq> i) (cv_table demo_view s)))"
  proof (intro allI impI)
    fix i :: string
    show "(if i \<in> set (map route_id (cv_table demo_view s)) then succeeds (fst (demo_caddy DELETE (id_path i) None s))
         else missing (fst (demo_caddy DELETE (id_path i) None s))) \<and>
        answers demo_caddy demo_view DELETE (id_path i) None s (filter (\<lambda>r. route_id r \<noteq> i) (cv_table demo_view s))"
    proof (cases "find (\<lambda>r. route_id r = i) s")
      case None
      then have "i \<notin> route_id ` set s" using e by blast
      with None n d g [of i] show ?thesis
        by (auto simp: demo_caddy_def answers_def missing_def demo_view_def)
    next
      case (Some r)
      then have "i \<in> route_id ` set s" using e by (metis option.distinct(1))
      with Some n d f distinct_ids_filter [OF d] show ?thesis
        by (auto simp: demo_caddy_def demo_ok_reply_def answers_def succeeds_def demo_view_def)
    qed
  qed
  moreover have "\<forall>m path body. path \<in> {certs_path, automation_path} \<longrightarrow> answers demo_caddy demo_view m path body s (cv_table demo_view s)"
    using n d by (auto simp: demo_caddy_def answers_def demo_view_def)
  moreover have "\<forall>r. route_id (json_norm r) \<notin> set (map route_id (cv_table demo_view s)) \<longrightarrow>
      answers demo_caddy demo_view PUT first_route_path (Some r) s
        (if cv_loads demo_view r then json_norm r # cv_table demo_view s else cv_table demo_view s)"
    using n d by (auto simp: demo_caddy_def answers_def demo_view_def set_ids)
  moreover have "answers demo_caddy demo_view PATCH (id_path (route_id (json_norm r))) (Some r) s
      (if cv_loads demo_view r then map (\<lambda>x. if route_id x = route_id (json_norm r) then json_norm r else x) (cv_table demo_view s)
       else cv_table demo_view s)"
    if "route_id (json_norm r) \<noteq> ''''" "route_id (json_norm r) \<in> set (map route_id (cv_table demo_view s))" for r
  proof -
    let ?i = "route_id (json_norm r)" and ?f = "\<lambda>x. if route_id x = route_id (json_norm r) then json_norm r else x"
    have "find (\<lambda>x. route_id x = ?i) s \<noteq> None" using that(2) unfolding e by (simp add: demo_view_def)
    moreover have "map route_id (map ?f s) = map route_id s" by simp
    then have "ids (map ?f s) = ids s" unfolding ids_def by metis
    moreover have "map json_norm (map ?f s) = map ?f s" by (auto simp: map_norm_in [OF n])
    ultimately show ?thesis using n d by (auto simp: demo_caddy_def answers_def demo_view_def)
  qed
  ultimately show ?thesis using a b c unfolding writes_ok_def by blast
qed

lemma demo_caddy_ok: "caddy_ok demo_caddy demo_view"
  using demo_reads demo_writes by (auto simp: caddy_ok_def demo_view_def)

lemma demo_ready: "map json_norm s = s \<Longrightarrow> distinct (ids s) \<Longrightarrow> ready demo_caddy demo_view (new_proxy_client s)"
  using demo_caddy_ok by (auto simp: ready_def new_proxy_client_def demo_view_def)

lemma demo_servable: "p \<in> {''/'', ''/api''} \<Longrightarrow> servable demo_view demo_build_env (demo_cfg ''a.io'' p)"
  using demo_routes_valid demo_route_built
  by (auto simp: servable_def routes_valid_def demo_cfgs_def demo_view_def)

theorem ensure_route_establishes_witness:
  "\<exists>px'. ensure_route demo_caddy demo_build_env (demo_cfg ''a.io'' ''/api'') (new_proxy_client []) = (Inr True, px') \<and>
     table_entry demo_build_env (demo_cfg ''a.io'' ''/api'') \<in> set (px_caddy px') \<and>
     ensure_route demo_caddy demo_build_env (demo_cfg ''a.io'' ''/api'') px' = (Inr False, px')"
proof -
  have t: "cv_text demo_view r = ''''" "cv_table demo_view s = s" for r s by (simp_all add: demo_view_def)
  have u: "\<not> unknown_object ''''" by (simp add: unknown_object_def)
  have r: "ready demo_caddy demo_view (new_proxy_client [])" by (rule demo_ready) simp_all
  from ensure_route_establishes [OF r demo_servable, of "''/api''"] obtain ch px' where
    e: "ensure_route demo_caddy demo_build_env (demo_cfg ''a.io'' ''/api'') (new_proxy_client []) = (Inr ch, px')"
    "table_entry demo_build_env (demo_cfg ''a.io'' ''/api'') \<in> set (px_caddy px')"
    "ensure_route demo_caddy demo_build_env (demo_cfg ''a.io'' ''/api'') px' = (Inr False, px')"
    unfolding t using u by auto
  have "ch"
  proof (rule ccontr)
    assume "\<not> ch"
    have "px_caddy (new_proxy_client []) = ([] :: json list)" by (simp add: new_proxy_client_def)
    moreover have "ensure_route demo_caddy demo_build_env (demo_cfg ''a.io'' ''/api'') (new_proxy_client []) \<noteq> (Inr False, px')"
      if "px_caddy px' \<noteq> []"
      using that fetch_by_id_ready [OF r, of "cfg_id demo_build_env (demo_cfg ''a.io'' ''/api'')"]
      by (auto simp: ensure_route_def demo_route_built t new_proxy_client_def route_id_for_def split: prod.splits option.splits)
    moreover have "px_caddy px' \<noteq> []" using e(2) by force
    ultimately show False using e(1) \<open>\<not> ch\<close> by simp
  qed
  with e show ?thesis by auto
qed

section \<open>The dashboard's route settles\<close>

lemma dash_names [simp]: "fold_case ''handler'' = ''handler''" "fold_case ''upstreams'' = ''upstreams''" "fold_case ''dial'' = ''dial''"
  "fold_case ''routes'' = ''routes''" "fold_case ''health_checks'' = ''health_checks''"
  by code_simp+

lemma dash_order: "''handler'' \<le> ''upstreams''" "''handler'' \<le> ''routes''" by code_simp+

lemma probe_proxy_handle:
  "lenient_struct set_handle \<lparr>hp_handler = '''', hp_dials = []\<rparr> (json_norm (new_reverse_proxy_handle [up] '''')) =
     (\<lparr>hp_handler = ''reverse_proxy'', hp_dials = [up]\<rparr>, True)"
  by (simp add: new_reverse_proxy_handle_def norm_members_def put_member_def dash_order lenient_struct_def set_handle_def
      lenient_string_def lenient_list_def set_dial_def)

lemma probe_redirect_handle:
  "\<exists>ds. lenient_struct set_handle \<lparr>hp_handler = '''', hp_dials = []\<rparr> (json_norm https_redirect) =
     (\<lparr>hp_handler = ''subroute'', hp_dials = ds\<rparr>, True)"
proof -
  have "json_norm https_redirect = JObj [(''handler'', JStr ''subroute''),
      (''routes'', json_norm (JArr [JObj [(''match'', JArr [JObj [(''protocol'', JStr ''http'')]]),
        (''handle'', JArr [JObj ((''handler'', JStr ''static_response'') #
         [(''headers'', JObj [(''Location'', jstrs [''{http.request.scheme}s://{http.request.host}{http.request.uri}''])]),
      (''status_code'', JStr ''301'')])])]]))]"
    unfolding https_redirect_def subroute_def
    by (simp only: json_norm.simps(6)) (simp add: norm_members_def put_member_def dash_order)
  then show ?thesis by (simp add: lenient_struct_def set_handle_def lenient_string_def)
qed

lemma dashboard_of_own:
  "dashboard_of (json_norm (marshal_route (dashboard_route h force up))) =
     Some \<lparr>ds_host = h, ds_force = force, ds_upstream = up\<rparr>"
proof -
  let ?hs = "map json_norm (cr_handle (dashboard_route h force up))"
  let ?p = "lenient_struct set_handle \<lparr>hp_handler = '''', hp_dials = []\<rparr>"
  obtain ds where ds: "?p (json_norm https_redirect) = (\<lparr>hp_handler = ''subroute'', hp_dials = ds\<rparr>, True)"
    using probe_redirect_handle by blast
  have "lenient_struct set_dash_handles [] (json_norm (marshal_route (dashboard_route h force up))) =
      (map (fst \<circ> ?p) ?hs, list_all (snd \<circ> ?p) ?hs)"
    by (simp add: norm_marshal lenient_struct_def set_dash_handles_def lenient_list_def)
  then show ?thesis
    by (simp add: dashboard_of_def dashboard_route_def route_id_marshal table_probe_norm probe_hosts_def probes_of_def
        probe_proxy_handle ds)
qed

lemma dashboard_of_id: "dashboard_of r \<noteq> None \<Longrightarrow> route_id r = dashboard_route_id"
  by (auto simp: dashboard_of_def split: prod.splits if_splits)

lemma map_filter_Nil: "List.map_filter f xs = [] \<longleftrightarrow> (\<forall>x \<in> set xs. f x = None)"
  by (induction xs) (auto simp: map_filter_simps split: option.splits)

lemma map_filter_unique:
  assumes "mset (filter P xs) = {#x#}" "\<And>r. r \<in> set xs \<Longrightarrow> f r \<noteq> None \<Longrightarrow> P r" "f x = Some y"
  shows "List.map_filter f xs = [y]"
proof -
  have "size (mset (filter P xs)) = 1" unfolding assms(1) by simp
  then obtain z where z: "filter P xs = [z]" by (auto simp: length_Suc_conv simp del: mset_filter)
  with assms(1) have "z = x" by (simp del: mset_filter)
  moreover have "List.map_filter f xs = List.map_filter f (filter P xs)"
    using assms(2) by (induction xs) (auto simp: map_filter_simps split: option.splits)
  ultimately show ?thesis using assms(3) z by (simp add: map_filter_simps)
qed

lemma reorder_member_kind:
  assumes "map json_norm rs = rs" "r \<in> set (map json_norm (reorder_list up rs))"
  shows "is_domain_route r \<or> route_id r \<in> {waf_route_id, catch_all_route_id}"
proof -
  have c: "route_id (json_norm (marshal_route (catch_all_route up))) = catch_all_route_id"
    by (simp add: route_id_marshal catch_all_route_def)
  have w: "route_id (json_norm x) = i" if "last_with_id i rs = Some x" for i x
    using last_with_id_norm [OF assms(1) that] last_with_id_in [OF that] by simp
  have "set (map json_norm (sort_routes_by_specificity (filter is_domain_route rs))) = set (filter is_domain_route rs)"
    unfolding norm_filter_sort [OF assms(1)] by (simp add: sort_routes_by_specificity_def)
  then have d: "x \<in> set (sort_routes_by_specificity (filter is_domain_route rs)) \<Longrightarrow> is_domain_route (json_norm x)" for x
    by auto
  show ?thesis
    using assms(2) c w d by (auto simp: reorder_list_def split: option.splits)
qed

definition dashboard_now :: "json list \<Rightarrow> dashboard_state option" where
  "dashboard_now rs = (case List.map_filter dashboard_of rs of d # _ \<Rightarrow> Some d | [] \<Rightarrow> None)"

lemma dashboard_now_None: "dashboard_now rs = None \<longleftrightarrow> (\<forall>r \<in> set rs. dashboard_of r = None)"
  by (auto simp: dashboard_now_def map_filter_Nil [symmetric] split: list.splits)

lemma dashboard_now_Some: "dashboard_now rs = Some d \<Longrightarrow> \<exists>r \<in> set rs. dashboard_of r = Some d"
  by (induction rs) (auto simp: dashboard_now_def map_filter_simps split: option.splits list.splits)

lemma dashboard_state_ready:
  "ready http V px \<Longrightarrow> dashboard_route_state http px = (Inr (dashboard_now (table V px)), px)"
  by (simp add: dashboard_route_state_def fetch_raw_ready dashboard_now_def)

lemma filter_of_filter: "(\<And>x. P x \<Longrightarrow> Q x) \<Longrightarrow> filter P (filter Q xs) = filter P xs"
  by (induction xs) auto

lemma mset_two: "mset (filter (\<lambda>r. P r \<and> Q r) xs) = filter_mset Q (mset (filter P xs))"
  by (induction xs) auto

lemma dashboard_published:
  fixes h up d :: string and force :: bool
  assumes "map json_norm rs = rs" "\<forall>r \<in> set rs. route_id r \<noteq> dashboard_route_id" "h \<noteq> ''''"
  defines "T \<equiv> map json_norm (reorder_list up (rs @ [json_norm (marshal_route (dashboard_route h force d))]))"
  shows "dashboard_now T = Some \<lparr>ds_host = h, ds_force = force, ds_upstream = d\<rparr>"
    "mset (filter (\<lambda>r. is_domain_route r \<and> route_id r \<noteq> dashboard_route_id) T) = mset (filter is_domain_route rs)"
proof -
  let ?e = "json_norm (marshal_route (dashboard_route h force d))"
  have id: "route_id ?e = dashboard_route_id" by (simp add: route_id_marshal dashboard_route_def)
  have ne: "dashboard_route_id \<noteq> catch_all_route_id" "dashboard_route_id \<noteq> waf_route_id"
    by (simp_all add: dashboard_route_id_def catch_all_route_id_def waf_route_id_def)
  have "cr_match (dashboard_route h force d) = [\<lparr>cm_host = [h], cm_path = []\<rparr>]" by (simp add: dashboard_route_def)
  then have dom: "is_domain_route ?e"
    by (simp add: is_domain_route_def id ne table_probe_norm probe_hosts_def probes_of_def)
  have n: "map json_norm (rs @ [?e]) = rs @ [?e]" using assms(1) by simp
  have m: "mset (filter is_domain_route T) = mset (filter is_domain_route rs) + {#?e#}"
    using reorder_domain_entries [OF n, of up] dom by (simp add: T_def)
  have none: "filter_mset (\<lambda>r. route_id r = dashboard_route_id) (mset (filter is_domain_route rs)) = {#}"
    using assms(2) by (auto simp: mset_filter [symmetric] filter_empty_conv simp del: mset_filter)
  have all: "filter_mset (\<lambda>r. route_id r \<noteq> dashboard_route_id) (mset (filter is_domain_route rs)) = mset (filter is_domain_route rs)"
    using assms(2) by (subst mset_filter [symmetric], subst filter_True) auto
  have "mset (filter (\<lambda>r. is_domain_route r \<and> route_id r = dashboard_route_id) T) = {#?e#}"
    unfolding mset_two m by (simp only: filter_union_mset none) (simp add: id)
  moreover have "is_domain_route r \<and> route_id r = dashboard_route_id" if "r \<in> set T" "dashboard_of r \<noteq> None" for r
    using reorder_member_kind [OF n, of r up] that dashboard_of_id [OF that(2)]
    by (auto simp: T_def dashboard_route_id_def catch_all_route_id_def waf_route_id_def)
  ultimately have "List.map_filter dashboard_of T = [\<lparr>ds_host = h, ds_force = force, ds_upstream = d\<rparr>]"
    using dashboard_of_own by (rule map_filter_unique)
  then show "dashboard_now T = Some \<lparr>ds_host = h, ds_force = force, ds_upstream = d\<rparr>" by (simp add: dashboard_now_def)
  show "mset (filter (\<lambda>r. is_domain_route r \<and> route_id r \<noteq> dashboard_route_id) T) = mset (filter is_domain_route rs)"
    unfolding mset_two m by (simp only: filter_union_mset all) (simp add: id)
qed

lemma delete_dashboard:
  assumes "ready http V px"
  shows "\<exists>b px'. (if c then delete_route_by_id http dashboard_route_id px else (Inr False, px)) = (Inr b, px') \<and>
    same_client px px' \<and> (c \<longrightarrow> leaves http V px' (filter (\<lambda>r. route_id r \<noteq> dashboard_route_id) (table V px))) \<and>
    (\<not> c \<longrightarrow> px' = px)"
  using delete_ready [OF assms, of dashboard_route_id] by (auto simp: dashboard_route_id_def)

lemma dashboard_settles:
  assumes "ready http V px" and "h \<noteq> '''' \<Longrightarrow> cv_loads V (marshal_route (dashboard_route h (m \<noteq> ''off'') (px_dashboard px)))"
    and "\<forall>r \<in> set (table V px). route_id r = dashboard_route_id \<longrightarrow> (\<exists>d. dashboard_of r = Some d \<and> ds_host d \<noteq> '''')"
  shows "\<exists>px'. set_dashboard_route http h m px = (None, px') \<and> ready http V px' \<and>
     set_dashboard_route http h m px' = (None, px') \<and>
     dashboard_now (table V px') = (if h = '''' then None
       else Some \<lparr>ds_host = h, ds_force = (m \<noteq> ''off''), ds_upstream = px_dashboard px\<rparr>) \<and>
     mset (filter (\<lambda>r. is_domain_route r \<and> route_id r \<noteq> dashboard_route_id) (table V px')) =
       mset (filter (\<lambda>r. is_domain_route r \<and> route_id r \<noteq> dashboard_route_id) (table V px)) \<and>
     px_dashboard px' = px_dashboard px \<and>
     (\<forall>x \<in> set (table V px'). x \<in> set (table V px) \<or>
       (h \<noteq> '''' \<and> x = json_norm (marshal_route (dashboard_route h (m \<noteq> ''off'') (px_dashboard px)))) \<or>
       x = json_norm (marshal_route (catch_all_route (px_dashboard px))))"
proof -
  let ?rs = "table V px"
  let ?want = "\<lparr>ds_host = h, ds_force = (m \<noteq> ''off''), ds_upstream = px_dashboard px\<rparr>"
  have n: "map json_norm ?rs = ?rs" using ready_table [OF assms(1)] by (simp add: table_ok_def)
  have again: "set_dashboard_route http h m q = (None, q)"
    if "ready http V q" "dashboard_now (table V q) = Some \<lparr>ds_host = h, ds_force = (m \<noteq> ''off''), ds_upstream = px_dashboard q\<rparr>" for q
    using that by (simp add: set_dashboard_route_def dashboard_state_ready Let_def)
  have gone: "set_dashboard_route http h m q = (None, q)"
    if "ready http V q" "dashboard_now (table V q) = None" "h = ''''" for q
    using that by (simp add: set_dashboard_route_def dashboard_state_ready Let_def)
  show ?thesis
  proof (cases "dashboard_now ?rs = Some ?want")
    case True
    then obtain r where r: "r \<in> set ?rs" "dashboard_of r = Some ?want" using dashboard_now_Some by blast
    then have "route_id r = dashboard_route_id" using dashboard_of_id [of r] by simp
    with r assms(3) have "h \<noteq> ''''" by fastforce
    with again [OF assms(1) True] True assms(1) show ?thesis by auto
  next
    case False
    let ?c = "dashboard_now ?rs \<noteq> None"
    let ?rs1 = "filter (\<lambda>r. route_id r \<noteq> dashboard_route_id) ?rs"
    from delete_dashboard [OF assms(1), of ?c] obtain b px1 where
      d: "(if ?c then delete_route_by_id http dashboard_route_id px else (Inr False, px)) = (Inr b, px1)"
      and sc: "same_client px px1"
      and l: "?c \<longrightarrow> leaves http V px1 ?rs1" "\<not> ?c \<longrightarrow> px1 = px" by blast
    have l1: "leaves http V px1 ?rs1"
    proof (cases ?c)
      case False
      then have "\<forall>r \<in> set ?rs. dashboard_of r = None" by (simp add: dashboard_now_None)
      with assms(3) have "\<forall>r \<in> set ?rs. route_id r \<noteq> dashboard_route_id" by fastforce
      then have "?rs1 = ?rs" by (auto simp: filter_id_conv)
      with False l(2) assms(1) show ?thesis by (simp add: leaves_def)
    qed (use l in blast)
    have up1: "px_dashboard px1 = px_dashboard px" using sc by (simp add: same_client_def)
    have set1: "set_dashboard_route http h m px = (if h = '''' then (None, px1)
        else post_route http (dashboard_route h (m \<noteq> ''off'') (px_dashboard px)) px1)"
      using False d up1 by (simp add: set_dashboard_route_def dashboard_state_ready [OF assms(1)] Let_def)
    have apps: "mset (filter (\<lambda>r. is_domain_route r \<and> route_id r \<noteq> dashboard_route_id) ?rs1) =
        mset (filter (\<lambda>r. is_domain_route r \<and> route_id r \<noteq> dashboard_route_id) ?rs)"
      by (rule arg_cong [where f = mset], rule filter_of_filter) simp
    show ?thesis
    proof (cases "h = ''''")
      case True
      have "dashboard_now ?rs1 = None"
        unfolding dashboard_now_None
      proof
        fix r assume "r \<in> set ?rs1"
        then show "dashboard_of r = None" using dashboard_of_id [of r] by (cases "dashboard_of r") auto
      qed
      with gone [OF leaves_ready [OF l1]] True set1 apps leaves_table [OF l1] leaves_ready [OF l1] up1
      show ?thesis by (auto simp del: mset_filter)
    next
      case h: False
      let ?d = "dashboard_route h (m \<noteq> ''off'') (px_dashboard px)"
      have n1: "map json_norm ?rs1 = ?rs1" by (rule map_idI) (auto dest: map_norm_in [OF n])
      have "cr_id ?d \<notin> route_id ` set ?rs1" by (auto simp: dashboard_route_def)
      from post_route_ready [OF l1 assms(2) [OF h] this] up1 obtain px' where
        p: "post_route http ?d px1 = (None, px')" "same_client px1 px'"
        "leaves http V px' (map json_norm (reorder_list (px_dashboard px) (?rs1 @ [json_norm (marshal_route ?d)])))" by auto
      have "\<forall>r \<in> set ?rs1. route_id r \<noteq> dashboard_route_id" by simp
      note pub = dashboard_published [OF n1 this h, of "px_dashboard px" "m \<noteq> ''off''" "px_dashboard px"]
      have now: "dashboard_now (table V px') = Some ?want" using pub(1) leaves_table [OF p(3)] by simp
      have keep: "px_dashboard px' = px_dashboard px" using p(2) up1 by (simp add: same_client_def)
      have mem: "x \<in> set ?rs \<or> x = json_norm (marshal_route ?d) \<or> x = json_norm (marshal_route (catch_all_route (px_dashboard px)))"
        if "x \<in> set (table V px')" for x
        using added_members [OF n] that leaves_table [OF p(3)] by auto
      from keep again [OF leaves_ready [OF p(3)]] now have "set_dashboard_route http h m px' = (None, px')" by simp
      moreover have "mset (filter (\<lambda>r. is_domain_route r \<and> route_id r \<noteq> dashboard_route_id) (table V px')) =
          mset (filter (\<lambda>r. is_domain_route r \<and> route_id r \<noteq> dashboard_route_id) ?rs)"
      proof -
        have "filter is_domain_route ?rs1 = filter (\<lambda>r. is_domain_route r \<and> route_id r \<noteq> dashboard_route_id) ?rs"
          by (simp add: conj_commute)
        then show ?thesis using pub(2) leaves_table [OF p(3)] by (simp del: mset_filter)
      qed
      ultimately show ?thesis using set1 h p(1) now leaves_ready [OF p(3)] keep mem by (auto simp del: mset_filter)
    qed
  qed
qed

text \<open>
  publishing the dashboard settles. Against a Caddy that is up and whose route under the
  dashboard's id, if any, has a host, setting the dashboard's route succeeds, leaves every application
  route as it was and the dashboard's as asked, or gone for an empty hostname; and asking for it again
  changes nothing, so the pass that runs it every thirty seconds does not reload Caddy.
\<close>
theorem dashboard_route_settles:
  assumes "ready http V px" and "cv_loads V (marshal_route (dashboard_route h (m \<noteq> ''off'') (px_dashboard px)))"
    and "\<forall>r \<in> set (table V px). route_id r = dashboard_route_id \<longrightarrow> (\<exists>d. dashboard_of r = Some d \<and> ds_host d \<noteq> '''')"
  shows "\<exists>px'. set_dashboard_route http h m px = (None, px') \<and> ready http V px' \<and>
     set_dashboard_route http h m px' = (None, px') \<and>
     dashboard_now (table V px') = (if h = '''' then None
       else Some \<lparr>ds_host = h, ds_force = (m \<noteq> ''off''), ds_upstream = px_dashboard px\<rparr>) \<and>
     mset (filter (\<lambda>r. is_domain_route r \<and> route_id r \<noteq> dashboard_route_id) (table V px')) =
       mset (filter (\<lambda>r. is_domain_route r \<and> route_id r \<noteq> dashboard_route_id) (table V px))"
  using dashboard_settles [OF assms] by blast

theorem dashboard_route_settles_witness:
  "\<exists>px'. set_dashboard_route demo_caddy ''panel.io'' ''automatic'' (new_proxy_client []) = (None, px') \<and>
     set_dashboard_route demo_caddy ''panel.io'' ''automatic'' px' = (None, px') \<and>
     dashboard_now (px_caddy px') = Some \<lparr>ds_host = ''panel.io'', ds_force = True, ds_upstream = default_dashboard_upstream\<rparr>"
proof -
  have v: "cv_loads demo_view r" "cv_table demo_view s = s" for r s by (simp_all add: demo_view_def)
  have c: "px_caddy (new_proxy_client ([] :: json list)) = []" "px_dashboard (new_proxy_client ([] :: json list)) = default_dashboard_upstream"
    by (simp_all add: new_proxy_client_def)
  have r: "ready demo_caddy demo_view (new_proxy_client [])" by (rule demo_ready) simp_all
  from dashboard_route_settles [OF r v(1), of "''panel.io''" "''automatic''"] show ?thesis
    unfolding v c by auto
qed

section \<open>Where the client falls short\<close>

text \<open>
  removing one path exposes its siblings to certificate issuance. Removing the route of a path
  drops the hostname from both exclusion sets although the other paths of that hostname keep their
  routes, so a host served with TLS off, or with an uploaded certificate, is under automatic HTTPS
  until the reconciler's next pass.
\<close>
theorem removing_a_path_unskips_the_host:
  assumes "ready http V px" and "cfg_id env c \<in> route_id ` set (table V px)"
    and "table_entry env d \<in> set (table V px)" and "rc_host d = rc_host c"
    and "route_id (table_entry env d) \<noteq> cfg_id env c"
  shows "\<exists>px'. remove_route http env (rc_host c) (rc_path c) px = (None, px') \<and>
     table_entry env d \<in> set (table V px') \<and> rc_host d \<notin> px_skip px' \<and> rc_host d \<notin> px_skip_certs px'"
proof -
  let ?i = "cfg_id env c"
  have i: "?i \<noteq> ''''" by (simp add: route_id_for_def)
  from delete_ready [OF assms(1) i] assms(2) obtain px1 where
    d: "delete_route_by_id http ?i px = (Inr True, px1)"
    and l: "leaves http V px1 (filter (\<lambda>r. route_id r \<noteq> ?i) (table V px))" by auto
  obtain ch px2 where f: "forget_host (rc_host c) px1 = (ch, px2)" by fastforce
  then have l2: "leaves http V px2 (filter (\<lambda>r. route_id r \<noteq> ?i) (table V px))"
    and s2: "rc_host c \<notin> px_skip px2 \<and> rc_host c \<notin> px_skip_certs px2"
    using l by (auto simp: forget_host_def set_membership_def split: prod.splits if_splits)
  let ?px = "if ch then snd (ensure_server http None px2) else px2"
  have p: "leaves http V ?px (filter (\<lambda>r. route_id r \<noteq> ?i) (table V px))" "px_skip ?px = px_skip px2" "px_skip_certs ?px = px_skip_certs px2"
    using ensure_server_ready [OF leaves_ready [OF l2]] l2 leaves_table [OF l2] by (auto simp: same_client_def)
  have "remove_route http env (rc_host c) (rc_path c) px = (None, ?px)"
    using d f by (simp add: remove_route_def)
  moreover have "table_entry env d \<in> set (table V ?px)"
    unfolding leaves_table [OF p(1)] using assms(3,5) by simp
  ultimately show ?thesis
    using s2 p(2,3) assms(4) by (intro exI [of _ ?px]) simp
qed

theorem removing_a_path_unskips_the_host_witness:
  "\<exists>px'. remove_route demo_caddy demo_build_env ''a.io'' ''/api''
       ((new_proxy_client (map (table_entry demo_build_env) demo_cfgs))\<lparr>px_skip := {''a.io''}\<rparr>) = (None, px') \<and>
     table_entry demo_build_env (demo_cfg ''a.io'' ''/'') \<in> set (px_caddy px') \<and> ''a.io'' \<notin> px_skip px'"
proof -
  let ?s = "map (table_entry demo_build_env) demo_cfgs"
  let ?px = "(new_proxy_client ?s)\<lparr>px_skip := {''a.io''}\<rparr>"
  have id: "route_id (table_entry demo_build_env (demo_cfg h p)) = route_id_for (be_sha demo_build_env) h p" for h p
    by (simp add: demo_entry route_id_marshal demo_route_fields)
  have ne: "route_id_for (be_sha demo_build_env) ''a.io'' ''/'' \<noteq> route_id_for (be_sha demo_build_env) ''a.io'' ''/api''"
    using demo_ids by (auto simp: prefix_def)
  have nn: "route_id_for sha h p \<noteq> ''''" for sha h p by (simp add: route_id_for_def)
  have n: "map json_norm ?s = ?s" by (simp add: demo_cfgs_def demo_entry)
  have i: "distinct (ids ?s)" using ne nn by (auto simp: demo_cfgs_def id)
  have r: "ready demo_caddy demo_view ?px"
    using demo_ready [OF n i] by (simp add: ready_def)
  have v: "cv_table demo_view s = s" for s by (simp add: demo_view_def)
  have c: "px_caddy ?px = ?s" by (simp add: new_proxy_client_def)
  have h: "rc_host (demo_cfg h p) = h" "rc_path (demo_cfg h p) = p" for h p by (simp_all add: demo_cfg_def)
  have m: "table_entry demo_build_env (demo_cfg ''a.io'' ''/'') \<in> set ?s" "cfg_id demo_build_env (demo_cfg ''a.io'' ''/api'') \<in> route_id ` set ?s"
    by (simp_all add: demo_cfgs_def id h)
  from removing_a_path_unskips_the_host [OF r, of demo_build_env "demo_cfg ''a.io'' ''/api''" "demo_cfg ''a.io'' ''/''"] m ne
  show ?thesis unfolding v c h id by auto
qed

text \<open>
  a refused certificate looks loaded. Once the certificates in Caddy could be listed, setting up a
  custom certificate reports success whatever Caddy answers to the write, a refusal or no answer
  included, so the sink that is to mark the domain's TLS as broken is never called.
\<close>
theorem refused_certificate_is_silent:
  assumes "fst (list_pem_certs http px) = Inr current" and "cert \<noteq> ''''" and "key \<noteq> ''''"
  shows "fst (setup_tls http h ''custom'' cert key px) = None"
proof -
  have "fst (write_pem_certs http cs q) = None" for cs q
    by (simp add: write_pem_certs_def put_or_patch_config_def split: prod.splits)
  with assms show ?thesis
    by (auto simp: setup_tls_def load_pem_cert_def split: prod.splits)
qed

definition refusing_caddy :: "json list caddy" where
  "refusing_caddy m path body s = (if m = GET then (Reply 404 RawEmpty '''', s) else (Reply 400 RawEmpty ''bad certificate'', s))"

theorem refused_certificate_is_silent_witness:
  "fst (setup_tls refusing_caddy ''a.io'' ''custom'' ''CERT'' ''KEY'' (new_proxy_client [])) = None \<and>
   fst (send_json refusing_caddy PUT certs_path JNull (new_proxy_client [])) = Some (Refused 400)"
proof -
  have "fst (list_pem_certs refusing_caddy (new_proxy_client [])) = Inr []"
    by (simp add: list_pem_certs_def request_def refusing_caddy_def new_proxy_client_def)
  from refused_certificate_is_silent [OF this, of "''CERT''" "''KEY''" "''a.io''"]
  show ?thesis by (simp add: send_json_def request_def refusing_caddy_def new_proxy_client_def)
qed

text \<open>
  an absent server crashes the API. Where Caddy answers the read of \<open>srv0\<close> with \<open>null\<close>, as it does for
  a member that is not there, synchronising automatic HTTPS writes into a nil map: a panic, with no
  request sent after it.
\<close>
theorem absent_server_crashes:
  assumes "\<not> px_dead px" and "http GET server_path None (px_caddy px) = (Reply 200 (Raw JNull) t, s)"
  shows "fst (sync_auto_https http skip certs px) = Some Crashed \<and>
    (\<forall>m path body. fst (request http m path body (snd (sync_auto_https http skip certs px))) = NoAnswer)"
  using assms by (simp add: sync_auto_https_def ensure_server_def fetch_server_def request_def)

theorem absent_server_crashes_witness:
  "fst (sync_auto_https (\<lambda>m path body s. (Reply 200 (Raw JNull) ''null'', s)) [] [] (new_proxy_client (0 :: int))) = Some Crashed"
  using absent_server_crashes [of "new_proxy_client (0 :: int)" "\<lambda>m path body s. (Reply 200 (Raw JNull) ''null'', s)" "''null''" 0 "[]" "[]"]
  by (simp add: new_proxy_client_def)

end
