(* ===== verification/Capability.thy ===== *)
theory Capability
  imports Prelude
begin

text \<open>
  Which modules the running Caddy has (\<open>internal/proxy/capability\<close>): the probe of the container, its
  cache, and the questions asked of the answer. The container runtime is a parameter: each call meets
  one answer of its three methods. A \<open>Set\<close> is a list without regard to order or repetition.
\<close>

section \<open>Sets of modules\<close>

type_synonym modules = "string list"

definition module_rate_limit :: string where "module_rate_limit = ''http.handlers.rate_limit''"
definition module_waf :: string where "module_waf = ''http.handlers.waf''"
definition module_crowdsec :: string where "module_crowdsec = ''http.handlers.crowdsec''"
definition module_layer4 :: string where "module_layer4 = ''layer4''"

definition dns_provider_modules :: "string list" where
  "dns_provider_modules = [''dns.providers.cloudflare'', ''dns.providers.route53'', ''dns.providers.digitalocean'']"

definition cap_known :: "modules \<Rightarrow> bool" where
  "cap_known s \<longleftrightarrow> s \<noteq> []"

definition cap_ids :: "modules \<Rightarrow> string list" where
  "cap_ids s = sort (remdups s)"

definition cap_has :: "modules \<Rightarrow> string \<Rightarrow> bool" where
  "cap_has s m \<longleftrightarrow> m \<in> set s"

definition cap_dns01 :: "modules \<Rightarrow> bool" where
  "cap_dns01 s \<longleftrightarrow> list_ex (cap_has s) dns_provider_modules"

definition cap_waf :: "modules \<Rightarrow> bool" where
  "cap_waf s = cap_has s module_waf"

section \<open>The probe\<close>

record container_info =
  ci_id :: string
  ci_name :: string

record runtime_answer =
  ra_system :: "string + container_info list"
  ra_all :: "string + container_info list"
  ra_exec :: "string + (int \<times> string)"

datatype probe_error = ListingFailed | ContainerNotFound | ExecFailed | ExitCode int | NoModules

record prober =
  pr_name :: string
  pr_cached_id :: string
  pr_cached :: modules

definition new_prober :: "string \<Rightarrow> prober" where
  "new_prober name = \<lparr>pr_name = name, pr_cached_id = '''', pr_cached = []\<rparr>"

definition find_container_in :: "container_info list \<Rightarrow> string \<Rightarrow> container_info option" where
  "find_container_in cs name = find (\<lambda>c. ci_name c = name \<and> ci_id c \<noteq> '''') cs"

definition find_container :: "runtime_answer \<Rightarrow> string \<Rightarrow> probe_error + container_info" where
  "find_container rt name =
     (case ra_system rt of
        Inl _ \<Rightarrow> Inl ListingFailed
      | Inr cs \<Rightarrow>
          (case find_container_in cs name of
             Some c \<Rightarrow> Inr c
           | None \<Rightarrow>
               (case ra_all rt of
                  Inl _ \<Rightarrow> Inl ListingFailed
                | Inr all \<Rightarrow> (case find_container_in all name of Some c \<Rightarrow> Inr c | None \<Rightarrow> Inl ContainerNotFound))))"

definition word_char :: "char \<Rightarrow> bool" where
  "word_char c \<longleftrightarrow> c = CHR ''_'' \<or>
     (let n = (of_char c :: nat) in (48 \<le> n \<and> n \<le> 57) \<or> (65 \<le> n \<and> n \<le> 90) \<or> (97 \<le> n \<and> n \<le> 122))"

definition module_id_pattern :: "string \<Rightarrow> bool" where
  "module_id_pattern s \<longleftrightarrow> list_all (\<lambda>p. p \<noteq> '''' \<and> list_all word_char p) (split_on CHR ''.'' s)"

definition parse_modules :: "string \<Rightarrow> modules" where
  "parse_modules out = filter module_id_pattern (map trim_space (split_on CHR 0x0A out))"

definition probe :: "runtime_answer \<Rightarrow> prober \<Rightarrow> (probe_error + modules) \<times> prober" where
  "probe rt p =
     (case find_container rt (pr_name p) of
        Inl e \<Rightarrow> (Inl e, p)
      | Inr c \<Rightarrow>
          if ci_id c = pr_cached_id p then (Inr (pr_cached p), p)
          else case ra_exec rt of
            Inl _ \<Rightarrow> (Inl ExecFailed, p)
          | Inr (exit, out) \<Rightarrow>
              if exit \<noteq> 0 then (Inl (ExitCode exit), p)
              else let s = parse_modules out
                   in if s = [] then (Inl NoModules, p)
                      else (Inr s, p\<lparr>pr_cached_id := ci_id c, pr_cached := s\<rparr>))"

definition capabilities :: "runtime_answer \<Rightarrow> prober \<Rightarrow> modules \<times> prober" where
  "capabilities rt p = (case probe rt p of (Inl _, p) \<Rightarrow> ([], p) | (Inr s, p) \<Rightarrow> (s, p))"

section \<open>The cache answers for the container that runs\<close>

definition probe_run :: "prober \<Rightarrow> runtime_answer list \<Rightarrow> prober" where
  "probe_run = foldl (\<lambda>p rt. snd (capabilities rt p))"

text \<open>\<open>reported h c s\<close>: some answer in \<open>h\<close> ran \<open>list-modules\<close> in container \<open>c\<close> with success and it printed \<open>s\<close>.\<close>

definition reported :: "string \<Rightarrow> runtime_answer list \<Rightarrow> string \<Rightarrow> modules \<Rightarrow> bool" where
  "reported name h c s \<longleftrightarrow> list_ex (\<lambda>rt.
     (case find_container rt name of Inr ci \<Rightarrow> ci_id ci = c | Inl _ \<Rightarrow> False) \<and>
     (case ra_exec rt of Inr (exit, out) \<Rightarrow> exit = 0 \<and> parse_modules out = s \<and> s \<noteq> [] | Inl _ \<Rightarrow> False)) h"

definition cache_ok :: "runtime_answer list \<Rightarrow> prober \<Rightarrow> bool" where
  "cache_ok h p \<longleftrightarrow> pr_cached_id p = '''' \<or> reported (pr_name p) h (pr_cached_id p) (pr_cached p)"

lemma find_container_id: "find_container rt name = Inr c \<Longrightarrow> ci_id c \<noteq> ''''"
  by (auto simp: find_container_def find_container_in_def find_Some_iff split: sum.splits option.splits)

lemma reported_append: "reported n h c s \<or> reported n h' c s \<Longrightarrow> reported n (h @ h') c s"
  by (auto simp: reported_def)

lemma probe_cache:
  assumes "cache_ok h p"
  shows "cache_ok (h @ [rt]) (snd (capabilities rt p)) \<and> pr_name (snd (capabilities rt p)) = pr_name p \<and>
    (fst (capabilities rt p) \<noteq> [] \<longrightarrow> (\<exists>c. find_container rt (pr_name p) = Inr c \<and>
       reported (pr_name p) (h @ [rt]) (ci_id c) (fst (capabilities rt p))))"
proof (cases "fst (probe rt p)")
  case (Inl e)
  then have "capabilities rt p = ([], p)"
    by (auto simp: probe_def capabilities_def Let_def split: sum.splits if_splits)
  with assms show ?thesis by (auto simp: cache_ok_def intro: reported_append)
next
  case (Inr s)
  then obtain c where f: "find_container rt (pr_name p) = Inr c"
    by (auto simp: probe_def split: sum.splits)
  note ne = find_container_id [OF f]
  show ?thesis
  proof (cases "ci_id c = pr_cached_id p")
    case True
    with f have "capabilities rt p = (pr_cached p, p)" by (simp add: capabilities_def probe_def)
    with assms f True ne show ?thesis by (auto simp: cache_ok_def intro: reported_append)
  next
    case False
    with Inr f obtain out where x: "ra_exec rt = Inr (0, out)" "s = parse_modules out" "s \<noteq> []"
      by (auto simp: probe_def Let_def split: sum.splits if_splits)
    with f False have "capabilities rt p = (s, p\<lparr>pr_cached_id := ci_id c, pr_cached := s\<rparr>)"
      by (simp add: capabilities_def probe_def Let_def)
    moreover have "reported (pr_name p) (h @ [rt]) (ci_id c) s"
      using f x by (simp add: reported_def)
    ultimately show ?thesis using f by (simp add: cache_ok_def)
  qed
qed

lemma run_cache:
  "cache_ok (h @ rts) (probe_run p rts) \<and> pr_name (probe_run p rts) = pr_name p" if "cache_ok h p"
  using that
proof (induction rts arbitrary: h p)
  case (Cons rt rts)
  then have "cache_ok (h @ [rt]) (snd (capabilities rt p))" "pr_name (snd (capabilities rt p)) = pr_name p"
    using probe_cache by blast+
  with Cons.IH [of "h @ [rt]" "snd (capabilities rt p)"] show ?case by (simp add: probe_run_def)
qed (simp add: probe_run_def)

text \<open>
  a capability is never invented. After any history of runtime answers, a non-empty capability set
  is exactly what a successful \<open>list-modules\<close> printed in the container that runs now, then or earlier
  under the same container id; every failure answers the empty set and is not remembered.
\<close>
theorem capabilities_are_probed:
  "(let p = probe_run (new_prober name) h; (s, p') = capabilities rt p
    in s = [] \<or> (\<exists>c. find_container rt name = Inr c \<and> reported name (h @ [rt]) (ci_id c) s)) \<and>
   (case fst (probe rt p0) of Inl _ \<Rightarrow> capabilities rt p0 = ([], p0) | Inr _ \<Rightarrow> True)"
proof -
  have "cache_ok [] (new_prober name)" by (simp add: cache_ok_def new_prober_def)
  from run_cache [OF this, of h] have c: "cache_ok h (probe_run (new_prober name) h)" "pr_name (probe_run (new_prober name) h) = name"
    by (simp_all add: new_prober_def)
  from probe_cache [OF c(1), of rt] c(2) have
    "fst (capabilities rt (probe_run (new_prober name) h)) \<noteq> [] \<longrightarrow> (\<exists>c. find_container rt name = Inr c \<and>
       reported name (h @ [rt]) (ci_id c) (fst (capabilities rt (probe_run (new_prober name) h))))"
    by simp
  moreover have "case fst (probe rt p0) of Inl _ \<Rightarrow> capabilities rt p0 = ([], p0) | Inr _ \<Rightarrow> True"
    by (auto simp: probe_def capabilities_def Let_def split: sum.splits if_splits)
  ultimately show ?thesis by (auto simp: Let_def split: prod.splits)
qed

end
