(* ===== verification/Dns.thy ===== *)
theory Dns
  imports CaddyAdmin Capability Authz
begin

text \<open>
  TLS over the DNS challenge (\<open>internal/proxy/dns.go\<close>, \<open>dns_plan.go\<close>, \<open>internal/proxy/caddy/tls.go\<close>,
  \<open>internal/handler/dns_providers.go\<close>): the providers and their credentials, the plan of automation
  policies from the domains, and its synchronisation into Caddy's list.

  A map of credentials is an association list; where Go's map order decides which of several errors is
  reported, the list's order does here. \<open>dec\<close> is the keyring's decryption, \<open>parse\<close> the JSON parser.
\<close>

section \<open>Providers\<close>

record dns_provider_spec =
  sp_name :: string
  sp_module :: string
  sp_required :: "string list"
  sp_optional :: "string list"

definition no_spec :: dns_provider_spec where
  "no_spec = \<lparr>sp_name = '''', sp_module = '''', sp_required = [], sp_optional = []\<rparr>"

definition dns_providers :: "(string \<times> dns_provider_spec) list" where
  "dns_providers =
     [(''cloudflare'', \<lparr>sp_name = ''cloudflare'', sp_module = ''dns.providers.cloudflare'',
         sp_required = [''api_token''], sp_optional = [''zone_token'']\<rparr>),
      (''digitalocean'', \<lparr>sp_name = ''digitalocean'', sp_module = ''dns.providers.digitalocean'',
         sp_required = [''auth_token''], sp_optional = []\<rparr>),
      (''route53'', \<lparr>sp_name = ''route53'', sp_module = ''dns.providers.route53'',
         sp_required = [''access_key_id'', ''secret_access_key''],
         sp_optional = [''session_token'', ''region'', ''hosted_zone_id'']\<rparr>)]"

definition provider_spec :: "string \<Rightarrow> dns_provider_spec" where
  "provider_spec p = (case map_of dns_providers p of Some s \<Rightarrow> s | None \<Rightarrow> no_spec)"

definition max_dns_credential_len :: nat where "max_dns_credential_len = 2048"

datatype credential_error = UnknownField string | TooLong string | LineBreak string | MissingField string

fun normalize_fields :: "dns_provider_spec \<Rightarrow> (string \<times> string) list \<Rightarrow> (string \<times> string) list \<Rightarrow>
    credential_error + (string \<times> string) list" where
  "normalize_fields s [] out = Inr out"
| "normalize_fields s ((k, v0) # fs) out =
     (if k \<notin> set (sp_required s) \<and> k \<notin> set (sp_optional s) then Inl (UnknownField k)
      else let v = trim_space v0 in
        if v = '''' then normalize_fields s fs out
        else if length v > max_dns_credential_len then Inl (TooLong k)
        else if list_ex (\<lambda>c. c \<in> set v) [CHR 0x0D, CHR 0x0A, CHR 0x00] then Inl (LineBreak k)
        else normalize_fields s fs (put_member k v out))"

definition normalize_credentials :: "dns_provider_spec \<Rightarrow> (string \<times> string) list \<Rightarrow>
    credential_error + (string \<times> string) list" where
  "normalize_credentials s fs =
     res_bind (normalize_fields s fs []) (\<lambda>out.
       case find (\<lambda>k. map_of out k = None) (sp_required s) of
         Some k \<Rightarrow> Inl (MissingField k)
       | None \<Rightarrow> Inr out)"

record dns_policy =
  dp_id :: string
  dp_provider :: string
  dp_subjects :: "string list"
  dp_creds :: "(string \<times> string) list"

definition policy_id_prefix :: string where "policy_id_prefix = ''belune-dns01-''"

definition caddy_policy :: "dns_policy \<Rightarrow> json" where
  "caddy_policy p = JObj
     [(''@id'', JStr (policy_id_prefix @ dp_id p)),
      (''subjects'', jstrs (sort (dp_subjects p))),
      (''issuers'', JArr [JObj [(''module'', JStr ''acme''),
         (''challenges'', JObj [(''dns'', JObj [(''provider'',
            JObj (fold (\<lambda>(k, v). put_member k (JStr v)) (dp_creds p) [(''name'', JStr (dp_provider p))]))])])]])]"

definition decode_credentials :: "raw_json \<Rightarrow> (string \<times> string) list option" where
  "decode_credentials raw =
     (case raw of
        Raw JNull \<Rightarrow> Some []
      | Raw (JObj ms) \<Rightarrow> decode_all (\<lambda>(k, v). map_option (Pair k) (decode_string '''' v)) (fold (\<lambda>(k, v). put_member k v) ms [])
      | _ \<Rightarrow> None)"

definition decrypt_dns_credentials :: "(bytes \<Rightarrow> bytes option) \<Rightarrow> (bytes \<Rightarrow> raw_json) \<Rightarrow> bytes \<Rightarrow> (string \<times> string) list option" where
  "decrypt_dns_credentials dec parse enc = (case dec enc of None \<Rightarrow> None | Some raw \<Rightarrow> decode_credentials (parse raw))"

section \<open>The plan\<close>

record degradation =
  dg_host :: string
  dg_path :: string
  dg_feature :: string
  dg_module :: string
  dg_reason :: string
  dg_since :: instant

definition feature_dns_challenge :: string where "feature_dns_challenge = ''dns_challenge''"
definition reason_no_provider :: string where "reason_no_provider = ''no_provider''"
definition reason_module_absent :: string where "reason_module_absent = ''module_absent''"
definition reason_modules_unknown :: string where "reason_modules_unknown = ''modules_unknown''"

record dns_row =
  dr_host :: string
  dr_path :: string
  dr_provider_id :: "uuid option"
  dr_provider :: string
  dr_creds :: bytes

definition dns_degradation :: "dns_row \<Rightarrow> string \<Rightarrow> string \<Rightarrow> degradation" where
  "dns_degradation row m why = \<lparr>dg_host = dr_host row, dg_path = dr_path row, dg_feature = feature_dns_challenge,
     dg_module = m, dg_reason = why, dg_since = 0\<rparr>"

record plan_state =
  pl_policies :: "(string \<times> dns_policy) list"
  pl_degraded :: "degradation list"
  pl_failed :: bool

definition add_subject :: "string \<Rightarrow> dns_policy \<Rightarrow> dns_policy" where
  "add_subject h p = (if h \<in> set (dp_subjects p) then p else p\<lparr>dp_subjects := dp_subjects p @ [h]\<rparr>)"

definition plan_row :: "(bytes \<Rightarrow> (string \<times> string) list option) \<Rightarrow> modules option \<Rightarrow> dns_row \<Rightarrow> plan_state \<Rightarrow> plan_state" where
  "plan_row creds caps row st =
     (let reason = (case caps of Some s \<Rightarrow> if cap_known s then reason_module_absent else reason_modules_unknown
                    | None \<Rightarrow> reason_module_absent);
          degrade = (\<lambda>m why. st\<lparr>pl_degraded := pl_degraded st @ [dns_degradation row m why]\<rparr>)
      in case dr_provider_id row of
        None \<Rightarrow> degrade '''' reason_no_provider
      | Some u \<Rightarrow>
          let spec = provider_spec (dr_provider row); i = uuid_string u
          in if (case caps of Some s \<Rightarrow> \<not> cap_has s (sp_module spec) | None \<Rightarrow> False)
             then degrade (sp_module spec) reason
             else case map_of (pl_policies st) i of
               Some p \<Rightarrow> st\<lparr>pl_policies := put_member i (add_subject (dr_host row) p) (pl_policies st)\<rparr>
             | None \<Rightarrow>
                 (case creds (dr_creds row) of
                    None \<Rightarrow> (degrade (sp_module spec) ''credentials_unreadable'')\<lparr>pl_failed := True\<rparr>
                  | Some cs \<Rightarrow> st\<lparr>pl_policies := put_member i
                      (add_subject (dr_host row) \<lparr>dp_id = i, dp_provider = sp_name spec, dp_subjects = [], dp_creds = cs\<rparr>)
                      (pl_policies st)\<rparr>))"

text \<open>\<open>rows = None\<close> is a failed query. The three results: policies, degradations, whether it failed.\<close>

definition plan_dns_policies ::
    "(bytes \<Rightarrow> (string \<times> string) list option) \<Rightarrow> modules option \<Rightarrow> dns_row list option \<Rightarrow>
     dns_policy list \<times> degradation list \<times> bool" where
  "plan_dns_policies creds caps rows =
     (case rows of
        None \<Rightarrow> ([], [], True)
      | Some rs \<Rightarrow>
          let st = fold (plan_row creds caps) rs \<lparr>pl_policies = [], pl_degraded = [], pl_failed = False\<rparr>
          in (sort_by (\<lambda>a b. dp_id a < dp_id b)
                (map (\<lambda>(_, p). p\<lparr>dp_subjects := sort (dp_subjects p)\<rparr>) (pl_policies st)),
              pl_degraded st, pl_failed st))"

interpretation policy_order: key_comparison "\<lambda>a b. dp_id a < dp_id b" dp_id
  by unfold_locales simp

section \<open>Synchronisation\<close>

definition read_automation :: "'s caddy \<Rightarrow> 's px \<Rightarrow> (px_error + (string \<times> json) list) \<times> 's px" where
  "read_automation http px =
     (let (r, px) = request http GET automation_path None px
      in case r of
        NoAnswer \<Rightarrow> (Inl Unreachable, px)
      | Reply st body _ \<Rightarrow>
          (if st = 404 \<or> st = 400 then (Inr [], px)
           else if st \<ge> 400 then (Inl (Refused st), px)
           else case body of
             Raw (JObj ms) \<Rightarrow> (Inr (fold (\<lambda>(k, v). put_member k v) ms []), px)
           | Raw JNull \<Rightarrow> (Inr [], px)
           | _ \<Rightarrow> (Inl Undecodable, px)))"

definition write_automation :: "'s caddy \<Rightarrow> (string \<times> json) list \<Rightarrow> 's px \<Rightarrow> px_error option \<times> 's px" where
  "write_automation http ms px =
     (let (st, px) = do_config http PUT automation_path (JObj ms) px;
          (st, px) = (if st = 409 then do_config http PATCH automation_path (JObj ms) px else (st, px))
      in (if st = 0 then Some Unreachable else if st \<ge> 400 then Some (Refused st) else None, px))"

definition set_policy_id :: "string \<Rightarrow> json \<Rightarrow> string \<Rightarrow> string \<times> bool" where
  "set_policy_id k v s = (if fold_case k = ''@id'' then lenient_string s v else (s, True))"

definition is_our_policy :: "json \<Rightarrow> bool" where
  "is_our_policy raw = (case lenient_struct set_policy_id '''' raw of (i, ok) \<Rightarrow> ok \<and> prefix policy_id_prefix i)"

text \<open>Equality of the lists of canonical encodings after sorting them is equality of multisets.\<close>

definition same_json_set :: "json list \<Rightarrow> json list \<Rightarrow> bool" where
  "same_json_set a b \<longleftrightarrow> length a = length b \<and> mset (map json_norm a) = mset (map json_norm b)"

definition merge_policies :: "json list \<Rightarrow> json list \<Rightarrow> json list option" where
  "merge_policies existing desired =
     (let ours = filter is_our_policy existing; others = filter (\<lambda>p. \<not> is_our_policy p) existing
      in if same_json_set ours desired then None
         else if desired = [] \<and> ours = [] then None
         else Some (desired @ others))"

definition sync_dns_policies :: "'s caddy \<Rightarrow> dns_policy list \<Rightarrow> 's px \<Rightarrow> px_error option \<times> 's px" where
  "sync_dns_policies http policies px =
     (case read_automation http px of
        (Inl e, px) \<Rightarrow> (Some e, px)
      | (Inr ms, px) \<Rightarrow>
          (case (case map_of ms ''policies'' of
                   None \<Rightarrow> Some [] | Some JNull \<Rightarrow> Some [] | Some (JArr vs) \<Rightarrow> Some vs | Some _ \<Rightarrow> None) of
             None \<Rightarrow> (Some Undecodable, px)
           | Some existing \<Rightarrow>
               (case merge_policies existing (map caddy_policy policies) of
                  None \<Rightarrow> (None, px)
                | Some ps \<Rightarrow> write_automation http (put_member ''policies'' (JArr ps) ms) px)))"

text \<open>The domain handlers' best-effort call, and the reconciler's guarded one.\<close>

definition handler_sync_dns :: "'s caddy \<Rightarrow> (bytes \<Rightarrow> (string \<times> string) list option) \<Rightarrow> modules option \<Rightarrow>
    dns_row list option \<Rightarrow> 's px \<Rightarrow> 's px" where
  "handler_sync_dns http creds caps rows px =
     snd (sync_dns_policies http (fst (plan_dns_policies creds caps rows)) px)"

definition reconciler_sync_dns :: "'s caddy \<Rightarrow> (bytes \<Rightarrow> (string \<times> string) list option) \<Rightarrow> modules option \<Rightarrow>
    dns_row list option \<Rightarrow> 's px \<Rightarrow> px_error option \<times> 's px" where
  "reconciler_sync_dns http creds caps rows px =
     (case plan_dns_policies creds caps rows of (plan, _, failed) \<Rightarrow>
        if \<not> failed \<or> plan \<noteq> [] then sync_dns_policies http plan px else (None, px))"

section \<open>The plan covers every domain\<close>

text \<open>What holds of the plan after some rows, and for a row once it was taken.\<close>

definition row_planned :: "dns_row \<Rightarrow> (string \<times> dns_policy) list \<Rightarrow> bool" where
  "row_planned row ps \<longleftrightarrow> (case dr_provider_id row of None \<Rightarrow> False
     | Some u \<Rightarrow> (case map_of ps (uuid_string u) of Some p \<Rightarrow> dr_host row \<in> set (dp_subjects p) | None \<Rightarrow> False))"

definition row_degraded :: "dns_row \<Rightarrow> degradation list \<Rightarrow> bool" where
  "row_degraded row ds \<longleftrightarrow> (\<exists>d \<in> set ds. dg_host d = dr_host row \<and> dg_path d = dr_path row \<and> dg_feature d = feature_dns_challenge)"

definition plan_ok :: "dns_row list \<Rightarrow> plan_state \<Rightarrow> bool" where
  "plan_ok rows st \<longleftrightarrow> distinct (map fst (pl_policies st)) \<and>
     (\<forall>(i, p) \<in> set (pl_policies st). dp_id p = i \<and> distinct (dp_subjects p) \<and>
        (\<forall>h \<in> set (dp_subjects p). \<exists>row \<in> set rows. dr_host row = h \<and> map_option uuid_string (dr_provider_id row) = Some i)) \<and>
     (\<forall>row \<in> set rows. row_planned row (pl_policies st) \<or> row_degraded row (pl_degraded st))"

lemma set_put_member: "set (put_member k v m) = {x \<in> set m. fst x \<noteq> k} \<union> {(k, v)}"
  by (auto simp: put_member_def)

lemma plan_row_cases:
  obtains (degraded) m why f where "plan_row creds caps row st =
      (if f then (st\<lparr>pl_degraded := pl_degraded st @ [dns_degradation row m why]\<rparr>)\<lparr>pl_failed := True\<rparr>
       else st\<lparr>pl_degraded := pl_degraded st @ [dns_degradation row m why]\<rparr>)"
  | (planned) u p where "dr_provider_id row = Some u" "plan_row creds caps row st =
      st\<lparr>pl_policies := put_member (uuid_string u) (add_subject (dr_host row) p) (pl_policies st)\<rparr>"
      "map_of (pl_policies st) (uuid_string u) = Some p \<or>
       (map_of (pl_policies st) (uuid_string u) = None \<and> dp_id p = uuid_string u \<and> dp_subjects p = [])"
proof (cases "dr_provider_id row")
  case None
  with degraded [of False] show ?thesis by (auto simp: plan_row_def Let_def)
next
  case (Some u)
  let ?spec = "provider_spec (dr_provider row)"
  show ?thesis
  proof (cases "case caps of Some s \<Rightarrow> \<not> cap_has s (sp_module ?spec) | None \<Rightarrow> False")
    case True
    with Some degraded [of False] show ?thesis by (auto simp: plan_row_def Let_def)
  next
    case ok: False
    show ?thesis
    proof (cases "map_of (pl_policies st) (uuid_string u)")
      case None
      show ?thesis
      proof (cases "creds (dr_creds row)")
        case None
        with Some ok \<open>map_of _ _ = None\<close> degraded [of True] show ?thesis by (auto simp: plan_row_def Let_def)
      next
        case cs: (Some cs)
        with Some ok None planned [of u "\<lparr>dp_id = uuid_string u, dp_provider = sp_name ?spec, dp_subjects = [], dp_creds = cs\<rparr>"]
        show ?thesis by (simp add: plan_row_def Let_def)
      qed
    next
      case p: (Some p)
      with Some ok planned [of u p] show ?thesis by (simp add: plan_row_def Let_def)
    qed
  qed
qed

lemma add_subject_facts: "dp_id (add_subject h p) = dp_id p" "set (dp_subjects (add_subject h p)) = insert h (set (dp_subjects p))"
  "distinct (dp_subjects p) \<Longrightarrow> distinct (dp_subjects (add_subject h p))"
  by (auto simp: add_subject_def)

lemma plan_row_ok:
  assumes "plan_ok rows st"
  shows "plan_ok (rows @ [row]) (plan_row creds caps row st)"
proof (cases rule: plan_row_cases [of creds caps row st])
  case (degraded m why f)
  have "row_degraded r (pl_degraded st @ [dns_degradation row m why])" if "row_degraded r (pl_degraded st) \<or> r = row" for r
    using that by (auto simp: row_degraded_def dns_degradation_def)
  with assms degraded show ?thesis by (auto simp: plan_ok_def)
next
  case (planned u p)
  let ?i = "uuid_string u" and ?ps = "pl_policies st"
  let ?ps' = "put_member ?i (add_subject (dr_host row) p) ?ps"
  from assms have d: "distinct (map fst ?ps)" by (simp add: plan_ok_def)
  have p: "dp_id p = ?i" "distinct (dp_subjects p)"
    "\<forall>h \<in> set (dp_subjects p). \<exists>r \<in> set rows. dr_host r = h \<and> map_option uuid_string (dr_provider_id r) = Some ?i"
    using planned(3) assms by (auto simp: plan_ok_def dest!: map_of_SomeD)
  have a: "\<forall>(i, q) \<in> set ?ps'. dp_id q = i \<and> distinct (dp_subjects q) \<and>
      (\<forall>h \<in> set (dp_subjects q). \<exists>r \<in> set (rows @ [row]). dr_host r = h \<and> map_option uuid_string (dr_provider_id r) = Some i)"
    using assms p planned(1) by (auto simp: set_put_member add_subject_facts plan_ok_def)
  have b: "row_planned r ?ps'" if "row_planned r ?ps \<or> r = row" for r
    using that planned(1,3) by (auto simp: row_planned_def map_of_put add_subject_facts split: option.splits)
  show ?thesis
    using a b assms put_member_distinct [OF d] planned(2) by (auto simp: plan_ok_def)
qed

lemma plan_fold_ok: "plan_ok rows st \<Longrightarrow> plan_ok (rows @ rs) (fold (plan_row creds caps) rs st)"
proof (induction rs arbitrary: rows st)
  case (Cons r rs)
  from Cons.IH [OF plan_row_ok [OF Cons.prems]] show ?case by simp
qed simp

text \<open>
  C19: the plan loses no domain and invents none. Every DNS-challenge domain of the query is either a
  subject of its own provider's policy or reported as degraded, every subject is a domain attached to
  that provider, no policy names a subject twice, and the policies come one per provider in the order
  of their ids.
\<close>
theorem dns_plan_covers:
  assumes "plan_dns_policies creds caps (Some rows) = (ps, dg, failed)"
  shows "(\<forall>row \<in> set rows.
      (\<exists>p \<in> set ps. map_option uuid_string (dr_provider_id row) = Some (dp_id p) \<and> dr_host row \<in> set (dp_subjects p)) \<or>
      row_degraded row dg) \<and>
    (\<forall>p \<in> set ps. distinct (dp_subjects p) \<and> sorted (dp_subjects p) \<and> (\<forall>h \<in> set (dp_subjects p).
      \<exists>row \<in> set rows. dr_host row = h \<and> map_option uuid_string (dr_provider_id row) = Some (dp_id p))) \<and>
    sorted (map dp_id ps) \<and> distinct (map dp_id ps)"
proof -
  define st where "st = fold (plan_row creds caps) rows \<lparr>pl_policies = [], pl_degraded = [], pl_failed = False\<rparr>"
  let ?l = "map (\<lambda>(_, p). p\<lparr>dp_subjects := sort (dp_subjects p)\<rparr>) (pl_policies st)"
  from assms have ps: "ps = sort_by (\<lambda>a b. dp_id a < dp_id b) ?l" and dg: "dg = pl_degraded st"
    by (auto simp: plan_dns_policies_def st_def Let_def)
  have "plan_ok [] \<lparr>pl_policies = [], pl_degraded = [], pl_failed = False\<rparr>" by (simp add: plan_ok_def)
  from plan_fold_ok [OF this, of rows creds caps] have ok: "plan_ok rows st" by (simp add: st_def)
  have set_ps: "set ps = set ?l" by (simp only: ps set_sort_by)
  have ids: "map dp_id ?l = map fst (pl_policies st)"
    using ok by (auto simp: plan_ok_def)
  have "mset (map dp_id ps) = mset (map fst (pl_policies st))"
    unfolding ps mset_map mset_sort_by using ids by (metis mset_map)
  moreover have "distinct (map fst (pl_policies st))" using ok unfolding plan_ok_def by blast
  ultimately have d: "distinct (map dp_id ps)" using mset_eq_imp_distinct_iff by blast
  have s: "sorted (map dp_id ps)" unfolding ps by (rule policy_order.sorted_sort_by)
  have "(\<exists>p \<in> set ps. map_option uuid_string (dr_provider_id row) = Some (dp_id p) \<and> dr_host row \<in> set (dp_subjects p)) \<or>
      row_degraded row dg" if "row \<in> set rows" for row
  proof (cases "row_degraded row dg")
    case False
    with ok that have "row_planned row (pl_policies st)" by (auto simp: plan_ok_def dg)
    then obtain u p where u: "dr_provider_id row = Some u" "map_of (pl_policies st) (uuid_string u) = Some p" "dr_host row \<in> set (dp_subjects p)"
      by (auto simp: row_planned_def split: option.splits)
    then have m: "(uuid_string u, p) \<in> set (pl_policies st)" by (simp add: map_of_SomeD)
    then have "p\<lparr>dp_subjects := sort (dp_subjects p)\<rparr> \<in> set ps" unfolding set_ps by force
    moreover have "dp_id p = uuid_string u" using m ok by (auto simp: plan_ok_def)
    ultimately show ?thesis using u by (intro disjI1 bexI [of _ "p\<lparr>dp_subjects := sort (dp_subjects p)\<rparr>"]) auto
  qed simp
  moreover have "\<forall>p \<in> set ps. distinct (dp_subjects p) \<and> sorted (dp_subjects p) \<and> (\<forall>h \<in> set (dp_subjects p).
      \<exists>row \<in> set rows. dr_host row = h \<and> map_option uuid_string (dr_provider_id row) = Some (dp_id p))"
    unfolding set_ps using ok by (fastforce simp: plan_ok_def)
  ultimately show ?thesis using d s by blast
qed

definition demo_dns_row :: "string \<Rightarrow> uuid option \<Rightarrow> dns_row" where
  "demo_dns_row h u = \<lparr>dr_host = h, dr_path = ''/'', dr_provider_id = u, dr_provider = ''cloudflare'', dr_creds = []\<rparr>"

theorem dns_plan_covers_witness:
  "case plan_dns_policies (\<lambda>_. Some [(''api_token'', ''t'')]) (Some [''dns.providers.cloudflare''])
      (Some [demo_dns_row ''*.a.io'' (Some 7), demo_dns_row ''b.io'' None]) of
    (ps, dg, failed) \<Rightarrow> row_degraded (demo_dns_row ''b.io'' None) dg \<and> distinct (map dp_id ps)"
proof -
  obtain ps dg f where p: "plan_dns_policies (\<lambda>_. Some [(''api_token'', ''t'')]) (Some [''dns.providers.cloudflare''])
      (Some [demo_dns_row ''*.a.io'' (Some 7), demo_dns_row ''b.io'' None]) = (ps, dg, f)"
    by (metis prod_cases3)
  from dns_plan_covers [OF p] have "row_degraded (demo_dns_row ''b.io'' None) dg" "distinct (map dp_id ps)"
    by (auto simp: demo_dns_row_def)
  with p show ?thesis by simp
qed

section \<open>Synchronising leaves other policies alone\<close>

lemma our_policy: "is_our_policy (caddy_policy p)"
proof -
  have f: "fold_case ''@id'' = ''@id''" "fold_case ''subjects'' = ''subjects''" "fold_case ''issuers'' = ''issuers''" by code_simp+
  show ?thesis
    by (simp add: is_our_policy_def caddy_policy_def lenient_struct_def set_policy_id_def f lenient_string_def)
qed

text \<open>
  synchronising the DNS policies is exact and leaves the rest alone. When it writes, the list it
  writes holds the planned policies first and then, in their order, exactly the policies Belune does not
  own; when it does not, the owned policies already are the planned ones; and after a write the same
  plan writes nothing.
\<close>
theorem dns_sync_is_exact:
  "(case merge_policies existing (map caddy_policy plan) of
      None \<Rightarrow> mset (map json_norm (filter is_our_policy existing)) = mset (map (json_norm \<circ> caddy_policy) plan)
    | Some ps \<Rightarrow> filter is_our_policy ps = map caddy_policy plan \<and>
        filter (\<lambda>p. \<not> is_our_policy p) ps = filter (\<lambda>p. \<not> is_our_policy p) existing \<and>
        merge_policies ps (map caddy_policy plan) = None)"
proof -
  have o: "filter is_our_policy (map caddy_policy plan) = map caddy_policy plan"
    "filter (\<lambda>p. \<not> is_our_policy p) (map caddy_policy plan) = []"
    by (auto simp: filter_id_conv filter_empty_conv our_policy)
  show ?thesis
    by (auto simp: merge_policies_def Let_def same_json_set_def o multiset.map_comp)
qed

text \<open>
  a failed query makes the domain handlers strip every DNS policy. When the list of domains cannot be
  read, the handlers' call replaces Caddy's policies by those Belune does not own, so every DNS-challenge
  domain falls back to a challenge it cannot pass; the reconciler, which guards the same call, sends
  nothing.
\<close>
theorem failed_query_strips_policies:
  assumes "read_automation http px = (Inr ms, px1)" and "map_of ms ''policies'' = Some (JArr existing)"
    and "filter is_our_policy existing \<noteq> []"
  shows "handler_sync_dns http creds caps None px =
      snd (write_automation http (put_member ''policies'' (JArr (filter (\<lambda>p. \<not> is_our_policy p) existing)) ms) px1) \<and>
    reconciler_sync_dns http creds caps None px = (None, px)"
proof -
  have "merge_policies existing [] = Some (filter (\<lambda>p. \<not> is_our_policy p) existing)"
    using assms(3) by (simp add: merge_policies_def Let_def same_json_set_def)
  with assms(1,2) show ?thesis
    by (simp add: handler_sync_dns_def reconciler_sync_dns_def plan_dns_policies_def sync_dns_policies_def)
qed

definition dns_demo_caddy :: "json caddy" where
  "dns_demo_caddy m path body s = (if m = GET then (Reply 200 (Raw s) '''', s)
     else case body of Some v \<Rightarrow> (Reply 200 (Raw JNull) '''', v) | None \<Rightarrow> (Reply 200 (Raw JNull) '''', s))"

theorem failed_query_strips_policies_witness:
  "px_caddy (handler_sync_dns dns_demo_caddy (\<lambda>_. None) None None
      (new_proxy_client (JObj [(''policies'', JArr [caddy_policy \<lparr>dp_id = ''p'', dp_provider = ''cloudflare'', dp_subjects = [''a.io''], dp_creds = []\<rparr>,
         JObj [(''@id'', JStr ''local'')]])]))) = JObj [(''policies'', JArr [JObj [(''@id'', JStr ''local'')]])]"
proof -
  let ?p = "caddy_policy \<lparr>dp_id = ''p'', dp_provider = ''cloudflare'', dp_subjects = [''a.io''], dp_creds = []\<rparr>"
  let ?e = "[?p, JObj [(''@id'', JStr ''local'')]]"
  let ?px = "new_proxy_client (JObj [(''policies'', JArr ?e)])"
  have f: "fold_case ''@id'' = ''@id''" by code_simp
  have l: "\<not> is_our_policy (JObj [(''@id'', JStr ''local'')])"
    by (simp add: is_our_policy_def lenient_struct_def set_policy_id_def f lenient_string_def policy_id_prefix_def)
  have r: "read_automation dns_demo_caddy ?px = (Inr [(''policies'', JArr ?e)], ?px)"
    by (simp add: read_automation_def request_def dns_demo_caddy_def new_proxy_client_def put_member_def)
  have o: "filter is_our_policy ?e \<noteq> []" "filter (\<lambda>p. \<not> is_our_policy p) ?e = [JObj [(''@id'', JStr ''local'')]]"
    using our_policy l by simp_all
  from failed_query_strips_policies [OF r _ o(1), of "\<lambda>_. None" None] show ?thesis
    unfolding o(2)
    by (simp add: write_automation_def do_config_def request_def dns_demo_caddy_def new_proxy_client_def put_member_def)
qed

end
