(* ===== verification/RouteConfig.thy ===== *)
theory RouteConfig
  imports CaddyAdmin
begin

text \<open>
  From rows to routes (\<open>internal/proxy/routeconfig.go\<close>, \<open>internal/naming/naming.go\<close>): how a domain row, its
  features, its application and its certificate become the route configuration the proxy is given. The
  callers are the reconciler and the domain handlers.

  The rows have the columns these callers read. The database is a record of the queries' answers,
  \<open>None\<close> for an error; a nullable text reads as the empty string when NULL, as its \<open>.String\<close> does.
  \<open>dec\<close> is the keyring's decryption of a PEM text.
\<close>

section \<open>Rows\<close>

record domain_row =
  dm_id :: uuid
  dm_app :: uuid
  dm_host :: string
  dm_ssl_enabled :: bool
  dm_port :: "int option"
  dm_force_https :: bool
  dm_ssl_mode :: string
  dm_ssl_provider :: string
  dm_advanced :: raw_json
  dm_cert :: "uuid option"
  dm_path :: string
  dm_strip :: bool
  dm_internal :: string
  dm_dns :: "uuid option"

record feature_row =
  fe_id :: uuid
  fe_domain :: uuid
  fe_type :: string
  fe_config :: raw_json
  fe_enabled :: bool

record app_row =
  ap_id :: uuid
  ap_status :: string
  ap_port :: "int option"
  ap_health :: string

record certificate_row =
  ct_cert :: bytes
  ct_key :: bytes

datatype setting_answer = NoSetting | SettingError | Setting string

record proxy_db =
  pd_applications :: "app_row list option"
  pd_slugs :: "uuid \<Rightarrow> (string \<times> string) option"
  pd_domains :: "uuid \<Rightarrow> domain_row list option"
  pd_application :: "uuid \<Rightarrow> app_row option"
  pd_features :: "uuid \<Rightarrow> feature_row list option"
  pd_certificate :: "uuid \<Rightarrow> certificate_row option"
  pd_custom_certs :: "(string \<times> certificate_row) list option"
  pd_setting :: "string \<Rightarrow> setting_answer"

section \<open>Names\<close>

definition container_name :: "string \<Rightarrow> string \<Rightarrow> string \<Rightarrow> string" where
  "container_name project app_slug application = app_slug"

definition project_network_name :: "string \<Rightarrow> string" where
  "project_network_name slug = ''belune-'' @ slug"

section \<open>The configuration of a domain's route\<close>

definition resolve_upstream_port :: "int option \<Rightarrow> int option \<Rightarrow> int" where
  "resolve_upstream_port domain_port app_port =
     (case domain_port of
        Some p \<Rightarrow> if p > 0 then p else (case app_port of Some q \<Rightarrow> if q > 0 then q else 8080 | None \<Rightarrow> 8080)
      | None \<Rightarrow> (case app_port of Some q \<Rightarrow> if q > 0 then q else 8080 | None \<Rightarrow> 8080))"

definition route_feature_of :: "feature_row \<Rightarrow> route_feature" where
  "route_feature_of f = \<lparr>rf_type = fe_type f, rf_config = fe_config f, rf_enabled = fe_enabled f\<rparr>"

definition build_route_config ::
    "domain_row \<Rightarrow> int option \<Rightarrow> string \<Rightarrow> string \<Rightarrow> feature_row list \<Rightarrow> host_certificate \<Rightarrow> route_config" where
  "build_route_config d app_port container health features cert =
     \<lparr>rc_host = dm_host d, rc_path = dm_path d, rc_strip = dm_strip d, rc_internal = dm_internal d,
      rc_target = ''http://'' @ container @ '':'' @ show_int (resolve_upstream_port (dm_port d) app_port),
      rc_tls = dm_ssl_enabled d, rc_force_https = dm_force_https d, rc_ssl_mode = dm_ssl_mode d,
      rc_ssl_provider = dm_ssl_provider d, rc_cert = hc_cert_pem cert, rc_key = hc_key_pem cert,
      rc_features = map route_feature_of features, rc_advanced = dm_advanced d, rc_health = health\<rparr>"

datatype config_error = FeaturesUnread | ApplicationUnread | CertificateUnread | CertificateSealed

definition no_certificate :: host_certificate where
  "no_certificate = \<lparr>hc_host = '''', hc_cert_pem = '''', hc_key_pem = ''''\<rparr>"

definition open_certificate :: "(bytes \<Rightarrow> string option) \<Rightarrow> string \<Rightarrow> certificate_row \<Rightarrow> host_certificate option" where
  "open_certificate dec host row =
     (case dec (ct_cert row) of
        None \<Rightarrow> None
      | Some cert \<Rightarrow> (case dec (ct_key row) of
          None \<Rightarrow> None
        | Some key \<Rightarrow> Some \<lparr>hc_host = host, hc_cert_pem = cert, hc_key_pem = key\<rparr>))"

definition resolve_certificate ::
    "(uuid \<Rightarrow> certificate_row option) \<Rightarrow> (bytes \<Rightarrow> string option) \<Rightarrow> domain_row \<Rightarrow> config_error + host_certificate" where
  "resolve_certificate certs dec d =
     (case dm_cert d of
        None \<Rightarrow> Inr no_certificate
      | Some c \<Rightarrow>
          if dm_ssl_mode d \<noteq> ''custom'' then Inr no_certificate
          else (case certs c of
            None \<Rightarrow> Inl CertificateUnread
          | Some row \<Rightarrow> (case open_certificate dec (dm_host d) row of
              None \<Rightarrow> Inl CertificateSealed | Some cert \<Rightarrow> Inr cert)))"

definition build_route_config_from_db ::
    "proxy_db \<Rightarrow> (bytes \<Rightarrow> string option) \<Rightarrow> domain_row \<Rightarrow> string \<Rightarrow> string \<Rightarrow> config_error + route_config" where
  "build_route_config_from_db db dec d container health =
     (case pd_features db (dm_id d) of
        None \<Rightarrow> Inl FeaturesUnread
      | Some fs \<Rightarrow> (case pd_application db (dm_app d) of
          None \<Rightarrow> Inl ApplicationUnread
        | Some app \<Rightarrow> (case resolve_certificate (pd_certificate db) dec d of
            Inl e \<Rightarrow> Inl e
          | Inr cert \<Rightarrow> Inr (build_route_config d (ap_port app) container health fs cert))))"

lemma config_of_domain:
  assumes "build_route_config_from_db db dec d container health = Inr cfg"
  shows "rc_host cfg = dm_host d" "rc_path cfg = dm_path d"
  using assms by (auto simp: build_route_config_from_db_def build_route_config_def split: option.splits sum.splits)

lemma upstream_port_positive: "0 < resolve_upstream_port p q"
  by (simp add: resolve_upstream_port_def split: option.split)

end
