(* ===== verification/Reconciler.thy ===== *)
theory Reconciler
  imports RouteConfig CaddyClient Dns
begin

text \<open>
  The proxy reconciler (\<open>internal/proxy/reconciler.go\<close>, \<open>reconciler_waf.go\<close>, the interface of
  \<open>internal/proxy/interface.go\<close>): the routes the database asks for, the features a Caddy cannot serve, the
  pass that brings the proxy in line, and the probe that starts a pass early.

  The proxy is Go's interface \<open>ProxyManager\<close>, a record of operations over a state; the locale
  \<open>proxy_manager\<close> is what the reconciler relies on, and the Caddy client provides it. Go visits its maps
  in any order: \<open>visit\<close> and \<open>visit_keys\<close> choose it.
\<close>

section \<open>The proxy's interface\<close>

record 'p proxy_iface =
  pm_add :: "route_config \<Rightarrow> 'p \<Rightarrow> px_error option \<times> 'p"
  pm_ensure :: "route_config \<Rightarrow> 'p \<Rightarrow> (px_error + bool) \<times> 'p"
  pm_remove :: "string \<Rightarrow> string \<Rightarrow> 'p \<Rightarrow> px_error option \<times> 'p"
  pm_list :: "'p \<Rightarrow> (px_error + listed_route list) \<times> 'p"
  pm_dashboard :: "string \<Rightarrow> string \<Rightarrow> 'p \<Rightarrow> px_error option \<times> 'p"
  pm_waf :: "waf_config \<Rightarrow> 'p \<Rightarrow> px_error option \<times> 'p"
  pm_certificates :: "host_certificate list \<Rightarrow> 'p \<Rightarrow> px_error option \<times> 'p"
  pm_auto_https :: "string list \<Rightarrow> string list \<Rightarrow> 'p \<Rightarrow> px_error option \<times> 'p"
  pm_dns :: "dns_policy list \<Rightarrow> 'p \<Rightarrow> px_error option \<times> 'p"

definition caddy_proxy :: "'s caddy \<Rightarrow> build_env \<Rightarrow> 's px proxy_iface" where
  "caddy_proxy http env =
     \<lparr>pm_add = add_route http env, pm_ensure = ensure_route http env, pm_remove = remove_route http env, pm_list = list_routes http,
      pm_dashboard = set_dashboard_route http, pm_waf = sync_waf_route http,
      pm_certificates = sync_certificates http, pm_auto_https = sync_auto_https http,
      pm_dns = sync_dns_policies http\<rparr>"

section \<open>What the database asks for\<close>

type_synonym route_key = "string \<times> string"

definition key_for :: "string \<Rightarrow> string \<Rightarrow> route_key" where
  "key_for host path = (host, if path = '''' then ''/'' else path)"

text \<open>The routes of one application, and whether it has one; a failed query or row is skipped with a warning.\<close>

definition expected_of_app :: "proxy_db \<Rightarrow> (bytes \<Rightarrow> string option) \<Rightarrow> app_row \<Rightarrow> route_config list \<times> string list" where
  "expected_of_app db dec app =
     (if ap_status app \<noteq> ''running'' then ([], [])
      else case pd_slugs db (ap_id app) of
        None \<Rightarrow> ([], [])
      | Some (project, slug) \<Rightarrow>
          (case pd_domains db (ap_id app) of
             None \<Rightarrow> ([], [])
           | Some ds \<Rightarrow>
               let cfgs = List.map_filter (\<lambda>d. case build_route_config_from_db db dec d
                   (container_name project slug '''') (ap_health app) of Inr c \<Rightarrow> Some c | Inl _ \<Rightarrow> None) ds
               in (cfgs, if cfgs = [] then [] else [project_network_name project])))"

definition build_expected :: "proxy_db \<Rightarrow> (bytes \<Rightarrow> string option) \<Rightarrow> (route_config list \<times> string list) option" where
  "build_expected db dec = map_option (\<lambda>apps.
     (concat (map (fst \<circ> expected_of_app db dec) apps),
      remdups (concat (map (snd \<circ> expected_of_app db dec) apps)))) (pd_applications db)"

section \<open>Features a Caddy cannot serve\<close>

definition withheld :: "modules \<Rightarrow> route_feature \<Rightarrow> bool" where
  "withheld caps f \<longleftrightarrow> rf_enabled f \<and> required_module (rf_type f) \<noteq> '''' \<and> \<not> cap_has caps (required_module (rf_type f))"

definition degradation_less :: "degradation \<Rightarrow> degradation \<Rightarrow> bool" where
  "degradation_less x y =
     (if dg_host x \<noteq> dg_host y then dg_host x < dg_host y
      else if dg_path x \<noteq> dg_path y then dg_path x < dg_path y
      else dg_feature x < dg_feature y)"

definition sort_degradations :: "degradation list \<Rightarrow> degradation list" where
  "sort_degradations = sort_by degradation_less"

interpretation degradation_order: key_comparison degradation_less "\<lambda>d. (dg_host d, dg_path d, dg_feature d)"
  by unfold_locales (auto simp: degradation_less_def less_prod_def')

definition degrade :: "modules option \<Rightarrow> route_config list \<Rightarrow> route_config list \<times> degradation list" where
  "degrade provider expected =
     (case provider of
        None \<Rightarrow> (expected, [])
      | Some caps \<Rightarrow>
          if \<not> list_ex (\<lambda>c. list_ex (\<lambda>f. rf_enabled f \<and> required_module (rf_type f) \<noteq> '''') (rc_features c)) expected
          then (expected, [])
          else let reason = (if cap_known caps then reason_module_absent else reason_modules_unknown)
            in (map (\<lambda>c. c\<lparr>rc_features := filter (\<lambda>f. \<not> withheld caps f) (rc_features c)\<rparr>) expected,
                sort_degradations (concat (map (\<lambda>c. map (\<lambda>f.
                  \<lparr>dg_host = rc_host c, dg_path = snd (key_for (rc_host c) (rc_path c)), dg_feature = rf_type f,
                   dg_module = required_module (rf_type f), dg_reason = reason, dg_since = 0\<rparr>)
                  (filter (withheld caps) (rc_features c))) expected))))"

definition same_place :: "degradation \<Rightarrow> degradation \<Rightarrow> bool" where
  "same_place p d \<longleftrightarrow> dg_host p = dg_host d \<and> dg_path p = dg_path d \<and> dg_feature p = dg_feature d"

definition carry_since :: "degradation list \<Rightarrow> degradation list \<Rightarrow> instant \<Rightarrow> degradation list" where
  "carry_since prev new now = map (\<lambda>d. d\<lparr>dg_since :=
     (case find (\<lambda>p. same_place p d) prev of Some p \<Rightarrow> dg_since p | None \<Rightarrow> now)\<rparr>) new"

definition degradations_changed :: "degradation list \<Rightarrow> degradation list \<Rightarrow> bool" where
  "degradations_changed prev new \<longleftrightarrow> prev \<noteq> new"

section \<open>Automatic HTTPS and certificates\<close>

definition dashboard_tls :: "proxy_db \<Rightarrow> string \<times> string \<times> string" where
  "dashboard_tls db =
     (case pd_setting db ''dashboard_domain'' of
        Setting v \<Rightarrow>
          let host = trim_space v in
          if host = '''' then ('''', '''', '''')
          else (host,
            (case pd_setting db ''dashboard_ssl_mode'' of
               Setting m \<Rightarrow> if valid_ssl_mode (trim_space m) \<and> trim_space m \<noteq> '''' then trim_space m else ''automatic''
             | _ \<Rightarrow> ''automatic''),
            (case pd_setting db ''dashboard_certificate_id'' of Setting c \<Rightarrow> trim_space c | _ \<Rightarrow> ''''))
      | _ \<Rightarrow> ('''', '''', ''''))"

text \<open>The first row of a hostname decides its mode; each host appears once, sorted.\<close>

fun host_modes :: "(string \<times> string) list \<Rightarrow> route_config list \<Rightarrow> (string \<times> string) list" where
  "host_modes seen [] = []"
| "host_modes seen (c # cs) =
     (case map_of seen (rc_host c) of
        Some m \<Rightarrow> if m \<noteq> rc_ssl_mode c then host_modes seen cs
                  else (rc_host c, m) # host_modes seen cs
      | None \<Rightarrow> (rc_host c, rc_ssl_mode c) # host_modes ((rc_host c, rc_ssl_mode c) # seen) cs)"

definition sorted_hosts :: "string list \<Rightarrow> string list" where
  "sorted_hosts hs = sort (remdups hs)"

definition auto_https_lists :: "string \<Rightarrow> string \<Rightarrow> route_config list \<Rightarrow> string list \<times> string list" where
  "auto_https_lists dash dash_mode expected =
     (let modes = host_modes [] expected @ (if dash = '''' then [] else [(dash, dash_mode)])
      in (sorted_hosts (map fst (filter (\<lambda>(_, m). m = ''off'') modes)),
          sorted_hosts (map fst (filter (\<lambda>(_, m). m = ''custom'') modes))))"

definition dashboard_certificate ::
    "proxy_db \<Rightarrow> (bytes \<Rightarrow> string option) \<Rightarrow> (string \<Rightarrow> uuid option) \<Rightarrow> string \<Rightarrow> string \<Rightarrow> host_certificate option" where
  "dashboard_certificate db dec scan_uuid host cert =
     (case scan_uuid cert of
        None \<Rightarrow> None
      | Some c \<Rightarrow> (case pd_certificate db c of None \<Rightarrow> None | Some row \<Rightarrow> open_certificate dec host row))"

definition certificates_wanted ::
    "proxy_db \<Rightarrow> (bytes \<Rightarrow> string option) \<Rightarrow> (string \<Rightarrow> uuid option) \<Rightarrow> string \<times> string \<times> string \<Rightarrow> host_certificate list option" where
  "certificates_wanted db dec scan_uuid dash =
     (case dash of (host, mode, cert) \<Rightarrow> map_option (\<lambda>rows.
        List.map_filter (\<lambda>(h, row). open_certificate dec h row) rows @
        (if host \<noteq> '''' \<and> mode = ''custom'' \<and> cert \<noteq> '''' then
           (case dashboard_certificate db dec scan_uuid host cert of Some c \<Rightarrow> [c] | None \<Rightarrow> [])
         else [])) (pd_custom_certs db))"

section \<open>One pass\<close>

datatype pass_error = QueryFailed | DnsPlanFailed | ProxyRefused px_error

record 'p sweep =
  sw_proxy :: 'p
  sw_added :: nat
  sw_updated :: nat
  sw_removed :: nat
  sw_error :: "pass_error option"

definition first_error :: "pass_error option \<Rightarrow> px_error option \<Rightarrow> pass_error option" where
  "first_error e new = (case e of Some x \<Rightarrow> Some x | None \<Rightarrow> map_option ProxyRefused new)"

definition expected_set :: "route_config list \<Rightarrow> (route_key \<times> route_config) list" where
  "expected_set cfgs = fold (\<lambda>c. put_member (key_for (rc_host c) (rc_path c)) c) cfgs []"

definition ensure_one :: "'p proxy_iface \<Rightarrow> route_key set \<Rightarrow> route_key \<times> route_config \<Rightarrow> 'p sweep \<Rightarrow> 'p sweep" where
  "ensure_one pm current kc s =
     (case pm_ensure pm (snd kc) (sw_proxy s) of
        (Inl e, p) \<Rightarrow> s\<lparr>sw_proxy := p, sw_error := first_error (sw_error s) (Some e)\<rparr>
      | (Inr False, p) \<Rightarrow> s\<lparr>sw_proxy := p\<rparr>
      | (Inr True, p) \<Rightarrow>
          if fst kc \<notin> current then s\<lparr>sw_proxy := p, sw_added := sw_added s + 1\<rparr>
          else s\<lparr>sw_proxy := p, sw_updated := sw_updated s + 1\<rparr>)"

definition remove_one :: "'p proxy_iface \<Rightarrow> string \<Rightarrow> route_key set \<Rightarrow> route_key \<Rightarrow> 'p sweep \<Rightarrow> 'p sweep" where
  "remove_one pm dash expected k s =
     (if (fst k = dash \<and> dash \<noteq> '''') \<or> k \<in> expected then s
      else case pm_remove pm (fst k) (snd k) (sw_proxy s) of
        (Some e, p) \<Rightarrow> s\<lparr>sw_proxy := p, sw_error := first_error (sw_error s) (Some e)\<rparr>
      | (None, p) \<Rightarrow> s\<lparr>sw_proxy := p, sw_removed := sw_removed s + 1\<rparr>)"

definition current_keys :: "listed_route list \<Rightarrow> route_key list" where
  "current_keys ls = remdups (map (\<lambda>l. key_for (li_host l) (li_path l)) ls)"

definition sweep_routes ::
    "'p proxy_iface \<Rightarrow> ((route_key \<times> route_config) list \<Rightarrow> (route_key \<times> route_config) list) \<Rightarrow>
     (route_key list \<Rightarrow> route_key list) \<Rightarrow> string \<Rightarrow> route_config list \<Rightarrow> listed_route list \<Rightarrow> 'p sweep \<Rightarrow> 'p sweep" where
  "sweep_routes pm visit visit_keys dash expected current s =
     (let es = visit (expected_set expected); cs = visit_keys (current_keys current) in
      fold (remove_one pm dash (set (map fst es))) cs (fold (ensure_one pm (set cs)) es s))"

record reconciler_status =
  rs_added :: nat
  rs_updated :: nat
  rs_removed :: nat
  rs_runs :: nat
  rs_drift :: nat
  rs_error :: "pass_error option"
  rs_degraded :: "degradation list"

datatype caddy_state = CaddyUnknown | CaddyUnreachable | CaddyHealthy | CaddyLostConfig

record waf_state =
  ws_active :: bool
  ws_hosts :: nat
  ws_reason :: string
  ws_error :: "px_error option"

record 'p reconciler =
  re_proxy :: 'p
  re_status :: reconciler_status
  re_expected :: nat
  re_probe :: caddy_state
  re_waf :: waf_state
  re_joined :: "(string \<times> string) list"

text \<open>
  What one pass is given: the database's answers, the three answers of the capability probe (\<open>None\<close>:
  there is no provider), the time, and the order of Go's maps.
\<close>

record pass_env =
  pe_db :: proxy_db
  pe_dns_rows :: "dns_row list option"
  pe_dec :: "bytes \<Rightarrow> string option"
  pe_creds :: "bytes \<Rightarrow> (string \<times> string) list option"
  pe_scan_uuid :: "string \<Rightarrow> uuid option"
  pe_caps :: "modules option"
  pe_caps_dns :: "modules option"
  pe_caps_waf :: "modules option"
  pe_container :: string
  pe_now :: instant
  pe_visit :: "(route_key \<times> route_config) list \<Rightarrow> (route_key \<times> route_config) list"
  pe_visit_keys :: "route_key list \<Rightarrow> route_key list"

definition waf_wanted :: "proxy_db \<Rightarrow> pass_error + bool" where
  "waf_wanted db = (case pd_setting db ''waf_enabled'' of
     NoSetting \<Rightarrow> Inr False | SettingError \<Rightarrow> Inl QueryFailed | Setting v \<Rightarrow> Inr (trim_space v = ''true''))"

definition reason_no_applications :: string where "reason_no_applications = ''no_applications''"

text \<open>\<open>syncWAF\<close>: what to tell the proxy, if anything, and the state the panel reports.\<close>

definition waf_decision :: "modules option \<Rightarrow> bool \<Rightarrow> string list \<Rightarrow> waf_state \<Rightarrow> bool option \<times> waf_state" where
  "waf_decision caps wanted hosts prev =
     (let st = \<lparr>ws_active = False, ws_hosts = length hosts, ws_reason = '''', ws_error = None\<rparr>;
          s = (case caps of Some s \<Rightarrow> s | None \<Rightarrow> [])
      in if \<not> wanted then (Some False, st)
         else if \<not> cap_known s then (None, st\<lparr>ws_active := ws_active prev, ws_reason := reason_modules_unknown\<rparr>)
         else if \<not> cap_waf s then (Some False, st\<lparr>ws_reason := reason_module_absent\<rparr>)
         else (Some True, if hosts = [] then st\<lparr>ws_reason := reason_no_applications\<rparr> else st))"

definition sync_waf ::
    "'p proxy_iface \<Rightarrow> pass_env \<Rightarrow> route_config list \<Rightarrow> string \<Rightarrow> waf_state \<Rightarrow> 'p \<Rightarrow> pass_error option \<times> waf_state \<times> 'p" where
  "sync_waf pm en expected dash prev p =
     (case waf_wanted (pe_db en) of
        Inl e \<Rightarrow> (Some e, prev, p)
      | Inr wanted \<Rightarrow>
          let hosts = sorted_hosts (filter (\<lambda>h. h \<noteq> '''' \<and> h \<noteq> dash) (map rc_host expected)) in
          case waf_decision (pe_caps_waf en) wanted hosts prev of
            (None, st) \<Rightarrow> (None, st, p)
          | (Some on, st) \<Rightarrow>
              (case pm_waf pm \<lparr>wc_enabled = on, wc_hosts = hosts\<rparr> p of
                 (Some e, p) \<Rightarrow> (Some (ProxyRefused e), st\<lparr>ws_active := ws_active prev, ws_error := Some e\<rparr>, p)
               | (None, p) \<Rightarrow> (None, st\<lparr>ws_active := (on \<and> hosts \<noteq> [])\<rparr>, p)))"

definition finish_pass :: "'p sweep \<Rightarrow> degradation list \<Rightarrow> 'p reconciler \<Rightarrow> 'p reconciler" where
  "finish_pass s degraded r = r\<lparr>re_proxy := sw_proxy s, re_status :=
     \<lparr>rs_added = sw_added s, rs_updated = sw_updated s, rs_removed = sw_removed s,
      rs_runs = rs_runs (re_status r) + 1,
      rs_drift = rs_drift (re_status r) + sw_added s + sw_removed s + sw_updated s,
      rs_error = sw_error s, rs_degraded = degraded\<rparr>\<rparr>"

definition started :: "'p \<Rightarrow> 'p sweep" where
  "started p = \<lparr>sw_proxy = p, sw_added = 0, sw_updated = 0, sw_removed = 0, sw_error = None\<rparr>"

text \<open>A step of the pass that only the proxy answers: its error is recorded and the pass goes on.\<close>

definition step_proxy :: "('p \<Rightarrow> px_error option \<times> 'p) \<Rightarrow> 'p sweep \<Rightarrow> 'p sweep" where
  "step_proxy f s = (case f (sw_proxy s) of (e, p) \<Rightarrow> s\<lparr>sw_proxy := p, sw_error := first_error (sw_error s) e\<rparr>)"

definition note_error :: "pass_error option \<Rightarrow> 'p sweep \<Rightarrow> 'p sweep" where
  "note_error e s = s\<lparr>sw_error := (case sw_error s of Some x \<Rightarrow> Some x | None \<Rightarrow> e)\<rparr>"

text \<open>The steps before the routes: policies, automatic HTTPS, certificates, the dashboard.\<close>

definition prepare_proxy :: "'p proxy_iface \<Rightarrow> pass_env \<Rightarrow> route_config list \<Rightarrow> 'p sweep \<Rightarrow> 'p sweep" where
  "prepare_proxy pm en expected s =
     (case plan_dns_policies (pe_creds en) (pe_caps_dns en) (pe_dns_rows en) of (plan, _, failed) \<Rightarrow>
      case dashboard_tls (pe_db en) of (dash, mode, cert) \<Rightarrow>
      case auto_https_lists dash mode expected of (skip, skip_certs) \<Rightarrow>
      let s = note_error (if failed then Some DnsPlanFailed else None) s;
          s = (if \<not> failed \<or> plan \<noteq> [] then step_proxy (pm_dns pm plan) s else s);
          s = step_proxy (pm_auto_https pm skip skip_certs) s;
          s = (case certificates_wanted (pe_db en) (pe_dec en) (pe_scan_uuid en) (dash, mode, cert) of
                 None \<Rightarrow> note_error (Some QueryFailed) s
               | Some certs \<Rightarrow> step_proxy (pm_certificates pm certs) s)
      in step_proxy (pm_dashboard pm dash mode) s)"

definition pass_degradations :: "pass_env \<Rightarrow> route_config list \<Rightarrow> degradation list" where
  "pass_degradations en expected =
     (case plan_dns_policies (pe_creds en) (pe_caps_dns en) (pe_dns_rows en) of (_, dns, _) \<Rightarrow>
        let features = snd (degrade (pe_caps en) expected)
        in if dns = [] then features else sort_degradations (features @ dns))"

definition reconcile :: "'p proxy_iface \<Rightarrow> pass_env \<Rightarrow> 'p reconciler \<Rightarrow> 'p reconciler" where
  "reconcile pm en r =
     (case build_expected (pe_db en) (pe_dec en) of
        None \<Rightarrow> finish_pass (note_error (Some QueryFailed) (started (re_proxy r))) [] r
      | Some (wanted, networks) \<Rightarrow>
          let r = r\<lparr>re_expected := length wanted,
                re_joined := re_joined r @ (if pe_container en = '''' then [] else map (Pair (pe_container en)) networks)\<rparr>;
              expected = fst (degrade (pe_caps en) wanted);
              degraded = carry_since (rs_degraded (re_status r)) (pass_degradations en wanted) (pe_now en);
              dash = fst (dashboard_tls (pe_db en));
              s = prepare_proxy pm en expected (started (re_proxy r))
          in case pm_list pm (sw_proxy s) of
            (Inl e, p) \<Rightarrow> finish_pass (s\<lparr>sw_proxy := p, sw_error := first_error (sw_error s) (Some e)\<rparr>) degraded r
          | (Inr current, p) \<Rightarrow>
              (let s = sweep_routes pm (pe_visit en) (pe_visit_keys en) dash expected current (s\<lparr>sw_proxy := p\<rparr>)
               in case sync_waf pm en expected dash (re_waf r) (sw_proxy s) of
                 (e, waf, p) \<Rightarrow> finish_pass (note_error e (s\<lparr>sw_proxy := p\<rparr>)) degraded (r\<lparr>re_waf := waf\<rparr>)))"

definition reconcile_now :: "'p proxy_iface \<Rightarrow> pass_env \<Rightarrow> 'p reconciler \<Rightarrow> pass_error option \<times> 'p reconciler" where
  "reconcile_now pm en r = (let r = reconcile pm en r in (rs_error (re_status r), r))"

section \<open>The probe\<close>

definition next_caddy_state :: "px_error + listed_route list \<Rightarrow> nat \<Rightarrow> caddy_state" where
  "next_caddy_state answer last_expected =
     (case answer of
        Inl _ \<Rightarrow> CaddyUnreachable
      | Inr rs \<Rightarrow> if rs = [] \<and> last_expected > 0 then CaddyLostConfig else CaddyHealthy)"

definition probe_should_reconcile :: "caddy_state \<Rightarrow> caddy_state \<Rightarrow> bool \<Rightarrow> bool" where
  "probe_should_reconcile prev now last_errored =
     (case now of
        CaddyLostConfig \<Rightarrow> prev \<noteq> CaddyLostConfig
      | CaddyHealthy \<Rightarrow> prev = CaddyUnreachable \<or> (prev = CaddyUnknown \<and> last_errored)
      | _ \<Rightarrow> False)"

definition probe_lost_config :: "'p proxy_iface \<Rightarrow> pass_env \<Rightarrow> 'p reconciler \<Rightarrow> bool \<times> 'p reconciler" where
  "probe_lost_config pm en r =
     (case pm_list pm (re_proxy r) of (answer, p) \<Rightarrow>
        let new = next_caddy_state answer (re_expected r);
            fire = probe_should_reconcile (re_probe r) new (rs_error (re_status r) \<noteq> None);
            r = r\<lparr>re_proxy := p, re_probe := new\<rparr>
        in (fire, if fire then reconcile pm en r else r))"

datatype loop_event = Tick pass_env | Probe pass_env

definition loop_step :: "'p proxy_iface \<Rightarrow> 'p reconciler \<Rightarrow> loop_event \<Rightarrow> 'p reconciler" where
  "loop_step pm r ev = (case ev of Tick en \<Rightarrow> reconcile pm en r | Probe en \<Rightarrow> snd (probe_lost_config pm en r))"

definition run_loop :: "'p proxy_iface \<Rightarrow> pass_env \<Rightarrow> loop_event list \<Rightarrow> 'p reconciler \<Rightarrow> 'p reconciler" where
  "run_loop pm en evs r = foldl (loop_step pm) (reconcile pm en r) evs"

section \<open>The contract of the proxy\<close>

text \<open>Go's map iteration: every element, once, in some order.\<close>

definition visits_all :: "pass_env \<Rightarrow> bool" where
  "visits_all en \<longleftrightarrow> (\<forall>es. mset (pe_visit en es) = mset es) \<and> (\<forall>ks. set (pe_visit_keys en ks) = set ks)"

text \<open>
  What a pass relies on. \<open>held\<close> is the application routes the proxy serves, by id; the dashboard's and
  the WAF's are not among them. \<open>places\<close> are the hostname and path pairs the proxy lists. Ensuring and
  removing act on one id; the other steps leave the application routes alone.
\<close>

definition config_id :: "(string \<Rightarrow> string \<Rightarrow> string) \<Rightarrow> route_config \<Rightarrow> string" where
  "config_id ident c = ident (rc_host c) (rc_path c)"

definition config_key :: "route_config \<Rightarrow> route_key" where
  "config_key c = key_for (rc_host c) (rc_path c)"

definition keeps_routes ::
    "('p \<Rightarrow> bool) \<Rightarrow> ('p \<Rightarrow> string \<Rightarrow> json option) \<Rightarrow> ('p \<Rightarrow> route_key set) \<Rightarrow> route_key set \<Rightarrow> ('p \<Rightarrow> 'e \<times> 'p) \<Rightarrow> bool" where
  "keeps_routes up held places new f \<longleftrightarrow>
     (\<forall>p. up p \<longrightarrow> up (snd (f p)) \<and> held (snd (f p)) = held p \<and> places (snd (f p)) \<subseteq> new \<union> places p)"

lemma expected_set_distinct:
  assumes "distinct (map config_key cfgs)"
  shows "expected_set cfgs = map (\<lambda>c. (config_key c, c)) cfgs"
proof -
  have "fold (\<lambda>c. put_member (key_for (rc_host c) (rc_path c)) c) cfgs acc = acc @ map (\<lambda>c. (config_key c, c)) cfgs"
    if "distinct (map fst acc @ map config_key cfgs)" for acc
    using that
  proof (induction cfgs arbitrary: acc)
    case (Cons c cs)
    then have "put_member (key_for (rc_host c) (rc_path c)) c acc = acc @ [(config_key c, c)]"
      by (simp add: put_member_new config_key_def)
    with Cons show ?case by simp
  qed simp
  from this [of "[]"] assms show ?thesis by (simp add: expected_set_def)
qed

lemma upd_then_add: "m(i \<mapsto> e) ++ map_of (rev l) = m ++ map_of (rev ((i, e) # l))"
  by (rule ext) (simp add: map_add_def split: option.splits)

locale proxy_manager =
  fixes pm :: "'p proxy_iface"
    and up :: "'p \<Rightarrow> bool"
    and held :: "'p \<Rightarrow> string \<Rightarrow> json option"
    and places :: "'p \<Rightarrow> route_key set"
    and ident :: "string \<Rightarrow> string \<Rightarrow> string"
    and entry :: "route_config \<Rightarrow> json"
    and loads :: "route_config \<Rightarrow> bool"
    and fits :: "string \<Rightarrow> bool"
    and waf_fits :: "waf_config \<Rightarrow> bool"
    and broken :: "route_config \<Rightarrow> bool"
  assumes root_ident: "ident h '''' = ident h ''/''"
    and ensure_law: "up p \<Longrightarrow> loads c \<Longrightarrow> \<exists>p'. pm_ensure pm c p = (Inr (held p (config_id ident c) \<noteq> Some (entry c)), p') \<and>
      up p' \<and> held p' = (held p)(config_id ident c \<mapsto> entry c) \<and> places p' \<subseteq> insert (config_key c) (places p)"
    and add_law: "up p \<Longrightarrow> loads c \<Longrightarrow> \<exists>p'. pm_add pm c p = (None, p') \<and> up p' \<and>
      held p' = (held p)(config_id ident c \<mapsto> entry c) \<and> places p' \<subseteq> insert (config_key c) (places p)"
    and broken_law: "up p \<Longrightarrow> broken c \<Longrightarrow> \<exists>e p'. pm_add pm c p = (Some e, p') \<and> up p' \<and>
      held p' = (held p)(config_id ident c := None) \<and> places p' \<subseteq> places p"
    and remove_law: "up p \<Longrightarrow> \<exists>p'. pm_remove pm h q p = (None, p') \<and> up p' \<and> held p' = (held p)(ident h q := None) \<and>
      places p' \<subseteq> places p"
    and list_law: "up p \<Longrightarrow> \<exists>ls. pm_list pm p = (Inr ls, p) \<and> set (current_keys ls) \<subseteq> places p \<and>
      (\<forall>i. held p i \<noteq> None \<longrightarrow> (\<exists>(h, q) \<in> set (current_keys ls). ident h q = i))"
    and dns_law: "keeps_routes up held places {} (pm_dns pm policies)"
    and auto_https_law: "keeps_routes up held places {} (pm_auto_https pm skip skip_certs)"
    and certificates_law: "keeps_routes up held places {} (pm_certificates pm certs)"
    and dashboard_law: "fits h \<Longrightarrow> keeps_routes up held places {(h, ''/'')} (pm_dashboard pm h m)"
    and waf_law: "waf_fits w \<Longrightarrow> keeps_routes up held places {} (pm_waf pm w)"
begin

lemma key_ident: "ident (fst (config_key c)) (snd (config_key c)) = config_id ident c"
  by (simp add: config_key_def config_id_def key_for_def root_ident)

lemma ensure_fold:
  assumes "up (sw_proxy s)" and "\<forall>kc \<in> set es. loads (snd kc)"
  shows "up (sw_proxy (fold (ensure_one pm cur) es s)) \<and>
    sw_error (fold (ensure_one pm cur) es s) = sw_error s \<and>
    sw_removed (fold (ensure_one pm cur) es s) = sw_removed s \<and>
    places (sw_proxy (fold (ensure_one pm cur) es s)) \<subseteq> (config_key \<circ> snd) ` set es \<union> places (sw_proxy s) \<and>
    held (sw_proxy (fold (ensure_one pm cur) es s)) =
      held (sw_proxy s) ++ map_of (rev (map (\<lambda>kc. (config_id ident (snd kc), entry (snd kc))) es))"
  using assms
proof (induction es arbitrary: s)
  case (Cons kc es)
  from Cons.prems(2) have "loads (snd kc)" by simp
  from ensure_law [OF Cons.prems(1) this] obtain p' where
    p: "pm_ensure pm (snd kc) (sw_proxy s) = (Inr (held (sw_proxy s) (config_id ident (snd kc)) \<noteq> Some (entry (snd kc))), p')"
    "up p'" "held p' = (held (sw_proxy s))(config_id ident (snd kc) \<mapsto> entry (snd kc))"
    "places p' \<subseteq> insert (config_key (snd kc)) (places (sw_proxy s))" by blast
  let ?s = "ensure_one pm cur kc s"
  have s: "sw_proxy ?s = p'" "sw_error ?s = sw_error s" "sw_removed ?s = sw_removed s"
    by (auto simp: ensure_one_def p(1) split: bool.splits)
  have "up (sw_proxy ?s)" using p(2) s by simp
  from Cons.IH [OF this] Cons.prems(2) p(3,4) s show ?case
    by (auto simp: upd_then_add simp del: rev.simps map_of_append fun_upd_apply)
qed simp

lemma ensure_fold_quiet:
  assumes "up (sw_proxy s)" and "\<forall>kc \<in> set es. loads (snd kc) \<and> held (sw_proxy s) (config_id ident (snd kc)) = Some (entry (snd kc))"
  shows "sw_added (fold (ensure_one pm cur) es s) = sw_added s \<and> sw_updated (fold (ensure_one pm cur) es s) = sw_updated s"
  using assms
proof (induction es arbitrary: s)
  case (Cons kc es)
  let ?i = "config_id ident (snd kc)"
  from Cons.prems(2) have h: "held (sw_proxy s) ?i = Some (entry (snd kc))" "loads (snd kc)" by simp_all
  from ensure_law [OF Cons.prems(1) h(2)] h(1) obtain p' where
    p: "pm_ensure pm (snd kc) (sw_proxy s) = (Inr False, p')" "up p'" "held p' = held (sw_proxy s)"
    by (auto simp: fun_upd_triv map_upd_triv)
  have s: "ensure_one pm cur kc s = s\<lparr>sw_proxy := p'\<rparr>" by (simp add: ensure_one_def p(1))
  have "up (sw_proxy (s\<lparr>sw_proxy := p'\<rparr>))" using p(2) by simp
  from Cons.IH [OF this] Cons.prems(2) p(3) s show ?case by simp
qed simp

lemma remove_fold:
  assumes "up (sw_proxy s)"
  shows "up (sw_proxy (fold (remove_one pm dash keep) cs s)) \<and>
    sw_error (fold (remove_one pm dash keep) cs s) = sw_error s \<and>
    sw_added (fold (remove_one pm dash keep) cs s) = sw_added s \<and>
    sw_updated (fold (remove_one pm dash keep) cs s) = sw_updated s \<and>
    places (sw_proxy (fold (remove_one pm dash keep) cs s)) \<subseteq> places (sw_proxy s) \<and>
    held (sw_proxy (fold (remove_one pm dash keep) cs s)) =
      (\<lambda>i. if \<exists>k \<in> set cs. \<not> (fst k = dash \<and> dash \<noteq> '''') \<and> k \<notin> keep \<and> ident (fst k) (snd k) = i then None
           else held (sw_proxy s) i)"
  using assms
proof (induction cs arbitrary: s)
  case (Cons k cs)
  show ?case
  proof (cases "(fst k = dash \<and> dash \<noteq> '''') \<or> k \<in> keep")
    case True
    then have "remove_one pm dash keep k s = s" by (simp add: remove_one_def)
    with Cons.IH [OF Cons.prems] True show ?thesis by auto
  next
    case False
    from remove_law [OF Cons.prems] obtain p' where
      p: "pm_remove pm (fst k) (snd k) (sw_proxy s) = (None, p')" "up p'"
      "held p' = (held (sw_proxy s))(ident (fst k) (snd k) := None)" "places p' \<subseteq> places (sw_proxy s)" by blast
    have s: "remove_one pm dash keep k s = s\<lparr>sw_proxy := p', sw_removed := sw_removed s + 1\<rparr>"
      using False by (auto simp: remove_one_def p(1))
    have "up (sw_proxy (remove_one pm dash keep k s))" using p(2) s by simp
    from Cons.IH [OF this] False p(3,4) s show ?thesis by (auto simp: fun_eq_iff)
  qed
qed simp

text \<open>The routes an id has after a sweep.\<close>

lemma sweep_law:
  assumes u: "up (sw_proxy s)" and ls: "set (current_keys ls) \<subseteq> places (sw_proxy s)"
    "\<forall>i. held (sw_proxy s) i \<noteq> None \<longrightarrow> (\<exists>(h, q) \<in> set (current_keys ls). ident h q = i)"
    and v: "\<And>es. mset (visit es) = mset es" "\<And>ks. set (visit_keys ks) = set ks"
    and l: "\<forall>c \<in> set cfgs. loads c" and d: "distinct (map config_key cfgs)"
    and inj: "inj_on (\<lambda>(h, q). ident h q) (config_key ` set cfgs \<union> places (sw_proxy s))"
  shows "up (sw_proxy (sweep_routes pm visit visit_keys dash cfgs ls s)) \<and>
    sw_error (sweep_routes pm visit visit_keys dash cfgs ls s) = sw_error s \<and>
    places (sw_proxy (sweep_routes pm visit visit_keys dash cfgs ls s)) \<subseteq> config_key ` set cfgs \<union> places (sw_proxy s) \<and>
    ((\<forall>c \<in> set cfgs. held (sw_proxy s) (config_id ident c) = Some (entry c)) \<longrightarrow>
       sw_added (sweep_routes pm visit visit_keys dash cfgs ls s) = sw_added s \<and>
       sw_updated (sweep_routes pm visit visit_keys dash cfgs ls s) = sw_updated s) \<and>
    (\<forall>c \<in> set cfgs. held (sw_proxy (sweep_routes pm visit visit_keys dash cfgs ls s)) (config_id ident c) = Some (entry c)) \<and>
    (\<forall>i. i \<notin> config_id ident ` set cfgs \<longrightarrow>
       held (sw_proxy (sweep_routes pm visit visit_keys dash cfgs ls s)) i =
       (if \<exists>(h, q) \<in> places (sw_proxy s). h = dash \<and> dash \<noteq> '''' \<and> ident h q = i then held (sw_proxy s) i else None))"
proof -
  define es where "es = visit (expected_set cfgs)"
  define cs where "cs = visit_keys (current_keys ls)"
  define s1 where "s1 = fold (ensure_one pm (set cs)) es s"
  define s2 where "s2 = fold (remove_one pm dash (set (map fst es))) cs s1"
  have es: "set es = (\<lambda>c. (config_key c, c)) ` set cfgs" "mset es = mset (map (\<lambda>c. (config_key c, c)) cfgs)"
    using v(1) [of "expected_set cfgs"] mset_eq_setD [OF v(1), of "expected_set cfgs"] expected_set_distinct [OF d]
    by (simp_all add: es_def)
  have cs: "set cs = set (current_keys ls)" by (simp add: cs_def v(2))
  have "\<forall>kc \<in> set es. loads (snd kc)" using es(1) l by auto
  note e = ensure_fold [OF u this, of "set cs", folded s1_def]
  have quiet: "sw_added s1 = sw_added s \<and> sw_updated s1 = sw_updated s"
    if "\<forall>c \<in> set cfgs. held (sw_proxy s) (config_id ident c) = Some (entry c)"
    using ensure_fold_quiet [OF u, of es "set cs", folded s1_def] that es(1) l by auto
  note r = remove_fold [OF conjunct1 [OF e], of dash "set (map fst es)" cs, folded s2_def]
  let ?L = "map (\<lambda>kc. (config_id ident (snd kc), entry (snd kc))) es"
  have inj': "inj_on (config_id ident) (set cfgs)"
  proof (rule inj_onI)
    fix a b assume ab: "a \<in> set cfgs" "b \<in> set cfgs" "config_id ident a = config_id ident b"
    then have "config_key a = config_key b"
      using inj_onD [OF inj, of "config_key a" "config_key b"] key_ident by (auto simp: case_prod_unfold)
    with ab d show "a = b" by (auto simp: distinct_map inj_on_def)
  qed
  have L: "map_of (rev ?L) (config_id ident c) = Some (entry c)" if "c \<in> set cfgs" for c
  proof -
    have "distinct (map (config_id ident) cfgs)" using inj' d by (simp add: distinct_map)
    moreover have "mset (map fst ?L) = mset (map (config_id ident) cfgs)"
      using arg_cong [OF es(2), of "image_mset (config_id ident \<circ> snd)"] by (simp add: multiset.map_comp o_def)
    ultimately have "distinct (map fst ?L)" using mset_eq_imp_distinct_iff by blast
    then have "distinct (map fst (rev ?L))" unfolding rev_map [symmetric] distinct_rev .
    moreover have "(config_id ident c, entry c) \<in> set (rev ?L)" using that es(1) by force
    ultimately show ?thesis by (rule map_of_is_SomeI)
  qed
  have none: "map_of (rev ?L) i = None" if "i \<notin> config_id ident ` set cfgs" for i
    using that es(1) by (auto simp: map_of_eq_None_iff)
  have "\<not> (\<exists>k \<in> set cs. \<not> (fst k = dash \<and> dash \<noteq> '''') \<and> k \<notin> set (map fst es) \<and> ident (fst k) (snd k) = config_id ident c)"
    if c: "c \<in> set cfgs" for c
  proof
    assume "\<exists>k \<in> set cs. \<not> (fst k = dash \<and> dash \<noteq> '''') \<and> k \<notin> set (map fst es) \<and> ident (fst k) (snd k) = config_id ident c"
    then obtain k where k: "k \<in> set cs" "k \<notin> set (map fst es)" "ident (fst k) (snd k) = config_id ident c" by blast
    then have "k \<in> places (sw_proxy s)" using ls(1) cs by blast
    then have "k = config_key c"
      using inj_onD [OF inj, of k "config_key c"] k(3) c key_ident by (auto simp: case_prod_unfold)
    with k(2) c es(1) show False by force
  qed
  then have kept: "\<forall>c \<in> set cfgs. held (sw_proxy s2) (config_id ident c) = Some (entry c)"
    using r e L by (simp add: map_add_def)
  have R: "held (sw_proxy s2) i = (if \<exists>k \<in> set cs. \<not> (fst k = dash \<and> dash \<noteq> '''') \<and> k \<notin> set (map fst es) \<and>
      ident (fst k) (snd k) = i then None else held (sw_proxy s1) i)" for i
    using r by simp
  have gone: "held (sw_proxy s2) i =
       (if \<exists>(h, q) \<in> places (sw_proxy s). h = dash \<and> dash \<noteq> '''' \<and> ident h q = i then held (sw_proxy s) i else None)"
    if i: "i \<notin> config_id ident ` set cfgs" for i
  proof -
    have h1: "held (sw_proxy s1) i = held (sw_proxy s) i" using e none [OF i] by (simp add: map_add_def)
    have nk: "k \<notin> set (map fst es)" if "ident (fst k) (snd k) = i" for k
      using that i es(1) key_ident by force
    show ?thesis
    proof (cases "held (sw_proxy s) i")
      case None
      then show ?thesis using r h1 by simp
    next
      case (Some x)
      with ls(2) have "\<exists>(h, q) \<in> set (current_keys ls). ident h q = i" by simp
      then obtain h q where hq: "(h, q) \<in> set (current_keys ls)" "ident h q = i" by blast
      have uq: "k = (h, q)" if "k \<in> places (sw_proxy s)" "ident (fst k) (snd k) = i" for k
        using inj_onD [OF inj, of k "(h, q)"] that hq ls(1) by (auto simp: case_prod_unfold)
      show ?thesis
      proof (cases "h = dash \<and> dash \<noteq> ''''")
        case True
        then have "\<not> (\<exists>k \<in> set cs. \<not> (fst k = dash \<and> dash \<noteq> '''') \<and> k \<notin> set (map fst es) \<and> ident (fst k) (snd k) = i)"
          using uq cs ls(1) by fastforce
        moreover have "\<exists>(h, q) \<in> places (sw_proxy s). h = dash \<and> dash \<noteq> '''' \<and> ident h q = i"
          using True hq ls(1) by blast
        ultimately show ?thesis by (simp only: R h1 if_True if_False)
      next
        case False
        then have "\<exists>k \<in> set cs. \<not> (fst k = dash \<and> dash \<noteq> '''') \<and> k \<notin> set (map fst es) \<and> ident (fst k) (snd k) = i"
          using hq cs nk [of "(h, q)"] by (intro bexI [of _ "(h, q)"]) auto
        moreover have "\<not> (\<exists>(h, q) \<in> places (sw_proxy s). h = dash \<and> dash \<noteq> '''' \<and> ident h q = i)"
          using uq False by fastforce
        ultimately show ?thesis by (simp only: R if_True if_False)
      qed
    qed
  qed
  have "sweep_routes pm visit visit_keys dash cfgs ls s = s2"
    by (simp add: sweep_routes_def es_def cs_def s1_def s2_def Let_def)
  moreover have "places (sw_proxy s2) \<subseteq> config_key ` set cfgs \<union> places (sw_proxy s)"
    using r e es(1) by (auto simp: image_image)
  ultimately show ?thesis using kept gone r e quiet by simp
qed

lemma step_keeps:
  assumes "keeps_routes up held places new f" and "up (sw_proxy s)"
  shows "up (sw_proxy (step_proxy f s))" "held (sw_proxy (step_proxy f s)) = held (sw_proxy s)"
    "places (sw_proxy (step_proxy f s)) \<subseteq> new \<union> places (sw_proxy s)"
proof -
  obtain e p where f: "f (sw_proxy s) = (e, p)" by fastforce
  then have s: "sw_proxy (step_proxy f s) = p" by (simp add: step_proxy_def)
  have "up (snd (f (sw_proxy s))) \<and> held (snd (f (sw_proxy s))) = held (sw_proxy s) \<and>
      places (snd (f (sw_proxy s))) \<subseteq> new \<union> places (sw_proxy s)"
    using assms unfolding keeps_routes_def by blast
  then show "up (sw_proxy (step_proxy f s))" "held (sw_proxy (step_proxy f s)) = held (sw_proxy s)"
    "places (sw_proxy (step_proxy f s)) \<subseteq> new \<union> places (sw_proxy s)"
    by (simp_all add: f s)
qed

lemma prepare_keeps:
  assumes "up (sw_proxy s)" and "fits (fst (dashboard_tls (pe_db en)))"
  shows "up (sw_proxy (prepare_proxy pm en cfgs s)) \<and> held (sw_proxy (prepare_proxy pm en cfgs s)) = held (sw_proxy s) \<and>
    places (sw_proxy (prepare_proxy pm en cfgs s)) \<subseteq> insert (fst (dashboard_tls (pe_db en)), ''/'') (places (sw_proxy s))"
proof -
  obtain plan dg failed where plan: "plan_dns_policies (pe_creds en) (pe_caps_dns en) (pe_dns_rows en) = (plan, dg, failed)"
    by (metis prod_cases3)
  obtain dash mode cert where dash: "dashboard_tls (pe_db en) = (dash, mode, cert)" by (metis prod_cases3)
  obtain skip skip_certs where skip: "auto_https_lists dash mode cfgs = (skip, skip_certs)" by fastforce
  define s1 where "s1 = note_error (if failed then Some DnsPlanFailed else None) s"
  define s2 where "s2 = (if \<not> failed \<or> plan \<noteq> [] then step_proxy (pm_dns pm plan) s1 else s1)"
  define s3 where "s3 = step_proxy (pm_auto_https pm skip skip_certs) s2"
  define s4 where "s4 = (case certificates_wanted (pe_db en) (pe_dec en) (pe_scan_uuid en) (dash, mode, cert) of
                 None \<Rightarrow> note_error (Some QueryFailed) s3
               | Some certs \<Rightarrow> step_proxy (pm_certificates pm certs) s3)"
  define s5 where "s5 = step_proxy (pm_dashboard pm dash mode) s4"
  have p: "prepare_proxy pm en cfgs s = s5"
    unfolding prepare_proxy_def plan dash prod.case skip Let_def s5_def s4_def s3_def s2_def s1_def by (rule refl)
  have 1: "sw_proxy s1 = sw_proxy s" by (simp add: s1_def note_error_def)
  then have u1: "up (sw_proxy s1)" using assms(1) by simp
  have 2: "up (sw_proxy s2)" "held (sw_proxy s2) = held (sw_proxy s)" "places (sw_proxy s2) \<subseteq> places (sw_proxy s)"
    using step_keeps [OF dns_law u1] u1 1 by (auto simp: s2_def)
  note 3 = step_keeps [OF auto_https_law [of skip skip_certs] 2(1), folded s3_def]
  have 4: "up (sw_proxy s4)" "held (sw_proxy s4) = held (sw_proxy s3)" "places (sw_proxy s4) \<subseteq> places (sw_proxy s3)"
    using step_keeps [OF certificates_law 3(1)] 3(1) by (auto simp: s4_def note_error_def split: option.splits)
  have "fits dash" using assms(2) dash by simp
  note 5 = step_keeps [OF dashboard_law [OF this, of mode] 4(1), folded s5_def]
  show ?thesis using 2 3 4 5 by (auto simp: p dash)
qed

lemma waf_keeps:
  assumes "up p" and "\<And>w. set (wc_hosts w) \<subseteq> rc_host ` set cfgs \<Longrightarrow> waf_fits w"
  shows "up (snd (snd (sync_waf pm en cfgs dash prev p))) \<and> held (snd (snd (sync_waf pm en cfgs dash prev p))) = held p \<and>
    places (snd (snd (sync_waf pm en cfgs dash prev p))) \<subseteq> places p"
proof (cases "waf_wanted (pe_db en)")
  case (Inr wanted)
  let ?hosts = "sorted_hosts (filter (\<lambda>h. h \<noteq> '''' \<and> h \<noteq> dash) (map rc_host cfgs))"
  obtain act st where d: "waf_decision (pe_caps_waf en) wanted ?hosts prev = (act, st)" by fastforce
  show ?thesis
  proof (cases act)
    case None
    then show ?thesis using assms(1) by (simp add: sync_waf_def Inr Let_def d)
  next
    case (Some on)
    have "set ?hosts \<subseteq> rc_host ` set cfgs" by (auto simp: sorted_hosts_def)
    then have "waf_fits \<lparr>wc_enabled = on, wc_hosts = ?hosts\<rparr>" using assms(2) by simp
    then have k: "keeps_routes up held places {} (pm_waf pm \<lparr>wc_enabled = on, wc_hosts = ?hosts\<rparr>)" by (rule waf_law)
    obtain e p1 where f: "pm_waf pm \<lparr>wc_enabled = on, wc_hosts = ?hosts\<rparr> p = (e, p1)" by fastforce
    from k assms(1) have "up (snd (e, p1)) \<and> held (snd (e, p1)) = held p \<and> places (snd (e, p1)) \<subseteq> {} \<union> places p"
      unfolding keeps_routes_def f [symmetric] by blast
    with Some show ?thesis
      by (simp add: sync_waf_def Inr Let_def d f split: option.splits)
  qed
qed (use assms(1) in \<open>simp add: sync_waf_def\<close>)

lemma pass_law:
  assumes u: "up (re_proxy r)" and w: "build_expected (pe_db en) (pe_dec en) = Some (wanted, networks)"
    and c: "cfgs = fst (degrade (pe_caps en) wanted)" and dash: "dash = fst (dashboard_tls (pe_db en))"
    and v: "visits_all en" and l: "\<forall>c \<in> set cfgs. loads c" and d: "distinct (map config_key cfgs)"
    and inj: "inj_on (\<lambda>(h, q). ident h q) (config_key ` set cfgs \<union> insert (dash, ''/'') (places (re_proxy r)))"
    and fit: "fits dash" "\<And>w. set (wc_hosts w) \<subseteq> rc_host ` set cfgs \<Longrightarrow> waf_fits w"
  shows "up (re_proxy (reconcile pm en r)) \<and>
    places (re_proxy (reconcile pm en r)) \<subseteq> config_key ` set cfgs \<union> insert (dash, ''/'') (places (re_proxy r)) \<and>
    ((\<forall>c \<in> set cfgs. held (re_proxy r) (config_id ident c) = Some (entry c)) \<longrightarrow>
       rs_added (re_status (reconcile pm en r)) = 0 \<and> rs_updated (re_status (reconcile pm en r)) = 0) \<and>
    (\<forall>c \<in> set cfgs. held (re_proxy (reconcile pm en r)) (config_id ident c) = Some (entry c)) \<and>
    (\<forall>i. i \<notin> config_id ident ` set cfgs \<longrightarrow> \<not> (dash \<noteq> '''' \<and> (\<exists>q. ident dash q = i)) \<longrightarrow>
       held (re_proxy (reconcile pm en r)) i = None) \<and>
    (\<forall>q. (dash, q) \<in> places (re_proxy r) \<longrightarrow> dash \<noteq> '''' \<longrightarrow> ident dash q \<notin> config_id ident ` set cfgs \<longrightarrow>
       held (re_proxy (reconcile pm en r)) (ident dash q) = held (re_proxy r) (ident dash q))"
proof -
  let ?s0 = "started (re_proxy r)" and ?s1 = "prepare_proxy pm en cfgs (started (re_proxy r))"
  have s0: "sw_proxy ?s0 = re_proxy r" by (simp add: started_def)
  have p1: "up (sw_proxy ?s1)" "held (sw_proxy ?s1) = held (re_proxy r)"
    "places (sw_proxy ?s1) \<subseteq> insert (dash, ''/'') (places (re_proxy r))"
    using prepare_keeps [of ?s0 en cfgs] u fit(1) by (simp_all add: s0 dash)
  from list_law [OF p1(1)] obtain ls where ls: "pm_list pm (sw_proxy ?s1) = (Inr ls, sw_proxy ?s1)"
    "set (current_keys ls) \<subseteq> places (sw_proxy ?s1)"
    "\<forall>i. held (sw_proxy ?s1) i \<noteq> None \<longrightarrow> (\<exists>(h, q) \<in> set (current_keys ls). ident h q = i)" by blast
  let ?s2 = "sweep_routes pm (pe_visit en) (pe_visit_keys en) dash cfgs ls ?s1"
  have "inj_on (\<lambda>(h, q). ident h q) (config_key ` set cfgs \<union> places (sw_proxy ?s1))"
    using inj p1(3) by (rule inj_on_subset [OF _ Un_mono [OF order_refl]])
  from sweep_law [where visit = "pe_visit en" and visit_keys = "pe_visit_keys en", OF p1(1) ls(2,3) _ _ l d this, of dash] v
  have s2: "up (sw_proxy ?s2)"
    "places (sw_proxy ?s2) \<subseteq> config_key ` set cfgs \<union> places (sw_proxy ?s1)"
    "(\<forall>c \<in> set cfgs. held (re_proxy r) (config_id ident c) = Some (entry c)) \<Longrightarrow>
       sw_added ?s2 = sw_added ?s1 \<and> sw_updated ?s2 = sw_updated ?s1"
    "\<And>c. c \<in> set cfgs \<Longrightarrow> held (sw_proxy ?s2) (config_id ident c) = Some (entry c)"
    "\<And>i. i \<notin> config_id ident ` set cfgs \<Longrightarrow> held (sw_proxy ?s2) i =
      (if \<exists>(h, q) \<in> places (sw_proxy ?s1). h = dash \<and> dash \<noteq> '''' \<and> ident h q = i then held (re_proxy r) i else None)"
    unfolding visits_all_def p1(2) by blast+
  let ?w = "sync_waf pm en cfgs dash (re_waf r) (sw_proxy ?s2)"
  have s1eq: "?s1\<lparr>sw_proxy := sw_proxy ?s1\<rparr> = ?s1" by simp
  have "re_proxy (reconcile pm en r) = snd (snd ?w)"
    by (simp add: reconcile_def w Let_def c [symmetric] dash [symmetric] ls(1) finish_pass_def note_error_def split: prod.splits)
  with waf_keeps [where en = en and dash = dash and prev = "re_waf r", OF s2(1) fit(2)]
  have fin: "up (re_proxy (reconcile pm en r))" "held (re_proxy (reconcile pm en r)) = held (sw_proxy ?s2)"
    "places (re_proxy (reconcile pm en r)) \<subseteq> places (sw_proxy ?s2)" by simp_all
  have prep: "sw_added ?s1 = 0" "sw_updated ?s1 = 0"
    by (simp_all add: prepare_proxy_def started_def note_error_def step_proxy_def Let_def split: prod.splits option.splits)
  have cnt: "rs_added (re_status (reconcile pm en r)) = sw_added ?s2" "rs_updated (re_status (reconcile pm en r)) = sw_updated ?s2"
    by (simp_all add: reconcile_def w Let_def c [symmetric] dash [symmetric] ls(1) finish_pass_def note_error_def split: prod.splits)
  have "held (sw_proxy ?s2) (ident dash q) = held (re_proxy r) (ident dash q)"
    if q: "(dash, q) \<in> places (re_proxy r)" "dash \<noteq> ''''" "ident dash q \<notin> config_id ident ` set cfgs" for q
  proof (cases "held (re_proxy r) (ident dash q)")
    case None
    then show ?thesis by (simp only: s2(5) [OF q(3)] if_cancel)
  next
    case (Some x)
    with ls(3) p1(2) obtain h q' where hq: "(h, q') \<in> set (current_keys ls)" "ident h q' = ident dash q" by fastforce
    then have "(h, q') = (dash, q)"
      using inj_onD [OF inj, of "(h, q')" "(dash, q)"] q(1) ls(2) p1(3) by auto
    then have "\<exists>(h, q') \<in> places (sw_proxy ?s1). h = dash \<and> dash \<noteq> '''' \<and> ident h q' = ident dash q"
      using hq ls(2) q(2) by blast
    then show ?thesis by (simp only: s2(5) [OF q(3)] if_True)
  qed
  moreover have "held (sw_proxy ?s2) i = None"
    if i: "i \<notin> config_id ident ` set cfgs" "\<not> (dash \<noteq> '''' \<and> (\<exists>q. ident dash q = i))" for i
  proof -
    have "\<not> (\<exists>(h, q) \<in> places (sw_proxy ?s1). h = dash \<and> dash \<noteq> '''' \<and> ident h q = i)" using i(2) by blast
    then show ?thesis by (simp only: s2(5) [OF i(1)] if_False)
  qed
  ultimately show ?thesis using fin s2(2,3,4) p1(3) cnt prep by auto
qed

end

section \<open>Degrading keeps every route\<close>

definition without_features :: "route_config \<Rightarrow> route_config" where
  "without_features c = c\<lparr>rc_features := []\<rparr>"

definition degraded_places :: "degradation list \<Rightarrow> (string \<times> string \<times> string) list" where
  "degraded_places ds = map (\<lambda>d. (dg_host d, dg_path d, dg_feature d)) ds"

lemma set_sort_degradations [simp]: "set (sort_degradations ds) = set ds"
  by (simp add: sort_degradations_def)

text \<open>
  degrading never drops a route. Whatever modules the running Caddy has, the degraded configurations
  are the expected ones, in their order, with fewer features; no enabled feature whose module is absent
  is left in them; a feature is missing only because its module is; and the report names exactly what is
  missing.
\<close>
theorem degrade_loses_no_route:
  "case degrade (Some caps) cfgs of (out, report) \<Rightarrow>
     map without_features out = map without_features cfgs \<and>
     map rc_features out = map (\<lambda>c. filter (\<lambda>f. \<not> withheld caps f) (rc_features c)) cfgs \<and>
     set (degraded_places report) = (\<Union>c \<in> set cfgs.
       (\<lambda>f. (fst (config_key c), snd (config_key c), rf_type f)) ` set (filter (withheld caps) (rc_features c)))"
proof (cases "list_ex (\<lambda>c. list_ex (\<lambda>f. rf_enabled f \<and> required_module (rf_type f) \<noteq> '''') (rc_features c)) cfgs")
  case True
  then show ?thesis
    by (simp add: degrade_def Let_def without_features_def config_key_def key_for_def degraded_places_def o_def image_UN image_image)
next
  case False
  then have n: "\<not> withheld caps f" if "c \<in> set cfgs" "f \<in> set (rc_features c)" for c f
    using that by (auto simp: list_ex_iff withheld_def)
  then have "map rc_features cfgs = map (\<lambda>c. filter (\<lambda>f. \<not> withheld caps f) (rc_features c)) cfgs"
    by (auto simp: filter_id_conv)
  with n False show ?thesis by (auto simp: degrade_def degraded_places_def)
qed

section \<open>Since when\<close>

lemma carry_find:
  assumes "d \<in> set ds" "same_place d e" "\<And>d' d''. d' \<in> set ds \<Longrightarrow> d'' \<in> set ds \<Longrightarrow> same_place d' d'' \<Longrightarrow> d' = d''"
  shows "find (\<lambda>p. same_place p e) ds = Some d"
proof -
  have "find (\<lambda>p. same_place p e) ds \<noteq> None" using assms(1,2) by (auto simp: find_None_iff)
  then obtain x where x: "find (\<lambda>p. same_place p e) ds = Some x" by blast
  then have "x \<in> set ds" "same_place x e" by (auto simp: find_Some_iff)
  then have "x = d" using assms by (auto simp: same_place_def)
  with x show ?thesis by simp
qed

lemma carry_since_standing:
  assumes "distinct (map (\<lambda>d. (dg_host d, dg_path d, dg_feature d)) new)"
  shows "carry_since (carry_since prev new t) new t' = carry_since prev new t"
proof -
  have m: "find (\<lambda>p. same_place p d) (carry_since prev new t) =
      Some (d\<lparr>dg_since := (case find (\<lambda>p. same_place p d) prev of Some p \<Rightarrow> dg_since p | None \<Rightarrow> t)\<rparr>)"
    if d: "d \<in> set new" for d
  proof (rule carry_find)
    show "d\<lparr>dg_since := (case find (\<lambda>p. same_place p d) prev of Some p \<Rightarrow> dg_since p | None \<Rightarrow> t)\<rparr> \<in> set (carry_since prev new t)"
      using d by (simp add: carry_since_def)
    fix d' d'' assume "d' \<in> set (carry_since prev new t)" "d'' \<in> set (carry_since prev new t)" "same_place d' d''"
    then obtain a b where ab: "a \<in> set new" "b \<in> set new"
      "d' = a\<lparr>dg_since := (case find (\<lambda>p. same_place p a) prev of Some p \<Rightarrow> dg_since p | None \<Rightarrow> t)\<rparr>"
      "d'' = b\<lparr>dg_since := (case find (\<lambda>p. same_place p b) prev of Some p \<Rightarrow> dg_since p | None \<Rightarrow> t)\<rparr>"
      "same_place a b" by (auto simp: carry_since_def same_place_def)
    then have "a = b" using assms by (auto simp: distinct_map inj_on_def same_place_def)
    with ab show "d' = d''" by simp
  qed (simp add: same_place_def)
  show ?thesis
    unfolding carry_since_def [of "carry_since prev new t"] by (subst (2) carry_since_def) (auto simp: m)
qed

lemma reconcile_degraded:
  assumes "build_expected (pe_db en) (pe_dec en) = Some (wanted, networks)"
  shows "rs_degraded (re_status (reconcile pm en r)) =
    carry_since (rs_degraded (re_status r)) (pass_degradations en wanted) (pe_now en)"
  by (simp add: reconcile_def assms Let_def finish_pass_def split: prod.splits sum.splits)

text \<open>
  a failed pass forgets since when. Between two passes with the same degradations nothing changes,
  since and all, so a standing condition keeps its age and is logged once; but when the list of
  applications cannot be read in between, the report is emptied and the next pass starts the age of
  every degradation at its own time.
\<close>
theorem failed_pass_forgets_degradations:
  assumes "build_expected (pe_db en) (pe_dec en) = Some (wanted, networks)"
    and "build_expected (pe_db en') (pe_dec en') = Some (wanted, networks')"
    and "pass_degradations en' wanted = pass_degradations en wanted"
    and "distinct (degraded_places (pass_degradations en wanted))"
    and "build_expected (pe_db bad) (pe_dec bad) = None"
  shows "\<not> degradations_changed (rs_degraded (re_status (reconcile pm en r)))
      (rs_degraded (re_status (reconcile pm en' (reconcile pm en r)))) \<and>
    rs_degraded (re_status (reconcile pm bad (reconcile pm en r))) = [] \<and>
    (\<forall>d \<in> set (rs_degraded (re_status (reconcile pm en' (reconcile pm bad (reconcile pm en r))))). dg_since d = pe_now en')"
proof -
  have b: "rs_degraded (re_status (reconcile pm bad q)) = []" for q
    by (simp add: reconcile_def assms(5) finish_pass_def)
  have "rs_degraded (re_status (reconcile pm en' (reconcile pm en r))) = rs_degraded (re_status (reconcile pm en r))"
    using carry_since_standing [OF assms(4) [unfolded degraded_places_def]]
    by (simp add: reconcile_degraded [OF assms(1)] reconcile_degraded [OF assms(2)] assms(3))
  then show ?thesis
    by (auto simp: degradations_changed_def b reconcile_degraded [OF assms(2)] carry_since_def)
qed

section \<open>The probe is edge triggered\<close>

text \<open>A run of probes: whether each started a pass, and what it concluded.\<close>

fun probe_trace :: "'p proxy_iface \<Rightarrow> 'p reconciler \<Rightarrow> pass_env list \<Rightarrow> (bool \<times> caddy_state) list" where
  "probe_trace pm r [] = []"
| "probe_trace pm r (en # ens) =
     (case probe_lost_config pm en r of (fire, r') \<Rightarrow> (fire, re_probe r') # probe_trace pm r' ens)"

fun changes :: "'a list \<Rightarrow> nat" where
  "changes (x # y # ys) = (if x = y then 0 else 1) + changes (y # ys)"
| "changes _ = 0"

lemma reconcile_probe: "re_probe (reconcile pm en r) = re_probe r"
  by (simp add: reconcile_def finish_pass_def Let_def split: option.splits prod.splits sum.splits)

text \<open>
  C36: the probe is edge triggered. However often Caddy is probed and whatever it answers, the passes the
  probes start are at most as many as the changes of the observed state, so a Caddy that cannot be
  restored is not reconciled every three seconds; and the first probe that finds the routes gone, or
  Caddy back after it was unreachable, starts one.
\<close>
theorem probe_is_edge_triggered:
  "length (filter fst (probe_trace pm r ens)) \<le> changes (re_probe r # map snd (probe_trace pm r ens)) \<and>
   fst (probe_lost_config pm en r) =
     (case (next_caddy_state (fst (pm_list pm (re_proxy r))) (re_expected r), re_probe r) of
        (CaddyLostConfig, s) \<Rightarrow> s \<noteq> CaddyLostConfig
      | (CaddyHealthy, CaddyUnreachable) \<Rightarrow> True
      | (CaddyHealthy, CaddyUnknown) \<Rightarrow> rs_error (re_status r) \<noteq> None
      | _ \<Rightarrow> False)"
proof
  show "length (filter fst (probe_trace pm r ens)) \<le> changes (re_probe r # map snd (probe_trace pm r ens))"
  proof (induction ens arbitrary: r)
    case (Cons e es)
    obtain f r' where p: "probe_lost_config pm e r = (f, r')" by fastforce
    have "f \<longrightarrow> re_probe r \<noteq> re_probe r'"
      using p by (auto simp: probe_lost_config_def Let_def reconcile_probe probe_should_reconcile_def
          split: prod.splits caddy_state.splits)
    with Cons.IH [of r'] show ?case by (auto simp: p)
  qed simp
  show "fst (probe_lost_config pm en r) =
     (case (next_caddy_state (fst (pm_list pm (re_proxy r))) (re_expected r), re_probe r) of
        (CaddyLostConfig, s) \<Rightarrow> s \<noteq> CaddyLostConfig
      | (CaddyHealthy, CaddyUnreachable) \<Rightarrow> True
      | (CaddyHealthy, CaddyUnknown) \<Rightarrow> rs_error (re_status r) \<noteq> None
      | _ \<Rightarrow> False)"
    by (cases "pm_list pm (re_proxy r)")
       (auto simp: probe_lost_config_def Let_def probe_should_reconcile_def split: caddy_state.splits)
qed

definition idle_proxy :: "unit proxy_iface" where
  "idle_proxy = \<lparr>pm_add = (\<lambda>_ _. (None, ())), pm_ensure = (\<lambda>_ _. (Inr False, ())), pm_remove = (\<lambda>_ _ _. (None, ())), pm_list = (\<lambda>_. (Inr [], ())),
     pm_dashboard = (\<lambda>_ _ _. (None, ())), pm_waf = (\<lambda>_ _. (None, ())), pm_certificates = (\<lambda>_ _. (None, ())),
     pm_auto_https = (\<lambda>_ _ _. (None, ())), pm_dns = (\<lambda>_ _. (None, ()))\<rparr>"

definition idle_db :: "app_row list option \<Rightarrow> proxy_db" where
  "idle_db apps = \<lparr>pd_applications = apps, pd_slugs = (\<lambda>_. None), pd_domains = (\<lambda>_. None), pd_application = (\<lambda>_. None),
     pd_features = (\<lambda>_. None), pd_certificate = (\<lambda>_. None), pd_custom_certs = Some [], pd_setting = (\<lambda>_. NoSetting)\<rparr>"

text \<open>One domain is waiting for the DNS challenge and has no provider.\<close>

definition idle_pass :: "app_row list option \<Rightarrow> instant \<Rightarrow> pass_env" where
  "idle_pass apps now = \<lparr>pe_db = idle_db apps,
     pe_dns_rows = Some [\<lparr>dr_host = ''a.io'', dr_path = ''/'', dr_provider_id = None, dr_provider = '''', dr_creds = []\<rparr>],
     pe_dec = (\<lambda>_. None), pe_creds = (\<lambda>_. None), pe_scan_uuid = (\<lambda>_. None), pe_caps = None, pe_caps_dns = None,
     pe_caps_waf = None, pe_container = '''', pe_now = now, pe_visit = id, pe_visit_keys = id\<rparr>"

definition idle_reconciler :: "unit reconciler" where
  "idle_reconciler = \<lparr>re_proxy = (),
     re_status = \<lparr>rs_added = 0, rs_updated = 0, rs_removed = 0, rs_runs = 0, rs_drift = 0, rs_error = None, rs_degraded = []\<rparr>,
     re_expected = 0, re_probe = CaddyUnknown,
     re_waf = \<lparr>ws_active = False, ws_hosts = 0, ws_reason = '''', ws_error = None\<rparr>, re_joined = []\<rparr>"

theorem failed_pass_forgets_degradations_witness:
  "\<exists>d. rs_degraded (re_status (reconcile idle_proxy (idle_pass (Some []) 30)
       (reconcile idle_proxy (idle_pass None 20) (reconcile idle_proxy (idle_pass (Some []) 10) idle_reconciler)))) = [d] \<and>
     dg_since d = 30"
proof -
  let ?good = "\<lambda>t. idle_pass (Some []) t"
  have b: "build_expected (pe_db (?good t)) (pe_dec (?good t)) = Some ([], [])" for t
    by (simp add: idle_pass_def idle_db_def build_expected_def)
  have n: "build_expected (pe_db (idle_pass None 20)) (pe_dec (idle_pass None 20)) = None"
    by (simp add: idle_pass_def idle_db_def build_expected_def)
  have g: "pass_degradations (?good t) [] = [\<lparr>dg_host = ''a.io'', dg_path = ''/'', dg_feature = feature_dns_challenge, dg_module = '''',
      dg_reason = reason_no_provider, dg_since = 0\<rparr>]" for t
    by (simp add: pass_degradations_def idle_pass_def degrade_def plan_dns_policies_def plan_row_def dns_degradation_def Let_def
        sort_degradations_def sort_by_def)
  have now: "pe_now (?good 30) = 30" by (simp add: idle_pass_def)
  have "\<forall>d \<in> set (rs_degraded (re_status (reconcile idle_proxy (?good 30)
       (reconcile idle_proxy (idle_pass None 20) (reconcile idle_proxy (?good 10) idle_reconciler))))). dg_since d = 30"
    using failed_pass_forgets_degradations [OF b b _ _ n, of 30 10 idle_proxy idle_reconciler] unfolding g now
    by (simp add: degraded_places_def)
  then show ?thesis
    by (simp add: reconcile_degraded [OF b] g carry_since_def)
qed

end
