(* ===== verification/ProxyPass.thy ===== *)
theory ProxyPass
  imports Reconciler
begin

text \<open>
  The Caddy client provides what the reconciler relies on: the interpretation of \<open>proxy_manager\<close> on
  \<open>caddy_proxy\<close>, against any Caddy that keeps the contract \<open>caddy_ok\<close>, and the theorems about whole
  reconcile passes that follow from it.
\<close>

section \<open>A Caddy whose table Belune wrote\<close>

definition place_listed :: "json \<Rightarrow> listed_route list" where
  "place_listed r = listed (fst (list_probe r))"

text \<open>
  A route a pass can deal with: it decodes; the text of its body is not mistaken for a missing object; a
  route under the dashboard's id is the dashboard's; any other application route has the id of the
  hostname and path it is listed under.
\<close>

definition good_route :: "'s caddy_view \<Rightarrow> build_env \<Rightarrow> json \<Rightarrow> bool" where
  "good_route V env r \<longleftrightarrow> snd (list_probe r) \<and> \<not> unknown_object (cv_text V r) \<and>
     (route_id r = dashboard_route_id \<longrightarrow> (\<exists>d. dashboard_of r = Some d \<and> ds_host d \<noteq> '''')) \<and>
     (is_domain_route r \<longrightarrow> route_id r = dashboard_route_id \<or>
        (\<exists>l. place_listed r = [l] \<and> route_id r = route_id_for (be_sha env) (li_host l) (li_path l)))"

definition serving :: "'s caddy \<Rightarrow> 's caddy_view \<Rightarrow> build_env \<Rightarrow> string \<Rightarrow> 's px \<Rightarrow> bool" where
  "serving http V env addr px \<longleftrightarrow> ready http V px \<and> px_dashboard px = addr \<and>
     \<not> unknown_object (cv_text V (json_norm (marshal_route (catch_all_route addr)))) \<and>
     (\<forall>r \<in> set (table V px). good_route V env r)"

definition held_routes :: "'s caddy_view \<Rightarrow> 's px \<Rightarrow> string \<Rightarrow> json option" where
  "held_routes V px i = (if i = dashboard_route_id then None
     else find (\<lambda>r. is_domain_route r \<and> route_id r = i) (table V px))"

definition listed_places :: "'s caddy_view \<Rightarrow> 's px \<Rightarrow> route_key set" where
  "listed_places V px = set (current_keys (concat (map place_listed (table V px))))"

definition loadable :: "'s caddy_view \<Rightarrow> build_env \<Rightarrow> route_config \<Rightarrow> bool" where
  "loadable V env c \<longleftrightarrow> servable V env c \<and> (rc_path c = '''' \<or> stored_path (rc_path c)) \<and> cfg_id env c \<noteq> dashboard_route_id \<and>
     \<not> unknown_object (cv_text V (table_entry env c))"

definition dashboard_fits :: "'s caddy_view \<Rightarrow> string \<Rightarrow> string \<Rightarrow> bool" where
  "dashboard_fits V addr h \<longleftrightarrow> h = '''' \<or> (\<forall>f. cv_loads V (marshal_route (dashboard_route h f addr)) \<and>
     \<not> unknown_object (cv_text V (json_norm (marshal_route (dashboard_route h f addr)))))"

definition waf_fits :: "'s caddy_view \<Rightarrow> waf_config \<Rightarrow> bool" where
  "waf_fits V w \<longleftrightarrow> \<not> unknown_object (cv_text V (json_norm (marshal_route (build_waf_route (waf_hosts (wc_hosts w))))))"

section \<open>The routes Belune writes are good\<close>

lemma good_catch_all:
  assumes "\<not> unknown_object (cv_text V (json_norm (marshal_route (catch_all_route up))))"
  shows "good_route V env (json_norm (marshal_route (catch_all_route up)))"
proof -
  have "list_all is_map (cr_handle (catch_all_route up))" by (simp add: catch_all_route_def new_reverse_proxy_handle_def is_map_def)
  then show ?thesis
    using assms catch_all_not_domain
    by (simp add: good_route_def list_probe_norm route_id_marshal catch_all_route_def catch_all_route_id_def dashboard_route_id_def)
qed

lemma good_dashboard:
  assumes "\<not> unknown_object (cv_text V (json_norm (marshal_route (dashboard_route h f up))))" and "h \<noteq> ''''"
  shows "good_route V env (json_norm (marshal_route (dashboard_route h f up)))"
proof -
  have "list_all is_map (cr_handle (dashboard_route h f up))"
    by (simp add: dashboard_route_def new_reverse_proxy_handle_def is_map_def https_redirect_def subroute_def)
  then show ?thesis
    using assms by (simp add: good_route_def list_probe_norm route_id_marshal dashboard_of_own) (simp add: dashboard_route_def)
qed

lemma good_waf:
  assumes "\<not> unknown_object (cv_text V (json_norm (marshal_route (build_waf_route hs))))"
  shows "good_route V env (json_norm (marshal_route (build_waf_route hs)))"
proof -
  have "list_all is_map (cr_handle (build_waf_route hs))" by (simp add: build_waf_route_def is_map_def)
  then show ?thesis
    using assms by (simp add: good_route_def list_probe_norm route_id_marshal is_domain_route_def)
      (simp add: build_waf_route_def waf_route_id_def dashboard_route_id_def)
qed

lemma listed_entry:
  assumes "loadable V env c"
  shows "place_listed (table_entry env c) = [\<lparr>li_host = rc_host c,
    li_path = (if is_root_path (rc_path c) then ''/'' else rc_path c), li_target = target_to_dial (rc_target c)\<rparr>]"
    "snd (list_probe (table_entry env c))"
proof -
  from assms obtain r where r: "build_route env c = Inr r" "cr_id r \<notin> {catch_all_route_id, waf_route_id}"
    by (auto simp: loadable_def servable_def)
  have "\<not> suffix ''/*'' (rc_path c)" using assms stored_no_star by (auto simp: loadable_def)
  from list_round_trip [OF r(1) this] r(2) show "place_listed (table_entry env c) = [\<lparr>li_host = rc_host c,
    li_path = (if is_root_path (rc_path c) then ''/'' else rc_path c), li_target = target_to_dial (rc_target c)\<rparr>]"
    "snd (list_probe (table_entry env c))"
    by (auto simp: table_entry_Inr [OF r(1)] list_decoded_def place_listed_def split: if_splits)
qed

lemma root_route_id: "is_root_path p \<Longrightarrow> route_id_for sha h p = route_id_for sha h ''/''"
  by (simp add: route_id_for_def is_root_path_def)

lemma route_id_entry:
  assumes "servable V env c"
  shows "route_id (table_entry env c) = cfg_id env c" "is_domain_route (table_entry env c)"
proof -
  from assms obtain r where r: "build_route env c = Inr r" "cr_id r \<notin> {catch_all_route_id, waf_route_id}"
    by (auto simp: servable_def)
  show "route_id (table_entry env c) = cfg_id env c"
    using built_match(1) [OF r(1)] by (simp add: table_entry_Inr [OF r(1)] route_id_marshal)
  show "is_domain_route (table_entry env c)"
    using built_is_domain [OF r] by (simp add: table_entry_Inr [OF r(1)])
qed

lemma good_entry:
  assumes "loadable V env c"
  shows "good_route V env (table_entry env c)"
proof -
  have s: "servable V env c" using assms by (simp add: loadable_def)
  show ?thesis
    using assms listed_entry [OF assms] route_id_entry [OF s] root_route_id [of "rc_path c"]
    by (simp add: good_route_def loadable_def)
qed

section \<open>The routes held\<close>

lemma option_eqI: "(\<And>e. x = Some e \<longleftrightarrow> y = Some e) \<Longrightarrow> x = y"
  by (cases x; cases y) auto

lemma good_id: "good_route V env r \<Longrightarrow> is_domain_route r \<Longrightarrow> route_id r \<noteq> ''''"
  by (auto simp: good_route_def dashboard_route_id_def route_id_for_def split: if_splits)

lemma serving_facts:
  assumes "serving http V env addr px"
  shows "ready http V px" "px_dashboard px = addr" "distinct (ids (table V px))" "map json_norm (table V px) = table V px"
    "\<And>r. r \<in> set (table V px) \<Longrightarrow> good_route V env r"
  using assms ready_table by (auto simp: serving_def table_ok_def ids_def)

lemma held_Some:
  assumes "serving http V env addr px"
  shows "held_routes V px i = Some e \<longleftrightarrow> i \<noteq> dashboard_route_id \<and> e \<in> set (table V px) \<and> is_domain_route e \<and> route_id e = i"
proof
  assume "held_routes V px i = Some e"
  then show "i \<noteq> dashboard_route_id \<and> e \<in> set (table V px) \<and> is_domain_route e \<and> route_id e = i"
    by (auto simp: held_routes_def find_Some_iff split: if_splits)
next
  assume e: "i \<noteq> dashboard_route_id \<and> e \<in> set (table V px) \<and> is_domain_route e \<and> route_id e = i"
  with good_id serving_facts(5) [OF assms] have i: "i \<noteq> ''''" by blast
  have "find (\<lambda>r. is_domain_route r \<and> route_id r = i) (table V px) \<noteq> None"
    using e by (auto simp: find_None_iff)
  then obtain x where x: "find (\<lambda>r. is_domain_route r \<and> route_id r = i) (table V px) = Some x" by blast
  then have "x \<in> set (table V px)" "route_id x = i" by (auto simp: find_Some_iff)
  with e i serving_facts(3) [OF assms] find_entry [of x _ i] find_entry [of e _ i] have "x = e" by force
  with x e show "held_routes V px i = Some e" by (simp add: held_routes_def)
qed

lemma held_same:
  assumes "serving http V env addr px" "serving http V env addr px'"
    and "set (filter (\<lambda>r. is_domain_route r \<and> route_id r \<noteq> dashboard_route_id) (table V px')) =
      set (filter (\<lambda>r. is_domain_route r \<and> route_id r \<noteq> dashboard_route_id) (table V px))"
  shows "held_routes V px' = held_routes V px"
proof (rule ext, rule option_eqI)
  fix i e
  from assms(3) show "held_routes V px' i = Some e \<longleftrightarrow> held_routes V px i = Some e"
    unfolding held_Some [OF assms(1)] held_Some [OF assms(2)] by auto
qed

lemma serving_kept:
  assumes "serving http V env addr px" "leaves http V px' rs" "px_dashboard px' = addr"
    and "\<And>x. x \<in> set rs \<Longrightarrow> x \<in> set (table V px) \<or> good_route V env x"
  shows "serving http V env addr px'"
  using assms by (auto simp: serving_def leaves_def)

section \<open>The client's operations keep the contract\<close>

lemma place_catch_all: "place_listed (json_norm (marshal_route (catch_all_route up))) = []"
proof -
  have "list_all is_map (cr_handle (catch_all_route up))" by (simp add: catch_all_route_def new_reverse_proxy_handle_def is_map_def)
  then show ?thesis by (simp add: place_listed_def list_probe_norm listed_def probes_of_def) (simp add: catch_all_route_def)
qed

lemma place_dashboard: "\<exists>t. place_listed (json_norm (marshal_route (dashboard_route h f up))) = [\<lparr>li_host = h, li_path = ''/'', li_target = t\<rparr>]"
proof -
  have "list_all is_map (cr_handle (dashboard_route h f up))"
    by (simp add: dashboard_route_def new_reverse_proxy_handle_def is_map_def https_redirect_def subroute_def)
  moreover have "cr_match (dashboard_route h f up) = [\<lparr>cm_host = [h], cm_path = []\<rparr>]" "cr_id (dashboard_route h f up) \<noteq> waf_route_id"
    by (simp_all add: dashboard_route_def dashboard_route_id_def waf_route_id_def)
  ultimately show ?thesis
    by (simp add: place_listed_def list_probe_norm listed_def probes_of_def path_from_matcher_def)
qed

lemma place_waf: "place_listed (json_norm (marshal_route (build_waf_route hs))) = []"
proof -
  have "list_all is_map (cr_handle (build_waf_route hs))" by (simp add: build_waf_route_def is_map_def)
  then show ?thesis by (simp add: place_listed_def list_probe_norm listed_def) (simp add: build_waf_route_def)
qed

lemma place_entry:
  assumes "loadable V env c" "l \<in> set (place_listed (table_entry env c))"
  shows "key_for (li_host l) (li_path l) = config_key c"
  using assms(2) unfolding listed_entry(1) [OF assms(1)] by (auto simp: config_key_def key_for_def is_root_path_def)

lemma listed_places_sub:
  assumes "\<And>x. x \<in> set (table V px') \<Longrightarrow> x \<in> set (table V px) \<or> (\<forall>l \<in> set (place_listed x). key_for (li_host l) (li_path l) \<in> A)"
  shows "listed_places V px' \<subseteq> A \<union> listed_places V px"
  using assms by (fastforce simp: listed_places_def current_keys_def)

lemma replaced_keeps:
  assumes s: "serving http V env addr px" and l: "loadable V env c" and r: "ready http V px'"
    and m: "mset (filter is_domain_route (table V px')) =
       mset (filter (\<lambda>r. is_domain_route r \<and> route_id r \<noteq> cfg_id env c) (table V px)) + {#table_entry env c#}"
    and u: "px_dashboard px' = px_dashboard px"
    and mem: "\<forall>x \<in> set (table V px'). x \<in> set (table V px) \<or> x = table_entry env c \<or>
       x = json_norm (marshal_route (catch_all_route (px_dashboard px)))"
  shows "serving http V env addr px' \<and> held_routes V px' = (held_routes V px)(cfg_id env c \<mapsto> table_entry env c) \<and>
    listed_places V px' \<subseteq> insert (config_key c) (listed_places V px)"
proof -
  note f = serving_facts [OF s]
  have sv: "servable V env c" and nd: "cfg_id env c \<noteq> dashboard_route_id" using l by (simp_all add: loadable_def)
  note e = route_id_entry [OF sv]
  have "set (filter is_domain_route (table V px')) =
      insert (table_entry env c) (set (filter (\<lambda>r. is_domain_route r \<and> route_id r \<noteq> cfg_id env c) (table V px)))"
    using arg_cong [OF m, of set_mset] by (simp del: mset_filter)
  then have dom: "x \<in> set (table V px') \<and> is_domain_route x \<longleftrightarrow>
      x = table_entry env c \<or> (x \<in> set (table V px) \<and> is_domain_route x \<and> route_id x \<noteq> cfg_id env c)" for x
    by auto
  have good: "good_route V env (json_norm (marshal_route (catch_all_route addr)))"
    by (rule good_catch_all) (use s in \<open>unfold serving_def, blast\<close>)
  have s': "serving http V env addr px'"
    using r u mem f(2) good good_entry [OF l] by (intro serving_kept [OF s, of px' "table V px'"]) (auto simp: leaves_def)
  have "held_routes V px' = (held_routes V px)(cfg_id env c \<mapsto> table_entry env c)"
  proof (rule ext, rule option_eqI)
    fix i x
    show "held_routes V px' i = Some x \<longleftrightarrow> ((held_routes V px)(cfg_id env c \<mapsto> table_entry env c)) i = Some x"
      using held_Some [OF s', of i x] held_Some [OF s, of i x] dom [of x] e nd by auto
  qed
  moreover have "listed_places V px' \<subseteq> {config_key c} \<union> listed_places V px"
    using mem place_entry [OF l] place_catch_all by (intro listed_places_sub) fastforce
  ultimately show ?thesis using s' by auto
qed

lemma ensure_keeps:
  assumes s: "serving http V env addr px" and l: "loadable V env c"
  shows "\<exists>px'. ensure_route http env c px = (Inr (held_routes V px (cfg_id env c) \<noteq> Some (table_entry env c)), px') \<and>
    serving http V env addr px' \<and> held_routes V px' = (held_routes V px)(cfg_id env c \<mapsto> table_entry env c) \<and>
    listed_places V px' \<subseteq> insert (config_key c) (listed_places V px)"
proof -
  note f = serving_facts [OF s]
  have sv: "servable V env c" and nd: "cfg_id env c \<noteq> dashboard_route_id" using l by (simp_all add: loadable_def)
  have plain: "\<not> unknown_object (cv_text V r)" if "r = table_entry env c \<or> r \<in> set (table V px)" for r
    using that f(5) l by (auto simp: loadable_def good_route_def)
  have "held_routes V px (cfg_id env c) = Some (table_entry env c) \<longleftrightarrow> table_entry env c \<in> set (table V px)"
    using held_Some [OF s] route_id_entry [OF sv] nd by simp
  moreover from ensure_settles [OF f(1) sv plain] obtain px' where p:
    "ensure_route http env c px = (Inr (table_entry env c \<notin> set (table V px)), px')" "ready http V px'"
    "mset (filter is_domain_route (table V px')) =
       mset (filter (\<lambda>r. is_domain_route r \<and> route_id r \<noteq> cfg_id env c) (table V px)) + {#table_entry env c#}"
    "px_dashboard px' = px_dashboard px"
    "\<forall>x \<in> set (table V px'). x \<in> set (table V px) \<or> x = table_entry env c \<or>
       x = json_norm (marshal_route (catch_all_route (px_dashboard px)))" by blast
  ultimately show ?thesis using replaced_keeps [OF s l p(2-5)] by (intro exI [of _ px']) simp
qed

lemma add_keeps:
  assumes s: "serving http V env addr px" and l: "loadable V env c"
  shows "\<exists>px'. add_route http env c px = (None, px') \<and> serving http V env addr px' \<and>
    held_routes V px' = (held_routes V px)(cfg_id env c \<mapsto> table_entry env c) \<and>
    listed_places V px' \<subseteq> insert (config_key c) (listed_places V px)"
proof -
  have "servable V env c" using l by (simp add: loadable_def)
  from add_settles [OF serving_facts(1) [OF s] this] obtain px' where p:
    "add_route http env c px = (None, px')" "ready http V px'"
    "mset (filter is_domain_route (table V px')) =
       mset (filter (\<lambda>r. is_domain_route r \<and> route_id r \<noteq> cfg_id env c) (table V px)) + {#table_entry env c#}"
    "px_dashboard px' = px_dashboard px"
    "\<forall>x \<in> set (table V px'). x \<in> set (table V px) \<or> x = table_entry env c \<or>
       x = json_norm (marshal_route (catch_all_route (px_dashboard px)))" by blast
  from replaced_keeps [OF s l p(2-5)] p(1) show ?thesis by blast
qed

lemma remove_keeps:
  assumes s: "serving http V env addr px"
  shows "\<exists>px'. remove_route http env h q px = (None, px') \<and> serving http V env addr px' \<and>
    held_routes V px' = (held_routes V px)(route_id_for (be_sha env) h q := None) \<and> listed_places V px' \<subseteq> listed_places V px"
proof -
  note f = serving_facts [OF s]
  have l: "leaves http V px (table V px)" using f(1) by (simp add: leaves_def)
  from remove_route_ready [OF l, of env h q] obtain px' where p: "remove_route http env h q px = (None, px')"
    "px_dashboard px' = px_dashboard px"
    "leaves http V px' (filter (\<lambda>r. route_id r \<noteq> route_id_for (be_sha env) h q) (table V px))" by blast
  have s': "serving http V env addr px'"
    using p(2) f(2) by (intro serving_kept [OF s p(3)]) auto
  have "held_routes V px' = (held_routes V px)(route_id_for (be_sha env) h q := None)"
  proof (rule ext, rule option_eqI)
    fix i x
    show "held_routes V px' i = Some x \<longleftrightarrow> ((held_routes V px)(route_id_for (be_sha env) h q := None)) i = Some x"
      using held_Some [OF s', of i x] held_Some [OF s, of i x] leaves_table [OF p(3)] by auto
  qed
  moreover have "listed_places V px' \<subseteq> {} \<union> listed_places V px"
    using leaves_table [OF p(3)] by (intro listed_places_sub) auto
  ultimately show ?thesis using p(1) s' by blast
qed

definition unbuildable :: "build_env \<Rightarrow> route_config \<Rightarrow> bool" where
  "unbuildable env c \<longleftrightarrow> (\<exists>e. build_route env c = Inl e)"

lemma add_broken:
  assumes "serving http V env addr px" and "unbuildable env c"
  shows "\<exists>e px'. add_route http env c px = (Some e, px') \<and> serving http V env addr px' \<and>
    held_routes V px' = (held_routes V px)(cfg_id env c := None) \<and> listed_places V px' \<subseteq> listed_places V px"
  using remove_keeps [OF assms(1), of "rc_host c" "rc_path c"] assms(2)
  by (auto simp: unbuildable_def add_route_def)

lemma list_keeps:
  assumes s: "serving http V env addr px"
  shows "\<exists>ls. list_routes http px = (Inr ls, px) \<and> set (current_keys ls) \<subseteq> listed_places V px \<and>
    (\<forall>i. held_routes V px i \<noteq> None \<longrightarrow> (\<exists>(h, q) \<in> set (current_keys ls). route_id_for (be_sha env) h q = i))"
proof -
  note f = serving_facts [OF s]
  let ?ls = "concat (map place_listed (table V px))"
  have "list_all (snd \<circ> list_probe) (table V px)" using f(5) by (auto simp: list_all_iff good_route_def)
  then have d: "list_decoded (table V px) = Some ?ls"
    by (simp add: list_decoded_def place_listed_def [abs_def] o_def)
  obtain t where "http GET routes_path None (px_caddy px) = (Reply 200 (Raw (JArr (table V px))) t, px_caddy px)"
    using ready_reads [OF f(1)] by (auto simp: reads_ok_def)
  then have "list_routes http px = (Inr ?ls, px)"
    by (simp add: list_routes_def request_ready [OF f(1)] decode_array_def d)
  moreover have "\<exists>(h, q) \<in> set (current_keys ?ls). route_id_for (be_sha env) h q = i" if "held_routes V px i \<noteq> None" for i
  proof -
    from that obtain r where "held_routes V px i = Some r" by blast
    then have r: "i \<noteq> dashboard_route_id" "r \<in> set (table V px)" "is_domain_route r" "route_id r = i"
      using held_Some [OF s] by blast+
    with f(5) [OF r(2)] obtain l where l: "place_listed r = [l]" "i = route_id_for (be_sha env) (li_host l) (li_path l)"
      by (auto simp: good_route_def)
    then have "l \<in> set ?ls" using r(2) by force
    then have "key_for (li_host l) (li_path l) \<in> set (current_keys ?ls)" by (simp add: current_keys_def)
    moreover have "route_id_for (be_sha env) (fst (key_for (li_host l) (li_path l))) (snd (key_for (li_host l) (li_path l))) = i"
      using l(2) by (simp add: key_for_def route_id_for_def is_root_path_def)
    ultimately show ?thesis by (intro bexI [of _ "key_for (li_host l) (li_path l)"]) (auto simp: case_prod_unfold)
  qed
  ultimately show ?thesis by (auto simp: listed_places_def)
qed

lemma frame_keeps:
  assumes "\<And>px. ready http V px \<Longrightarrow> leaves http V (snd (f px)) (table V px) \<and> px_dashboard (snd (f px)) = px_dashboard px"
  shows "keeps_routes (serving http V env addr) (held_routes V) (listed_places V) {} f"
  unfolding keeps_routes_def
proof (intro allI impI)
  fix px assume s: "serving http V env addr px"
  note g = serving_facts [OF s]
  have l: "leaves http V (snd (f px)) (table V px)" "px_dashboard (snd (f px)) = addr"
    using assms [OF g(1)] g(2) by auto
  then have t: "table V (snd (f px)) = table V px" by (simp add: leaves_table)
  have s': "serving http V env addr (snd (f px))" by (rule serving_kept [OF s l]) simp
  with t held_same [OF s s'] show "serving http V env addr (snd (f px)) \<and> held_routes V (snd (f px)) = held_routes V px \<and>
      listed_places V (snd (f px)) \<subseteq> {} \<union> listed_places V px"
    by (simp add: listed_places_def)
qed

lemma dns_keeps: "keeps_routes (serving http V env addr) (held_routes V) (listed_places V) {} (sync_dns_policies http ps)"
proof (rule frame_keeps)
  fix px :: "'a px" assume r: "ready http V px"
  then have l: "leaves http V px (table V px)" by (simp add: leaves_def)
  have rd: "leaves http V (snd (read_automation http px)) (table V px) \<and> same_client px (snd (read_automation http px))"
    using config_request [OF l, of automation_path GET None]
    by (auto simp: read_automation_def split: prod.splits caddy_reply.splits raw_json.splits json.splits)
  have wr: "leaves http V (snd (write_automation http ms p)) rs \<and> same_client p (snd (write_automation http ms p))"
    if lp: "leaves http V p rs" for p ms rs
  proof -
    note d = do_config_leaves [where path = automation_path, simplified]
    obtain st p1 where p: "do_config http PUT automation_path (JObj ms) p = (st, p1)" by fastforce
    with d [OF lp, of PUT "JObj ms"] have l1: "leaves http V p1 rs" "same_client p p1" by simp_all
    with d [OF l1(1), of PATCH "JObj ms"] p show ?thesis
      by (auto simp: write_automation_def Let_def same_client_def split: prod.splits)
  qed
  obtain a px1 where p: "read_automation http px = (a, px1)" by fastforce
  with rd have l1: "leaves http V px1 (table V px)" "same_client px px1" by simp_all
  with wr [OF l1(1)] p show "leaves http V (snd (sync_dns_policies http ps px)) (table V px) \<and>
      px_dashboard (snd (sync_dns_policies http ps px)) = px_dashboard px"
    by (auto simp: sync_dns_policies_def same_client_def split: sum.splits option.splits)
qed

lemma auto_https_keeps: "keeps_routes (serving http V env addr) (held_routes V) (listed_places V) {} (sync_auto_https http a b)"
proof (rule frame_keeps)
  fix px :: "'a px" assume r: "ready http V px"
  let ?px = "px\<lparr>px_skip := set a, px_skip_certs := set b\<rparr>"
  from r have "ready http V ?px" by simp
  from ensure_server_ready [OF this] show "leaves http V (snd (sync_auto_https http a b px)) (table V px) \<and>
      px_dashboard (snd (sync_auto_https http a b px)) = px_dashboard px"
    by (simp add: sync_auto_https_def same_client_def)
qed

lemma certificates_keeps: "keeps_routes (serving http V env addr) (held_routes V) (listed_places V) {} (sync_certificates http cs)"
proof (rule frame_keeps)
  fix px :: "'a px" assume "ready http V px"
  then have "leaves http V px (table V px)" by (simp add: leaves_def)
  from sync_certificates_leaves [OF this, of cs] show "leaves http V (snd (sync_certificates http cs px)) (table V px) \<and>
      px_dashboard (snd (sync_certificates http cs px)) = px_dashboard px"
    by (simp add: same_client_def)
qed

lemma dashboard_keeps:
  assumes "dashboard_fits V addr h"
  shows "keeps_routes (serving http V env addr) (held_routes V) (listed_places V) {(h, ''/'')} (set_dashboard_route http h m)"
  unfolding keeps_routes_def
proof (intro allI impI)
  fix px assume s: "serving http V env addr px"
  note g = serving_facts [OF s]
  let ?d = "json_norm (marshal_route (dashboard_route h (m \<noteq> ''off'') addr))"
  let ?c = "json_norm (marshal_route (catch_all_route addr))"
  have ld: "h \<noteq> '''' \<Longrightarrow> cv_loads V (marshal_route (dashboard_route h (m \<noteq> ''off'') (px_dashboard px)))"
    using assms g(2) by (simp add: dashboard_fits_def)
  have "\<forall>r \<in> set (table V px). route_id r = dashboard_route_id \<longrightarrow> (\<exists>d. dashboard_of r = Some d \<and> ds_host d \<noteq> '''')"
    using g(5) by (auto simp: good_route_def)
  from dashboard_settles [OF g(1) ld this] obtain px' where p: "set_dashboard_route http h m px = (None, px')" "ready http V px'"
    "mset (filter (\<lambda>r. is_domain_route r \<and> route_id r \<noteq> dashboard_route_id) (table V px')) =
       mset (filter (\<lambda>r. is_domain_route r \<and> route_id r \<noteq> dashboard_route_id) (table V px))"
    "px_dashboard px' = addr"
    "\<And>x. x \<in> set (table V px') \<Longrightarrow> x \<in> set (table V px) \<or> (h \<noteq> '''' \<and> x = ?d) \<or> x = ?c"
    unfolding g(2) by blast
  have c: "good_route V env ?c" by (rule good_catch_all) (use s in \<open>unfold serving_def, blast\<close>)
  have d: "h \<noteq> '''' \<Longrightarrow> good_route V env ?d"
    by (rule good_dashboard) (use assms in \<open>unfold dashboard_fits_def, blast\<close>)
  have s': "serving http V env addr px'"
    using p(2,4,5) c d by (intro serving_kept [OF s, of px' "table V px'"]) (auto simp: leaves_def)
  have "held_routes V px' = held_routes V px"
    using held_same [OF s s'] mset_eq_setD [OF p(3)] by blast
  moreover have "listed_places V px' \<subseteq> {(h, ''/'')} \<union> listed_places V px"
  proof (rule listed_places_sub)
    fix x assume x: "x \<in> set (table V px')"
    obtain t where "place_listed ?d = [\<lparr>li_host = h, li_path = ''/'', li_target = t\<rparr>]" using place_dashboard by blast
    with p(5) [OF x] place_catch_all [of addr]
    show "x \<in> set (table V px) \<or> (\<forall>l \<in> set (place_listed x). key_for (li_host l) (li_path l) \<in> {(h, ''/'')})"
      by (auto simp: key_for_def)
  qed
  ultimately show "serving http V env addr (snd (set_dashboard_route http h m px)) \<and>
      held_routes V (snd (set_dashboard_route http h m px)) = held_routes V px \<and>
      listed_places V (snd (set_dashboard_route http h m px)) \<subseteq> {(h, ''/'')} \<union> listed_places V px"
    using p(1) s' by simp
qed

text \<open>The WAF's route is written apart; whatever Caddy answers, the application routes stay.\<close>

lemma writes_first:
  "writes_ok http V s \<Longrightarrow> route_id (json_norm r) \<notin> set (map route_id (cv_table V s)) \<Longrightarrow>
   answers http V PUT first_route_path (Some r) s (if cv_loads V r then json_norm r # cv_table V s else cv_table V s)"
  unfolding writes_ok_def by blast

lemma writes_patch_id:
  "writes_ok http V s \<Longrightarrow> route_id (json_norm r) \<noteq> '''' \<Longrightarrow> route_id (json_norm r) \<in> set (map route_id (cv_table V s)) \<Longrightarrow>
   answers http V PATCH (id_path (route_id (json_norm r))) (Some r) s
     (if cv_loads V r then map (\<lambda>x. if route_id x = route_id (json_norm r) then json_norm r else x) (cv_table V s)
      else cv_table V s)"
  unfolding writes_ok_def by blast

lemma waf_table:
  assumes s: "serving http V env addr px" and w: "waf_fits V w"
  shows "\<exists>rs. leaves http V (snd (sync_waf_route http w px)) rs \<and> px_dashboard (snd (sync_waf_route http w px)) = addr \<and>
    (\<forall>x \<in> set rs. x \<in> set (table V px) \<or> x = json_norm (marshal_route (build_waf_route (waf_hosts (wc_hosts w))))) \<and>
    set (filter is_domain_route rs) = set (filter is_domain_route (table V px))"
proof -
  note g = serving_facts [OF s]
  let ?d = "marshal_route (build_waf_route (waf_hosts (wc_hosts w)))"
  have id: "route_id (json_norm ?d) = waf_route_id" by (simp add: route_id_marshal build_waf_route_def)
  then have nd: "\<not> is_domain_route (json_norm ?d)" by (simp add: is_domain_route_def)
  have ne: "waf_route_id \<noteq> ''''" by (simp add: waf_route_id_def)
  have skip: "leaves http V px (table V px)" using g(1) by (simp add: leaves_def)
  have "fetch_route_by_id http waf_route_id px = (Inr (map_option Raw (find (\<lambda>r. route_id r = waf_route_id) (table V px))), px)"
    using g(5) by (intro fetch_by_id_ready [OF g(1) ne]) (auto simp: good_route_def)
  moreover have "find (\<lambda>r. route_id r = waf_route_id) (table V px) = None \<longleftrightarrow> waf_route_id \<notin> route_id ` set (table V px)"
    unfolding find_None_iff by force
  ultimately obtain cur where f: "fetch_route_by_id http waf_route_id px = (Inr cur, px)"
    "cur = None \<longleftrightarrow> waf_route_id \<notin> route_id ` set (table V px)"
    by (metis option.map_disc_iff)
  have after: "snd (sync_waf_route http w px) =
      (if \<not> wc_enabled w \<or> waf_hosts (wc_hosts w) = [] then
         (case cur of None \<Rightarrow> px | Some _ \<Rightarrow> snd (delete_route_by_id http waf_route_id px))
       else case cur of
         Some c \<Rightarrow> if route_json_equal c ?d then px else snd (send_json http PATCH (id_path waf_route_id) ?d px)
       | None \<Rightarrow> snd (send_json http PUT first_route_path ?d px))"
    by (cases cur) (simp_all add: sync_waf_route_def f(1) Let_def split: sum.splits prod.splits)
  consider (none) "snd (sync_waf_route http w px) = px"
    | (del) "snd (sync_waf_route http w px) = snd (delete_route_by_id http waf_route_id px)"
    | (patch) "snd (sync_waf_route http w px) = snd (send_json http PATCH (id_path waf_route_id) ?d px)" "cur \<noteq> None"
    | (put) "snd (sync_waf_route http w px) = snd (send_json http PUT first_route_path ?d px)" "cur = None"
    using after by (cases cur) (simp_all split: if_splits)
  then show ?thesis
  proof cases
    case none
    then show ?thesis using skip g(2) by auto
  next
    case del
    with delete_ready [OF g(1) ne] g(2) show ?thesis
      by (auto simp: same_client_def is_domain_route_def)
  next
    case patch
    with f(2) have "waf_route_id \<in> set (map route_id (table V px))" by auto
    from writes_patch_id [OF ready_writes [OF g(1)], of ?d, unfolded id, OF ne this]
    have "answers http V PATCH (id_path waf_route_id) (Some ?d) (px_caddy px)
      (if cv_loads V ?d then map (\<lambda>x. if route_id x = waf_route_id then json_norm ?d else x) (table V px) else table V px)" .
    from send_json_ready [OF g(1) this] patch(1) g(2) have l: "leaves http V (snd (sync_waf_route http w px))
      (if cv_loads V ?d then map (\<lambda>x. if route_id x = waf_route_id then json_norm ?d else x) (table V px) else table V px)"
      "px_dashboard (snd (sync_waf_route http w px)) = addr" by (auto simp: same_client_def)
    have keep: "x \<in> set (table V px) \<and> is_domain_route x \<Longrightarrow> route_id x \<noteq> waf_route_id" for x by (simp add: is_domain_route_def)
    show ?thesis
      using l nd by (intro exI conjI) (assumption, assumption, (auto simp: is_domain_route_def id dest: keep split: if_splits)+)
  next
    case put
    with f(2) have "route_id (json_norm ?d) \<notin> set (map route_id (table V px))" by (auto simp: id)
    from send_json_ready [OF g(1) writes_first [OF ready_writes [OF g(1)] this]] put(1) g(2) nd show ?thesis
      by (intro exI [of _ "if cv_loads V ?d then json_norm ?d # table V px else table V px"]) (auto simp: same_client_def)
  qed
qed

lemma waf_keeps_caddy:
  assumes "waf_fits V w"
  shows "keeps_routes (serving http V env addr) (held_routes V) (listed_places V) {} (sync_waf_route http w)"
  unfolding keeps_routes_def
proof (intro allI impI)
  fix px assume s: "serving http V env addr px"
  let ?d = "json_norm (marshal_route (build_waf_route (waf_hosts (wc_hosts w))))"
  from waf_table [OF s assms] obtain rs where r: "leaves http V (snd (sync_waf_route http w px)) rs"
    "px_dashboard (snd (sync_waf_route http w px)) = addr" "\<And>x. x \<in> set rs \<Longrightarrow> x \<in> set (table V px) \<or> x = ?d"
    "set (filter is_domain_route rs) = set (filter is_domain_route (table V px))" by blast
  have "good_route V env ?d" using assms by (intro good_waf) (simp add: waf_fits_def)
  then have s': "serving http V env addr (snd (sync_waf_route http w px))"
    using r(3) by (intro serving_kept [OF s r(1,2)]) auto
  have "held_routes V (snd (sync_waf_route http w px)) = held_routes V px"
    using r(4) leaves_table [OF r(1)] by (intro held_same [OF s s']) auto
  moreover have "listed_places V (snd (sync_waf_route http w px)) \<subseteq> {} \<union> listed_places V px"
    using r(3) leaves_table [OF r(1)] place_waf by (intro listed_places_sub) force
  ultimately show "serving http V env addr (snd (sync_waf_route http w px)) \<and>
      held_routes V (snd (sync_waf_route http w px)) = held_routes V px \<and>
      listed_places V (snd (sync_waf_route http w px)) \<subseteq> {} \<union> listed_places V px" using s' by simp
qed

interpretation caddy: proxy_manager "caddy_proxy http env" "serving http V env addr" "held_routes V" "listed_places V"
  "route_id_for (be_sha env)" "table_entry env" "loadable V env" "dashboard_fits V addr" "waf_fits V" "unbuildable env"
  for http :: "'s caddy" and V env addr
proof
  show "route_id_for (be_sha env) h '''' = route_id_for (be_sha env) h ''/''" for h by (simp add: route_id_for_def is_root_path_def)
  show "\<exists>ls. pm_list (caddy_proxy http env) p = (Inr ls, p) \<and> set (current_keys ls) \<subseteq> listed_places V p \<and>
      (\<forall>i. held_routes V p i \<noteq> None \<longrightarrow> (\<exists>(h, q) \<in> set (current_keys ls). route_id_for (be_sha env) h q = i))"
    if "serving http V env addr p" for p
    using list_keeps [OF that] by (simp only: caddy_proxy_def proxy_iface.simps)
qed (simp_all add: caddy_proxy_def config_id_def ensure_keeps add_keeps add_broken remove_keeps list_keeps dns_keeps auto_https_keeps
    certificates_keeps dashboard_keeps waf_keeps_caddy)

section \<open>A pass converges\<close>

text \<open>
  The situation a pass is made for: Caddy is up and holds only routes Belune wrote; the database answers,
  its rows have distinct places and render to routes this Caddy loads; and the ids of the places involved
  differ (they carry 24 bits of a digest).
\<close>

definition dashboard_host :: "pass_env \<Rightarrow> string" where
  "dashboard_host en = fst (dashboard_tls (pe_db en))"

definition pass_configs :: "pass_env \<Rightarrow> route_config list option" where
  "pass_configs en = map_option (\<lambda>(wanted, _). fst (degrade (pe_caps en) wanted)) (build_expected (pe_db en) (pe_dec en))"

definition reconcilable ::
    "'s caddy \<Rightarrow> 's caddy_view \<Rightarrow> build_env \<Rightarrow> string \<Rightarrow> pass_env \<Rightarrow> route_config list \<Rightarrow> 's px reconciler \<Rightarrow> bool" where
  "reconcilable http V env addr en cfgs r \<longleftrightarrow>
     serving http V env addr (re_proxy r) \<and> visits_all en \<and> pass_configs en = Some cfgs \<and>
     (\<forall>c \<in> set cfgs. loadable V env c) \<and> distinct (map config_key cfgs) \<and>
     inj_on (\<lambda>(h, q). route_id_for (be_sha env) h q)
       (config_key ` set cfgs \<union> insert (dashboard_host en, ''/'') (listed_places V (re_proxy r))) \<and>
     dashboard_fits V addr (dashboard_host en) \<and> (\<forall>w. set (wc_hosts w) \<subseteq> rc_host ` set cfgs \<longrightarrow> waf_fits V w)"

lemma pass_facts:
  assumes "reconcilable http V env addr en cfgs r"
  defines "r' \<equiv> reconcile (caddy_proxy http env) en r"
  shows "serving http V env addr (re_proxy r')"
    "listed_places V (re_proxy r') \<subseteq> config_key ` set cfgs \<union> insert (dashboard_host en, ''/'') (listed_places V (re_proxy r))"
    "(\<forall>c \<in> set cfgs. held_routes V (re_proxy r) (cfg_id env c) = Some (table_entry env c)) \<Longrightarrow>
       rs_added (re_status r') = 0 \<and> rs_updated (re_status r') = 0"
    "\<And>c. c \<in> set cfgs \<Longrightarrow> held_routes V (re_proxy r') (cfg_id env c) = Some (table_entry env c)"
    "\<And>i. i \<notin> cfg_id env ` set cfgs \<Longrightarrow>
       dashboard_host en = '''' \<or> i \<notin> range (route_id_for (be_sha env) (dashboard_host en)) \<Longrightarrow>
       held_routes V (re_proxy r') i = None"
    "\<And>q. (dashboard_host en, q) \<in> listed_places V (re_proxy r) \<Longrightarrow> dashboard_host en \<noteq> '''' \<Longrightarrow>
       route_id_for (be_sha env) (dashboard_host en) q \<notin> cfg_id env ` set cfgs \<Longrightarrow>
       held_routes V (re_proxy r') (route_id_for (be_sha env) (dashboard_host en) q) =
       held_routes V (re_proxy r) (route_id_for (be_sha env) (dashboard_host en) q)"
proof -
  from assms(1) obtain wanted networks where w: "build_expected (pe_db en) (pe_dec en) = Some (wanted, networks)"
    and c: "cfgs = fst (degrade (pe_caps en) wanted)"
    by (auto simp: reconcilable_def pass_configs_def)
  have id: "config_id (route_id_for (be_sha env)) = cfg_id env" by (simp add: config_id_def fun_eq_iff)
  note law = caddy.pass_law [where en = en and r = r and http = http and V = V and env = env and addr = addr,
    OF _ w c refl, folded dashboard_host_def r'_def, unfolded id]
  note l = law [OF conjunct1 [OF assms(1) [unfolded reconcilable_def]]]
  have l': "visits_all en" "\<forall>c \<in> set cfgs. loadable V env c" "distinct (map config_key cfgs)"
    "inj_on (\<lambda>(h, q). route_id_for (be_sha env) h q)
       (config_key ` set cfgs \<union> insert (dashboard_host en, ''/'') (listed_places V (re_proxy r)))"
    "dashboard_fits V addr (dashboard_host en)" "\<And>w. set (wc_hosts w) \<subseteq> rc_host ` set cfgs \<Longrightarrow> waf_fits V w"
    using assms(1) unfolding reconcilable_def by blast+
  note p = l [OF l']
  show "serving http V env addr (re_proxy r')"
    "listed_places V (re_proxy r') \<subseteq> config_key ` set cfgs \<union> insert (dashboard_host en, ''/'') (listed_places V (re_proxy r))"
    using p by blast+
  show "(\<forall>c \<in> set cfgs. held_routes V (re_proxy r) (cfg_id env c) = Some (table_entry env c)) \<Longrightarrow>
       rs_added (re_status r') = 0 \<and> rs_updated (re_status r') = 0"
    "\<And>c. c \<in> set cfgs \<Longrightarrow> held_routes V (re_proxy r') (cfg_id env c) = Some (table_entry env c)"
    using p by blast+
  show "\<And>i. i \<notin> cfg_id env ` set cfgs \<Longrightarrow>
       dashboard_host en = '''' \<or> i \<notin> range (route_id_for (be_sha env) (dashboard_host en)) \<Longrightarrow>
       held_routes V (re_proxy r') i = None"
    using p by blast
  show "\<And>q. (dashboard_host en, q) \<in> listed_places V (re_proxy r) \<Longrightarrow> dashboard_host en \<noteq> '''' \<Longrightarrow>
       route_id_for (be_sha env) (dashboard_host en) q \<notin> cfg_id env ` set cfgs \<Longrightarrow>
       held_routes V (re_proxy r') (route_id_for (be_sha env) (dashboard_host en) q) =
       held_routes V (re_proxy r) (route_id_for (be_sha env) (dashboard_host en) q)"
    using p by blast
qed

lemma reconcilable_again:
  assumes "reconcilable http V env addr en cfgs r"
  shows "reconcilable http V env addr en cfgs (reconcile (caddy_proxy http env) en r)"
proof -
  note p = pass_facts [OF assms]
  let ?K = "config_key ` set cfgs \<union> insert (dashboard_host en, ''/'') (listed_places V (re_proxy r))"
  have "config_key ` set cfgs \<union> insert (dashboard_host en, ''/'')
      (listed_places V (re_proxy (reconcile (caddy_proxy http env) en r))) \<subseteq> ?K"
    using p(2) by blast
  moreover have "inj_on (\<lambda>(h, q). route_id_for (be_sha env) h q) ?K" using assms by (simp add: reconcilable_def)
  ultimately have "inj_on (\<lambda>(h, q). route_id_for (be_sha env) h q) (config_key ` set cfgs \<union> insert (dashboard_host en, ''/'')
      (listed_places V (re_proxy (reconcile (caddy_proxy http env) en r))))"
    by (rule inj_on_subset [rotated])
  with assms p(1) show ?thesis unfolding reconcilable_def by blast
qed

text \<open>
  What a pass should serve, said of the rows alone: a domain of a running application whose queries answer
  and whose certificate, if it has one of its own, opens, with the features this Caddy has modules for.
\<close>

inductive wanted_route :: "pass_env \<Rightarrow> route_config \<Rightarrow> bool" where
  running_domain: "pd_applications (pe_db en) = Some apps \<Longrightarrow> app \<in> set apps \<Longrightarrow> ap_status app = ''running'' \<Longrightarrow>
    pd_slugs (pe_db en) (ap_id app) = Some (project, slug) \<Longrightarrow> pd_domains (pe_db en) (ap_id app) = Some ds \<Longrightarrow> d \<in> set ds \<Longrightarrow>
    pd_features (pe_db en) (dm_id d) = Some fs \<Longrightarrow> pd_application (pe_db en) (dm_app d) = Some owner \<Longrightarrow>
    resolve_certificate (pd_certificate (pe_db en)) (pe_dec en) d = Inr cert \<Longrightarrow>
    wanted_route en
      \<lparr>rc_host = dm_host d, rc_path = dm_path d, rc_strip = dm_strip d, rc_internal = dm_internal d,
       rc_target = ''http://'' @ slug @ '':'' @ show_int (resolve_upstream_port (dm_port d) (ap_port owner)),
       rc_tls = dm_ssl_enabled d, rc_force_https = dm_force_https d, rc_ssl_mode = dm_ssl_mode d,
       rc_ssl_provider = dm_ssl_provider d, rc_cert = hc_cert_pem cert, rc_key = hc_key_pem cert,
       rc_features = filter (\<lambda>f. case pe_caps en of None \<Rightarrow> True | Some caps \<Rightarrow>
           rf_enabled f \<longrightarrow> required_module (rf_type f) = '''' \<or> cap_has caps (required_module (rf_type f))) (map route_feature_of fs),
       rc_advanced = dm_advanced d, rc_health = ap_health app\<rparr>"

definition kept_features :: "modules option \<Rightarrow> route_config \<Rightarrow> route_config" where
  "kept_features caps c = c\<lparr>rc_features := filter (\<lambda>f. case caps of None \<Rightarrow> True | Some m \<Rightarrow>
     rf_enabled f \<longrightarrow> required_module (rf_type f) = '''' \<or> cap_has m (required_module (rf_type f))) (rc_features c)\<rparr>"

lemma degrade_keeps: "fst (degrade caps cfgs) = map (kept_features caps) cfgs"
proof (cases caps)
  case (Some m)
  have f: "kept_features caps c = c\<lparr>rc_features := filter (\<lambda>f. \<not> withheld m f) (rc_features c)\<rparr>" for c
  proof -
    have "(\<lambda>f. case Some m of None \<Rightarrow> True | Some m \<Rightarrow> rf_enabled f \<longrightarrow> required_module (rf_type f) = '''' \<or> cap_has m (required_module (rf_type f))) =
        (\<lambda>f. \<not> withheld m f)"
      by (auto simp: withheld_def)
    then show ?thesis unfolding kept_features_def Some by simp
  qed
  show ?thesis
  proof (cases "list_ex (\<lambda>c. list_ex (\<lambda>f. rf_enabled f \<and> required_module (rf_type f) \<noteq> '''') (rc_features c)) cfgs")
    case True
    then show ?thesis by (simp add: degrade_def Some Let_def f [unfolded Some])
  next
    case False
    then have "kept_features caps c = c" if "c \<in> set cfgs" for c
      using that by (auto simp: list_ex_iff f withheld_def filter_id_conv)
    then have "map (kept_features caps) cfgs = cfgs" by (simp add: map_idI)
    then show ?thesis using False by (simp add: degrade_def Some)
  qed
qed (simp add: degrade_def kept_features_def [abs_def])

lemma expected_config:
  "c \<in> set (fst (expected_of_app db dec app)) \<longleftrightarrow> ap_status app = ''running'' \<and> (\<exists>project slug ds d fs owner cert.
     pd_slugs db (ap_id app) = Some (project, slug) \<and> pd_domains db (ap_id app) = Some ds \<and> d \<in> set ds \<and>
     pd_features db (dm_id d) = Some fs \<and> pd_application db (dm_app d) = Some owner \<and>
     resolve_certificate (pd_certificate db) dec d = Inr cert \<and> c = build_route_config d (ap_port owner) slug (ap_health app) fs cert)"
proof -
  have built: "build_route_config_from_db db dec d container health = Inr c \<longleftrightarrow> (\<exists>fs owner cert.
      pd_features db (dm_id d) = Some fs \<and> pd_application db (dm_app d) = Some owner \<and>
      resolve_certificate (pd_certificate db) dec d = Inr cert \<and> c = build_route_config d (ap_port owner) container health fs cert)"
    for d container health
    by (auto simp: build_route_config_from_db_def split: option.splits sum.splits)
  have pick: "c \<in> set (List.map_filter (\<lambda>d. case g d of Inr c \<Rightarrow> Some c | Inl _ \<Rightarrow> None) ds) \<longleftrightarrow> (\<exists>d \<in> set ds. g d = Inr c)"
    for g :: "domain_row \<Rightarrow> config_error + route_config" and ds
    by (induction ds) (auto simp: map_filter_simps split: sum.splits option.splits)
  show ?thesis
    by (auto simp: expected_of_app_def Let_def pick built container_name_def split: option.splits)
qed

text \<open>The pass asks for exactly the wanted routes.\<close>

lemma pass_configs_wanted:
  assumes "pass_configs en = Some cfgs"
  shows "c \<in> set cfgs \<longleftrightarrow> wanted_route en c"
proof -
  obtain apps where apps: "pd_applications (pe_db en) = Some apps"
      and cfgs: "cfgs = map (kept_features (pe_caps en)) (concat (map (fst \<circ> expected_of_app (pe_db en) (pe_dec en)) apps))"
    using assms by (auto simp: pass_configs_def build_expected_def degrade_keeps)
  have kept: "kept_features (pe_caps en) (build_route_config d port slug health fs cert) =
      \<lparr>rc_host = dm_host d, rc_path = dm_path d, rc_strip = dm_strip d, rc_internal = dm_internal d,
       rc_target = ''http://'' @ slug @ '':'' @ show_int (resolve_upstream_port (dm_port d) port),
       rc_tls = dm_ssl_enabled d, rc_force_https = dm_force_https d, rc_ssl_mode = dm_ssl_mode d,
       rc_ssl_provider = dm_ssl_provider d, rc_cert = hc_cert_pem cert, rc_key = hc_key_pem cert,
       rc_features = filter (\<lambda>f. case pe_caps en of None \<Rightarrow> True | Some caps \<Rightarrow>
           rf_enabled f \<longrightarrow> required_module (rf_type f) = '''' \<or> cap_has caps (required_module (rf_type f))) (map route_feature_of fs),
       rc_advanced = dm_advanced d, rc_health = health\<rparr>" for d port slug health fs cert
    by (simp add: kept_features_def build_route_config_def)
  show ?thesis
  proof
    assume "c \<in> set cfgs"
    then obtain app e where app: "app \<in> set apps" "c = kept_features (pe_caps en) e"
        and e: "e \<in> set (fst (expected_of_app (pe_db en) (pe_dec en) app))"
      by (auto simp: cfgs)
    from e obtain project slug ds d fs owner cert where "ap_status app = ''running''"
        "pd_slugs (pe_db en) (ap_id app) = Some (project, slug)" "pd_domains (pe_db en) (ap_id app) = Some ds" "d \<in> set ds"
        "pd_features (pe_db en) (dm_id d) = Some fs" "pd_application (pe_db en) (dm_app d) = Some owner"
        "resolve_certificate (pd_certificate (pe_db en)) (pe_dec en) d = Inr cert"
        and e: "e = build_route_config d (ap_port owner) slug (ap_health app) fs cert"
      unfolding expected_config by blast
    then show "wanted_route en c" unfolding app(2) e kept by (intro running_domain [OF apps app(1)])
  next
    assume "wanted_route en c"
    then show "c \<in> set cfgs"
    proof cases
      case (running_domain apps' app project slug ds d fs owner cert)
      let ?e = "build_route_config d (ap_port owner) slug (ap_health app) fs cert"
      have "c = kept_features (pe_caps en) ?e" using running_domain(1) by (simp only: kept)
      moreover have "?e \<in> set (fst (expected_of_app (pe_db en) (pe_dec en) app))"
        unfolding expected_config using running_domain by blast
      moreover have "app \<in> set apps" using running_domain(2,3) apps by simp
      ultimately show ?thesis unfolding cfgs set_map set_concat by (auto intro!: imageI bexI [of _ app])
    qed
  qed
qed

text \<open>
  C6: one pass makes Caddy serve what the database asks for. Let Caddy be up, hold only routes Belune wrote
  and load the routes asked for, whose places have ids that differ. Whatever application routes it held,
  missing, stale or drifted, after a pass every domain of a running application whose rows were read is
  served by exactly its rendered route, every other application route is gone unless it is on the
  dashboard's hostname, and the next pass with the same database adds and rewrites nothing.
\<close>
theorem pass_converges:
  assumes "reconcilable http V env addr en cfgs r"
  shows "(let r1 = reconcile (caddy_proxy http env) en r; r2 = reconcile (caddy_proxy http env) en r1 in
     serving http V env addr (re_proxy r1) \<and>
     (\<forall>c. wanted_route en c \<longrightarrow> held_routes V (re_proxy r1) (cfg_id env c) = Some (table_entry env c)) \<and>
     (\<forall>i. (\<forall>c. wanted_route en c \<longrightarrow> i \<noteq> cfg_id env c) \<longrightarrow>
        dashboard_host en = '''' \<or> i \<notin> range (route_id_for (be_sha env) (dashboard_host en)) \<longrightarrow>
        held_routes V (re_proxy r1) i = None) \<and>
     rs_added (re_status r2) = 0 \<and> rs_updated (re_status r2) = 0)"
proof -
  have "pass_configs en = Some cfgs" using assms by (simp add: reconcilable_def)
  note wanted = pass_configs_wanted [OF this, symmetric]
  show ?thesis
    using pass_facts [OF assms] pass_facts(3) [OF reconcilable_again [OF assms]] unfolding Let_def wanted by blast
qed

text \<open>
  a stale route on the dashboard's hostname outlives every pass. The sweep skips all paths of that
  hostname, not only the dashboard's own route, so the route of a deleted domain there goes on being
  served, pass after pass.
\<close>
theorem stale_dashboard_path_survives:
  assumes "reconcilable http V env addr en cfgs r"
    and "(dashboard_host en, q) \<in> listed_places V (re_proxy r)" and "dashboard_host en \<noteq> ''''"
    and "(dashboard_host en, q) \<notin> config_key ` set cfgs"
  shows "held_routes V (re_proxy (reconcile (caddy_proxy http env) en r)) (route_id_for (be_sha env) (dashboard_host en) q) =
     held_routes V (re_proxy r) (route_id_for (be_sha env) (dashboard_host en) q)"
proof -
  have inj: "inj_on (\<lambda>(h, q). route_id_for (be_sha env) h q)
       (config_key ` set cfgs \<union> insert (dashboard_host en, ''/'') (listed_places V (re_proxy r)))"
    using assms(1) by (simp add: reconcilable_def)
  have "route_id_for (be_sha env) (dashboard_host en) q \<noteq> cfg_id env c" if c: "c \<in> set cfgs" for c
  proof
    assume eq: "route_id_for (be_sha env) (dashboard_host en) q = cfg_id env c"
    have "cfg_id env c = route_id_for (be_sha env) (fst (config_key c)) (snd (config_key c))"
      by (simp add: config_key_def key_for_def route_id_for_def is_root_path_def)
    with eq inj_onD [OF inj, of "(dashboard_host en, q)" "config_key c"] assms(2) c
    have "(dashboard_host en, q) = config_key c" by (auto simp: case_prod_unfold)
    with c assms(4) show False by blast
  qed
  then show ?thesis using pass_facts(6) [OF assms(1,2,3)] by blast
qed

section \<open>A failed query looks like a deletion\<close>

definition forget_domains :: "uuid \<Rightarrow> pass_env \<Rightarrow> pass_env" where
  "forget_domains a en = en\<lparr>pe_db := (pe_db en)\<lparr>pd_domains := (pd_domains (pe_db en))(a := Some [])\<rparr>\<rparr>"

lemma forget_domains_pass:
  assumes "pd_domains (pe_db en) a = None"
  shows "reconcile pm (forget_domains a en) r = reconcile pm en r"
proof -
  let ?db = "(pe_db en)\<lparr>pd_domains := (pd_domains (pe_db en))(a := Some [])\<rparr>"
  have s: "pd_certificate ?db = pd_certificate (pe_db en)" "pd_features ?db = pd_features (pe_db en)"
    "pd_application ?db = pd_application (pe_db en)" "pd_setting ?db = pd_setting (pe_db en)"
    "pd_custom_certs ?db = pd_custom_certs (pe_db en)" by simp_all
  have "build_route_config_from_db ?db = build_route_config_from_db (pe_db en)"
    by (intro ext) (simp only: build_route_config_from_db_def s)
  then have "expected_of_app ?db dec app = expected_of_app (pe_db en) dec app" for dec app
    using assms by (auto simp: expected_of_app_def map_filter_simps split: option.splits)
  then have b: "build_expected ?db dec = build_expected (pe_db en) dec" for dec
    by (simp add: build_expected_def o_def)
  have d: "dashboard_tls ?db = dashboard_tls (pe_db en)" by (simp only: dashboard_tls_def s)
  have "dashboard_certificate ?db = dashboard_certificate (pe_db en)"
    by (intro ext) (simp only: dashboard_certificate_def s)
  then have c: "certificates_wanted ?db = certificates_wanted (pe_db en)"
    by (intro ext) (simp only: certificates_wanted_def s)
  have w: "waf_wanted ?db = waf_wanted (pe_db en)" by (simp only: waf_wanted_def s)
  have e: "pe_db (forget_domains a en) = ?db" "pe_dns_rows (forget_domains a en) = pe_dns_rows en"
    "pe_dec (forget_domains a en) = pe_dec en" "pe_creds (forget_domains a en) = pe_creds en"
    "pe_scan_uuid (forget_domains a en) = pe_scan_uuid en" "pe_caps (forget_domains a en) = pe_caps en"
    "pe_caps_dns (forget_domains a en) = pe_caps_dns en" "pe_caps_waf (forget_domains a en) = pe_caps_waf en"
    "pe_container (forget_domains a en) = pe_container en" "pe_now (forget_domains a en) = pe_now en"
    "pe_visit (forget_domains a en) = pe_visit en" "pe_visit_keys (forget_domains a en) = pe_visit_keys en"
    by (simp_all add: forget_domains_def)
  have p: "prepare_proxy pm (forget_domains a en) = prepare_proxy pm en"
    by (intro ext) (simp only: prepare_proxy_def e d c)
  have f: "sync_waf pm (forget_domains a en) = sync_waf pm en"
    by (intro ext) (simp only: sync_waf_def e w)
  have g: "pass_degradations (forget_domains a en) = pass_degradations en"
    by (intro ext) (simp only: pass_degradations_def e)
  show ?thesis
    by (simp only: reconcile_def e b d p f g)
qed

text \<open>
  a transient database error unroutes an application. When the query for one application's domains
  fails, the pass does exactly what it does when that application has no domains, the reported error
  included: the routes it had are removed from Caddy until a later pass reads them again.
\<close>
theorem unread_domains_are_unrouted:
  assumes "pd_domains (pe_db en) a = None"
    and "reconcilable http V env addr en cfgs r"
    and "(h, q) \<in> listed_places V (re_proxy r)" and "h \<noteq> dashboard_host en" and "(h, q) \<notin> config_key ` set cfgs"
    and "q \<noteq> ''''" and "(dashboard_host en = '''' \<or> route_id_for (be_sha env) h q \<notin> range (route_id_for (be_sha env) (dashboard_host en)))"
  shows "reconcile (caddy_proxy http env) en r = reconcile (caddy_proxy http env) (forget_domains a en) r \<and>
    held_routes V (re_proxy (reconcile (caddy_proxy http env) en r)) (route_id_for (be_sha env) h q) = None"
proof
  show "reconcile (caddy_proxy http env) en r = reconcile (caddy_proxy http env) (forget_domains a en) r"
    using forget_domains_pass [OF assms(1)] by metis
  have inj: "inj_on (\<lambda>(h, q). route_id_for (be_sha env) h q)
       (config_key ` set cfgs \<union> insert (dashboard_host en, ''/'') (listed_places V (re_proxy r)))"
    using assms(2) by (simp add: reconcilable_def)
  have "route_id_for (be_sha env) h q \<noteq> cfg_id env c" if c: "c \<in> set cfgs" for c
  proof
    assume eq: "route_id_for (be_sha env) h q = cfg_id env c"
    have "cfg_id env c = route_id_for (be_sha env) (fst (config_key c)) (snd (config_key c))"
      by (simp add: config_key_def key_for_def route_id_for_def is_root_path_def)
    with eq inj_onD [OF inj, of "(h, q)" "config_key c"] assms(3) c
    have "(h, q) = config_key c" by (auto simp: case_prod_unfold)
    with c assms(5) show False by blast
  qed
  then show "held_routes V (re_proxy (reconcile (caddy_proxy http env) en r)) (route_id_for (be_sha env) h q) = None"
    using pass_facts(5) [OF assms(2), of "route_id_for (be_sha env) h q"] assms(7) by blast
qed

section \<open>A pass on a concrete database\<close>

definition demo_domain :: domain_row where
  "demo_domain = \<lparr>dm_id = 1, dm_app = 5, dm_host = ''a.io'', dm_ssl_enabled = True, dm_port = None, dm_force_https = True,
     dm_ssl_mode = ''automatic'', dm_ssl_provider = '''', dm_advanced = RawEmpty, dm_cert = None, dm_path = ''/api'',
     dm_strip = True, dm_internal = '''', dm_dns = None\<rparr>"

definition demo_app :: app_row where
  "demo_app = \<lparr>ap_id = 5, ap_status = ''running'', ap_port = None, ap_health = ''''\<rparr>"

definition demo_proxy_db :: "string \<Rightarrow> domain_row list option \<Rightarrow> proxy_db" where
  "demo_proxy_db dash ds = \<lparr>pd_applications = Some [demo_app], pd_slugs = (\<lambda>_. Some (''p'', ''app'')), pd_domains = (\<lambda>_. ds),
     pd_application = (\<lambda>_. Some demo_app),
     pd_features = (\<lambda>_. Some [\<lparr>fe_id = 2, fe_domain = 1, fe_type = ''ip_allowlist'',
       fe_config = Raw (JObj [(''ranges'', jstrs [''10.0.0.0/8''])]), fe_enabled = True\<rparr>]),
     pd_certificate = (\<lambda>_. None), pd_custom_certs = Some [],
     pd_setting = (\<lambda>k. if k = ''dashboard_domain'' \<and> dash \<noteq> '''' then Setting dash else NoSetting)\<rparr>"

definition demo_pass :: "string \<Rightarrow> domain_row list option \<Rightarrow> pass_env" where
  "demo_pass dash ds = \<lparr>pe_db = demo_proxy_db dash ds, pe_dns_rows = Some [], pe_dec = (\<lambda>_. None), pe_creds = (\<lambda>_. None),
     pe_scan_uuid = (\<lambda>_. None), pe_caps = None, pe_caps_dns = None, pe_caps_waf = None, pe_container = '''', pe_now = 7,
     pe_visit = rev, pe_visit_keys = rev\<rparr>"

definition demo_start :: "string list \<Rightarrow> json list px reconciler" where
  "demo_start ps = \<lparr>re_proxy = new_proxy_client (map (\<lambda>p. table_entry demo_build_env (demo_cfg ''a.io'' p)) ps),
     re_status = \<lparr>rs_added = 0, rs_updated = 0, rs_removed = 0, rs_runs = 0, rs_drift = 0, rs_error = None, rs_degraded = []\<rparr>,
     re_expected = 0, re_probe = CaddyUnknown,
     re_waf = \<lparr>ws_active = False, ws_hosts = 0, ws_reason = '''', ws_error = None\<rparr>, re_joined = []\<rparr>"

lemma known_object: "\<not> unknown_object ''''"
  by (simp add: unknown_object_def sublist_code)

lemma demo_loadable_at:
  assumes "p \<in> {''/'', ''/api''}"
  shows "loadable demo_view demo_build_env (demo_cfg ''a.io'' p)"
proof -
  have "cfg_id demo_build_env (demo_cfg ''a.io'' p) \<noteq> dashboard_route_id"
    using demo_ids assms by (auto simp: demo_cfg_def dashboard_route_id_def prefix_def)
  moreover have "rc_path (demo_cfg ''a.io'' p) = p" by (simp add: demo_cfg_def)
  ultimately show ?thesis
    using demo_servable [OF assms] demo_stored known_object assms by (auto simp: loadable_def demo_view_def)
qed

lemma demo_loadable: "loadable demo_view demo_build_env (demo_cfg ''a.io'' ''/api'')"
  by (rule demo_loadable_at) simp

lemma demo_serving:
  assumes "ps \<in> {[], [''/''], [''/api'']}"
  shows "serving demo_caddy demo_view demo_build_env default_dashboard_upstream (re_proxy (demo_start ps))"
    "listed_places demo_view (re_proxy (demo_start ps)) = (\<lambda>p. (''a.io'', p)) ` set ps"
proof -
  let ?s = "map (\<lambda>p. table_entry demo_build_env (demo_cfg ''a.io'' p)) ps"
  have t: "px_caddy (re_proxy (demo_start ps)) = ?s" "px_dashboard (re_proxy (demo_start ps)) = default_dashboard_upstream"
    by (simp_all add: demo_start_def new_proxy_client_def)
  have v: "cv_text demo_view r = ''''" "cv_table demo_view s = s" for r s by (simp_all add: demo_view_def)
  have "map json_norm ?s = ?s" by (simp add: demo_entry)
  moreover have "distinct (ids ?s)" using assms by (auto simp: ids_def)
  ultimately have "ready demo_caddy demo_view (re_proxy (demo_start ps))"
    using demo_ready by (simp add: demo_start_def)
  moreover have "good_route demo_view demo_build_env r" if "r \<in> set ?s" for r
  proof -
    from that obtain p where p: "p \<in> set ps" "r = table_entry demo_build_env (demo_cfg ''a.io'' p)" by auto
    from p(1) assms have "p \<in> {''/'', ''/api''}" by auto
    from good_entry [OF demo_loadable_at [OF this]] show ?thesis unfolding p(2) .
  qed
  ultimately show "serving demo_caddy demo_view demo_build_env default_dashboard_upstream (re_proxy (demo_start ps))"
    by (auto simp: serving_def t v known_object)
  have "place_listed (table_entry demo_build_env (demo_cfg ''a.io'' p)) = [\<lparr>li_host = ''a.io'', li_path = p, li_target = ''app:8080''\<rparr>]"
    if "p \<in> {''/'', ''/api''}" for p
    unfolding listed_entry(1) [OF demo_loadable_at [OF that]] using that by (auto simp: demo_cfg_def is_root_path_def target_to_dial_def)
  then have "concat (map place_listed ?s) = map (\<lambda>p. \<lparr>li_host = ''a.io'', li_path = p, li_target = ''app:8080''\<rparr>) ps"
    using assms by (elim insertE) simp_all
  then show "listed_places demo_view (re_proxy (demo_start ps)) = (\<lambda>p. (''a.io'', p)) ` set ps"
    using assms by (auto simp: listed_places_def t v current_keys_def key_for_def)
qed

lemma demo_config: "build_route_config_from_db (demo_proxy_db dash ds) dec demo_domain ''app'' '''' = Inr (demo_cfg ''a.io'' ''/api'')"
proof -
  have "show_nat 8080 = ''8080''" by (simp add: show_nat.simps char_of_def bit_0)
  then show ?thesis
    by (simp add: build_route_config_from_db_def demo_proxy_db_def resolve_certificate_def demo_domain_def build_route_config_def
        demo_app_def demo_cfg_def resolve_upstream_port_def route_feature_of_def no_certificate_def show_int_def)
qed

lemma demo_configs:
  "pass_configs (demo_pass dash (Some [demo_domain])) = Some [demo_cfg ''a.io'' ''/api'']"
  "pass_configs (demo_pass dash None) = Some []"
proof -
  have db: "pd_applications (demo_proxy_db dash ds) = Some [demo_app]" "pd_domains (demo_proxy_db dash ds) a = ds"
    "pd_slugs (demo_proxy_db dash ds) a = Some (''p'', ''app'')" for ds a by (simp_all add: demo_proxy_db_def)
  have ap: "ap_status demo_app = ''running''" "ap_health demo_app = ''''" by (simp_all add: demo_app_def)
  have "expected_of_app (demo_proxy_db dash (Some [demo_domain])) (\<lambda>_. None) demo_app = ([demo_cfg ''a.io'' ''/api''], [''belune-p''])"
    by (simp add: expected_of_app_def db ap container_name_def demo_config map_filter_simps project_network_name_def)
  moreover have "expected_of_app (demo_proxy_db dash None) (\<lambda>_. None) demo_app = ([], [])"
    by (simp add: expected_of_app_def db ap)
  ultimately show "pass_configs (demo_pass dash (Some [demo_domain])) = Some [demo_cfg ''a.io'' ''/api'']"
    "pass_configs (demo_pass dash None) = Some []"
    by (simp_all add: pass_configs_def demo_pass_def build_expected_def db degrade_def)
qed

lemma demo_dashboard: "dash \<in> {'''', ''a.io''} \<Longrightarrow> dashboard_host (demo_pass dash ds) = dash"
proof -
  have "trim_space ''a.io'' = ''a.io''" by code_simp
  then show "dash \<in> {'''', ''a.io''} \<Longrightarrow> dashboard_host (demo_pass dash ds) = dash"
    by (auto simp: dashboard_host_def demo_pass_def demo_proxy_db_def dashboard_tls_def Let_def)
qed

lemma demo_reconcilable:
  assumes "dash \<in> {'''', ''a.io''}" and "ps \<in> {[], [''/api'']}" and "(ds, cfgs) \<in> {(None, []), (Some [demo_domain], [demo_cfg ''a.io'' ''/api''])}"
  shows "reconcilable demo_caddy demo_view demo_build_env default_dashboard_upstream (demo_pass dash ds) cfgs (demo_start ps)"
proof -
  let ?id = "route_id_for (be_sha demo_build_env)"
  have "id_host '''' = ''''" by code_simp
  then have e: "?id '''' ''/'' = ''route-''" by (simp add: route_id_for_def is_root_path_def)
  have "config_key ` set cfgs \<union> insert (dash, ''/'') ((\<lambda>p. (''a.io'', p)) ` set ps) \<subseteq> {('''', ''/''), (''a.io'', ''/''), (''a.io'', ''/api'')}"
    using assms by (auto simp: config_key_def key_for_def demo_cfg_def)
  moreover have "inj_on (\<lambda>(h, q). ?id h q) {('''', ''/''), (''a.io'', ''/''), (''a.io'', ''/api'')}"
    using demo_ids e by (auto simp: inj_on_def prefix_def)
  ultimately have "inj_on (\<lambda>(h, q). ?id h q) (config_key ` set cfgs \<union> insert (dash, ''/'') ((\<lambda>p. (''a.io'', p)) ` set ps))"
    by (rule inj_on_subset [rotated])
  moreover have "visits_all (demo_pass dash ds)" by (simp add: visits_all_def demo_pass_def)
  moreover have "dashboard_fits demo_view a h" "waf_fits demo_view w" for a h w
    by (simp_all add: dashboard_fits_def waf_fits_def demo_view_def known_object)
  ultimately show ?thesis
    using assms demo_serving [of ps] demo_configs demo_dashboard [OF assms(1)] demo_loadable
    unfolding reconcilable_def by auto
qed

theorem pass_converges_witness:
  "held_routes demo_view (re_proxy (reconcile (caddy_proxy demo_caddy demo_build_env) (demo_pass '''' (Some [demo_domain])) (demo_start [])))
     (cfg_id demo_build_env (demo_cfg ''a.io'' ''/api'')) = Some (table_entry demo_build_env (demo_cfg ''a.io'' ''/api'')) \<and>
   held_routes demo_view (re_proxy (demo_start [])) (cfg_id demo_build_env (demo_cfg ''a.io'' ''/api'')) = None"
proof -
  have r: "reconcilable demo_caddy demo_view demo_build_env default_dashboard_upstream (demo_pass '''' (Some [demo_domain]))
      [demo_cfg ''a.io'' ''/api''] (demo_start [])"
    by (rule demo_reconcilable) simp_all
  then have "pass_configs (demo_pass '''' (Some [demo_domain])) = Some [demo_cfg ''a.io'' ''/api'']" by (simp only: reconcilable_def)
  from pass_configs_wanted [OF this, of "demo_cfg ''a.io'' ''/api''"]
  have "wanted_route (demo_pass '''' (Some [demo_domain])) (demo_cfg ''a.io'' ''/api'')" by simp
  then show ?thesis
    using pass_converges [OF r] by (simp add: Let_def) (simp add: held_routes_def demo_start_def new_proxy_client_def demo_view_def)
qed

lemma demo_held:
  "held_routes demo_view (re_proxy (demo_start [''/api''])) (route_id_for (be_sha demo_build_env) ''a.io'' ''/api'') =
   Some (table_entry demo_build_env (demo_cfg ''a.io'' ''/api''))"
proof -
  have l: "cfg_id demo_build_env (demo_cfg ''a.io'' ''/api'') \<noteq> dashboard_route_id" "servable demo_view demo_build_env (demo_cfg ''a.io'' ''/api'')"
    using demo_loadable by (simp_all add: loadable_def)
  have c: "rc_host (demo_cfg ''a.io'' ''/api'') = ''a.io''" "rc_path (demo_cfg ''a.io'' ''/api'') = ''/api''"
    by (simp_all add: demo_cfg_def)
  show ?thesis
    using l(1) route_id_entry [OF l(2)] unfolding c
    by (simp add: held_routes_def demo_start_def new_proxy_client_def) (simp add: demo_view_def)
qed

theorem stale_dashboard_path_survives_witness:
  "held_routes demo_view (re_proxy (reconcile (caddy_proxy demo_caddy demo_build_env) (demo_pass ''a.io'' None) (demo_start [''/api''])))
     (route_id_for (be_sha demo_build_env) ''a.io'' ''/api'') = Some (table_entry demo_build_env (demo_cfg ''a.io'' ''/api''))"
proof -
  have d: "dashboard_host (demo_pass ''a.io'' None) = ''a.io''" by (rule demo_dashboard) simp
  have r: "reconcilable demo_caddy demo_view demo_build_env default_dashboard_upstream (demo_pass ''a.io'' None) [] (demo_start [''/api''])"
    by (rule demo_reconcilable) simp_all
  have "(''a.io'', ''/api'') \<in> listed_places demo_view (re_proxy (demo_start [''/api'']))"
    by (subst demo_serving(2)) simp_all
  with stale_dashboard_path_survives [OF r, of "''/api''"] demo_held show ?thesis unfolding d by simp
qed

theorem unread_domains_are_unrouted_witness:
  "held_routes demo_view (re_proxy (demo_start [''/api''])) (route_id_for (be_sha demo_build_env) ''a.io'' ''/api'') \<noteq> None \<and>
   held_routes demo_view (re_proxy (reconcile (caddy_proxy demo_caddy demo_build_env) (demo_pass '''' None) (demo_start [''/api''])))
     (route_id_for (be_sha demo_build_env) ''a.io'' ''/api'') = None"
proof -
  have d: "dashboard_host (demo_pass '''' None) = ''''" by (rule demo_dashboard) simp
  have r: "reconcilable demo_caddy demo_view demo_build_env default_dashboard_upstream (demo_pass '''' None) [] (demo_start [''/api''])"
    by (rule demo_reconcilable) simp_all
  have "(''a.io'', ''/api'') \<in> listed_places demo_view (re_proxy (demo_start [''/api'']))"
    by (subst demo_serving(2)) simp_all
  moreover have "pd_domains (pe_db (demo_pass '''' None)) 5 = None" by (simp add: demo_pass_def demo_proxy_db_def)
  ultimately have "held_routes demo_view (re_proxy (reconcile (caddy_proxy demo_caddy demo_build_env) (demo_pass '''' None) (demo_start [''/api''])))
     (route_id_for (be_sha demo_build_env) ''a.io'' ''/api'') = None"
    by (intro conjunct2 [OF unread_domains_are_unrouted [OF _ r]]) (simp_all add: d)
  with demo_held show ?thesis by simp
qed

end
