(* ===== verification/Domains.thy ===== *)
theory Domains
  imports Reconciler DomainRules Features Authz
begin

text \<open>
  The domain endpoints (\<open>internal/handler/domains.go\<close>): adding, updating and removing a domain, its route
  features, the domains an MCP tool provisions, and the route each of them writes into the proxy.

  The state is the two tables, the proxy, the TLS probes enqueued and the audit entries. An environment
  gives one request the rest: which queries answer (\<open>de_ok\<close>), the other tables, the module probe, the
  parameters of the feature schemas, and the id the database would draw. A request body that does not
  decode is \<open>None\<close>. Nullable text is the empty string, as in the rows of \<open>RouteConfig\<close>.
\<close>

section \<open>State and environment\<close>

record 'p domain_world =
  dw_rows :: "domain_row list"
  dw_features :: "feature_row list"
  dw_proxy :: 'p
  dw_probes :: "uuid list"
  dw_audit :: "(string \<times> uuid) list"

record domain_env =
  de_ok :: "string \<Rightarrow> bool"
  de_scan :: "string \<Rightarrow> uuid option"
  de_access :: access_db
  de_app :: "uuid \<Rightarrow> (string \<times> string \<times> int option) option"
  de_running :: "uuid \<Rightarrow> bool"
  de_certs :: "uuid \<Rightarrow> certificate_row option"
  de_provider :: "uuid \<Rightarrow> (string \<times> bytes) option"
  de_dec :: "bytes \<Rightarrow> string option"
  de_creds :: "bytes \<Rightarrow> (string \<times> string) list option"
  de_caps :: "modules option"
  de_build :: build_env
  de_bcrypt :: "string \<Rightarrow> string option"
  de_new :: uuid

datatype domain_error =
    DBadId | DForbidden | DBadBody | DHostnameMissing | DHostnameInvalid | DModeInvalid | DWildcard
  | DBadChoice string | DAdminOnly | DProviderMissing | DProviderUnknown | DCapsUnknown | DModuleAbsent string
  | DBadPath path_error | DModeDiffers string string | DProviderDiffers string | DCertificateDiffers string
  | DBadPort | DConflict | DNotFound | DInsertFailed | DUpdateFailed | DDeleteFailed | DResolveFailed | DProxyFailed
  | DBadFeature string | DHashFailed | DUpsertFailed

definition domain_status :: "domain_error \<Rightarrow> int" where
  "domain_status e =
     (case e of
        DForbidden \<Rightarrow> 403 | DAdminOnly \<Rightarrow> 403 | DCapsUnknown \<Rightarrow> 503 | DConflict \<Rightarrow> 409 | DNotFound \<Rightarrow> 404
      | DInsertFailed \<Rightarrow> 500 | DUpdateFailed \<Rightarrow> 500 | DDeleteFailed \<Rightarrow> 500 | DResolveFailed \<Rightarrow> 500 | DProxyFailed \<Rightarrow> 500
      | DHashFailed \<Rightarrow> 500 | DUpsertFailed \<Rightarrow> 500 | _ \<Rightarrow> 400)"

definition choice_error :: "string + 'a \<Rightarrow> domain_error + 'a" where
  "choice_error r = (case r of Inl e \<Rightarrow> Inl (DBadChoice e) | Inr x \<Rightarrow> Inr x)"

definition refuse_if :: "domain_error option \<Rightarrow> domain_error + unit" where
  "refuse_if e = (case e of Some x \<Rightarrow> Inl x | None \<Rightarrow> Inr ())"

lemma choice_error_Inr [res_simps]: "choice_error r = Inr x \<longleftrightarrow> r = Inr x"
  by (simp add: choice_error_def split: sum.split)

lemma refuse_if_Inr [res_simps]: "refuse_if e = Inr u \<longleftrightarrow> e = None"
  by (simp add: refuse_if_def split: option.split)

lemma choice_error_Inl [res_simps]: "choice_error r = Inl e \<longleftrightarrow> (\<exists>m. r = Inl m \<and> e = DBadChoice m)"
  by (auto simp: choice_error_def split: sum.split)

lemma refuse_if_Inl [res_simps]: "refuse_if x = Inl e \<longleftrightarrow> x = Some e"
  by (simp add: refuse_if_def split: option.split)

section \<open>The tables\<close>

text \<open>Characters of a UTF-8 text: the bytes that continue none.\<close>

definition char_count :: "string \<Rightarrow> nat" where
  "char_count s = length (filter (\<lambda>c. (of_char c :: nat) < 128 \<or> 192 \<le> (of_char c :: nat)) s)"

text \<open>The columns' types and checks, and the foreign keys.\<close>

definition columns_ok :: "domain_row \<Rightarrow> bool" where
  "columns_ok d \<longleftrightarrow> char_count (dm_host d) \<le> 255 \<and> dm_ssl_mode d \<in> set valid_ssl_modes \<and> char_count (dm_ssl_provider d) \<le> 100 \<and>
     prefix ''/'' (dm_path d) \<and> char_count (dm_path d) \<le> 255 \<and>
     (dm_internal d = '''' \<or> prefix ''/'' (dm_internal d)) \<and> char_count (dm_internal d) \<le> 255"

definition references_ok :: "domain_env \<Rightarrow> domain_row \<Rightarrow> bool" where
  "references_ok en d \<longleftrightarrow>
     (case dm_cert d of None \<Rightarrow> True | Some c \<Rightarrow> de_certs en c \<noteq> None) \<and>
     (case dm_dns d of None \<Rightarrow> True | Some p \<Rightarrow> de_provider en p \<noteq> None)"

definition insert_domain :: "domain_env \<Rightarrow> domain_row \<Rightarrow> 'p domain_world \<Rightarrow> domain_error + 'p domain_world" where
  "insert_domain en d w =
     (if \<not> de_ok en ''CreateDomain'' \<or> \<not> columns_ok d then Inl DInsertFailed
      else if dm_id d \<in> dm_id ` set (dw_rows w) \<or> (dm_host d, dm_path d) \<in> (\<lambda>r. (dm_host r, dm_path r)) ` set (dw_rows w)
      then Inl DConflict
      else if de_app en (dm_app d) = None \<or> \<not> references_ok en d then Inl DInsertFailed
      else Inr (w\<lparr>dw_rows := dw_rows w @ [d]\<rparr>))"

definition delete_domain :: "domain_env \<Rightarrow> uuid \<Rightarrow> 'p domain_world \<Rightarrow> 'p domain_world option" where
  "delete_domain en i w =
     (if de_ok en ''DeleteDomain'' then
        Some (w\<lparr>dw_rows := filter (\<lambda>d. dm_id d \<noteq> i) (dw_rows w),
               dw_features := filter (\<lambda>f. fe_domain f \<noteq> i) (dw_features w)\<rparr>)
      else None)"

definition find_domain :: "domain_env \<Rightarrow> uuid \<Rightarrow> 'p domain_world \<Rightarrow> domain_row option" where
  "find_domain en i w = (if de_ok en ''GetDomain'' then find (\<lambda>d. dm_id d = i) (dw_rows w) else None)"

definition domains_by_hostname :: "domain_env \<Rightarrow> string \<Rightarrow> 'p domain_world \<Rightarrow> domain_row list option" where
  "domains_by_hostname en h w =
     (if de_ok en ''ListDomainsByHostname'' then Some (filter (\<lambda>d. dm_host d = h) (dw_rows w)) else None)"

definition store_domain :: "domain_env \<Rightarrow> domain_row \<Rightarrow> 'p domain_world \<Rightarrow> 'p domain_world option" where
  "store_domain en d w =
     (if \<not> de_ok en ''UpdateDomain'' \<or> \<not> columns_ok d \<or> \<not> references_ok en d \<or>
         list_ex (\<lambda>r. dm_id r \<noteq> dm_id d \<and> dm_host r = dm_host d \<and> dm_path r = dm_path d) (dw_rows w)
      then None
      else Some (w\<lparr>dw_rows := map (\<lambda>r. if dm_id r = dm_id d then d else r) (dw_rows w)\<rparr>))"

definition features_of :: "domain_env \<Rightarrow> uuid \<Rightarrow> 'p domain_world \<Rightarrow> feature_row list option" where
  "features_of en i w =
     (if de_ok en ''ListRouteFeaturesByDomain'' then Some (sort_key fe_type (filter (\<lambda>f. fe_domain f = i) (dw_features w)))
      else None)"

text \<open>The domains under the DNS challenge of running applications, with the provider's row.\<close>

definition challenge_row :: "domain_env \<Rightarrow> domain_row \<Rightarrow> dns_row" where
  "challenge_row en d =
     (case Option.bind (dm_dns d) (\<lambda>p. map_option (Pair p) (de_provider en p)) of
        None \<Rightarrow> \<lparr>dr_host = dm_host d, dr_path = dm_path d, dr_provider_id = None, dr_provider = '''', dr_creds = []\<rparr>
      | Some (p, kind, creds) \<Rightarrow>
          \<lparr>dr_host = dm_host d, dr_path = dm_path d, dr_provider_id = Some p, dr_provider = kind, dr_creds = creds\<rparr>)"

definition challenge_domains :: "domain_env \<Rightarrow> 'p domain_world \<Rightarrow> dns_row list option" where
  "challenge_domains en w =
     (if de_ok en ''ListDNSChallengeDomains'' then
        Some (sort_key (\<lambda>r. (dr_host r, dr_path r))
          (map (challenge_row en) (filter (\<lambda>d. dm_ssl_mode d = ''dns_challenge'' \<and> de_running en (dm_app d)) (dw_rows w))))
      else None)"

section \<open>The checks of a write\<close>

definition capability_set :: "domain_env \<Rightarrow> modules" where
  "capability_set en = (case de_caps en of None \<Rightarrow> [] | Some s \<Rightarrow> s)"

definition check_dns_challenge ::
    "domain_env \<Rightarrow> caller \<Rightarrow> string \<Rightarrow> string \<Rightarrow> uuid option \<Rightarrow> domain_row option \<Rightarrow> domain_error option" where
  "check_dns_challenge en c host mode provider stored =
     (if mode \<noteq> ''dns_challenge'' then None
      else if (case stored of None \<Rightarrow> False
               | Some d \<Rightarrow> dm_ssl_mode d = ''dns_challenge'' \<and> dm_dns d = provider \<and> dm_host d = host) then None
      else if ctx_role c \<noteq> ''admin'' then Some DAdminOnly
      else case provider of
        None \<Rightarrow> Some DProviderMissing
      | Some p \<Rightarrow>
          (case (if de_ok en ''GetDNSProvider'' then de_provider en p else None) of
             None \<Rightarrow> Some DProviderUnknown
           | Some (kind, _) \<Rightarrow>
               let m = sp_module (provider_spec kind) in
               if \<not> cap_known (capability_set en) then Some DCapsUnknown
               else if \<not> cap_has (capability_set en) m then Some (DModuleAbsent m) else None))"

text \<open>The first sibling on the hostname that contradicts the choice; a failed query lets the write pass.\<close>

fun first_disagreement :: "string \<Rightarrow> uuid option \<Rightarrow> uuid option \<Rightarrow> uuid option \<Rightarrow> domain_row list \<Rightarrow> domain_error option" where
  "first_disagreement mode cert provider skip [] = None"
| "first_disagreement mode cert provider skip (s # ss) =
     (if skip = Some (dm_id s) then first_disagreement mode cert provider skip ss
      else if dm_ssl_mode s \<noteq> mode then Some (DModeDiffers (dm_ssl_mode s) (dm_path s))
      else if mode = ''dns_challenge'' \<and> dm_dns s \<noteq> provider then Some (DProviderDiffers (dm_path s))
      else if mode = ''custom'' \<and> dm_cert s \<noteq> cert then Some (DCertificateDiffers (dm_path s))
      else first_disagreement mode cert provider skip ss)"

definition check_host_tls_agreement ::
    "domain_env \<Rightarrow> string \<Rightarrow> string \<Rightarrow> uuid option \<Rightarrow> uuid option \<Rightarrow> uuid option \<Rightarrow> 'p domain_world \<Rightarrow> domain_error option" where
  "check_host_tls_agreement en host mode cert provider skip w =
     (case domains_by_hostname en host w of
        None \<Rightarrow> None
      | Some siblings \<Rightarrow> first_disagreement mode cert provider skip siblings)"

definition validate_domain_port :: "int option \<Rightarrow> domain_error + int option" where
  "validate_domain_port p =
     (case p of
        None \<Rightarrow> Inr None
      | Some n \<Rightarrow> if n = 0 then Inr None else if n < 1 \<or> n > 65535 then Inl DBadPort else Inr (Some n))"

record add_request =
  aq_host :: string
  aq_path :: string
  aq_strip :: bool
  aq_internal :: string
  aq_ssl_enabled :: bool
  aq_port :: "int option"
  aq_force :: "bool option"
  aq_mode :: string
  aq_provider :: string
  aq_cert :: string
  aq_dns :: "string option"
  aq_advanced :: raw_json

definition check_hostname :: "string \<Rightarrow> string \<Rightarrow> domain_error option" where
  "check_hostname host mode =
     (if host = '''' then Some DHostnameMissing
      else if \<not> valid_domain_hostname host then Some DHostnameInvalid
      else if mode \<noteq> '''' \<and> \<not> validate_ssl_mode mode then Some DModeInvalid else None)"

text \<open>What \<open>AddDomain\<close> stores, or its refusal.\<close>

definition plan_add :: "domain_env \<Rightarrow> caller \<Rightarrow> uuid \<Rightarrow> add_request \<Rightarrow> 'p domain_world \<Rightarrow> domain_error + domain_row" where
  "plan_add en c a q w =
     (let mode = (if aq_mode q = '''' then ''automatic'' else aq_mode q);
          path = normalize_domain_path (aq_path q);
          internal = normalize_internal_path (aq_internal q)
      in res_bind (refuse_if (check_hostname (aq_host q) (aq_mode q))) (\<lambda>_.
         res_bind (refuse_if (if wildcard_needs_dns (aq_host q) mode then Some DWildcard else None)) (\<lambda>_.
         res_bind (choice_error (parse_certificate_id (de_scan en) mode (aq_cert q))) (\<lambda>cert.
         res_bind (choice_error (resolve_dns_provider_id (de_scan en) mode (aq_dns q) None)) (\<lambda>provider.
         res_bind (refuse_if (check_dns_challenge en c (aq_host q) mode provider None)) (\<lambda>_.
         res_bind (refuse_if (map_option DBadPath (validate_domain_path path))) (\<lambda>_.
         res_bind (refuse_if (map_option DBadPath (validate_internal_path internal))) (\<lambda>_.
         res_bind (refuse_if (check_host_tls_agreement en (aq_host q) mode cert provider None w)) (\<lambda>_.
         res_bind (validate_domain_port (aq_port q)) (\<lambda>port.
         Inr \<lparr>dm_id = de_new en, dm_app = a, dm_host = aq_host q, dm_ssl_enabled = aq_ssl_enabled q, dm_port = port,
              dm_force_https = coerce_force_https mode (case aq_force q of Some f \<Rightarrow> f | None \<Rightarrow> aq_ssl_enabled q),
              dm_ssl_mode = mode, dm_ssl_provider = aq_provider q, dm_advanced = aq_advanced q, dm_cert = cert,
              dm_path = path, dm_strip = aq_strip q, dm_internal = internal, dm_dns = provider\<rparr>))))))))))"

section \<open>Routes from the handlers\<close>

definition handler_sync_policies :: "'p proxy_iface \<Rightarrow> domain_env \<Rightarrow> 'p domain_world \<Rightarrow> 'p domain_world" where
  "handler_sync_policies pm en w =
     (case plan_dns_policies (de_creds en) (de_caps en) (challenge_domains en w) of (policies, _, _) \<Rightarrow>
        w\<lparr>dw_proxy := snd (pm_dns pm policies (dw_proxy w))\<rparr>)"

definition domain_certificate :: "domain_env \<Rightarrow> domain_row \<Rightarrow> host_certificate" where
  "domain_certificate en d =
     (case resolve_certificate (if de_ok en ''GetCertificate'' then de_certs en else (\<lambda>_. None)) (de_dec en) d of
        Inr cert \<Rightarrow> cert | Inl _ \<Rightarrow> no_certificate)"

definition load_route_features :: "domain_env \<Rightarrow> uuid \<Rightarrow> 'p domain_world \<Rightarrow> route_feature list" where
  "load_route_features en i w = (case features_of en i w of None \<Rightarrow> [] | Some fs \<Rightarrow> map route_feature_of fs)"

definition app_with_project :: "domain_env \<Rightarrow> uuid \<Rightarrow> (string \<times> string \<times> int option) option" where
  "app_with_project en a = (if de_ok en ''GetApplicationWithProjectSlug'' then de_app en a else None)"

definition upstream_url :: "string \<Rightarrow> string \<Rightarrow> int option \<Rightarrow> int option \<Rightarrow> string" where
  "upstream_url project slug port app_port =
     ''http://'' @ container_name project slug '''' @ '':'' @ show_int (resolve_upstream_port port app_port)"

text \<open>The configurations the three callers of \<open>AddRoute\<close> write out; a member they leave out is Go's zero value.\<close>

definition created_config :: "domain_env \<Rightarrow> domain_row \<Rightarrow> string \<Rightarrow> route_config" where
  "created_config en d target =
     \<lparr>rc_host = dm_host d, rc_path = '''', rc_strip = False, rc_internal = '''', rc_target = target,
      rc_tls = dm_ssl_enabled d, rc_force_https = dm_force_https d, rc_ssl_mode = dm_ssl_mode d, rc_ssl_provider = '''',
      rc_cert = hc_cert_pem (domain_certificate en d), rc_key = hc_key_pem (domain_certificate en d),
      rc_features = [], rc_advanced = dm_advanced d, rc_health = ''''\<rparr>"

definition updated_config :: "domain_env \<Rightarrow> domain_row \<Rightarrow> string \<Rightarrow> route_feature list \<Rightarrow> route_config" where
  "updated_config en d target fs =
     \<lparr>rc_host = dm_host d, rc_path = '''', rc_strip = False, rc_internal = '''', rc_target = target,
      rc_tls = dm_ssl_enabled d, rc_force_https = dm_force_https d, rc_ssl_mode = dm_ssl_mode d,
      rc_ssl_provider = dm_ssl_provider d,
      rc_cert = hc_cert_pem (domain_certificate en d), rc_key = hc_key_pem (domain_certificate en d),
      rc_features = fs, rc_advanced = dm_advanced d, rc_health = ''''\<rparr>"

definition rebuilt_config :: "domain_env \<Rightarrow> domain_row \<Rightarrow> string \<Rightarrow> route_feature list \<Rightarrow> route_config" where
  "rebuilt_config en d target fs = (updated_config en d target fs)\<lparr>rc_path := dm_path d, rc_strip := dm_strip d\<rparr>"

text \<open>\<open>createDomainRecord\<close>: the row, the policies, the route; the row is withdrawn when the route fails.\<close>

definition create_domain_record ::
    "'p proxy_iface \<Rightarrow> domain_env \<Rightarrow> domain_row \<Rightarrow> 'p domain_world \<Rightarrow> (domain_error + domain_row) \<times> 'p domain_world" where
  "create_domain_record pm en d w =
     (case insert_domain en d w of
        Inl e \<Rightarrow> (Inl e, w)
      | Inr w \<Rightarrow>
          (case app_with_project en (dm_app d) of
             None \<Rightarrow> (Inl DResolveFailed, w)
           | Some (project, slug, app_port) \<Rightarrow>
               let w = (if dm_ssl_mode d = ''dns_challenge'' then handler_sync_policies pm en w else w)
               in case pm_add pm (created_config en d (upstream_url project slug (dm_port d) app_port)) (dw_proxy w) of
                    (Some e, p) \<Rightarrow>
                      let w = w\<lparr>dw_proxy := p\<rparr>
                      in (Inl DProxyFailed, (case delete_domain en (dm_id d) w of Some w \<Rightarrow> w | None \<Rightarrow> w))
                  | (None, p) \<Rightarrow> (Inr d, w\<lparr>dw_proxy := p, dw_probes := dw_probes w @ [dm_id d]\<rparr>)))"

definition audit_domain :: "string \<Rightarrow> uuid \<Rightarrow> 'p domain_world \<Rightarrow> 'p domain_world" where
  "audit_domain action i w = w\<lparr>dw_audit := dw_audit w @ [(action, i)]\<rparr>"

definition add_domain ::
    "'p proxy_iface \<Rightarrow> domain_env \<Rightarrow> caller \<Rightarrow> string \<Rightarrow> add_request option \<Rightarrow> 'p domain_world \<Rightarrow>
     (domain_error + domain_row) \<times> 'p domain_world" where
  "add_domain pm en c app body w =
     (case de_scan en app of
        None \<Rightarrow> (Inl DBadId, w)
      | Some a \<Rightarrow>
          if \<not> can_access_application (de_scan en) (de_access en) c a then (Inl DForbidden, w)
          else case body of
            None \<Rightarrow> (Inl DBadBody, w)
          | Some q \<Rightarrow>
              (case plan_add en c a q w of
                 Inl e \<Rightarrow> (Inl e, w)
               | Inr d \<Rightarrow>
                   (case create_domain_record pm en d w of
                      (Inl e, w) \<Rightarrow> (Inl e, w)
                    | (Inr d, w) \<Rightarrow> (Inr d, audit_domain ''add_domain'' (dm_id d) w))))"

text \<open>\<open>ProvisionDomain\<close>: TLS off, everything else at its default.\<close>

definition provisioned :: "domain_env \<Rightarrow> uuid \<Rightarrow> string \<Rightarrow> domain_row" where
  "provisioned en a host = \<lparr>dm_id = de_new en, dm_app = a, dm_host = host, dm_ssl_enabled = False, dm_port = None,
     dm_force_https = False, dm_ssl_mode = ''off'', dm_ssl_provider = '''', dm_advanced = RawEmpty, dm_cert = None,
     dm_path = normalize_domain_path '''', dm_strip = False, dm_internal = normalize_internal_path '''', dm_dns = None\<rparr>"

definition provision_domain ::
    "'p proxy_iface \<Rightarrow> domain_env \<Rightarrow> uuid \<Rightarrow> string \<Rightarrow> 'p domain_world \<Rightarrow> (domain_error + domain_row) \<times> 'p domain_world" where
  "provision_domain pm en a host w =
     (if \<not> valid_hostname host then (Inl DHostnameInvalid, w)
      else case check_host_tls_agreement en host ''off'' None None None w of
        Some e \<Rightarrow> (Inl e, w)
      | None \<Rightarrow> create_domain_record pm en (provisioned en a host) w)"

section \<open>Updating\<close>

text \<open>A member the request leaves out is \<open>None\<close>, or the empty string or JSON where Go's field is not a pointer.\<close>

record update_request =
  uq_host :: string
  uq_path :: "string option"
  uq_strip :: "bool option"
  uq_internal :: "string option"
  uq_ssl_enabled :: "bool option"
  uq_port :: "int option"
  uq_force :: "bool option"
  uq_mode :: string
  uq_provider :: string
  uq_cert :: string
  uq_dns :: "string option"
  uq_advanced :: raw_json

definition or_stored :: "'a option \<Rightarrow> 'a \<Rightarrow> 'a" where
  "or_stored v stored = (case v of Some x \<Rightarrow> x | None \<Rightarrow> stored)"

definition plan_update ::
    "domain_env \<Rightarrow> caller \<Rightarrow> domain_row \<Rightarrow> update_request \<Rightarrow> 'p domain_world \<Rightarrow> domain_error + domain_row" where
  "plan_update en c old q w =
     (let mode = (if uq_mode q = '''' then dm_ssl_mode old else uq_mode q);
          path = (case uq_path q of None \<Rightarrow> dm_path old | Some p \<Rightarrow> normalize_domain_path p);
          internal = (case uq_internal q of None \<Rightarrow> dm_internal old | Some p \<Rightarrow> normalize_internal_path p)
      in res_bind (if uq_cert q \<noteq> '''' \<or> uq_mode q \<noteq> '''' then choice_error (parse_certificate_id (de_scan en) mode (uq_cert q))
                   else Inr (dm_cert old)) (\<lambda>chosen.
         let cert = (if mode = ''custom'' then chosen else None) in
         res_bind (choice_error (resolve_dns_provider_id (de_scan en) mode (uq_dns q) (dm_dns old))) (\<lambda>provider.
         res_bind (refuse_if (if wildcard_needs_dns (uq_host q) mode then Some DWildcard else None)) (\<lambda>_.
         res_bind (refuse_if (check_dns_challenge en c (uq_host q) mode provider (Some old))) (\<lambda>_.
         res_bind (refuse_if (case uq_path q of None \<Rightarrow> None | Some _ \<Rightarrow> map_option DBadPath (validate_domain_path path))) (\<lambda>_.
         res_bind (refuse_if (case uq_internal q of None \<Rightarrow> None
                              | Some _ \<Rightarrow> map_option DBadPath (validate_internal_path internal))) (\<lambda>_.
         res_bind (refuse_if (check_host_tls_agreement en (uq_host q) mode cert provider (Some (dm_id old)) w)) (\<lambda>_.
         res_bind (case uq_port q of None \<Rightarrow> Inr (dm_port old) | Some p \<Rightarrow> validate_domain_port (Some p)) (\<lambda>port.
         Inr \<lparr>dm_id = dm_id old, dm_app = dm_app old, dm_host = uq_host q,
              dm_ssl_enabled = or_stored (uq_ssl_enabled q) (dm_ssl_enabled old), dm_port = port,
              dm_force_https = coerce_force_https mode (or_stored (uq_force q) (dm_force_https old)),
              dm_ssl_mode = mode, dm_ssl_provider = (if uq_provider q = '''' then dm_ssl_provider old else uq_provider q),
              dm_advanced = (if uq_advanced q = RawEmpty then dm_advanced old else uq_advanced q), dm_cert = cert,
              dm_path = path, dm_strip = or_stored (uq_strip q) (dm_strip old), dm_internal = internal, dm_dns = provider\<rparr>)))))))))"

text \<open>What follows the stored row: the policies, the old route away, the new route in.\<close>

definition push_update :: "'p proxy_iface \<Rightarrow> domain_env \<Rightarrow> domain_row \<Rightarrow> domain_row \<Rightarrow> 'p domain_world \<Rightarrow> 'p domain_world" where
  "push_update pm en old d w =
     (let w = (if dm_ssl_mode old = ''dns_challenge'' \<or> dm_ssl_mode d = ''dns_challenge''
               then handler_sync_policies pm en w else w);
          w = w\<lparr>dw_proxy := snd (pm_remove pm (dm_host old) (dm_path old) (dw_proxy w))\<rparr>
      in case app_with_project en (dm_app d) of
           None \<Rightarrow> w
         | Some (project, slug, app_port) \<Rightarrow>
             let cfg = updated_config en d (upstream_url project slug (dm_port d) app_port) (load_route_features en (dm_id d) w)
             in audit_domain ''update_domain'' (dm_id d)
                  (w\<lparr>dw_proxy := snd (pm_add pm cfg (dw_proxy w)), dw_probes := dw_probes w @ [dm_id d]\<rparr>))"

definition update_domain ::
    "'p proxy_iface \<Rightarrow> domain_env \<Rightarrow> caller \<Rightarrow> string \<Rightarrow> update_request option \<Rightarrow> 'p domain_world \<Rightarrow>
     (domain_error + domain_row) \<times> 'p domain_world" where
  "update_domain pm en c domain body w =
     (case de_scan en domain of
        None \<Rightarrow> (Inl DBadId, w)
      | Some i \<Rightarrow>
          if \<not> can_access_domain (de_scan en) (de_access en) c i then (Inl DForbidden, w)
          else case body of
            None \<Rightarrow> (Inl DBadBody, w)
          | Some q \<Rightarrow>
              (case check_hostname (uq_host q) (uq_mode q) of
                 Some e \<Rightarrow> (Inl e, w)
               | None \<Rightarrow>
                   (case find_domain en i w of
                      None \<Rightarrow> (Inl DNotFound, w)
                    | Some old \<Rightarrow>
                        (case plan_update en c old q w of
                           Inl e \<Rightarrow> (Inl e, w)
                         | Inr d \<Rightarrow>
                             (case store_domain en d w of
                                None \<Rightarrow> (Inl DUpdateFailed, w)
                              | Some w \<Rightarrow> (Inr d, push_update pm en old d w))))))"

section \<open>Removing\<close>

definition remove_domain ::
    "'p proxy_iface \<Rightarrow> domain_env \<Rightarrow> caller \<Rightarrow> string \<Rightarrow> 'p domain_world \<Rightarrow> (domain_error + unit) \<times> 'p domain_world" where
  "remove_domain pm en c domain w =
     (case de_scan en domain of
        None \<Rightarrow> (Inl DBadId, w)
      | Some i \<Rightarrow>
          if \<not> is_domain_owner (de_scan en) (de_access en) c i then (Inl DForbidden, w)
          else case find_domain en i w of
            None \<Rightarrow> (Inl DNotFound, w)
          | Some d \<Rightarrow>
              (case pm_remove pm (dm_host d) (dm_path d) (dw_proxy w) of
                 (Some e, p) \<Rightarrow> (Inl DProxyFailed, w\<lparr>dw_proxy := p\<rparr>)
               | (None, p) \<Rightarrow>
                   (case delete_domain en i (w\<lparr>dw_proxy := p\<rparr>) of
                      None \<Rightarrow> (Inl DDeleteFailed, w\<lparr>dw_proxy := p\<rparr>)
                    | Some w \<Rightarrow>
                        (Inr (), audit_domain ''remove_domain'' i
                          (if dm_ssl_mode d = ''dns_challenge'' then handler_sync_policies pm en w else w)))))"

section \<open>Route features\<close>

definition rebuild_domain_route :: "'p proxy_iface \<Rightarrow> domain_env \<Rightarrow> uuid \<Rightarrow> 'p domain_world \<Rightarrow> 'p domain_world" where
  "rebuild_domain_route pm en i w =
     (case find_domain en i w of
        None \<Rightarrow> w
      | Some d \<Rightarrow>
          (case app_with_project en (dm_app d) of
             None \<Rightarrow> w
           | Some (project, slug, app_port) \<Rightarrow>
               let cfg = rebuilt_config en d (upstream_url project slug (dm_port d) app_port) (load_route_features en i w);
                   p = snd (pm_remove pm (dm_host d) (dm_path d) (dw_proxy w))
               in w\<lparr>dw_proxy := snd (pm_add pm cfg p)\<rparr>))"

record feature_request =
  fq_type :: string
  fq_config :: raw_json
  fq_enabled :: bool

definition valid_feature_types :: "string list" where
  "valid_feature_types = [''basic_auth'', ''redirect'', ''headers'', ''ip_allowlist'', ''rate_limit'']"

definition stored_route_feature :: "domain_env \<Rightarrow> uuid \<Rightarrow> string \<Rightarrow> uuid option \<Rightarrow> 'p domain_world \<Rightarrow> feature_row option" where
  "stored_route_feature en i t fid w =
     (case features_of en i w of
        None \<Rightarrow> None
      | Some fs \<Rightarrow> find (\<lambda>f. case fid of Some u \<Rightarrow> fe_id f = u | None \<Rightarrow> fe_type f = t) fs)"

text \<open>The row an upsert leaves; it keeps the id of one that was there.\<close>

definition upsert_feature ::
    "domain_env \<Rightarrow> uuid \<Rightarrow> string \<Rightarrow> raw_json \<Rightarrow> bool \<Rightarrow> 'p domain_world \<Rightarrow> (feature_row \<times> 'p domain_world) option" where
  "upsert_feature en i t cfg on w =
     (if \<not> de_ok en ''UpsertRouteFeature'' \<or> t \<notin> set valid_feature_types \<or> i \<notin> dm_id ` set (dw_rows w) then None
      else case find (\<lambda>f. fe_domain f = i \<and> fe_type f = t) (dw_features w) of
        Some old \<Rightarrow>
          let new = old\<lparr>fe_config := cfg, fe_enabled := on\<rparr>
          in Some (new, w\<lparr>dw_features := map (\<lambda>f. if fe_domain f = i \<and> fe_type f = t then new else f) (dw_features w)\<rparr>)
      | None \<Rightarrow>
          if de_new en \<in> fe_id ` set (dw_features w) then None
          else let new = \<lparr>fe_id = de_new en, fe_domain = i, fe_type = t, fe_config = cfg, fe_enabled = on\<rparr>
            in Some (new, w\<lparr>dw_features := dw_features w @ [new]\<rparr>))"

definition plan_feature :: "domain_env \<Rightarrow> uuid \<Rightarrow> feature_request \<Rightarrow> 'p domain_world \<Rightarrow> domain_error + raw_json" where
  "plan_feature en i q w =
     (if fq_type q \<notin> set valid_feature_types then Inl (DBadFeature ''invalid feature_type'')
      else let stored = (case stored_route_feature en i (fq_type q) None w of Some f \<Rightarrow> fe_config f | None \<Rightarrow> RawEmpty)
        in case normalize_feature_config (de_bcrypt en) (fq_type q) (fq_config q) stored of
             Inl HashFailed \<Rightarrow> Inl DHashFailed
           | Inl (BadConfig e) \<Rightarrow> Inl (DBadFeature e)
           | Inr cfg \<Rightarrow>
               (case parse_feature_config (be_is_range (de_build en)) (be_duration (de_build en)) (fq_type q) cfg of
                  Inl e \<Rightarrow> Inl (DBadFeature e)
                | Inr _ \<Rightarrow>
                    (let m = required_module (fq_type q) in
                     if m \<noteq> '''' \<and> fq_enabled q \<and> cap_known (capability_set en) \<and> \<not> cap_has (capability_set en) m
                     then Inl (DModuleAbsent m) else Inr cfg)))"

definition upsert_route_feature ::
    "'p proxy_iface \<Rightarrow> domain_env \<Rightarrow> caller \<Rightarrow> string \<Rightarrow> feature_request option \<Rightarrow> 'p domain_world \<Rightarrow>
     (domain_error + feature_row) \<times> 'p domain_world" where
  "upsert_route_feature pm en c domain body w =
     (case de_scan en domain of
        None \<Rightarrow> (Inl DBadId, w)
      | Some i \<Rightarrow>
          if \<not> can_access_domain (de_scan en) (de_access en) c i then (Inl DForbidden, w)
          else case body of
            None \<Rightarrow> (Inl DBadBody, w)
          | Some q \<Rightarrow>
              (case plan_feature en i q w of
                 Inl e \<Rightarrow> (Inl e, w)
               | Inr cfg \<Rightarrow>
                   (case upsert_feature en i (fq_type q) cfg (fq_enabled q) w of
                      None \<Rightarrow> (Inl DUpsertFailed, w)
                    | Some (f, w) \<Rightarrow>
                        (Inr f, rebuild_domain_route pm en i (audit_domain ''upsert_route_feature'' (fe_id f) w)))))"

definition delete_route_feature ::
    "'p proxy_iface \<Rightarrow> domain_env \<Rightarrow> caller \<Rightarrow> string \<Rightarrow> string \<Rightarrow> 'p domain_world \<Rightarrow> (domain_error + unit) \<times> 'p domain_world" where
  "delete_route_feature pm en c domain feature w =
     (case de_scan en feature of
        None \<Rightarrow> (Inl DBadId, w)
      | Some f \<Rightarrow>
          (case de_scan en domain of
             None \<Rightarrow> (Inl DBadId, w)
           | Some i \<Rightarrow>
               if \<not> can_access_domain (de_scan en) (de_access en) c i then (Inl DForbidden, w)
               else if \<not> de_ok en ''DeleteRouteFeature'' then (Inl DDeleteFailed, w)
               else if \<not> list_ex (\<lambda>r. fe_id r = f \<and> fe_domain r = i) (dw_features w) then (Inl DNotFound, w)
               else
                 let w = w\<lparr>dw_features := filter (\<lambda>r. \<not> (fe_id r = f \<and> fe_domain r = i)) (dw_features w)\<rparr>
                 in (Inr (), rebuild_domain_route pm en i (audit_domain ''delete_route_feature'' f w))))"

section \<open>A run of requests\<close>

datatype domain_call =
    CallAdd caller string "add_request option"
  | CallUpdate caller string "update_request option"
  | CallRemove caller string
  | CallUpsert caller string "feature_request option"
  | CallDeleteFeature caller string string
  | CallProvision uuid string

definition domain_call_step :: "'p proxy_iface \<Rightarrow> 'p domain_world \<Rightarrow> domain_env \<times> domain_call \<Rightarrow> 'p domain_world" where
  "domain_call_step pm w e =
     (case e of (en, call) \<Rightarrow>
        (case call of
           CallAdd c app q \<Rightarrow> snd (add_domain pm en c app q w)
         | CallUpdate c i q \<Rightarrow> snd (update_domain pm en c i q w)
         | CallRemove c i \<Rightarrow> snd (remove_domain pm en c i w)
         | CallUpsert c i q \<Rightarrow> snd (upsert_route_feature pm en c i q w)
         | CallDeleteFeature c i f \<Rightarrow> snd (delete_route_feature pm en c i f w)
         | CallProvision a h \<Rightarrow> snd (provision_domain pm en a h w)))"

section \<open>What a request does to the tables\<close>

definition row_at :: "domain_row \<Rightarrow> string \<times> string" where
  "row_at d = (dm_host d, dm_path d)"

inductive table_change ::
    "domain_env \<Rightarrow> 'p domain_world \<Rightarrow> domain_call \<Rightarrow> domain_row list \<Rightarrow> feature_row list \<Rightarrow> bool"
  for en :: domain_env and w :: "'p domain_world" where
  tc_keep: "table_change en w call (dw_rows w) (dw_features w)"
| tc_withdrawn: "i \<notin> dm_id ` set (dw_rows w) \<Longrightarrow>
    table_change en w call (dw_rows w) (filter (\<lambda>f. fe_domain f \<noteq> i) (dw_features w))"
| tc_add: "plan_add en c a q w = Inr d \<Longrightarrow> dm_id d \<notin> dm_id ` set (dw_rows w) \<Longrightarrow> row_at d \<notin> row_at ` set (dw_rows w) \<Longrightarrow>
    table_change en w (CallAdd c app (Some q)) (dw_rows w @ [d]) (dw_features w)"
| tc_provision: "valid_hostname h \<Longrightarrow> check_host_tls_agreement en h ''off'' None None None w = None \<Longrightarrow>
    de_new en \<notin> dm_id ` set (dw_rows w) \<Longrightarrow> row_at (provisioned en a h) \<notin> row_at ` set (dw_rows w) \<Longrightarrow>
    table_change en w (CallProvision a h) (dw_rows w @ [provisioned en a h]) (dw_features w)"
| tc_update: "de_scan en s = Some (dm_id old) \<Longrightarrow> can_access_domain (de_scan en) (de_access en) c (dm_id old) \<Longrightarrow>
    check_hostname (uq_host q) (uq_mode q) = None \<Longrightarrow> old \<in> set (dw_rows w) \<Longrightarrow> plan_update en c old q w = Inr d \<Longrightarrow>
    \<not> list_ex (\<lambda>r. dm_id r \<noteq> dm_id d \<and> row_at r = row_at d) (dw_rows w) \<Longrightarrow>
    table_change en w (CallUpdate c s (Some q)) (map (\<lambda>r. if dm_id r = dm_id d then d else r) (dw_rows w)) (dw_features w)"
| tc_remove: "de_scan en s = Some i \<Longrightarrow> is_domain_owner (de_scan en) (de_access en) c i \<Longrightarrow>
    table_change en w (CallRemove c s) (filter (\<lambda>d. dm_id d \<noteq> i) (dw_rows w)) (filter (\<lambda>f. fe_domain f \<noteq> i) (dw_features w))"
| tc_upsert: "de_scan en s = Some i \<Longrightarrow> can_access_domain (de_scan en) (de_access en) c i \<Longrightarrow> plan_feature en i q w = Inr cfg \<Longrightarrow>
    upsert_feature en i (fq_type q) cfg (fq_enabled q) w = Some (f, w') \<Longrightarrow>
    table_change en w (CallUpsert c s (Some q)) (dw_rows w) (dw_features w')"
| tc_delete_feature: "de_scan en s = Some i \<Longrightarrow> can_access_domain (de_scan en) (de_access en) c i \<Longrightarrow>
    table_change en w (CallDeleteFeature c s t) (dw_rows w) (filter (\<lambda>r. fe_id r = u \<longrightarrow> fe_domain r \<noteq> i) (dw_features w))"

inductive_cases change_cases: "table_change en w call rows fs"

lemma sync_tables [simp]:
  "dw_rows (handler_sync_policies pm en w) = dw_rows w" "dw_features (handler_sync_policies pm en w) = dw_features w"
  by (simp_all add: handler_sync_policies_def split: prod.splits)

lemma audit_tables [simp]: "dw_rows (audit_domain x i w) = dw_rows w" "dw_features (audit_domain x i w) = dw_features w"
  by (simp_all add: audit_domain_def)

lemma rebuild_tables [simp]:
  "dw_rows (rebuild_domain_route pm en i w) = dw_rows w" "dw_features (rebuild_domain_route pm en i w) = dw_features w"
  by (simp_all add: rebuild_domain_route_def Let_def split: option.splits)

lemma push_tables [simp]:
  "dw_rows (push_update pm en old d w) = dw_rows w" "dw_features (push_update pm en old d w) = dw_features w"
  by (simp_all add: push_update_def Let_def split: option.splits)

lemma insert_domain_Inr:
  assumes "insert_domain en d w = Inr w'"
  shows "w' = w\<lparr>dw_rows := dw_rows w @ [d]\<rparr>" "dm_id d \<notin> dm_id ` set (dw_rows w)" "row_at d \<notin> row_at ` set (dw_rows w)"
  using assms by (auto simp: insert_domain_def row_at_def split: if_splits)

text \<open>A record is created, or withdrawn again, or left behind with an error.\<close>

lemma create_tables:
  assumes "create_domain_record pm en d w = (r, w')"
  shows "(dw_rows w' = dw_rows w \<and> dw_features w' = dw_features w) \<or>
    (dm_id d \<notin> dm_id ` set (dw_rows w) \<and> dw_rows w' = dw_rows w \<and> dw_features w' = filter (\<lambda>f. fe_domain f \<noteq> dm_id d) (dw_features w)) \<or>
    (dm_id d \<notin> dm_id ` set (dw_rows w) \<and> row_at d \<notin> row_at ` set (dw_rows w) \<and>
     dw_rows w' = dw_rows w @ [d] \<and> dw_features w' = dw_features w)"
proof (cases "insert_domain en d w")
  case (Inl e)
  with assms show ?thesis by (simp add: create_domain_record_def)
next
  case (Inr w1)
  note i = insert_domain_Inr [OF Inr]
  from i(2) have "filter (\<lambda>x. dm_id x \<noteq> dm_id d) (dw_rows w) = dw_rows w" by (intro filter_True ballI) (metis imageI)
  with assms i show ?thesis
    by (auto simp: create_domain_record_def Inr Let_def delete_domain_def split: option.splits prod.splits if_splits)
qed

lemma upsert_rows: "upsert_feature en i t cfg on w = Some (f, w') \<Longrightarrow> dw_rows w' = dw_rows w"
  by (auto simp: upsert_feature_def Let_def split: if_splits option.splits)

lemma step_change:
  "table_change en w call (dw_rows (domain_call_step pm w (en, call))) (dw_features (domain_call_step pm w (en, call)))"
proof (cases call)
  case (CallAdd c app body)
  show ?thesis
  proof (cases "\<exists>a q d. body = Some q \<and> plan_add en c a q w = Inr d \<and> de_scan en app = Some a \<and>
      can_access_application (de_scan en) (de_access en) c a")
    case True
    then obtain a q d where b: "body = Some q" "plan_add en c a q w = Inr d" "de_scan en app = Some a"
      "can_access_application (de_scan en) (de_access en) c a" by blast
    obtain r w' where cr: "create_domain_record pm en d w = (r, w')" by fastforce
    have "dw_rows (domain_call_step pm w (en, call)) = dw_rows w'" "dw_features (domain_call_step pm w (en, call)) = dw_features w'"
      by (simp_all add: domain_call_step_def CallAdd b add_domain_def cr split: sum.splits)
    with create_tables [OF cr] CallAdd b show ?thesis
      by (auto intro: table_change.intros)
  next
    case False
    then have "snd (add_domain pm en c app body w) = w"
      by (auto simp: add_domain_def split: option.splits sum.splits prod.splits)
    then show ?thesis by (simp add: domain_call_step_def CallAdd tc_keep)
  qed
next
  case (CallProvision a h)
  show ?thesis
  proof (cases "valid_hostname h \<and> check_host_tls_agreement en h ''off'' None None None w = None")
    case True
    obtain r w' where cr: "create_domain_record pm en (provisioned en a h) w = (r, w')" by fastforce
    then have "domain_call_step pm w (en, call) = w'"
      using True by (simp add: domain_call_step_def CallProvision provision_domain_def)
    moreover have "dm_id (provisioned en a h) = de_new en" by (simp add: provisioned_def)
    ultimately show ?thesis
      using create_tables [OF cr] CallProvision True by (auto intro: table_change.intros)
  next
    case False
    then have "snd (provision_domain pm en a h w) = w" by (auto simp: provision_domain_def split: option.splits)
    then show ?thesis by (simp add: domain_call_step_def CallProvision tc_keep)
  qed
next
  case (CallUpdate c s body)
  then show ?thesis
    by (auto simp: domain_call_step_def update_domain_def store_domain_def find_domain_def find_Some_iff row_at_def list_ex_iff
        split: option.splits sum.splits if_splits intro!: tc_keep tc_update)
next
  case (CallRemove c s)
  then show ?thesis
    by (auto simp: domain_call_step_def remove_domain_def delete_domain_def
        split: option.splits prod.splits intro: tc_keep tc_remove)
next
  case (CallUpsert c s body)
  show ?thesis
  proof (cases "\<exists>i q cfg f w'. de_scan en s = Some i \<and> can_access_domain (de_scan en) (de_access en) c i \<and> body = Some q \<and>
      plan_feature en i q w = Inr cfg \<and> upsert_feature en i (fq_type q) cfg (fq_enabled q) w = Some (f, w')")
    case True
    then obtain i q cfg f w' where u: "de_scan en s = Some i" "can_access_domain (de_scan en) (de_access en) c i" "body = Some q"
      "plan_feature en i q w = Inr cfg" "upsert_feature en i (fq_type q) cfg (fq_enabled q) w = Some (f, w')" by blast
    then have "dw_rows (domain_call_step pm w (en, call)) = dw_rows w" "dw_features (domain_call_step pm w (en, call)) = dw_features w'"
      using upsert_rows [OF u(5)] by (simp_all add: domain_call_step_def CallUpsert upsert_route_feature_def)
    with tc_upsert [OF u(1,2,4,5)] u(3) CallUpsert show ?thesis by simp
  next
    case False
    then have "snd (upsert_route_feature pm en c s body w) = w"
      by (auto simp: upsert_route_feature_def split: option.splits sum.splits prod.splits)
    then show ?thesis by (simp add: domain_call_step_def CallUpsert tc_keep)
  qed
next
  case (CallDeleteFeature c s t)
  then show ?thesis
    by (auto simp: domain_call_step_def delete_route_feature_def Let_def split: option.splits intro: tc_keep tc_delete_feature)
qed

section \<open>The tables stay well typed\<close>

definition domain_row_ok :: "domain_row \<Rightarrow> bool" where
  "domain_row_ok d \<longleftrightarrow> valid_domain_hostname (dm_host d) \<and> dm_ssl_mode d \<in> set valid_ssl_modes \<and> stored_path (dm_path d) \<and>
     (dm_internal d = '''' \<or> stored_path (dm_internal d)) \<and> (dm_cert d \<noteq> None \<longleftrightarrow> dm_ssl_mode d = ''custom'') \<and>
     (dm_dns d \<noteq> None \<longrightarrow> dm_ssl_mode d = ''dns_challenge'') \<and> (dm_force_https d \<longrightarrow> dm_ssl_mode d \<noteq> ''off'') \<and>
     (prefix ''*.'' (dm_host d) \<longrightarrow> dm_ssl_mode d = ''dns_challenge'') \<and>
     (case dm_port d of None \<Rightarrow> True | Some p \<Rightarrow> 1 \<le> p \<and> p \<le> 65535)"

text \<open>A basic auth configuration is a user name and a hash, with no password.\<close>

definition feature_row_ok :: "feature_row \<Rightarrow> bool" where
  "feature_row_ok f \<longleftrightarrow> fe_type f \<in> set valid_feature_types \<and>
     (fe_type f = ''basic_auth'' \<longrightarrow> (\<exists>u h. fe_config f = stored_auth u h \<and> u \<noteq> '''' \<and> h \<noteq> ''''))"

definition domain_tables_ok :: "domain_row list \<Rightarrow> feature_row list \<Rightarrow> bool" where
  "domain_tables_ok ds fs \<longleftrightarrow> distinct (map dm_id ds) \<and> distinct (map row_at ds) \<and> list_all domain_row_ok ds \<and>
     distinct (map (\<lambda>f. (fe_domain f, fe_type f)) fs) \<and> list_all feature_row_ok fs \<and> fe_domain ` set fs \<subseteq> dm_id ` set ds"

definition world_ok :: "'p domain_world \<Rightarrow> bool" where
  "world_ok w \<longleftrightarrow> domain_tables_ok (dw_rows w) (dw_features w)"

lemma ssl_mode_valid: "check_hostname h m = None \<Longrightarrow> m = '''' \<or> m \<in> set valid_ssl_modes"
  by (auto simp: check_hostname_def validate_ssl_mode_def split: if_splits)

lemma hostname_valid: "check_hostname h m = None \<Longrightarrow> valid_domain_hostname h"
  by (auto simp: check_hostname_def split: if_splits)

lemma chosen_certificate: "parse_certificate_id scan m s = Inr cert \<Longrightarrow> cert = None \<longleftrightarrow> m \<noteq> ''custom''"
  by (cases cert) (auto simp: parse_certificate_id_def split: if_splits option.splits)

lemma chosen_provider: "resolve_dns_provider_id scan m s d = Inr p \<Longrightarrow> p \<noteq> None \<Longrightarrow> m = ''dns_challenge''"
  by (auto simp: resolve_dns_provider_id_def split: if_splits)

lemma chosen_port: "validate_domain_port p = Inr r \<Longrightarrow> case r of None \<Rightarrow> True | Some p \<Rightarrow> 1 \<le> p \<and> p \<le> 65535"
  by (auto simp: validate_domain_port_def split: option.splits if_splits)

text \<open>What an accepted request has passed, in terms of the row it leads to.\<close>

lemma plan_add_facts:
  assumes "plan_add en c a q w = Inr d"
  shows "check_hostname (dm_host d) (aq_mode q) = None" "dm_id d = de_new en" "dm_app d = a"
    "dm_ssl_mode d = (if aq_mode q = [] then ''automatic'' else aq_mode q)"
    "\<not> wildcard_needs_dns (dm_host d) (dm_ssl_mode d)"
    "parse_certificate_id (de_scan en) (dm_ssl_mode d) (aq_cert q) = Inr (dm_cert d)"
    "resolve_dns_provider_id (de_scan en) (dm_ssl_mode d) (aq_dns q) None = Inr (dm_dns d)"
    "check_dns_challenge en c (dm_host d) (dm_ssl_mode d) (dm_dns d) None = None"
    "dm_path d = normalize_domain_path (aq_path q)" "validate_domain_path (dm_path d) = None"
    "dm_internal d = normalize_internal_path (aq_internal q)" "validate_internal_path (dm_internal d) = None"
    "check_host_tls_agreement en (dm_host d) (dm_ssl_mode d) (dm_cert d) (dm_dns d) None w = None"
    "validate_domain_port (aq_port q) = Inr (dm_port d)" "dm_force_https d \<longrightarrow> dm_ssl_mode d \<noteq> ''off''"
  using assms unfolding plan_add_def Let_def
  by (clarsimp simp: res_simps coerce_force_https_def split: if_splits)+

lemma plan_update_facts:
  assumes "plan_update en c old q w = Inr d"
  obtains chosen where "dm_id d = dm_id old" "dm_app d = dm_app old" "dm_host d = uq_host q"
    "dm_ssl_mode d = (if uq_mode q = [] then dm_ssl_mode old else uq_mode q)"
    "dm_cert d = (if dm_ssl_mode d = ''custom'' then chosen else None)"
    "(if uq_cert q \<noteq> [] \<or> uq_mode q \<noteq> [] then choice_error (parse_certificate_id (de_scan en) (dm_ssl_mode d) (uq_cert q))
      else Inr (dm_cert old)) = Inr chosen"
    "resolve_dns_provider_id (de_scan en) (dm_ssl_mode d) (uq_dns q) (dm_dns old) = Inr (dm_dns d)"
    "\<not> wildcard_needs_dns (dm_host d) (dm_ssl_mode d)"
    "check_dns_challenge en c (dm_host d) (dm_ssl_mode d) (dm_dns d) (Some old) = None"
    "dm_path d = (case uq_path q of None \<Rightarrow> dm_path old | Some p \<Rightarrow> normalize_domain_path p)"
    "(case uq_path q of None \<Rightarrow> None | Some _ \<Rightarrow> map_option DBadPath (validate_domain_path (dm_path d))) = None"
    "dm_internal d = (case uq_internal q of None \<Rightarrow> dm_internal old | Some p \<Rightarrow> normalize_internal_path p)"
    "(case uq_internal q of None \<Rightarrow> None | Some _ \<Rightarrow> map_option DBadPath (validate_internal_path (dm_internal d))) = None"
    "check_host_tls_agreement en (dm_host d) (dm_ssl_mode d) (dm_cert d) (dm_dns d) (Some (dm_id old)) w = None"
    "(case uq_port q of None \<Rightarrow> Inr (dm_port old) | Some p \<Rightarrow> validate_domain_port (Some p)) = Inr (dm_port d)"
    "dm_force_https d = coerce_force_https (dm_ssl_mode d) (or_stored (uq_force q) (dm_force_https old))"
proof -
  have w: "(if b then Some e else None) = None \<longleftrightarrow> \<not> b" for b and e :: domain_error by simp
  show thesis
    using assms that unfolding plan_update_def Let_def by (auto simp: res_simps w split del: if_split cong: if_cong option.case_cong)
qed

lemma plan_add_ok:
  assumes "plan_add en c a q w = Inr d"
  shows "domain_row_ok d"
proof -
  note f = plan_add_facts [OF assms]
  have "dm_ssl_mode d \<in> set valid_ssl_modes"
    using f(4) ssl_mode_valid [OF f(1)] by (auto simp: valid_ssl_modes_def)
  moreover have "stored_path (dm_path d)" using f(9,10) accepted_path by simp
  moreover have "dm_internal d = [] \<or> stored_path (dm_internal d)" using f(11,12) accepted_internal_path by simp
  ultimately show ?thesis
    using hostname_valid [OF f(1)] chosen_certificate [OF f(6)] chosen_provider [OF f(7)] chosen_port [OF f(14)] f(5,15)
    by (simp add: domain_row_ok_def wildcard_needs_dns_def)
qed

lemma provisioned_ok: "valid_hostname h \<Longrightarrow> domain_row_ok (provisioned en a h)"
proof -
  assume h: "valid_hostname h"
  have "\<not> prefix ''*.'' h"
  proof
    assume "prefix ''*.'' h"
    then obtain t where t: "h = CHR ''*'' # CHR ''.'' # t" by (auto simp: prefix_def)
    then have "split_on CHR ''.'' h = ''*'' # split_on CHR ''.'' t"
      using split_on_append [of "CHR ''.''" "''*''" t] by simp
    moreover have "\<not> alnum CHR ''*''" by code_simp
    ultimately show False using h t by (auto simp: valid_hostname_def Let_def valid_label_def)
  qed
  moreover have "trim_prefix ''*.'' h = h" using calculation by (simp add: trim_prefix_def)
  moreover have "stored_path (normalize_domain_path '''')" "normalize_internal_path '''' = ''''" by code_simp+
  ultimately show ?thesis
    using h by (simp add: domain_row_ok_def provisioned_def valid_domain_hostname_def valid_ssl_modes_def)
qed

lemma plan_update_ok:
  assumes "plan_update en c old q w = Inr d" and "domain_row_ok old" and "check_hostname (uq_host q) (uq_mode q) = None"
  shows "domain_row_ok d"
proof -
  note old = assms(2) [unfolded domain_row_ok_def]
  obtain chosen where f: "dm_host d = uq_host q" "dm_ssl_mode d = (if uq_mode q = [] then dm_ssl_mode old else uq_mode q)"
    "dm_cert d = (if dm_ssl_mode d = ''custom'' then chosen else None)"
    "(if uq_cert q \<noteq> [] \<or> uq_mode q \<noteq> [] then choice_error (parse_certificate_id (de_scan en) (dm_ssl_mode d) (uq_cert q))
      else Inr (dm_cert old)) = Inr chosen"
    "resolve_dns_provider_id (de_scan en) (dm_ssl_mode d) (uq_dns q) (dm_dns old) = Inr (dm_dns d)"
    "\<not> wildcard_needs_dns (dm_host d) (dm_ssl_mode d)"
    and path: "dm_path d = (case uq_path q of None \<Rightarrow> dm_path old | Some p \<Rightarrow> normalize_domain_path p)"
    "(case uq_path q of None \<Rightarrow> None | Some _ \<Rightarrow> map_option DBadPath (validate_domain_path (dm_path d))) = None"
    and internal: "dm_internal d = (case uq_internal q of None \<Rightarrow> dm_internal old | Some p \<Rightarrow> normalize_internal_path p)"
    "(case uq_internal q of None \<Rightarrow> None | Some _ \<Rightarrow> map_option DBadPath (validate_internal_path (dm_internal d))) = None"
    and port: "(case uq_port q of None \<Rightarrow> Inr (dm_port old) | Some p \<Rightarrow> validate_domain_port (Some p)) = Inr (dm_port d)"
    and force: "dm_force_https d = coerce_force_https (dm_ssl_mode d) (or_stored (uq_force q) (dm_force_https old))"
    using plan_update_facts [OF assms(1)] by blast
  have "dm_ssl_mode d \<in> set valid_ssl_modes"
    using f(2) ssl_mode_valid [OF assms(3)] old by auto
  moreover have "stored_path (dm_path d)"
    using path old accepted_path by (cases "uq_path q") simp_all
  moreover have "dm_internal d = [] \<or> stored_path (dm_internal d)"
  proof (cases "uq_internal q")
    case (Some p)
    with internal accepted_internal_path [of p] show ?thesis by simp
  qed (use internal old in simp)
  moreover have "case dm_port d of None \<Rightarrow> True | Some p \<Rightarrow> 1 \<le> p \<and> p \<le> 65535"
  proof (cases "uq_port q")
    case (Some p)
    with port chosen_port [of "Some p" "dm_port d"] show ?thesis by simp
  qed (use port old in simp)
  moreover have "dm_cert d \<noteq> None \<longleftrightarrow> dm_ssl_mode d = ''custom''"
  proof (cases "uq_cert q \<noteq> [] \<or> uq_mode q \<noteq> []")
    case True
    with f(4) chosen_certificate [of "de_scan en" "dm_ssl_mode d" "uq_cert q" chosen] f(3) show ?thesis
      by (auto simp: res_simps)
  next
    case False
    with f(2-4) old show ?thesis by simp
  qed
  ultimately show ?thesis
    using hostname_valid [OF assms(3)] chosen_provider [OF f(5)] f(1,6) force
    by (simp add: domain_row_ok_def wildcard_needs_dns_def coerce_force_https_def)
qed

lemma distinct_replace:
  assumes "distinct (map f xs)" and "\<forall>x \<in> set xs. P x \<longrightarrow> f x = f d \<or> f d \<notin> f ` set xs"
    and "\<forall>x \<in> set xs. \<forall>y \<in> set xs. P x \<longrightarrow> P y \<longrightarrow> x = y"
  shows "distinct (map f (map (\<lambda>x. if P x then d else x) xs))"
  using assms
proof (induction xs)
  case (Cons x xs)
  then show ?case by (cases "P x") (auto simp: image_iff split: if_splits)
qed simp

lemma tables_ok_update:
  assumes ok: "domain_tables_ok ds fs" and old: "old \<in> set ds" and d: "dm_id d = dm_id old" "domain_row_ok d"
    and at: "\<forall>r \<in> set ds. dm_id r \<noteq> dm_id d \<longrightarrow> row_at r \<noteq> row_at d"
  shows "domain_tables_ok (map (\<lambda>r. if dm_id r = dm_id d then d else r) ds) fs"
proof -
  let ?u = "\<lambda>r. if dm_id r = dm_id d then d else r"
  from ok have i: "distinct (map dm_id ds)" "distinct (map row_at ds)" by (simp_all add: domain_tables_ok_def)
  have ids: "map dm_id (map ?u ds) = map dm_id ds" by simp
  have one: "r = s" if "r \<in> set ds" "s \<in> set ds" "dm_id r = dm_id d" "dm_id s = dm_id d" for r s
    using that i(1) by (auto simp: distinct_map inj_on_def)
  have "distinct (map row_at (map ?u ds))"
  proof (rule distinct_replace [OF i(2)])
    show "\<forall>x \<in> set ds. dm_id x = dm_id d \<longrightarrow> row_at x = row_at d \<or> row_at d \<notin> row_at ` set ds"
    proof (intro ballI impI)
      fix x assume x: "x \<in> set ds" "dm_id x = dm_id d"
      show "row_at x = row_at d \<or> row_at d \<notin> row_at ` set ds"
      proof (rule disjCI)
        assume "\<not> row_at d \<notin> row_at ` set ds"
        then obtain y where y: "y \<in> set ds" "row_at y = row_at d" by auto
        with at have "dm_id y = dm_id d" by blast
        with one x y show "row_at x = row_at d" by blast
      qed
    qed
    show "\<forall>x \<in> set ds. \<forall>y \<in> set ds. dm_id x = dm_id d \<longrightarrow> dm_id y = dm_id d \<longrightarrow> x = y" using one by blast
  qed
  moreover have "dm_id ` set (map ?u ds) = dm_id ` set ds" using ids by (metis list.set_map)
  ultimately show ?thesis
    using ok d(2) ids unfolding domain_tables_ok_def by (auto simp: list_all_iff simp del: map_map)
qed

lemma tables_ok_upsert:
  assumes ok: "domain_tables_ok (dw_rows w) (dw_features w)" and u: "upsert_feature en i t cfg on w = Some (f, w')"
    and cfg: "t = ''basic_auth'' \<longrightarrow> (\<exists>u h. cfg = stored_auth u h \<and> u \<noteq> '''' \<and> h \<noteq> '''')"
  shows "domain_tables_ok (dw_rows w) (dw_features w')"
proof -
  let ?k = "\<lambda>f. (fe_domain f, fe_type f)"
  from u have t: "t \<in> set valid_feature_types" "i \<in> dm_id ` set (dw_rows w)"
    by (auto simp: upsert_feature_def split: if_splits)
  show ?thesis
  proof (cases "find (\<lambda>f. fe_domain f = i \<and> fe_type f = t) (dw_features w)")
    case None
    then have n: "(i, t) \<notin> ?k ` set (dw_features w)" by (auto simp: find_None_iff)
    from None u have f: "dw_features w' = dw_features w @ [f]" "fe_domain f = i" "fe_type f = t" "fe_config f = cfg"
      by (auto simp: upsert_feature_def Let_def split: if_splits)
    have "feature_row_ok f" using cfg t(1) unfolding feature_row_ok_def f by blast
    with ok t(2) n show ?thesis by (simp add: domain_tables_ok_def f)
  next
    case (Some old)
    then have o': "old \<in> set (dw_features w)" "fe_domain old = i" "fe_type old = t" by (auto simp: find_Some_iff)
    have k: "map ?k (map (\<lambda>f. if fe_domain f = i \<and> fe_type f = t then old\<lparr>fe_config := cfg, fe_enabled := on\<rparr> else f) (dw_features w)) =
        map ?k (dw_features w)" using o'(2,3) by simp
    have w': "dw_features w' = map (\<lambda>f. if fe_domain f = i \<and> fe_type f = t then old\<lparr>fe_config := cfg, fe_enabled := on\<rparr> else f) (dw_features w)"
      using u Some by (auto simp: upsert_feature_def Let_def split: if_splits)
    have s: "fe_type (old\<lparr>fe_config := cfg, fe_enabled := on\<rparr>) = t" "fe_config (old\<lparr>fe_config := cfg, fe_enabled := on\<rparr>) = cfg"
      using o'(3) by simp_all
    have "feature_row_ok (old\<lparr>fe_config := cfg, fe_enabled := on\<rparr>)"
      using t(1) cfg unfolding feature_row_ok_def s by blast
    then have "fe_domain ` set (dw_features w') \<subseteq> dm_id ` set (dw_rows w)" "list_all feature_row_ok (dw_features w')"
      using ok o' unfolding w' by (auto simp: domain_tables_ok_def list_all_iff)
    moreover have "distinct (map ?k (dw_features w'))" using ok unfolding w' k by (simp add: domain_tables_ok_def)
    ultimately show ?thesis using ok by (simp add: domain_tables_ok_def)
  qed
qed

definition hashes :: "domain_env \<times> domain_call \<Rightarrow> bool" where
  "hashes e \<longleftrightarrow> (\<forall>p h. de_bcrypt (fst e) p = Some h \<longrightarrow> h \<noteq> '''')"

lemma planned_feature:
  assumes "plan_feature en i q w = Inr cfg" and "hashes (en, call)"
  shows "fq_type q = ''basic_auth'' \<longrightarrow> (\<exists>u h. cfg = stored_auth u h \<and> u \<noteq> '''' \<and> h \<noteq> '''')"
proof
  assume t: "fq_type q = ''basic_auth''"
  from assms(1) obtain stored where "normalize_feature_config (de_bcrypt en) (fq_type q) (fq_config q) stored = Inr cfg"
    by (auto simp: plan_feature_def Let_def split: if_splits sum.splits normalize_error.splits)
  with t normalized_form [of "de_bcrypt en" "fq_config q" stored cfg] assms(2)
  show "\<exists>u h. cfg = stored_auth u h \<and> u \<noteq> '''' \<and> h \<noteq> ''''" by (auto simp: hashes_def)
qed

lemma change_tables_ok:
  assumes "table_change en w call ds fs" and "domain_tables_ok (dw_rows w) (dw_features w)" and "hashes (en, call)"
  shows "domain_tables_ok ds fs"
  using assms(1)
proof (cases rule: table_change.cases)
  case tc_keep
  then show ?thesis using assms(2) by simp
next
  case (tc_withdrawn i)
  then show ?thesis using assms(2) by (auto simp: domain_tables_ok_def list_all_iff distinct_map_filter)
next
  case (tc_add c a q d app)
  then show ?thesis using assms(2) plan_add_ok [OF tc_add(4)] by (auto simp: domain_tables_ok_def)
next
  case (tc_provision h a)
  moreover have "dm_id (provisioned en a h) = de_new en" by (simp add: provisioned_def)
  ultimately show ?thesis using assms(2) provisioned_ok [OF tc_provision(4)] by (auto simp: domain_tables_ok_def)
next
  case (tc_update s old c q d)
  from plan_update_facts [OF tc_update(8)] have i: "dm_id d = dm_id old" by blast
  have "domain_row_ok old" using assms(2) tc_update(7) by (auto simp: domain_tables_ok_def list_all_iff)
  from plan_update_ok [OF tc_update(8) this tc_update(6)] tables_ok_update [OF assms(2) tc_update(7) i] tc_update(2,3,9)
  show ?thesis by (auto simp: list_ex_iff)
next
  case (tc_remove s i c)
  then show ?thesis using assms(2) by (auto simp: domain_tables_ok_def list_all_iff distinct_map_filter)
next
  case (tc_upsert s i c q cfg f w')
  with tables_ok_upsert [OF assms(2) tc_upsert(7)] planned_feature [OF tc_upsert(6) assms(3)] show ?thesis by simp
next
  case (tc_delete_feature s i c t u)
  then show ?thesis using assms(2) by (auto simp: domain_tables_ok_def list_all_iff distinct_map_filter)
qed

interpretation domain_tables: guarded_machine "domain_call_step pm" world_ok hashes for pm
proof
  fix w :: "'a domain_world" and e
  assume "world_ok w" "hashes e"
  moreover obtain en call where "e = (en, call)" by fastforce
  ultimately show "world_ok (domain_call_step pm w e)"
    using change_tables_ok [OF step_change] by (auto simp: world_ok_def)
qed

text \<open>
  C8: the domain tables stay well typed. Whatever requests callers send, in any order, and whichever
  queries and proxy calls fail, the rows keep distinct ids and distinct hostname and path pairs; each
  has an accepted hostname, canonical paths, a certificate exactly under mode custom, a DNS provider
  only under the DNS challenge, no redirect without TLS, a wildcard only under the DNS challenge, and a
  port in range; and each feature belongs to a domain, once per type, with no plaintext password.
\<close>
theorem domain_tables_well_typed:
  assumes "world_ok w" and "\<forall>e \<in> set es. hashes e"
  shows "world_ok (foldl (domain_call_step pm) w es)"
  by (rule domain_tables.guarded_run [OF assms])

section \<open>One hostname, one certificate\<close>

text \<open>What decides the certificate of a hostname.\<close>

definition tls_choice :: "domain_row \<Rightarrow> string \<times> uuid option \<times> uuid option" where
  "tls_choice d = (dm_ssl_mode d, if dm_ssl_mode d = ''custom'' then dm_cert d else None,
     if dm_ssl_mode d = ''dns_challenge'' then dm_dns d else None)"

definition hosts_agree :: "'p domain_world \<Rightarrow> bool" where
  "hosts_agree w \<longleftrightarrow> distinct (map dm_id (dw_rows w)) \<and>
     (\<forall>a \<in> set (dw_rows w). \<forall>b \<in> set (dw_rows w). dm_host a = dm_host b \<longrightarrow> tls_choice a = tls_choice b)"

definition lists_siblings :: "domain_env \<times> domain_call \<Rightarrow> bool" where
  "lists_siblings e \<longleftrightarrow> de_ok (fst e) ''ListDomainsByHostname''"

lemma no_disagreement:
  assumes "first_disagreement mode cert provider skip ds = None" and "s \<in> set ds" and "skip \<noteq> Some (dm_id s)"
    and "dm_ssl_mode d = mode" "dm_cert d = cert" "dm_dns d = provider"
  shows "tls_choice s = tls_choice d"
  using assms by (induction ds) (auto simp: tls_choice_def split: if_splits)

lemma agreement_checked:
  assumes "check_host_tls_agreement en (dm_host d) (dm_ssl_mode d) (dm_cert d) (dm_dns d) skip w = None"
    and "lists_siblings (en, call)" and "s \<in> set (dw_rows w)" "dm_host s = dm_host d" "skip \<noteq> Some (dm_id s)"
  shows "tls_choice s = tls_choice d"
proof -
  have "first_disagreement (dm_ssl_mode d) (dm_cert d) (dm_dns d) skip (filter (\<lambda>r. dm_host r = dm_host d) (dw_rows w)) = None"
    using assms(1,2) by (simp add: check_host_tls_agreement_def domains_by_hostname_def lists_siblings_def)
  from no_disagreement [OF this _ assms(5) refl refl refl] assms(3,4) show ?thesis by simp
qed

lemma agree_with_new:
  assumes "\<forall>a \<in> A. \<forall>b \<in> A. h a = h b \<longrightarrow> t a = t b" and "\<And>a. a \<in> A \<Longrightarrow> h a = h d \<Longrightarrow> t a = t d" and "B \<subseteq> insert d A"
  shows "\<forall>a \<in> B. \<forall>b \<in> B. h a = h b \<longrightarrow> t a = t b"
  using assms by (metis insert_iff subsetD)

lemma change_agrees:
  assumes "table_change en w call ds fs" and "hosts_agree w" and "lists_siblings (en, call)"
  shows "distinct (map dm_id ds) \<and> (\<forall>a \<in> set ds. \<forall>b \<in> set ds. dm_host a = dm_host b \<longrightarrow> tls_choice a = tls_choice b)"
  using assms(1)
proof (cases rule: table_change.cases)
  case tc_keep
  show ?thesis using assms(2) unfolding tc_keep(1) hosts_agree_def .
next
  case (tc_withdrawn i)
  show ?thesis using assms(2) unfolding tc_withdrawn(1) hosts_agree_def .
next
  case (tc_add c a q d app)
  note f = plan_add_facts [OF tc_add(4)]
  have new: "tls_choice s = tls_choice d" if "s \<in> set (dw_rows w)" "dm_host s = dm_host d" for s
    using agreement_checked [OF f(13) assms(3) that] by simp
  have "set ds \<subseteq> insert d (set (dw_rows w))" "distinct (map dm_id ds)"
    using conjunct1 [OF assms(2) [unfolded hosts_agree_def]] tc_add(5) unfolding tc_add(2) by auto
  with agree_with_new [of "set (dw_rows w)" dm_host tls_choice d, OF _ new] assms(2) show ?thesis unfolding hosts_agree_def by blast
next
  case (tc_provision h a)
  let ?d = "provisioned en a h"
  have p: "dm_host ?d = h" "dm_ssl_mode ?d = ''off''" "dm_cert ?d = None" "dm_dns ?d = None" "dm_id ?d = de_new en"
    by (simp_all add: provisioned_def)
  have new: "tls_choice s = tls_choice ?d" if "s \<in> set (dw_rows w)" "dm_host s = dm_host ?d" for s
    using agreement_checked [of en ?d None w, unfolded p(1-4), OF tc_provision(5) assms(3) that(1)] that(2) p(1) by simp
  have "set ds \<subseteq> insert ?d (set (dw_rows w))" "distinct (map dm_id ds)"
    using conjunct1 [OF assms(2) [unfolded hosts_agree_def]] tc_provision(6) p(5) unfolding tc_provision(2) by auto
  with agree_with_new [of "set (dw_rows w)" dm_host tls_choice ?d, OF _ new] assms(2) show ?thesis unfolding hosts_agree_def by blast
next
  case (tc_update s old c q d)
  from plan_update_facts [OF tc_update(8)] have i: "dm_id d = dm_id old"
    and a: "check_host_tls_agreement en (dm_host d) (dm_ssl_mode d) (dm_cert d) (dm_dns d) (Some (dm_id old)) w = None" by blast+
  let ?A = "{s \<in> set (dw_rows w). dm_id s \<noteq> dm_id d}"
  have new: "tls_choice s = tls_choice d" if "s \<in> ?A" "dm_host s = dm_host d" for s
    using agreement_checked [OF a assms(3) _ that(2)] that(1) i by simp
  have "map dm_id ds = map dm_id (dw_rows w)" unfolding tc_update(2) by simp
  then have "distinct (map dm_id ds)" using assms(2) by (simp only: hosts_agree_def)
  moreover have "set ds \<subseteq> insert d ?A" unfolding tc_update(2) by auto
  moreover have "\<forall>a \<in> ?A. \<forall>b \<in> ?A. dm_host a = dm_host b \<longrightarrow> tls_choice a = tls_choice b"
    using assms(2) unfolding hosts_agree_def by blast
  ultimately show ?thesis using agree_with_new [of ?A dm_host tls_choice d, OF _ new] by blast
next
  case (tc_remove s i c)
  have "distinct (map dm_id ds)" "set ds \<subseteq> set (dw_rows w)"
    using assms(2) unfolding tc_remove(2) hosts_agree_def by (blast intro: distinct_map_filter, auto)
  then show ?thesis using assms(2) unfolding hosts_agree_def by blast
next
  case (tc_upsert s i c q cfg f w')
  show ?thesis using assms(2) unfolding tc_upsert(2) hosts_agree_def .
next
  case (tc_delete_feature s i c t u)
  show ?thesis using assms(2) unfolding tc_delete_feature(2) hosts_agree_def .
qed

interpretation host_tls: guarded_machine "domain_call_step pm" hosts_agree lists_siblings for pm
proof
  fix w :: "'a domain_world" and e
  assume "hosts_agree w" "lists_siblings e"
  moreover obtain en call where "e = (en, call)" by fastforce
  ultimately show "hosts_agree (domain_call_step pm w e)"
    using change_agrees [OF step_change] unfolding hosts_agree_def by blast
qed

text \<open>
  C12: every path of a hostname is served by one certificate. As long as the query for a hostname's rows
  answers, no sequence of adds, updates, provisions and removals makes two rows of a hostname disagree
  about the TLS mode, the uploaded certificate or the DNS provider.
\<close>
theorem hosts_agree_on_tls:
  assumes "hosts_agree w" and "\<forall>e \<in> set es. lists_siblings e"
  shows "hosts_agree (foldl (domain_call_step pm) w es)"
  by (rule host_tls.guarded_run [OF assms])

section \<open>Only an administrator pairs a name with a DNS credential\<close>

definition dns_pairing :: "domain_row \<Rightarrow> uuid \<times> string \<times> uuid option" where
  "dns_pairing d = (dm_id d, dm_host d, dm_dns d)"

definition dns_pairings :: "'p domain_world \<Rightarrow> (uuid \<times> string \<times> uuid option) set" where
  "dns_pairings w = dns_pairing ` {d \<in> set (dw_rows w). dm_ssl_mode d = ''dns_challenge''}"

definition not_admin :: "domain_env \<times> domain_call \<Rightarrow> bool" where
  "not_admin e = (case snd e of
     CallAdd c _ _ \<Rightarrow> ctx_role c \<noteq> ''admin'' | CallUpdate c _ _ \<Rightarrow> ctx_role c \<noteq> ''admin'' | _ \<Rightarrow> True)"

lemma change_pairings:
  assumes "table_change en w call ds fs" and "not_admin (en, call)"
  shows "dns_pairing ` {d \<in> set ds. dm_ssl_mode d = ''dns_challenge''} \<subseteq> dns_pairings w"
  using assms(1)
proof (cases rule: table_change.cases)
  case (tc_add c a q d app)
  then have "dm_ssl_mode d \<noteq> ''dns_challenge''"
    using plan_add_facts(8) [OF tc_add(4)] assms(2) by (auto simp: check_dns_challenge_def not_admin_def)
  then show ?thesis by (auto simp: tc_add(2) dns_pairings_def)
next
  case (tc_provision h a)
  have "dm_ssl_mode (provisioned en a h) \<noteq> ''dns_challenge''" by (simp add: provisioned_def)
  then show ?thesis by (auto simp: tc_provision(2) dns_pairings_def)
next
  case (tc_update s old c q d)
  from plan_update_facts [OF tc_update(8)] have i: "dm_id d = dm_id old"
    and k: "check_dns_challenge en c (dm_host d) (dm_ssl_mode d) (dm_dns d) (Some old) = None" by blast+
  have "dns_pairing d \<in> dns_pairings w" if "dm_ssl_mode d = ''dns_challenge''"
  proof -
    have "dm_ssl_mode old = ''dns_challenge'' \<and> dm_dns old = dm_dns d \<and> dm_host old = dm_host d"
      using k that assms(2) tc_update(1) by (auto simp: check_dns_challenge_def not_admin_def split: if_splits)
    then have "dns_pairing d = dns_pairing old" "old \<in> {d \<in> set (dw_rows w). dm_ssl_mode d = ''dns_challenge''}"
      using i tc_update(7) by (simp_all add: dns_pairing_def)
    then show ?thesis unfolding dns_pairings_def by (simp only: imageI)
  qed
  moreover have "x = d \<or> x \<in> set (dw_rows w)" if "x \<in> set ds" for x
    using that unfolding tc_update(2) by auto
  ultimately show ?thesis unfolding dns_pairings_def by blast
next
  case (tc_remove s i c)
  then show ?thesis by (simp add: dns_pairings_def) blast
qed (simp_all add: dns_pairings_def)

interpretation dns_gate: guarded_machine "domain_call_step pm" "\<lambda>w. dns_pairings w \<subseteq> P" not_admin for pm P
proof
  fix w :: "'a domain_world" and e
  assume "dns_pairings w \<subseteq> P" "not_admin e"
  moreover obtain en call where "e = (en, call)" by fastforce
  ultimately show "dns_pairings (domain_call_step pm w e) \<subseteq> P"
    using change_pairings [OF step_change [where pm = pm and w = w and en = en and call = call]]
    unfolding dns_pairings_def by blast
qed

text \<open>
  only an administrator can have a name issued with a DNS credential. Whatever members, tokens and
  tools request, after any number of requests every domain under the DNS challenge has the hostname and
  the provider it had before them.
\<close>
theorem dns_pairings_need_admin:
  assumes "\<forall>e \<in> set es. not_admin e"
  shows "dns_pairings (foldl (domain_call_step pm) w es) \<subseteq> dns_pairings w"
  by (rule dns_gate.guarded_run [OF order_refl assms])

section \<open>Domains of others\<close>

definition call_caller :: "domain_call \<Rightarrow> caller option" where
  "call_caller call = (case call of CallAdd c _ _ \<Rightarrow> Some c | CallUpdate c _ _ \<Rightarrow> Some c | CallRemove c _ \<Rightarrow> Some c
     | CallUpsert c _ _ \<Rightarrow> Some c | CallDeleteFeature c _ _ \<Rightarrow> Some c | CallProvision _ _ \<Rightarrow> None)"

definition keeps_out :: "uuid \<Rightarrow> domain_env \<times> domain_call \<Rightarrow> bool" where
  "keeps_out i e = (case call_caller (snd e) of None \<Rightarrow> True
     | Some c \<Rightarrow> \<not> can_access_domain (de_scan (fst e)) (de_access (fst e)) c i)"

definition untouched :: "uuid \<Rightarrow> 'p domain_world \<Rightarrow> 'p domain_world \<Rightarrow> bool" where
  "untouched i v w \<longleftrightarrow> filter (\<lambda>d. dm_id d = i) (dw_rows w) = filter (\<lambda>d. dm_id d = i) (dw_rows v) \<and>
     filter (\<lambda>f. fe_domain f = i) (dw_features w) = filter (\<lambda>f. fe_domain f = i) (dw_features v)"

lemma owner_accesses: "is_domain_owner scan db c i \<Longrightarrow> can_access_domain scan db c i"
  by (auto simp: is_domain_owner_def can_access_domain_def is_owner_only_def can_access_owned_def owned_access_def
      owner_is_caller_def owner_may_access_def split: if_splits lookup.splits)

lemma filter_map_other: "\<forall>x \<in> set xs. P (f x) = P x \<and> (P x \<longrightarrow> f x = x) \<Longrightarrow> filter P (map f xs) = filter P xs"
  by (induction xs) auto

lemma upsert_untouched:
  assumes "upsert_feature en k t cfg on w = Some (f, w')" and "k \<noteq> i"
  shows "filter (\<lambda>f. fe_domain f = i) (dw_features w') = filter (\<lambda>f. fe_domain f = i) (dw_features w)"
proof (cases "find (\<lambda>f. fe_domain f = k \<and> fe_type f = t) (dw_features w)")
  case None
  with assms show ?thesis by (auto simp: upsert_feature_def Let_def split: if_splits)
next
  case (Some old)
  then have "fe_domain old = k" by (auto simp: find_Some_iff)
  with assms Some show ?thesis
    by (auto simp: upsert_feature_def Let_def split: if_splits intro!: filter_map_other)
qed

lemma change_untouched:
  assumes "table_change en w call ds fs" and "keeps_out i (en, call)" and "i \<in> dm_id ` set (dw_rows w)"
  shows "filter (\<lambda>d. dm_id d = i) ds = filter (\<lambda>d. dm_id d = i) (dw_rows w) \<and>
    filter (\<lambda>f. fe_domain f = i) fs = filter (\<lambda>f. fe_domain f = i) (dw_features w)"
  using assms(1)
proof (cases rule: table_change.cases)
  case (tc_withdrawn j)
  with assms(3) have "j \<noteq> i" by blast
  then show ?thesis by (auto simp: tc_withdrawn intro: filter_cong)
next
  case (tc_add c a q d app)
  with assms(3) have "dm_id d \<noteq> i" by blast
  then show ?thesis by (simp add: tc_add)
next
  case (tc_provision h a)
  moreover have "dm_id (provisioned en a h) = de_new en" by (simp add: provisioned_def)
  ultimately show ?thesis using assms(3) by auto
next
  case (tc_update s old c q d)
  from plan_update_facts [OF tc_update(8)] have "dm_id d = dm_id old" by blast
  with tc_update(1,5) assms(2) have "dm_id d \<noteq> i" by (auto simp: keeps_out_def call_caller_def)
  then show ?thesis by (auto simp: tc_update intro!: filter_map_other)
next
  case (tc_remove s j c)
  with assms(2) owner_accesses have "j \<noteq> i" by (auto simp: keeps_out_def call_caller_def)
  then show ?thesis by (auto simp: tc_remove intro: filter_cong)
next
  case (tc_upsert s j c q cfg f w')
  with assms(2) have "j \<noteq> i" by (auto simp: keeps_out_def call_caller_def)
  with upsert_untouched [OF tc_upsert(7)] tc_upsert show ?thesis by simp
next
  case (tc_delete_feature s j c t u)
  with assms(2) have "j \<noteq> i" by (auto simp: keeps_out_def call_caller_def)
  then show ?thesis by (auto simp: tc_delete_feature intro: filter_cong)
qed simp

interpretation others: guarded_machine "domain_call_step pm" "\<lambda>w. i \<in> dm_id ` set (dw_rows w) \<and> untouched i v w" "keeps_out i" for pm i v
proof
  fix w :: "'a domain_world" and e
  assume w: "i \<in> dm_id ` set (dw_rows w) \<and> untouched i v w" and k: "keeps_out i e"
  obtain en call where e: "e = (en, call)" by fastforce
  have id: "i \<in> dm_id ` set xs \<longleftrightarrow> filter (\<lambda>d. dm_id d = i) xs \<noteq> []" for xs by (auto simp: filter_empty_conv)
  from change_untouched [OF step_change k [unfolded e] conjunct1 [OF w], of pm] w
  show "i \<in> dm_id ` set (dw_rows (domain_call_step pm w e)) \<and> untouched i v (domain_call_step pm w e)"
    unfolding e id untouched_def by metis
qed

text \<open>
  a caller cannot change a domain it may not access. Whatever callers without access to a domain
  request, by whichever domain or feature id, its row and its route features stay as they are: a feature
  id of another project's domain, named under a domain of one's own, deletes nothing.
\<close>
theorem others_domains_untouched:
  assumes "i \<in> dm_id ` set (dw_rows w)" and "\<forall>e \<in> set es. keeps_out i e"
  shows "untouched i w (foldl (domain_call_step pm) w es)"
  using others.guarded_run [of i w w es pm] assms by (simp add: untouched_def)

section \<open>An omitted field is kept\<close>

definition keeps_omitted :: "update_request \<Rightarrow> domain_row \<Rightarrow> domain_row \<Rightarrow> bool" where
  "keeps_omitted q old d \<longleftrightarrow> dm_id d = dm_id old \<and> dm_app d = dm_app old \<and>
     (uq_path q = None \<longrightarrow> dm_path d = dm_path old) \<and> (uq_strip q = None \<longrightarrow> dm_strip d = dm_strip old) \<and>
     (uq_internal q = None \<longrightarrow> dm_internal d = dm_internal old) \<and>
     (uq_ssl_enabled q = None \<longrightarrow> dm_ssl_enabled d = dm_ssl_enabled old) \<and> (uq_port q = None \<longrightarrow> dm_port d = dm_port old) \<and>
     (uq_provider q = '''' \<longrightarrow> dm_ssl_provider d = dm_ssl_provider old) \<and>
     (uq_advanced q = RawEmpty \<longrightarrow> dm_advanced d = dm_advanced old) \<and>
     (uq_mode q = '''' \<longrightarrow> dm_ssl_mode d = dm_ssl_mode old \<and> (uq_cert q = '''' \<longrightarrow> dm_cert d = dm_cert old) \<and>
        (uq_dns q = None \<longrightarrow> dm_dns d = dm_dns old) \<and> (uq_force q = None \<longrightarrow> dm_force_https d = dm_force_https old))"

definition only_hostname :: "string \<Rightarrow> update_request" where
  "only_hostname h = \<lparr>uq_host = h, uq_path = None, uq_strip = None, uq_internal = None, uq_ssl_enabled = None, uq_port = None,
     uq_force = None, uq_mode = '''', uq_provider = '''', uq_cert = '''', uq_dns = None, uq_advanced = RawEmpty\<rparr>"

lemma plan_update_keeps:
  assumes "plan_update en c old q w = Inr d" and ok: "domain_row_ok old"
  shows "keeps_omitted q old d"
proof -
  note old = ok [unfolded domain_row_ok_def]
  from assms(1) have a: "dm_id d = dm_id old" "dm_app d = dm_app old"
    "uq_path q = None \<Longrightarrow> dm_path d = dm_path old" "uq_strip q = None \<Longrightarrow> dm_strip d = dm_strip old"
    "uq_internal q = None \<Longrightarrow> dm_internal d = dm_internal old" "uq_port q = None \<Longrightarrow> dm_port d = dm_port old"
    "uq_ssl_enabled q = None \<Longrightarrow> dm_ssl_enabled d = dm_ssl_enabled old"
    "uq_provider q = '''' \<Longrightarrow> dm_ssl_provider d = dm_ssl_provider old"
    "uq_advanced q = RawEmpty \<Longrightarrow> dm_advanced d = dm_advanced old"
    "uq_mode q = '''' \<Longrightarrow> dm_ssl_mode d = dm_ssl_mode old"
    unfolding plan_update_def Let_def by (auto simp: res_simps or_stored_def split del: if_split)
  have m: "dm_cert d = dm_cert old" if "uq_mode q = ''''" "uq_cert q = ''''"
  proof -
    from assms(1) that have "dm_cert d = (if dm_ssl_mode old = ''custom'' then dm_cert old else None)"
      unfolding plan_update_def Let_def by (auto simp: res_simps split del: if_split)
    with old show ?thesis by (cases "dm_ssl_mode old = ''custom''") auto
  qed
  have p: "dm_dns d = dm_dns old" if "uq_mode q = ''''" "uq_dns q = None"
  proof -
    from assms(1) that have "resolve_dns_provider_id (de_scan en) (dm_ssl_mode old) None (dm_dns old) = Inr (dm_dns d)"
      unfolding plan_update_def Let_def by (auto simp: res_simps split del: if_split)
    with old show ?thesis by (cases "dm_ssl_mode old = ''dns_challenge''") (auto simp: resolve_dns_provider_id_def)
  qed
  have f: "dm_force_https d = dm_force_https old" if "uq_mode q = ''''" "uq_force q = None"
  proof -
    from assms(1) that have "dm_force_https d = coerce_force_https (dm_ssl_mode old) (dm_force_https old)"
      unfolding plan_update_def Let_def by (auto simp: res_simps or_stored_def split del: if_split)
    with old show ?thesis by (auto simp: coerce_force_https_def)
  qed
  show ?thesis unfolding keeps_omitted_def using a m p f by blast
qed

lemma agreement_holds:
  assumes "hosts_agree w" and "d \<in> set (dw_rows w)"
  shows "check_host_tls_agreement en (dm_host d) (dm_ssl_mode d) (dm_cert d) (dm_dns d) (Some (dm_id d)) w = None"
proof -
  let ?same = "\<lambda>s. dm_ssl_mode s = dm_ssl_mode d \<and> (dm_ssl_mode d = ''dns_challenge'' \<longrightarrow> dm_dns s = dm_dns d) \<and>
    (dm_ssl_mode d = ''custom'' \<longrightarrow> dm_cert s = dm_cert d)"
  have pass: "first_disagreement (dm_ssl_mode d) (dm_cert d) (dm_dns d) (Some (dm_id d)) ds = None" if "list_all ?same ds" for ds
    using that by (induction ds) auto
  have same: "?same s" if "tls_choice s = tls_choice d" for s
    using that by (auto simp: tls_choice_def split: if_splits)
  have "tls_choice s = tls_choice d" if "s \<in> set (filter (\<lambda>s. dm_host s = dm_host d) (dw_rows w))" for s
  proof -
    from that have "s \<in> set (dw_rows w)" "dm_host s = dm_host d" by simp_all
    with assms show ?thesis unfolding hosts_agree_def by blast
  qed
  then have "list_all ?same (filter (\<lambda>s. dm_host s = dm_host d) (dw_rows w))" using same unfolding list_all_iff by blast
  from pass [OF this] show ?thesis by (simp add: check_host_tls_agreement_def domains_by_hostname_def)
qed

lemma only_advanced_planned:
  assumes "domain_row_ok d" and "hosts_agree w" and "d \<in> set (dw_rows w)"
  shows "plan_update en c d ((only_hostname (dm_host d))\<lparr>uq_advanced := adv\<rparr>) w =
    Inr (d\<lparr>dm_advanced := (if adv = RawEmpty then dm_advanced d else adv)\<rparr>)"
proof -
  note ok = assms(1) [unfolded domain_row_ok_def]
  have p: "resolve_dns_provider_id (de_scan en) (dm_ssl_mode d) None (dm_dns d) = Inr (dm_dns d)"
    using ok by (auto simp: resolve_dns_provider_id_def)
  have c: "(if dm_ssl_mode d = ''custom'' then dm_cert d else None) = dm_cert d" using ok by auto
  have f: "coerce_force_https (dm_ssl_mode d) (dm_force_https d) = dm_force_https d" using ok by (auto simp: coerce_force_https_def)
  have k: "check_dns_challenge en c (dm_host d) (dm_ssl_mode d) (dm_dns d) (Some d) = None" by (simp add: check_dns_challenge_def)
  have w: "\<not> wildcard_needs_dns (dm_host d) (dm_ssl_mode d)" using ok by (simp add: wildcard_needs_dns_def)
  show ?thesis
    by (simp add: plan_update_def only_hostname_def Let_def p c f k w agreement_holds [OF assms(2,3)] refuse_if_def
        or_stored_def choice_error_def)
qed

lemma only_hostname_planned:
  assumes "domain_row_ok d" and "hosts_agree w" and "d \<in> set (dw_rows w)"
  shows "plan_update en c d (only_hostname (dm_host d)) w = Inr d"
proof -
  have "(only_hostname (dm_host d))\<lparr>uq_advanced := RawEmpty\<rparr> = only_hostname (dm_host d)" by (simp add: only_hostname_def)
  with only_advanced_planned [OF assms, of en c RawEmpty] show ?thesis by simp
qed

text \<open>
  an update changes only what it names. A member the request leaves out keeps its stored value, the
  TLS mode with its certificate and provider included, whatever else the request changes; and a request
  that names the hostname alone is accepted and leaves the tables as they are.
\<close>
theorem omitted_fields_kept:
  assumes "world_ok w" and "d \<in> set (dw_rows w)" and "de_scan en s = Some (dm_id d)"
    and "can_access_domain (de_scan en) (de_access en) c (dm_id d)"
  shows "(\<forall>q d' w'. update_domain pm en c s (Some q) w = (Inr d', w') \<longrightarrow> keeps_omitted q d d' \<and> dm_host d' = uq_host q) \<and>
    (hosts_agree w \<and> de_ok en ''GetDomain'' \<and> de_ok en ''UpdateDomain'' \<and> columns_ok d \<and> references_ok en d \<longrightarrow>
     (\<exists>w'. update_domain pm en c s (Some (only_hostname (dm_host d))) w = (Inr d, w') \<and> dw_rows w' = dw_rows w \<and> dw_features w' = dw_features w))"
proof -
  have ok: "domain_row_ok d" using assms(1,2) by (auto simp: world_ok_def domain_tables_ok_def list_all_iff)
  have uniq: "r = d" if "r \<in> set (dw_rows w)" "dm_id r = dm_id d" for r
    using that assms(1,2) by (auto simp: world_ok_def domain_tables_ok_def distinct_map inj_on_def)
  have place: "dm_id r = dm_id d" if "r \<in> set (dw_rows w)" "row_at r = row_at d" for r
    using that assms(1,2) by (auto simp: world_ok_def domain_tables_ok_def distinct_map inj_on_def)
  have found: "find (\<lambda>r. dm_id r = dm_id d) (dw_rows w) = Some d"
  proof -
    have "find (\<lambda>r. dm_id r = dm_id d) (dw_rows w) \<noteq> None" using assms(2) by (auto simp: find_None_iff)
    then obtain r where r: "find (\<lambda>r. dm_id r = dm_id d) (dw_rows w) = Some r" by blast
    then have "r = d" by (intro uniq) (auto simp: find_Some_iff)
    with r show ?thesis by simp
  qed
  show ?thesis
  proof (intro conjI impI allI)
    fix q d' w' assume u: "update_domain pm en c s (Some q) w = (Inr d', w')"
    then have "plan_update en c d q w = Inr d'"
      using assms(3,4) found by (auto simp: update_domain_def find_domain_def split: option.splits sum.splits if_splits)
    with plan_update_keeps [OF this ok] plan_update_facts [OF this]
    show "keeps_omitted q d d'" "dm_host d' = uq_host q" by blast+
  next
    assume h: "hosts_agree w \<and> de_ok en ''GetDomain'' \<and> de_ok en ''UpdateDomain'' \<and> columns_ok d \<and> references_ok en d"
    let ?q = "only_hostname (dm_host d)"
    have "check_hostname (uq_host ?q) (uq_mode ?q) = None"
    proof -
      have "dm_host d \<noteq> ''''"
        using ok by (auto simp: domain_row_ok_def valid_domain_hostname_def valid_hostname_def trim_prefix_def)
      with ok show ?thesis by (simp add: check_hostname_def only_hostname_def domain_row_ok_def)
    qed
    moreover have "plan_update en c d ?q w = Inr d" using only_hostname_planned [OF ok _ assms(2)] h by blast
    moreover have "map (\<lambda>r. if dm_id r = dm_id d then d else r) (dw_rows w) = dw_rows w"
      by (rule map_idI) (use uniq in auto)
    moreover have "\<not> list_ex (\<lambda>r. dm_id r \<noteq> dm_id d \<and> dm_host r = dm_host d \<and> dm_path r = dm_path d) (dw_rows w)"
      using place by (auto simp: list_ex_iff row_at_def)
    ultimately show "\<exists>w'. update_domain pm en c s (Some ?q) w = (Inr d, w') \<and> dw_rows w' = dw_rows w \<and> dw_features w' = dw_features w"
      using h assms(3,4) found by (simp add: update_domain_def find_domain_def store_domain_def)
  qed
qed

section \<open>Failures\<close>

lemma add_refusals: "plan_add en c a q w \<noteq> Inl DResolveFailed"
proof -
  have a: "check_hostname h m \<noteq> Some DResolveFailed" "validate_domain_port p \<noteq> Inl DResolveFailed" for h m p
    by (auto simp: check_hostname_def validate_domain_port_def split: option.split)
  have b: "check_dns_challenge en c h m p None \<noteq> Some DResolveFailed" for h m p
    by (auto simp: check_dns_challenge_def Let_def split: option.splits prod.splits)
  have "first_disagreement m x p s ds \<noteq> Some DResolveFailed" for m x p s ds
    by (induction m x p s ds rule: first_disagreement.induct) auto
  then have d: "check_host_tls_agreement en h m x p s w \<noteq> Some DResolveFailed" for h m x p s
    by (auto simp: check_host_tls_agreement_def split: option.splits)
  show ?thesis
    by (auto simp: plan_add_def Let_def res_simps a b d split del: if_split) (simp_all split: if_splits)
qed

text \<open>
  an add that cannot resolve the application leaves its row behind. The client is told that the add
  failed, but the row stays, with no route and no rollback; and no retry of the same request, by anyone
  for any application, can succeed while it is there.
\<close>
theorem failed_add_leaves_row:
  assumes "add_domain pm en c app (Some q) w = (Inl DResolveFailed, w')"
  shows "(\<exists>d. dw_rows w' = dw_rows w @ [d] \<and> dm_host d = aq_host q \<and> dw_proxy w' = dw_proxy w) \<and>
    (\<forall>pm' en' c' app' x w''. add_domain pm' en' c' app' (Some q) w' \<noteq> (Inr x, w''))"
proof -
  have plan_host: "dm_host d = aq_host q" if "plan_add en c a q w = Inr d" for en c a d and w :: "'a domain_world"
    using that unfolding plan_add_def Let_def by (auto simp: res_simps)
  have plan_at: "row_at d = (aq_host q, normalize_domain_path (aq_path q))"
    if "plan_add en c a q w = Inr d" for en c a d and w :: "'a domain_world"
    using that plan_host [OF that] plan_add_facts(9) [OF that] by (simp add: row_at_def)
  from assms obtain a d where p: "plan_add en c a q w = Inr d" "create_domain_record pm en d w = (Inl DResolveFailed, w')"
    by (auto simp: add_domain_def add_refusals split: option.splits if_splits sum.splits prod.splits)
  then obtain w1 where "insert_domain en d w = Inr w1" "w' = w1"
    by (auto simp: create_domain_record_def Let_def insert_domain_def split: sum.splits option.splits prod.splits if_splits)
  with insert_domain_Inr have w': "w' = w\<lparr>dw_rows := dw_rows w @ [d]\<rparr>" by blast
  have "add_domain pm' en' c' app' (Some q) w' \<noteq> (Inr x, w'')" for pm' en' c' app' x w''
  proof
    assume "add_domain pm' en' c' app' (Some q) w' = (Inr x, w'')"
    then obtain a' d' w2 where p': "plan_add en' c' a' q w' = Inr d'" "create_domain_record pm' en' d' w' = (Inr x, w2)"
      by (auto simp: add_domain_def split: option.splits if_splits sum.splits prod.splits)
    then obtain w3 where "insert_domain en' d' w' = Inr w3" by (auto simp: create_domain_record_def split: sum.splits)
    then have "row_at d' \<notin> row_at ` set (dw_rows w')" by (rule insert_domain_Inr)
    moreover have "row_at d' = row_at d" using plan_at p(1) p'(1) by simp
    ultimately show False by (simp add: w')
  qed
  with plan_host [OF p(1)] show ?thesis by (simp add: w')
qed

section \<open>Concrete requests\<close>

definition panel_caller :: "string \<Rightarrow> caller" where
  "panel_caller role = \<lparr>ctx_user_id = ''u'', ctx_role = role, ctx_token_id = '''', ctx_scopes = None, ctx_pinned = False,
     ctx_project_ids = None\<rparr>"

definition panel_access :: access_db where
  "panel_access = \<lparr>app_owner = (\<lambda>_. Absent), database_owner = (\<lambda>_. Absent),
     domain_owner = (\<lambda>_. Found \<lparr>own_project = 9, own_user = Some 2, own_shared = False\<rparr>),
     deployment_owner = (\<lambda>_. Absent), project_row = (\<lambda>_. Absent)\<rparr>"

definition panel_env :: "string list \<Rightarrow> domain_env" where
  "panel_env down = \<lparr>de_ok = (\<lambda>q. q \<notin> set down), de_scan = (\<lambda>s. if s = ''d'' then Some 1 else if s = ''x'' then Some 5 else None),
     de_access = panel_access, de_app = (\<lambda>_. Some (''p'', ''app'', None)), de_running = (\<lambda>_. True),
     de_certs = (\<lambda>_. None), de_provider = (\<lambda>_. None), de_dec = (\<lambda>_. None), de_creds = (\<lambda>_. None), de_caps = None,
     de_build = \<lparr>be_sha = (\<lambda>_. []), be_is_range = (\<lambda>_. True), be_duration = (\<lambda>_. None)\<rparr>, de_bcrypt = (\<lambda>_. None), de_new = 7\<rparr>"

definition panel_row :: domain_row where
  "panel_row = \<lparr>dm_id = 1, dm_app = 5, dm_host = ''a.io'', dm_ssl_enabled = True, dm_port = None, dm_force_https = True,
     dm_ssl_mode = ''automatic'', dm_ssl_provider = '''', dm_advanced = RawEmpty, dm_cert = None, dm_path = ''/api'',
     dm_strip = True, dm_internal = '''', dm_dns = None\<rparr>"

definition panel_world :: "'p \<Rightarrow> domain_row list \<Rightarrow> 'p domain_world" where
  "panel_world p ds = \<lparr>dw_rows = ds, dw_features = [], dw_proxy = p, dw_probes = [], dw_audit = []\<rparr>"

lemma panel_host: "valid_hostname ''a.io''" "valid_domain_hostname ''a.io''" "stored_path ''/api''"
  by code_simp+

lemma panel_world_ok: "world_ok (panel_world () [])" "world_ok (panel_world () [panel_row])" "hosts_agree (panel_world () [panel_row])"
  using panel_host(2,3)
  by (simp_all add: world_ok_def hosts_agree_def panel_world_def domain_tables_ok_def domain_row_ok_def panel_row_def valid_ssl_modes_def)

lemma panel_provision:
  "dw_rows (domain_call_step idle_proxy (panel_world () []) (panel_env [], CallProvision 5 ''a.io'')) = [provisioned (panel_env []) 5 ''a.io'']"
proof -
  have p: "normalize_domain_path '''' = ''/''" "normalize_internal_path '''' = ''''" by code_simp+
  show ?thesis
    using panel_host(1)
    by (simp add: domain_call_step_def provision_domain_def check_host_tls_agreement_def domains_by_hostname_def panel_world_def
        panel_env_def create_domain_record_def insert_domain_def columns_ok_def provisioned_def references_ok_def p
        valid_ssl_modes_def char_count_def app_with_project_def idle_proxy_def)
qed

theorem domain_tables_well_typed_witness:
  "world_ok (foldl (domain_call_step idle_proxy) (panel_world () []) [(panel_env [], CallProvision 5 ''a.io'')]) \<and>
   dw_rows (foldl (domain_call_step idle_proxy) (panel_world () []) [(panel_env [], CallProvision 5 ''a.io'')]) \<noteq> []"
proof -
  have "\<forall>e \<in> set [(panel_env [], CallProvision 5 ''a.io'')]. hashes e" by (simp add: hashes_def panel_env_def)
  from domain_tables_well_typed [OF panel_world_ok(1) this, of idle_proxy] panel_provision show ?thesis by simp
qed

theorem hosts_agree_on_tls_witness:
  "hosts_agree (foldl (domain_call_step idle_proxy) (panel_world () [panel_row]) [(panel_env [], CallProvision 5 ''a.io'')])"
  by (rule hosts_agree_on_tls [OF panel_world_ok(3)]) (simp add: lists_siblings_def panel_env_def)

theorem dns_pairings_need_admin_witness:
  "dns_pairings (foldl (domain_call_step idle_proxy) (panel_world () [panel_row\<lparr>dm_ssl_mode := ''dns_challenge'', dm_dns := Some 3\<rparr>])
     [(panel_env [], CallUpdate (panel_caller ''member'') ''d'' (Some (only_hostname ''*.zone.io'')))]) \<subseteq> {(1, ''a.io'', Some 3)}"
proof -
  let ?w = "panel_world () [panel_row\<lparr>dm_ssl_mode := ''dns_challenge'', dm_dns := Some 3\<rparr>]"
  have "dns_pairings (panel_world () [d]) = {dns_pairing d}" if "dm_ssl_mode d = ''dns_challenge''" for d
    using that by (auto simp: dns_pairings_def panel_world_def)
  moreover have "dns_pairing (panel_row\<lparr>dm_ssl_mode := ''dns_challenge'', dm_dns := Some 3\<rparr>) = (1, ''a.io'', Some 3)"
    by (simp add: dns_pairing_def panel_row_def)
  ultimately have "dns_pairings ?w = {(1, ''a.io'', Some 3)}" by simp
  with dns_pairings_need_admin [of "[(panel_env [], CallUpdate (panel_caller ''member'') ''d'' (Some (only_hostname ''*.zone.io'')))]" idle_proxy ?w]
  show ?thesis by (simp add: not_admin_def panel_caller_def)
qed

theorem others_domains_untouched_witness:
  "untouched 1 (panel_world () [panel_row]) (foldl (domain_call_step idle_proxy) (panel_world () [panel_row])
     [(panel_env [], CallRemove (panel_caller ''member'') ''d''), (panel_env [], CallDeleteFeature (panel_caller ''member'') ''d'' ''x'')])"
  by (rule others_domains_untouched)
     (simp_all add: panel_world_def panel_row_def keeps_out_def call_caller_def can_access_domain_def can_access_owned_def
       owned_access_def panel_env_def panel_access_def panel_caller_def pin_allows_def token_projects_def owner_may_access_def)

theorem omitted_fields_kept_witness:
  "\<exists>w'. update_domain idle_proxy (panel_env []) (panel_caller ''admin'') ''d'' (Some (only_hostname ''a.io'')) (panel_world () [panel_row]) =
      (Inr panel_row, w') \<and> dw_rows w' = [panel_row]"
proof -
  have h: "panel_row \<in> set (dw_rows (panel_world () [panel_row]))" "de_scan (panel_env []) ''d'' = Some (dm_id panel_row)"
    "dm_host panel_row = ''a.io''" "dw_rows (panel_world () [panel_row]) = [panel_row]"
    by (simp_all add: panel_world_def panel_env_def panel_row_def)
  have a: "can_access_domain (de_scan (panel_env [])) (de_access (panel_env [])) (panel_caller ''admin'') (dm_id panel_row)"
    by (simp add: can_access_domain_def can_access_owned_def owned_access_def panel_caller_def)
  have e: "de_ok (panel_env []) q" for q by (simp add: panel_env_def)
  have c: "columns_ok panel_row" "references_ok (panel_env []) panel_row"
    by (simp_all add: columns_ok_def references_ok_def panel_row_def valid_ssl_modes_def char_count_def)
  from conjunct2 [OF omitted_fields_kept [OF panel_world_ok(2) h(1,2) a, of idle_proxy]] panel_world_ok(3) e c
  show ?thesis unfolding h(3,4) by blast
qed

definition demo_add :: "raw_json \<Rightarrow> add_request" where
  "demo_add adv = \<lparr>aq_host = ''a.io'', aq_path = ''/api'', aq_strip = False, aq_internal = '''', aq_ssl_enabled = False, aq_port = None,
     aq_force = None, aq_mode = '''', aq_provider = '''', aq_cert = '''', aq_dns = None, aq_advanced = adv\<rparr>"

definition demo_row :: "raw_json \<Rightarrow> domain_row" where
  "demo_row adv = \<lparr>dm_id = 7, dm_app = 5, dm_host = ''a.io'', dm_ssl_enabled = False, dm_port = None, dm_force_https = False,
     dm_ssl_mode = ''automatic'', dm_ssl_provider = '''', dm_advanced = adv, dm_cert = None, dm_path = ''/api'',
     dm_strip = False, dm_internal = '''', dm_dns = None\<rparr>"

lemma demo_planned: "plan_add (panel_env down) c 5 (demo_add adv) (panel_world p []) = Inr (demo_row adv)"
proof -
  have n: "normalize_domain_path ''/api'' = ''/api''" "normalize_internal_path '''' = ''''" "validate_domain_path ''/api'' = None"
    "validate_internal_path '''' = None" by code_simp+
  have h: "check_hostname ''a.io'' '''' = None" using panel_host(2) by (simp add: check_hostname_def)
  have t: "check_host_tls_agreement (panel_env down) ''a.io'' m x y None (panel_world p []) = None" for m x y
    by (simp add: check_host_tls_agreement_def domains_by_hostname_def panel_world_def)
  have d: "check_dns_challenge (panel_env down) c ''a.io'' ''automatic'' y None = None" for y
    by (simp add: check_dns_challenge_def)
  have "parse_certificate_id s ''automatic'' '''' = Inr None" "resolve_dns_provider_id s ''automatic'' None None = Inr None" for s
    by (simp_all add: parse_certificate_id_def resolve_dns_provider_id_def)
  moreover have "\<not> wildcard_needs_dns ''a.io'' ''automatic''" by (simp add: wildcard_needs_dns_def)
  moreover have "de_new (panel_env down) = 7" by (simp add: panel_env_def)
  ultimately show ?thesis
    by (simp add: plan_add_def demo_add_def Let_def refuse_if_def choice_error_def validate_domain_port_def coerce_force_https_def
        demo_row_def n h t d)
qed

lemma demo_inserted:
  "''CreateDomain'' \<notin> set down \<Longrightarrow>
   insert_domain (panel_env down) (demo_row adv) (panel_world p []) = Inr (panel_world p [demo_row adv])"
  by (simp add: insert_domain_def demo_row_def columns_ok_def references_ok_def valid_ssl_modes_def char_count_def panel_world_def
      panel_env_def)

lemma demo_allowed:
  "de_scan (panel_env down) ''x'' = Some 5"
  "can_access_application (de_scan (panel_env down)) (de_access (panel_env down)) (panel_caller ''admin'') 5"
  by (simp_all add: panel_env_def can_access_application_def can_access_owned_def owned_access_def panel_caller_def)

theorem failed_add_leaves_row_witness:
  "\<exists>w'. add_domain idle_proxy (panel_env [''GetApplicationWithProjectSlug'']) (panel_caller ''admin'') ''x'' (Some (demo_add RawEmpty)) (panel_world () []) =
      (Inl DResolveFailed, w') \<and>
     (\<forall>x w''. add_domain idle_proxy (panel_env []) (panel_caller ''admin'') ''x'' (Some (demo_add RawEmpty)) w' \<noteq> (Inr x, w''))"
proof -
  have "app_with_project (panel_env [''GetApplicationWithProjectSlug'']) a = None" for a
    by (simp add: app_with_project_def panel_env_def)
  then have w: "add_domain idle_proxy (panel_env [''GetApplicationWithProjectSlug'']) (panel_caller ''admin'') ''x'' (Some (demo_add RawEmpty))
      (panel_world () []) = (Inl DResolveFailed, panel_world () [demo_row RawEmpty])"
    by (simp add: add_domain_def demo_allowed demo_planned create_domain_record_def demo_inserted)
  from conjunct2 [OF failed_add_leaves_row [OF w]] w show ?thesis by blast
qed

end
