(* ===== verification/DomainRoutes.thy ===== *)
theory DomainRoutes
  imports Domains ProxyPass
begin

text \<open>
  What the domain endpoints leave in Caddy: the handlers of \<open>Domains\<close> run on the client of
  \<open>CaddyClient\<close>, through the laws the interpretation \<open>caddy\<close> of \<open>ProxyPass\<close> provides.
\<close>

section \<open>The routes a request leaves\<close>

definition domain_target :: "domain_env \<Rightarrow> domain_row \<Rightarrow> string" where
  "domain_target en d =
     (case app_with_project en (dm_app d) of
        None \<Rightarrow> ''''
      | Some (project, slug, app_port) \<Rightarrow> upstream_url project slug (dm_port d) app_port)"

abbreviation place_id :: "build_env \<Rightarrow> domain_row \<Rightarrow> string" where
  "place_id env d \<equiv> route_id_for (be_sha env) (dm_host d) (dm_path d)"

abbreviation root_id :: "build_env \<Rightarrow> domain_row \<Rightarrow> string" where
  "root_id env d \<equiv> route_id_for (be_sha env) (dm_host d) ''/''"

lemma sync_routes:
  assumes "serving http V env addr (dw_proxy w)"
  shows "serving http V env addr (dw_proxy (handler_sync_policies (caddy_proxy http env) en w))"
    "held_routes V (dw_proxy (handler_sync_policies (caddy_proxy http env) en w)) = held_routes V (dw_proxy w)"
  using caddy.dns_law [of http V env addr] assms
  by (auto simp: handler_sync_policies_def keeps_routes_def split: prod.splits)

lemma audit_proxy [simp]: "dw_proxy (audit_domain x i w) = dw_proxy w"
  by (simp add: audit_domain_def)

lemma config_id_root: "rc_path c = '''' \<Longrightarrow> rc_host c = dm_host d \<Longrightarrow> cfg_id env c = root_id env d"
  by (simp add: route_id_for_def is_root_path_def)

lemma created_place [simp]: "rc_path (created_config en d t) = ''''" "rc_host (created_config en d t) = dm_host d"
  by (simp_all add: created_config_def)

lemma updated_place [simp]: "rc_path (updated_config en d t fs) = ''''" "rc_host (updated_config en d t fs) = dm_host d"
  by (simp_all add: updated_config_def)

lemma rebuilt_place [simp]: "rc_path (rebuilt_config en d t fs) = dm_path d" "rc_host (rebuilt_config en d t fs) = dm_host d"
  by (simp_all add: rebuilt_config_def)

lemma added_record:
  assumes "add_domain pm en c app body w = (Inr d, w')"
  shows "\<exists>w1. insert_domain en d w = Inr w1 \<and> app_with_project en (dm_app d) \<noteq> None \<and>
    pm_add pm (created_config en d (domain_target en d))
      (dw_proxy (if dm_ssl_mode d = ''dns_challenge'' then handler_sync_policies pm en w1 else w1)) = (None, dw_proxy w')"
  using assms
  by (auto simp: add_domain_def create_domain_record_def domain_target_def Let_def
      split: option.splits if_splits sum.splits prod.splits)

text \<open>
  a domain added on a path takes over the whole host. \<open>createDomainRecord\<close> leaves the path out of the
  route it writes, so a successful add of \<open>host/path\<close> replaces whatever route served all of \<open>host\<close>,
  another application's included, and writes no route for the path itself. It stays so until a
  reconcile pass.
\<close>
theorem added_path_takes_whole_host:
  assumes "serving http V env addr (dw_proxy w)"
    and "add_domain (caddy_proxy http env) en c app body w = (Inr d, w')"
    and "loadable V env (created_config en d (domain_target en d))"
  shows "held_routes V (dw_proxy w') =
    (held_routes V (dw_proxy w))(root_id env d \<mapsto> table_entry env (created_config en d (domain_target en d)))"
proof -
  from added_record [OF assms(2)] obtain w1 where w1: "insert_domain en d w = Inr w1"
    "pm_add (caddy_proxy http env) (created_config en d (domain_target en d))
      (dw_proxy (if dm_ssl_mode d = ''dns_challenge'' then handler_sync_policies (caddy_proxy http env) en w1 else w1)) = (None, dw_proxy w')"
    by blast
  let ?w = "if dm_ssl_mode d = ''dns_challenge'' then handler_sync_policies (caddy_proxy http env) en w1 else w1"
  have "dw_proxy w1 = dw_proxy w" using insert_domain_Inr(1) [OF w1(1)] by simp
  with assms(1) sync_routes [of http V env addr w1] have "serving http V env addr (dw_proxy ?w)"
    "held_routes V (dw_proxy ?w) = held_routes V (dw_proxy w)" by auto
  with caddy.add_law [OF this(1) assms(3)] w1(2) config_id_root [of "created_config en d (domain_target en d)" d env]
  show ?thesis by (auto simp: config_id_def)
qed

text \<open>
  a refused add takes the host's route down. When the advanced configuration of the request does not
  decode, the route cannot be built, but the client has already removed the host's route by then: the
  caller gets an error, the new row is withdrawn, and the route that served all of \<open>host\<close> is gone.
\<close>
theorem refused_add_unroutes_host:
  assumes "serving http V env addr (dw_proxy w)" and "de_scan en app = Some a"
    and "can_access_application (de_scan en) (de_access en) c a" and "plan_add en c a q w = Inr d"
    and "insert_domain en d w = Inr w1" and "app_with_project en (dm_app d) \<noteq> None" and "de_ok en ''DeleteDomain''"
    and "unbuildable env (created_config en d (domain_target en d))"
  shows "\<exists>w'. add_domain (caddy_proxy http env) en c app (Some q) w = (Inl DProxyFailed, w') \<and>
    dw_rows w' = dw_rows w \<and> held_routes V (dw_proxy w') = (held_routes V (dw_proxy w))(root_id env d := None)"
proof -
  let ?pm = "caddy_proxy http env"
  let ?w = "if dm_ssl_mode d = ''dns_challenge'' then handler_sync_policies ?pm en w1 else w1"
  note i = insert_domain_Inr [OF assms(5)]
  have p: "dw_proxy w1 = dw_proxy w" and r: "dw_rows ?w = dw_rows w @ [d]" using i(1) by simp_all
  with assms(1) sync_routes [of http V env addr w1] have s: "serving http V env addr (dw_proxy ?w)"
    "held_routes V (dw_proxy ?w) = held_routes V (dw_proxy w)" by auto
  from caddy.broken_law [OF s(1) assms(8)] obtain e p' where b:
    "pm_add ?pm (created_config en d (domain_target en d)) (dw_proxy ?w) = (Some e, p')"
    "held_routes V p' = (held_routes V (dw_proxy w))(root_id env d := None)"
    using s(2) config_id_root [of "created_config en d (domain_target en d)" d env] by (auto simp: config_id_def)
  have k: "filter (\<lambda>x. dm_id x \<noteq> dm_id d) (dw_rows w) = dw_rows w"
    using i(2) by (intro filter_True ballI) (metis imageI)
  obtain project slug app_port where t: "app_with_project en (dm_app d) = Some (project, slug, app_port)"
    using assms(6) by auto
  have "create_domain_record ?pm en d w = (Inl DProxyFailed, ?w\<lparr>dw_proxy := p', dw_rows := dw_rows w,
      dw_features := filter (\<lambda>f. fe_domain f \<noteq> dm_id d) (dw_features ?w)\<rparr>)"
    using b(1) r k assms(7) by (simp add: create_domain_record_def assms(5) t Let_def domain_target_def delete_domain_def)
  then show ?thesis using b(2) by (simp add: add_domain_def assms(2-4))
qed

lemma updated_record:
  assumes "update_domain pm en c s body w = (Inr d, w')" and "de_scan en s = Some i" and "find_domain en i w = Some old"
  obtains w1 where "w1 = w\<lparr>dw_rows := dw_rows w1\<rparr>" "w' = push_update pm en old d w1"
proof -
  from assms obtain w1 where "store_domain en d w = Some w1" "w' = push_update pm en old d w1"
    by (auto simp: update_domain_def split: option.splits if_splits sum.splits)
  moreover from this(1) have "w1 = w\<lparr>dw_rows := dw_rows w1\<rparr>"
    by (auto simp: store_domain_def split: if_splits)
  ultimately show thesis using that by blast
qed

lemma pushed:
  assumes "serving http V env addr (dw_proxy w)" and "app_with_project en (dm_app d) \<noteq> None"
  obtains p where "serving http V env addr p" "held_routes V p = (held_routes V (dw_proxy w))(place_id env old := None)"
    "dw_proxy (push_update (caddy_proxy http env) en old d w) =
       snd (pm_add (caddy_proxy http env) (updated_config en d (domain_target en d) (load_route_features en (dm_id d) w)) p)"
proof -
  let ?pm = "caddy_proxy http env"
  let ?w = "if dm_ssl_mode old = ''dns_challenge'' \<or> dm_ssl_mode d = ''dns_challenge'' then handler_sync_policies ?pm en w else w"
  from assms(1) sync_routes [of http V env addr w] have s: "serving http V env addr (dw_proxy ?w)"
    "held_routes V (dw_proxy ?w) = held_routes V (dw_proxy w)" by auto
  from caddy.remove_law [OF s(1), of "dm_host old" "dm_path old"] obtain p where p:
    "pm_remove ?pm (dm_host old) (dm_path old) (dw_proxy ?w) = (None, p)" "serving http V env addr p"
    "held_routes V p = (held_routes V (dw_proxy w))(place_id env old := None)" using s(2) by auto
  obtain project slug app_port where t: "app_with_project en (dm_app d) = Some (project, slug, app_port)"
    using assms(2) by auto
  have f: "load_route_features en (dm_id d) (?w\<lparr>dw_proxy := p\<rparr>) = load_route_features en (dm_id d) w"
    by (simp add: load_route_features_def features_of_def)
  have "dw_proxy (push_update ?pm en old d w) =
      snd (pm_add ?pm (updated_config en d (domain_target en d) (load_route_features en (dm_id d) w)) p)"
    using p(1) f by (simp add: push_update_def Let_def t domain_target_def split del: if_split)
  with that p show thesis by blast
qed

lemma edited_proxy:
  assumes "serving http V env addr (dw_proxy w)" and "update_domain (caddy_proxy http env) en c s body w = (Inr d, w')"
    and "de_scan en s = Some i" and "find_domain en i w = Some old" and "app_with_project en (dm_app d) \<noteq> None"
  obtains p where "serving http V env addr p" "held_routes V p = (held_routes V (dw_proxy w))(place_id env old := None)"
    "dw_proxy w' = snd (pm_add (caddy_proxy http env)
       (updated_config en d (domain_target en d) (load_route_features en (dm_id d) w)) p)"
proof -
  obtain w1 where w1: "w1 = w\<lparr>dw_rows := dw_rows w1\<rparr>" "w' = push_update (caddy_proxy http env) en old d w1"
    by (rule updated_record [OF assms(2-4)])
  from w1(1) have same: "dw_proxy w1 = dw_proxy w" "dw_features w1 = dw_features w" by (metis domain_world.select_convs domain_world.surjective domain_world.update_convs(1))+
  then have f: "load_route_features en (dm_id d) w1 = load_route_features en (dm_id d) w"
    by (simp add: load_route_features_def features_of_def)
  show thesis
    using pushed [of http V env addr w1 en d old] assms(1,5) f same w1(2) that by metis
qed

text \<open>
  an edit moves a domain from its path to the whole host. \<open>UpdateDomain\<close> removes the route of the stored
  path, as it must, and then writes the new one without its path: whatever was edited, a domain on a path
  ends with no route of its own, and the route of all of \<open>host\<close> is replaced by one to its application.
\<close>
theorem edited_path_takes_whole_host:
  assumes "serving http V env addr (dw_proxy w)" and "update_domain (caddy_proxy http env) en c s body w = (Inr d, w')"
    and "de_scan en s = Some i" and "find_domain en i w = Some old" and "app_with_project en (dm_app d) \<noteq> None"
    and "loadable V env (updated_config en d (domain_target en d) (load_route_features en (dm_id d) w))"
  shows "held_routes V (dw_proxy w') = (held_routes V (dw_proxy w))(place_id env old := None,
    root_id env d \<mapsto> table_entry env (updated_config en d (domain_target en d) (load_route_features en (dm_id d) w)))"
proof -
  obtain p where p: "serving http V env addr p" "held_routes V p = (held_routes V (dw_proxy w))(place_id env old := None)"
    "dw_proxy w' = snd (pm_add (caddy_proxy http env)
       (updated_config en d (domain_target en d) (load_route_features en (dm_id d) w)) p)"
    by (rule edited_proxy [OF assms(1-5)])
  from caddy.add_law [OF p(1) assms(6)] p(2,3) config_id_root [of "updated_config en d (domain_target en d) (load_route_features en (dm_id d) w)" d env]
  show ?thesis by (auto simp: config_id_def)
qed

text \<open>
  an edit Caddy's route builder refuses is reported as done. The row is stored, the old route removed and
  the host's route with it, and no new one written; the caller still gets the updated domain.
\<close>
theorem unbuildable_edit_is_silent:
  assumes "serving http V env addr (dw_proxy w)" and "update_domain (caddy_proxy http env) en c s body w = (Inr d, w')"
    and "de_scan en s = Some i" and "find_domain en i w = Some old" and "app_with_project en (dm_app d) \<noteq> None"
    and "unbuildable env (updated_config en d (domain_target en d) (load_route_features en (dm_id d) w))"
  shows "held_routes V (dw_proxy w') = (held_routes V (dw_proxy w))(place_id env old := None, root_id env d := None)"
proof -
  obtain p where p: "serving http V env addr p" "held_routes V p = (held_routes V (dw_proxy w))(place_id env old := None)"
    "dw_proxy w' = snd (pm_add (caddy_proxy http env)
       (updated_config en d (domain_target en d) (load_route_features en (dm_id d) w)) p)"
    by (rule edited_proxy [OF assms(1-5)])
  from caddy.broken_law [OF p(1) assms(6)] p(2,3) config_id_root [of "updated_config en d (domain_target en d) (load_route_features en (dm_id d) w)" d env]
  show ?thesis by (auto simp: config_id_def)
qed

text \<open>
  removing a domain takes exactly its route and its row. The row goes with its features, no other row or
  feature does, and Caddy loses the route of the domain's host and path and no other.
\<close>
theorem removed_domain_is_unrouted:
  assumes "serving http V env addr (dw_proxy w)" and "remove_domain (caddy_proxy http env) en c s w = (Inr u, w')"
    and "de_scan en s = Some i" and "find_domain en i w = Some d"
  shows "dw_rows w' = filter (\<lambda>r. dm_id r \<noteq> i) (dw_rows w) \<and> dw_features w' = filter (\<lambda>f. fe_domain f \<noteq> i) (dw_features w) \<and>
    held_routes V (dw_proxy w') = (held_routes V (dw_proxy w))(place_id env d := None)"
proof -
  let ?pm = "caddy_proxy http env"
  from caddy.remove_law [OF assms(1), of "dm_host d" "dm_path d"] obtain p where p:
    "pm_remove ?pm (dm_host d) (dm_path d) (dw_proxy w) = (None, p)" "serving http V env addr p"
    "held_routes V p = (held_routes V (dw_proxy w))(place_id env d := None)" by auto
  let ?w = "w\<lparr>dw_proxy := p, dw_rows := filter (\<lambda>r. dm_id r \<noteq> i) (dw_rows w), dw_features := filter (\<lambda>f. fe_domain f \<noteq> i) (dw_features w)\<rparr>"
  have "w' = audit_domain ''remove_domain'' i (if dm_ssl_mode d = ''dns_challenge'' then handler_sync_policies ?pm en ?w else ?w)"
    using assms(2-4) p(1) by (auto simp: remove_domain_def delete_domain_def split: if_splits)
  with p(2,3) sync_routes [of http V env addr ?w] show ?thesis by simp
qed

lemma rebuilt_route:
  assumes "serving http V env addr (dw_proxy w)" and "find_domain en i w = Some d" and "app_with_project en (dm_app d) \<noteq> None"
    and "loadable V env (rebuilt_config en d (domain_target en d) (load_route_features en i w))"
  shows "held_routes V (dw_proxy (rebuild_domain_route (caddy_proxy http env) en i w)) = (held_routes V (dw_proxy w))
    (place_id env d \<mapsto> table_entry env (rebuilt_config en d (domain_target en d) (load_route_features en i w)))"
proof -
  let ?pm = "caddy_proxy http env" and ?c = "rebuilt_config en d (domain_target en d) (load_route_features en i w)"
  from caddy.remove_law [OF assms(1), of "dm_host d" "dm_path d"] obtain p where p:
    "pm_remove ?pm (dm_host d) (dm_path d) (dw_proxy w) = (None, p)" "serving http V env addr p"
    "held_routes V p = (held_routes V (dw_proxy w))(place_id env d := None)" by auto
  obtain project slug app_port where t: "app_with_project en (dm_app d) = Some (project, slug, app_port)"
    using assms(3) by auto
  have "dw_proxy (rebuild_domain_route ?pm en i w) = snd (pm_add ?pm ?c p)"
    using p(1) by (simp add: rebuild_domain_route_def assms(2) t Let_def domain_target_def)
  with caddy.add_law [OF p(2) assms(4)] p(3) show ?thesis by (auto simp: config_id_def)
qed

lemma upserted:
  assumes "upsert_feature en i t cfg on w = Some (f, w1)"
  shows "dw_proxy w1 = dw_proxy w" "dw_rows w1 = dw_rows w" "f \<in> set (dw_features w1)" "fe_domain f = i" "fe_type f = t"
proof -
  show "dw_proxy w1 = dw_proxy w" "dw_rows w1 = dw_rows w"
    using assms by (auto simp: upsert_feature_def Let_def split: if_splits option.splits)
  have "f \<in> set (dw_features w1) \<and> fe_domain f = i \<and> fe_type f = t"
  proof (cases "find (\<lambda>f. fe_domain f = i \<and> fe_type f = t) (dw_features w)")
    case None
    then show ?thesis using assms by (auto simp: upsert_feature_def Let_def split: if_splits)
  next
    case (Some old)
    then have o': "old \<in> set (dw_features w)" "fe_domain old = i" "fe_type old = t" by (auto simp: find_Some_iff)
    have "f = old\<lparr>fe_config := cfg, fe_enabled := on\<rparr>"
      "dw_features w1 = map (\<lambda>g. if fe_domain g = i \<and> fe_type g = t then f else g) (dw_features w)"
      using assms Some by (auto simp: upsert_feature_def Let_def split: if_splits)
    then show ?thesis using o' by (auto intro: rev_image_eqI [OF o'(1)])
  qed
  then show "f \<in> set (dw_features w1)" "fe_domain f = i" "fe_type f = t" by blast+
qed

text \<open>
  an edited feature takes effect at once, in place. After a successful upsert the route of the domain's
  own host and path is the one rendered from its row and its features with the new one among them, and no
  other route has changed.
\<close>
theorem feature_edit_reaches_caddy:
  assumes "serving http V env addr (dw_proxy w)" and "upsert_route_feature (caddy_proxy http env) en c s (Some q) w = (Inr f, w')"
    and "de_scan en s = Some i" and "find_domain en i w = Some d" and "app_with_project en (dm_app d) \<noteq> None"
    and "loadable V env (rebuilt_config en d (domain_target en d) (load_route_features en i w'))"
    and "de_ok en ''ListRouteFeaturesByDomain''"
  shows "route_feature_of f \<in> set (load_route_features en i w') \<and> rf_type (route_feature_of f) = fq_type q \<and>
    held_routes V (dw_proxy w') = (held_routes V (dw_proxy w))
      (place_id env d \<mapsto> table_entry env (rebuilt_config en d (domain_target en d) (load_route_features en i w')))"
proof -
  from assms(2,3) obtain cfg w1 where u: "upsert_feature en i (fq_type q) cfg (fq_enabled q) w = Some (f, w1)"
    "w' = rebuild_domain_route (caddy_proxy http env) en i (audit_domain ''upsert_route_feature'' (fe_id f) w1)"
    by (auto simp: upsert_route_feature_def split: if_splits sum.splits option.splits prod.splits)
  let ?w = "audit_domain ''upsert_route_feature'' (fe_id f) w1"
  note w1 = upserted [OF u(1)]
  have l: "load_route_features en i w' = load_route_features en i ?w"
    by (simp add: u(2) load_route_features_def features_of_def)
  have d: "find_domain en i ?w = Some d" using assms(4) w1(2) by (simp add: find_domain_def split: if_splits)
  have "serving http V env addr (dw_proxy ?w)" using assms(1) w1(1) by simp
  from rebuilt_route [OF this d assms(5)] assms(6) w1(1) have "held_routes V (dw_proxy w') = (held_routes V (dw_proxy w))
      (place_id env d \<mapsto> table_entry env (rebuilt_config en d (domain_target en d) (load_route_features en i w')))"
    unfolding l [symmetric] u(2) [symmetric] by simp
  moreover have "f \<in> set (dw_features w')" using w1(3) by (simp add: u(2))
  then have "route_feature_of f \<in> set (load_route_features en i w')"
    using w1(4) assms(7) by (auto simp: load_route_features_def features_of_def)
  ultimately show ?thesis using w1(5) by (simp add: route_feature_of_def)
qed

section \<open>Requests to a concrete Caddy\<close>

abbreviation demo_px :: "string list \<Rightarrow> json list px" where
  "demo_px ps \<equiv> re_proxy (demo_start ps)"

lemma demo_up: "ps \<in> {[], [''/''], [''/api'']} \<Longrightarrow>
    serving demo_caddy demo_view demo_build_env default_dashboard_upstream (dw_proxy (panel_world (demo_px ps) ds))"
  using demo_serving(1) [of ps] by (simp add: panel_world_def)

lemma plain_loadable:
  assumes "rc_host c = ''a.io''" "rc_path c \<in> {'''', ''/'', ''/api''}" "rc_advanced c = RawEmpty"
  shows "loadable demo_view demo_build_env c"
proof -
  obtain r where r: "build_route demo_build_env c = Inr r" "cr_id r = cfg_id demo_build_env c"
    using assms(3) by (simp add: build_route_def build_feature_handlers_def Let_def)
  have "route_id_for (be_sha demo_build_env) ''a.io'' '''' = ''route-a.io''"
    using demo_ids(1) by (simp add: route_id_for_def is_root_path_def)
  with assms(1,2) demo_ids have "cfg_id demo_build_env c \<notin> {catch_all_route_id, waf_route_id, dashboard_route_id}"
    by (auto simp: catch_all_route_id_def waf_route_id_def dashboard_route_id_def prefix_def)
  with r assms(2) demo_stored known_object show ?thesis
    by (auto simp: loadable_def servable_def demo_view_def)
qed

definition bad_advanced :: raw_json where
  "bad_advanced = Raw (JStr ''x'')"

lemma bad_unbuildable: "rc_advanced c = bad_advanced \<Longrightarrow> unbuildable env c"
  by (simp add: unbuildable_def build_route_def build_feature_handlers_def bad_advanced_def parse_advanced_config_def)

lemma demo_resolved: "app_with_project (panel_env []) a \<noteq> None"
  by (simp add: app_with_project_def panel_env_def)

theorem added_path_takes_whole_host_witness:
  "\<exists>d w'. add_domain (caddy_proxy demo_caddy demo_build_env) (panel_env []) (panel_caller ''admin'') ''x'' (Some (demo_add RawEmpty))
      (panel_world (demo_px [''/'']) []) = (Inr d, w') \<and> dm_path d = ''/api'' \<and>
    held_routes demo_view (demo_px [''/'']) ''route-a.io'' = Some (table_entry demo_build_env (demo_cfg ''a.io'' ''/'')) \<and>
    held_routes demo_view (dw_proxy w') ''route-a.io'' =
      Some (table_entry demo_build_env (created_config (panel_env []) d (domain_target (panel_env []) d)))"
proof -
  let ?pm = "caddy_proxy demo_caddy demo_build_env" and ?d = "demo_row RawEmpty" and ?en = "panel_env []"
  have l: "loadable demo_view demo_build_env (created_config ?en ?d t)" for t
    by (rule plain_loadable) (simp_all add: created_config_def demo_row_def)
  have m: "dm_ssl_mode ?d \<noteq> ''dns_challenge''" "dm_host ?d = ''a.io''" "dm_path ?d = ''/api''" by (simp_all add: demo_row_def)
  have up: "serving demo_caddy demo_view demo_build_env default_dashboard_upstream (dw_proxy (panel_world (demo_px [''/'']) ds))" for ds
    by (rule demo_up) simp
  from caddy.add_law [OF up [of "[?d]"] l [of "domain_target ?en ?d"]] obtain p where
    a: "pm_add ?pm (created_config ?en ?d (domain_target ?en ?d)) (dw_proxy (panel_world (demo_px [''/'']) [?d])) = (None, p)" by blast
  obtain w' where w: "add_domain ?pm ?en (panel_caller ''admin'') ''x'' (Some (demo_add RawEmpty))
      (panel_world (demo_px [''/'']) []) = (Inr ?d, w')"
    using demo_resolved [of "dm_app ?d"] a m(1)
    by (auto simp: add_domain_def demo_allowed demo_planned create_domain_record_def demo_inserted Let_def domain_target_def)
  have i: "root_id demo_build_env ?d = ''route-a.io''" using m(2) demo_ids(1) by simp
  have "held_routes demo_view (demo_px [''/'']) ''route-a.io'' = Some (table_entry demo_build_env (demo_cfg ''a.io'' ''/''))"
  proof -
    have "servable demo_view demo_build_env (demo_cfg ''a.io'' ''/'')" using demo_loadable_at [of "''/''"] by (simp add: loadable_def)
    from route_id_entry [OF this] have "route_id (table_entry demo_build_env (demo_cfg ''a.io'' ''/'')) = ''route-a.io''"
      "is_domain_route (table_entry demo_build_env (demo_cfg ''a.io'' ''/''))" using demo_ids(1) by (simp_all add: demo_cfg_def)
    then show ?thesis
      by (simp add: held_routes_def demo_start_def new_proxy_client_def dashboard_route_id_def) (simp add: demo_view_def)
  qed
  with added_path_takes_whole_host [OF up w l] w m(3) show ?thesis unfolding i by auto
qed

theorem refused_add_unroutes_host_witness:
  "\<exists>w'. add_domain (caddy_proxy demo_caddy demo_build_env) (panel_env []) (panel_caller ''admin'') ''x'' (Some (demo_add bad_advanced))
      (panel_world (demo_px [''/'']) []) = (Inl DProxyFailed, w') \<and> held_routes demo_view (dw_proxy w') ''route-a.io'' = None"
proof -
  let ?d = "demo_row bad_advanced" and ?en = "panel_env []"
  have u: "unbuildable demo_build_env (created_config ?en ?d t)" for t
    by (rule bad_unbuildable) (simp add: created_config_def demo_row_def)
  have i: "root_id demo_build_env ?d = ''route-a.io''" using demo_ids(1) by (simp add: demo_row_def)
  have e: "de_ok ?en ''DeleteDomain''" by (simp add: panel_env_def)
  have n: "''CreateDomain'' \<notin> set []" by simp
  from refused_add_unroutes_host [OF demo_up demo_allowed demo_planned demo_inserted [OF n] demo_resolved e u, of "[''/'']"]
  show ?thesis unfolding i by auto
qed

lemma panel_edited:
  shows "\<exists>w'. update_domain pm (panel_env []) (panel_caller ''admin'') ''d'' (Some ((only_hostname ''a.io'')\<lparr>uq_advanced := adv\<rparr>))
    (panel_world p [panel_row]) = (Inr (panel_row\<lparr>dm_advanced := adv\<rparr>), w')"
proof -
  let ?w = "panel_world p [panel_row]" and ?d = "panel_row\<lparr>dm_advanced := adv\<rparr>" and ?en = "panel_env []"
  have r: "domain_row_ok panel_row" "hosts_agree ?w" "panel_row \<in> set (dw_rows ?w)" "dm_host panel_row = ''a.io''" "dm_id panel_row = 1"
    "dm_advanced panel_row = RawEmpty"
    using panel_world_ok(2) by (simp_all add: world_ok_def domain_tables_ok_def hosts_agree_def panel_world_def) (simp_all add: panel_row_def)
  have "plan_update ?en c panel_row ((only_hostname ''a.io'')\<lparr>uq_advanced := adv\<rparr>) ?w = Inr ?d" for c
    using only_advanced_planned [OF r(1-3), of ?en c adv] r(4,6) by (cases "adv = RawEmpty") simp_all
  moreover have "check_hostname ''a.io'' '''' = None" using panel_host(2) by (simp add: check_hostname_def)
  then have "check_hostname (uq_host ((only_hostname ''a.io'')\<lparr>uq_advanced := adv\<rparr>))
      (uq_mode ((only_hostname ''a.io'')\<lparr>uq_advanced := adv\<rparr>)) = None" by (simp add: only_hostname_def)
  moreover have "find_domain ?en 1 ?w = Some panel_row" using r(5) by (simp add: find_domain_def panel_env_def panel_world_def)
  moreover have "columns_ok ?d" "references_ok ?en ?d"
    by (simp_all add: columns_ok_def references_ok_def panel_row_def valid_ssl_modes_def char_count_def)
  then have "\<exists>w1. store_domain ?en ?d ?w = Some w1"
    using r(5) by (simp add: store_domain_def panel_env_def panel_world_def)
  moreover have "de_scan ?en ''d'' = Some 1" "can_access_domain (de_scan ?en) (de_access ?en) (panel_caller ''admin'') 1"
    by (simp_all add: panel_env_def can_access_domain_def can_access_owned_def owned_access_def panel_caller_def)
  ultimately show ?thesis by (auto simp: update_domain_def)
qed

lemma panel_edit:
  "de_scan (panel_env []) ''d'' = Some 1" "find_domain (panel_env []) 1 (panel_world p [panel_row]) = Some panel_row"
  "place_id demo_build_env panel_row \<noteq> ''route-a.io''" "root_id demo_build_env (panel_row\<lparr>dm_advanced := adv\<rparr>) = ''route-a.io''"
  using demo_ids by (auto simp: find_domain_def panel_env_def panel_world_def panel_row_def prefix_def)

theorem edited_path_takes_whole_host_witness:
  "\<exists>w'. update_domain (caddy_proxy demo_caddy demo_build_env) (panel_env []) (panel_caller ''admin'') ''d''
      (Some ((only_hostname ''a.io'')\<lparr>uq_advanced := RawEmpty\<rparr>)) (panel_world (demo_px [''/api'']) [panel_row]) =
      (Inr (panel_row\<lparr>dm_advanced := RawEmpty\<rparr>), w') \<and>
    held_routes demo_view (dw_proxy w') (place_id demo_build_env panel_row) = None \<and> held_routes demo_view (dw_proxy w') ''route-a.io'' \<noteq> None"
proof -
  let ?d = "panel_row\<lparr>dm_advanced := RawEmpty\<rparr>" and ?en = "panel_env []"
  have l: "loadable demo_view demo_build_env (updated_config ?en ?d t fs)" for t fs
    by (rule plain_loadable) (simp_all add: updated_config_def panel_row_def)
  from panel_edited [of "caddy_proxy demo_caddy demo_build_env" RawEmpty "demo_px [''/api'']"]
  obtain w' where w: "update_domain (caddy_proxy demo_caddy demo_build_env) ?en (panel_caller ''admin'') ''d''
      (Some ((only_hostname ''a.io'')\<lparr>uq_advanced := RawEmpty\<rparr>)) (panel_world (demo_px [''/api'']) [panel_row]) = (Inr ?d, w')"
    by (rule exE)
  from edited_path_takes_whole_host [OF demo_up w panel_edit(1,2) demo_resolved l] w panel_edit(3,4) show ?thesis by simp
qed

theorem unbuildable_edit_is_silent_witness:
  "\<exists>w'. update_domain (caddy_proxy demo_caddy demo_build_env) (panel_env []) (panel_caller ''admin'') ''d''
      (Some ((only_hostname ''a.io'')\<lparr>uq_advanced := bad_advanced\<rparr>)) (panel_world (demo_px [''/api'']) [panel_row]) =
      (Inr (panel_row\<lparr>dm_advanced := bad_advanced\<rparr>), w') \<and>
    held_routes demo_view (dw_proxy w') (place_id demo_build_env panel_row) = None"
proof -
  let ?d = "panel_row\<lparr>dm_advanced := bad_advanced\<rparr>" and ?en = "panel_env []"
  have u: "unbuildable demo_build_env (updated_config ?en ?d t fs)" for t fs
    by (rule bad_unbuildable) (simp add: updated_config_def)
  from panel_edited [of "caddy_proxy demo_caddy demo_build_env" bad_advanced "demo_px [''/api'']"]
  obtain w' where w: "update_domain (caddy_proxy demo_caddy demo_build_env) ?en (panel_caller ''admin'') ''d''
      (Some ((only_hostname ''a.io'')\<lparr>uq_advanced := bad_advanced\<rparr>)) (panel_world (demo_px [''/api'']) [panel_row]) = (Inr ?d, w')"
    by (rule exE)
  from unbuildable_edit_is_silent [OF demo_up w panel_edit(1,2) demo_resolved u] w show ?thesis by simp
qed

theorem removed_domain_is_unrouted_witness:
  "\<exists>w'. remove_domain (caddy_proxy demo_caddy demo_build_env) (panel_env []) (panel_caller ''admin'') ''d''
      (panel_world (demo_px [''/api'']) [panel_row]) = (Inr (), w') \<and> dw_rows w' = [] \<and>
    held_routes demo_view (dw_proxy w') (place_id demo_build_env panel_row) = None"
proof -
  let ?w = "panel_world (demo_px [''/api'']) [panel_row]" and ?en = "panel_env []" and ?pm = "caddy_proxy demo_caddy demo_build_env"
  have up: "serving demo_caddy demo_view demo_build_env default_dashboard_upstream (dw_proxy ?w)" by (rule demo_up) simp
  from caddy.remove_law [OF up] obtain p where "pm_remove ?pm (dm_host panel_row) (dm_path panel_row) (dw_proxy ?w) = (None, p)" by blast
  moreover have "is_domain_owner (de_scan ?en) (de_access ?en) (panel_caller ''admin'') 1"
    by (simp add: is_domain_owner_def is_owner_only_def owned_access_def panel_caller_def)
  moreover have "de_ok ?en q" for q by (simp add: panel_env_def)
  ultimately obtain w' where w: "remove_domain ?pm ?en (panel_caller ''admin'') ''d'' ?w = (Inr (), w')"
    using panel_edit(1) panel_edit(2) [of "demo_px [''/api'']"] by (simp add: remove_domain_def delete_domain_def)
  have "dw_rows ?w = [panel_row]" "dm_id panel_row = 1" by (simp_all add: panel_world_def) (simp add: panel_row_def)
  with removed_domain_is_unrouted [OF up w panel_edit(1,2)] w show ?thesis by simp
qed

definition demo_feature :: feature_request where
  "demo_feature = \<lparr>fq_type = ''ip_allowlist'', fq_config = Raw (JObj [(''ranges'', jstrs [''10.0.0.0/8''])]), fq_enabled = True\<rparr>"

theorem feature_edit_reaches_caddy_witness:
  "\<exists>f w'. upsert_route_feature (caddy_proxy demo_caddy demo_build_env) (panel_env []) (panel_caller ''admin'') ''d'' (Some demo_feature)
      (panel_world (demo_px [''/api'']) [panel_row]) = (Inr f, w') \<and>
    held_routes demo_view (dw_proxy w') (place_id demo_build_env panel_row) =
      Some (table_entry demo_build_env (rebuilt_config (panel_env []) panel_row (domain_target (panel_env []) panel_row)
        (load_route_features (panel_env []) 1 w')))"
proof -
  let ?w = "panel_world (demo_px [''/api'']) [panel_row]" and ?en = "panel_env []" and ?pm = "caddy_proxy demo_caddy demo_build_env"
  have up: "serving demo_caddy demo_view demo_build_env default_dashboard_upstream (dw_proxy ?w)" by (rule demo_up) simp
  have a: "can_access_domain (de_scan ?en) (de_access ?en) (panel_caller ''admin'') 1"
    by (simp add: can_access_domain_def can_access_owned_def owned_access_def panel_caller_def)
  have e: "de_ok ?en q" for q by (simp add: panel_env_def)
  have "parse_feature_config (\<lambda>_. True) (\<lambda>_. None) ''ip_allowlist'' (Raw (JObj [(''ranges'', jstrs [''10.0.0.0/8''])])) =
      Inr (IPAllowlist [''10.0.0.0/8''])" by code_simp
  then have p: "plan_feature ?en 1 demo_feature ?w = Inr (fq_config demo_feature)"
    by (simp add: plan_feature_def demo_feature_def valid_feature_types_def normalize_feature_config_def panel_env_def
        required_module_def split: option.split)
  have "dm_id panel_row = 1" by (simp add: panel_row_def)
  with e have "\<exists>f w1. upsert_feature ?en 1 (fq_type demo_feature) (fq_config demo_feature) (fq_enabled demo_feature) ?w = Some (f, w1)"
    by (simp add: upsert_feature_def demo_feature_def valid_feature_types_def panel_world_def Let_def)
  then obtain f w1 where u: "upsert_feature ?en 1 (fq_type demo_feature) (fq_config demo_feature) (fq_enabled demo_feature) ?w = Some (f, w1)"
    by blast
  obtain w' where w: "upsert_route_feature ?pm ?en (panel_caller ''admin'') ''d'' (Some demo_feature) ?w = (Inr f, w')"
    using a p u panel_edit(1) by (simp add: upsert_route_feature_def)
  have l: "loadable demo_view demo_build_env (rebuilt_config ?en panel_row t fs)" for t fs
    by (rule plain_loadable) (simp_all add: rebuilt_config_def updated_config_def panel_row_def)
  from feature_edit_reaches_caddy [OF up w panel_edit(1,2) demo_resolved l e] w show ?thesis by auto
qed

end
