(* ===== verification/Deployments.thy ===== *)
theory Deployments
  imports Authz
begin

text \<open>
  Deployments: the table (\<open>deployments.sql\<close>), the statuses (\<open>internal/status\<close>), the queue that
  serialises the deploys of an application (\<open>service.DeployQueue\<close>) and the requests that trigger one:
  deploy, rollback, reload, rebuild, build, deploy hook and push.

  The task queue itself is asynq's: an interface of the two calls the code makes, and \<open>queue_ok\<close> says
  what its documentation promises of them. An environment gives one request the rest: which queries
  answer, the other tables, the id and the time the database would give. Nullable text is the empty
  string. A comparison of instants is in seconds.
\<close>

section \<open>Statuses\<close>

definition dep_pending :: string where "dep_pending = ''pending''"
definition dep_building :: string where "dep_building = ''building''"
definition dep_deploying :: string where "dep_deploying = ''deploying''"
definition dep_success :: string where "dep_success = ''success''"
definition dep_failed :: string where "dep_failed = ''failed''"

lemmas dep_status_defs = dep_pending_def dep_building_def dep_deploying_def dep_success_def dep_failed_def

definition valid_deployment_transitions :: "string \<Rightarrow> string list" where
  "valid_deployment_transitions from =
     (if from = dep_pending then [dep_building, dep_deploying]
      else if from = dep_building then [dep_deploying, dep_failed]
      else if from = dep_deploying then [dep_success, dep_failed] else [])"

definition valid_transition :: "string \<Rightarrow> string \<Rightarrow> bool" where
  "valid_transition from to \<longleftrightarrow> to = dep_failed \<or> to \<in> set (valid_deployment_transitions from)"

section \<open>The table\<close>

record deployment_row =
  dy_id :: uuid
  dy_app :: uuid
  dy_status :: string
  dy_by :: string
  dy_commit :: string
  dy_image :: string
  dy_error :: string
  dy_started :: instant
  dy_build_started :: "instant option"
  dy_build_ended :: "instant option"
  dy_deploy_started :: "instant option"
  dy_finished :: "instant option"
  dy_key :: string
  dy_health :: string
  dy_health_message :: string

definition trigger_names :: "string list" where
  "trigger_names = [''push'', ''manual'', ''api'', ''rollback'', ''reload'', ''rebuild'', ''template'', ''hook'']"

definition new_deployment :: "uuid \<Rightarrow> instant \<Rightarrow> uuid \<Rightarrow> string \<Rightarrow> string \<Rightarrow> string \<Rightarrow> deployment_row" where
  "new_deployment i now a by commit key = \<lparr>dy_id = i, dy_app = a, dy_status = dep_pending, dy_by = by, dy_commit = commit,
     dy_image = '''', dy_error = '''', dy_started = now, dy_build_started = None, dy_build_ended = None,
     dy_deploy_started = None, dy_finished = None, dy_key = key, dy_health = '''', dy_health_message = ''''\<rparr>"

text \<open>The rows of the id are rewritten; there is one, or none.\<close>

definition alter_deployment :: "uuid \<Rightarrow> (deployment_row \<Rightarrow> deployment_row) \<Rightarrow> deployment_row list \<Rightarrow> deployment_row list" where
  "alter_deployment i f rows = map (\<lambda>r. if dy_id r = i then f r else r) rows"

definition get_deployment :: "uuid \<Rightarrow> deployment_row list \<Rightarrow> deployment_row option" where
  "get_deployment i rows = find (\<lambda>r. dy_id r = i) rows"

definition set_deployment_status :: "uuid \<Rightarrow> string \<Rightarrow> string \<Rightarrow> instant \<Rightarrow> deployment_row list \<Rightarrow> deployment_row list" where
  "set_deployment_status i st err now = alter_deployment i (\<lambda>r. r\<lparr>dy_status := st, dy_error := err,
     dy_finished := (if st \<in> {dep_success, dep_failed} then Some now else None)\<rparr>)"

definition set_build_started :: "uuid \<Rightarrow> instant \<Rightarrow> deployment_row list \<Rightarrow> deployment_row list" where
  "set_build_started i now = alter_deployment i (\<lambda>r. r\<lparr>dy_build_started := Some now\<rparr>)"

definition set_build_ended :: "uuid \<Rightarrow> instant \<Rightarrow> deployment_row list \<Rightarrow> deployment_row list" where
  "set_build_ended i now = alter_deployment i (\<lambda>r. r\<lparr>dy_build_ended := Some now\<rparr>)"

definition set_deploy_started :: "uuid \<Rightarrow> instant \<Rightarrow> deployment_row list \<Rightarrow> deployment_row list" where
  "set_deploy_started i now = alter_deployment i (\<lambda>r. r\<lparr>dy_deploy_started := Some now\<rparr>)"

definition set_image_tag :: "uuid \<Rightarrow> string \<Rightarrow> deployment_row list \<Rightarrow> deployment_row list" where
  "set_image_tag i tag = alter_deployment i (\<lambda>r. r\<lparr>dy_image := tag\<rparr>)"

definition set_commit_sha :: "uuid \<Rightarrow> string \<Rightarrow> deployment_row list \<Rightarrow> deployment_row list" where
  "set_commit_sha i sha = alter_deployment i (\<lambda>r. r\<lparr>dy_commit := sha\<rparr>)"

definition set_health :: "uuid \<Rightarrow> string \<Rightarrow> string \<Rightarrow> deployment_row list \<Rightarrow> deployment_row list" where
  "set_health i h msg = alter_deployment i (\<lambda>r. r\<lparr>dy_health := h, dy_health_message := msg\<rparr>)"

text \<open>\<open>ORDER BY started_at DESC\<close>; the order among equal instants is the database's.\<close>

definition newest_first :: "deployment_row list \<Rightarrow> deployment_row list" where
  "newest_first rows = rev (sort_key dy_started rows)"

definition latest_successful :: "uuid \<Rightarrow> deployment_row list \<Rightarrow> deployment_row option" where
  "latest_successful a rows = find (\<lambda>r. dy_app r = a \<and> dy_status r = dep_success \<and> dy_image r \<noteq> '''') (newest_first rows)"

definition recent_by_key :: "uuid \<Rightarrow> string \<Rightarrow> int \<Rightarrow> instant \<Rightarrow> deployment_row list \<Rightarrow> deployment_row option" where
  "recent_by_key a key window now rows =
     find (\<lambda>r. dy_app r = a \<and> dy_key r = key \<and> now - window < dy_started r) (newest_first rows)"

definition old_deployments :: "uuid \<Rightarrow> nat \<Rightarrow> deployment_row list \<Rightarrow> deployment_row list" where
  "old_deployments a offset rows = drop offset (newest_first (filter (\<lambda>r. dy_app r = a) rows))"

definition delete_deployment :: "uuid \<Rightarrow> deployment_row list \<Rightarrow> deployment_row list" where
  "delete_deployment i rows = filter (\<lambda>r. dy_id r \<noteq> i) rows"

definition count_active :: "uuid \<Rightarrow> deployment_row list \<Rightarrow> nat" where
  "count_active a rows = length (filter (\<lambda>r. dy_app r = a \<and> dy_status r \<in> {dep_pending, dep_building, dep_deploying}) rows)"

lemma set_newest_first [simp]: "set (newest_first rows) = set rows"
  by (simp add: newest_first_def)

lemma alter_ids [simp]: "(\<And>r. dy_id (f r) = dy_id r) \<Longrightarrow> map dy_id (alter_deployment i f rows) = map dy_id rows"
  by (induction rows) (auto simp: alter_deployment_def)

lemma alter_length [simp]: "length (alter_deployment i f rows) = length rows"
  by (simp add: alter_deployment_def)

section \<open>The task queue\<close>

text \<open>The payload, with the application's id in the spelling the request had and the deployment's read back.\<close>

record deploy_payload =
  pl_app :: string
  pl_deployment :: uuid
  pl_rollback :: string
  pl_commit :: string

datatype enqueued = Enqueued | IdConflict | EnqueueFailed string

record 'q task_queue =
  tq_enqueue :: "string \<Rightarrow> string \<Rightarrow> string \<times> deploy_payload \<Rightarrow> 'q \<Rightarrow> enqueued \<times> 'q"
  tq_delete :: "string \<Rightarrow> string \<Rightarrow> 'q \<Rightarrow> bool \<times> 'q"

definition deploy_task_id :: "(uuid \<Rightarrow> string) \<Rightarrow> uuid \<Rightarrow> string" where
  "deploy_task_id show_id a = ''deploy:'' @ show_id a"

definition enqueue_like ::
    "'q task_queue \<Rightarrow> (uuid \<Rightarrow> string) \<Rightarrow> string \<Rightarrow> uuid \<Rightarrow> string \<times> deploy_payload \<Rightarrow> 'q \<Rightarrow> enqueued \<times> 'q" where
  "enqueue_like tq show_id queue a task q =
     (case tq_enqueue tq queue (deploy_task_id show_id a) task q of
        (IdConflict, q) \<Rightarrow>
          (case tq_delete tq queue (deploy_task_id show_id a) q of
             (True, q) \<Rightarrow> tq_enqueue tq queue (deploy_task_id show_id a) task q
           | (False, q) \<Rightarrow> (IdConflict, q))
      | r \<Rightarrow> r)"

text \<open>
  What asynq documents: a task id is taken while a task holds it, so an enqueue under a held id stores
  nothing (a conflict, or another error when the queue cannot be reached), an enqueue under a free id
  stores the task or fails, and a delete that succeeds has removed a task that is not running. Any call
  may fail, and then the queue is as it was.
\<close>

datatype task_state = Waiting | Active

definition queue_ok :: "'q task_queue \<Rightarrow> ('q \<Rightarrow> string \<times> string \<Rightarrow> (task_state \<times> string \<times> deploy_payload) option) \<Rightarrow> bool" where
  "queue_ok tq holds \<longleftrightarrow>
     (\<forall>qu i t q. case tq_enqueue tq qu i t q of (r, q') \<Rightarrow>
        (holds q (qu, i) \<noteq> None \<longrightarrow> r \<noteq> Enqueued) \<and> (holds q (qu, i) = None \<longrightarrow> r \<noteq> IdConflict) \<and>
        holds q' = (if r = Enqueued then (holds q)((qu, i) \<mapsto> (Waiting, t)) else holds q)) \<and>
     (\<forall>qu i q. case tq_delete tq qu i q of (b, q') \<Rightarrow>
        (b \<longrightarrow> (\<exists>t. holds q (qu, i) = Some (Waiting, t))) \<and>
        holds q' = (if b then (holds q)((qu, i) := None) else holds q))"

section \<open>Triggers\<close>

record trigger_env =
  te_ok :: "string \<Rightarrow> bool"
  te_scan :: "string \<Rightarrow> uuid option"
  te_show :: "uuid \<Rightarrow> string"
  te_access :: access_db
  te_type :: "uuid \<Rightarrow> string option"
  te_reach :: bool
  te_image_exists :: "string \<Rightarrow> bool option"
  te_digest :: "uuid \<Rightarrow> string \<Rightarrow> string \<Rightarrow> string"
  te_new :: uuid
  te_now :: instant

record 'q deploy_desk =
  dk_rows :: "deployment_row list"
  dk_queue :: 'q
  dk_audit :: "(string \<times> uuid) list"

datatype trigger_error =
    TBadId | TForbidden | TBadBody | TNotFound | TNotOwn | TNotSuccessful | TNoImage | TUnreachable | TImageGone
  | TNotGit | TNothingDeployed | TNoCommit | TCreateFailed | TInProgress | TEnqueueFailed

definition create_deployment ::
    "trigger_env \<Rightarrow> uuid \<Rightarrow> string \<Rightarrow> string \<Rightarrow> string \<Rightarrow> 'q deploy_desk \<Rightarrow> (deployment_row \<times> 'q deploy_desk) option" where
  "create_deployment en a by commit key s =
     (if \<not> te_ok en ''CreateDeployment'' \<or> te_type en a = None \<or> by \<notin> set trigger_names \<or> te_new en \<in> dy_id ` set (dk_rows s)
      then None
      else let row = new_deployment (te_new en) (te_now en) a by commit key in Some (row, s\<lparr>dk_rows := dk_rows s @ [row]\<rparr>))"

definition fail_enqueue :: "trigger_env \<Rightarrow> uuid \<Rightarrow> string \<Rightarrow> 'q deploy_desk \<Rightarrow> 'q deploy_desk" where
  "fail_enqueue en i cause s =
     (if te_ok en ''UpdateDeploymentStatus''
      then s\<lparr>dk_rows := set_deployment_status i dep_failed (''could not queue deploy task: '' @ cause) (te_now en) (dk_rows s)\<rparr>
      else s)"

text \<open>
  The three steps every trigger takes: the pending row, the task, and the row marked failed when the
  task was not queued.
\<close>

definition submit_deployment ::
    "'q task_queue \<Rightarrow> trigger_env \<Rightarrow> string \<Rightarrow> string \<Rightarrow> uuid \<Rightarrow> string \<Rightarrow> string \<Rightarrow> string \<Rightarrow> string \<Rightarrow> string \<Rightarrow> string \<Rightarrow>
     'q deploy_desk \<Rightarrow> (trigger_error + deployment_row) \<times> 'q deploy_desk" where
  "submit_deployment tq en queue kind a app by commit key rollback pinned s =
     (case create_deployment en a by commit key s of
        None \<Rightarrow> (Inl TCreateFailed, s)
      | Some (row, s) \<Rightarrow>
          (case enqueue_like tq (te_show en) queue a
               (kind, \<lparr>pl_app = app, pl_deployment = dy_id row, pl_rollback = rollback, pl_commit = pinned\<rparr>) (dk_queue s) of
             (Enqueued, q) \<Rightarrow> (Inr row, s\<lparr>dk_queue := q\<rparr>)
           | (IdConflict, q) \<Rightarrow> (Inl TInProgress, fail_enqueue en (dy_id row) ''task ID conflicts with another task'' (s\<lparr>dk_queue := q\<rparr>))
           | (EnqueueFailed e, q) \<Rightarrow> (Inl TEnqueueFailed, fail_enqueue en (dy_id row) e (s\<lparr>dk_queue := q\<rparr>))))"

definition audit_trigger :: "string \<Rightarrow> uuid \<Rightarrow> (trigger_error + deployment_row) \<times> 'q deploy_desk \<Rightarrow>
    (trigger_error + deployment_row) \<times> 'q deploy_desk" where
  "audit_trigger action a r =
     (case r of (Inr row, s) \<Rightarrow> (Inr row, s\<lparr>dk_audit := dk_audit s @ [(action, a)]\<rparr>) | (Inl e, s) \<Rightarrow> (Inl e, s))"

definition trigger_deployment :: "'q task_queue \<Rightarrow> trigger_env \<Rightarrow> uuid \<Rightarrow> string \<Rightarrow> 'q deploy_desk \<Rightarrow>
    (trigger_error + deployment_row) \<times> 'q deploy_desk" where
  "trigger_deployment tq en a by s = submit_deployment tq en ''critical'' ''deploy'' a (te_show en a) by '''' '''' '''' '''' s"

text \<open>The application of the path, when the caller may use it.\<close>

definition trigger_target :: "trigger_env \<Rightarrow> caller \<Rightarrow> string \<Rightarrow> trigger_error + uuid" where
  "trigger_target en c app =
     (case te_scan en app of
        None \<Rightarrow> Inl TBadId
      | Some a \<Rightarrow> if can_access_application (te_scan en) (te_access en) c a then Inr a else Inl TForbidden)"

definition existing_application :: "trigger_env \<Rightarrow> uuid \<Rightarrow> string option" where
  "existing_application en a = (if te_ok en ''GetApplication'' then te_type en a else None)"

definition deploy_application :: "'q task_queue \<Rightarrow> trigger_env \<Rightarrow> caller \<Rightarrow> string \<Rightarrow> 'q deploy_desk \<Rightarrow>
    (trigger_error + deployment_row) \<times> 'q deploy_desk" where
  "deploy_application tq en c app s =
     (case trigger_target en c app of
        Inl e \<Rightarrow> (Inl e, s)
      | Inr a \<Rightarrow>
          if existing_application en a = None then (Inl TNotFound, s)
          else audit_trigger ''deploy_application'' a (trigger_deployment tq en a ''manual'' s))"

definition rollback_deployment :: "'q task_queue \<Rightarrow> trigger_env \<Rightarrow> caller \<Rightarrow> string \<Rightarrow> string option \<Rightarrow> 'q deploy_desk \<Rightarrow>
    (trigger_error + deployment_row) \<times> 'q deploy_desk" where
  "rollback_deployment tq en c app body s =
     (case trigger_target en c app of
        Inl e \<Rightarrow> (Inl e, s)
      | Inr a \<Rightarrow>
          (case body of
             None \<Rightarrow> (Inl TBadBody, s)
           | Some d \<Rightarrow>
               if d = '''' then (Inl TBadBody, s)
               else case te_scan en d of
                 None \<Rightarrow> (Inl TBadId, s)
               | Some i \<Rightarrow>
                   (case (if te_ok en ''GetDeployment'' then get_deployment i (dk_rows s) else None) of
                      None \<Rightarrow> (Inl TNotFound, s)
                    | Some target \<Rightarrow>
                        if dy_app target \<noteq> a then (Inl TNotOwn, s)
                        else if dy_status target \<noteq> dep_success then (Inl TNotSuccessful, s)
                        else if dy_image target = '''' then (Inl TNoImage, s)
                        else if \<not> te_reach en then (Inl TUnreachable, s)
                        else if te_image_exists en (dy_image target) = Some False then (Inl TImageGone, s)
                        else submit_deployment tq en ''critical'' ''deploy'' a app ''rollback'' '''' '''' (dy_image target) '''' s)))"

definition latest_deployed :: "trigger_env \<Rightarrow> uuid \<Rightarrow> 'q deploy_desk \<Rightarrow> deployment_row option" where
  "latest_deployed en a s = (if te_ok en ''GetLatestSuccessfulDeployment'' then latest_successful a (dk_rows s) else None)"

definition reload_application :: "'q task_queue \<Rightarrow> trigger_env \<Rightarrow> caller \<Rightarrow> string \<Rightarrow> 'q deploy_desk \<Rightarrow>
    (trigger_error + deployment_row) \<times> 'q deploy_desk" where
  "reload_application tq en c app s =
     (case trigger_target en c app of
        Inl e \<Rightarrow> (Inl e, s)
      | Inr a \<Rightarrow>
          (case latest_deployed en a s of
             None \<Rightarrow> (Inl TNothingDeployed, s)
           | Some l \<Rightarrow> audit_trigger ''reload_application'' a
               (submit_deployment tq en ''critical'' ''deploy'' a app ''reload'' '''' '''' (dy_image l) '''' s)))"

definition rebuild_application :: "'q task_queue \<Rightarrow> trigger_env \<Rightarrow> caller \<Rightarrow> string \<Rightarrow> 'q deploy_desk \<Rightarrow>
    (trigger_error + deployment_row) \<times> 'q deploy_desk" where
  "rebuild_application tq en c app s =
     (case trigger_target en c app of
        Inl e \<Rightarrow> (Inl e, s)
      | Inr a \<Rightarrow>
          (case existing_application en a of
             None \<Rightarrow> (Inl TNotFound, s)
           | Some t \<Rightarrow>
               if t \<noteq> ''git'' then (Inl TNotGit, s)
               else case latest_deployed en a s of
                 None \<Rightarrow> (Inl TNothingDeployed, s)
               | Some l \<Rightarrow>
                   if dy_commit l = '''' then (Inl TNoCommit, s)
                   else audit_trigger ''rebuild_application'' a
                     (submit_deployment tq en ''critical'' ''deploy'' a app ''rebuild'' (dy_commit l) '''' '''' (dy_commit l) s)))"

definition build_application :: "'q task_queue \<Rightarrow> trigger_env \<Rightarrow> caller \<Rightarrow> string \<Rightarrow> 'q deploy_desk \<Rightarrow>
    (trigger_error + deployment_row) \<times> 'q deploy_desk" where
  "build_application tq en c app s =
     (case trigger_target en c app of
        Inl e \<Rightarrow> (Inl e, s)
      | Inr a \<Rightarrow>
          if existing_application en a = None then (Inl TNotFound, s)
          else submit_deployment tq en ''default'' ''build'' a app ''manual'' '''' '''' '''' '''' s)"

text \<open>The deploy hook, for the application its token resolved to.\<close>

definition trigger_deploy_hook :: "'q task_queue \<Rightarrow> trigger_env \<Rightarrow> uuid \<Rightarrow> 'q deploy_desk \<Rightarrow>
    (trigger_error + deployment_row) \<times> 'q deploy_desk" where
  "trigger_deploy_hook tq en a s = submit_deployment tq en ''critical'' ''deploy'' a (te_show en a) ''hook'' '''' '''' '''' '''' s"

definition window_push_seconds :: int where "window_push_seconds = 60"

definition push_key :: "trigger_env \<Rightarrow> uuid \<Rightarrow> string \<Rightarrow> string" where
  "push_key en a commit = (if commit = '''' then '''' else te_digest en a ''push'' commit)"

definition duplicate_push :: "trigger_env \<Rightarrow> uuid \<Rightarrow> string \<Rightarrow> 'q deploy_desk \<Rightarrow> bool" where
  "duplicate_push en a commit s \<longleftrightarrow> commit \<noteq> '''' \<and> te_ok en ''FindRecentDeploymentByIdempotencyKey'' \<and>
     recent_by_key a (push_key en a commit) window_push_seconds (te_now en) (dk_rows s) \<noteq> None"

definition trigger_push_deploy :: "'q task_queue \<Rightarrow> trigger_env \<Rightarrow> uuid \<Rightarrow> string \<Rightarrow> 'q deploy_desk \<Rightarrow> bool \<times> 'q deploy_desk" where
  "trigger_push_deploy tq en a commit s =
     (if duplicate_push en a commit s then (False, s)
      else case submit_deployment tq en ''critical'' ''deploy'' a (te_show en a) ''push'' commit (push_key en a commit) '''' '''' s of
        (Inr _, s) \<Rightarrow> (True, s) | (Inl _, s) \<Rightarrow> (False, s))"

section \<open>What a trigger leaves\<close>

lemma queue_enqueue:
  assumes "queue_ok tq holds" and "tq_enqueue tq qu i t q = (r, q')"
  shows "r = Enqueued \<Longrightarrow> holds q (qu, i) = None" "r = IdConflict \<Longrightarrow> holds q (qu, i) \<noteq> None"
    "holds q' = (if r = Enqueued then (holds q)((qu, i) \<mapsto> (Waiting, t)) else holds q)"
proof -
  have "case tq_enqueue tq qu i t q of (r, q') \<Rightarrow>
      (holds q (qu, i) \<noteq> None \<longrightarrow> r \<noteq> Enqueued) \<and> (holds q (qu, i) = None \<longrightarrow> r \<noteq> IdConflict) \<and>
      holds q' = (if r = Enqueued then (holds q)((qu, i) \<mapsto> (Waiting, t)) else holds q)"
    by (rule spec [OF spec [OF spec [OF spec [OF conjunct1 [OF assms(1) [unfolded queue_ok_def]]]]]])
  then show "r = Enqueued \<Longrightarrow> holds q (qu, i) = None" "r = IdConflict \<Longrightarrow> holds q (qu, i) \<noteq> None"
    "holds q' = (if r = Enqueued then (holds q)((qu, i) \<mapsto> (Waiting, t)) else holds q)"
    unfolding assms(2) prod.case by blast+
qed

lemma queue_delete:
  assumes "queue_ok tq holds" and "tq_delete tq qu i q = (b, q')"
  shows "b \<Longrightarrow> \<exists>t. holds q (qu, i) = Some (Waiting, t)" "holds q' = (if b then (holds q)((qu, i) := None) else holds q)"
proof -
  have "case tq_delete tq qu i q of (b, q') \<Rightarrow> (b \<longrightarrow> (\<exists>t. holds q (qu, i) = Some (Waiting, t))) \<and>
      holds q' = (if b then (holds q)((qu, i) := None) else holds q)"
    by (rule spec [OF spec [OF spec [OF conjunct2 [OF assms(1) [unfolded queue_ok_def]]]]])
  then show "b \<Longrightarrow> \<exists>t. holds q (qu, i) = Some (Waiting, t)" "holds q' = (if b then (holds q)((qu, i) := None) else holds q)"
    using assms(2) by auto
qed

text \<open>An enqueue takes a free id or one of a waiting task, and leaves a running one alone.\<close>

lemma enqueue_like_holds:
  assumes ok: "queue_ok tq holds" and e: "enqueue_like tq sh qu a t q = (r, q')"
  shows "r = Enqueued \<Longrightarrow> holds q' = (holds q)((qu, deploy_task_id sh a) \<mapsto> (Waiting, t))"
    "holds q (qu, deploy_task_id sh a) = Some (Active, u) \<Longrightarrow> r \<noteq> Enqueued \<and> holds q' = holds q"
    "r \<noteq> Enqueued \<Longrightarrow> \<forall>k. holds q' k \<noteq> None \<longrightarrow> holds q' k = holds q k"
    "k \<noteq> (qu, deploy_task_id sh a) \<Longrightarrow> holds q' k = holds q k"
proof -
  let ?i = "deploy_task_id sh a"
  obtain r1 q1 where e1: "tq_enqueue tq qu ?i t q = (r1, q1)" by fastforce
  obtain b q2 where d: "tq_delete tq qu ?i q1 = (b, q2)" by fastforce
  obtain r3 q3 where e3: "tq_enqueue tq qu ?i t q2 = (r3, q3)" by fastforce
  note l1 = queue_enqueue [OF ok e1] and l2 = queue_delete [OF ok d] and l3 = queue_enqueue [OF ok e3]
  have rq: "(r, q') = (if r1 = IdConflict then if b then (r3, q3) else (IdConflict, q2) else (r1, q1))"
    using e by (cases r1; cases b) (auto simp: enqueue_like_def e1 d e3)
  show "r = Enqueued \<Longrightarrow> holds q' = (holds q)((qu, ?i) \<mapsto> (Waiting, t))"
    using rq l1 l2 l3 by (auto split: if_splits)
  show "holds q (qu, ?i) = Some (Active, u) \<Longrightarrow> r \<noteq> Enqueued \<and> holds q' = holds q"
    using rq l1 l2 l3 by (auto split: if_splits)
  show "r \<noteq> Enqueued \<Longrightarrow> \<forall>k. holds q' k \<noteq> None \<longrightarrow> holds q' k = holds q k"
    using rq l1 l2 l3 by (auto split: if_splits)
  show "k \<noteq> (qu, ?i) \<Longrightarrow> holds q' k = holds q k"
    using rq l1 l2 l3 by (auto split: if_splits)
qed

definition task_for :: "('q \<Rightarrow> string \<times> string \<Rightarrow> (task_state \<times> string \<times> deploy_payload) option) \<Rightarrow> 'q \<Rightarrow> uuid \<Rightarrow> bool" where
  "task_for holds q i \<longleftrightarrow> (\<exists>k st kind p. holds q k = Some (st, kind, p) \<and> pl_deployment p = i)"

lemma created:
  assumes "create_deployment en a by commit key s = Some (row, s1)"
  shows "row = new_deployment (te_new en) (te_now en) a by commit key" "s1 = s\<lparr>dk_rows := dk_rows s @ [row]\<rparr>"
    "dy_id row = te_new en" "te_new en \<notin> dy_id ` set (dk_rows s)"
  using assms by (auto simp: create_deployment_def new_deployment_def Let_def split: if_splits)

lemma fail_enqueue_rows:
  assumes "te_new en \<notin> dy_id ` set rows" and "dy_id row = te_new en" and "dk_rows s = rows @ [row]"
  shows "dk_rows (fail_enqueue en (te_new en) cause s) = rows @ [if te_ok en ''UpdateDeploymentStatus''
     then row\<lparr>dy_status := dep_failed, dy_error := ''could not queue deploy task: '' @ cause, dy_finished := Some (te_now en)\<rparr>
     else row]"
  using assms by (auto simp: fail_enqueue_def set_deployment_status_def alter_deployment_def image_iff intro!: map_idI)

lemma fail_enqueue_queue [simp]: "dk_queue (fail_enqueue en i cause s) = dk_queue s" "dk_audit (fail_enqueue en i cause s) = dk_audit s"
  by (simp_all add: fail_enqueue_def)

lemma fail_enqueue_appends:
  "\<exists>row'. dk_rows (fail_enqueue en i cause (s\<lparr>dk_rows := rows @ [row], dk_queue := q\<rparr>)) = rows @ [row'] \<and> dy_id row' = dy_id row"
  if "i \<notin> dy_id ` set rows"
  using that by (auto simp: fail_enqueue_def set_deployment_status_def alter_deployment_def image_iff intro!: map_idI)

text \<open>The rows are kept, a new one may follow; the tasks are kept or dropped, one for the new row may come.\<close>

lemma submit_effect:
  assumes ok: "queue_ok tq holds" and sub: "submit_deployment tq en queue kind a app by commit key rollback pinned s = (r, s')"
  shows "\<exists>new. dk_rows s' = dk_rows s @ new \<and> (\<forall>x \<in> set new. dy_id x = te_new en)"
    "holds (dk_queue s) k = Some (Active, t) \<Longrightarrow> holds (dk_queue s') k = Some (Active, t)"
    "holds (dk_queue s') k = Some (st, kd, p) \<Longrightarrow>
       holds (dk_queue s) k = Some (st, kd, p) \<or> (pl_deployment p = te_new en \<and> te_new en \<notin> dy_id ` set (dk_rows s))"
proof -
  have "(\<exists>new. dk_rows s' = dk_rows s @ new \<and> (\<forall>x \<in> set new. dy_id x = te_new en)) \<and>
    (holds (dk_queue s) k = Some (Active, t) \<longrightarrow> holds (dk_queue s') k = Some (Active, t)) \<and>
    (holds (dk_queue s') k = Some (st, kd, p) \<longrightarrow>
       holds (dk_queue s) k = Some (st, kd, p) \<or> (pl_deployment p = te_new en \<and> te_new en \<notin> dy_id ` set (dk_rows s)))"
  proof (cases "create_deployment en a by commit key s")
    case None
    then show ?thesis using sub by (simp add: submit_deployment_def)
  next
    case (Some x)
    then obtain row s1 where c: "create_deployment en a by commit key s = Some (row, s1)" by (cases x) auto
    note n = created [OF c]
    let ?t = "(kind, \<lparr>pl_app = app, pl_deployment = te_new en, pl_rollback = rollback, pl_commit = pinned\<rparr>)"
    obtain e q where q: "enqueue_like tq (te_show en) queue a ?t (dk_queue s) = (e, q)" by fastforce
    note h = enqueue_like_holds [OF ok q]
    have s': "dk_queue s' = q" "dk_rows s' = dk_rows s @ [row] \<or> (\<exists>m. s' = fail_enqueue en (te_new en) m (s\<lparr>dk_rows := dk_rows s @ [row], dk_queue := q\<rparr>))"
      using sub n(3) by (cases e; auto simp: submit_deployment_def c n(2) q)+
    have "\<exists>new. dk_rows s' = dk_rows s @ new \<and> (\<forall>x \<in> set new. dy_id x = te_new en)"
      using s'(2)
    proof (elim disjE exE)
      fix m assume "s' = fail_enqueue en (te_new en) m (s\<lparr>dk_rows := dk_rows s @ [row], dk_queue := q\<rparr>)"
      with fail_enqueue_appends [OF n(4), where en = en and cause = m and s = s and row = row and q = q]
      obtain row' where "dk_rows s' = dk_rows s @ [row']" "dy_id row' = dy_id row" by auto
      with n(3) show ?thesis by auto
    qed (use n(3) in auto)
    moreover have "holds q k = Some (Active, t)" if "holds (dk_queue s) k = Some (Active, t)"
      using h(2) h(4) that by (cases "k = (queue, deploy_task_id (te_show en) a)") auto
    moreover have "holds (dk_queue s) k = Some (st, kd, p) \<or> pl_deployment p = te_new en" if k: "holds q k = Some (st, kd, p)"
    proof (cases "k = (queue, deploy_task_id (te_show en) a)")
      case True
      show ?thesis
      proof (cases "e = Enqueued")
        case True
        with h(1) k \<open>k = _\<close> show ?thesis by auto
      next
        case False
        with h(3) k show ?thesis by (metis option.distinct(1))
      qed
    next
      case False
      with h(4) k show ?thesis by simp
    qed
    ultimately show ?thesis using s'(1) n(4) by blast
  qed
  then show "\<exists>new. dk_rows s' = dk_rows s @ new \<and> (\<forall>x \<in> set new. dy_id x = te_new en)"
    "holds (dk_queue s) k = Some (Active, t) \<Longrightarrow> holds (dk_queue s') k = Some (Active, t)"
    "holds (dk_queue s') k = Some (st, kd, p) \<Longrightarrow>
       holds (dk_queue s) k = Some (st, kd, p) \<or> (pl_deployment p = te_new en \<and> te_new en \<notin> dy_id ` set (dk_rows s))"
    by blast+
qed

text \<open>
  C11: a trigger whose task cannot be queued says so on its row. Whatever the task queue answers, a trigger
  either queues a task for the pending row it created and hands that row back, or refuses and changes
  nothing, or refuses and leaves one new row without a task; that row is failed when the status write that
  follows the refusal answers, and stays pending only when that write fails as well (the code logs it).
  Other rows are never touched. This assumes the task queue's contract and that no task carried the new
  row's id before.
\<close>
theorem submitted_or_failed:
  assumes "queue_ok tq holds" and "\<not> task_for holds (dk_queue s) (te_new en)"
    and "submit_deployment tq en queue kind a app by commit key rollback pinned s = (r, s')"
  shows "(\<exists>row. r = Inr row \<and> dk_rows s' = dk_rows s @ [row] \<and> dy_id row = te_new en \<and> dy_app row = a \<and> dy_status row = dep_pending \<and>
      holds (dk_queue s') (queue, deploy_task_id (te_show en) a) =
        Some (Waiting, kind, \<lparr>pl_app = app, pl_deployment = te_new en, pl_rollback = rollback, pl_commit = pinned\<rparr>)) \<or>
    (r = Inl TCreateFailed \<and> s' = s) \<or>
    (\<exists>e row. r = Inl e \<and> dk_rows s' = dk_rows s @ [row] \<and> dy_id row = te_new en \<and> dy_app row = a \<and>
      dy_status row = (if te_ok en ''UpdateDeploymentStatus'' then dep_failed else dep_pending) \<and>
      \<not> task_for holds (dk_queue s') (te_new en))"
proof (cases "create_deployment en a by commit key s")
  case None
  then show ?thesis using assms(3) by (simp add: submit_deployment_def)
next
  case (Some x)
  then obtain row s1 where c: "create_deployment en a by commit key s = Some (row, s1)" by (cases x) auto
  note n = created [OF c]
  let ?t = "(kind, \<lparr>pl_app = app, pl_deployment = te_new en, pl_rollback = rollback, pl_commit = pinned\<rparr>)"
  obtain e q where q: "enqueue_like tq (te_show en) queue a ?t (dk_queue s) = (e, q)" by fastforce
  note h = enqueue_like_holds [OF assms(1) q]
  have rest: "\<not> task_for holds q (te_new en)" if "e \<noteq> Enqueued"
  proof
    assume "task_for holds q (te_new en)"
    then obtain k st kind' p where k: "holds q k = Some (st, kind', p)" "pl_deployment p = te_new en" by (auto simp: task_for_def)
    with h(3) [OF that] have "holds (dk_queue s) k = Some (st, kind', p)" by (metis option.distinct(1))
    with k(2) assms(2) show False unfolding task_for_def by blast
  qed
  have row: "dy_app row = a" "dy_status row = dep_pending" by (simp_all add: n(1) new_deployment_def)
  have s1: "dk_queue s1 = dk_queue s" "s1 = s\<lparr>dk_rows := dk_rows s @ [row]\<rparr>" by (simp_all add: n(2))
  show ?thesis
  proof (cases e)
    case Enqueued
    then have "r = Inr row" "s' = s1\<lparr>dk_queue := q\<rparr>"
      using assms(3) by (auto simp: submit_deployment_def c n(3) s1(1) q)
    then show ?thesis using h(1) [OF Enqueued] row n(3) by (simp add: s1(2))
  next
    case IdConflict
    then have r: "r = Inl TInProgress" "s' = fail_enqueue en (te_new en) ''task ID conflicts with another task'' (s1\<lparr>dk_queue := q\<rparr>)"
      using assms(3) by (auto simp: submit_deployment_def c n(3) s1(1) q)
    show ?thesis
      using fail_enqueue_rows [OF n(4) n(3), where s = "s1\<lparr>dk_queue := q\<rparr>"] rest n(3) row IdConflict by (simp add: r s1(2))
  next
    case (EnqueueFailed m)
    then have r: "r = Inl TEnqueueFailed" "s' = fail_enqueue en (te_new en) m (s1\<lparr>dk_queue := q\<rparr>)"
      using assms(3) by (auto simp: submit_deployment_def c n(3) s1(1) q)
    show ?thesis
      using fail_enqueue_rows [OF n(4) n(3), where s = "s1\<lparr>dk_queue := q\<rparr>"] rest n(3) row EnqueueFailed by (simp add: r s1(2))
  qed
qed

section \<open>Any sequence of triggers\<close>

datatype trigger =
    Deploy caller string | Rollback caller string "string option" | Reload caller string | Rebuild caller string
  | Build caller string | Hook uuid | Push uuid string

primrec run_trigger :: "'q task_queue \<Rightarrow> trigger_env \<Rightarrow> trigger \<Rightarrow> 'q deploy_desk \<Rightarrow> 'q deploy_desk" where
  "run_trigger tq en (Deploy c app) s = snd (deploy_application tq en c app s)"
| "run_trigger tq en (Rollback c app body) s = snd (rollback_deployment tq en c app body s)"
| "run_trigger tq en (Reload c app) s = snd (reload_application tq en c app s)"
| "run_trigger tq en (Rebuild c app) s = snd (rebuild_application tq en c app s)"
| "run_trigger tq en (Build c app) s = snd (build_application tq en c app s)"
| "run_trigger tq en (Hook a) s = snd (trigger_deploy_hook tq en a s)"
| "run_trigger tq en (Push a commit) s = snd (trigger_push_deploy tq en a commit s)"

definition run_triggers :: "'q task_queue \<Rightarrow> (trigger_env \<times> trigger) list \<Rightarrow> 'q deploy_desk \<Rightarrow> 'q deploy_desk" where
  "run_triggers tq es s = foldl (\<lambda>s (en, t). run_trigger tq en t s) s es"

lemma audit_trigger_desk [simp]:
  "dk_rows (snd (audit_trigger n a x)) = dk_rows (snd x)" "dk_queue (snd (audit_trigger n a x)) = dk_queue (snd x)"
  by (auto simp: audit_trigger_def split: prod.splits sum.splits)

text \<open>Every trigger is one submission, or nothing.\<close>

definition submitted :: "'q task_queue \<Rightarrow> trigger_env \<Rightarrow> 'q deploy_desk \<Rightarrow> 'q deploy_desk \<Rightarrow> bool" where
  "submitted tq en s s' \<longleftrightarrow> (dk_rows s' = dk_rows s \<and> dk_queue s' = dk_queue s) \<or>
     (\<exists>queue kind a app by commit key rb pin. dk_rows s' = dk_rows (snd (submit_deployment tq en queue kind a app by commit key rb pin s)) \<and>
       dk_queue s' = dk_queue (snd (submit_deployment tq en queue kind a app by commit key rb pin s)))"

lemma submittedI:
  "submitted tq en s s"
  "submitted tq en s (snd (submit_deployment tq en queue kind a app by commit key rb pin s))"
  "submitted tq en s (snd (audit_trigger n b (submit_deployment tq en queue kind a app by commit key rb pin s)))"
  unfolding submitted_def by (blast, blast, metis audit_trigger_desk)

lemmas trigger_defs = deploy_application_def rollback_deployment_def reload_application_def rebuild_application_def
  build_application_def trigger_deploy_hook_def trigger_push_deploy_def trigger_deployment_def

lemma run_trigger_submits: "submitted tq en s (run_trigger tq en t s)"
proof (cases t)
  case (Push a commit)
  then have "run_trigger tq en t s = (if duplicate_push en a commit s then s
      else snd (submit_deployment tq en ''critical'' ''deploy'' a (te_show en a) ''push'' commit (push_key en a commit) '''' '''' s))"
    by (auto simp: trigger_push_deploy_def split: prod.splits sum.splits)
  then show ?thesis by (simp add: submittedI)
qed (auto simp: trigger_defs Let_def submittedI split: option.splits sum.splits if_splits)

lemma submitted_effect:
  assumes ok: "queue_ok tq holds" and sub: "submitted tq en s s'"
  shows "\<exists>new. dk_rows s' = dk_rows s @ new \<and> (\<forall>x \<in> set new. dy_id x = te_new en)"
    "holds (dk_queue s) k = Some (Active, t) \<Longrightarrow> holds (dk_queue s') k = Some (Active, t)"
    "holds (dk_queue s') k = Some (st, kd, p) \<Longrightarrow>
       holds (dk_queue s) k = Some (st, kd, p) \<or> (pl_deployment p = te_new en \<and> te_new en \<notin> dy_id ` set (dk_rows s))"
proof -
  consider "dk_rows s' = dk_rows s" "dk_queue s' = dk_queue s"
    | r s1 queue kind a app "by" commit key rb pin where "submit_deployment tq en queue kind a app by commit key rb pin s = (r, s1)"
        "dk_rows s' = dk_rows s1" "dk_queue s' = dk_queue s1"
    using sub unfolding submitted_def by (metis prod.collapse)
  then have "(\<exists>new. dk_rows s' = dk_rows s @ new \<and> (\<forall>x \<in> set new. dy_id x = te_new en)) \<and>
    (holds (dk_queue s) k = Some (Active, t) \<longrightarrow> holds (dk_queue s') k = Some (Active, t)) \<and>
    (holds (dk_queue s') k = Some (st, kd, p) \<longrightarrow>
       holds (dk_queue s) k = Some (st, kd, p) \<or> (pl_deployment p = te_new en \<and> te_new en \<notin> dy_id ` set (dk_rows s)))"
  proof cases
    case 2
    note e = submit_effect [where holds = holds, OF ok 2(1)]
    from e(1) e(2) [of k t] e(3) [of k st kd p] 2(2,3) show ?thesis by simp
  qed simp
  then show "\<exists>new. dk_rows s' = dk_rows s @ new \<and> (\<forall>x \<in> set new. dy_id x = te_new en)"
    "holds (dk_queue s) k = Some (Active, t) \<Longrightarrow> holds (dk_queue s') k = Some (Active, t)"
    "holds (dk_queue s') k = Some (st, kd, p) \<Longrightarrow>
       holds (dk_queue s) k = Some (st, kd, p) \<or> (pl_deployment p = te_new en \<and> te_new en \<notin> dy_id ` set (dk_rows s))"
    by simp_all
qed

definition abandoned :: "('q \<Rightarrow> string \<times> string \<Rightarrow> (task_state \<times> string \<times> deploy_payload) option) \<Rightarrow> deployment_row \<Rightarrow> 'q deploy_desk \<Rightarrow> bool" where
  "abandoned holds row s \<longleftrightarrow> row \<in> set (dk_rows s) \<and> \<not> task_for holds (dk_queue s) (dy_id row)"

lemma abandoned_step:
  assumes "queue_ok tq holds" and "submitted tq en s s'" and "abandoned holds row s"
  shows "abandoned holds row s'"
proof -
  from submitted_effect(1) [OF assms(1,2)] assms(3) have "row \<in> set (dk_rows s')" by (auto simp: abandoned_def)
  moreover have "\<not> task_for holds (dk_queue s') (dy_id row)"
  proof
    assume "task_for holds (dk_queue s') (dy_id row)"
    then obtain k st kd p where k: "holds (dk_queue s') k = Some (st, kd, p)" "pl_deployment p = dy_id row" by (auto simp: task_for_def)
    from submitted_effect(3) [OF assms(1,2) k(1)] show False
    proof
      assume "holds (dk_queue s) k = Some (st, kd, p)"
      with k(2) assms(3) show False unfolding abandoned_def task_for_def by blast
    next
      assume "pl_deployment p = te_new en \<and> te_new en \<notin> dy_id ` set (dk_rows s)"
      with k(2) assms(3) show False by (auto simp: abandoned_def)
    qed
  qed
  ultimately show ?thesis by (simp add: abandoned_def)
qed

text \<open>Two invariants of the desk under triggers: a running task stays, an abandoned deployment stays abandoned.\<close>

interpretation running: machine "\<lambda>s (en, t). run_trigger tq en t s" "\<lambda>s. queue_ok tq holds \<longrightarrow> holds (dk_queue s) k = Some (Active, u)" for tq holds k u
  by unfold_locales (auto intro: submitted_effect(2) [OF _ run_trigger_submits])

interpretation abandon: machine "\<lambda>s (en, t). run_trigger tq en t s" "\<lambda>s. queue_ok tq holds \<longrightarrow> abandoned holds row s" for tq holds row
  by unfold_locales (auto intro: abandoned_step [OF _ run_trigger_submits])

lemma run_trigger_step: "(\<lambda>s (en, t). run_trigger tq en t s) = (\<lambda>s e. run_trigger tq (fst e) (snd e) s)"
  by (auto simp: fun_eq_iff)

text \<open>
  C3: one deploy of an application runs at a time. While a task runs under the application's id no
  sequence of triggers removes or replaces it, and every further submission for the application on that
  queue is refused.
\<close>
theorem running_deploy_not_displaced:
  assumes "queue_ok tq holds" and "holds (dk_queue s) (queue, deploy_task_id (te_show en) a) = Some (Active, u)"
  shows "holds (dk_queue (run_triggers tq es s)) (queue, deploy_task_id (te_show en) a) = Some (Active, u) \<and>
    (\<exists>e. fst (submit_deployment tq en queue kind a app by commit key rb pin (run_triggers tq es s)) = Inl e)"
proof
  show act: "holds (dk_queue (run_triggers tq es s)) (queue, deploy_task_id (te_show en) a) = Some (Active, u)"
    unfolding run_triggers_def by (rule running.run_inv [rule_format]) (use assms in auto)
  let ?s = "run_triggers tq es s"
  show "\<exists>e. fst (submit_deployment tq en queue kind a app by commit key rb pin ?s) = Inl e"
  proof (cases "create_deployment en a by commit key ?s")
    case None
    then show ?thesis by (simp add: submit_deployment_def)
  next
    case (Some x)
    then obtain row s1 where c: "create_deployment en a by commit key ?s = Some (row, s1)" by (cases x) auto
    let ?t = "(kind, \<lparr>pl_app = app, pl_deployment = te_new en, pl_rollback = rb, pl_commit = pin\<rparr>)"
    obtain e q where q: "enqueue_like tq (te_show en) queue a ?t (dk_queue ?s) = (e, q)" by fastforce
    from enqueue_like_holds(2) [where holds = holds, OF assms(1) q act] have "e \<noteq> Enqueued" by simp
    with c q created [OF c] show ?thesis by (cases e) (simp_all add: submit_deployment_def)
  qed
qed

text \<open>
  C38: replacing a waiting task abandons its deployment. A new submission for the application takes the id
  of the waiting task, whose deployment stays pending with no task to run it, whatever is triggered
  afterwards, so the application counts as deploying.
\<close>
theorem displaced_deploy_stays_pending:
  assumes ok: "queue_ok tq holds"
    and row: "row \<in> set (dk_rows s)" "dy_app row = a" "dy_status row = dep_pending"
    and task: "holds (dk_queue s) (queue, deploy_task_id (te_show en) a) = Some (Waiting, kd, p)" "pl_deployment p = dy_id row"
    and only: "\<forall>k st kd' p'. holds (dk_queue s) k = Some (st, kd', p') \<and> pl_deployment p' = dy_id row \<longrightarrow>
      k = (queue, deploy_task_id (te_show en) a)"
    and sub: "submit_deployment tq en queue kind a app by commit key rb pin s = (Inr new, s')"
  shows "row \<in> set (dk_rows (run_triggers tq es s')) \<and> \<not> task_for holds (dk_queue (run_triggers tq es s')) (dy_id row) \<and>
    0 < count_active a (dk_rows (run_triggers tq es s'))"
proof -
  note eff = submit_effect [OF ok sub]
  have in_rows: "row \<in> set (dk_rows s')" using eff(1) row(1) by auto
  obtain s1 where c: "create_deployment en a by commit key s = Some (new, s1)"
    and q: "enqueue_like tq (te_show en) queue a (kind, \<lparr>pl_app = app, pl_deployment = te_new en, pl_rollback = rb, pl_commit = pin\<rparr>) (dk_queue s) = (Enqueued, dk_queue s')"
  proof -
    from sub obtain s1 where c: "create_deployment en a by commit key s = Some (new, s1)"
      and "enqueue_like tq (te_show en) queue a (kind, \<lparr>pl_app = app, pl_deployment = dy_id new, pl_rollback = rb, pl_commit = pin\<rparr>) (dk_queue s1) = (Enqueued, dk_queue s')"
      by (auto simp: submit_deployment_def split: option.splits prod.splits enqueued.splits)
    then show ?thesis using created [OF c] that by simp
  qed
  have n: "te_new en \<noteq> dy_id row" using created(4) [OF c] row(1) by auto
  have "\<not> task_for holds (dk_queue s') (dy_id row)"
  proof
    assume "task_for holds (dk_queue s') (dy_id row)"
    then obtain k st kd' p' where k: "holds (dk_queue s') k = Some (st, kd', p')" "pl_deployment p' = dy_id row" by (auto simp: task_for_def)
    from eff(3) [OF k(1)] n k(2) have "holds (dk_queue s) k = Some (st, kd', p')" by auto
    with only k(2) have "k = (queue, deploy_task_id (te_show en) a)" by blast
    with enqueue_like_holds(1) [where holds = holds, OF ok q] k n show False by auto
  qed
  with in_rows have "abandoned holds row s'" by (simp add: abandoned_def)
  then have "abandoned holds row (run_triggers tq es s')"
    unfolding run_triggers_def by (intro abandon.run_inv [rule_format]) (use ok in auto)
  moreover from this have "0 < count_active a (dk_rows (run_triggers tq es s'))"
    using row(2,3) by (auto simp: abandoned_def count_active_def filter_empty_conv)
  ultimately show ?thesis by (simp add: abandoned_def)
qed

text \<open>
  a push that arrives while the application is being deployed is lost. Its deployment fails, and
  because the failed row carries the push's key, the same push delivered again within the minute is taken
  for a duplicate, even when the deploy that was in the way has finished.
\<close>
theorem push_during_deploy_is_lost:
  assumes ok: "queue_ok tq holds" and busy: "holds (dk_queue s) (''critical'', deploy_task_id (te_show en) a) = Some (Active, u)"
    and up: "te_ok en ''CreateDeployment''" "te_type en a \<noteq> None" "te_ok en ''UpdateDeploymentStatus''" "te_new en \<notin> dy_id ` set (dk_rows s)"
    and c: "commit \<noteq> ''''" and first: "\<not> duplicate_push en a commit s"
    and again: "te_ok en' ''FindRecentDeploymentByIdempotencyKey''" "te_digest en' = te_digest en"
      "te_now en' < te_now en + window_push_seconds"
  shows "\<exists>row. dy_status row = dep_failed \<and> fst (trigger_push_deploy tq en a commit s) = False \<and>
    dk_rows (snd (trigger_push_deploy tq en a commit s)) = dk_rows s @ [row] \<and>
    (\<forall>q. trigger_push_deploy tq en' a commit ((snd (trigger_push_deploy tq en a commit s))\<lparr>dk_queue := q\<rparr>) =
       (False, (snd (trigger_push_deploy tq en a commit s))\<lparr>dk_queue := q\<rparr>))"
proof -
  let ?row = "new_deployment (te_new en) (te_now en) a ''push'' commit (push_key en a commit)"
  let ?t = "(''deploy'', \<lparr>pl_app = te_show en a, pl_deployment = te_new en, pl_rollback = '''', pl_commit = ''''\<rparr>)"
  have cr: "create_deployment en a ''push'' commit (push_key en a commit) s = Some (?row, s\<lparr>dk_rows := dk_rows s @ [?row]\<rparr>)"
    using up by (auto simp: create_deployment_def trigger_names_def Let_def)
  obtain e q where q: "enqueue_like tq (te_show en) ''critical'' a ?t (dk_queue s) = (e, q)" by fastforce
  from enqueue_like_holds(2) [where holds = holds, OF ok q busy] have "e \<noteq> Enqueued" by simp
  then obtain cause where sub: "trigger_push_deploy tq en a commit s =
      (False, fail_enqueue en (te_new en) cause (s\<lparr>dk_rows := dk_rows s @ [?row], dk_queue := q\<rparr>))"
    using first q by (cases e) (simp_all add: trigger_push_deploy_def submit_deployment_def cr new_deployment_def)
  let ?s1 = "snd (trigger_push_deploy tq en a commit s)"
  define row where "row = ?row\<lparr>dy_status := dep_failed,
    dy_error := ''could not queue deploy task: '' @ cause, dy_finished := Some (te_now en)\<rparr>"
  have rows: "dk_rows ?s1 = dk_rows s @ [row]"
    using fail_enqueue_rows [OF up(4), where row = ?row and s = "s\<lparr>dk_rows := dk_rows s @ [?row], dk_queue := q\<rparr>" and cause = cause] up(3)
    by (simp add: sub row_def new_deployment_def)
  have r: "dy_app row = a" "dy_key row = push_key en' a commit" "dy_started row = te_now en" "dy_status row = dep_failed"
    using again(2) by (simp_all add: row_def new_deployment_def push_key_def)
  have "recent_by_key a (push_key en' a commit) window_push_seconds (te_now en') (dk_rows ?s1) \<noteq> None"
    using r again(3) by (auto simp: recent_by_key_def find_None_iff rows)
  then have "duplicate_push en' a commit (?s1\<lparr>dk_queue := q\<rparr>)" for q
    using c again(1) by (simp add: duplicate_push_def)
  then have "\<forall>q. trigger_push_deploy tq en' a commit (?s1\<lparr>dk_queue := q\<rparr>) = (False, ?s1\<lparr>dk_queue := q\<rparr>)"
    by (simp add: trigger_push_deploy_def)
  with rows r(4) sub show ?thesis by (metis fst_conv)
qed

section \<open>Witnesses\<close>

text \<open>A queue that is its contents.\<close>

definition map_queue :: "(string \<times> string \<Rightarrow> (task_state \<times> string \<times> deploy_payload) option) task_queue" where
  "map_queue = \<lparr>tq_enqueue = (\<lambda>qu i t q. if q (qu, i) = None then (Enqueued, q((qu, i) \<mapsto> (Waiting, t))) else (IdConflict, q)),
     tq_delete = (\<lambda>qu i q. case q (qu, i) of Some (Waiting, _) \<Rightarrow> (True, q((qu, i) := None)) | _ \<Rightarrow> (False, q))\<rparr>"

lemma map_queue_ok: "queue_ok map_queue (\<lambda>q. q)"
  by (auto simp: queue_ok_def map_queue_def split: option.splits task_state.splits)

definition demo_desk_env :: "uuid \<Rightarrow> instant \<Rightarrow> trigger_env" where
  "demo_desk_env new now = \<lparr>te_ok = (\<lambda>_. True), te_scan = (\<lambda>_. Some 7), te_show = (\<lambda>_. ''7''),
     te_access = \<lparr>app_owner = (\<lambda>_. Absent), database_owner = (\<lambda>_. Absent), domain_owner = (\<lambda>_. Absent),
       deployment_owner = (\<lambda>_. Absent), project_row = (\<lambda>_. Absent)\<rparr>,
     te_type = (\<lambda>_. Some ''git''), te_reach = True, te_image_exists = (\<lambda>_. Some True),
     te_digest = (\<lambda>_ k c. k @ ''-'' @ c), te_new = new, te_now = now\<rparr>"

definition demo_payload :: "uuid \<Rightarrow> deploy_payload" where
  "demo_payload i = \<lparr>pl_app = ''7'', pl_deployment = i, pl_rollback = '''', pl_commit = ''''\<rparr>"

definition demo_desk :: "deployment_row list \<Rightarrow> task_state \<Rightarrow> (string \<times> string \<Rightarrow> (task_state \<times> string \<times> deploy_payload) option) deploy_desk" where
  "demo_desk rows st = \<lparr>dk_rows = rows,
     dk_queue = (\<lambda>_. None)((''critical'', ''deploy:7'') \<mapsto> (st, ''deploy'', demo_payload 1)), dk_audit = []\<rparr>"

lemmas demo_desk_defs = demo_desk_def demo_desk_env_def demo_payload_def deploy_task_id_def task_for_def

definition demo_first :: deployment_row where
  "demo_first = new_deployment 1 100 7 ''manual'' '''' ''''"

lemma submitted_or_failed_witness:
  "dk_rows (snd (submit_deployment map_queue (demo_desk_env 2 200) ''critical'' ''deploy'' 7 ''7'' ''manual'' '''' '''' '''' '''' (demo_desk [] Active))) \<noteq> []"
proof -
  let ?s = "demo_desk [] Active" and ?en = "demo_desk_env 2 200"
  obtain r s' where e: "submit_deployment map_queue ?en ''critical'' ''deploy'' 7 ''7'' ''manual'' '''' '''' '''' '''' ?s = (r, s')" by fastforce
  have "r \<noteq> Inl TCreateFailed"
    using e by (auto simp: submit_deployment_def create_deployment_def demo_desk_defs trigger_names_def Let_def
        split: prod.splits enqueued.splits)
  moreover have "\<not> task_for (\<lambda>q. q) (dk_queue ?s) (te_new ?en)"
    by (auto simp: demo_desk_defs split: if_splits)
  ultimately show ?thesis using submitted_or_failed [OF map_queue_ok _ e] by (auto simp: e)
qed

lemma running_deploy_not_displaced_witness:
  "dk_queue (run_triggers map_queue [(demo_desk_env 2 200, Hook 7), (demo_desk_env 3 300, Push 7 ''abc'')] (demo_desk [demo_first] Active))
     (''critical'', ''deploy:7'') = Some (Active, ''deploy'', demo_payload 1)"
  using running_deploy_not_displaced [OF map_queue_ok, of "demo_desk [demo_first] Active" "''critical''" "demo_desk_env 2 200" 7
      "(''deploy'', demo_payload 1)" "[(demo_desk_env 2 200, Hook 7), (demo_desk_env 3 300, Push 7 ''abc'')]"]
  by (simp add: demo_desk_defs)

lemma displaced_deploy_stays_pending_witness:
  "demo_first \<in> set (dk_rows (run_triggers map_queue [(demo_desk_env 3 300, Hook 7)]
     (snd (submit_deployment map_queue (demo_desk_env 2 200) ''critical'' ''deploy'' 7 ''7'' ''manual'' '''' '''' '''' '''' (demo_desk [demo_first] Waiting)))))"
proof -
  let ?s = "demo_desk [demo_first] Waiting" and ?en = "demo_desk_env 2 200"
  have r: "\<exists>new. fst (submit_deployment map_queue ?en ''critical'' ''deploy'' 7 ''7'' ''manual'' '''' '''' '''' '''' ?s) = Inr new"
    by (simp add: submit_deployment_def create_deployment_def demo_desk_defs trigger_names_def Let_def enqueue_like_def map_queue_def
        demo_first_def new_deployment_def)
  then obtain new s' where e: "submit_deployment map_queue ?en ''critical'' ''deploy'' 7 ''7'' ''manual'' '''' '''' '''' '''' ?s = (Inr new, s')"
    by (metis prod.collapse)
  let ?k = "(''critical'', deploy_task_id (te_show ?en) 7)"
  have row: "demo_first \<in> set (dk_rows ?s)" "dy_app demo_first = 7" "dy_status demo_first = dep_pending" "pl_deployment (demo_payload 1) = dy_id demo_first"
    by (simp_all add: demo_desk_defs demo_first_def new_deployment_def)
  have task: "dk_queue ?s ?k = Some (Waiting, ''deploy'', demo_payload 1)" by (simp add: demo_desk_defs)
  have only: "\<forall>k st kd' p'. dk_queue ?s k = Some (st, kd', p') \<and> pl_deployment p' = dy_id demo_first \<longrightarrow> k = ?k"
    by (auto simp: demo_desk_defs split: if_splits)
  show ?thesis
    using displaced_deploy_stays_pending [OF map_queue_ok row(1-3) task row(4) only e, of "[(demo_desk_env 3 300, Hook 7)]"]
    by (simp add: e)
qed

lemma push_during_deploy_is_lost_witness:
  "trigger_push_deploy map_queue (demo_desk_env 3 230) 7 ''abc''
     ((snd (trigger_push_deploy map_queue (demo_desk_env 2 200) 7 ''abc'' (demo_desk [demo_first] Active)))\<lparr>dk_queue := (\<lambda>_. None)\<rparr>) =
   (False, (snd (trigger_push_deploy map_queue (demo_desk_env 2 200) 7 ''abc'' (demo_desk [demo_first] Active)))\<lparr>dk_queue := (\<lambda>_. None)\<rparr>)"
proof -
  let ?s = "demo_desk [demo_first] Active" and ?en = "demo_desk_env 2 200"
  have first: "\<not> duplicate_push ?en 7 ''abc'' ?s"
    by (simp add: duplicate_push_def recent_by_key_def newest_first_def push_key_def demo_desk_defs demo_first_def new_deployment_def)
  have busy: "dk_queue ?s (''critical'', deploy_task_id (te_show ?en) 7) = Some (Active, ''deploy'', demo_payload 1)"
    by (simp add: demo_desk_defs)
  have "\<exists>row. dy_status row = dep_failed \<and> fst (trigger_push_deploy map_queue ?en 7 ''abc'' ?s) = False \<and>
    dk_rows (snd (trigger_push_deploy map_queue ?en 7 ''abc'' ?s)) = dk_rows ?s @ [row] \<and>
    (\<forall>q. trigger_push_deploy map_queue (demo_desk_env 3 230) 7 ''abc'' ((snd (trigger_push_deploy map_queue ?en 7 ''abc'' ?s))\<lparr>dk_queue := q\<rparr>) =
       (False, (snd (trigger_push_deploy map_queue ?en 7 ''abc'' ?s))\<lparr>dk_queue := q\<rparr>))"
    by (rule push_during_deploy_is_lost [OF map_queue_ok busy _ _ _ _ _ first])
      (simp_all add: demo_desk_def demo_desk_env_def demo_first_def new_deployment_def window_push_seconds_def)
  then show ?thesis by blast
qed

end
