(* ===== verification/DeployTask.thy ===== *)
theory DeployTask
  imports Deployments Reconciler
begin

text \<open>
  The deploy and build workers (\<open>internal/worker/deploy_task.go\<close>, \<open>build_task.go\<close>): the stages of one
  deploy in order, with the compensators a late failure runs and the statuses it leaves.

  The container runtime and the proxy are Go interfaces, records of operations over a state. An
  environment gives one run the rest: the stages in which its context is alive, the queries that answer,
  the rows of other tables, and the outcome of clone, build and health probe. A query or a runtime call
  under a dead context fails. Notifications, e-mail, build logs, traces and metrics are left out.
\<close>

section \<open>Names and small functions\<close>

definition intermediate_container_name :: "string \<Rightarrow> string \<Rightarrow> string" where
  "intermediate_container_name project app = project @ ''-'' @ take 8 app"

definition old_container_name :: "string \<Rightarrow> string" where
  "old_container_name app = ''belune-'' @ take 8 app"

definition image_tag :: "string \<Rightarrow> string \<Rightarrow> string" where
  "image_tag slug deployment = slug @ '':'' @ take 8 deployment"

definition app_volume_name :: "string \<Rightarrow> string \<Rightarrow> string" where
  "app_volume_name app volume = ''belune-vol-'' @ take 8 app @ ''-'' @ volume"

definition octal_digit :: "char \<Rightarrow> nat option" where
  "octal_digit c = (if CHR ''0'' \<le> c \<and> c \<le> CHR ''7'' then Some (of_char c - of_char (CHR ''0'')) else None)"

fun parse_octal :: "nat \<Rightarrow> string \<Rightarrow> nat option" where
  "parse_octal n [] = Some n"
| "parse_octal n (c # s) =
     (case octal_digit c of
        None \<Rightarrow> None
      | Some d \<Rightarrow> if n * 8 + d < 2 ^ 32 then parse_octal (n * 8 + d) s else None)"

definition parse_file_mode :: "string \<Rightarrow> nat" where
  "parse_file_mode mode =
     (if mode = '''' then 420
      else case parse_octal 0 mode of None \<Rightarrow> 420 | Some m \<Rightarrow> unat (and (of_nat m :: 32 word) 511))"

text \<open>Instants and durations in seconds. \<open>CloneURL\<close>'s replacement is of the scheme at the front.\<close>

definition build_clone_url :: "string \<Rightarrow> string \<Rightarrow> string \<Rightarrow> string \<Rightarrow> string" where
  "build_clone_url provider token username repo =
     (case cut_prefix ''https://'' repo of
        None \<Rightarrow> repo
      | Some rest \<Rightarrow>
          if token = '''' then repo
          else let user = (if provider = ''github'' then ''x-access-token:''
                 else if provider = ''gitlab'' then ''oauth2:''
                 else if provider = ''bitbucket'' then (if username = '''' then ''x-token-auth'' else username) @ '':''
                 else if provider = ''gitea'' then (if username = '''' then ''oauth2'' else username) @ '':''
                 else '''')
            in ''https://'' @ user @ token @ ''@'' @ rest)"

section \<open>The application's row\<close>

record deploy_app =
  da_id :: uuid
  da_project :: uuid
  da_project_slug :: string
  da_slug :: string
  da_type :: string
  da_status :: string
  da_repo :: string
  da_image :: string
  da_branch :: string
  da_root :: string
  da_build_type :: string
  da_integration :: bool
  da_credentials :: "bytes option"
  da_health_type :: string
  da_health_path :: string
  da_health_command :: string
  da_health_interval :: "int option"
  da_health_timeout :: "int option"
  da_health_retries :: "int option"
  da_health_start :: "int option"
  da_health_expect :: "int option"
  da_cpu :: rat
  da_memory :: int
  da_readonly :: bool
  da_caps :: string
  da_port :: "int option"
  da_config_changed :: "instant option"
  da_source_changed :: "instant option"
  da_deployed :: "instant option"

definition alter_app :: "uuid \<Rightarrow> (deploy_app \<Rightarrow> deploy_app) \<Rightarrow> deploy_app list \<Rightarrow> deploy_app list" where
  "alter_app i f apps = map (\<lambda>a. if da_id a = i then f a else a) apps"

definition set_app_status :: "uuid \<Rightarrow> string \<Rightarrow> deploy_app list \<Rightarrow> deploy_app list" where
  "set_app_status i st = alter_app i (\<lambda>a. a\<lparr>da_status := st\<rparr>)"

definition set_deployed :: "uuid \<Rightarrow> instant \<Rightarrow> deploy_app list \<Rightarrow> deploy_app list" where
  "set_deployed i now = alter_app i (\<lambda>a. a\<lparr>da_deployed := Some now\<rparr>)"

text \<open>A marker is cleared when it is not newer than the deployment; with no such deployment it stays.\<close>

definition older_marker :: "instant option \<Rightarrow> deployment_row option \<Rightarrow> instant option" where
  "older_marker m d = (case (m, d) of (Some t, Some r) \<Rightarrow> if t \<le> dy_started r then None else m | _ \<Rightarrow> m)"

definition clear_config_changed :: "uuid \<Rightarrow> deployment_row option \<Rightarrow> deploy_app list \<Rightarrow> deploy_app list" where
  "clear_config_changed i d = alter_app i (\<lambda>a. a\<lparr>da_config_changed := older_marker (da_config_changed a) d\<rparr>)"

definition clear_source_changed :: "uuid \<Rightarrow> deployment_row option \<Rightarrow> deploy_app list \<Rightarrow> deploy_app list" where
  "clear_source_changed i d = alter_app i (\<lambda>a. a\<lparr>da_source_changed := older_marker (da_source_changed a) d\<rparr>)"

definition resolve_container_port :: "deploy_app \<Rightarrow> domain_row list \<Rightarrow> int" where
  "resolve_container_port a ds =
     (let given = (\<lambda>p. case p of Some n \<Rightarrow> if n > 0 then [n] else [] | None \<Rightarrow> [])
      in case given (da_port a) @ concat (map (\<lambda>d. given (dm_port d)) ds) of p # _ \<Rightarrow> p | [] \<Rightarrow> 8080)"

section \<open>The health check\<close>

record health_config =
  hk_command :: string
  hk_interval :: int
  hk_timeout :: int
  hk_retries :: int
  hk_start :: int

definition positive_or :: "int \<Rightarrow> int option \<Rightarrow> int" where
  "positive_or d v = (case v of Some n \<Rightarrow> if n > 0 then n else d | None \<Rightarrow> d)"

definition health_runtime_config :: "deploy_app \<Rightarrow> health_config" where
  "health_runtime_config a =
     (if da_health_type a \<noteq> ''command'' \<or> da_health_command a = ''''
      then \<lparr>hk_command = '''', hk_interval = 0, hk_timeout = 0, hk_retries = 0, hk_start = 0\<rparr>
      else \<lparr>hk_command = da_health_command a, hk_interval = positive_or 30 (da_health_interval a),
        hk_timeout = positive_or 30 (da_health_timeout a), hk_retries = positive_or 3 (da_health_retries a),
        hk_start = positive_or 0 (da_health_start a)\<rparr>)"

definition health_verify_timeout :: int where "health_verify_timeout = 120"

definition command_budget :: "health_config \<Rightarrow> int" where
  "command_budget hc = (let b = hk_start hc + hk_interval hc * (hk_retries hc + 1) + hk_timeout hc * hk_retries hc;
     b = (if b < 30 then 30 else b) in if b > health_verify_timeout then health_verify_timeout else b)"

text \<open>A verdict is what one poll saw: the container's state or the answer's status, \<open>None\<close> for an error.\<close>

definition status_passes :: "int \<Rightarrow> int \<Rightarrow> bool" where
  "status_passes expect code = (if expect \<noteq> 0 then code = expect else 200 \<le> code \<and> code < 300)"

text \<open>
  The polls of one probe with the times they were made: each poll, then the deadline or the context,
  two seconds apart. A list that ends before a verdict is one whose context was cancelled.
\<close>

fun poll_command :: "int \<Rightarrow> (int \<times> string option) list \<Rightarrow> string option" where
  "poll_command deadline [] = Some ''context canceled''"
| "poll_command deadline ((now, st) # polls) =
     (if st = Some ''healthy'' then None
      else if st = Some ''unhealthy'' then Some ''container reported unhealthy''
      else if now > deadline then Some ''health check did not pass within the deploy window''
      else poll_command deadline polls)"

fun poll_http :: "string \<Rightarrow> int \<Rightarrow> int \<Rightarrow> (int \<times> int option) list \<Rightarrow> string option" where
  "poll_http late deadline expect [] = Some ''context canceled''"
| "poll_http late deadline expect ((now, code) # polls) =
     (if \<not> now < deadline then Some late
      else case code of
        Some c \<Rightarrow> if status_passes expect c then None else poll_http late deadline expect polls
      | None \<Rightarrow> poll_http late deadline expect polls)"

section \<open>One run of the worker\<close>

record container_config =
  cc_name :: string
  cc_image :: string
  cc_env :: "string \<rightharpoonup> string"
  cc_network :: string
  cc_app :: string
  cc_deployment :: string
  cc_volumes :: "string \<rightharpoonup> string"
  cc_binds :: "(string \<times> string) list"
  cc_cpu :: rat
  cc_memory :: int
  cc_health_path :: string
  cc_cap_drop :: "string list"
  cc_tmpfs :: "string list"
  cc_readonly :: bool
  cc_health :: health_config

text \<open>Each operation answers whether it succeeded; \<open>rt_create\<close> with the container's id.\<close>

record 'r runtime_iface =
  rt_create :: "container_config \<Rightarrow> 'r \<Rightarrow> string option \<times> 'r"
  rt_start :: "string \<Rightarrow> 'r \<Rightarrow> bool \<times> 'r"
  rt_stop :: "string \<Rightarrow> 'r \<Rightarrow> bool \<times> 'r"
  rt_remove :: "string \<Rightarrow> 'r \<Rightarrow> bool \<times> 'r"
  rt_pull :: "string \<Rightarrow> 'r \<Rightarrow> bool \<times> 'r"
  rt_digest :: "string \<Rightarrow> 'r \<Rightarrow> string option"
  rt_network :: "string \<Rightarrow> 'r \<Rightarrow> bool \<times> 'r"
  rt_connect :: "string \<Rightarrow> string \<Rightarrow> 'r \<Rightarrow> bool \<times> 'r"
  rt_volume :: "string \<Rightarrow> 'r \<Rightarrow> bool \<times> 'r"

datatype clone_ref = AtCommit string | AtBranch string

datatype stage = Begin | Load | CheckQuota | Prepare | Teardown | Networks | Create | Wire | Verify | Finalize | Settle

record file_mount =
  fm_id :: string
  fm_path :: string
  fm_mode :: string
  fm_content :: bytes

record deploy_env =
  de_live :: "stage \<Rightarrow> bool"
  de_ok :: "stage \<Rightarrow> string \<Rightarrow> bool"
  de_cause :: "string \<Rightarrow> string"
  de_redact :: "string \<Rightarrow> string"
  de_scan :: "string \<Rightarrow> uuid option"
  de_show :: "uuid \<Rightarrow> string"
  de_now :: instant
  de_retried :: nat
  de_max_retry :: nat
  de_host :: bool
  de_dec :: "bytes \<Rightarrow> string option"
  de_project_env :: "(string \<times> bytes) list"
  de_app_env :: "(string \<times> bytes) list"
  de_owner :: uuid
  de_quota :: "uuid \<Rightarrow> uuid \<Rightarrow> string option"
  de_integration :: "(string \<times> string \<times> string) option"
  de_clone :: "string \<Rightarrow> clone_ref \<Rightarrow> string + string"
  de_build_dir :: "string \<Rightarrow> string option"
  de_build :: "string \<Rightarrow> string \<Rightarrow> (string \<rightharpoonup> string) \<Rightarrow> string + string"
  de_proxy_name :: string
  de_api_name :: string
  de_volumes :: "(string \<times> string) list"
  de_mounts :: "file_mount list"
  de_mounts_dir :: string
  de_proxy_db :: proxy_db
  de_command_polls :: "(int \<times> string option) list"
  de_http_polls :: "(int \<times> int option) list"
  de_duration :: "int \<Rightarrow> string"

datatype compensator = DropContainer string | DropRoute string string

text \<open>The worker's \<open>deployContext\<close> with the tables, runtime, proxy and mounted files it works on.\<close>

record ('r, 'p) deploy_run =
  dr_app :: deploy_app
  dr_container :: string
  dr_container_id :: string
  dr_env :: "string \<rightharpoonup> string"
  dr_image :: string
  dr_commit :: string
  dr_domains :: "domain_row list"
  dr_cleaned :: bool
  dr_build_only :: bool
  dr_compensators :: "compensator list"
  dr_rows :: "deployment_row list"
  dr_apps :: "deploy_app list"
  dr_files :: "(string \<times> string \<times> nat) list"
  dr_runtime :: 'r
  dr_proxy :: 'p

definition db_ok :: "deploy_env \<Rightarrow> stage \<Rightarrow> string \<Rightarrow> bool" where
  "db_ok en st q \<longleftrightarrow> de_live en st \<and> de_ok en st q"

definition on_runtime :: "bool \<Rightarrow> ('r \<Rightarrow> bool \<times> 'r) \<Rightarrow> ('r, 'p) deploy_run \<Rightarrow> bool \<times> ('r, 'p) deploy_run" where
  "on_runtime live op s = (if live then case op (dr_runtime s) of (b, r) \<Rightarrow> (b, s\<lparr>dr_runtime := r\<rparr>) else (False, s))"

definition set_row_status :: "deploy_env \<Rightarrow> stage \<Rightarrow> uuid \<Rightarrow> string \<Rightarrow> string \<Rightarrow> ('r, 'p) deploy_run \<Rightarrow> ('r, 'p) deploy_run" where
  "set_row_status en st i to err s =
     (if db_ok en st ''UpdateDeploymentStatus'' then s\<lparr>dr_rows := set_deployment_status i to err (de_now en) (dr_rows s)\<rparr> else s)"

definition stamp :: "deploy_env \<Rightarrow> stage \<Rightarrow> string \<Rightarrow> (uuid \<Rightarrow> instant \<Rightarrow> deployment_row list \<Rightarrow> deployment_row list) \<Rightarrow> uuid \<Rightarrow>
    ('r, 'p) deploy_run \<Rightarrow> ('r, 'p) deploy_run" where
  "stamp en st q f i s = (if db_ok en st q then s\<lparr>dr_rows := f i (de_now en) (dr_rows s)\<rparr> else s)"

definition update_deployment_status :: "deploy_env \<Rightarrow> stage \<Rightarrow> uuid \<Rightarrow> string \<Rightarrow> string \<Rightarrow> ('r, 'p) deploy_run \<Rightarrow> ('r, 'p) deploy_run" where
  "update_deployment_status en st i from to s =
     (if \<not> valid_transition from to then s
      else let s = set_row_status en st i to '''' s
        in if to = dep_building then stamp en st ''SetDeploymentBuildStarted'' set_build_started i s
           else if to = dep_deploying then
             stamp en st ''SetDeploymentDeployStarted'' set_deploy_started i
               (if from = dep_building then stamp en st ''SetDeploymentBuildEnded'' set_build_ended i s else s)
           else s)"

section \<open>Stages before the teardown\<close>

definition put_env :: "(bytes \<Rightarrow> string option) \<Rightarrow> (string \<times> bytes) list \<Rightarrow> (string \<rightharpoonup> string) \<Rightarrow> string \<rightharpoonup> string" where
  "put_env dec vars m = foldl (\<lambda>m (k, v). case dec v of None \<Rightarrow> m | Some x \<Rightarrow> m(k \<mapsto> x)) m vars"

definition load_application :: "deploy_env \<Rightarrow> deploy_payload \<Rightarrow> uuid \<Rightarrow> ('r, 'p) deploy_run \<Rightarrow> string option \<times> ('r, 'p) deploy_run" where
  "load_application en p a s =
     (if \<not> db_ok en Load ''GetApplicationWithProjectSlug''
      then (Some (''fetch application: '' @ de_cause en ''GetApplicationWithProjectSlug''), s)
      else case find (\<lambda>r. da_id r = a) (dr_apps s) of
        None \<Rightarrow> (Some ''fetch application: no rows in result set'', s)
      | Some app \<Rightarrow>
          let s = s\<lparr>dr_app := app, dr_container := container_name (da_project_slug app) (da_slug app) (pl_app p)\<rparr>
          in if \<not> (de_live en Load \<and> de_host en) then (Some (''resolve runtime: '' @ de_cause en ''Runtimes.For''), s)
             else (None, s\<lparr>dr_env :=
               put_env (de_dec en) (if db_ok en Load ''ListEnvVarsByApplication'' then de_app_env en else [])
                 (put_env (de_dec en) (if db_ok en Load ''ListProjectEnvVars'' then de_project_env en else []) Map.empty)\<rparr>))"

definition check_deploy_quota :: "deploy_env \<Rightarrow> ('r, 'p) deploy_run \<Rightarrow> string option" where
  "check_deploy_quota en s =
     (if db_ok en CheckQuota ''GetApplicationOwnerUserID'' then de_quota en (da_project (dr_app s)) (de_owner en) else None)"

definition clone_url :: "deploy_env \<Rightarrow> deploy_app \<Rightarrow> string" where
  "clone_url en a =
     (let url = (if da_integration a then case de_integration en of
            Some (provider, token, user) \<Rightarrow> build_clone_url provider token user (da_repo a) | None \<Rightarrow> '''' else '''');
          url = (if url = '''' then case da_credentials a of
            Some c \<Rightarrow> (case de_dec en c of Some token \<Rightarrow> build_clone_url ''generic'' token '''' (da_repo a) | None \<Rightarrow> '''')
          | None \<Rightarrow> '''' else url)
      in if url = '''' then da_repo a else url)"

definition record_commit :: "deploy_env \<Rightarrow> uuid \<Rightarrow> string \<Rightarrow> ('r, 'p) deploy_run \<Rightarrow> ('r, 'p) deploy_run" where
  "record_commit en i commit s =
     (if commit \<noteq> '''' \<and> db_ok en Prepare ''UpdateDeploymentCommitSha''
      then s\<lparr>dr_rows := set_commit_sha i commit (dr_rows s)\<rparr> else s)"

definition build_from_git :: "deploy_env \<Rightarrow> deploy_payload \<Rightarrow> ('r, 'p) deploy_run \<Rightarrow> string option \<times> ('r, 'p) deploy_run" where
  "build_from_git en p s =
     (let i = pl_deployment p; app = dr_app s; s = s\<lparr>dr_image := image_tag (da_slug app) (de_show en i)\<rparr>
      in if \<not> de_ok en Prepare ''MkdirTemp'' then (Some (''create temp dir: '' @ de_cause en ''MkdirTemp''), s)
      else case (if de_live en Prepare
           then de_clone en (clone_url en app) (if pl_commit p \<noteq> '''' then AtCommit (pl_commit p) else AtBranch (da_branch app))
           else Inl ''context deadline exceeded'') of
        Inl e \<Rightarrow> (Some (''git clone: '' @ e), s)
      | Inr commit \<Rightarrow>
          let s = s\<lparr>dr_commit := commit\<rparr>
          in case de_build_dir en (da_root app) of
            Some e \<Rightarrow> (Some e, s)
          | None \<Rightarrow>
              let s = update_deployment_status en Prepare i dep_pending dep_building (record_commit en i commit s)
              in case (if de_live en Prepare then de_build en (da_build_type app) (dr_image s) (dr_env s) else Inl ''context deadline exceeded'') of
                Inl e \<Rightarrow> (Some (''build: '' @ e), s)
              | Inr built \<Rightarrow> (None, update_deployment_status en Prepare i dep_building dep_deploying (s\<lparr>dr_image := built\<rparr>)))"

definition pull_image :: "'r runtime_iface \<Rightarrow> deploy_env \<Rightarrow> deploy_payload \<Rightarrow> ('r, 'p) deploy_run \<Rightarrow> string option \<times> ('r, 'p) deploy_run" where
  "pull_image rt en p s =
     (let s = update_deployment_status en Prepare (pl_deployment p) dep_pending dep_building (s\<lparr>dr_image := da_image (dr_app s)\<rparr>)
      in case on_runtime (de_live en Prepare) (rt_pull rt (dr_image s)) s of
        (False, s) \<Rightarrow> (Some (''pull image: '' @ de_cause en ''PullImage''), s)
      | (True, s) \<Rightarrow>
          (case rt_digest rt (dr_image s) (dr_runtime s) of
             None \<Rightarrow> (None, s)
           | Some d \<Rightarrow> (None, if d = '''' then s else s\<lparr>dr_image := d\<rparr>)))"

definition prepare_image :: "'r runtime_iface \<Rightarrow> deploy_env \<Rightarrow> deploy_payload \<Rightarrow> ('r, 'p) deploy_run \<Rightarrow> string option \<times> ('r, 'p) deploy_run" where
  "prepare_image rt en p s =
     (let i = pl_deployment p
      in if pl_rollback p \<noteq> ''''
         then (None, update_deployment_status en Prepare i dep_pending dep_deploying (s\<lparr>dr_image := pl_rollback p\<rparr>))
         else case (if da_type (dr_app s) = ''image'' then pull_image rt en p s
                    else if da_type (dr_app s) = ''git'' then build_from_git en p s
                    else (Some (''unknown application type '' @ da_type (dr_app s)), s)) of
           (Some e, s) \<Rightarrow> (Some e, s)
         | (None, s) \<Rightarrow> (None, if db_ok en Prepare ''UpdateDeploymentImageTag''
             then s\<lparr>dr_rows := set_image_tag i (dr_image s) (dr_rows s)\<rparr> else s))"

section \<open>Teardown and the new container\<close>

definition drop_container :: "'r runtime_iface \<Rightarrow> bool \<Rightarrow> string \<Rightarrow> ('r, 'p) deploy_run \<Rightarrow> ('r, 'p) deploy_run" where
  "drop_container rt live n s = snd (on_runtime live (rt_remove rt n) (snd (on_runtime live (rt_stop rt n) s)))"

definition cleanup_existing :: "'r runtime_iface \<Rightarrow> deploy_env \<Rightarrow> deploy_payload \<Rightarrow> ('r, 'p) deploy_run \<Rightarrow> ('r, 'p) deploy_run" where
  "cleanup_existing rt en p s =
     foldl (\<lambda>s n. drop_container rt (de_live en Teardown) n s) s
       [old_container_name (pl_app p), intermediate_container_name (da_project_slug (dr_app s)) (pl_app p), dr_container s]"

definition ensure_networks :: "'r runtime_iface \<Rightarrow> deploy_env \<Rightarrow> ('r, 'p) deploy_run \<Rightarrow> ('r, 'p) deploy_run" where
  "ensure_networks rt en s =
     (let net = project_network_name (da_project_slug (dr_app s));
          attach = (\<lambda>n s. if n = '''' then s else snd (on_runtime (de_live en Networks) (rt_connect rt n net) s))
      in attach (de_api_name en) (attach (de_proxy_name en) (snd (on_runtime (de_live en Networks) (rt_network rt net) s))))"

fun create_volumes :: "'r runtime_iface \<Rightarrow> bool \<Rightarrow> string \<Rightarrow> (string \<times> string) list \<Rightarrow> (string \<rightharpoonup> string) \<Rightarrow>
    ('r, 'p) deploy_run \<Rightarrow> (string + (string \<rightharpoonup> string)) \<times> ('r, 'p) deploy_run" where
  "create_volumes rt live app [] m s = (Inr m, s)"
| "create_volumes rt live app ((v, path) # vs) m s =
     (case on_runtime live (rt_volume rt (app_volume_name app v)) s of
        (False, s) \<Rightarrow> (Inl (app_volume_name app v), s)
      | (True, s) \<Rightarrow> create_volumes rt live app vs (m(app_volume_name app v \<mapsto> path)) s)"

fun write_mounts :: "deploy_env \<Rightarrow> string \<Rightarrow> file_mount list \<Rightarrow> (string \<times> string) list \<Rightarrow> ('r, 'p) deploy_run \<Rightarrow>
    (string + (string \<times> string) list) \<times> ('r, 'p) deploy_run" where
  "write_mounts en dir [] binds s = (Inr binds, s)"
| "write_mounts en dir (f # fs) binds s =
     (case de_dec en (fm_content f) of
        None \<Rightarrow> (Inl (''decrypt file mount '' @ fm_path f @ '': '' @ de_cause en ''Decrypt''), s)
      | Some content \<Rightarrow>
          if \<not> de_ok en Create ''WriteFile'' then (Inl (''write file mount '' @ fm_path f @ '': '' @ de_cause en ''WriteFile''), s)
          else write_mounts en dir fs (binds @ [(dir @ ''/'' @ fm_id f, fm_path f)])
                 (s\<lparr>dr_files := dr_files s @ [(dir @ ''/'' @ fm_id f, content, parse_file_mode (fm_mode f))]\<rparr>))"

definition write_file_mounts :: "deploy_env \<Rightarrow> deploy_payload \<Rightarrow> ('r, 'p) deploy_run \<Rightarrow>
    (string + (string \<times> string) list) \<times> ('r, 'p) deploy_run" where
  "write_file_mounts en p s =
     (if \<not> db_ok en Create ''ListApplicationFileMounts''
      then (Inl (''load file mounts: '' @ de_cause en ''ListApplicationFileMounts''), s)
      else if \<not> de_ok en Create ''RemoveAll'' then (Inl (''clear file mounts dir: '' @ de_cause en ''RemoveAll''), s)
      else let s = s\<lparr>dr_files := []\<rparr>
        in if de_mounts en = [] then (Inr [], s)
           else if \<not> de_ok en Create ''MkdirAll'' then (Inl (''create file mounts dir: '' @ de_cause en ''MkdirAll''), s)
           else write_mounts en (de_mounts_dir en @ ''/'' @ pl_app p) (de_mounts en) [] s)"

definition config_of_run :: "deploy_env \<Rightarrow> deploy_payload \<Rightarrow> (string \<rightharpoonup> string) \<Rightarrow> (string \<times> string) list \<Rightarrow> ('r, 'p) deploy_run \<Rightarrow> container_config" where
  "config_of_run en p volumes binds s =
     (let a = dr_app s
      in \<lparr>cc_name = dr_container s, cc_image = dr_image s, cc_env = dr_env s, cc_network = project_network_name (da_project_slug a),
          cc_app = pl_app p, cc_deployment = de_show en (pl_deployment p), cc_volumes = volumes, cc_binds = binds,
          cc_cpu = da_cpu a, cc_memory = da_memory a, cc_health_path = da_health_path a,
          cc_cap_drop = (if da_caps a = ''standard'' then [] else [''ALL'']),
          cc_tmpfs = (if da_readonly a then [''/tmp'', ''/run''] else []), cc_readonly = da_readonly a,
          cc_health = health_runtime_config a\<rparr>)"

definition create_and_start :: "'r runtime_iface \<Rightarrow> deploy_env \<Rightarrow> deploy_payload \<Rightarrow> ('r, 'p) deploy_run \<Rightarrow> string option \<times> ('r, 'p) deploy_run" where
  "create_and_start rt en p s =
     (if \<not> db_ok en Create ''ListApplicationVolumes''
      then (Some (''load volumes: '' @ de_cause en ''ListApplicationVolumes''), s)
      else case create_volumes rt (de_live en Create) (pl_app p) (de_volumes en) Map.empty s of
        (Inl v, s) \<Rightarrow> (Some (''ensure volume '' @ v @ '': '' @ de_cause en ''CreateDataVolume''), s)
      | (Inr volumes, s) \<Rightarrow>
          (case write_file_mounts en p s of
             (Inl e, s) \<Rightarrow> (Some (''write file mounts: '' @ e), s)
           | (Inr binds, s) \<Rightarrow>
               (case (if de_live en Create then rt_create rt (config_of_run en p volumes binds s) (dr_runtime s) else (None, dr_runtime s)) of
                  (None, r) \<Rightarrow> (Some (''create container: '' @ de_cause en ''CreateContainer''), s\<lparr>dr_runtime := r\<rparr>)
                | (Some c, r) \<Rightarrow>
                    (case on_runtime (de_live en Create) (rt_start rt c) (s\<lparr>dr_runtime := r\<rparr>) of
                       (False, s) \<Rightarrow> (Some (''start container: '' @ de_cause en ''StartContainer''), snd (on_runtime True (rt_remove rt c) s))
                     | (True, s) \<Rightarrow> (None, s\<lparr>dr_container_id := c, dr_compensators := dr_compensators s @ [DropContainer c]\<rparr>)))))"

section \<open>Routes, health and the end\<close>

fun wire_domains :: "'p proxy_iface \<Rightarrow> deploy_env \<Rightarrow> domain_row list \<Rightarrow> ('r, 'p) deploy_run \<Rightarrow> string option \<times> ('r, 'p) deploy_run" where
  "wire_domains px en [] s = (None, s)"
| "wire_domains px en (d # ds) s =
     (case (if de_live en Wire
            then build_route_config_from_db (de_proxy_db en) (de_dec en) d (dr_container s) (da_health_path (dr_app s))
            else Inl FeaturesUnread) of
        Inl e \<Rightarrow> (Some (''build route config for '' @ dm_host d @ '': '' @ de_cause en ''BuildRouteConfigFromDB''), s)
      | Inr cfg \<Rightarrow>
          (case pm_add px cfg (dr_proxy s) of
             (Some e, p) \<Rightarrow> (Some (''add route for '' @ dm_host d @ '': '' @ de_cause en ''AddRoute''), s\<lparr>dr_proxy := p\<rparr>)
           | (None, p) \<Rightarrow> wire_domains px en ds
               (s\<lparr>dr_proxy := p, dr_compensators := dr_compensators s @ [DropRoute (dm_host d) (dm_path d)]\<rparr>)))"

definition listed_domains :: "deploy_env \<Rightarrow> stage \<Rightarrow> uuid \<Rightarrow> domain_row list" where
  "listed_domains en st a = (if db_ok en st ''ListDomainsByApplication'' then case pd_domains (de_proxy_db en) a of None \<Rightarrow> [] | Some ds \<Rightarrow> ds else [])"

definition wire_proxy :: "'p proxy_iface \<Rightarrow> deploy_env \<Rightarrow> uuid \<Rightarrow> ('r, 'p) deploy_run \<Rightarrow> string option \<times> ('r, 'p) deploy_run" where
  "wire_proxy px en a s =
     (let s = (if dr_domains s = [] then s\<lparr>dr_domains := listed_domains en Wire a\<rparr> else s) in wire_domains px en (dr_domains s) s)"

definition record_health :: "deploy_env \<Rightarrow> uuid \<Rightarrow> string \<Rightarrow> string \<Rightarrow> ('r, 'p) deploy_run \<Rightarrow> ('r, 'p) deploy_run" where
  "record_health en i st msg s =
     (if db_ok en Verify ''UpdateDeploymentHealth'' then s\<lparr>dr_rows := set_health i st msg (dr_rows s)\<rparr> else s)"

definition settle_health :: "deploy_env \<Rightarrow> uuid \<Rightarrow> string option \<Rightarrow> ('r, 'p) deploy_run \<Rightarrow> string option \<times> ('r, 'p) deploy_run" where
  "settle_health en i verdict s =
     (case verdict of
        None \<Rightarrow> (None, record_health en i ''passing'' '''' s)
      | Some e \<Rightarrow> (Some e, record_health en i ''failing'' e s))"

definition health_url :: "deploy_app \<Rightarrow> string \<Rightarrow> domain_row list \<Rightarrow> string" where
  "health_url a container ds = ''http://'' @ container @ '':'' @ show_int (resolve_container_port a ds) @ da_health_path a"

definition verify_health :: "deploy_env \<Rightarrow> uuid \<Rightarrow> uuid \<Rightarrow> ('r, 'p) deploy_run \<Rightarrow> string option \<times> ('r, 'p) deploy_run" where
  "verify_health en i a s =
     (let app = dr_app s
      in if da_health_type app = ''command''
         then case poll_command (de_now en + command_budget (health_runtime_config app)) (de_command_polls en) of
           Some e \<Rightarrow> if e = ''context canceled'' then (Some e, s) else settle_health en i (Some e) s
         | None \<Rightarrow> settle_health en i None s
         else if da_health_type app = ''none'' \<or> da_health_path app = ''''
         then (None, record_health en i ''skipped'' ''no health check configured'' s)
         else let ds = (if dr_domains s = [] then listed_domains en Verify a else dr_domains s);
                timeout = positive_or health_verify_timeout (da_health_timeout app);
                expect = (case da_health_expect app of Some e \<Rightarrow> e | None \<Rightarrow> 0);
                late = ''health check at '' @ health_url app (dr_container s) ds @ '' did not return '' @
                  (if expect = 0 then ''2xx'' else show_int expect) @ '' within '' @ de_duration en timeout
           in settle_health en i (poll_http late (de_now en + timeout) expect (de_http_polls en)) s)"

definition finalize_queries :: "bool \<Rightarrow> string list" where
  "finalize_queries skipped_build =
     [''Begin'', ''UpdateDeploymentStatus'', ''UpdateApplicationStatus'', ''TouchApplicationActivity'', ''TouchApplicationDeployed'',
      ''ClearApplicationConfigChanged''] @ (if skipped_build then [] else [''ClearApplicationSourceChanged'']) @ [''Commit'']"

text \<open>One transaction: a statement that fails aborts it, so nothing of it stays.\<close>

definition finalize :: "deploy_env \<Rightarrow> deploy_payload \<Rightarrow> uuid \<Rightarrow> ('r, 'p) deploy_run \<Rightarrow> string option \<times> ('r, 'p) deploy_run" where
  "finalize en p a s =
     (let i = pl_deployment p; skipped = pl_rollback p \<noteq> ''''
      in if \<not> valid_transition dep_deploying dep_success then (None, s)
         else if \<not> list_all (db_ok en Finalize) (finalize_queries skipped) then (Some (de_cause en ''Commit''), s)
         else let rows = set_deployment_status i dep_success '''' (de_now en) (dr_rows s);
                apps = clear_config_changed a (get_deployment i rows) (set_deployed a (de_now en) (set_app_status a ''running'' (dr_apps s)))
           in (None, s\<lparr>dr_rows := rows,
                 dr_apps := (if skipped then apps else clear_source_changed a (get_deployment i rows) apps)\<rparr>))"

definition run_compensator :: "'r runtime_iface \<Rightarrow> 'p proxy_iface \<Rightarrow> compensator \<Rightarrow> ('r, 'p) deploy_run \<Rightarrow> ('r, 'p) deploy_run" where
  "run_compensator rt px c s =
     (case c of DropContainer n \<Rightarrow> drop_container rt True n s
      | DropRoute host path \<Rightarrow> s\<lparr>dr_proxy := snd (pm_remove px host path (dr_proxy s))\<rparr>)"

definition run_compensators :: "'r runtime_iface \<Rightarrow> 'p proxy_iface \<Rightarrow> ('r, 'p) deploy_run \<Rightarrow> ('r, 'p) deploy_run" where
  "run_compensators rt px s = foldl (\<lambda>s c. run_compensator rt px c s) s (rev (dr_compensators s))"

definition deploy_failure_errors_app :: "('r, 'p) deploy_run \<Rightarrow> bool" where
  "deploy_failure_errors_app s \<longleftrightarrow> \<not> dr_build_only s \<and>
     (dr_cleaned s \<or> da_status (dr_app s) \<notin> {''running'', ''unhealthy''})"

definition fail_deployment :: "deploy_env \<Rightarrow> uuid \<Rightarrow> uuid \<Rightarrow> string \<Rightarrow> ('r, 'p) deploy_run \<Rightarrow> ('r, 'p) deploy_run" where
  "fail_deployment en i a msg s =
     (if de_retried en < de_max_retry en then s
      else let s = set_row_status en Settle i dep_failed (de_redact en msg) s
        in if deploy_failure_errors_app s \<and> db_ok en Settle ''UpdateApplicationStatus''
           then s\<lparr>dr_apps := set_app_status a ''error'' (dr_apps s)\<rparr> else s)"

section \<open>The tasks\<close>

datatype task_result = TaskDone | TaskFailed string | TaskRefused string

definition rolled_back :: "'r runtime_iface \<Rightarrow> 'p proxy_iface \<Rightarrow> deploy_env \<Rightarrow> uuid \<Rightarrow> uuid \<Rightarrow> string \<Rightarrow> ('r, 'p) deploy_run \<Rightarrow>
    task_result \<times> ('r, 'p) deploy_run" where
  "rolled_back rt px en i a msg s = (TaskFailed msg, fail_deployment en i a msg (run_compensators rt px s))"

text \<open>From the teardown on.\<close>

definition replace_container :: "'r runtime_iface \<Rightarrow> 'p proxy_iface \<Rightarrow> deploy_env \<Rightarrow> deploy_payload \<Rightarrow> uuid \<Rightarrow> ('r, 'p) deploy_run \<Rightarrow>
    task_result \<times> ('r, 'p) deploy_run" where
  "replace_container rt px en p a s =
     (let i = pl_deployment p; s = ensure_networks rt en ((cleanup_existing rt en p s)\<lparr>dr_cleaned := True\<rparr>)
      in case create_and_start rt en p s of
        (Some e, s) \<Rightarrow> rolled_back rt px en i a (''create container: '' @ e) s
      | (None, s) \<Rightarrow> (case wire_proxy px en a s of
          (Some e, s) \<Rightarrow> rolled_back rt px en i a (''wire proxy: '' @ e) s
        | (None, s) \<Rightarrow> (case verify_health en i a s of
            (Some e, s) \<Rightarrow> rolled_back rt px en i a (''health check failed: '' @ e) s
          | (None, s) \<Rightarrow> (TaskDone, snd (finalize en p a s)))))"

definition blank_run :: "('r, 'p) deploy_run \<Rightarrow> deploy_app \<Rightarrow> bool \<Rightarrow> ('r, 'p) deploy_run" where
  "blank_run s zero build_only = s\<lparr>dr_app := zero, dr_container := '''', dr_container_id := '''', dr_env := Map.empty, dr_image := '''',
     dr_commit := '''', dr_domains := [], dr_cleaned := False, dr_build_only := build_only, dr_compensators := []\<rparr>"

definition zero_app :: deploy_app where
  "zero_app = \<lparr>da_id = 0, da_project = 0, da_project_slug = '''', da_slug = '''', da_type = '''', da_status = '''', da_repo = '''',
     da_image = '''', da_branch = '''', da_root = '''', da_build_type = '''', da_integration = False, da_credentials = None,
     da_health_type = '''', da_health_path = '''', da_health_command = '''', da_health_interval = None, da_health_timeout = None,
     da_health_retries = None, da_health_start = None, da_health_expect = None, da_cpu = 0, da_memory = 0, da_readonly = False, da_caps = '''', da_port = None,
     da_config_changed = None, da_source_changed = None, da_deployed = None\<rparr>"

definition handle_deploy_task :: "'r runtime_iface \<Rightarrow> 'p proxy_iface \<Rightarrow> deploy_env \<Rightarrow> deploy_payload \<Rightarrow> ('r, 'p) deploy_run \<Rightarrow>
    task_result \<times> ('r, 'p) deploy_run" where
  "handle_deploy_task rt px en p s =
     (case de_scan en (pl_app p) of
        None \<Rightarrow> (TaskRefused ''invalid application_id (permanent)'', s)
      | Some a \<Rightarrow>
          (let i = pl_deployment p
           in case (if db_ok en Begin ''GetDeployment'' then get_deployment i (dr_rows s) else None) of
             None \<Rightarrow> (TaskRefused ''fetch deployment (permanent)'', s)
           | Some d \<Rightarrow>
               if dy_status d = dep_success \<or> dy_status d = dep_failed then (TaskDone, s)
               else (case load_application en p a (blank_run s zero_app False) of
                 (Some e, s) \<Rightarrow> (TaskRefused e, fail_deployment en i a (''load application: '' @ e) s)
               | (None, s) \<Rightarrow> (case check_deploy_quota en s of
                   Some e \<Rightarrow> (TaskRefused e, fail_deployment en i a (''quota check: '' @ e) s)
                 | None \<Rightarrow> (case prepare_image rt en p s of
                     (Some e, s) \<Rightarrow> (TaskFailed e, fail_deployment en i a e s)
                   | (None, s) \<Rightarrow> replace_container rt px en p a s)))))"

text \<open>The standalone build: the branch is the repository's default and the credentials are the application's own.\<close>

definition handle_build_task :: "deploy_env \<Rightarrow> deploy_payload \<Rightarrow> ('r, 'p) deploy_run \<Rightarrow> task_result \<times> ('r, 'p) deploy_run" where
  "handle_build_task en p s =
     (case de_scan en (pl_app p) of
        None \<Rightarrow> (TaskRefused ''invalid application_id (permanent)'', s)
      | Some a \<Rightarrow>
          (let i = pl_deployment p; s = set_row_status en Prepare i dep_building '''' (blank_run s zero_app True)
           in case (if db_ok en Load ''GetApplicationWithProjectSlug'' then find (\<lambda>r. da_id r = a) (dr_apps s) else None) of
             None \<Rightarrow> (TaskRefused ''get application (permanent)'',
                       fail_deployment en i a (''fetch application: '' @ de_cause en ''GetApplicationWithProjectSlug'') s)
           | Some app \<Rightarrow>
               let s = s\<lparr>dr_app := app\<rparr>
               in if da_type app = ''image'' then (TaskDone, set_row_status en Finalize i dep_success '''' s)
               else if \<not> de_ok en Prepare ''MkdirTemp''
               then (TaskFailed ''create temp dir'', fail_deployment en i a (''create temp dir: '' @ de_cause en ''MkdirTemp'') s)
               else case (if de_live en Prepare
                    then de_clone en (case da_credentials app of
                        Some c \<Rightarrow> (case de_dec en c of Some token \<Rightarrow> build_clone_url ''generic'' token '''' (da_repo app) | None \<Rightarrow> da_repo app)
                      | None \<Rightarrow> da_repo app) (AtBranch '''')
                    else Inl ''context deadline exceeded'') of
                 Inl e \<Rightarrow> (TaskFailed e, fail_deployment en i a (''git clone: '' @ e) s)
               | Inr commit \<Rightarrow>
                   (case de_build_dir en (da_root app) of
                      Some e \<Rightarrow> (TaskFailed e, fail_deployment en i a e s)
                    | None \<Rightarrow>
                        let vars = put_env (de_dec en) (if db_ok en Prepare ''ListEnvVarsByApplication'' then de_app_env en else []) Map.empty
                        in case (if de_live en Prepare then de_build en '''' (image_tag (da_slug app) (de_show en i)) vars
                                 else Inl ''context deadline exceeded'') of
                          Inl e \<Rightarrow> (TaskFailed e, fail_deployment en i a (''build: '' @ e) s)
                        | Inr built \<Rightarrow> (TaskDone, set_row_status en Finalize i dep_success '''' s))))"

section \<open>What Docker keeps\<close>

record container =
  ct_id :: string
  ct_config :: container_config
  ct_running :: bool

type_synonym containers = "string \<rightharpoonup> container"

definition without :: "string \<Rightarrow> containers \<Rightarrow> containers" where
  "without n m = (\<lambda>k. case m k of Some c \<Rightarrow> if k = n \<or> ct_id c = n then None else Some c | None \<Rightarrow> None)"

definition switched :: "string \<Rightarrow> bool \<Rightarrow> containers \<Rightarrow> containers" where
  "switched n b m = (\<lambda>k. map_option (\<lambda>c. if k = n \<or> ct_id c = n then c\<lparr>ct_running := b\<rparr> else c) (m k))"

text \<open>
  The containers of a host by name. A stop or a removal takes effect on the container of the name or id or
  leaves everything as it was: the worker ignores its error and goes on. A creation refuses a taken name
  and gives a fresh id, a start runs what was created or fails, and images, networks and volumes do not
  touch containers. That a removal does take effect is a hypothesis of its own.
\<close>

definition docker_ok :: "'r runtime_iface \<Rightarrow> ('r \<Rightarrow> containers) \<Rightarrow> bool" where
  "docker_ok rt conts \<longleftrightarrow>
     (\<forall>n r. conts (snd (rt_stop rt n r)) = switched n False (conts r) \<or> conts (snd (rt_stop rt n r)) = conts r) \<and>
     (\<forall>n r. conts (snd (rt_remove rt n r)) = without n (conts r) \<or> conts (snd (rt_remove rt n r)) = conts r) \<and>
     (\<forall>cfg r. case rt_create rt cfg r of
        (None, r') \<Rightarrow> conts r' = conts r
      | (Some i, r') \<Rightarrow> conts r (cc_name cfg) = None \<and>
          conts r' = (conts r)(cc_name cfg \<mapsto> \<lparr>ct_id = i, ct_config = cfg, ct_running = False\<rparr>)) \<and>
     (\<forall>i r. conts (snd (rt_start rt i r)) = (if fst (rt_start rt i r) then switched i True (conts r) else conts r)) \<and>
     (\<forall>n r. conts (snd (rt_pull rt n r)) = conts r) \<and> (\<forall>n r. conts (snd (rt_network rt n r)) = conts r) \<and>
     (\<forall>n m r. conts (snd (rt_connect rt n m r)) = conts r) \<and> (\<forall>n r. conts (snd (rt_volume rt n r)) = conts r)"

definition removals_take_effect :: "'r runtime_iface \<Rightarrow> ('r \<Rightarrow> containers) \<Rightarrow> bool" where
  "removals_take_effect rt conts \<longleftrightarrow> (\<forall>n r. conts (snd (rt_remove rt n r)) = without n (conts r))"

lemma docker_laws:
  assumes "docker_ok rt conts"
  shows "conts (snd (rt_stop rt n r)) = switched n False (conts r) \<or> conts (snd (rt_stop rt n r)) = conts r"
    "conts (snd (rt_remove rt n r)) = without n (conts r) \<or> conts (snd (rt_remove rt n r)) = conts r"
    "rt_create rt cfg r = (None, r') \<Longrightarrow> conts r' = conts r"
    "rt_create rt cfg r = (Some i, r') \<Longrightarrow> conts r (cc_name cfg) = None"
    "rt_create rt cfg r = (Some i, r') \<Longrightarrow> conts r' = (conts r)(cc_name cfg \<mapsto> \<lparr>ct_id = i, ct_config = cfg, ct_running = False\<rparr>)"
    "conts (snd (rt_start rt i r)) = (if fst (rt_start rt i r) then switched i True (conts r) else conts r)"
    "conts (snd (rt_pull rt n r)) = conts r" "conts (snd (rt_network rt n r)) = conts r"
    "conts (snd (rt_connect rt n m r)) = conts r" "conts (snd (rt_volume rt n r)) = conts r"
proof -
  have "case rt_create rt cfg r of (None, r') \<Rightarrow> conts r' = conts r
      | (Some i, r') \<Rightarrow> conts r (cc_name cfg) = None \<and>
          conts r' = (conts r)(cc_name cfg \<mapsto> \<lparr>ct_id = i, ct_config = cfg, ct_running = False\<rparr>)"
    using assms unfolding docker_ok_def by (elim conjE allE)
  then show "rt_create rt cfg r = (None, r') \<Longrightarrow> conts r' = conts r"
    "rt_create rt cfg r = (Some i, r') \<Longrightarrow> conts r (cc_name cfg) = None"
    "rt_create rt cfg r = (Some i, r') \<Longrightarrow> conts r' = (conts r)(cc_name cfg \<mapsto> \<lparr>ct_id = i, ct_config = cfg, ct_running = False\<rparr>)"
    by simp_all
qed (use assms in \<open>simp_all add: docker_ok_def\<close>)

lemma without_None [simp]: "m k = None \<Longrightarrow> without n m k = None" "without n m n = None"
  by (simp_all add: without_def split: option.splits)

lemma switched_None [simp]: "switched n b m k = None \<longleftrightarrow> m k = None"
  by (simp add: switched_def)

lemma stop_keeps_names:
  assumes "docker_ok rt conts"
  shows "conts (snd (rt_stop rt n r)) k = None \<longleftrightarrow> conts r k = None"
    and "map_option ct_id (conts (snd (rt_stop rt n r)) k) = map_option ct_id (conts r k)"
  using docker_laws(1) [OF assms, of n r] by (cases "conts r k"; auto simp: switched_def)+

lemma remove_adds_nothing: "docker_ok rt conts \<Longrightarrow> conts r k = None \<Longrightarrow> conts (snd (rt_remove rt n r)) k = None"
  using docker_laws(2) [of rt conts n r] by auto

lemma removed:
  assumes "removals_take_effect rt conts"
  shows "conts (snd (rt_remove rt n r)) = without n (conts r)"
  using assms by (simp add: removals_take_effect_def)

section \<open>What a run keeps\<close>

definition active :: "deployment_row \<Rightarrow> bool" where
  "active r \<longleftrightarrow> dy_status r \<in> {dep_pending, dep_building, dep_deploying}"

definition row_tagged :: "uuid \<Rightarrow> deployment_row \<Rightarrow> deployment_row \<Rightarrow> bool" where
  "row_tagged i r r' \<longleftrightarrow> dy_id r' = dy_id r \<and> dy_app r' = dy_app r \<and> dy_started r' = dy_started r \<and> dy_key r' = dy_key r \<and>
     (dy_id r \<noteq> i \<longrightarrow> r' = r) \<and> (active r \<longrightarrow> active r')"

definition row_kept :: "uuid \<Rightarrow> deployment_row \<Rightarrow> deployment_row \<Rightarrow> bool" where
  "row_kept i r r' \<longleftrightarrow> row_tagged i r r' \<and> dy_image r' = dy_image r"

text \<open>A step of the work leaves the application table and the run's plan, and keeps its deployment active.\<close>

definition work_step :: "uuid \<Rightarrow> ('r, 'p) deploy_run \<Rightarrow> ('r, 'p) deploy_run \<Rightarrow> bool" where
  "work_step i s s' \<longleftrightarrow> list_all2 (row_kept i) (dr_rows s) (dr_rows s') \<and> dr_apps s' = dr_apps s \<and> dr_app s' = dr_app s \<and>
     dr_container s' = dr_container s \<and> dr_cleaned s' = dr_cleaned s \<and> dr_build_only s' = dr_build_only s"

definition quiet_step :: "('r \<Rightarrow> containers) \<Rightarrow> uuid \<Rightarrow> ('r, 'p) deploy_run \<Rightarrow> ('r, 'p) deploy_run \<Rightarrow> bool" where
  "quiet_step conts i s s' \<longleftrightarrow> work_step i s s' \<and> conts (dr_runtime s') = conts (dr_runtime s) \<and> dr_proxy s' = dr_proxy s \<and>
     dr_compensators s' = dr_compensators s"

lemma row_kept_refl [simp]: "row_kept i r r" "row_tagged i r r"
  by (simp_all add: row_kept_def row_tagged_def)

lemma row_tagged_trans: "row_tagged i r r' \<Longrightarrow> row_tagged i r' r'' \<Longrightarrow> row_tagged i r r''"
  unfolding row_tagged_def by metis

lemma tagged_trans:
  "list_all2 (row_tagged i) xs ys \<Longrightarrow> list_all2 (row_tagged i) ys zs \<Longrightarrow> list_all2 (row_tagged i) xs zs"
  by (rule list_all2_trans [of "row_tagged i" "row_tagged i" "row_tagged i"]) (rule row_tagged_trans)

lemma row_kept_trans: "row_kept i r r' \<Longrightarrow> row_kept i r' r'' \<Longrightarrow> row_kept i r r''"
  unfolding row_kept_def using row_tagged_trans by metis

lemma row_kept_tagged: "list_all2 (row_kept i) rows rows' \<Longrightarrow> list_all2 (row_tagged i) rows rows'"
  by (erule list_all2_mono) (simp add: row_kept_def)

lemma work_step_refl [simp]: "work_step i s s"
  by (simp add: work_step_def list_all2_refl)

lemma work_step_trans [trans]: "work_step i s s' \<Longrightarrow> work_step i s' s'' \<Longrightarrow> work_step i s s''"
  unfolding work_step_def using list_all2_trans [of "row_kept i" "row_kept i" "row_kept i"] row_kept_trans by metis

lemma quiet_step_refl [simp]: "quiet_step conts i s s"
  by (simp add: quiet_step_def)

lemma quiet_step_trans [trans]: "quiet_step conts i s s' \<Longrightarrow> quiet_step conts i s' s'' \<Longrightarrow> quiet_step conts i s s''"
  unfolding quiet_step_def using work_step_trans by metis

lemma alter_kept:
  "(\<And>r. row_kept (dy_id r) r (f r)) \<Longrightarrow> list_all2 (row_kept i) rows (alter_deployment i f rows)"
  by (induction rows) (auto simp: alter_deployment_def)

lemma active_statuses [simp]: "active (r\<lparr>dy_status := dep_building\<rparr>)" "active (r\<lparr>dy_status := dep_deploying\<rparr>)"
  by (simp_all add: active_def)

lemma status_kept:
  "to \<in> {dep_building, dep_deploying} \<Longrightarrow> row_kept (dy_id r) r (r\<lparr>dy_status := to, dy_error := e, dy_finished := t\<rparr>)"
  by (auto simp: row_kept_def row_tagged_def active_def)

lemma set_row_status_kept: "to \<in> {dep_building, dep_deploying} \<Longrightarrow> quiet_step conts i s (set_row_status en st i to err s)"
  unfolding quiet_step_def work_step_def set_row_status_def set_deployment_status_def
  by (auto intro!: alter_kept status_kept simp: list_all2_refl)

lemma stamp_kept:
  "(\<And>i t rows. list_all2 (row_kept i) rows (f i t rows)) \<Longrightarrow> quiet_step conts i s (stamp en st q f i s)"
  unfolding quiet_step_def work_step_def stamp_def by (simp add: list_all2_refl)

lemma stamps [simp]:
  "list_all2 (row_kept i) rows (set_build_started i t rows)" "list_all2 (row_kept i) rows (set_build_ended i t rows)"
  "list_all2 (row_kept i) rows (set_deploy_started i t rows)"
  "list_all2 (row_kept i) rows (set_commit_sha i sha rows)" "list_all2 (row_kept i) rows (set_health i h msg rows)"
  by (auto simp: set_build_started_def set_build_ended_def set_deploy_started_def set_commit_sha_def set_health_def
      row_kept_def row_tagged_def active_def intro!: alter_kept)

lemma image_tag_tagged [simp]: "list_all2 (row_tagged i) rows (set_image_tag i tag rows)"
  by (induction rows) (auto simp: set_image_tag_def alter_deployment_def row_tagged_def active_def)

lemma update_status_kept: "to \<in> {dep_building, dep_deploying} \<Longrightarrow> quiet_step conts i s (update_deployment_status en st i from to s)"
proof -
  assume to: "to \<in> {dep_building, dep_deploying}"
  have a: "quiet_step conts i s (set_row_status en st i x '''' s)" if "x \<in> {dep_building, dep_deploying}" for x
    by (rule set_row_status_kept [OF that])
  have b: "quiet_step conts i x (stamp en st ''SetDeploymentBuildStarted'' set_build_started i x)"
    "quiet_step conts i x (stamp en st ''SetDeploymentBuildEnded'' set_build_ended i x)"
    "quiet_step conts i x (stamp en st ''SetDeploymentDeployStarted'' set_deploy_started i x)" for x
    by (simp_all add: stamp_kept)
  show ?thesis
    unfolding update_deployment_status_def Let_def using to
    by (auto intro!: quiet_step_trans [OF a b(1)] quiet_step_trans [OF a b(3)] quiet_step_trans [OF quiet_step_trans [OF a b(2)] b(3)])
qed

lemma on_runtime_quiet:
  "(\<And>r. conts (snd (op r)) = conts r) \<Longrightarrow> quiet_step conts i s (snd (on_runtime live op s))"
proof -
  assume "\<And>r. conts (snd (op r)) = conts r"
  then have "conts (snd (op (dr_runtime s))) = conts (dr_runtime s)" .
  then show ?thesis by (auto simp: on_runtime_def quiet_step_def work_step_def list_all2_refl split: prod.split)
qed

lemma on_runtime_work [simp]: "work_step i s (snd (on_runtime live op s))"
  by (simp add: on_runtime_def work_step_def list_all2_refl split: prod.split)

lemma on_runtime_keeps [simp]:
  "dr_proxy (snd (on_runtime live op s)) = dr_proxy s" "dr_compensators (snd (on_runtime live op s)) = dr_compensators s"
  "dr_image (snd (on_runtime live op s)) = dr_image s" "dr_container (snd (on_runtime live op s)) = dr_container s"
  "dr_app (snd (on_runtime live op s)) = dr_app s" "dr_env (snd (on_runtime live op s)) = dr_env s"
  "dr_domains (snd (on_runtime live op s)) = dr_domains s"
  "dr_runtime (snd (on_runtime live op s)) = (if live then snd (op (dr_runtime s)) else dr_runtime s)"
  by (simp_all add: on_runtime_def split: prod.split)

text \<open>Changes of the image and the commit.\<close>

lemma quiet_fields [simp]:
  "quiet_step conts i s (s\<lparr>dr_image := x\<rparr>)" "quiet_step conts i s (s\<lparr>dr_commit := x\<rparr>)"
  "list_all2 (row_kept i) (dr_rows s) rows \<Longrightarrow> quiet_step conts i s (s\<lparr>dr_rows := rows\<rparr>)"
  "quiet_step conts i s (s\<lparr>dr_files := fs\<rparr>)" "quiet_step conts i s (s\<lparr>dr_domains := ds\<rparr>)"
  by (simp_all add: quiet_step_def work_step_def list_all2_refl)

lemma pull_image_quiet:
  assumes "docker_ok rt conts"
  shows "quiet_step conts (pl_deployment p) s (snd (pull_image rt en p s))"
proof -
  let ?s = "update_deployment_status en Prepare (pl_deployment p) dep_pending dep_building (s\<lparr>dr_image := da_image (dr_app s)\<rparr>)"
  have 1: "quiet_step conts (pl_deployment p) s ?s"
    by (rule quiet_step_trans [OF quiet_fields(1) update_status_kept]) simp
  have 2: "quiet_step conts (pl_deployment p) ?s (snd (on_runtime (de_live en Prepare) (rt_pull rt (dr_image ?s)) ?s))"
    by (rule on_runtime_quiet) (rule docker_laws(7) [OF assms])
  obtain b s1 where o: "on_runtime (de_live en Prepare) (rt_pull rt (dr_image ?s)) ?s = (b, s1)" by fastforce
  have 3: "quiet_step conts (pl_deployment p) s s1" using quiet_step_trans [OF 1 2] by (simp add: o)
  show ?thesis
    using 3 quiet_step_trans [OF 3 quiet_fields(1)]
    by (auto simp: pull_image_def Let_def o split: bool.splits option.splits)
qed

lemma build_from_git_quiet: "quiet_step conts (pl_deployment p) s (snd (build_from_git en p s))"
proof -
  let ?i = "pl_deployment p" and ?s0 = "s\<lparr>dr_image := image_tag (da_slug (dr_app s)) (de_show en (pl_deployment p))\<rparr>"
  have 0: "quiet_step conts ?i s ?s0" by simp
  have 1: "quiet_step conts ?i s (?s0\<lparr>dr_commit := c\<rparr>)" for c by (rule quiet_step_trans [OF 0]) simp
  have 2: "quiet_step conts ?i s (record_commit en ?i c (?s0\<lparr>dr_commit := c\<rparr>))" for c
    using 1 [of c] quiet_step_trans [OF 1 quiet_fields(3), of c] by (simp add: record_commit_def)
  have 3: "quiet_step conts ?i s (update_deployment_status en Prepare ?i dep_pending dep_building (record_commit en ?i c (?s0\<lparr>dr_commit := c\<rparr>)))" for c
    by (rule quiet_step_trans [OF 2 update_status_kept]) simp
  have 4: "quiet_step conts ?i s (update_deployment_status en Prepare ?i dep_building dep_deploying
      ((update_deployment_status en Prepare ?i dep_pending dep_building (record_commit en ?i c (?s0\<lparr>dr_commit := c\<rparr>)))\<lparr>dr_image := b\<rparr>))" for c b
    by (rule quiet_step_trans [OF quiet_step_trans [OF 3 quiet_fields(1)] update_status_kept]) simp
  show ?thesis
    using 0 1 3 4 unfolding build_from_git_def Let_def by (simp split: sum.splits option.splits)
qed

lemma update_status_image [simp]: "dr_image (update_deployment_status en st i from to s) = dr_image s"
proof -
  have "dr_image (set_row_status en st i to e s) = dr_image s" "dr_image (stamp en st q f i s) = dr_image s"
    for to e q f and s :: "('a, 'b) deploy_run"
    by (simp_all add: set_row_status_def stamp_def)
  then show ?thesis by (simp add: update_deployment_status_def Let_def)
qed

lemma update_status_keeps [simp]:
  "dr_app (update_deployment_status en st i from to s) = dr_app s" "dr_env (update_deployment_status en st i from to s) = dr_env s"
  "dr_runtime (update_deployment_status en st i from to s) = dr_runtime s"
proof -
  have "dr_app (set_row_status en st i to e s) = dr_app s" "dr_app (stamp en st q f i s) = dr_app s"
    "dr_env (set_row_status en st i to e s) = dr_env s" "dr_env (stamp en st q f i s) = dr_env s"
    "dr_runtime (set_row_status en st i to e s) = dr_runtime s" "dr_runtime (stamp en st q f i s) = dr_runtime s"
    for to e q f and s :: "('a, 'b) deploy_run"
    by (simp_all add: set_row_status_def stamp_def)
  then show "dr_app (update_deployment_status en st i from to s) = dr_app s" "dr_env (update_deployment_status en st i from to s) = dr_env s"
    "dr_runtime (update_deployment_status en st i from to s) = dr_runtime s"
    by (simp_all add: update_deployment_status_def Let_def)
qed

lemma record_commit_keeps [simp]:
  "dr_app (record_commit en i c s) = dr_app s" "dr_env (record_commit en i c s) = dr_env s" "dr_image (record_commit en i c s) = dr_image s"
  by (simp_all add: record_commit_def)

text \<open>
  The variables of a run, the application's over the project's, and the image a run is to deploy: the one
  a rollback names, what the pull of the application's image left, or what the build of the pinned commit
  or the branch answered under the deployment's tag.
\<close>

definition run_variables :: "deploy_env \<Rightarrow> string \<rightharpoonup> string" where
  "run_variables en = put_env (de_dec en) (if db_ok en Load ''ListEnvVarsByApplication'' then de_app_env en else [])
     (put_env (de_dec en) (if db_ok en Load ''ListProjectEnvVars'' then de_project_env en else []) Map.empty)"

definition image_to_run :: "'r runtime_iface \<Rightarrow> deploy_env \<Rightarrow> deploy_payload \<Rightarrow> deploy_app \<Rightarrow> 'r \<Rightarrow> string \<Rightarrow> bool" where
  "image_to_run rt en p app r img \<longleftrightarrow>
     (if pl_rollback p \<noteq> '''' then img = pl_rollback p
      else if da_type app = ''image''
      then fst (rt_pull rt (da_image app) r) \<and>
        img = (case rt_digest rt (da_image app) (snd (rt_pull rt (da_image app) r)) of
          Some d \<Rightarrow> if d = '''' then da_image app else d | None \<Rightarrow> da_image app)
      else da_type app = ''git'' \<and>
        (\<exists>commit. de_clone en (clone_url en app) (if pl_commit p \<noteq> '''' then AtCommit (pl_commit p) else AtBranch (da_branch app)) = Inr commit) \<and>
        de_build en (da_build_type app) (image_tag (da_slug app) (de_show en (pl_deployment p))) (run_variables en) = Inr img)"

lemma pull_image_made:
  assumes "pull_image rt en p s = (None, s')"
  shows "fst (rt_pull rt (da_image (dr_app s)) (dr_runtime s)) \<and> dr_env s' = dr_env s \<and>
    dr_image s' = (case rt_digest rt (da_image (dr_app s)) (snd (rt_pull rt (da_image (dr_app s)) (dr_runtime s))) of
      Some d \<Rightarrow> if d = '''' then da_image (dr_app s) else d | None \<Rightarrow> da_image (dr_app s))"
  using assms by (auto simp: pull_image_def Let_def on_runtime_def split: prod.splits bool.splits option.splits if_splits)

lemma build_from_git_made:
  assumes "build_from_git en p s = (None, s')"
  shows "dr_env s' = dr_env s \<and>
    (\<exists>commit. de_clone en (clone_url en (dr_app s)) (if pl_commit p \<noteq> '''' then AtCommit (pl_commit p) else AtBranch (da_branch (dr_app s))) = Inr commit) \<and>
    de_build en (da_build_type (dr_app s)) (image_tag (da_slug (dr_app s)) (de_show en (pl_deployment p))) (dr_env s) = Inr (dr_image s')"
  using assms by (auto simp: build_from_git_def Let_def split: sum.splits option.splits if_splits)

lemma prepare_image_made:
  assumes "prepare_image rt en p s = (None, s')" and "dr_env s = run_variables en"
  shows "image_to_run rt en p (dr_app s) (dr_runtime s) (dr_image s')" "dr_env s' = run_variables en"
    "pl_rollback p = '''' \<Longrightarrow> db_ok en Prepare ''UpdateDeploymentImageTag'' \<Longrightarrow>
       \<forall>x \<in> set (dr_rows s'). dy_id x = pl_deployment p \<longrightarrow> dy_image x = dr_image s'"
proof -
  have "image_to_run rt en p (dr_app s) (dr_runtime s) (dr_image s') \<and> dr_env s' = run_variables en \<and>
    (pl_rollback p = '''' \<and> db_ok en Prepare ''UpdateDeploymentImageTag'' \<longrightarrow>
       (\<forall>x \<in> set (dr_rows s'). dy_id x = pl_deployment p \<longrightarrow> dy_image x = dr_image s'))"
  proof (cases "pl_rollback p = ''''")
    case False
    then show ?thesis using assms by (auto simp: prepare_image_def Let_def image_to_run_def)
  next
    case True
    define made where "made = (if da_type (dr_app s) = ''image'' then pull_image rt en p s
      else if da_type (dr_app s) = ''git'' then build_from_git en p s else (Some (''unknown application type '' @ da_type (dr_app s)), s))"
    obtain e s1 where m: "made = (e, s1)" by fastforce
    have e: "e = None" and s': "s' = (if db_ok en Prepare ''UpdateDeploymentImageTag''
        then s1\<lparr>dr_rows := set_image_tag (pl_deployment p) (dr_image s1) (dr_rows s1)\<rparr> else s1)"
      using assms(1) unfolding prepare_image_def Let_def made_def [symmetric] m using True by (cases e; simp)+
    have "image_to_run rt en p (dr_app s) (dr_runtime s) (dr_image s1) \<and> dr_env s1 = dr_env s"
      using m e True pull_image_made [of rt en p s s1] build_from_git_made [of en p s s1] assms(2)
      by (auto simp: made_def image_to_run_def split: if_splits)
    then show ?thesis using assms(2) by (auto simp: s' set_image_tag_def alter_deployment_def)
  qed
  then show "image_to_run rt en p (dr_app s) (dr_runtime s) (dr_image s')" "dr_env s' = run_variables en"
    "pl_rollback p = '''' \<Longrightarrow> db_ok en Prepare ''UpdateDeploymentImageTag'' \<Longrightarrow>
       \<forall>x \<in> set (dr_rows s'). dy_id x = pl_deployment p \<longrightarrow> dy_image x = dr_image s'"
    by blast+
qed

lemma prepare_image_quiet:
  assumes "docker_ok rt conts"
  shows "\<exists>s1. quiet_step conts (pl_deployment p) s s1 \<and> (snd (prepare_image rt en p s) = s1 \<or>
    pl_rollback p = '''' \<and> (\<exists>tag. snd (prepare_image rt en p s) = s1\<lparr>dr_rows := set_image_tag (pl_deployment p) tag (dr_rows s1)\<rparr>))"
proof -
  let ?i = "pl_deployment p"
  have 0: "quiet_step conts ?i s (update_deployment_status en Prepare ?i dep_pending dep_deploying (s\<lparr>dr_image := x\<rparr>))" for x
    by (rule quiet_step_trans [OF quiet_fields(1) update_status_kept]) simp
  define made where "made = (if da_type (dr_app s) = ''image'' then pull_image rt en p s
    else if da_type (dr_app s) = ''git'' then build_from_git en p s else (Some (''unknown application type '' @ da_type (dr_app s)), s))"
  have 1: "quiet_step conts ?i s (snd made)"
    by (simp add: made_def pull_image_quiet [OF assms] build_from_git_quiet)
  obtain e s1 where m: "made = (e, s1)" by fastforce
  have 2: "quiet_step conts ?i s s1" using 1 by (simp add: m)
  show ?thesis
    unfolding prepare_image_def Let_def made_def [symmetric] m
    using 0 2 by (cases e) auto
qed

lemma load_application_work:
  "work_step i s (s\<lparr>dr_rows := dr_rows s\<rparr>)"
  "dr_rows (snd (load_application en p a s)) = dr_rows s" "dr_runtime (snd (load_application en p a s)) = dr_runtime s"
  "dr_proxy (snd (load_application en p a s)) = dr_proxy s" "dr_apps (snd (load_application en p a s)) = dr_apps s"
  "dr_cleaned (snd (load_application en p a s)) = dr_cleaned s" "dr_build_only (snd (load_application en p a s)) = dr_build_only s"
  "dr_compensators (snd (load_application en p a s)) = dr_compensators s"
  by (auto simp: load_application_def Let_def split: option.splits)

lemma load_application_app:
  "db_ok en Load ''GetApplicationWithProjectSlug'' \<Longrightarrow> find (\<lambda>r. da_id r = a) (dr_apps s) = Some app \<Longrightarrow>
     dr_app (snd (load_application en p a s)) = app \<and> dr_container (snd (load_application en p a s)) = da_slug app"
  by (auto simp: load_application_def Let_def container_name_def split: option.splits)

lemma load_application_found:
  "fst (load_application en p a s) = None \<Longrightarrow> \<exists>app. find (\<lambda>r. da_id r = a) (dr_apps s) = Some app \<and>
     dr_app (snd (load_application en p a s)) = app \<and> dr_container (snd (load_application en p a s)) = da_slug app \<and>
     dr_env (snd (load_application en p a s)) = run_variables en"
  by (auto simp: load_application_def Let_def container_name_def run_variables_def split: option.splits if_splits)

section \<open>The teardown\<close>

lemma drop_container_keeps [simp]:
  "dr_proxy (drop_container rt live n s) = dr_proxy s" "dr_container (drop_container rt live n s) = dr_container s"
  "dr_compensators (drop_container rt live n s) = dr_compensators s" "dr_app (drop_container rt live n s) = dr_app s"
  "dr_env (drop_container rt live n s) = dr_env s"
  "dr_image (drop_container rt live n s) = dr_image s" "dr_domains (drop_container rt live n s) = dr_domains s"
  "work_step i s (drop_container rt live n s)"
  by (simp_all add: drop_container_def) (rule work_step_trans [OF on_runtime_work on_runtime_work])

lemma drop_container_gone:
  assumes "docker_ok rt conts"
  shows "conts (dr_runtime s) k = None \<Longrightarrow> conts (dr_runtime (drop_container rt live n s)) k = None"
    and "removals_take_effect rt conts \<Longrightarrow> live \<Longrightarrow> conts (dr_runtime (drop_container rt live n s)) n = None"
    and "removals_take_effect rt conts \<Longrightarrow> live \<Longrightarrow> conts (dr_runtime s) k = Some c \<Longrightarrow> ct_id c = n \<Longrightarrow>
      conts (dr_runtime (drop_container rt live n s)) k = None"
proof -
  show "conts (dr_runtime s) k = None \<Longrightarrow> conts (dr_runtime (drop_container rt live n s)) k = None"
    by (simp add: drop_container_def remove_adds_nothing [OF assms] stop_keeps_names [OF assms])
  show "removals_take_effect rt conts \<Longrightarrow> live \<Longrightarrow> conts (dr_runtime (drop_container rt live n s)) n = None"
    by (simp add: drop_container_def removed)
  show "conts (dr_runtime (drop_container rt live n s)) k = None"
    if "removals_take_effect rt conts" live "conts (dr_runtime s) k = Some c" "ct_id c = n"
    using that stop_keeps_names(2) [OF assms, of n "dr_runtime s" k]
    by (auto simp: drop_container_def removed without_def split: option.splits)
qed

definition names_of :: "deploy_payload \<Rightarrow> ('r, 'p) deploy_run \<Rightarrow> string list" where
  "names_of p s = [old_container_name (pl_app p), intermediate_container_name (da_project_slug (dr_app s)) (pl_app p), dr_container s]"

lemma cleanup_existing_gone:
  assumes "docker_ok rt conts" and "removals_take_effect rt conts" and "de_live en Teardown" and "n \<in> set (names_of p s)"
  shows "conts (dr_runtime (cleanup_existing rt en p s)) n = None"
proof -
  note keep = drop_container_gone(1) [OF assms(1)] and gone = drop_container_gone(2) [OF assms(1,2) TrueI]
  show ?thesis using assms(3,4) by (auto simp: cleanup_existing_def names_of_def intro: keep gone)
qed

lemma cleanup_existing_keeps [simp]:
  "work_step i s (cleanup_existing rt en p s)" "dr_proxy (cleanup_existing rt en p s) = dr_proxy s"
  "dr_compensators (cleanup_existing rt en p s) = dr_compensators s" "dr_image (cleanup_existing rt en p s) = dr_image s"
  "dr_domains (cleanup_existing rt en p s) = dr_domains s" "dr_env (cleanup_existing rt en p s) = dr_env s"
  "dr_container (cleanup_existing rt en p s) = dr_container s"
  by (simp_all add: cleanup_existing_def) (rule work_step_trans [OF work_step_trans], rule drop_container_keeps, rule drop_container_keeps, rule drop_container_keeps)

lemma ensure_networks_quiet:
  assumes "docker_ok rt conts"
  shows "quiet_step conts i s (ensure_networks rt en s)"
  unfolding ensure_networks_def Let_def
  by (auto intro!: quiet_step_trans [OF _ on_runtime_quiet] on_runtime_quiet docker_laws(8,9) [OF assms])

lemma ensure_networks_image [simp]:
  "dr_image (ensure_networks rt en s) = dr_image s" "dr_container (ensure_networks rt en s) = dr_container s"
  "dr_domains (ensure_networks rt en s) = dr_domains s" "dr_env (ensure_networks rt en s) = dr_env s"
  by (simp_all add: ensure_networks_def Let_def)

section \<open>The new container\<close>

lemma create_volumes_quiet:
  assumes "docker_ok rt conts"
  shows "quiet_step conts i s (snd (create_volumes rt live app vs m s)) \<and>
    dr_image (snd (create_volumes rt live app vs m s)) = dr_image s \<and> dr_env (snd (create_volumes rt live app vs m s)) = dr_env s \<and>
    dr_domains (snd (create_volumes rt live app vs m s)) = dr_domains s"
proof (induction vs arbitrary: m s)
  case (Cons v vs)
  obtain n path where v: "v = (n, path)" by fastforce
  let ?op = "rt_volume rt (app_volume_name app n)"
  obtain b s1 where o: "on_runtime live ?op s = (b, s1)" by fastforce
  have q: "quiet_step conts i s s1"
    using on_runtime_quiet [of conts ?op i s live] docker_laws(10) [OF assms] by (simp add: o)
  have k: "dr_image s1 = dr_image s" "dr_env s1 = dr_env s" "dr_domains s1 = dr_domains s"
    using on_runtime_keeps [of live ?op s] by (simp_all add: o)
  show ?case
  proof (cases b)
    case True
    have "create_volumes rt live app (v # vs) m s = create_volumes rt live app vs (m(app_volume_name app n \<mapsto> path)) s1"
      by (simp add: v o True)
    then show ?thesis
      using quiet_step_trans [OF q conjunct1 [OF Cons.IH]] conjunct2 [OF Cons.IH] k by (simp only: simp_thms)
  qed (use q k in \<open>simp add: v o\<close>)
qed simp

text \<open>The volumes of a run by their Docker names, with the paths they are mounted at.\<close>

definition volumes_of_run :: "deploy_env \<Rightarrow> deploy_payload \<Rightarrow> string \<rightharpoonup> string" where
  "volumes_of_run en p = map_of (rev (map (\<lambda>(v, path). (app_volume_name (pl_app p) v, path)) (de_volumes en)))"

lemma dom_volumes [simp]: "dom (volumes_of_run en p) = app_volume_name (pl_app p) ` fst ` set (de_volumes en)"
  by (force simp: volumes_of_run_def dom_map_of_conv_image_fst)

lemma create_volumes_mounts:
  "fst (create_volumes rt live app vs m s) = Inr m' \<Longrightarrow> m' = m ++ map_of (rev (map (\<lambda>(v, path). (app_volume_name app v, path)) vs))"
proof (induction vs arbitrary: m s)
  case (Cons v vs)
  obtain n path where v: "v = (n, path)" by fastforce
  obtain b s1 where o: "on_runtime live (rt_volume rt (app_volume_name app n)) s = (b, s1)" by fastforce
  with Cons show ?case by (cases b) (auto simp: v map_of_append map_add_assoc [symmetric] map_add_upd_left dest!: Cons.IH)
qed simp

lemma write_mounts_kept:
  "\<exists>fs. snd (write_mounts en dir ms binds s) = s\<lparr>dr_files := fs\<rparr>"
proof (induction ms arbitrary: binds s)
  case Nil
  show ?case by (auto intro: exI [of _ "dr_files s"])
next
  case (Cons f fs)
  have same: "\<exists>fs. s = s\<lparr>dr_files := fs\<rparr>" by (rule exI [of _ "dr_files s"]) simp
  have "\<exists>fs'. snd (write_mounts en dir fs b (s\<lparr>dr_files := x\<rparr>)) = s\<lparr>dr_files := fs'\<rparr>" for b x
    using Cons.IH [of b "s\<lparr>dr_files := x\<rparr>"] by auto
  with same show ?case by (auto split: option.splits)
qed

lemma write_file_mounts_kept: "\<exists>fs. snd (write_file_mounts en p s) = s\<lparr>dr_files := fs\<rparr>"
proof -
  have same: "\<exists>fs. s = s\<lparr>dr_files := fs\<rparr>" by (rule exI [of _ "dr_files s"]) simp
  have "\<exists>fs. snd (write_mounts en dir ms b (s\<lparr>dr_files := x\<rparr>)) = s\<lparr>dr_files := fs\<rparr>" for dir ms b x
    using write_mounts_kept [of en dir ms b "s\<lparr>dr_files := x\<rparr>"] by auto
  with same show ?thesis by (auto simp: write_file_mounts_def Let_def)
qed

text \<open>Creating either leaves no container where there was none, or the run's one, running.\<close>

definition runs_image :: "deploy_env \<Rightarrow> deploy_payload \<Rightarrow> ('r, 'p) deploy_run \<Rightarrow> container \<Rightarrow> bool" where
  "runs_image en p s c \<longleftrightarrow> ct_running c \<and> cc_image (ct_config c) = dr_image s \<and> cc_env (ct_config c) = dr_env s \<and>
     cc_deployment (ct_config c) = de_show en (pl_deployment p) \<and> cc_volumes (ct_config c) = volumes_of_run en p"

lemma create_and_start_outcome:
  assumes ok: "docker_ok rt conts" and e: "create_and_start rt en p s = (e, s')"
  shows "work_step i s s' \<and> dr_proxy s' = dr_proxy s \<and> dr_domains s' = dr_domains s \<and> dr_image s' = dr_image s \<and>
    (\<forall>k. k \<noteq> dr_container s \<and> conts (dr_runtime s) k = None \<longrightarrow> conts (dr_runtime s') k = None) \<and>
    (case e of
       Some _ \<Rightarrow> dr_compensators s' = dr_compensators s \<and>
         (removals_take_effect rt conts \<and> conts (dr_runtime s) (dr_container s) = None \<longrightarrow> conts (dr_runtime s') (dr_container s) = None)
     | None \<Rightarrow> \<exists>c. conts (dr_runtime s') (dr_container s) = Some c \<and> runs_image en p s c \<and>
         dr_compensators s' = dr_compensators s @ [DropContainer (ct_id c)])"
proof -
  obtain v s1 where v: "create_volumes rt (de_live en Create) (pl_app p) (de_volumes en) Map.empty s = (v, s1)" by fastforce
  note q = create_volumes_quiet [OF ok, of i s "de_live en Create" "pl_app p" "de_volumes en" Map.empty, unfolded v snd_conv]
  obtain b s2 where m: "write_file_mounts en p s1 = (b, s2)" by fastforce
  obtain fs where s2: "s2 = s1\<lparr>dr_files := fs\<rparr>" using write_file_mounts_kept [of en p s1] by (auto simp: m)
  have s1: "work_step i s s1" "conts (dr_runtime s1) = conts (dr_runtime s)" "dr_proxy s1 = dr_proxy s" "dr_compensators s1 = dr_compensators s"
    "dr_container s1 = dr_container s" "dr_image s1 = dr_image s" "dr_env s1 = dr_env s" "dr_domains s1 = dr_domains s"
    using q by (auto simp: quiet_step_def work_step_def)
  have w2: "work_step i s s2" using s1(1) by (simp add: s2 work_step_def)
  show ?thesis
  proof (cases "db_ok en Create ''ListApplicationVolumes''")
    case False
    then show ?thesis using e by (auto simp: create_and_start_def)
  next
    case lv: True
    show ?thesis
    proof (cases v)
      case (Inl x)
      then show ?thesis using e s1 by (auto simp: create_and_start_def lv v)
    next
      case vols: (Inr vols)
      have dom: "vols = volumes_of_run en p"
        using create_volumes_mounts [of rt "de_live en Create" "pl_app p" "de_volumes en" Map.empty s vols] v vols
        by (simp add: volumes_of_run_def)
      show ?thesis
      proof (cases b)
        case (Inl x)
        then show ?thesis using e s1 w2 by (auto simp: create_and_start_def lv v vols m s2)
      next
        case binds: (Inr binds)
        let ?cfg = "config_of_run en p vols binds s2"
        have name: "cc_name ?cfg = dr_container s" by (simp add: config_of_run_def Let_def s2 s1)
        obtain c r where c: "(if de_live en Create then rt_create rt ?cfg (dr_runtime s2) else (None, dr_runtime s2)) = (c, r)" by fastforce
        show ?thesis
        proof (cases c)
          case None
          have "conts r = conts (dr_runtime s)"
            using c None docker_laws(3) [OF ok] by (auto simp: s2 s1(2) split: if_splits)
          moreover have "\<exists>m. e = Some m" "s' = s2\<lparr>dr_runtime := r\<rparr>"
            using e None by (auto simp: create_and_start_def lv v vols m binds c)
          ultimately show ?thesis using w2 by (auto simp: s2 s1 work_step_def)
        next
          case (Some n)
          then have live: "de_live en Create" and cr: "rt_create rt ?cfg (dr_runtime s2) = (Some n, r)"
            using c by (auto split: if_splits)
          let ?c = "\<lparr>ct_id = n, ct_config = ?cfg, ct_running = False\<rparr>"
          have "dr_runtime s2 = dr_runtime s1" by (simp add: s2)
          then have r: "conts r = (conts (dr_runtime s))(dr_container s \<mapsto> ?c)"
            using docker_laws(5) [OF ok cr] unfolding name by (simp only: s1(2))
          obtain d r3 where d: "rt_start rt n r = (d, r3)" by fastforce
          have r3: "conts r3 = (if d then switched n True (conts r) else conts r)"
            using docker_laws(6) [OF ok, of n r] by (simp add: d)
          have on: "on_runtime (de_live en Create) (rt_start rt n) (s2\<lparr>dr_runtime := r\<rparr>) = (d, s2\<lparr>dr_runtime := r3\<rparr>)"
            by (simp add: on_runtime_def live d)
          show ?thesis
          proof (cases d)
            case True
            have s': "e = None" "s' = s2\<lparr>dr_runtime := r3, dr_container_id := n, dr_compensators := dr_compensators s2 @ [DropContainer n]\<rparr>"
              using e True by (simp_all add: create_and_start_def lv v vols m binds c Some on)
            have "conts (dr_runtime s') (dr_container s) = Some (?c\<lparr>ct_running := True\<rparr>)"
              using True by (simp add: s'(2) r3 r switched_def)
            moreover have "runs_image en p s (?c\<lparr>ct_running := True\<rparr>)"
              using dom by (simp add: runs_image_def config_of_run_def Let_def s2 s1)
            moreover have "\<forall>k. k \<noteq> dr_container s \<and> conts (dr_runtime s) k = None \<longrightarrow> conts (dr_runtime s') k = None"
              using True by (simp add: s'(2) r3 r)
            ultimately show ?thesis using w2 by (simp add: s' s2 s1 work_step_def)
          next
            case False
            have rm: "snd (on_runtime True (rt_remove rt n) (s2\<lparr>dr_runtime := r3\<rparr>)) = s2\<lparr>dr_runtime := snd (rt_remove rt n r3)\<rparr>"
              by (simp add: on_runtime_def split: prod.split)
            have s': "\<exists>m. e = Some m" "s' = s2\<lparr>dr_runtime := snd (rt_remove rt n r3)\<rparr>"
              using e False rm by (auto simp: create_and_start_def lv v vols m binds c Some on)
            have gone: "conts (snd (rt_remove rt n r3)) = without n (conts r)" if "removals_take_effect rt conts"
              using False that by (simp add: removed r3)
            have "conts r3 k = None" if "k \<noteq> dr_container s" "conts (dr_runtime s) k = None" for k
              using False that by (simp add: r3 r)
            then show ?thesis using s'(1) w2
              by (auto simp: s'(2) s2 s1 r gone without_def work_step_def remove_adds_nothing [OF ok])
          qed
        qed
      qed
    qed
  qed
qed

section \<open>Routes, health and the compensators\<close>

definition routes_only :: "compensator list \<Rightarrow> bool" where
  "routes_only cs \<longleftrightarrow> list_all (\<lambda>c. case c of DropRoute _ _ \<Rightarrow> True | DropContainer _ \<Rightarrow> False) cs"

definition after_start :: "uuid \<Rightarrow> ('r, 'p) deploy_run \<Rightarrow> ('r, 'p) deploy_run \<Rightarrow> bool" where
  "after_start i s s' \<longleftrightarrow> work_step i s s' \<and> dr_runtime s' = dr_runtime s \<and> dr_image s' = dr_image s \<and> dr_env s' = dr_env s \<and>
     (\<exists>cs. dr_compensators s' = dr_compensators s @ cs \<and> routes_only cs)"

lemma after_start_refl [simp]: "after_start i s s"
  by (simp add: after_start_def routes_only_def)

lemma after_start_trans: "after_start i s s' \<Longrightarrow> after_start i s' s'' \<Longrightarrow> after_start i s s''"
  unfolding after_start_def routes_only_def
  by (elim conjE exE) (auto intro: work_step_trans)

lemma wire_domains_after: "after_start i s (snd (wire_domains px en ds s))"
proof (induction ds arbitrary: s)
  case (Cons d ds)
  show ?case
  proof (cases "if de_live en Wire then build_route_config_from_db (de_proxy_db en) (de_dec en) d (dr_container s) (da_health_path (dr_app s))
      else Inl FeaturesUnread")
    case (Inr cfg)
    obtain e p where a: "pm_add px cfg (dr_proxy s) = (e, p)" by fastforce
    let ?s = "s\<lparr>dr_proxy := p, dr_compensators := dr_compensators s @ [DropRoute (dm_host d) (dm_path d)]\<rparr>"
    have "after_start i s ?s" "after_start i s (s\<lparr>dr_proxy := p\<rparr>)"
      by (simp_all add: after_start_def work_step_def routes_only_def list_all2_refl)
    with after_start_trans [OF _ Cons.IH] show ?thesis by (simp add: Inr a split: option.split)
  qed simp
qed simp

lemma wire_proxy_after: "after_start i s (snd (wire_proxy px en a s))"
proof -
  have "after_start i s (s\<lparr>dr_domains := ds\<rparr>)" for ds
    by (simp add: after_start_def work_step_def routes_only_def list_all2_refl)
  note moved = after_start_trans [OF this wire_domains_after]
  show ?thesis
  proof (cases "dr_domains s = []")
    case True
    then show ?thesis using moved by (simp add: wire_proxy_def)
  next
    case False
    then show ?thesis using wire_domains_after [of i s] by (simp add: wire_proxy_def)
  qed
qed

lemma record_health_after: "after_start i s (record_health en i st msg s)"
  by (simp add: record_health_def after_start_def work_step_def routes_only_def list_all2_refl)

lemma settle_health_after [simp]: "after_start i s (snd (settle_health en i v s))"
  by (simp add: settle_health_def record_health_after split: option.split)

lemma verify_health_after: "after_start i s (snd (verify_health en i a s))"
  by (simp add: verify_health_def Let_def record_health_after split: option.split)

lemma run_compensator_gone:
  assumes "docker_ok rt conts"
  shows "conts (dr_runtime s) k = None \<Longrightarrow> conts (dr_runtime (run_compensator rt px c s)) k = None"
    and "removals_take_effect rt conts \<Longrightarrow> conts (dr_runtime s) k = Some x \<Longrightarrow> conts (dr_runtime (run_compensator rt px c s)) k = None \<or>
      (\<exists>y. conts (dr_runtime (run_compensator rt px c s)) k = Some y \<and> ct_id y = ct_id x \<and> c \<noteq> DropContainer (ct_id x))"
proof -
  show "conts (dr_runtime s) k = None \<Longrightarrow> conts (dr_runtime (run_compensator rt px c s)) k = None"
    by (simp add: run_compensator_def drop_container_gone(1) [OF assms] split: compensator.split)
  show "conts (dr_runtime (run_compensator rt px c s)) k = None \<or>
      (\<exists>y. conts (dr_runtime (run_compensator rt px c s)) k = Some y \<and> ct_id y = ct_id x \<and> c \<noteq> DropContainer (ct_id x))"
    if "removals_take_effect rt conts" "conts (dr_runtime s) k = Some x"
  proof (cases c)
    case (DropContainer n)
    show ?thesis
    proof (cases "ct_id x = n")
      case True
      then show ?thesis using drop_container_gone(3) [OF assms that(1) TrueI that(2)] by (simp add: run_compensator_def DropContainer)
    next
      case False
      then show ?thesis
        using stop_keeps_names(2) [OF assms, of n "dr_runtime s" k] that(2)
        by (auto simp: run_compensator_def DropContainer drop_container_def removed [OF that(1)] without_def split: option.splits)
    qed
  qed (use that in \<open>simp add: run_compensator_def\<close>)
qed

lemma compensators_gone:
  assumes ok: "docker_ok rt conts"
  shows "conts (dr_runtime s) k = None \<Longrightarrow> conts (dr_runtime (foldl (\<lambda>s c. run_compensator rt px c s) s cs)) k = None"
    and "removals_take_effect rt conts \<Longrightarrow> DropContainer n \<in> set cs \<Longrightarrow> conts (dr_runtime s) k = Some x \<Longrightarrow> ct_id x = n \<Longrightarrow>
      conts (dr_runtime (foldl (\<lambda>s c. run_compensator rt px c s) s cs)) k = None"
proof -
  show none: "conts (dr_runtime s) k = None \<Longrightarrow> conts (dr_runtime (foldl (\<lambda>s c. run_compensator rt px c s) s cs)) k = None" for s cs
    by (induction cs arbitrary: s) (simp_all add: run_compensator_gone(1) [OF ok])
  assume rm: "removals_take_effect rt conts"
  show "DropContainer n \<in> set cs \<Longrightarrow> conts (dr_runtime s) k = Some x \<Longrightarrow> ct_id x = n \<Longrightarrow>
      conts (dr_runtime (foldl (\<lambda>s c. run_compensator rt px c s) s cs)) k = None"
  proof (induction cs arbitrary: s x)
    case (Cons c cs)
    from run_compensator_gone(2) [OF ok rm Cons.prems(2), of px c] show ?case
    proof (elim disjE exE conjE)
      fix y assume "conts (dr_runtime (run_compensator rt px c s)) k = Some y" "ct_id y = ct_id x" "c \<noteq> DropContainer (ct_id x)"
      with Cons.IH [of "run_compensator rt px c s" y] Cons.prems(1,3) show ?thesis by auto
    qed (simp add: none)
  qed simp
qed

lemma run_compensators_work: "work_step i s (run_compensators rt px s)"
proof -
  have "work_step i s (run_compensator rt px c s)" for c and s :: "('a, 'b) deploy_run"
    by (auto simp: run_compensator_def work_step_def list_all2_refl split: compensator.split)
      (simp_all add: drop_container_keeps(8) [unfolded work_step_def])
  then have "work_step i s (foldl (\<lambda>s c. run_compensator rt px c s) s cs)" for cs and s :: "('a, 'b) deploy_run"
    by (induction cs arbitrary: s) (auto intro: work_step_trans)
  then show ?thesis by (simp add: run_compensators_def)
qed

section \<open>From the teardown on\<close>

text \<open>
  The old containers are gone; then either the new container runs until the statuses are written, or every
  container of the application is gone and the deployment is failed.
\<close>

lemma rolled_back_gone:
  assumes ok: "docker_ok rt conts" "removals_take_effect rt conts"
    and "\<And>c. conts (dr_runtime s) n = Some c \<Longrightarrow> DropContainer (ct_id c) \<in> set (dr_compensators s)"
  shows "conts (dr_runtime (run_compensators rt px s)) n = None"
proof (cases "conts (dr_runtime s) n")
  case None
  then show ?thesis by (simp add: run_compensators_def compensators_gone(1) [OF ok(1)])
next
  case (Some c)
  then have "DropContainer (ct_id c) \<in> set (rev (dr_compensators s))" using assms(3) by simp
  from compensators_gone(2) [OF ok this Some refl] show ?thesis by (simp add: run_compensators_def)
qed

lemma replace_outcome:
  assumes ok: "docker_ok rt conts" and fresh: "dr_compensators s = []"
    and r: "replace_container rt px en p a s = (r, s')"
  shows "\<exists>s1. work_step (pl_deployment p) (s\<lparr>dr_cleaned := True\<rparr>) s1 \<and>
    (r = TaskDone \<and> s' = snd (finalize en p a s1) \<and> (\<exists>c. conts (dr_runtime s1) (dr_container s) = Some c \<and> runs_image en p s c) \<or>
     (\<exists>m. r = TaskFailed m \<and> s' = fail_deployment en (pl_deployment p) a m s1 \<and>
       (removals_take_effect rt conts \<and> de_live en Teardown \<longrightarrow> (\<forall>n \<in> set (names_of p s). conts (dr_runtime s1) n = None))))"
proof -
  let ?i = "pl_deployment p" and ?s0 = "(cleanup_existing rt en p s)\<lparr>dr_cleaned := True\<rparr>"
  let ?s1 = "ensure_networks rt en ?s0"
  have w0: "work_step ?i (s\<lparr>dr_cleaned := True\<rparr>) ?s0"
    using cleanup_existing_keeps(1) [of ?i s rt en p] by (simp add: work_step_def)
  have net: "quiet_step conts ?i ?s0 ?s1" by (rule ensure_networks_quiet [OF ok])
  then have w1: "work_step ?i (s\<lparr>dr_cleaned := True\<rparr>) ?s1" using w0 by (auto simp: quiet_step_def intro: work_step_trans)
  have gone: "conts (dr_runtime ?s1) n = None" if "removals_take_effect rt conts" "de_live en Teardown" "n \<in> set (names_of p s)" for n
    using net cleanup_existing_gone [OF ok that] by (simp add: quiet_step_def)
  have k: "dr_container ?s1 = dr_container s" "dr_image ?s1 = dr_image s" "dr_env ?s1 = dr_env s" "dr_compensators ?s1 = []"
    using net w1 fresh by (simp_all add: quiet_step_def work_step_def)
  obtain e s2 where cr: "create_and_start rt en p ?s1 = (e, s2)" by fastforce
  note out = create_and_start_outcome [OF ok cr, of ?i]
  have w2: "work_step ?i (s\<lparr>dr_cleaned := True\<rparr>) s2" using w1 out by (auto intro: work_step_trans)
  show ?thesis
  proof (cases e)
    case (Some m)
    let ?f = "run_compensators rt px s2"
    have "conts (dr_runtime ?f) n = None" if "removals_take_effect rt conts" "de_live en Teardown" "n \<in> set (names_of p s)" for n
      by (rule rolled_back_gone [OF ok that(1)]) (use out gone [OF that] Some k(1) that(1) in \<open>cases "n = dr_container s"; simp\<close>)
    moreover have "r = TaskFailed (''create container: '' @ m)" "s' = fail_deployment en ?i a (''create container: '' @ m) ?f"
      using r cr Some by (simp_all add: replace_container_def Let_def rolled_back_def)
    moreover have "work_step ?i (s\<lparr>dr_cleaned := True\<rparr>) ?f" by (rule work_step_trans [OF w2 run_compensators_work])
    ultimately show ?thesis by blast
  next
    case None
    have "runs_image en p ?s1 c = runs_image en p s c" for c by (simp add: runs_image_def k)
    with out None obtain c where c: "conts (dr_runtime s2) (dr_container s) = Some c" "runs_image en p s c" "dr_compensators s2 = [DropContainer (ct_id c)]"
      by (auto simp: k)
    have failed: "\<exists>s1. work_step ?i (s\<lparr>dr_cleaned := True\<rparr>) s1 \<and>
        (\<exists>m. r = TaskFailed m \<and> s' = fail_deployment en ?i a m s1 \<and>
          (removals_take_effect rt conts \<and> de_live en Teardown \<longrightarrow> (\<forall>n \<in> set (names_of p s). conts (dr_runtime s1) n = None)))"
      if x: "after_start ?i s2 x" and rx: "(r, s') = rolled_back rt px en ?i a msg x" for x msg
    proof -
      have "conts (dr_runtime (run_compensators rt px x)) n = None" if "removals_take_effect rt conts" "de_live en Teardown" "n \<in> set (names_of p s)" for n
        by (rule rolled_back_gone [OF ok that(1)]) (use x c out gone [OF that] None k(1) in \<open>cases "n = dr_container s"; auto simp: after_start_def\<close>)
      moreover have "work_step ?i (s\<lparr>dr_cleaned := True\<rparr>) (run_compensators rt px x)"
        using x by (auto simp: after_start_def intro: work_step_trans [OF work_step_trans [OF w2] run_compensators_work])
      ultimately show ?thesis using rx by (auto simp: rolled_back_def)
    qed
    obtain e3 s3 where w: "wire_proxy px en a s2 = (e3, s3)" by fastforce
    obtain e4 s4 where v: "verify_health en ?i a s3 = (e4, s4)" by fastforce
    have a3: "after_start ?i s2 s3" using wire_proxy_after [of ?i s2 px en a] by (simp add: w)
    have a4: "after_start ?i s2 s4" using after_start_trans [OF a3] verify_health_after [of ?i s3 en a] by (simp add: v)
    have r': "(r, s') = (case e3 of Some e \<Rightarrow> rolled_back rt px en ?i a (''wire proxy: '' @ e) s3
        | None \<Rightarrow> (case e4 of Some e \<Rightarrow> rolled_back rt px en ?i a (''health check failed: '' @ e) s4
          | None \<Rightarrow> (TaskDone, snd (finalize en p a s4))))"
      using r cr None v by (simp add: replace_container_def Let_def w cong: option.case_cong)
    show ?thesis
    proof (cases "e3 = None \<and> e4 = None")
      case True
      then show ?thesis using r' a4 c w2 by (auto simp: after_start_def intro: work_step_trans)
    next
      case False
      then have "\<exists>x msg. after_start ?i s2 x \<and> (r, s') = rolled_back rt px en ?i a msg x"
        using r' a3 a4 by (cases e3; cases e4) auto
      then show ?thesis using failed by blast
    qed
  qed
qed

section \<open>The whole task\<close>

text \<open>What a task that was not refused at the door has to work on.\<close>

definition accepts :: "deploy_env \<Rightarrow> deploy_payload \<Rightarrow> uuid \<Rightarrow> ('r, 'p) deploy_run \<Rightarrow> bool" where
  "accepts en p a s \<longleftrightarrow> de_scan en (pl_app p) = Some a \<and> db_ok en Begin ''GetDeployment'' \<and>
     (\<exists>d. get_deployment (pl_deployment p) (dr_rows s) = Some d \<and> active d)"

text \<open>Before the teardown nothing but the row, the image and the plan changes.\<close>

definition prepared :: "('r \<Rightarrow> containers) \<Rightarrow> uuid \<Rightarrow> ('r, 'p) deploy_run \<Rightarrow> ('r, 'p) deploy_run \<Rightarrow> bool" where
  "prepared conts i s s1 \<longleftrightarrow> list_all2 (row_tagged i) (dr_rows s) (dr_rows s1) \<and> dr_apps s1 = dr_apps s \<and> dr_proxy s1 = dr_proxy s \<and>
     conts (dr_runtime s1) = conts (dr_runtime s) \<and> \<not> dr_cleaned s1 \<and> \<not> dr_build_only s1 \<and> dr_compensators s1 = []"

lemma terminal_not_active: "active d \<Longrightarrow> \<not> (dy_status d = dep_success \<or> dy_status d = dep_failed)"
  by (auto simp: active_def dep_status_defs)

lemma prepared_rows: "prepared conts i s s1 \<Longrightarrow> list_all2 (row_tagged i) (dr_rows s1) rows \<Longrightarrow> prepared conts i s (s1\<lparr>dr_rows := rows\<rparr>)"
  unfolding prepared_def using tagged_trans by fastforce

lemma prepared_quiet: "prepared conts i s s1 \<Longrightarrow> quiet_step conts i s1 s2 \<Longrightarrow> prepared conts i s s2"
  unfolding prepared_def quiet_step_def work_step_def
  by (elim conjE) (simp add: tagged_trans [OF _ row_kept_tagged])

lemma deploy_cases:
  assumes ok: "docker_ok rt conts" and acc: "accepts en p a s" and h: "handle_deploy_task rt px en p s = (r, s')"
  obtains (early) m s1 where "r \<noteq> TaskDone" "s' = fail_deployment en (pl_deployment p) a m s1" "prepared conts (pl_deployment p) s s1"
      "\<And>app. db_ok en Load ''GetApplicationWithProjectSlug'' \<Longrightarrow> find (\<lambda>r. da_id r = a) (dr_apps s) = Some app \<Longrightarrow> dr_app s1 = app"
  | (late) s1 app where "prepared conts (pl_deployment p) s s1" "find (\<lambda>r. da_id r = a) (dr_apps s) = Some app" "dr_app s1 = app"
      "dr_container s1 = da_slug app" "image_to_run rt en p app (dr_runtime s) (dr_image s1)" "replace_container rt px en p a s1 = (r, s')"
      "pl_rollback p \<noteq> '''' \<Longrightarrow> list_all2 (row_kept (pl_deployment p)) (dr_rows s) (dr_rows s1)" "dr_env s1 = run_variables en"
      "pl_rollback p = '''' \<Longrightarrow> db_ok en Prepare ''UpdateDeploymentImageTag'' \<Longrightarrow>
         \<forall>x \<in> set (dr_rows s1). dy_id x = pl_deployment p \<longrightarrow> dy_image x = dr_image s1"
proof -
  let ?i = "pl_deployment p" and ?b = "blank_run s zero_app False"
  obtain d where d: "get_deployment ?i (dr_rows s) = Some d" "active d" and sc: "de_scan en (pl_app p) = Some a" "db_ok en Begin ''GetDeployment''"
    using acc by (auto simp: accepts_def)
  obtain e1 s1 where l: "load_application en p a ?b = (e1, s1)" by fastforce
  have b: "dr_rows ?b = dr_rows s" "dr_apps ?b = dr_apps s" "dr_runtime ?b = dr_runtime s" "dr_proxy ?b = dr_proxy s"
    "\<not> dr_cleaned ?b" "\<not> dr_build_only ?b" "dr_compensators ?b = []"
    by (simp_all add: blank_run_def)
  have p1: "prepared conts ?i s s1"
    using load_application_work(2-8) [of en p a ?b] b by (simp add: l prepared_def list_all2_refl)
  have app: "dr_app s1 = app" if "db_ok en Load ''GetApplicationWithProjectSlug''" "find (\<lambda>r. da_id r = a) (dr_apps s) = Some app" for app
    using load_application_app [where s = ?b and en = en and p = p and a = a and app = app] that b(2) by (simp add: l)
  have h': "(case e1 of Some e \<Rightarrow> (TaskRefused e, fail_deployment en ?i a (''load application: '' @ e) s1)
      | None \<Rightarrow> (case check_deploy_quota en s1 of Some e \<Rightarrow> (TaskRefused e, fail_deployment en ?i a (''quota check: '' @ e) s1)
        | None \<Rightarrow> (case prepare_image rt en p s1 of (Some e, s) \<Rightarrow> (TaskFailed e, fail_deployment en ?i a e s)
          | (None, s) \<Rightarrow> replace_container rt px en p a s))) = (r, s')"
    using h terminal_not_active [OF d(2)] by (simp add: handle_deploy_task_def sc d(1) l Let_def)
  show ?thesis
  proof (cases e1)
    case (Some m)
    then have "r \<noteq> TaskDone" "s' = fail_deployment en ?i a (''load application: '' @ m) s1" using h' by auto
    then show ?thesis using early p1 app by blast
  next
    case None
    with load_application_found [of en p a ?b] obtain app' where f: "find (\<lambda>r. da_id r = a) (dr_apps s) = Some app'"
      "dr_app s1 = app'" "dr_container s1 = da_slug app'" "dr_env s1 = run_variables en"
      by (auto simp: l b(2))
    have rt: "dr_runtime s1 = dr_runtime s" using load_application_work(3) [of en p a ?b] b(3) by (simp add: l)
    show ?thesis
    proof (cases "check_deploy_quota en s1")
      case (Some m)
      then have "r \<noteq> TaskDone" "s' = fail_deployment en ?i a (''quota check: '' @ m) s1" using h' None by auto
      then show ?thesis using early p1 app by blast
    next
      case quota: None
      obtain e2 s2 where pr: "prepare_image rt en p s1 = (e2, s2)" by fastforce
      obtain s3 where q: "quiet_step conts ?i s1 s3" and s2: "s2 = s3 \<or> pl_rollback p = '''' \<and> (\<exists>tag. s2 = s3\<lparr>dr_rows := set_image_tag ?i tag (dr_rows s3)\<rparr>)"
        using prepare_image_quiet [OF ok, of p s1 en] by (auto simp: pr)
      have p2: "prepared conts ?i s s2" using s2 prepared_quiet [OF p1 q] prepared_rows by fastforce
      have k: "dr_app s2 = dr_app s1" "dr_container s2 = dr_container s1" using q s2 by (auto simp: quiet_step_def work_step_def)
      have same: "list_all2 (row_kept ?i) (dr_rows s) (dr_rows s2)" if "pl_rollback p \<noteq> ''''"
        using q s2 that load_application_work(2) [of en p a ?b] b(1) by (auto simp: quiet_step_def work_step_def l)
      show ?thesis
      proof (cases e2)
        case (Some m)
        then have "r \<noteq> TaskDone" "s' = fail_deployment en ?i a m s2" using h' None quota pr by auto
        then show ?thesis using early p2 app by (metis k(1))
      next
        case img: None
        have "replace_container rt px en p a s2 = (r, s')" using h' None quota pr img by simp
        moreover note made = prepare_image_made [OF pr [unfolded img] f(4)]
        have "image_to_run rt en p app' (dr_runtime s) (dr_image s2)" using made(1) by (simp add: f(2) rt)
        ultimately show ?thesis using late [OF p2 f(1) _ _ _ _ same made(2,3)] f(2,3) k by simp
      qed
    qed
  qed
qed

text \<open>What the failure path leaves.\<close>

lemma fail_deployment_keeps [simp]:
  "dr_runtime (fail_deployment en i a m s) = dr_runtime s" "dr_proxy (fail_deployment en i a m s) = dr_proxy s"
  "dr_cleaned (fail_deployment en i a m s) = dr_cleaned s" "dr_app (fail_deployment en i a m s) = dr_app s"
  by (simp_all add: fail_deployment_def Let_def set_row_status_def)

lemma fail_deployment_apps:
  "dr_apps (fail_deployment en i a m s) =
     (if de_max_retry en \<le> de_retried en \<and> deploy_failure_errors_app s \<and> db_ok en Settle ''UpdateApplicationStatus''
      then set_app_status a ''error'' (dr_apps s) else dr_apps s)"
  by (auto simp: fail_deployment_def Let_def set_row_status_def deploy_failure_errors_app_def)

lemma fail_deployment_rows:
  "dr_rows (fail_deployment en i a m s) =
     (if de_max_retry en \<le> de_retried en \<and> db_ok en Settle ''UpdateDeploymentStatus''
      then set_deployment_status i dep_failed (de_redact en m) (de_now en) (dr_rows s) else dr_rows s)"
  by (auto simp: fail_deployment_def Let_def set_row_status_def)

section \<open>What a deploy does to a running application\<close>

lemma replaced_is_cleaned:
  assumes "docker_ok rt conts" and "prepared conts i s s1" and "replace_container rt px en p a s1 = (r, s')"
  shows "dr_cleaned s'"
proof -
  have "dr_compensators s1 = []" using assms(2) by (simp add: prepared_def)
  from replace_outcome [OF assms(1) this assms(3)] show ?thesis
    by (elim exE conjE disjE) (auto simp: work_step_def finalize_def Let_def)
qed

text \<open>
  C2: a deploy that fails before the teardown leaves the application serving. Under \<open>docker_ok\<close>, when the
  task was accepted and the query for the application's row answered with one that was running or unhealthy, no container
  and no route changes and no application changes its status. The query matters: a deploy that could not
  read the row does mark the application errored, see \<open>unread_application_is_errored\<close> below.
\<close>
theorem failed_preparation_keeps_serving:
  assumes "docker_ok rt conts" and "accepts en p a s" and "handle_deploy_task rt px en p s = (r, s')" and "\<not> dr_cleaned s'"
    and "db_ok en Load ''GetApplicationWithProjectSlug''" and "find (\<lambda>r. da_id r = a) (dr_apps s) = Some app"
    and "da_status app \<in> {''running'', ''unhealthy''}"
  shows "r \<noteq> TaskDone \<and> conts (dr_runtime s') = conts (dr_runtime s) \<and> dr_proxy s' = dr_proxy s \<and> dr_apps s' = dr_apps s"
  using assms(1-3)
proof (cases rule: deploy_cases)
  case (early m s1)
  from early(4) [OF assms(5,6)] assms(7) early(3) have "\<not> deploy_failure_errors_app s1"
    by (auto simp: deploy_failure_errors_app_def prepared_def)
  then show ?thesis using early by (simp add: prepared_def fail_deployment_apps)
next
  case (late s1 app)
  with replaced_is_cleaned [OF assms(1)] assms(4) show ?thesis by blast
qed

text \<open>
  a deploy that cannot read the application's row marks it errored, although its container and
  routes are untouched: the status it would spare is the one of the row it did not read.
\<close>
theorem unread_application_is_errored:
  assumes "accepts en p a s" and "handle_deploy_task rt px en p s = (r, s')"
    and "\<not> db_ok en Load ''GetApplicationWithProjectSlug''" and "de_max_retry en \<le> de_retried en"
    and "db_ok en Settle ''UpdateApplicationStatus''"
  shows "dr_apps s' = set_app_status a ''error'' (dr_apps s) \<and> dr_runtime s' = dr_runtime s \<and> dr_proxy s' = dr_proxy s"
proof -
  let ?b = "blank_run s zero_app False"
  obtain d where d: "get_deployment (pl_deployment p) (dr_rows s) = Some d" "active d"
    and sc: "de_scan en (pl_app p) = Some a" "db_ok en Begin ''GetDeployment''"
    using assms(1) by (auto simp: accepts_def)
  have "load_application en p a ?b = (Some (''fetch application: '' @ de_cause en ''GetApplicationWithProjectSlug''), ?b)"
    using assms(3) by (simp add: load_application_def)
  then obtain m where "s' = fail_deployment en (pl_deployment p) a m ?b"
    using assms(2) terminal_not_active [OF d(2)] by (auto simp: handle_deploy_task_def sc d(1) Let_def)
  then show ?thesis
    using assms(4,5) by (simp add: fail_deployment_apps deploy_failure_errors_app_def blank_run_def zero_app_def)
qed

lemma alter_app_status:
  assumes "\<forall>x \<in> set apps. da_id x = a \<longrightarrow> da_status x = st" and "\<And>x. da_id (g x) = da_id x" and "\<And>x. da_status (g x) = da_status x"
  shows "\<forall>x \<in> set (alter_app b g apps). da_id x = a \<longrightarrow> da_status x = st"
  using assms(1) by (induction apps) (simp_all add: alter_app_def assms(2,3))

lemma set_app_status_at:
  assumes "x \<in> set (set_app_status a st apps)" and "da_id x = a"
  shows "da_status x = st"
proof -
  obtain y where "x = (if da_id y = a then y\<lparr>da_status := st\<rparr> else y)"
    using assms(1) unfolding set_app_status_def alter_app_def set_map by (elim imageE)
  with assms(2) show ?thesis by (cases "da_id y = a") simp_all
qed

text \<open>The statuses after the last step.\<close>

lemma finalize_done:
  assumes "list_all (db_ok en Finalize) (finalize_queries (pl_rollback p \<noteq> ''''))"
  shows "dr_rows (snd (finalize en p a s)) = set_deployment_status (pl_deployment p) dep_success '''' (de_now en) (dr_rows s)"
    and "\<forall>x \<in> set (dr_apps (snd (finalize en p a s))). da_id x = a \<longrightarrow> da_status x = ''running''"
    and "dr_runtime (snd (finalize en p a s)) = dr_runtime s"
proof -
  have v: "valid_transition dep_deploying dep_success"
    by (simp add: valid_transition_def valid_deployment_transitions_def dep_status_defs)
  show "dr_rows (snd (finalize en p a s)) = set_deployment_status (pl_deployment p) dep_success '''' (de_now en) (dr_rows s)"
    "dr_runtime (snd (finalize en p a s)) = dr_runtime s"
    using assms v by (simp_all add: finalize_def Let_def)
  show "\<forall>x \<in> set (dr_apps (snd (finalize en p a s))). da_id x = a \<longrightarrow> da_status x = ''running''"
  proof -
    define up :: "deploy_app list \<Rightarrow> bool" where "up apps \<longleftrightarrow> (\<forall>x \<in> set apps. da_id x = a \<longrightarrow> da_status x = ''running'')" for apps
    have keep: "up (alter_app b g apps)" if "up apps" "\<And>x. da_id (g x) = da_id x" "\<And>x. da_status (g x) = da_status x" for b g apps
      using that unfolding up_def by (rule alter_app_status)
    have base: "up (set_app_status a ''running'' apps)" for apps
      unfolding up_def by (rule ballI, rule impI, erule set_app_status_at)
    have "up (clear_config_changed a d (set_deployed a t (set_app_status a ''running'' apps)))" for d t apps
      unfolding clear_config_changed_def set_deployed_def by (intro keep base) simp_all
    moreover from this have "up (clear_source_changed a e (clear_config_changed a d (set_deployed a t (set_app_status a ''running'' apps))))" for d e t apps
      unfolding clear_source_changed_def [of a e] by (intro keep) simp_all
    ultimately have "up (dr_apps (snd (finalize en p a s)))" using assms v by (simp add: finalize_def Let_def)
    then show ?thesis by (simp add: up_def)
  qed
qed

lemma get_tagged:
  "list_all2 (row_tagged i) rows rows' \<Longrightarrow> get_deployment j rows = Some d \<Longrightarrow> \<exists>d'. get_deployment j rows' = Some d' \<and> row_tagged i d d'"
  by (induction rows rows' rule: list_all2_induct) (auto simp: get_deployment_def row_tagged_def split: if_splits)

lemmas get_kept = get_tagged [OF row_kept_tagged]

lemma get_row_kept:
  "list_all2 (row_kept i) rows rows' \<Longrightarrow> get_deployment j rows = Some d \<Longrightarrow> \<exists>d'. get_deployment j rows' = Some d' \<and> row_kept i d d'"
  by (induction rows rows' rule: list_all2_induct) (auto simp: get_deployment_def row_kept_def row_tagged_def split: if_splits)

lemma get_alter:
  "get_deployment i rows = Some d \<Longrightarrow> (\<And>r. dy_id (f r) = dy_id r) \<Longrightarrow> get_deployment i (alter_deployment i f rows) = Some (f d)"
  by (induction rows) (auto simp: get_deployment_def alter_deployment_def)

lemma get_set_status:
  "get_deployment i rows = Some d \<Longrightarrow> get_deployment i (set_deployment_status i st e now rows) =
     Some (d\<lparr>dy_status := st, dy_error := e, dy_finished := (if st \<in> {dep_success, dep_failed} then Some now else None)\<rparr>)"
  unfolding set_deployment_status_def by (rule get_alter) simp_all

lemma finalize_untouched:
  "\<not> list_all (db_ok en Finalize) (finalize_queries (pl_rollback p \<noteq> '''')) \<Longrightarrow> snd (finalize en p a s) = s"
  by (simp add: finalize_def Let_def)

lemma deployed_core:
  assumes "docker_ok rt conts" and "accepts en p a s" and "handle_deploy_task rt px en p s = (TaskDone, s')"
    and "list_all (db_ok en Finalize) (finalize_queries (pl_rollback p \<noteq> ''''))"
  shows "\<exists>app c d. find (\<lambda>r. da_id r = a) (dr_apps s) = Some app \<and> conts (dr_runtime s') (da_slug app) = Some c \<and> ct_running c \<and>
      image_to_run rt en p app (dr_runtime s) (cc_image (ct_config c)) \<and> cc_env (ct_config c) = run_variables en \<and>
      cc_deployment (ct_config c) = de_show en (pl_deployment p) \<and> cc_volumes (ct_config c) = volumes_of_run en p \<and>
      get_deployment (pl_deployment p) (dr_rows s') = Some d \<and> dy_status d = dep_success \<and> dy_finished d = Some (de_now en) \<and>
      (pl_rollback p = '''' \<and> db_ok en Prepare ''UpdateDeploymentImageTag'' \<longrightarrow> dy_image d = cc_image (ct_config c)) \<and>
      (\<forall>x \<in> set (dr_apps s'). da_id x = a \<longrightarrow> da_status x = ''running'')"
  using assms(1-3)
proof (cases rule: deploy_cases)
  case (late s1 app)
  have "dr_compensators s1 = []" using late(1) by (simp add: prepared_def)
  from replace_outcome [OF assms(1) this late(6)] obtain s2 c where w: "work_step (pl_deployment p) (s1\<lparr>dr_cleaned := True\<rparr>) s2"
    and s': "s' = snd (finalize en p a s2)" and c: "conts (dr_runtime s2) (da_slug app) = Some c" "runs_image en p s1 c"
    by (auto simp: late(4))
  obtain d where d: "get_deployment (pl_deployment p) (dr_rows s) = Some d" using assms(2) by (auto simp: accepts_def)
  with late(1) obtain d1 where d1: "get_deployment (pl_deployment p) (dr_rows s1) = Some d1" by (auto simp: prepared_def dest!: get_tagged)
  with w obtain d2 where d2: "get_deployment (pl_deployment p) (dr_rows s2) = Some d2" "dy_image d2 = dy_image d1"
    by (auto simp: work_step_def row_kept_def dest!: get_row_kept)
  have img: "dy_image d1 = dr_image s1" if "pl_rollback p = ''''" "db_ok en Prepare ''UpdateDeploymentImageTag''"
    using late(9) [OF that] d1 by (auto simp: get_deployment_def find_Some_iff)
  note f = finalize_done [OF assms(4)]
  show ?thesis
    using late(2,5,8) c f(2) img get_set_status [OF d2(1), of dep_success] d2(2) by (auto simp: s' f(1,3) runs_image_def)
qed simp

text \<open>
  C1: a deploy that succeeds serves. Under the runtime's contract \<open>docker_ok\<close>, after a task that was
  accepted, ended without an error and committed its final transaction, the container under the application's name runs, with the image of the run: the
  one a rollback names, else what the pull of the application's image left (its digest when it has one),
  else what the build of the pinned commit or the branch answered. It has the variables of the run, the
  application's over the project's, the deployment's id and exactly the application's volumes at their
  mount paths. The deployment is a finished success, carrying that image when the query that records it
  answered and the run was no rollback, and the application is running.
\<close>
theorem deployed_serves:
  assumes "docker_ok rt conts" and "accepts en p a s" and "handle_deploy_task rt px en p s = (TaskDone, s')"
    and "list_all (db_ok en Finalize) (finalize_queries (pl_rollback p \<noteq> ''''))"
  shows "\<exists>app c d. find (\<lambda>r. da_id r = a) (dr_apps s) = Some app \<and> conts (dr_runtime s') (da_slug app) = Some c \<and> ct_running c \<and>
      image_to_run rt en p app (dr_runtime s) (cc_image (ct_config c)) \<and> cc_env (ct_config c) = run_variables en \<and>
      cc_deployment (ct_config c) = de_show en (pl_deployment p) \<and> cc_volumes (ct_config c) = volumes_of_run en p \<and>
      get_deployment (pl_deployment p) (dr_rows s') = Some d \<and> dy_status d = dep_success \<and> dy_finished d = Some (de_now en) \<and>
      (pl_rollback p = '''' \<and> db_ok en Prepare ''UpdateDeploymentImageTag'' \<longrightarrow> dy_image d = cc_image (ct_config c)) \<and>
      (\<forall>x \<in> set (dr_apps s'). da_id x = a \<longrightarrow> da_status x = ''running'')"
  using deployed_core [OF assms] .

text \<open>
  C10: a deploy that fails after the teardown leaves nothing serving. Under \<open>docker_ok\<close>, when the task was accepted, its
  context was alive at the teardown, Docker's removals take effect, this was its last attempt and the two
  queries of the failure path answer, then the container that served before is gone with the new one, the
  deployment is failed and the application errored, whichever stage failed, the health check included.
\<close>
theorem failed_deploy_leaves_nothing:
  assumes "docker_ok rt conts" and "accepts en p a s" and "handle_deploy_task rt px en p s = (TaskFailed m, s')" and "dr_cleaned s'"
    and "de_live en Teardown" and "de_max_retry en \<le> de_retried en"
    and "db_ok en Settle ''UpdateDeploymentStatus''" and "db_ok en Settle ''UpdateApplicationStatus''"
    and "removals_take_effect rt conts"
  shows "\<exists>app d. find (\<lambda>r. da_id r = a) (dr_apps s) = Some app \<and> conts (dr_runtime s') (da_slug app) = None \<and>
      get_deployment (pl_deployment p) (dr_rows s') = Some d \<and> dy_status d = dep_failed \<and>
      dr_apps s' = set_app_status a ''error'' (dr_apps s)"
  using assms(1-3)
proof (cases rule: deploy_cases)
  case (early m s1)
  then show ?thesis using assms(4) by (simp add: prepared_def)
next
  case (late s1 app)
  have "dr_compensators s1 = []" using late(1) by (simp add: prepared_def)
  from replace_outcome [OF assms(1) this late(6)] obtain s2 m where w: "work_step (pl_deployment p) (s1\<lparr>dr_cleaned := True\<rparr>) s2"
    and s': "s' = fail_deployment en (pl_deployment p) a m s2" and gone: "conts (dr_runtime s2) (da_slug app) = None"
    using assms(5,9) by (auto simp: names_of_def late(4))
  obtain d where d: "get_deployment (pl_deployment p) (dr_rows s) = Some d" using assms(2) by (auto simp: accepts_def)
  with late(1) obtain d1 where "get_deployment (pl_deployment p) (dr_rows s1) = Some d1" by (auto simp: prepared_def dest!: get_tagged)
  with w obtain d2 where d2: "get_deployment (pl_deployment p) (dr_rows s2) = Some d2" by (auto simp: work_step_def dest!: get_kept)
  have "deploy_failure_errors_app s2" "dr_apps s2 = dr_apps s"
    using w late(1) by (simp_all add: work_step_def prepared_def deploy_failure_errors_app_def)
  then show ?thesis
    using late(2) gone assms(6-8) get_set_status [OF d2, of dep_failed]
    by (auto simp: s' fail_deployment_apps fail_deployment_rows)
qed

section \<open>Every run settles its deployment, or none does\<close>

lemma work_rows:
  assumes "prepared conts i s s1" and "work_step i (s1\<lparr>dr_cleaned := True\<rparr>) s2" and "get_deployment i (dr_rows s) = Some d" and "active d"
  obtains d2 where "get_deployment i (dr_rows s2) = Some d2" "active d2"
proof -
  obtain d1 where d1: "get_deployment i (dr_rows s1) = Some d1" "active d1"
    using assms(1,3,4) by (auto simp: prepared_def row_tagged_def dest!: get_tagged)
  with assms(2) obtain d2 where "get_deployment i (dr_rows s2) = Some d2" "active d2"
    by (auto simp: work_step_def row_tagged_def dest!: get_kept)
  then show ?thesis by (rule that)
qed

text \<open>
  C9: a task whose first and last queries answer settles its deployment. Under \<open>docker_ok\<close>, when the query that reads the
  deployment answers with an active row, this is the task's last attempt, and the status write of the
  failure path and the final transaction answer, then whatever the other queries, the runtime, the proxy,
  the clone, the build and the health check do, the row ends as a success when the task does and as a
  failure otherwise. (A task whose first query fails is refused and its row stays as it was.)
\<close>
theorem deploy_settles:
  assumes "docker_ok rt conts" and "accepts en p a s" and "handle_deploy_task rt px en p s = (r, s')"
    and "de_max_retry en \<le> de_retried en" and "db_ok en Settle ''UpdateDeploymentStatus''"
    and "list_all (db_ok en Finalize) (finalize_queries (pl_rollback p \<noteq> ''''))"
  shows "\<exists>d. get_deployment (pl_deployment p) (dr_rows s') = Some d \<and>
    dy_status d = (if r = TaskDone then dep_success else dep_failed) \<and> dy_finished d = Some (de_now en)"
proof -
  let ?i = "pl_deployment p"
  obtain d where d: "get_deployment ?i (dr_rows s) = Some d" "active d" using assms(2) by (auto simp: accepts_def)
  from assms(1-3) show ?thesis
  proof (cases rule: deploy_cases)
    case (early m s1)
    then obtain d1 where "get_deployment ?i (dr_rows s1) = Some d1" using d(1) by (auto simp: prepared_def dest!: get_tagged)
    then show ?thesis
      using early(1,2) assms(4,5) get_set_status [of ?i "dr_rows s1" d1 dep_failed] by (auto simp: fail_deployment_rows)
  next
    case (late s1 app)
    have "dr_compensators s1 = []" using late(1) by (simp add: prepared_def)
    from replace_outcome [OF assms(1) this late(6)] obtain s2 where w: "work_step ?i (s1\<lparr>dr_cleaned := True\<rparr>) s2"
      and last: "r = TaskDone \<and> s' = snd (finalize en p a s2) \<or> (\<exists>m. r = TaskFailed m \<and> s' = fail_deployment en ?i a m s2)" by blast
    from late(1) w d obtain d2 where d2: "get_deployment ?i (dr_rows s2) = Some d2" by (rule work_rows)
    from last show ?thesis
      using get_set_status [OF d2, of dep_success] get_set_status [OF d2, of dep_failed] assms(4,5) finalize_done(1) [OF assms(6), of a s2]
      by (auto simp: fail_deployment_rows)
  qed
qed

text \<open>
  a task whose context has expired leaves its deployment active. The failure path writes under the
  task's own context, so the row stays pending, building or deploying, and the application counts as
  deploying, although the task is over.
\<close>
theorem expired_context_leaves_active:
  assumes "docker_ok rt conts" and "accepts en p a s" and "handle_deploy_task rt px en p s = (r, s')"
    and "\<not> de_live en Settle" and "\<not> de_live en Finalize"
  shows "\<exists>d. get_deployment (pl_deployment p) (dr_rows s') = Some d \<and> active d \<and> 0 < count_active (dy_app d) (dr_rows s')"
proof -
  let ?i = "pl_deployment p"
  obtain d where d: "get_deployment ?i (dr_rows s) = Some d" "active d" using assms(2) by (auto simp: accepts_def)
  have dead: "\<not> db_ok en Settle q" "\<not> list_all (db_ok en Finalize) (finalize_queries b)" for q b
    using assms(4,5) by (simp_all add: db_ok_def finalize_queries_def)
  have "\<exists>d. get_deployment ?i (dr_rows s') = Some d \<and> active d"
    using assms(1-3)
  proof (cases rule: deploy_cases)
    case (early m s1)
    then obtain d1 where "get_deployment ?i (dr_rows s1) = Some d1" "active d1"
      using d by (auto simp: prepared_def row_tagged_def dest!: get_tagged)
    then show ?thesis using early(2) dead(1) by (simp add: fail_deployment_rows)
  next
    case (late s1 app)
    have "dr_compensators s1 = []" using late(1) by (simp add: prepared_def)
    from replace_outcome [OF assms(1) this late(6)] obtain s2 where w: "work_step ?i (s1\<lparr>dr_cleaned := True\<rparr>) s2"
      and last: "s' = snd (finalize en p a s2) \<or> (\<exists>m. s' = fail_deployment en ?i a m s2)" by blast
    from late(1) w d obtain d2 where "get_deployment ?i (dr_rows s2) = Some d2" "active d2" by (rule work_rows)
    then show ?thesis using last dead by (auto simp: fail_deployment_rows finalize_untouched)
  qed
  then obtain d' where d': "get_deployment ?i (dr_rows s') = Some d'" "active d'" by blast
  then have "d' \<in> set (dr_rows s')" by (auto simp: get_deployment_def find_Some_iff)
  with d'(2) have "0 < count_active (dy_app d') (dr_rows s')" by (auto simp: count_active_def active_def filter_empty_conv)
  with d' show ?thesis by blast
qed

text \<open>a deployment that has ended is never run again: a second delivery of its task changes nothing.\<close>
theorem ended_deployment_not_rerun:
  assumes "get_deployment (pl_deployment p) (dr_rows s) = Some d" and "dy_status d = dep_success \<or> dy_status d = dep_failed"
  shows "snd (handle_deploy_task rt px en p s) = s"
  using assms by (simp add: handle_deploy_task_def Let_def split: option.split)

section \<open>Rollback and reload\<close>

text \<open>Rows that agree but for rows without an image have the same latest success.\<close>

definition latest_alike :: "deployment_row \<Rightarrow> deployment_row \<Rightarrow> bool" where
  "latest_alike r r' \<longleftrightarrow> dy_started r' = dy_started r \<and> (r' = r \<or> dy_image r = '''' \<and> dy_image r' = '''')"

lemma alikeD: "latest_alike r r' \<Longrightarrow> dy_started r' = dy_started r" "latest_alike r r' \<Longrightarrow> r' = r \<or> dy_image r = [] \<and> dy_image r' = []"
  by (simp_all add: latest_alike_def)

lemma insort_alike:
  "list_all2 latest_alike xs ys \<Longrightarrow> latest_alike x y \<Longrightarrow> list_all2 latest_alike (insort_key dy_started x xs) (insort_key dy_started y ys)"
  by (induction xs ys rule: list_all2_induct) (simp_all add: alikeD(1))

lemma sort_alike: "list_all2 latest_alike xs ys \<Longrightarrow> list_all2 latest_alike (sort_key dy_started xs) (sort_key dy_started ys)"
  by (induction xs ys rule: list_all2_induct) (simp_all add: insort_alike)

lemma find_alike:
  "list_all2 latest_alike xs ys \<Longrightarrow>
     find (\<lambda>r. dy_app r = a \<and> dy_status r = dep_success \<and> dy_image r \<noteq> []) ys =
     find (\<lambda>r. dy_app r = a \<and> dy_status r = dep_success \<and> dy_image r \<noteq> []) xs"
  by (induction xs ys rule: list_all2_induct) (auto dest!: alikeD(2))

lemma latest_successful_alike: "list_all2 latest_alike rows rows' \<Longrightarrow> latest_successful a rows' = latest_successful a rows"
  unfolding latest_successful_def newest_first_def by (rule find_alike) (simp add: sort_alike)

text \<open>
  C39: a reload undoes a rollback. A rollback's own deployment never records its image, so after it
  succeeds, with the old image running, the latest success is still the build it rolled back from, and a
  reload queues that image again.
\<close>
theorem reload_undoes_rollback:
  assumes ok: "docker_ok rt conts" and acc: "accepts en p a s" and h: "handle_deploy_task rt px en p s = (TaskDone, s')"
    and fin: "list_all (db_ok en Finalize) (finalize_queries (pl_rollback p \<noteq> []))" and rb: "pl_rollback p \<noteq> []"
    and blank: "\<forall>r \<in> set (dr_rows s). dy_id r = pl_deployment p \<longrightarrow> dy_image r = []"
    and newest: "latest_successful a (dr_rows s) = Some l"
    and path: "trigger_target te c t = Inr a" "te_ok te ''GetLatestSuccessfulDeployment''" and desk: "dk_rows desk = dr_rows s'"
  shows "(\<exists>app k. find (\<lambda>r. da_id r = a) (dr_apps s) = Some app \<and> conts (dr_runtime s') (da_slug app) = Some k \<and>
      cc_image (ct_config k) = pl_rollback p) \<and>
    reload_application tq te c t desk = audit_trigger ''reload_application'' a
      (submit_deployment tq te ''critical'' ''deploy'' a t ''reload'' [] [] (dy_image l) [] desk)"
  using ok acc h
proof (cases rule: deploy_cases)
  case (late s1 app)
  have "dr_compensators s1 = []" using late(1) by (simp add: prepared_def)
  from replace_outcome [OF ok this late(6)] obtain s2 k where w: "work_step (pl_deployment p) (s1\<lparr>dr_cleaned := True\<rparr>) s2"
    and s': "s' = snd (finalize en p a s2)" and k: "conts (dr_runtime s2) (da_slug app) = Some k" "runs_image en p s1 k"
    by (auto simp: late(4))
  let ?i = "pl_deployment p"
  have "list_all2 (row_kept ?i) (dr_rows s1) (dr_rows s2)" using w by (simp add: work_step_def)
  with late(7) rb have kept: "list_all2 (row_kept ?i) (dr_rows s) (dr_rows s2)"
    by (auto intro: list_all2_trans [of "row_kept ?i" "row_kept ?i" "row_kept ?i"] row_kept_trans)
  have "latest_alike r (if dy_id r' = ?i then r'\<lparr>dy_status := dep_success, dy_error := [], dy_finished := f\<rparr> else r')"
    if "r \<in> set (dr_rows s)" "row_kept ?i r r'" for r r' f
    using that blank by (auto simp: row_kept_def row_tagged_def latest_alike_def)
  then have "list_all2 latest_alike (dr_rows s) (set_deployment_status ?i dep_success [] (de_now en) (dr_rows s2))"
    using kept by (simp add: set_deployment_status_def alter_deployment_def list_all2_conv_all_nth)
  from latest_successful_alike [OF this, of a] have "latest_successful a (dr_rows s') = Some l"
    using newest by (simp add: s' finalize_done(1) [OF fin])
  then have "reload_application tq te c t desk = audit_trigger ''reload_application'' a
      (submit_deployment tq te ''critical'' ''deploy'' a t ''reload'' [] [] (dy_image l) [] desk)"
    by (simp add: reload_application_def path(1) latest_deployed_def path(2) desk)
  then show ?thesis
    using late(2,5) rb k by (auto simp: s' finalize_done(3) [OF fin] runs_image_def image_to_run_def)
qed simp

section \<open>The volumes of an application\<close>

text \<open>
  a reload under another spelling of the id attaches other volumes. The names of an application's
  volumes come from the id as the request spelled it, so two accepted spellings that differ in their
  first eight characters, such as upper and lower case, give the one application disjoint volumes.
\<close>
theorem spelling_picks_the_volumes:
  assumes "docker_ok rt conts" and "accepts en p a s" and "handle_deploy_task rt px en p s = (TaskDone, s1)"
    and "accepts en p' a s1'" and "handle_deploy_task rt px en p' s1' = (TaskDone, s2)"
    and "list_all (db_ok en Finalize) (finalize_queries (pl_rollback p \<noteq> []))" "list_all (db_ok en Finalize) (finalize_queries (pl_rollback p' \<noteq> []))"
    and "dr_apps s1' = dr_apps s" and "8 \<le> length (pl_app p)" "8 \<le> length (pl_app p')" and "take 8 (pl_app p) \<noteq> take 8 (pl_app p')"
  shows "\<exists>n c c'. conts (dr_runtime s1) n = Some c \<and> conts (dr_runtime s2) n = Some c' \<and>
    card (dom (cc_volumes (ct_config c))) = card (dom (cc_volumes (ct_config c'))) \<and>
    dom (cc_volumes (ct_config c)) \<inter> dom (cc_volumes (ct_config c')) = {}"
proof -
  obtain app c where c: "find (\<lambda>r. da_id r = a) (dr_apps s) = Some app" "conts (dr_runtime s1) (da_slug app) = Some c"
    "dom (cc_volumes (ct_config c)) = app_volume_name (pl_app p) ` fst ` set (de_volumes en)"
    using deployed_core [OF assms(1-3,6)] dom_volumes by metis
  obtain app' c' where c': "find (\<lambda>r. da_id r = a) (dr_apps s1') = Some app'" "conts (dr_runtime s2) (da_slug app') = Some c'"
    "dom (cc_volumes (ct_config c')) = app_volume_name (pl_app p') ` fst ` set (de_volumes en)"
    using deployed_core [OF assms(1,4,5,7)] dom_volumes by metis
  have inj: "inj (app_volume_name t)" for t by (rule injI) (simp add: app_volume_name_def)
  have "app_volume_name (pl_app p) v \<noteq> app_volume_name (pl_app p') v'" for v v'
    using assms(9-11) by (simp add: app_volume_name_def append_eq_append_conv)
  then have "dom (cc_volumes (ct_config c)) \<inter> dom (cc_volumes (ct_config c')) = {}" unfolding c(3) c'(3) by blast
  moreover have "card (dom (cc_volumes (ct_config c))) = card (dom (cc_volumes (ct_config c')))"
    unfolding c(3) c'(3) by (simp add: card_image inj [THEN inj_on_subset])
  moreover have "app' = app" using c(1) c'(1) assms(8) by simp
  ultimately show ?thesis using c(2) c'(2) by (intro exI [of _ "da_slug app"] exI [of _ c] exI [of _ c']) simp
qed

section \<open>Witnesses\<close>

text \<open>A daemon that is its containers, and one application that serves.\<close>

definition map_docker :: "containers runtime_iface" where
  "map_docker = \<lparr>rt_create = (\<lambda>cfg m. if m (cc_name cfg) = None
       then (Some (''id-'' @ cc_name cfg), m(cc_name cfg \<mapsto> \<lparr>ct_id = ''id-'' @ cc_name cfg, ct_config = cfg, ct_running = False\<rparr>)) else (None, m)),
     rt_start = (\<lambda>i m. (True, switched i True m)), rt_stop = (\<lambda>n m. (True, switched n False m)), rt_remove = (\<lambda>n m. (True, without n m)),
     rt_pull = (\<lambda>_ m. (True, m)), rt_digest = (\<lambda>_ _. Some ''''), rt_network = (\<lambda>_ m. (True, m)), rt_connect = (\<lambda>_ _ m. (True, m)),
     rt_volume = (\<lambda>_ m. (True, m))\<rparr>"

lemma map_docker_ok: "docker_ok map_docker (\<lambda>m. m)"
  by (simp add: docker_ok_def map_docker_def)

lemma map_docker_removes: "removals_take_effect map_docker (\<lambda>m. m)"
  by (simp add: removals_take_effect_def map_docker_def)

definition demo_app :: deploy_app where
  "demo_app = zero_app\<lparr>da_id := 7, da_slug := ''shop'', da_type := ''image'', da_image := ''nginx'', da_status := ''running'', da_health_type := ''none''\<rparr>"

definition demo_task_env :: "(stage \<Rightarrow> bool) \<Rightarrow> (stage \<Rightarrow> string \<Rightarrow> bool) \<Rightarrow> deploy_env" where
  "demo_task_env live ok = \<lparr>de_live = live, de_ok = ok, de_cause = (\<lambda>q. q), de_redact = (\<lambda>m. m), de_scan = (\<lambda>_. Some 7), de_show = (\<lambda>_. ''1''),
     de_now = 500, de_retried = 0, de_max_retry = 0, de_host = True, de_dec = (\<lambda>_. None), de_project_env = [], de_app_env = [], de_owner = 1,
     de_quota = (\<lambda>_ _. None), de_integration = None, de_clone = (\<lambda>_ _. Inl ''refused''), de_build_dir = (\<lambda>_. None),
     de_build = (\<lambda>_ _ _. Inl ''no''), de_proxy_name = '''', de_api_name = '''', de_volumes = [(''data'', ''/data'')], de_mounts = [],
     de_mounts_dir = ''/mounts'', de_proxy_db = idle_db None, de_command_polls = [], de_http_polls = [], de_duration = (\<lambda>_. ''2m'')\<rparr>"

definition demo_config :: container_config where
  "demo_config = \<lparr>cc_name = ''shop'', cc_image = ''old'', cc_env = Map.empty, cc_network = '''', cc_app = ''7'', cc_deployment = ''0'',
     cc_volumes = Map.empty, cc_binds = [], cc_cpu = 0, cc_memory = 0, cc_health_path = '''', cc_cap_drop = [], cc_tmpfs = [], cc_readonly = False, cc_health = health_runtime_config zero_app\<rparr>"

definition demo_run :: "deploy_app \<Rightarrow> deployment_row list \<Rightarrow> (containers, unit) deploy_run" where
  "demo_run app rows = \<lparr>dr_app = zero_app, dr_container = '''', dr_container_id = '''', dr_env = Map.empty, dr_image = '''', dr_commit = '''',
     dr_domains = [], dr_cleaned = False, dr_build_only = False, dr_compensators = [], dr_rows = rows, dr_apps = [app], dr_files = [],
     dr_runtime = [''shop'' \<mapsto> \<lparr>ct_id = ''old'', ct_config = demo_config, ct_running = True\<rparr>], dr_proxy = ()\<rparr>"

definition demo_task :: "string \<Rightarrow> string \<Rightarrow> deploy_payload" where
  "demo_task app rollback = \<lparr>pl_app = app, pl_deployment = 1, pl_rollback = rollback, pl_commit = ''''\<rparr>"

abbreviation run_demo :: "deploy_env \<Rightarrow> string \<Rightarrow> string \<Rightarrow> deploy_app \<Rightarrow> deployment_row list \<Rightarrow> task_result \<times> (containers, unit) deploy_run" where
  "run_demo en app rollback a rows \<equiv> handle_deploy_task map_docker idle_proxy en (demo_task app rollback) (demo_run a rows)"

lemma demo_accepts: "de_live en Begin \<Longrightarrow> de_ok en Begin ''GetDeployment'' \<Longrightarrow> de_scan en app = Some 7 \<Longrightarrow> accepts en (demo_task app rb) 7 (demo_run a (demo_first # rest))"
  by (simp add: accepts_def demo_task_def demo_run_def get_deployment_def demo_first_def new_deployment_def active_def db_ok_def)

abbreviation demo_up :: deploy_env where
  "demo_up \<equiv> demo_task_env (\<lambda>_. True) (\<lambda>_ _. True)"

lemma demo_env_simps [simp]:
  "de_live (demo_task_env live ok) = live" "de_ok (demo_task_env live ok) = ok" "de_scan (demo_task_env live ok) t = Some 7"
  "de_host (demo_task_env live ok)" "de_quota (demo_task_env live ok) u v = None" "de_volumes (demo_task_env live ok) = [(''data'', ''/data'')]"
  "de_mounts (demo_task_env live ok) = []" "de_proxy_db (demo_task_env live ok) = idle_db None" "de_now (demo_task_env live ok) = 500"
  "de_retried (demo_task_env live ok) = 0" "de_max_retry (demo_task_env live ok) = 0" "de_show (demo_task_env live ok) u = ''1''"
  "db_ok (demo_task_env live ok) st q \<longleftrightarrow> live st \<and> ok st q"
  by (simp_all add: demo_task_env_def db_ok_def)

lemma run_create:
  "dr_runtime s (dr_container s) = None \<Longrightarrow> fst (create_and_start map_docker demo_up p s) = None"
  by (simp add: create_and_start_def on_runtime_def write_file_mounts_def map_docker_def config_of_run_def Let_def)

lemma demo_wire: "dr_domains s = [] \<Longrightarrow> wire_proxy idle_proxy demo_up a s = (None, s\<lparr>dr_domains := []\<rparr>)"
  by (simp add: wire_proxy_def listed_domains_def idle_db_def)

lemma run_verify: "da_health_type (dr_app s) = ''none'' \<Longrightarrow> fst (verify_health demo_up i a s) = None"
  by (simp add: verify_health_def Let_def)

lemma demo_load:
  fixes rows app
  defines "b \<equiv> blank_run (demo_run app rows) zero_app False"
  assumes "da_id app = 7"
  shows "fst (load_application demo_up p 7 b) = None" "dr_app (snd (load_application demo_up p 7 b)) = app"
    "dr_domains (snd (load_application demo_up p 7 b)) = []"
  using assms(2) by (simp_all add: b_def load_application_def blank_run_def demo_run_def Let_def)

lemma demo_prepare:
  "da_type (dr_app s) = ''image'' \<or> pl_rollback p \<noteq> [] \<Longrightarrow> fst (prepare_image map_docker demo_up p s) = None"
  by (auto simp: prepare_image_def pull_image_def on_runtime_def map_docker_def Let_def split: option.split)

lemma demo_replace:
  assumes "dr_domains s = []"
  shows "\<exists>s3. dr_app s3 = dr_app s \<and> replace_container map_docker idle_proxy demo_up p 7 s =
    (case verify_health demo_up (pl_deployment p) 7 s3 of
       (Some e, s) \<Rightarrow> rolled_back map_docker idle_proxy demo_up (pl_deployment p) 7 (''health check failed: '' @ e) s
     | (None, s) \<Rightarrow> (TaskDone, snd (finalize demo_up p 7 s)))"
proof -
  let ?s1 = "ensure_networks map_docker demo_up ((cleanup_existing map_docker demo_up p s)\<lparr>dr_cleaned := True\<rparr>)"
  define i where "i = pl_deployment p"
  have "quiet_step (\<lambda>m. m) i ((cleanup_existing map_docker demo_up p s)\<lparr>dr_cleaned := True\<rparr>) ?s1"
    by (rule ensure_networks_quiet [OF map_docker_ok])
  then have q: "dr_runtime ?s1 = dr_runtime (cleanup_existing map_docker demo_up p s)" "dr_app ?s1 = dr_app s"
    using cleanup_existing_keeps(1) [of i s map_docker demo_up p] by (simp_all add: quiet_step_def work_step_def)
  have "dr_runtime (cleanup_existing map_docker demo_up p s) (dr_container s) = None"
    by (rule cleanup_existing_gone [OF map_docker_ok map_docker_removes]) (simp_all add: names_of_def)
  then obtain s2 where c: "create_and_start map_docker demo_up p ?s1 = (None, s2)"
    using run_create [of ?s1 p] q by (cases "create_and_start map_docker demo_up p ?s1") simp
  from create_and_start_outcome [OF map_docker_ok c, of i] have k: "dr_domains s2 = []" "dr_app s2 = dr_app s"
    using assms q by (simp_all add: work_step_def)
  show ?thesis
    by (rule exI [of _ "s2\<lparr>dr_domains := []\<rparr>"]) (simp add: replace_container_def Let_def c demo_wire [OF k(1)] k(2))
qed

lemma update_status_domains [simp]: "dr_domains (update_deployment_status en st i from to s) = dr_domains s"
proof -
  have "dr_domains (set_row_status en st i to e s) = dr_domains s" "dr_domains (stamp en st q f i s) = dr_domains s"
    for to e q f and s :: "('a, 'b) deploy_run"
    by (simp_all add: set_row_status_def stamp_def)
  then show ?thesis by (simp add: update_deployment_status_def Let_def)
qed

lemma pull_image_domains: "dr_domains (snd (pull_image rt en p s)) = dr_domains s"
  using on_runtime_keeps(7)
  by (simp add: pull_image_def Let_def on_runtime_def split: prod.split bool.split option.split)

lemma demo_domains:
  "da_type (dr_app s) = ''image'' \<or> pl_rollback p \<noteq> [] \<Longrightarrow> dr_domains (snd (prepare_image map_docker demo_up p s)) = dr_domains s"
  using pull_image_domains [of map_docker demo_up p s]
  by (auto simp: prepare_image_def Let_def split: option.split prod.split)

lemma demo_reaches:
  assumes "da_id app = 7" and "da_type app = ''image'' \<or> rb \<noteq> []"
  shows "\<exists>s2. run_demo demo_up t rb app (demo_first # rest) = replace_container map_docker idle_proxy demo_up (demo_task t rb) 7 s2 \<and>
    prepared (\<lambda>m. m) 1 (demo_run app (demo_first # rest)) s2 \<and> dr_app s2 = app \<and> dr_domains s2 = []"
proof -
  let ?p = "demo_task t rb" and ?b = "blank_run (demo_run app (demo_first # rest)) zero_app False"
  note ld = demo_load [OF assms(1), where p = ?p and rows = "demo_first # rest"]
  obtain s1 where l: "load_application demo_up ?p 7 ?b = (None, s1)" using ld(1) by (cases "load_application demo_up ?p 7 ?b") simp
  have a1: "dr_app s1 = app" "dr_domains s1 = []" using ld(2,3) by (simp_all add: l)
  obtain s2 where pr: "prepare_image map_docker demo_up ?p s1 = (None, s2)"
    using demo_prepare [of s1 ?p] assms(2) a1(1) by (cases "prepare_image map_docker demo_up ?p s1") (auto simp: demo_task_def)
  have p1: "prepared (\<lambda>m. m) (pl_deployment ?p) (demo_run app (demo_first # rest)) s1"
    using load_application_work(2-8) [of demo_up ?p 7 ?b, unfolded l snd_conv] by (simp add: prepared_def list_all2_refl blank_run_def)
  obtain s3 where q: "quiet_step (\<lambda>m. m) (pl_deployment ?p) s1 s3"
    and s2: "s2 = s3 \<or> (\<exists>tag. s2 = s3\<lparr>dr_rows := set_image_tag (pl_deployment ?p) tag (dr_rows s3)\<rparr>)"
    using prepare_image_quiet [OF map_docker_ok, of ?p s1 demo_up] by (auto simp: pr)
  have p2: "prepared (\<lambda>m. m) (pl_deployment ?p) (demo_run app (demo_first # rest)) s2"
    using s2 prepared_quiet [OF p1 q] prepared_rows by fastforce
  have a2: "dr_app s2 = app" using q s2 a1 by (auto simp: quiet_step_def work_step_def)
  have d2: "dr_domains s2 = []"
    using demo_domains [of s1 ?p, unfolded pr snd_conv] assms(2) a1 by (simp add: demo_task_def)
  have "get_deployment (pl_deployment ?p) (dr_rows (demo_run app (demo_first # rest))) = Some demo_first"
    by (simp add: demo_task_def demo_run_def get_deployment_def demo_first_def new_deployment_def)
  then have "run_demo demo_up t rb app (demo_first # rest) = replace_container map_docker idle_proxy demo_up ?p 7 s2"
    using l pr by (simp add: handle_deploy_task_def Let_def check_deploy_quota_def demo_first_def new_deployment_def dep_status_defs)
  then show ?thesis using p2 d2 a2 by (auto simp: demo_task_def)
qed

lemma demo_done:
  assumes "da_id app = 7" and "da_health_type app = ''none''" and "da_type app = ''image'' \<or> rb \<noteq> []"
  shows "fst (run_demo demo_up t rb app (demo_first # rest)) = TaskDone"
proof -
  obtain s2 where s2: "run_demo demo_up t rb app (demo_first # rest) = replace_container map_docker idle_proxy demo_up (demo_task t rb) 7 s2"
    "dr_app s2 = app" "dr_domains s2 = []"
    using demo_reaches [OF assms(1,3)] by blast
  from demo_replace [OF s2(3), of "demo_task t rb"] s2(2) obtain s3 where s3: "dr_app s3 = app"
    "run_demo demo_up t rb app (demo_first # rest) = (case verify_health demo_up (pl_deployment (demo_task t rb)) 7 s3 of
       (Some e, s) \<Rightarrow> rolled_back map_docker idle_proxy demo_up (pl_deployment (demo_task t rb)) 7 (''health check failed: '' @ e) s
     | (None, s) \<Rightarrow> (TaskDone, snd (finalize demo_up (demo_task t rb) 7 s)))"
    unfolding s2(1) by blast
  with run_verify [of s3 "pl_deployment (demo_task t rb)" 7] assms(2) show ?thesis
    by (cases "verify_health demo_up (pl_deployment (demo_task t rb)) 7 s3") simp
qed

lemma demo_finalize: "list_all (db_ok demo_up Finalize) (finalize_queries b)"
  by (simp add: list_all_iff)

lemma demo_done_pair:
  assumes "da_id app = 7" and "da_health_type app = ''none''" and "da_type app = ''image'' \<or> rb \<noteq> []"
  shows "run_demo demo_up t rb app (demo_first # rest) = (TaskDone, snd (run_demo demo_up t rb app (demo_first # rest)))"
  using demo_done [OF assms] by (metis prod.collapse)

lemma demo_app_simps [simp]:
  "da_id demo_app = 7" "da_health_type demo_app = ''none''" "da_type demo_app = ''image''" "da_slug demo_app = ''shop''" "da_status demo_app = ''running''"
  by (simp_all add: demo_app_def zero_app_def)

lemma demo_run_simps [simp]:
  "dr_apps (demo_run app rows) = [app]" "dr_rows (demo_run app rows) = rows" "pl_deployment (demo_task t rb) = 1"
  "pl_app (demo_task t rb) = t" "pl_rollback (demo_task t rb) = rb"
  by (simp_all add: demo_run_def demo_task_def)

lemma demo_deploy: "run_demo demo_up ''7'' [] demo_app [demo_first] = (TaskDone, snd (run_demo demo_up ''7'' [] demo_app [demo_first]))"
  by (rule demo_done_pair) simp_all

lemma demo_accepted: "accepts demo_up (demo_task t rb) 7 (demo_run a (demo_first # rest))"
  by (rule demo_accepts) simp_all

theorem deployed_serves_witness:
  "\<exists>c. dr_runtime (snd (run_demo demo_up ''7'' [] demo_app [demo_first])) ''shop'' = Some c \<and> ct_running c \<and>
     cc_image (ct_config c) = ''nginx'' \<and> cc_volumes (ct_config c) = [''belune-vol-7-data'' \<mapsto> ''/data'']"
proof -
  have img: "image_to_run map_docker demo_up (demo_task ''7'' []) demo_app r i \<longleftrightarrow> i = ''nginx''" for r i
    by (simp add: image_to_run_def map_docker_def) (simp add: demo_app_def)
  have vol: "volumes_of_run demo_up (demo_task ''7'' []) = [''belune-vol-7-data'' \<mapsto> ''/data'']"
    by (simp add: volumes_of_run_def app_volume_name_def)
  show ?thesis
    using deployed_serves [OF map_docker_ok demo_accepted demo_deploy demo_finalize] by (auto simp: img vol)
qed

theorem deploy_settles_witness:
  "\<exists>d. get_deployment 1 (dr_rows (snd (run_demo demo_up ''7'' [] demo_app [demo_first]))) = Some d \<and> dy_status d = dep_success"
  using deploy_settles [OF map_docker_ok demo_accepted demo_deploy _ _ demo_finalize] by auto

theorem ended_deployment_not_rerun_witness:
  "snd (run_demo demo_up ''7'' '''' demo_app [demo_first\<lparr>dy_status := dep_failed\<rparr>]) = demo_run demo_app [demo_first\<lparr>dy_status := dep_failed\<rparr>]"
  by (rule ended_deployment_not_rerun [where d = "demo_first\<lparr>dy_status := dep_failed\<rparr>"])
    (simp_all add: get_deployment_def demo_first_def new_deployment_def)


definition demo_older :: deployment_row where
  "demo_older = (new_deployment 0 50 7 ''manual'' [] [])\<lparr>dy_status := dep_success, dy_image := ''v2''\<rparr>"

lemma demo_rollback_done:
  "run_demo demo_up ''7'' ''v1'' demo_app [demo_first, demo_older] = (TaskDone, snd (run_demo demo_up ''7'' ''v1'' demo_app [demo_first, demo_older]))"
  by (rule demo_done_pair) simp_all

theorem reload_undoes_rollback_witness:
  "\<exists>k. dr_runtime (snd (run_demo demo_up ''7'' ''v1'' demo_app [demo_first, demo_older])) ''shop'' = Some k \<and> cc_image (ct_config k) = ''v1'' \<and>
     (\<forall>q. reload_application map_queue (demo_desk_env 9 600) (demo_caller ''admin'' None) ''7''
         \<lparr>dk_rows = dr_rows (snd (run_demo demo_up ''7'' ''v1'' demo_app [demo_first, demo_older])), dk_queue = q, dk_audit = []\<rparr> =
       audit_trigger ''reload_application'' 7 (submit_deployment map_queue (demo_desk_env 9 600) ''critical'' ''deploy'' 7 ''7'' ''reload'' [] [] ''v2'' []
         \<lparr>dk_rows = dr_rows (snd (run_demo demo_up ''7'' ''v1'' demo_app [demo_first, demo_older])), dk_queue = q, dk_audit = []\<rparr>))"
proof -
  have latest: "latest_successful 7 [demo_first, demo_older] = Some demo_older"
    by (simp add: latest_successful_def newest_first_def demo_first_def demo_older_def new_deployment_def dep_status_defs)
  have path: "trigger_target (demo_desk_env 9 600) (demo_caller ''admin'' None) ''7'' = Inr 7"
    by (simp add: trigger_target_def demo_desk_env_def can_access_application_def can_access_owned_def owned_access_def demo_caller_def)
  have img: "dy_image demo_older = ''v2''" by (simp add: demo_older_def)
  note r = reload_undoes_rollback [OF map_docker_ok demo_accepted demo_rollback_done demo_finalize _ _ _ path, where l = demo_older and tq = map_queue]
  show ?thesis
    using r [where desk = "\<lparr>dk_rows = dr_rows (snd (run_demo demo_up ''7'' ''v1'' demo_app [demo_first, demo_older])), dk_queue = q, dk_audit = []\<rparr>" for q]
      latest img by (auto simp: demo_first_def new_deployment_def demo_older_def demo_desk_env_def)
qed

theorem spelling_picks_the_volumes_witness:
  "\<exists>n c c'. dr_runtime (snd (run_demo demo_up ''ABCDEF12'' [] demo_app [demo_first])) n = Some c \<and>
     dr_runtime (snd (run_demo demo_up ''abcdef12'' [] demo_app [demo_first])) n = Some c' \<and>
     dom (cc_volumes (ct_config c)) \<inter> dom (cc_volumes (ct_config c')) = {}"
proof -
  have d: "run_demo demo_up t [] demo_app [demo_first] = (TaskDone, snd (run_demo demo_up t [] demo_app [demo_first]))" for t
    by (rule demo_done_pair) simp_all
  show ?thesis
    using spelling_picks_the_volumes [OF map_docker_ok demo_accepted d [of "''ABCDEF12''"] demo_accepted d [of "''abcdef12''"] demo_finalize demo_finalize] by simp blast
qed

theorem expired_context_leaves_active_witness:
  "\<exists>d. get_deployment 1 (dr_rows (snd (run_demo (demo_task_env (\<lambda>st. st \<noteq> Settle \<and> st \<noteq> Finalize) (\<lambda>_ _. True)) ''7'' [] demo_app [demo_first]))) = Some d \<and> active d"
proof -
  let ?en = "demo_task_env (\<lambda>st. st \<noteq> Settle \<and> st \<noteq> Finalize) (\<lambda>_ _. True)"
  have "accepts ?en (demo_task ''7'' []) 7 (demo_run demo_app [demo_first])" by (rule demo_accepts) simp_all
  from expired_context_leaves_active [OF map_docker_ok this prod.collapse [symmetric]] show ?thesis by auto
qed

theorem unread_application_is_errored_witness:
  "dr_apps (snd (run_demo (demo_task_env (\<lambda>_. True) (\<lambda>st _. st \<noteq> Load)) ''7'' [] demo_app [demo_first])) = [demo_app\<lparr>da_status := ''error''\<rparr>]"
proof -
  let ?en = "demo_task_env (\<lambda>_. True) (\<lambda>st _. st \<noteq> Load)"
  have "accepts ?en (demo_task ''7'' []) 7 (demo_run demo_app [demo_first])" by (rule demo_accepts) simp_all
  from unread_application_is_errored [OF this prod.collapse [symmetric]] show ?thesis by (simp add: set_app_status_def alter_app_def)
qed

text \<open>Two runs that fail, before and after the teardown.\<close>

lemma demo_fails:
  assumes "de_live en Begin" "de_ok en Begin ''GetDeployment''" "de_scan en t = Some 7" "de_live en Load" "de_host en"
    "de_quota en = (\<lambda>_ _. None)" "de_ok en Load ''GetApplicationWithProjectSlug''" and "\<not> de_live en Prepare"
  shows "\<not> dr_cleaned (snd (run_demo en t [] demo_app [demo_first]))"
proof -
  let ?p = "demo_task t []" and ?b = "blank_run (demo_run demo_app [demo_first]) zero_app False"
  have l: "fst (load_application en ?p 7 ?b) = None" "dr_app (snd (load_application en ?p 7 ?b)) = demo_app"
    using assms by (simp_all add: load_application_def db_ok_def blank_run_def Let_def)
  obtain s1 where s1: "load_application en ?p 7 ?b = (None, s1)" "dr_app s1 = demo_app" "\<not> dr_cleaned s1"
    using l load_application_work(6) [of en ?p 7 ?b] by (cases "load_application en ?p 7 ?b") (auto simp: blank_run_def)
  have "fst (prepare_image map_docker en ?p s1) \<noteq> None"
    using assms(8) s1(2) by (simp add: prepare_image_def pull_image_def on_runtime_def Let_def)
  then obtain e s2 where pr: "prepare_image map_docker en ?p s1 = (Some e, s2)"
    by (cases "prepare_image map_docker en ?p s1") auto
  obtain s3 where "quiet_step (\<lambda>m. m) (pl_deployment ?p) s1 s3" "s2 = s3 \<or> (\<exists>tag. s2 = s3\<lparr>dr_rows := set_image_tag (pl_deployment ?p) tag (dr_rows s3)\<rparr>)"
    using prepare_image_quiet [OF map_docker_ok, of ?p s1 en] by (auto simp: pr)
  with s1(3) have "\<not> dr_cleaned s2" by (auto simp: quiet_step_def work_step_def)
  moreover have "run_demo en t [] demo_app [demo_first] = (TaskFailed e, fail_deployment en 1 7 e s2)"
    using assms s1(1) pr
    by (simp add: handle_deploy_task_def Let_def check_deploy_quota_def db_ok_def get_deployment_def demo_first_def new_deployment_def dep_status_defs)
  ultimately show ?thesis by simp
qed

theorem failed_preparation_keeps_serving_witness:
  "dr_runtime (snd (run_demo (demo_task_env (\<lambda>st. st \<noteq> Prepare) (\<lambda>_ _. True)) ''7'' [] demo_app [demo_first])) =
     dr_runtime (demo_run demo_app [demo_first])"
proof -
  let ?en = "demo_task_env (\<lambda>st. st \<noteq> Prepare) (\<lambda>_ _. True)"
  have acc: "accepts ?en (demo_task ''7'' []) 7 (demo_run demo_app [demo_first])" by (rule demo_accepts) simp_all
  have early: "\<not> dr_cleaned (snd (run_demo ?en ''7'' [] demo_app [demo_first]))" by (rule demo_fails) (simp_all add: fun_eq_iff)
  from failed_preparation_keeps_serving [OF map_docker_ok acc prod.collapse [symmetric] early] show ?thesis by simp
qed


definition demo_checked :: deploy_app where
  "demo_checked = demo_app\<lparr>da_health_type := ''http'', da_health_path := ''/health''\<rparr>"

theorem failed_deploy_leaves_nothing_witness:
  "dr_runtime (snd (run_demo demo_up ''7'' [] demo_checked [demo_first])) ''shop'' = None"
proof -
  have app: "da_id demo_checked = 7" "da_type demo_checked = ''image''" "da_slug demo_checked = ''shop''"
    "da_health_type demo_checked = ''http''" "da_health_path demo_checked = ''/health''"
    by (simp_all add: demo_checked_def)
  obtain s2 where s2: "run_demo demo_up ''7'' [] demo_checked [demo_first] = replace_container map_docker idle_proxy demo_up (demo_task ''7'' []) 7 s2"
    "prepared (\<lambda>m. m) 1 (demo_run demo_checked [demo_first]) s2" "dr_app s2 = demo_checked" "dr_domains s2 = []"
    using demo_reaches [of demo_checked "[]" "''7''" "[]"] app by auto
  have verify: "fst (verify_health demo_up i 7 s) \<noteq> None" if "dr_app s = demo_checked" for i s
    using that app by (simp add: verify_health_def Let_def settle_health_def demo_task_env_def)
  obtain s3 where s3: "dr_app s3 = dr_app s2"
    "replace_container map_docker idle_proxy demo_up (demo_task ''7'' []) 7 s2 = (case verify_health demo_up (pl_deployment (demo_task ''7'' [])) 7 s3 of
       (Some e, s) \<Rightarrow> rolled_back map_docker idle_proxy demo_up (pl_deployment (demo_task ''7'' [])) 7 (''health check failed: '' @ e) s
     | (None, s) \<Rightarrow> (TaskDone, snd (finalize demo_up (demo_task ''7'' []) 7 s)))"
    using demo_replace [OF s2(4), of "demo_task ''7'' []"] by (elim exE conjE)
  obtain x s4 where v: "verify_health demo_up (pl_deployment (demo_task ''7'' [])) 7 s3 = (x, s4)" by (rule prod.exhaust)
  with verify [OF s3(1) [unfolded s2(3)], of "pl_deployment (demo_task ''7'' [])"] obtain e where x: "x = Some e" by (cases x) simp_all
  have m0: "fst (run_demo demo_up ''7'' [] demo_checked [demo_first]) = TaskFailed (''health check failed: '' @ e)"
    unfolding s2(1) s3(2) v x rolled_back_def by simp
  then obtain m where m: "fst (run_demo demo_up ''7'' [] demo_checked [demo_first]) = TaskFailed m" by blast
  have cleaned: "dr_cleaned (snd (run_demo demo_up ''7'' [] demo_checked [demo_first]))"
    using replaced_is_cleaned [OF map_docker_ok s2(2) prod.collapse [symmetric]] s2(1) by simp
  from m have "run_demo demo_up ''7'' [] demo_checked [demo_first] = (TaskFailed m, snd (run_demo demo_up ''7'' [] demo_checked [demo_first]))"
    by (metis prod.collapse)
  from failed_deploy_leaves_nothing [OF map_docker_ok demo_accepted this cleaned _ _ _ _ map_docker_removes] show ?thesis by (auto simp: app)
qed

end
