(* ===== verification/EventWatcher.thy ===== *)
theory EventWatcher
  imports DeployTask Keyring
begin

text \<open>
  The event watcher (\<open>internal/eventwatcher/watcher.go\<close>): how container events and the reconciliation at
  startup turn what Docker does into the stored status of applications and databases, and how a deliberate
  stop (\<open>service.ApplicationService\<close>) meets them.

  An environment says which queries answer. The broadcast of a change to WebSocket clients and the log
  lines are left out. A label that an event lacks reads as the empty string, as a Go map does.
\<close>

section \<open>Events\<close>

record container_event =
  ev_action :: string
  ev_app :: string
  ev_database :: string
  ev_exit :: string

definition is_health_event :: "string \<Rightarrow> bool" where
  "is_health_event action \<longleftrightarrow> prefix ''health_status'' action"

definition exit_status :: "string \<Rightarrow> string" where
  "exit_status code =
     (if code = '''' \<or> code = ''0'' then ''stopped''
      else case atoi code of
        None \<Rightarrow> ''stopped''
      | Some n \<Rightarrow> if n > 128 \<and> n \<le> 128 + 64 then ''stopped'' else ''error'')"

definition application_status_for_event :: "container_event \<Rightarrow> string option" where
  "application_status_for_event e =
     (if is_health_event (ev_action e)
      then Some (if suffix ''healthy'' (ev_action e) \<and> \<not> suffix ''unhealthy'' (ev_action e) then ''running'' else ''unhealthy'')
      else if ev_action e = ''start'' \<or> ev_action e = ''restart'' then Some ''running''
      else if ev_action e = ''stop'' then Some ''stopped''
      else if ev_action e = ''die'' then Some (exit_status (ev_exit e))
      else if ev_action e = ''oom'' then Some ''error''
      else None)"

definition apply_die_status :: "string \<Rightarrow> string \<Rightarrow> bool" where
  "apply_die_status derived current \<longleftrightarrow>
     \<not> (derived = ''stopped'' \<and> current = ''error'') \<and> \<not> (derived = ''error'' \<and> current = ''stopped'')"

definition database_status_for_event :: "container_event \<Rightarrow> string option" where
  "database_status_for_event e =
     (if ev_action e = ''start'' \<or> ev_action e = ''restart'' then Some ''running''
      else if ev_action e = ''stop'' then Some ''stopped''
      else if ev_action e = ''die'' then Some (if ev_exit e = ''0'' then ''stopped'' else ''failed'')
      else if ev_action e = ''oom'' then Some ''failed''
      else None)"

definition is_transitional_db_status :: "string \<Rightarrow> bool" where
  "is_transitional_db_status s \<longleftrightarrow> s = ''creating'' \<or> s = ''upgrading'' \<or> s = ''backing_up''"

section \<open>The two tables and the handlers\<close>

record watched_db =
  wd_id :: uuid
  wd_slug :: string
  wd_status :: string

record watch_state =
  ws_apps :: "deploy_app list"
  ws_dbs :: "watched_db list"

record watch_env =
  we_ok :: "string \<Rightarrow> bool"
  we_scan :: "string \<Rightarrow> uuid option"
  we_show :: "uuid \<Rightarrow> string"
  we_health :: "string \<Rightarrow> string option"

definition app_status :: "uuid \<Rightarrow> watch_state \<Rightarrow> string option" where
  "app_status a s = map_option da_status (find (\<lambda>r. da_id r = a) (ws_apps s))"

definition db_status :: "uuid \<Rightarrow> watch_state \<Rightarrow> string option" where
  "db_status d s = map_option wd_status (find (\<lambda>r. wd_id r = d) (ws_dbs s))"

definition set_db_status :: "uuid \<Rightarrow> string \<Rightarrow> watched_db list \<Rightarrow> watched_db list" where
  "set_db_status d st rows = map (\<lambda>r. if wd_id r = d then r\<lparr>wd_status := st\<rparr> else r) rows"

definition update_app_status :: "watch_env \<Rightarrow> uuid \<Rightarrow> string \<Rightarrow> watch_state \<Rightarrow> watch_state" where
  "update_app_status en a st s = (if we_ok en ''UpdateApplicationStatus'' then s\<lparr>ws_apps := set_app_status a st (ws_apps s)\<rparr> else s)"

definition update_database_status :: "watch_env \<Rightarrow> uuid \<Rightarrow> string \<Rightarrow> watch_state \<Rightarrow> watch_state" where
  "update_database_status en d st s = (if we_ok en ''UpdateDatabaseStatus'' then s\<lparr>ws_dbs := set_db_status d st (ws_dbs s)\<rparr> else s)"

definition current_app :: "watch_env \<Rightarrow> uuid \<Rightarrow> watch_state \<Rightarrow> string option" where
  "current_app en a s = (if we_ok en ''GetApplication'' then app_status a s else None)"

definition handle_application_event :: "watch_env \<Rightarrow> container_event \<Rightarrow> watch_state \<Rightarrow> watch_state" where
  "handle_application_event en e s =
     (case we_scan en (ev_app e) of
        None \<Rightarrow> s
      | Some a \<Rightarrow>
          (case application_status_for_event e of
             None \<Rightarrow> s
           | Some new \<Rightarrow>
               if ev_action e = ''die'' \<and> (case current_app en a s of Some c \<Rightarrow> \<not> apply_die_status new c | None \<Rightarrow> False) then s
               else if is_health_event (ev_action e) \<and>
                 (case current_app en a s of Some c \<Rightarrow> c \<noteq> ''running'' \<and> c \<noteq> ''unhealthy'' | None \<Rightarrow> False) then s
               else update_app_status en a new s))"

definition handle_database_event :: "watch_env \<Rightarrow> container_event \<Rightarrow> watch_state \<Rightarrow> watch_state" where
  "handle_database_event en e s =
     (case we_scan en (ev_database e) of
        None \<Rightarrow> s
      | Some d \<Rightarrow>
          (case database_status_for_event e of
             None \<Rightarrow> s
           | Some new \<Rightarrow>
               if (case (if we_ok en ''GetDatabase'' then db_status d s else None) of Some c \<Rightarrow> is_transitional_db_status c | None \<Rightarrow> False)
               then s else update_database_status en d new s))"

definition handle_event :: "watch_env \<Rightarrow> container_event \<Rightarrow> watch_state \<Rightarrow> watch_state" where
  "handle_event en e s =
     (if ev_app e \<noteq> '''' then handle_application_event en e s
      else if ev_database e \<noteq> '''' then handle_database_event en e s else s)"

section \<open>Reconciliation\<close>

record listed_container =
  ci_name :: string
  ci_state :: string
  ci_app :: "string option"
  ci_database :: "string option"
  ci_helper :: bool
  ci_created :: instant

definition is_transient_state :: "string \<Rightarrow> bool" where
  "is_transient_state st \<longleftrightarrow> st = ''restarting'' \<or> st = ''removing'' \<or> st = ''created'' \<or> st = ''paused''"

record container_index =
  ix_running_apps :: "string \<rightharpoonup> string"
  ix_running_dbs :: "string set"
  ix_running_names :: "string set"
  ix_transient_apps :: "string set"
  ix_transient_dbs :: "string set"
  ix_transient_names :: "string set"

definition index_one :: "listed_container \<Rightarrow> container_index \<Rightarrow> container_index" where
  "index_one c ix =
     (if ci_state c = ''running''
      then ix\<lparr>ix_running_names := insert (ci_name c) (ix_running_names ix),
             ix_running_apps := (case ci_app c of Some a \<Rightarrow> (ix_running_apps ix)(a \<mapsto> ci_name c) | None \<Rightarrow> ix_running_apps ix),
             ix_running_dbs := set_option (ci_database c) \<union> ix_running_dbs ix\<rparr>
      else if is_transient_state (ci_state c)
      then ix\<lparr>ix_transient_names := insert (ci_name c) (ix_transient_names ix),
             ix_transient_apps := set_option (ci_app c) \<union> ix_transient_apps ix,
             ix_transient_dbs := set_option (ci_database c) \<union> ix_transient_dbs ix\<rparr>
      else ix)"

definition build_container_index :: "listed_container list \<Rightarrow> container_index" where
  "build_container_index cs = foldl (\<lambda>ix c. index_one c ix)
     \<lparr>ix_running_apps = Map.empty, ix_running_dbs = {}, ix_running_names = {},
      ix_transient_apps = {}, ix_transient_dbs = {}, ix_transient_names = {}\<rparr> cs"

text \<open>What the sample says the status of one row should be, \<open>None\<close> to leave it.\<close>

definition app_verdict :: "watch_env \<Rightarrow> container_index \<Rightarrow> deploy_app \<Rightarrow> string option" where
  "app_verdict en ix a =
     (case ix_running_apps ix (we_show en (da_id a)) of
        None \<Rightarrow>
          if we_show en (da_id a) \<in> ix_transient_apps ix then None
          else if da_status a = ''running'' \<or> da_status a = ''unhealthy'' then Some ''stopped'' else None
      | Some name \<Rightarrow>
          let desired = (if da_health_type a = ''command'' \<and> we_health en name = Some ''unhealthy'' then ''unhealthy'' else ''running'')
          in if da_status a \<noteq> desired \<and> da_status a \<in> {''stopped'', ''error'', ''running'', ''unhealthy''} then Some desired else None)"

definition db_verdict :: "watch_env \<Rightarrow> container_index \<Rightarrow> watched_db \<Rightarrow> string option" where
  "db_verdict en ix d =
     (let running = we_show en (wd_id d) \<in> ix_running_dbs ix \<or> wd_slug d \<in> ix_running_names ix
      in if \<not> running \<and> (we_show en (wd_id d) \<in> ix_transient_dbs ix \<or> wd_slug d \<in> ix_transient_names ix) then None
         else if wd_status d = ''running'' \<and> \<not> running then Some ''stopped''
         else if wd_status d = ''stopped'' \<and> running then Some ''running'' else None)"

definition reconcile_apps :: "watch_env \<Rightarrow> container_index \<Rightarrow> watch_state \<Rightarrow> watch_state" where
  "reconcile_apps en ix s =
     foldl (\<lambda>s a. case app_verdict en ix a of Some st \<Rightarrow> update_app_status en (da_id a) st s | None \<Rightarrow> s) s (ws_apps s)"

definition reconcile_dbs :: "watch_env \<Rightarrow> container_index \<Rightarrow> watch_state \<Rightarrow> watch_state" where
  "reconcile_dbs en ix s =
     foldl (\<lambda>s d. case db_verdict en ix d of Some st \<Rightarrow> update_database_status en (wd_id d) st s | None \<Rightarrow> s) s (ws_dbs s)"

definition reconcile_statuses :: "watch_env \<Rightarrow> listed_container list option \<Rightarrow> watch_state \<Rightarrow> watch_state" where
  "reconcile_statuses en cs s =
     (case cs of
        None \<Rightarrow> s
      | Some cs \<Rightarrow>
          let ix = build_container_index cs
          in if \<not> we_ok en ''ListAllApplications'' then s
             else let s = reconcile_apps en ix s
               in if \<not> we_ok en ''ListAllDatabases'' then s else reconcile_dbs en ix s)"

section \<open>A deliberate stop or start\<close>

datatype action_error = ApplicationNotFound | ServerUnreachable | ContainerActionFailed | StatusUpdateFailed

definition stop_application :: "'r runtime_iface \<Rightarrow> watch_env \<Rightarrow> uuid \<Rightarrow> 'r \<times> watch_state \<Rightarrow> action_error option \<times> 'r \<times> watch_state" where
  "stop_application rt en a x =
     (case x of (r, s) \<Rightarrow>
      (case (if we_ok en ''GetApplicationWithProjectSlug'' then find (\<lambda>r. da_id r = a) (ws_apps s) else None) of
         None \<Rightarrow> (Some ApplicationNotFound, r, s)
       | Some app \<Rightarrow>
           if \<not> we_ok en ''Runtimes.For'' then (Some ServerUnreachable, r, s)
           else (case rt_stop rt (container_name (da_project_slug app) (da_slug app) (we_show en a)) r of
             (False, r) \<Rightarrow> (Some ContainerActionFailed, r, s)
           | (True, r) \<Rightarrow>
               if \<not> we_ok en ''UpdateApplicationStatus'' then (Some StatusUpdateFailed, r, s)
               else (None, r, update_app_status en a ''stopped'' s))))"

definition start_application :: "'r runtime_iface \<Rightarrow> watch_env \<Rightarrow> uuid \<Rightarrow> 'r \<times> watch_state \<Rightarrow> action_error option \<times> 'r \<times> watch_state" where
  "start_application rt en a x =
     (case x of (r, s) \<Rightarrow>
      (case (if we_ok en ''GetApplicationWithProjectSlug'' then find (\<lambda>r. da_id r = a) (ws_apps s) else None) of
         None \<Rightarrow> (Some ApplicationNotFound, r, s)
       | Some app \<Rightarrow>
           if \<not> we_ok en ''Runtimes.For'' then (Some ServerUnreachable, r, s)
           else (case rt_start rt (container_name (da_project_slug app) (da_slug app) (we_show en a)) r of
             (False, r) \<Rightarrow> (Some ContainerActionFailed, r, s)
           | (True, r) \<Rightarrow>
               if \<not> we_ok en ''UpdateApplicationStatus'' then (Some StatusUpdateFailed, r, s)
               else (None, r, update_app_status en a ''running'' s))))"

section \<open>What one write does\<close>

lemma status_after_set [simp]:
  "map_option da_status (find (\<lambda>r. da_id r = a) (set_app_status b st rows)) =
     (if a = b then map_option (\<lambda>_. st) (find (\<lambda>r. da_id r = a) rows) else map_option da_status (find (\<lambda>r. da_id r = a) rows))"
  by (induction rows) (auto simp: set_app_status_def alter_app_def)

lemma db_status_after_set [simp]:
  "map_option wd_status (find (\<lambda>r. wd_id r = a) (set_db_status b st rows)) =
     (if a = b then map_option (\<lambda>_. st) (find (\<lambda>r. wd_id r = a) rows) else map_option wd_status (find (\<lambda>r. wd_id r = a) rows))"
  by (induction rows) (auto simp: set_db_status_def)

lemma app_status_update:
  "app_status a (update_app_status en b st s) =
     (if we_ok en ''UpdateApplicationStatus'' \<and> a = b then map_option (\<lambda>_. st) (app_status a s) else app_status a s)"
  "app_status a (update_database_status en d st s) = app_status a s"
  "ws_dbs (update_app_status en b st s) = ws_dbs s" "ws_apps (update_database_status en d st s) = ws_apps s"
  by (simp_all add: app_status_def update_app_status_def update_database_status_def option.map_comp o_def)

lemma db_status_update:
  "db_status a (update_database_status en b st s) =
     (if we_ok en ''UpdateDatabaseStatus'' \<and> a = b then map_option (\<lambda>_. st) (db_status a s) else db_status a s)"
  "db_status a (update_app_status en d st s) = db_status a s"
  by (simp_all add: db_status_def update_app_status_def update_database_status_def option.map_comp o_def)

lemma exit_status_cases: "exit_status x = ''stopped'' \<or> exit_status x = ''error''"
  by (simp add: exit_status_def split: option.split)

text \<open>The events that may raise a stopped application.\<close>

definition raises :: "container_event \<Rightarrow> bool" where
  "raises e \<longleftrightarrow> ev_action e \<in> {''start'', ''restart'', ''oom''}"

lemma stopped_step:
  assumes "we_ok en ''GetApplication''" and "app_status a s = Some ''stopped''" and "\<not> raises e"
  shows "app_status a (handle_event en e s) = Some ''stopped''"
proof -
  have "app_status a (handle_application_event en e s) = Some ''stopped''"
  proof (cases "we_scan en (ev_app e)")
    case (Some b)
    show ?thesis
    proof (cases "b = a")
      case True
      then show ?thesis
        using assms exit_status_cases [of "ev_exit e"]
        by (auto simp: handle_application_event_def Some current_app_def application_status_for_event_def raises_def app_status_update
            apply_die_status_def is_health_event_def split: option.split)
    next
      case False
      then show ?thesis using assms(2) by (simp add: handle_application_event_def Some app_status_update split: option.split)
    qed
  qed (simp add: handle_application_event_def assms(2))
  moreover have "app_status a (handle_database_event en e s) = Some ''stopped''"
    using assms(2) by (simp add: handle_database_event_def app_status_update split: option.split)
  ultimately show ?thesis using assms(2) by (simp add: handle_event_def)
qed

lemma transitional_step:
  assumes "we_ok en ''GetDatabase''" and "db_status d s = Some st" and "is_transitional_db_status st"
  shows "db_status d (handle_event en e s) = Some st"
proof -
  have "db_status d (handle_application_event en e s) = Some st"
    using assms(2) by (simp add: handle_application_event_def db_status_update split: option.split)
  moreover have "db_status d (handle_database_event en e s) = Some st"
    using assms by (auto simp: handle_database_event_def db_status_update split: option.split)
  ultimately show ?thesis using assms(2) by (simp add: handle_event_def)
qed

interpretation stopped: guarded_machine "\<lambda>s e. handle_event en e s" "\<lambda>s. we_ok en ''GetApplication'' \<longrightarrow> app_status a s = Some ''stopped''" "\<lambda>e. \<not> raises e" for en a
  by unfold_locales (use stopped_step in auto)

interpretation transitional: machine "\<lambda>s e. handle_event en e s"
    "\<lambda>s. we_ok en ''GetDatabase'' \<longrightarrow> db_status d s = Some st \<and> is_transitional_db_status st" for en d st
  by unfold_locales (use transitional_step in auto)

lemma stopped_run:
  assumes "we_ok en ''GetApplication''" and "app_status a s = Some ''stopped''" and "\<forall>e \<in> set es. \<not> raises e"
  shows "app_status a (foldl (\<lambda>s e. handle_event en e s) s es) = Some ''stopped''"
  using stopped.guarded_run [of en a s es] assms by simp

text \<open>
  a stopped application stays stopped. Whatever events its container still sends, in whatever order and
  with whatever exit codes, deaths, stops and health verdicts do not make it an error or bring it back; only
  a start, a restart or an out-of-memory kill does.
\<close>
theorem stopped_stays_stopped:
  assumes "we_ok en ''GetApplication''" and "app_status a s = Some ''stopped''" and "\<forall>e \<in> set es. \<not> raises e"
  shows "app_status a (foldl (\<lambda>s e. handle_event en e s) s es) = Some ''stopped''"
  using assms by (rule stopped_run)

lemma stop_records:
  assumes "stop_application rt en a (r, s) = (None, r', s')" and "we_ok en ''UpdateApplicationStatus''"
  shows "app_status a s' = Some ''stopped''"
proof -
  have "s' = update_app_status en a ''stopped'' s" "app_status a s \<noteq> None"
    using assms(1) by (auto simp: stop_application_def app_status_def split: option.splits prod.splits bool.splits if_splits)
  then show ?thesis using assms(2) by (auto simp: app_status_update)
qed

text \<open>
  C16: a deliberate stop holds as long as the application's status can be read. When the stop of an
  application succeeds, the application is stopped, and while the query for its status (GetApplication)
  answers, no run of events other than a start, a restart or an out-of-memory kill makes it an error or
  brings it back, whatever code its process exits with. (When that query fails the watcher applies the
  event without looking at the status it would overwrite.)
\<close>
theorem deliberate_stop_holds:
  assumes "stop_application rt en a (r, s) = (None, r', s')" and "we_ok en ''GetApplication''" and "\<forall>e \<in> set es. \<not> raises e"
  shows "app_status a (foldl (\<lambda>s e. handle_event en e s) s' es) = Some ''stopped''"
proof -
  have "we_ok en ''UpdateApplicationStatus''" using assms(1) by (auto simp: stop_application_def split: option.splits prod.splits bool.splits if_splits)
  then show ?thesis by (intro stopped_run stop_records [OF assms(1)] assms)
qed

text \<open>
  a task in flight owns its database's status. While a database is being created, upgraded or backed
  up, no container event changes it.
\<close>
theorem transitional_database_untouched:
  assumes "we_ok en ''GetDatabase''" and "db_status d s = Some st" and "is_transitional_db_status st"
  shows "db_status d (foldl (\<lambda>s e. handle_event en e s) s es) = Some st"
  using transitional.run_inv [of en d s st es] assms by simp

text \<open>
  the clean-up of a failed deploy hides the failure. The compensator stops the container, so its death is
  followed by a stop, which is written over the error the failed deploy had recorded.
\<close>
theorem cleanup_hides_failure:
  assumes "we_scan en t = Some a" and "t \<noteq> ''''" and "we_ok en ''GetApplication''" and "we_ok en ''UpdateApplicationStatus''"
    and "app_status a s = Some ''error''"
  shows "app_status a (foldl (\<lambda>s e. handle_event en e s) s
    [\<lparr>ev_action = ''die'', ev_app = t, ev_database = '''', ev_exit = code\<rparr>, \<lparr>ev_action = ''stop'', ev_app = t, ev_database = '''', ev_exit = ''''\<rparr>]) = Some ''stopped''"
proof -
  let ?die = "\<lparr>ev_action = ''die'', ev_app = t, ev_database = '''', ev_exit = code\<rparr>"
  have "\<exists>st. app_status a (handle_event en ?die s) = Some st"
    using assms by (auto simp: handle_event_def handle_application_event_def app_status_update application_status_for_event_def is_health_event_def split: option.split)
  then obtain st where "app_status a (handle_event en ?die s) = Some st" by blast
  then show ?thesis
    using assms by (simp add: handle_event_def [of en "\<lparr>ev_action = ''stop'', ev_app = t, ev_database = '''', ev_exit = ''''\<rparr>"] handle_application_event_def [of en "\<lparr>ev_action = ''stop'', ev_app = t, ev_database = '''', ev_exit = ''''\<rparr>"]
        app_status_update application_status_for_event_def is_health_event_def)
qed

section \<open>Reconciliation agrees with the containers\<close>

lemma fold_verdicts:
  "distinct (map da_id rows) \<Longrightarrow> we_ok en ''UpdateApplicationStatus'' \<Longrightarrow>
   app_status a (foldl (\<lambda>s r. case app_verdict en ix r of Some st \<Rightarrow> update_app_status en (da_id r) st s | None \<Rightarrow> s) s rows) =
     (case find (\<lambda>r. da_id r = a) rows of
        Some r \<Rightarrow> (case app_verdict en ix r of Some st \<Rightarrow> map_option (\<lambda>_. st) (app_status a s) | None \<Rightarrow> app_status a s)
      | None \<Rightarrow> app_status a s)"
proof (induction rows arbitrary: s)
  case (Cons r rows)
  have none: "find (\<lambda>x. da_id x = a) rows = None" if "da_id r = a"
    using Cons.prems(1) that by (auto simp: find_None_iff image_iff)
  show ?case
  proof (cases "da_id r = a")
    case True
    have "distinct (map da_id rows)" using Cons.prems(1) by simp
    with Cons.IH [OF this Cons.prems(2)] none [OF True] True Cons.prems(2) show ?thesis
      by (cases "app_verdict en ix r") (simp_all add: app_status_update)
  next
    case False
    have "distinct (map da_id rows)" using Cons.prems(1) by simp
    with Cons.IH [OF this Cons.prems(2)] False Cons.prems(2) show ?thesis
      by (cases "app_verdict en ix r") (simp_all add: app_status_update split: option.split)
  qed
qed simp

lemma dbs_keep_apps: "app_status a (reconcile_dbs en ix s) = app_status a s"
proof -
  have "app_status a (foldl (\<lambda>s d. case db_verdict en ix d of Some st \<Rightarrow> update_database_status en (wd_id d) st s | None \<Rightarrow> s) s ds) = app_status a s" for ds
    by (induction ds arbitrary: s) (simp_all add: app_status_update split: option.split)
  then show ?thesis by (simp add: reconcile_dbs_def)
qed

definition has_running :: "listed_container list \<Rightarrow> string \<Rightarrow> bool" where
  "has_running cs k \<longleftrightarrow> (\<exists>c \<in> set cs. ci_state c = ''running'' \<and> ci_app c = Some k)"

definition has_transient :: "listed_container list \<Rightarrow> string \<Rightarrow> bool" where
  "has_transient cs k \<longleftrightarrow> (\<exists>c \<in> set cs. is_transient_state (ci_state c) \<and> ci_app c = Some k)"

lemma index_one_apps:
  "ix_running_apps (index_one c ix) k = None \<longleftrightarrow> ix_running_apps ix k = None \<and> \<not> (ci_state c = ''running'' \<and> ci_app c = Some k)"
  "k \<in> ix_transient_apps (index_one c ix) \<longleftrightarrow> k \<in> ix_transient_apps ix \<or> is_transient_state (ci_state c) \<and> ci_app c = Some k"
  by (auto simp: index_one_def is_transient_state_def split: option.split)

lemma index_apps:
  "ix_running_apps (build_container_index cs) k = None \<longleftrightarrow> \<not> has_running cs k"
  "k \<in> ix_transient_apps (build_container_index cs) \<longleftrightarrow> has_transient cs k"
proof -
  have "ix_running_apps (foldl (\<lambda>ix c. index_one c ix) ix cs) k = None \<longleftrightarrow> ix_running_apps ix k = None \<and> \<not> has_running cs k"
    "k \<in> ix_transient_apps (foldl (\<lambda>ix c. index_one c ix) ix cs) \<longleftrightarrow> k \<in> ix_transient_apps ix \<or> has_transient cs k" for ix
    by (induction cs arbitrary: ix) (auto simp: has_running_def has_transient_def index_one_apps)
  then show "ix_running_apps (build_container_index cs) k = None \<longleftrightarrow> \<not> has_running cs k"
    "k \<in> ix_transient_apps (build_container_index cs) \<longleftrightarrow> has_transient cs k"
    by (simp_all add: build_container_index_def)
qed

text \<open>The status reconciliation leaves, for every application.\<close>

lemma reconciled_status:
  assumes "distinct (map da_id (ws_apps s))" and "we_ok en ''ListAllApplications''" and "we_ok en ''UpdateApplicationStatus''"
    and "r \<in> set (ws_apps s)"
  shows "app_status (da_id r) (reconcile_statuses en (Some cs) s) =
    Some (case app_verdict en (build_container_index cs) r of Some st \<Rightarrow> st | None \<Rightarrow> da_status r)"
proof -
  have f: "find (\<lambda>x. da_id x = da_id r) (ws_apps s) = Some r"
    using assms(1,4)
  proof (induction "ws_apps s" arbitrary: s)
    case (Cons x xs)
    then show ?case
      using Cons.hyps(1) [of "s\<lparr>ws_apps := xs\<rparr>"] by (auto simp: Cons.hyps(2) [symmetric] image_iff)
  qed simp
  then have "app_status (da_id r) s = Some (da_status r)" by (simp add: app_status_def)
  then have "app_status (da_id r) (reconcile_apps en (build_container_index cs) s) =
      Some (case app_verdict en (build_container_index cs) r of Some st \<Rightarrow> st | None \<Rightarrow> da_status r)"
    using fold_verdicts [OF assms(1,3), of "da_id r" "build_container_index cs" s] f
    by (simp add: reconcile_apps_def split: option.split)
  then show ?thesis
    using assms(2) by (simp add: reconcile_statuses_def Let_def dbs_keep_apps)
qed

text \<open>
  C17: reconciliation agrees with the containers. When the containers and the applications could be listed,
  the status update answers and ids are unique, then every application whose status is running, unhealthy,
  stopped or error and that has a running container labelled with its id ends up running or unhealthy; one
  of any other status (inactive, say) keeps it; one whose container is only on its way keeps its status;
  and one with neither is stopped when it was running or unhealthy and else keeps its status.
\<close>
theorem reconcile_agrees:
  assumes "distinct (map da_id (ws_apps s))" and "we_ok en ''ListAllApplications''" and "we_ok en ''UpdateApplicationStatus''"
    and "r \<in> set (ws_apps s)"
  shows "\<exists>st. app_status (da_id r) (reconcile_statuses en (Some cs) s) = Some st \<and>
    (if has_running cs (we_show en (da_id r))
     then if da_status r \<in> {''running'', ''unhealthy'', ''stopped'', ''error''} then st \<in> {''running'', ''unhealthy''} else st = da_status r
     else if has_transient cs (we_show en (da_id r)) then st = da_status r
     else st = (if da_status r \<in> {''running'', ''unhealthy''} then ''stopped'' else da_status r))"
proof -
  let ?ix = "build_container_index cs" and ?k = "we_show en (da_id r)"
  let ?st = "case app_verdict en ?ix r of Some st \<Rightarrow> st | None \<Rightarrow> da_status r"
  have "if has_running cs ?k
     then if da_status r \<in> {''running'', ''unhealthy'', ''stopped'', ''error''} then ?st \<in> {''running'', ''unhealthy''} else ?st = da_status r
     else if has_transient cs ?k then ?st = da_status r
     else ?st = (if da_status r \<in> {''running'', ''unhealthy''} then ''stopped'' else da_status r)"
  proof (cases "ix_running_apps ?ix ?k")
    case None
    then have "\<not> has_running cs ?k" using index_apps(1) [of cs ?k] by simp
    then show ?thesis by (auto simp: app_verdict_def None index_apps(2))
  next
    case (Some name)
    then have "has_running cs ?k" using index_apps(1) [of cs ?k] by simp
    then show ?thesis by (auto simp: app_verdict_def Some Let_def)
  qed
  then show ?thesis unfolding reconciled_status [OF assms(1-4)] by simp
qed

text \<open>
  a serving application whose container carries another spelling of its id is marked stopped at the next
  reconciliation: the labels are compared as they are written.
\<close>
theorem respelled_container_is_missed:
  assumes "distinct (map da_id (ws_apps s))" and "we_ok en ''ListAllApplications''" and "we_ok en ''UpdateApplicationStatus''"
    and "r \<in> set (ws_apps s)" and "da_status r = ''running''"
    and "ci_state c = ''running''" "ci_app c = Some t" "we_scan en t = Some (da_id r)" "t \<noteq> we_show en (da_id r)"
  shows "app_status (da_id r) (reconcile_statuses en (Some [c]) s) = Some ''stopped''"
proof -
  let ?k = "we_show en (da_id r)"
  have "\<not> has_running [c] ?k" "\<not> has_transient [c] ?k" using assms(7,9) by (auto simp: has_running_def has_transient_def)
  then have "app_verdict en (build_container_index [c]) r = Some ''stopped''"
    using index_apps(1) [of "[c]" ?k] index_apps(2) [of ?k "[c]"] assms(5) by (simp add: app_verdict_def)
  then show ?thesis by (simp add: reconciled_status [OF assms(1-4)])
qed

section \<open>Witnesses\<close>

definition demo_watch_env :: watch_env where
  "demo_watch_env = \<lparr>we_ok = (\<lambda>_. True), we_scan = (\<lambda>_. Some 7), we_show = (\<lambda>_. ''7''), we_health = (\<lambda>_. None)\<rparr>"

definition demo_watch :: "string \<Rightarrow> watch_state" where
  "demo_watch st = \<lparr>ws_apps = [demo_app\<lparr>da_status := st\<rparr>], ws_dbs = [\<lparr>wd_id = 7, wd_slug = ''db'', wd_status = ''upgrading''\<rparr>]\<rparr>"

definition demo_event :: "string \<Rightarrow> string \<Rightarrow> string \<Rightarrow> string \<Rightarrow> container_event" where
  "demo_event action app db code = \<lparr>ev_action = action, ev_app = app, ev_database = db, ev_exit = code\<rparr>"

definition demo_info :: "string \<Rightarrow> string \<Rightarrow> listed_container" where
  "demo_info st t = \<lparr>ci_name = ''shop'', ci_state = st, ci_app = Some t, ci_database = None, ci_helper = False, ci_created = 0\<rparr>"

lemmas demo_watch_defs = demo_watch_env_def demo_watch_def demo_event_def demo_info_def

theorem stopped_stays_stopped_witness:
  "app_status 7 (foldl (\<lambda>s e. handle_event demo_watch_env e s) (demo_watch ''stopped'')
     [demo_event ''die'' ''7'' '''' ''1'', demo_event ''health_status: healthy'' ''7'' '''' '''', demo_event ''stop'' ''7'' '''' '''']) = Some ''stopped''"
  by (rule stopped_stays_stopped) (simp_all add: demo_watch_defs app_status_def raises_def)

definition demo_machine :: "bool runtime_iface" where
  "demo_machine = \<lparr>rt_create = (\<lambda>_ r. (Some ''c1'', r)), rt_start = (\<lambda>_ _. (True, True)), rt_stop = (\<lambda>_ _. (True, False)),
     rt_remove = (\<lambda>_ _. (True, False)), rt_pull = (\<lambda>_ r. (True, r)), rt_digest = (\<lambda>_ _. None), rt_network = (\<lambda>_ r. (True, r)),
     rt_connect = (\<lambda>_ _ r. (True, r)), rt_volume = (\<lambda>_ r. (True, r))\<rparr>"

theorem deliberate_stop_holds_witness:
  "app_status 7 (foldl (\<lambda>s e. handle_event demo_watch_env e s) (update_app_status demo_watch_env 7 ''stopped'' (demo_watch ''running''))
     [demo_event ''die'' ''7'' '''' ''1'', demo_event ''stop'' ''7'' '''' '''']) = Some ''stopped''"
proof (rule deliberate_stop_holds)
  show "stop_application demo_machine demo_watch_env 7 (True, demo_watch ''running'') =
      (None, False, update_app_status demo_watch_env 7 ''stopped'' (demo_watch ''running''))"
    by (simp add: demo_machine_def stop_application_def demo_watch_defs demo_app_def update_app_status_def)
qed (simp_all add: demo_watch_defs raises_def)

theorem transitional_database_untouched_witness:
  "db_status 7 (foldl (\<lambda>s e. handle_event demo_watch_env e s) (demo_watch ''stopped'')
     [demo_event ''die'' '''' ''7'' ''1'', demo_event ''start'' '''' ''7'' '''']) = Some ''upgrading''"
  by (rule transitional_database_untouched) (simp_all add: demo_watch_defs db_status_def is_transitional_db_status_def)

theorem cleanup_hides_failure_witness:
  "app_status 7 (foldl (\<lambda>s e. handle_event demo_watch_env e s) (demo_watch ''error'')
     [demo_event ''die'' ''7'' '''' ''137'', demo_event ''stop'' ''7'' '''' '''']) = Some ''stopped''"
  unfolding demo_event_def by (rule cleanup_hides_failure) (simp_all add: demo_watch_env_def demo_watch_def app_status_def)

theorem reconcile_agrees_witness:
  "app_status 7 (reconcile_statuses demo_watch_env (Some []) (demo_watch ''running'')) \<noteq> Some ''running''"
proof -
  have "da_id (demo_app\<lparr>da_status := ''running''\<rparr>) = 7" by simp
  with reconcile_agrees [of "demo_watch ''running''" demo_watch_env "demo_app\<lparr>da_status := ''running''\<rparr>" "[]"] show ?thesis
    by (auto simp: demo_watch_env_def demo_watch_def has_running_def has_transient_def)
qed

theorem respelled_container_is_missed_witness:
  "app_status 7 (reconcile_statuses (demo_watch_env\<lparr>we_show := (\<lambda>_. ''abcdef12'')\<rparr>) (Some [demo_info ''running'' ''ABCDEF12'']) (demo_watch ''running'')) = Some ''stopped''"
  using respelled_container_is_missed [of "demo_watch ''running''" "demo_watch_env\<lparr>we_show := (\<lambda>_. ''abcdef12'')\<rparr>" "demo_app\<lparr>da_status := ''running''\<rparr>"
      "demo_info ''running'' ''ABCDEF12''" "''ABCDEF12''"]
  by (simp add: demo_watch_defs)

end
