(* ===== verification/Cleanup.thy ===== *)
theory Cleanup
  imports EventWatcher
begin

text \<open>
  The cleanup job (\<open>internal/worker/cleanup_task.go\<close>): the retention of deployments and their images, the
  expiry of backups kept after their database was deleted, and the sweep of containers that belong to
  nothing.

  The hosts are one world state \<open>'r\<close> behind a runtime per server, so that two servers may or may not be the
  same daemon. An environment says which queries answer, what rows they return and which remote object
  stores and local files obey. Instants are seconds; the log lines and the counters they print are left out.
\<close>

section \<open>The payload and the settings\<close>

record cleanup_payload =
  cp_app :: string
  cp_retain :: int
  cp_scheduled :: bool
  cp_actions :: "string list"

definition retain_count :: "cleanup_payload \<Rightarrow> nat" where
  "retain_count p = nat (if cp_retain p \<le> 0 then 3 else cp_retain p)"

definition wants :: "cleanup_payload \<Rightarrow> string \<Rightarrow> bool" where
  "wants p action \<longleftrightarrow> cp_actions p = [] \<or> action \<in> set (cp_actions p)"

text \<open>Settings are read as an option: \<open>None\<close> is absent or unreadable.\<close>

definition daily_cleanup_enabled :: "string option \<Rightarrow> bool" where
  "daily_cleanup_enabled setting = (case setting of None \<Rightarrow> True | Some v \<Rightarrow> v \<noteq> ''false'')"

definition default_orphaned_backup_retention_days :: int where
  "default_orphaned_backup_retention_days = 90"

definition orphaned_backup_retention_days :: "string option \<Rightarrow> int" where
  "orphaned_backup_retention_days setting =
     (case setting of
        None \<Rightarrow> default_orphaned_backup_retention_days
      | Some v \<Rightarrow>
          (case atoi (trim_space v) of
             None \<Rightarrow> default_orphaned_backup_retention_days
           | Some days \<Rightarrow> if days < 0 then default_orphaned_backup_retention_days else days))"

section \<open>The hosts\<close>

record 'r sweeper =
  sw_list :: "uuid \<Rightarrow> 'r \<Rightarrow> listed_container list option"
  sw_stop :: "uuid \<Rightarrow> string \<Rightarrow> 'r \<Rightarrow> bool \<times> 'r"
  sw_remove :: "uuid \<Rightarrow> string \<Rightarrow> 'r \<Rightarrow> bool \<times> 'r"
  sw_remove_image :: "uuid \<Rightarrow> string \<Rightarrow> 'r \<Rightarrow> bool \<times> 'r"

record placed_app =
  pa_id :: uuid
  pa_server :: uuid
  pa_type :: string
  pa_slug :: string
  pa_project_slug :: string

record placed_db =
  pd_id :: uuid
  pd_server :: uuid
  pd_slug :: string

record cleanup_env =
  ce_ok :: "string \<Rightarrow> bool"
  ce_reach :: "uuid \<Rightarrow> bool"
  ce_scan :: "string \<Rightarrow> uuid option"
  ce_show :: "uuid \<Rightarrow> string"
  ce_apps :: "placed_app list"
  ce_dbs :: "placed_db list"
  ce_servers :: "uuid list"
  ce_now :: instant

section \<open>Retention of deployments\<close>

definition legacy_image_tag :: "string \<Rightarrow> string \<Rightarrow> string" where
  "legacy_image_tag app deployment = ''belune-'' @ take 8 app @ '':'' @ take 8 deployment"

definition drop_deployment :: "'r sweeper \<Rightarrow> cleanup_env \<Rightarrow> placed_app \<Rightarrow> deployment_row \<Rightarrow>
    deployment_row list \<times> 'r \<Rightarrow> deployment_row list \<times> 'r" where
  "drop_deployment sw en a d x =
     (case x of (rows, r) \<Rightarrow>
        let i = ce_show en (dy_id d);
            r = (if pa_type a = ''git'' \<and> ce_reach en (pa_server a) \<and> i \<noteq> ''''
                 then snd (sw_remove_image sw (pa_server a) (legacy_image_tag (ce_show en (pa_id a)) i)
                        (snd (sw_remove_image sw (pa_server a) (image_tag (pa_slug a) i) r)))
                 else r)
        in (if ce_ok en ''DeleteDeployment'' then delete_deployment (dy_id d) rows else rows, r))"

definition cleanup_app_deployments :: "'r sweeper \<Rightarrow> cleanup_env \<Rightarrow> nat \<Rightarrow> placed_app \<Rightarrow>
    deployment_row list \<times> 'r \<Rightarrow> deployment_row list \<times> 'r" where
  "cleanup_app_deployments sw en retain a x =
     (if ce_show en (pa_id a) = '''' \<or> \<not> ce_ok en ''ListOldDeployments'' then x
      else foldl (\<lambda>x d. drop_deployment sw en a d x) x (old_deployments (pa_id a) retain (fst x)))"

text \<open>The two ways the job selects applications.\<close>

definition cleanup_deployments :: "'r sweeper \<Rightarrow> cleanup_env \<Rightarrow> cleanup_payload \<Rightarrow>
    deployment_row list \<times> 'r \<Rightarrow> bool \<times> deployment_row list \<times> 'r" where
  "cleanup_deployments sw en p x =
     (if cp_app p \<noteq> ''''
      then (case ce_scan en (cp_app p) of
              None \<Rightarrow> (False, x)
            | Some i \<Rightarrow>
                (case (if ce_ok en ''GetApplicationWithProjectSlug'' then find (\<lambda>a. pa_id a = i) (ce_apps en) else None) of
                   None \<Rightarrow> (False, x)
                 | Some a \<Rightarrow> (True, cleanup_app_deployments sw en (retain_count p) a x)))
      else if \<not> ce_ok en ''ListAllApplicationsWithProjectSlug'' then (False, x)
      else (True, foldl (\<lambda>x a. cleanup_app_deployments sw en (retain_count p) a x) x (ce_apps en)))"

section \<open>The orphan sweep\<close>

definition is_running_helper :: "listed_container \<Rightarrow> bool" where
  "is_running_helper c \<longleftrightarrow> ci_helper c \<and> (ci_state c = ''running'' \<or> ci_state c = ''created'')"

record container_claims =
  cc_apps :: "string set"
  cc_dbs :: "string set"
  cc_names :: "string set"

definition no_claims :: container_claims where
  "no_claims = \<lparr>cc_apps = {}, cc_dbs = {}, cc_names = {}\<rparr>"

definition labelled_uuid :: "cleanup_env \<Rightarrow> string option \<Rightarrow> string option" where
  "labelled_uuid en raw =
     (case raw of None \<Rightarrow> None | Some t \<Rightarrow> (case ce_scan en t of None \<Rightarrow> None | Some u \<Rightarrow> Some (ce_show en u)))"

definition claimed :: "cleanup_env \<Rightarrow> container_claims \<Rightarrow> listed_container \<Rightarrow> bool" where
  "claimed en cl c =
     (case labelled_uuid en (ci_app c) of
        Some i \<Rightarrow> i \<in> cc_apps cl
      | None \<Rightarrow>
          (case labelled_uuid en (ci_database c) of
             Some i \<Rightarrow> i \<in> cc_dbs cl
           | None \<Rightarrow> ci_name c \<in> cc_names cl))"

type_synonym claims_by_server = "string \<rightharpoonup> container_claims"

definition claims_for :: "claims_by_server \<Rightarrow> string \<Rightarrow> container_claims" where
  "claims_for m k = (case m k of Some cl \<Rightarrow> cl | None \<Rightarrow> no_claims)"

definition claim_app :: "cleanup_env \<Rightarrow> claims_by_server \<Rightarrow> placed_app \<Rightarrow> claims_by_server" where
  "claim_app en m a =
     (let i = ce_show en (pa_id a); k = ce_show en (pa_server a); cl = claims_for m k
      in m(k \<mapsto> cl\<lparr>cc_apps := insert i (cc_apps cl),
                   cc_names := {container_name (pa_project_slug a) (pa_slug a) i, intermediate_container_name (pa_project_slug a) i,
                                old_container_name i} \<union> cc_names cl\<rparr>))"

definition claim_db :: "cleanup_env \<Rightarrow> claims_by_server \<Rightarrow> placed_db \<Rightarrow> claims_by_server" where
  "claim_db en m d =
     (let k = ce_show en (pd_server d); cl = claims_for m k
      in m(k \<mapsto> cl\<lparr>cc_dbs := insert (ce_show en (pd_id d)) (cc_dbs cl), cc_names := insert (pd_slug d) (cc_names cl)\<rparr>))"

definition collect_claims_by_server :: "cleanup_env \<Rightarrow> claims_by_server option" where
  "collect_claims_by_server en =
     (if \<not> ce_ok en ''ListAllApplicationsWithProjectSlug'' \<or> \<not> ce_ok en ''ListAllDatabasesWithServerID'' then None
      else Some (foldl (claim_db en) (foldl (claim_app en) Map.empty (ce_apps en)) (ce_dbs en)))"

definition claims_anywhere :: "claims_by_server \<Rightarrow> container_claims" where
  "claims_anywhere m =
     \<lparr>cc_apps = (\<Union>cl \<in> ran m. cc_apps cl), cc_dbs = (\<Union>cl \<in> ran m. cc_dbs cl), cc_names = (\<Union>cl \<in> ran m. cc_names cl)\<rparr>"

definition orphan_age :: int where "orphan_age = 3600"

definition reap_container :: "'r sweeper \<Rightarrow> cleanup_env \<Rightarrow> uuid \<Rightarrow> container_claims \<Rightarrow> container_claims \<Rightarrow> listed_container \<Rightarrow> 'r \<Rightarrow> 'r" where
  "reap_container sw en server cl anywhere c r =
     (if claimed en cl c \<or> claimed en anywhere c \<or> is_running_helper c \<or> ce_now en - ci_created c < orphan_age then r
      else snd (sw_remove sw server (ci_name c) (snd (sw_stop sw server (ci_name c) r))))"

definition reap_orphans_on :: "'r sweeper \<Rightarrow> cleanup_env \<Rightarrow> claims_by_server \<Rightarrow> uuid \<Rightarrow> 'r \<Rightarrow> 'r" where
  "reap_orphans_on sw en m server r =
     (if \<not> ce_reach en server then r
      else case sw_list sw server r of
             None \<Rightarrow> r
           | Some cs \<Rightarrow> foldl (\<lambda>r c. reap_container sw en server (claims_for m (ce_show en server)) (claims_anywhere m) c r) r cs)"

definition cleanup_orphan_containers :: "'r sweeper \<Rightarrow> cleanup_env \<Rightarrow> 'r \<Rightarrow> 'r" where
  "cleanup_orphan_containers sw en r =
     (if \<not> ce_ok en ''ListManagedServers'' \<or> ce_servers en = [] then r
      else case collect_claims_by_server en of
             None \<Rightarrow> r
           | Some m \<Rightarrow> foldl (\<lambda>r server. reap_orphans_on sw en m server r) r (ce_servers en))"

section \<open>What the sweep spares\<close>

lemma anywhere_members:
  "x \<in> cc_apps (claims_anywhere m) \<longleftrightarrow> (\<exists>k. x \<in> cc_apps (claims_for m k))"
  "x \<in> cc_dbs (claims_anywhere m) \<longleftrightarrow> (\<exists>k. x \<in> cc_dbs (claims_for m k))"
  "x \<in> cc_names (claims_anywhere m) \<longleftrightarrow> (\<exists>k. x \<in> cc_names (claims_for m k))"
  by (auto simp: claims_anywhere_def claims_for_def no_claims_def ran_def split: option.splits)

definition app_names :: "cleanup_env \<Rightarrow> placed_app \<Rightarrow> string set" where
  "app_names en a =
     {container_name (pa_project_slug a) (pa_slug a) (ce_show en (pa_id a)), intermediate_container_name (pa_project_slug a) (ce_show en (pa_id a)),
      old_container_name (ce_show en (pa_id a))}"

lemma claims_for_claim_app:
  "x \<in> cc_apps (claims_for (claim_app en m a) k) \<longleftrightarrow> k = ce_show en (pa_server a) \<and> x = ce_show en (pa_id a) \<or> x \<in> cc_apps (claims_for m k)"
  "cc_dbs (claims_for (claim_app en m a) k) = cc_dbs (claims_for m k)"
  "x \<in> cc_names (claims_for (claim_app en m a) k) \<longleftrightarrow> k = ce_show en (pa_server a) \<and> x \<in> app_names en a \<or> x \<in> cc_names (claims_for m k)"
  by (auto simp: claim_app_def claims_for_def Let_def app_names_def no_claims_def split: option.splits)

lemma claims_for_claim_db:
  "cc_apps (claims_for (claim_db en m d) k) = cc_apps (claims_for m k)"
  "x \<in> cc_dbs (claims_for (claim_db en m d) k) \<longleftrightarrow> k = ce_show en (pd_server d) \<and> x = ce_show en (pd_id d) \<or> x \<in> cc_dbs (claims_for m k)"
  "x \<in> cc_names (claims_for (claim_db en m d) k) \<longleftrightarrow> k = ce_show en (pd_server d) \<and> x = pd_slug d \<or> x \<in> cc_names (claims_for m k)"
  by (auto simp: claim_db_def claims_for_def Let_def no_claims_def split: option.splits)

lemma anywhere_claim_app:
  "cc_apps (claims_anywhere (claim_app en m a)) = insert (ce_show en (pa_id a)) (cc_apps (claims_anywhere m))"
  "cc_dbs (claims_anywhere (claim_app en m a)) = cc_dbs (claims_anywhere m)"
  "cc_names (claims_anywhere (claim_app en m a)) = app_names en a \<union> cc_names (claims_anywhere m)"
  by (simp_all add: set_eq_iff anywhere_members claims_for_claim_app ex_disj_distrib)

lemma anywhere_claim_db:
  "cc_apps (claims_anywhere (claim_db en m d)) = cc_apps (claims_anywhere m)"
  "cc_dbs (claims_anywhere (claim_db en m d)) = insert (ce_show en (pd_id d)) (cc_dbs (claims_anywhere m))"
  "cc_names (claims_anywhere (claim_db en m d)) = insert (pd_slug d) (cc_names (claims_anywhere m))"
  by (simp_all add: set_eq_iff anywhere_members claims_for_claim_db ex_disj_distrib)

lemma anywhere_fold_apps:
  "cc_apps (claims_anywhere (foldl (claim_app en) m as)) = (\<lambda>a. ce_show en (pa_id a)) ` set as \<union> cc_apps (claims_anywhere m)"
  "cc_dbs (claims_anywhere (foldl (claim_app en) m as)) = cc_dbs (claims_anywhere m)"
  "cc_names (claims_anywhere (foldl (claim_app en) m as)) = (\<Union>a \<in> set as. app_names en a) \<union> cc_names (claims_anywhere m)"
  by (induction as arbitrary: m) (auto simp: anywhere_claim_app)

lemma anywhere_fold_dbs:
  "cc_apps (claims_anywhere (foldl (claim_db en) m ds)) = cc_apps (claims_anywhere m)"
  "cc_dbs (claims_anywhere (foldl (claim_db en) m ds)) = (\<lambda>d. ce_show en (pd_id d)) ` set ds \<union> cc_dbs (claims_anywhere m)"
  "cc_names (claims_anywhere (foldl (claim_db en) m ds)) = pd_slug ` set ds \<union> cc_names (claims_anywhere m)"
  by (induction ds arbitrary: m) (auto simp: anywhere_claim_db)

text \<open>Some live row vouches for a container: the reference the claims have to meet.\<close>

definition vouched :: "cleanup_env \<Rightarrow> listed_container \<Rightarrow> bool" where
  "vouched en c \<longleftrightarrow>
     (case labelled_uuid en (ci_app c) of
        Some i \<Rightarrow> \<exists>a \<in> set (ce_apps en). ce_show en (pa_id a) = i
      | None \<Rightarrow>
          (case labelled_uuid en (ci_database c) of
             Some i \<Rightarrow> \<exists>d \<in> set (ce_dbs en). ce_show en (pd_id d) = i
           | None \<Rightarrow> (\<exists>a \<in> set (ce_apps en). ci_name c \<in> app_names en a) \<or> (\<exists>d \<in> set (ce_dbs en). ci_name c = pd_slug d)))"

lemma anywhere_empty [simp]: "claims_anywhere Map.empty = no_claims"
  by (simp add: claims_anywhere_def no_claims_def)

lemma claimed_anywhere:
  assumes "collect_claims_by_server en = Some m"
  shows "claimed en (claims_anywhere m) c \<longleftrightarrow> vouched en c"
proof -
  have m: "m = foldl (claim_db en) (foldl (claim_app en) Map.empty (ce_apps en)) (ce_dbs en)"
    using assms by (simp add: collect_claims_by_server_def split: if_splits)
  show ?thesis unfolding claimed_def vouched_def m
    by (auto simp: anywhere_fold_apps anywhere_fold_dbs no_claims_def image_iff split: option.split)
qed

lemma claimed_here: "claimed en (claims_for m k) c \<Longrightarrow> claimed en (claims_anywhere m) c"
  by (auto simp: claimed_def anywhere_members split: option.splits)

definition spared :: "cleanup_env \<Rightarrow> listed_container \<Rightarrow> bool" where
  "spared en c \<longleftrightarrow> vouched en c \<or> is_running_helper c \<or> ce_now en - ci_created c < orphan_age"

lemma reap_container_spared:
  assumes "collect_claims_by_server en = Some m"
  shows "reap_container sw en server (claims_for m k) (claims_anywhere m) c r =
    (if spared en c then r else snd (sw_remove sw server (ci_name c) (snd (sw_stop sw server (ci_name c) r))))"
  using claimed_here [of en m k c] claimed_anywhere [OF assms] by (auto simp: reap_container_def spared_def)

text \<open>
  The laws of the runtime, over a view of every host's containers by name: a listing shows containers that
  are there, and stopping or removing a name leaves every other container of every host as it was.
\<close>

definition sweeper_ok :: "'r sweeper \<Rightarrow> (uuid \<Rightarrow> 'h) \<Rightarrow> ('r \<Rightarrow> 'h \<Rightarrow> string \<rightharpoonup> listed_container) \<Rightarrow> bool" where
  "sweeper_ok sw host conts \<longleftrightarrow>
     (\<forall>v r cs c. sw_list sw v r = Some cs \<longrightarrow> c \<in> set cs \<longrightarrow> conts r (host v) (ci_name c) = Some c) \<and>
     (\<forall>v n r h k. (h, k) \<noteq> (host v, n) \<longrightarrow> conts (snd (sw_stop sw v n r)) h k = conts r h k) \<and>
     (\<forall>v n r h k. (h, k) \<noteq> (host v, n) \<longrightarrow> conts (snd (sw_remove sw v n r)) h k = conts r h k)"

lemma reaping_keeps:
  assumes "sweeper_ok sw host conts" and "collect_claims_by_server en = Some m" and "spared en c"
    and "conts r h k = Some c" and "\<forall>d \<in> set ds. \<not> spared en d \<longrightarrow> (host v, ci_name d) \<noteq> (h, k)"
  shows "conts (foldl (\<lambda>r d. reap_container sw en v (claims_for m j) (claims_anywhere m) d r) r ds) h k = Some c"
  using assms(4,5)
proof (induction ds arbitrary: r)
  case (Cons d ds)
  have "conts (reap_container sw en v (claims_for m j) (claims_anywhere m) d r) h k = Some c"
    using Cons.prems assms(1) by (auto simp: reap_container_spared [OF assms(2)] sweeper_ok_def)
  then show ?case using Cons.IH Cons.prems(2) by simp
qed simp

lemma reap_orphans_keep:
  assumes "sweeper_ok sw host conts" and "collect_claims_by_server en = Some m" and "spared en c" and "conts r h k = Some c"
  shows "conts (reap_orphans_on sw en m v r) h k = Some c"
proof (cases "sw_list sw v r")
  case (Some cs)
  have "(host v, ci_name d) \<noteq> (h, k)" if "d \<in> set cs" "\<not> spared en d" for d
  proof
    assume "(host v, ci_name d) = (h, k)"
    moreover have "conts r (host v) (ci_name d) = Some d"
      using assms(1) Some that(1) unfolding sweeper_ok_def by blast
    ultimately show False using assms(3,4) that(2) by simp
  qed
  then show ?thesis
    using reaping_keeps [where ds = cs and v = v and j = "ce_show en v", OF assms] by (simp add: reap_orphans_on_def Some assms(4))
qed (simp add: reap_orphans_on_def assms(4))

interpretation sweep: machine "\<lambda>r v. reap_orphans_on sw en m v r"
    "\<lambda>r. sweeper_ok sw host conts \<and> collect_claims_by_server en = Some m \<and> spared en c \<and> conts r h k = Some c"
  for sw :: "'r sweeper" and en m host and conts :: "'r \<Rightarrow> 'h \<Rightarrow> string \<rightharpoonup> listed_container" and c h k
  by unfold_locales (auto intro: reap_orphans_keep)

text \<open>
  C7: the orphan sweep never touches what is claimed. A container that a live application or database vouches
  for (by its label, or by name when it carries no readable label), a helper still at work and a container
  younger than an hour are where they were after the sweep, on every host, whichever queries fail,
  whichever hosts cannot be reached, and whether or not two servers are the same daemon.
\<close>
theorem sweep_spares_claimed:
  assumes "sweeper_ok sw host conts" and "conts r h k = Some c"
    and "vouched en c \<or> is_running_helper c \<or> ce_now en - ci_created c < orphan_age"
  shows "conts (cleanup_orphan_containers sw en r) h k = Some c"
proof (cases "collect_claims_by_server en")
  case (Some m)
  have "spared en c" using assms(3) by (simp add: spared_def)
  then show ?thesis
    using sweep.run_inv [of sw host conts en m c r h k "ce_servers en"] assms(1,2) Some
    by (simp add: cleanup_orphan_containers_def)
qed (simp add: cleanup_orphan_containers_def assms(2))

section \<open>What the sweep removes\<close>

text \<open>A runtime that does what it is asked: listings are complete, a removed name is gone and a stop brings nothing up.\<close>

definition sweeper_works :: "'r sweeper \<Rightarrow> (uuid \<Rightarrow> 'h) \<Rightarrow> ('r \<Rightarrow> 'h \<Rightarrow> string \<rightharpoonup> listed_container) \<Rightarrow> bool" where
  "sweeper_works sw host conts \<longleftrightarrow>
     (\<forall>v r. \<exists>cs. sw_list sw v r = Some cs \<and> set cs = ran (conts r (host v))) \<and>
     (\<forall>v n r. conts (snd (sw_remove sw v n r)) (host v) n = None) \<and>
     (\<forall>v n r. conts r (host v) n = None \<longrightarrow> conts (snd (sw_stop sw v n r)) (host v) n = None)"

lemma reap_step_gone:
  assumes "sweeper_ok sw host conts" and "sweeper_works sw host conts" and "collect_claims_by_server en = Some m"
    and "conts r h k = None"
  shows "conts (reap_container sw en v (claims_for m j) (claims_anywhere m) d r) h k = None"
proof (cases "(h, k) = (host v, ci_name d)")
  case True
  then show ?thesis using assms(2,4) unfolding reap_container_spared [OF assms(3)] sweeper_works_def by simp
next
  case False
  then show ?thesis using assms(1,4) unfolding reap_container_spared [OF assms(3)] sweeper_ok_def by simp
qed

lemma reap_step_other:
  assumes "sweeper_ok sw host conts" and "collect_claims_by_server en = Some m" and "(h, k) \<noteq> (host v, ci_name d)"
  shows "conts (reap_container sw en v (claims_for m j) (claims_anywhere m) d r) h k = conts r h k"
  using assms(1,3) unfolding reap_container_spared [OF assms(2)] sweeper_ok_def by simp

lemma reap_step_orphan:
  assumes "sweeper_works sw host conts" and "collect_claims_by_server en = Some m" and "\<not> spared en d"
  shows "conts (reap_container sw en v (claims_for m j) (claims_anywhere m) d r) (host v) (ci_name d) = None"
  using assms(1,3) unfolding reap_container_spared [OF assms(2)] sweeper_works_def by simp

lemma reaping_gone:
  assumes "sweeper_ok sw host conts" and "sweeper_works sw host conts" and "collect_claims_by_server en = Some m"
  shows "conts r h k = None \<Longrightarrow>
    conts (foldl (\<lambda>r d. reap_container sw en v (claims_for m j) (claims_anywhere m) d r) r ds) h k = None"
  by (induction ds arbitrary: r) (simp_all add: reap_step_gone [OF assms])

lemma reaping_orphan:
  assumes "sweeper_ok sw host conts" and "sweeper_works sw host conts" and "collect_claims_by_server en = Some m"
    and "\<not> spared en d" and "d \<in> set ds"
  shows "conts (foldl (\<lambda>r d. reap_container sw en v (claims_for m j) (claims_anywhere m) d r) r ds) (host v) (ci_name d) = None"
proof -
  obtain xs ys where ds: "ds = xs @ d # ys" using split_list [OF assms(5)] by blast
  show ?thesis unfolding ds by (simp add: reaping_gone [OF assms(1-3)] reap_step_orphan [OF assms(2-4)])
qed

lemma reaping_elsewhere:
  assumes "sweeper_ok sw host conts" and "collect_claims_by_server en = Some m" and "h \<noteq> host v"
  shows "conts (foldl (\<lambda>r d. reap_container sw en v (claims_for m j) (claims_anywhere m) d r) r ds) h k = conts r h k"
  using assms(3) by (induction ds arbitrary: r) (simp_all add: reap_step_other [OF assms(1,2)])

lemma orphans_step:
  assumes ok: "sweeper_ok sw host conts" and works: "sweeper_works sw host conts" and "collect_claims_by_server en = Some m"
    and orphan: "\<not> spared en c" and k: "ci_name c = k" and at: "conts r h k = Some c \<or> conts r h k = None"
  shows "conts (reap_orphans_on sw en m v r) h k = None \<or> conts (reap_orphans_on sw en m v r) h k = Some c \<and> \<not> (host v = h \<and> ce_reach en v)"
proof (cases "ce_reach en v")
  case True
  obtain cs where cs: "sw_list sw v r = Some cs" "set cs = ran (conts r (host v))" using works unfolding sweeper_works_def by blast
  have fold: "reap_orphans_on sw en m v r =
      foldl (\<lambda>r d. reap_container sw en v (claims_for m (ce_show en v)) (claims_anywhere m) d r) r cs"
    using True cs(1) by (simp add: reap_orphans_on_def)
  show ?thesis
  proof (cases "host v = h")
    case here: True
    show ?thesis
    proof (cases "conts r h k")
      case None
      then show ?thesis unfolding fold by (simp add: reaping_gone [OF ok works assms(3)])
    next
      case (Some d)
      then have "c \<in> set cs" using at cs(2) here by (auto simp: ran_def)
      from reaping_orphan [OF ok works assms(3) orphan this, where v = v and j = "ce_show en v" and r = r]
      show ?thesis unfolding fold using here k by simp
    qed
  next
    case False
    then show ?thesis using at reaping_elsewhere [OF ok assms(3), of h v] unfolding fold by auto
  qed
next
  case False
  then show ?thesis using at by (auto simp: reap_orphans_on_def)
qed

lemma orphans_run:
  assumes "sweeper_ok sw host conts" and "sweeper_works sw host conts" and "collect_claims_by_server en = Some m"
    and "\<not> spared en c" and "ci_name c = k"
  shows "conts r h k = Some c \<or> conts r h k = None \<Longrightarrow> conts r h k = None \<or> (\<exists>v \<in> set vs. host v = h \<and> ce_reach en v) \<Longrightarrow>
    conts (foldl (\<lambda>r v. reap_orphans_on sw en m v r) r vs) h k = None"
proof (induction vs arbitrary: r)
  case (Cons v vs)
  have "conts (reap_orphans_on sw en m v r) h k = None" if "conts r h k = None"
    using orphans_step [OF assms, of r h v] that
    by (auto simp: reap_orphans_on_def reaping_gone [OF assms(1-3)] split: option.split)
  then show ?case using Cons.IH [of "reap_orphans_on sw en m v r"] Cons.prems orphans_step [OF assms Cons.prems(1), of v] by auto
qed simp

text \<open>
  C24: the orphan sweep removes every orphan. When the three listings answer and the runtimes do what they are
  asked, no container survives it on a managed host that can be reached unless a live row vouches for it,
  it is a helper at work or it is younger than an hour.
\<close>
theorem sweep_reaps_orphans:
  assumes "sweeper_ok sw host conts" and "sweeper_works sw host conts"
    and "ce_ok en ''ListManagedServers''" and "ce_ok en ''ListAllApplicationsWithProjectSlug''" and "ce_ok en ''ListAllDatabasesWithServerID''"
    and "v \<in> set (ce_servers en)" and "ce_reach en v"
    and "conts r (host v) k = Some c" and "ci_name c = k"
    and "\<not> vouched en c" and "\<not> is_running_helper c" and "orphan_age \<le> ce_now en - ci_created c"
  shows "conts (cleanup_orphan_containers sw en r) (host v) k = None"
proof -
  obtain m where m: "collect_claims_by_server en = Some m" using assms(4,5) by (simp add: collect_claims_by_server_def)
  have "\<not> spared en c" using assms(10-12) by (simp add: spared_def)
  then show ?thesis
    using orphans_run [OF assms(1,2) m _ assms(9), of r "host v" "ce_servers en"] assms(3,6-8) m
    by (auto simp: cleanup_orphan_containers_def)
qed

section \<open>What retention keeps\<close>

lemma dropping_rows:
  assumes "ce_ok en ''DeleteDeployment''"
  shows "fst (foldl (\<lambda>x d. drop_deployment sw en a d x) x ds) = filter (\<lambda>r. dy_id r \<notin> dy_id ` set ds) (fst x)"
proof (induction ds arbitrary: x)
  case (Cons d ds)
  have "fst (drop_deployment sw en a d x) = delete_deployment (dy_id d) (fst x)"
    using assms by (simp add: drop_deployment_def Let_def split: prod.split)
  then show ?case using Cons.IH by (auto simp: delete_deployment_def intro: filter_cong)
qed simp

lemma retention_rows:
  assumes "ce_show en (pa_id a) \<noteq> ''''" and "ce_ok en ''ListOldDeployments''" and "ce_ok en ''DeleteDeployment''"
  shows "fst (cleanup_app_deployments sw en n a (rows, r)) =
    filter (\<lambda>r. dy_id r \<notin> dy_id ` set (old_deployments (pa_id a) n rows)) rows"
  using assms by (simp add: cleanup_app_deployments_def dropping_rows)

lemma newest_distinct [simp]: "distinct (map dy_id (newest_first rows)) \<longleftrightarrow> distinct (map dy_id rows)"
proof -
  have "mset (newest_first rows) = mset rows" by (simp add: newest_first_def)
  then have "mset (map dy_id (newest_first rows)) = mset (map dy_id rows)" by (simp only: mset_map)
  then show ?thesis by (metis mset_eq_imp_distinct_iff)
qed

lemma kept_or_old:
  assumes "distinct (map dy_id rows)" and "r \<in> set rows"
  shows "dy_id r \<in> dy_id ` set (old_deployments a n rows) \<longleftrightarrow>
    dy_app r = a \<and> r \<notin> set (take n (newest_first (filter (\<lambda>r. dy_app r = a) rows)))"
proof -
  let ?mine = "newest_first (filter (\<lambda>r. dy_app r = a) rows)"
  have distinct: "distinct (map dy_id (take n ?mine) @ map dy_id (drop n ?mine))"
    using distinct_map_filter [OF assms(1)] by (simp flip: map_append)
  have set: "set (take n ?mine) \<union> set (drop n ?mine) = {r \<in> set rows. dy_app r = a}"
    by (simp flip: set_append)
  have eq: "s = r" if "s \<in> set rows" "dy_id s = dy_id r" for s
    using assms that by (meson eq_key_imp_eq_value distinct_map inj_on_contraD)
  show ?thesis
  proof
    assume "dy_id r \<in> dy_id ` set (old_deployments a n rows)"
    then obtain s where s: "s \<in> set (drop n ?mine)" "dy_id s = dy_id r" by (auto simp: old_deployments_def)
    then have "s = r" using eq set by blast
    then show "dy_app r = a \<and> r \<notin> set (take n ?mine)" using s set distinct by auto
  next
    assume "dy_app r = a \<and> r \<notin> set (take n ?mine)"
    then have "r \<in> set (drop n ?mine)" using set assms(2) by blast
    then show "dy_id r \<in> dy_id ` set (old_deployments a n rows)" by (simp add: old_deployments_def)
  qed
qed

lemma retention_keeps_newest_rows:
  assumes "distinct (map dy_id rows)" and "ce_show en (pa_id a) \<noteq> ''''" and "ce_ok en ''ListOldDeployments''" and "ce_ok en ''DeleteDeployment''"
  shows "set (fst (cleanup_app_deployments sw en n a (rows, r))) =
    {d \<in> set rows. dy_app d \<noteq> pa_id a} \<union> set (take n (newest_first (filter (\<lambda>d. dy_app d = pa_id a) rows)))"
proof -
  have "set (take n (newest_first (filter (\<lambda>d. dy_app d = pa_id a) rows))) \<subseteq> {d \<in> set rows. dy_app d = pa_id a}"
    using set_take_subset [of n "newest_first (filter (\<lambda>d. dy_app d = pa_id a) rows)"] by auto
  then have "d \<in> set (fst (cleanup_app_deployments sw en n a (rows, r))) \<longleftrightarrow>
      d \<in> {d \<in> set rows. dy_app d \<noteq> pa_id a} \<union> set (take n (newest_first (filter (\<lambda>d. dy_app d = pa_id a) rows)))" for d
    using kept_or_old [OF assms(1), of d "pa_id a" n]
    by (cases "d \<in> set rows") (auto simp add: retention_rows [OF assms(2-4)] simp del: image_iff)
  then show ?thesis by blast
qed

text \<open>
  retention keeps the newest deployments and nothing else. When its queries answer, the rows left are
  every row of the other applications and, of its own, exactly the newest \<open>n\<close>.
\<close>
theorem retention_keeps_newest:
  assumes "distinct (map dy_id rows)" and "ce_show en (pa_id a) \<noteq> ''''" and "ce_ok en ''ListOldDeployments''" and "ce_ok en ''DeleteDeployment''"
  shows "set (fst (cleanup_app_deployments sw en n a (rows, r))) =
    {d \<in> set rows. dy_app d \<noteq> pa_id a} \<union> set (take n (newest_first (filter (\<lambda>d. dy_app d = pa_id a) rows)))"
  using assms by (rule retention_keeps_newest_rows)

text \<open>
  C40: three failed deploys and one cleanup make a serving application impossible to reload. Retention
  counts failed rows too, so when the newest \<open>n\<close> are not successes it deletes the row of the deployment that
  is running, and a reload then finds nothing deployed.
\<close>
theorem retention_forgets_running:
  assumes "distinct (map dy_id rows)" and "ce_show en (pa_id a) \<noteq> ''''" and "ce_ok en ''ListOldDeployments''" and "ce_ok en ''DeleteDeployment''"
    and "\<forall>d \<in> set (take n (newest_first (filter (\<lambda>d. dy_app d = pa_id a) rows))). dy_status d \<noteq> dep_success"
    and "trigger_target te c app = Inr (pa_id a)"
    and "dk_rows s = fst (cleanup_app_deployments sw en n a (rows, r))"
  shows "reload_application tq te c app s = (Inl TNothingDeployed, s)"
proof -
  have "latest_successful (pa_id a) (dk_rows s) = None"
    using assms(5) unfolding latest_successful_def find_None_iff assms(7)
    by (auto simp: retention_keeps_newest_rows [OF assms(1-4)])
  then show ?thesis using assms(6) by (simp add: reload_application_def latest_deployed_def)
qed

text \<open>
  The laws of the image store, over a view of every host's image tags: removing an image adds none, and a
  tag that no container uses is gone afterwards.
\<close>

definition images_ok :: "'r sweeper \<Rightarrow> (uuid \<Rightarrow> 'h) \<Rightarrow> ('r \<Rightarrow> 'h \<Rightarrow> string set) \<Rightarrow> string set \<Rightarrow> bool" where
  "images_ok sw host imgs used \<longleftrightarrow>
     (\<forall>v t r h. imgs (snd (sw_remove_image sw v t r)) h \<subseteq> imgs r h) \<and>
     (\<forall>v t r. t \<notin> used \<longrightarrow> t \<notin> imgs (snd (sw_remove_image sw v t r)) (host v))"

lemma dropped_images:
  assumes "images_ok sw host imgs used"
  shows "imgs (snd (drop_deployment sw en a d x)) h \<subseteq> imgs (snd x) h"
    and "pa_type a = ''git'' \<Longrightarrow> ce_reach en (pa_server a) \<Longrightarrow> ce_show en (dy_id d) \<noteq> '''' \<Longrightarrow>
      image_tag (pa_slug a) (ce_show en (dy_id d)) \<notin> used \<Longrightarrow>
      image_tag (pa_slug a) (ce_show en (dy_id d)) \<notin> imgs (snd (drop_deployment sw en a d x)) (host (pa_server a))"
proof -
  have less: "imgs (snd (sw_remove_image sw v t r)) h \<subseteq> imgs r h" for v t r h
    using assms unfolding images_ok_def by blast
  have gone: "t \<notin> imgs (snd (sw_remove_image sw v t r)) (host v)" if "t \<notin> used" for v t r
    using assms that unfolding images_ok_def by blast
  show "imgs (snd (drop_deployment sw en a d x)) h \<subseteq> imgs (snd x) h"
    using subset_trans [OF less less] by (simp add: drop_deployment_def Let_def split: prod.split)
  show "image_tag (pa_slug a) (ce_show en (dy_id d)) \<notin> imgs (snd (drop_deployment sw en a d x)) (host (pa_server a))"
    if "pa_type a = ''git''" "ce_reach en (pa_server a)" "ce_show en (dy_id d) \<noteq> ''''" "image_tag (pa_slug a) (ce_show en (dy_id d)) \<notin> used"
    using that gone less by (simp add: drop_deployment_def Let_def split: prod.split) blast
qed

lemma dropping_images:
  assumes "images_ok sw host imgs used"
  shows "imgs (snd (foldl (\<lambda>x d. drop_deployment sw en a d x) x ds)) h \<subseteq> imgs (snd x) h"
proof (induction ds arbitrary: x)
  case (Cons d ds)
  show ?case using subset_trans [OF Cons.IH dropped_images(1) [OF assms]] by simp
qed simp

text \<open>
  retention can take the image of a deployment it keeps. A rollback or a reload keeps the tag of the build
  it reused, but images are removed by the id of the row that built them: once that row is too old its
  image is gone from the host, while the newer row that names the same tag is kept.
\<close>
theorem retention_takes_kept_image:
  assumes "images_ok sw host imgs used" and "distinct (map dy_id rows)" and "ce_show en (pa_id a) \<noteq> ''''"
    and "ce_ok en ''ListOldDeployments''" and "ce_ok en ''DeleteDeployment''" and "pa_type a = ''git''" and "ce_reach en (pa_server a)"
    and "d \<in> set (old_deployments (pa_id a) n rows)" and "ce_show en (dy_id d) \<noteq> ''''"
    and "kept \<in> set (take n (newest_first (filter (\<lambda>d. dy_app d = pa_id a) rows)))"
    and "dy_image kept = image_tag (pa_slug a) (ce_show en (dy_id d))" and "dy_image kept \<notin> used"
  shows "kept \<in> set (fst (cleanup_app_deployments sw en n a (rows, r)))
    \<and> dy_image kept \<notin> imgs (snd (cleanup_app_deployments sw en n a (rows, r))) (host (pa_server a))"
proof
  show "kept \<in> set (fst (cleanup_app_deployments sw en n a (rows, r)))"
    using assms(10) by (simp add: retention_keeps_newest_rows [OF assms(2-5)])
  let ?h = "host (pa_server a)" and ?drop = "\<lambda>x d. drop_deployment sw en a d x"
  obtain xs ys where old: "old_deployments (pa_id a) n rows = xs @ d # ys" using split_list [OF assms(8)] by blast
  obtain rows' r' where x: "foldl ?drop (rows, r) xs = (rows', r')" by fastforce
  have "dy_image kept \<notin> imgs (snd (?drop (rows', r') d)) ?h"
    using dropped_images(2) [OF assms(1,6,7,9)] assms(11,12) by simp
  then have "dy_image kept \<notin> imgs (snd (foldl ?drop (?drop (rows', r') d) ys)) ?h"
    using dropping_images [OF assms(1), of en a "?drop (rows', r') d" ys ?h] by blast
  then show "dy_image kept \<notin> imgs (snd (cleanup_app_deployments sw en n a (rows, r))) ?h"
    using assms(3,4) by (simp add: cleanup_app_deployments_def old x)
qed

section \<open>The expiry of kept backups\<close>

record backup_row =
  bk_id :: uuid
  bk_tombstone :: "uuid option"
  bk_local :: "string option"
  bk_remote :: "string option"

record backup_store =
  bs_rows :: "backup_row list"
  bs_tombs :: "(uuid \<times> instant) list"
  bs_files :: "string list"
  bs_objects :: "(string \<times> string) list"

text \<open>
  \<open>xe_order t\<close> is the order in which the database returns the rows of the listing's \<open>t\<close>-th call: the query has
  no \<open>ORDER BY\<close>. \<open>xe_locations\<close> are a backup's recorded copies, each the bucket its destination resolves to
  (\<open>None\<close> when it resolves to no client, \<open>Some None\<close> when resolving it fails) with its key.
\<close>

record expiry_env =
  xe_ok :: "string \<Rightarrow> bool"
  xe_deletes :: "uuid \<Rightarrow> bool"
  xe_setting :: "string option"
  xe_now :: instant
  xe_order :: "nat \<Rightarrow> backup_row list \<Rightarrow> backup_row list"
  xe_destinations :: bool
  xe_locations :: "uuid \<Rightarrow> (string option option \<times> string option) list option"
  xe_global :: "string option"
  xe_unlinks :: "string \<Rightarrow> bool"
  xe_erases :: "string \<Rightarrow> string \<Rightarrow> bool"

definition expired_backup_page_size :: nat where "expired_backup_page_size = 500"

definition is_expired :: "(uuid \<times> instant) list \<Rightarrow> instant \<Rightarrow> backup_row \<Rightarrow> bool" where
  "is_expired tombs cutoff b \<longleftrightarrow> (\<exists>(t, deleted) \<in> set tombs. bk_tombstone b = Some t \<and> deleted < cutoff)"

definition list_expired_orphaned_backups :: "expiry_env \<Rightarrow> nat \<Rightarrow> instant \<Rightarrow> nat \<Rightarrow> backup_store \<Rightarrow> backup_row list" where
  "list_expired_orphaned_backups en t cutoff limit s =
     take limit (xe_order en t (filter (is_expired (bs_tombs s) cutoff) (bs_rows s)))"

definition delete_empty_tombstones :: "expiry_env \<Rightarrow> backup_store \<Rightarrow> backup_store" where
  "delete_empty_tombstones en s =
     (if xe_ok en ''DeleteEmptyDatabaseTombstones''
      then s\<lparr>bs_tombs := filter (\<lambda>(t, _). \<exists>b \<in> set (bs_rows s). bk_tombstone b = Some t) (bs_tombs s)\<rparr> else s)"

text \<open>The first recorded copy in a remote store: \<open>None\<close> when none is, or when looking for it failed.\<close>

fun copy_for_locations :: "(string option option \<times> string option) list \<Rightarrow> (string \<times> string) option" where
  "copy_for_locations [] = None"
| "copy_for_locations ((dest, key) # locs) =
     (case key of
        None \<Rightarrow> copy_for_locations locs
      | Some k \<Rightarrow>
          (case dest of
             None \<Rightarrow> copy_for_locations locs
           | Some None \<Rightarrow> None
           | Some (Some bucket) \<Rightarrow> Some (bucket, k)))"

definition recorded_copy :: "expiry_env \<Rightarrow> uuid \<Rightarrow> (string \<times> string) option" where
  "recorded_copy en i =
     (if \<not> xe_destinations en then None else case xe_locations en i of None \<Rightarrow> None | Some locs \<Rightarrow> copy_for_locations locs)"

definition erase_object :: "expiry_env \<Rightarrow> string \<Rightarrow> string \<Rightarrow> backup_store \<Rightarrow> backup_store" where
  "erase_object en bucket key s = (if xe_erases en bucket key then s\<lparr>bs_objects := removeAll (bucket, key) (bs_objects s)\<rparr> else s)"

definition delete_backup_artifacts :: "expiry_env \<Rightarrow> backup_row \<Rightarrow> backup_store \<Rightarrow> backup_store" where
  "delete_backup_artifacts en b s =
     (let s = (case bk_local b of
                 Some path \<Rightarrow> if xe_unlinks en path then s\<lparr>bs_files := removeAll path (bs_files s)\<rparr> else s
               | None \<Rightarrow> s);
          s = (case bk_remote b of
                 None \<Rightarrow> s
               | Some key \<Rightarrow>
                   (case recorded_copy en (bk_id b) of
                      Some (bucket, k) \<Rightarrow> erase_object en bucket k s
                    | None \<Rightarrow> (case xe_global en of Some bucket \<Rightarrow> erase_object en bucket key s | None \<Rightarrow> s)))
      in if xe_deletes en (bk_id b) then s\<lparr>bs_rows := filter (\<lambda>r. bk_id r \<noteq> bk_id b) (bs_rows s)\<rparr> else s)"

partial_function (option) expire_pages :: "expiry_env \<Rightarrow> instant \<Rightarrow> uuid option \<Rightarrow> nat \<Rightarrow> backup_store \<Rightarrow> backup_store option" where
  "expire_pages en cutoff last_first t s =
     (if \<not> xe_ok en ''ListExpiredOrphanedBackups'' then Some s
      else let rows = list_expired_orphaned_backups en t cutoff expired_backup_page_size s
        in if rows = [] then Some s
           else if last_first = Some (bk_id (hd rows)) then Some s
           else let s' = foldl (\<lambda>s b. delete_backup_artifacts en b s) s rows
             in if length rows < expired_backup_page_size then Some s'
                else expire_pages en cutoff (Some (bk_id (hd rows))) (Suc t) s')"

definition cleanup_expired_orphaned_backups :: "expiry_env \<Rightarrow> backup_store \<Rightarrow> backup_store option" where
  "cleanup_expired_orphaned_backups en s =
     (let s = delete_empty_tombstones en s; days = orphaned_backup_retention_days (xe_setting en)
      in if days = 0 then Some s
         else map_option (delete_empty_tombstones en) (expire_pages en (xe_now en - days * 86400) None 0 s))"

subsection \<open>One page\<close>

definition expire_page :: "expiry_env \<Rightarrow> backup_row list \<Rightarrow> backup_store \<Rightarrow> backup_store" where
  "expire_page en page s = foldl (\<lambda>s b. delete_backup_artifacts en b s) s page"

definition expired_rows :: "instant \<Rightarrow> backup_store \<Rightarrow> backup_row list" where
  "expired_rows cutoff s = filter (is_expired (bs_tombs s) cutoff) (bs_rows s)"

text \<open>The rows a page leaves.\<close>

definition outlives :: "expiry_env \<Rightarrow> backup_row list \<Rightarrow> backup_row \<Rightarrow> bool" where
  "outlives en page r \<longleftrightarrow> (\<forall>b \<in> set page. xe_deletes en (bk_id b) \<longrightarrow> bk_id r \<noteq> bk_id b)"

lemma erase_object_rows [simp]: "bs_rows (erase_object en b k s) = bs_rows s" "bs_tombs (erase_object en b k s) = bs_tombs s"
  by (simp_all add: erase_object_def)

lemma delete_artifacts_rows:
  "bs_rows (delete_backup_artifacts en b s) = (if xe_deletes en (bk_id b) then filter (\<lambda>r. bk_id r \<noteq> bk_id b) (bs_rows s) else bs_rows s)"
  "bs_tombs (delete_backup_artifacts en b s) = bs_tombs s"
  by (simp_all add: delete_backup_artifacts_def Let_def split: option.split prod.split)

lemma page_rows:
  "bs_rows (expire_page en page s) = filter (outlives en page) (bs_rows s)" "bs_tombs (expire_page en page s) = bs_tombs s"
proof -
  have "bs_rows (expire_page en page s) = filter (outlives en page) (bs_rows s) \<and> bs_tombs (expire_page en page s) = bs_tombs s"
    unfolding expire_page_def
    by (induction page arbitrary: s) (simp_all add: outlives_def [abs_def] delete_artifacts_rows conj_commute)
  then show "bs_rows (expire_page en page s) = filter (outlives en page) (bs_rows s)" "bs_tombs (expire_page en page s) = bs_tombs s" by simp_all
qed

lemma page_expired: "expired_rows cutoff (expire_page en page s) = filter (outlives en page) (expired_rows cutoff s)"
  by (simp add: expired_rows_def page_rows conj_commute)

definition page_of :: "expiry_env \<Rightarrow> instant \<Rightarrow> nat \<Rightarrow> backup_store \<Rightarrow> backup_row list" where
  "page_of en cutoff t s = take 500 (xe_order en t (expired_rows cutoff s))"

lemma expire_pages_step:
  "expire_pages en cutoff last_first t s =
     (if \<not> xe_ok en ''ListExpiredOrphanedBackups'' \<or> page_of en cutoff t s = [] \<or> last_first = Some (bk_id (hd (page_of en cutoff t s))) then Some s
      else if length (page_of en cutoff t s) < 500 then Some (expire_page en (page_of en cutoff t s) s)
      else expire_pages en cutoff (Some (bk_id (hd (page_of en cutoff t s)))) (Suc t) (expire_page en (page_of en cutoff t s) s))"
  by (subst expire_pages.simps)
    (simp add: Let_def list_expired_orphaned_backups_def page_of_def expire_page_def expired_rows_def expired_backup_page_size_def)

subsection \<open>The sweep ends\<close>

text \<open>The listing returns the rows in an order that deletions do not disturb.\<close>

definition stable_order :: "expiry_env \<Rightarrow> bool" where
  "stable_order en \<longleftrightarrow> (\<forall>t. xe_order en t = xe_order en 0) \<and> (\<forall>P xs. xe_order en 0 (filter P xs) = filter P (xe_order en 0 xs))"

lemma stuck_head:
  assumes "stable_order en" and "xe_order en t (expired_rows cutoff s) = b # bs" and "\<not> xe_deletes en (bk_id b)"
  shows "\<exists>rest. xe_order en u (expired_rows cutoff (expire_page en (page_of en cutoff t s) s)) = b # rest"
proof -
  have order: "xe_order en u (filter P xs) = filter P (xe_order en t xs)" for P xs
    using assms(1) unfolding stable_order_def by metis
  have "outlives en (page_of en cutoff t s) b" using assms(3) by (auto simp: outlives_def)
  then show ?thesis by (simp add: page_expired order assms(2))
qed

lemma stuck_page_stops:
  assumes "stable_order en" and "xe_order en t (expired_rows cutoff s) = b # bs" and "\<not> xe_deletes en (bk_id b)"
  shows "expire_pages en cutoff (Some (bk_id b)) u (expire_page en (page_of en cutoff t s) s) = Some (expire_page en (page_of en cutoff t s) s)"
proof -
  obtain rest where "xe_order en u (expired_rows cutoff (expire_page en (page_of en cutoff t s) s)) = b # rest"
    using stuck_head [OF assms, of u] by blast
  then have "page_of en cutoff u (expire_page en (page_of en cutoff t s) s) = b # take 499 rest"
    unfolding page_of_def by (simp add: numeral_eq_Suc)
  then show ?thesis by (subst expire_pages_step) simp
qed

lemma expire_pages_end:
  assumes "stable_order en"
  shows "\<exists>s'. expire_pages en cutoff last_first t s = Some s'"
proof (induction "length (xe_order en t (expired_rows cutoff s))" arbitrary: s t last_first rule: less_induct)
  case less
  show ?case
  proof (cases "xe_order en t (expired_rows cutoff s)")
    case Nil
    then show ?thesis by (subst expire_pages_step) (simp add: page_of_def)
  next
    case (Cons b bs)
    let ?page = "page_of en cutoff t s"
    let ?s = "expire_page en ?page s"
    have hd: "hd ?page = b" "b \<in> set ?page" by (simp_all add: page_of_def Cons)
    have "\<exists>s'. expire_pages en cutoff (Some (bk_id b)) (Suc t) ?s = Some s'"
    proof (cases "xe_deletes en (bk_id b)")
      case True
      have order: "xe_order en (Suc t) (filter P xs) = filter P (xe_order en t xs)" for P xs
        using assms unfolding stable_order_def by metis
      have "\<not> outlives en ?page b" using True hd(2) by (auto simp: outlives_def)
      then have "length (xe_order en (Suc t) (expired_rows cutoff ?s)) < length (xe_order en t (expired_rows cutoff s))"
        by (simp add: page_expired order Cons) (meson le_imp_less_Suc length_filter_le)
      then show ?thesis using less by blast
    qed (simp add: stuck_page_stops [OF assms Cons])
    then show ?thesis by (subst expire_pages_step) (simp add: hd)
  qed
qed

text \<open>
  C22: the sweep of kept backups ends. As long as the database lists them in an order its own deletions do
  not disturb, whatever cannot be deleted, the job returns for every store of backups and every setting.
\<close>
theorem expiry_terminates:
  assumes "stable_order en"
  shows "\<exists>s'. cleanup_expired_orphaned_backups en s = Some s'"
proof -
  obtain s' where "expire_pages en (xe_now en - orphaned_backup_retention_days (xe_setting en) * 86400) None 0 (delete_empty_tombstones en s) = Some s'"
    using expire_pages_end [OF assms] by blast
  then show ?thesis by (simp add: cleanup_expired_orphaned_backups_def Let_def)
qed

text \<open>
  one backup that cannot be deleted stops the sweep. When it is the first of the listing, the second page
  begins with it too and the sweep ends there, however many removable backups the later pages hold.
\<close>
theorem stuck_backup_stops_sweep:
  assumes "stable_order en" and "xe_ok en ''ListExpiredOrphanedBackups''" and "xe_order en 0 (expired_rows cutoff s) = b # bs"
    and "\<not> xe_deletes en (bk_id b)" and "499 \<le> length bs"
  shows "expire_pages en cutoff None 0 s = Some (expire_page en (b # take 499 bs) s)"
proof -
  have page: "page_of en cutoff 0 s = b # take 499 bs" by (simp add: page_of_def assms(3) numeral_eq_Suc)
  show ?thesis
    using stuck_page_stops [OF assms(1,3,4), of "Suc 0"] assms(2,5) by (subst expire_pages_step) (simp add: page)
qed

subsection \<open>What the sweep erases\<close>

lemma whole_sweep:
  assumes "\<forall>i. xe_deletes en i" and "xe_ok en ''ListExpiredOrphanedBackups''" and perm: "\<forall>t xs. mset (xe_order en t xs) = mset xs"
  shows "distinct (map bk_id (bs_rows s)) \<Longrightarrow> (\<forall>i. last_first = Some i \<longrightarrow> i \<notin> bk_id ` set (bs_rows s)) \<Longrightarrow>
    \<exists>s'. expire_pages en cutoff last_first t s = Some s' \<and> bs_rows s' = filter (\<lambda>b. \<not> is_expired (bs_tombs s) cutoff b) (bs_rows s)"
proof (induction "length (expired_rows cutoff s)" arbitrary: s t last_first rule: less_induct)
  case less
  let ?page = "page_of en cutoff t s" and ?live = "\<lambda>b. \<not> is_expired (bs_tombs s) cutoff b"
  let ?s = "expire_page en ?page s"
  have same: "set (xe_order en t (expired_rows cutoff s)) = set (expired_rows cutoff s)" "length (xe_order en t (expired_rows cutoff s)) = length (expired_rows cutoff s)"
    using perm by (metis set_mset_mset, metis size_mset)
  have page: "set ?page \<subseteq> set (expired_rows cutoff s)" using same(1) set_take_subset by (fastforce simp: page_of_def)
  have rows: "bs_rows ?s = filter (\<lambda>r. bk_id r \<notin> bk_id ` set ?page) (bs_rows s)"
    unfolding page_rows by (rule filter_cong [OF refl]) (use assms(1) in \<open>auto simp: outlives_def\<close>)
  have "bk_id r \<notin> bk_id ` set ?page" if "r \<in> set (bs_rows s)" "?live r" for r
  proof
    assume "bk_id r \<in> bk_id ` set ?page"
    then obtain b where b: "b \<in> set ?page" "bk_id b = bk_id r" by auto
    then have "b \<in> set (bs_rows s)" "\<not> ?live b" using page by (auto simp: expired_rows_def)
    then show False using b(2) less.prems(1) that by (metis distinct_map inj_on_contraD)
  qed
  then have live: "filter ?live (bs_rows ?s) = filter ?live (bs_rows s)" unfolding rows by (auto intro: filter_cong)
  show ?case
  proof (cases "?page = []")
    case True
    then have "expired_rows cutoff s = []" using same(2) by (simp add: page_of_def)
    then have "filter ?live (bs_rows s) = bs_rows s" by (auto simp: expired_rows_def filter_empty_conv filter_id_conv)
    then show ?thesis using True by (subst expire_pages_step) simp
  next
    case False
    then have hd: "hd ?page \<in> set ?page" by simp
    then have in_rows: "hd ?page \<in> set (bs_rows s)" using page by (auto simp: expired_rows_def)
    then have fresh: "last_first \<noteq> Some (bk_id (hd ?page))" using less.prems(2) by auto
    show ?thesis
    proof (cases "length ?page < 500")
      case True
      then have "set ?page = set (expired_rows cutoff s)" using same by (simp add: page_of_def min_def split: if_splits)
      then have "\<forall>r \<in> set (bs_rows ?s). ?live r" unfolding rows by (auto simp: expired_rows_def)
      then have "bs_rows ?s = filter ?live (bs_rows s)" using live by (metis filter_True)
      then show ?thesis using False True fresh assms(2) by (subst expire_pages_step) simp
    next
      case full: False
      have "hd ?page \<in> set (expired_rows cutoff s)" using hd page by blast
      moreover have "hd ?page \<notin> set (expired_rows cutoff ?s)" using hd by (auto simp: expired_rows_def rows)
      moreover have "expired_rows cutoff ?s = filter (outlives en ?page) (expired_rows cutoff s)" by (rule page_expired)
      ultimately have "length (expired_rows cutoff ?s) < length (expired_rows cutoff s)"
        using length_filter_less [of "hd ?page" "expired_rows cutoff s" "outlives en ?page"] by simp
      moreover have "distinct (map bk_id (bs_rows ?s))" using less.prems(1) by (simp add: rows distinct_map_filter)
      moreover have "\<forall>i. Some (bk_id (hd ?page)) = Some i \<longrightarrow> i \<notin> bk_id ` set (bs_rows ?s)" using imageI [OF hd, of bk_id] by (auto simp: rows simp del: image_eqI)
      ultimately obtain s' where "expire_pages en cutoff (Some (bk_id (hd ?page))) (Suc t) ?s = Some s'"
          "bs_rows s' = filter (\<lambda>b. \<not> is_expired (bs_tombs ?s) cutoff b) (bs_rows ?s)"
        using less.hyps [of ?s "Some (bk_id (hd ?page))" "Suc t"] by blast
      then show ?thesis using False full fresh assms(2) live by (subst expire_pages_step) (simp add: page_rows)
    qed
  qed
qed

lemma tombstones_keep_expiry:
  "filter (\<lambda>b. \<not> is_expired (bs_tombs (delete_empty_tombstones en s)) cutoff b) (bs_rows s) = filter (\<lambda>b. \<not> is_expired (bs_tombs s) cutoff b) (bs_rows s)"
  by (rule filter_cong) (auto simp: delete_empty_tombstones_def is_expired_def)

lemma delete_empty_tombstones_rows [simp]: "bs_rows (delete_empty_tombstones en s) = bs_rows s"
  by (simp add: delete_empty_tombstones_def)

text \<open>
  C23: the sweep erases the expired backups and no others. When the deletions of rows succeed, in whatever
  order and over however many pages the database lists them, the rows left are exactly those whose
  database was deleted less than the retention ago, or still exists.
\<close>
theorem expiry_erases_expired:
  assumes "\<forall>i. xe_deletes en i" and "xe_ok en ''ListExpiredOrphanedBackups''" and "\<forall>t xs. mset (xe_order en t xs) = mset xs"
    and "distinct (map bk_id (bs_rows s))" and "orphaned_backup_retention_days (xe_setting en) = days" and "days \<noteq> 0"
  shows "\<exists>s'. cleanup_expired_orphaned_backups en s = Some s' \<and>
    bs_rows s' = filter (\<lambda>b. \<not> is_expired (bs_tombs s) (xe_now en - days * 86400) b) (bs_rows s)"
  using whole_sweep [OF assms(1-3), of "delete_empty_tombstones en s" None "xe_now en - days * 86400" 0] assms(4-6)
  by (auto simp: cleanup_expired_orphaned_backups_def tombstones_keep_expiry)

text \<open>
  an unordered listing may keep the sweep for ever. If no row of a full page can be deleted and the
  database begins successive listings with different rows, the job does not return.
\<close>
theorem unordered_listing_loops:
  assumes "\<forall>i. \<not> xe_deletes en i" and "xe_ok en ''ListExpiredOrphanedBackups''" and "\<forall>t xs. mset (xe_order en t xs) = mset xs"
    and "500 \<le> length (expired_rows cutoff s)"
    and "\<forall>t. bk_id (hd (xe_order en (Suc t) (expired_rows cutoff s))) \<noteq> bk_id (hd (xe_order en t (expired_rows cutoff s)))"
  shows "expire_pages en cutoff None 0 s = None"
proof -
  let ?E = "expired_rows cutoff s"
  have len: "length (page_of en cutoff t x) = 500" "hd (page_of en cutoff t x) = hd (xe_order en t ?E)" if "expired_rows cutoff x = ?E" for t x
  proof -
    have "length (xe_order en t ?E) = length ?E" using assms(3) by (metis size_mset)
    then have le: "500 \<le> length (xe_order en t ?E)" using assms(4) by simp
    then show "length (page_of en cutoff t x) = 500" by (simp add: page_of_def that)
    show "hd (page_of en cutoff t x) = hd (xe_order en t ?E)"
      using le by (cases "xe_order en t ?E") (simp_all add: page_of_def that)
  qed
  have loops: "\<not> (e = en \<and> c = cutoff \<and> expired_rows cutoff x = ?E \<and> last_first \<noteq> Some (bk_id (hd (xe_order en t ?E))))"
    if "expire_pages e c last_first t x = Some y" for e c last_first t x y
    using that
  proof (induction rule: expire_pages.raw_induct [rotated, consumes 1, case_names step])
    case (step f e c l t x y)
    show ?case
    proof
    assume at: "e = en \<and> c = cutoff \<and> expired_rows cutoff x = ?E \<and> l \<noteq> Some (bk_id (hd (xe_order en t ?E)))"
    have page: "list_expired_orphaned_backups en t cutoff 500 x = page_of en cutoff t x"
      by (simp add: list_expired_orphaned_backups_def page_of_def expired_rows_def)
    have nonempty: "page_of en cutoff t x \<noteq> []" using len(1) [of x t] at by auto
    have "expired_rows cutoff (expire_page en (page_of en cutoff t x) x) = ?E"
      using at assms(1) by (simp add: page_expired outlives_def)
    moreover have "f en cutoff (Some (bk_id (hd (xe_order en t ?E)))) (Suc t) (expire_page en (page_of en cutoff t x) x) = Some y"
      using step(2) at nonempty len [of x t] assms(2) by (simp add: Let_def page expire_page_def expired_backup_page_size_def split: if_splits)
    ultimately show False using step(1) assms(5) by (metis option.inject)
    qed
  qed
  show ?thesis
  proof (cases "expire_pages en cutoff None 0 s")
    case (Some y)
    from loops [OF this] show ?thesis by simp
  qed
qed

text \<open>
  a recorded location that cannot be read does not protect the other store. When resolving the recorded
  copies of a backup fails, its key is erased from the global store instead, and its row is deleted although
  the recorded object remains.
\<close>
theorem unresolved_copy_erases_globally:
  assumes "bk_remote b = Some key" and "bk_local b = None" and "xe_destinations en" and "xe_locations en (bk_id b) = None"
    and "xe_global en = Some bucket" and "xe_erases en bucket key" and "xe_deletes en (bk_id b)"
  shows "delete_backup_artifacts en b s =
    s\<lparr>bs_objects := removeAll (bucket, key) (bs_objects s), bs_rows := filter (\<lambda>r. bk_id r \<noteq> bk_id b) (bs_rows s)\<rparr>"
  using assms by (simp add: delete_backup_artifacts_def recorded_copy_def erase_object_def)

section \<open>Witnesses\<close>

text \<open>One daemon behind every server, a map of containers by name.\<close>

definition one_daemon :: "listed_container list sweeper" where
  "one_daemon = \<lparr>sw_list = (\<lambda>_ cs. Some (filter (\<lambda>c. find (\<lambda>d. ci_name d = ci_name c) cs = Some c) cs)), sw_stop = (\<lambda>_ _ cs. (True, cs)),
     sw_remove = (\<lambda>_ n cs. (True, filter (\<lambda>c. ci_name c \<noteq> n) cs)), sw_remove_image = (\<lambda>_ _ cs. (True, cs))\<rparr>"

definition by_name :: "listed_container list \<Rightarrow> unit \<Rightarrow> string \<rightharpoonup> listed_container" where
  "by_name cs h n = find (\<lambda>c. ci_name c = n) cs"

definition demo_cleanup :: cleanup_env where
  "demo_cleanup = \<lparr>ce_ok = (\<lambda>_. True), ce_reach = (\<lambda>_. True), ce_scan = (\<lambda>t. if t = ''7'' then Some 7 else if t = ''8'' then Some 8 else None),
     ce_show = (\<lambda>u. if u = 7 then ''7'' else if u = 8 then ''8'' else ''9''),
     ce_apps = [\<lparr>pa_id = 7, pa_server = 1, pa_type = ''git'', pa_slug = ''shop-7'', pa_project_slug = ''acme''\<rparr>],
     ce_dbs = [\<lparr>pd_id = 9, pd_server = 1, pd_slug = ''db''\<rparr>], ce_servers = [1, 2], ce_now = 10000\<rparr>"

definition demo_store :: "backup_row list \<Rightarrow> backup_store" where
  "demo_store bs = \<lparr>bs_rows = bs, bs_tombs = [(1, 0), (2, 20000000)], bs_files = [], bs_objects = [(''main'', ''k''), (''own'', ''k'')]\<rparr>"

definition demo_backup :: "uuid \<Rightarrow> uuid \<Rightarrow> backup_row" where
  "demo_backup i t = \<lparr>bk_id = i, bk_tombstone = Some t, bk_local = None, bk_remote = Some ''k''\<rparr>"

definition demo_expiry :: "(uuid \<Rightarrow> bool) \<Rightarrow> (nat \<Rightarrow> backup_row list \<Rightarrow> backup_row list) \<Rightarrow> expiry_env" where
  "demo_expiry del order = \<lparr>xe_ok = (\<lambda>_. True), xe_deletes = del, xe_setting = Some ''90'', xe_now = 20000000, xe_order = order,
     xe_destinations = True, xe_locations = (\<lambda>_. None), xe_global = Some ''main'', xe_unlinks = (\<lambda>_. True), xe_erases = (\<lambda>_ _. True)\<rparr>"

lemmas demo_cleanup_defs = one_daemon_def by_name_def demo_cleanup_def demo_info_def

theorem unresolved_copy_erases_globally_witness:
  "bs_objects (delete_backup_artifacts (demo_expiry (\<lambda>_. True) (\<lambda>_ xs. xs)) (demo_backup 5 1) (demo_store [])) = [(''own'', ''k'')]"
  using unresolved_copy_erases_globally [of "demo_backup 5 1" "''k''" "demo_expiry (\<lambda>_. True) (\<lambda>_ xs. xs)" "''main''" "demo_store []"]
  by (simp add: demo_backup_def demo_expiry_def demo_store_def)

lemma find_other: "k \<noteq> n \<Longrightarrow> find (\<lambda>c. ci_name c = k) (filter (\<lambda>c. ci_name c \<noteq> n) cs) = find (\<lambda>c. ci_name c = k) cs"
  by (induction cs) auto

lemma find_gone: "find (\<lambda>c. ci_name c = n) (filter (\<lambda>c. ci_name c \<noteq> n) cs) = None"
  by (simp add: find_None_iff)

lemma one_daemon_ok: "sweeper_ok one_daemon (\<lambda>_. ()) by_name"
  by (auto simp: sweeper_ok_def one_daemon_def by_name_def find_other)

lemma one_daemon_works: "sweeper_works one_daemon (\<lambda>_. ()) by_name"
proof -
  have "set (filter (\<lambda>c. find (\<lambda>d. ci_name d = ci_name c) cs = Some c) cs) = ran (\<lambda>n. find (\<lambda>c. ci_name c = n) cs)" for cs :: "listed_container list"
    by (force simp: ran_def find_Some_iff)
  then show ?thesis by (simp add: sweeper_works_def one_daemon_def by_name_def [abs_def] find_gone)
qed

theorem sweep_spares_claimed_witness:
  "by_name (cleanup_orphan_containers one_daemon demo_cleanup [demo_info ''running'' ''7'', demo_info ''exited'' ''8'']) () ''shop'' = Some (demo_info ''running'' ''7'')"
  by (rule sweep_spares_claimed [OF one_daemon_ok])
    (simp_all add: demo_cleanup_defs vouched_def labelled_uuid_def)

theorem sweep_reaps_orphans_witness:
  "by_name (cleanup_orphan_containers one_daemon demo_cleanup [demo_info ''exited'' ''8'']) () ''shop'' = None"
  by (rule sweep_reaps_orphans [OF one_daemon_ok one_daemon_works, where v = 2 and c = "demo_info ''exited'' ''8''"])
    (simp_all add: demo_cleanup_defs vouched_def labelled_uuid_def is_running_helper_def orphan_age_def)

lemma demo_order: "stable_order (demo_expiry del (\<lambda>_ xs. xs))"
  by (simp add: stable_order_def demo_expiry_def)

theorem expiry_terminates_witness:
  "\<exists>s'. cleanup_expired_orphaned_backups (demo_expiry (\<lambda>i. i \<noteq> 5) (\<lambda>_ xs. xs)) (demo_store [demo_backup 5 1, demo_backup 6 1]) = Some s'"
  by (rule expiry_terminates [OF demo_order])

theorem expiry_erases_expired_witness:
  "\<exists>s'. cleanup_expired_orphaned_backups (demo_expiry (\<lambda>_. True) (\<lambda>t xs. if even t then rev xs else xs)) (demo_store [demo_backup 5 1, demo_backup 6 2]) = Some s'
     \<and> bs_rows s' = [demo_backup 6 2]"
proof -
  have setting: "orphaned_backup_retention_days (Some ''90'') = 90" by code_simp
  show ?thesis
    using expiry_erases_expired [of "demo_expiry (\<lambda>_. True) (\<lambda>t xs. if even t then rev xs else xs)" "demo_store [demo_backup 5 1, demo_backup 6 2]" 90]
    by (simp add: demo_expiry_def demo_store_def demo_backup_def is_expired_def setting)
qed

lemma demo_many: "expired_rows 12224000 (demo_store (map (\<lambda>i. demo_backup i 1) is)) = map (\<lambda>i. demo_backup i 1) is"
  by (auto simp: expired_rows_def demo_store_def demo_backup_def is_expired_def)

lemma demo_split: "[0..<600] = 0 # [Suc 0..<600]" "[0..<500] = 0 # [Suc 0..<500]"
  by (rule upt_conv_Cons, simp)+

theorem stuck_backup_stops_sweep_witness:
  "expire_pages (demo_expiry (\<lambda>i. i \<noteq> 0) (\<lambda>_ xs. xs)) 12224000 None 0 (demo_store (map (\<lambda>i. demo_backup i 1) [0..<600])) =
     Some (expire_page (demo_expiry (\<lambda>i. i \<noteq> 0) (\<lambda>_ xs. xs)) (map (\<lambda>i. demo_backup i 1) [0..<500]) (demo_store (map (\<lambda>i. demo_backup i 1) [0..<600])))"
proof -
  let ?en = "demo_expiry (\<lambda>i. i \<noteq> 0) (\<lambda>_ xs. xs)" and ?s = "demo_store (map (\<lambda>i. demo_backup i 1) [0..<600])"
  have head: "xe_order ?en 0 (expired_rows 12224000 ?s) = demo_backup 0 1 # map (\<lambda>i. demo_backup i 1) [Suc 0..<600]"
    unfolding demo_many by (simp only: demo_expiry_def expiry_env.simps demo_split list.map)
  have "expire_pages ?en 12224000 None 0 ?s = Some (expire_page ?en (demo_backup 0 1 # take 499 (map (\<lambda>i. demo_backup i 1) [Suc 0..<600])) ?s)"
    by (rule stuck_backup_stops_sweep [OF demo_order _ head]) (simp_all add: demo_expiry_def demo_backup_def del: upt_rec_numeral)
  moreover have "demo_backup 0 1 # take 499 (map (\<lambda>i. demo_backup i 1) [Suc 0..<600]) = map (\<lambda>i. demo_backup i 1) [0..<500]"
    unfolding demo_split take_map by (simp del: upt_rec_numeral)
  ultimately show ?thesis by (simp only:)
qed

lemma mset_rotate1: "mset (rotate1 xs) = mset xs"
  by (cases xs) simp_all

theorem unordered_listing_loops_witness:
  "expire_pages (demo_expiry (\<lambda>_. False) (\<lambda>t xs. if even t then xs else rotate1 xs)) 12224000 None 0 (demo_store (map (\<lambda>i. demo_backup i 1) [0..<600])) = None"
proof (rule unordered_listing_loops)
  have "[Suc 0..<600] = Suc 0 # [Suc (Suc 0)..<600]" by (rule upt_conv_Cons) simp
  then have split: "[0..<600] = 0 # Suc 0 # [Suc (Suc 0)..<600]" by (simp only: demo_split)
  show "\<forall>t. bk_id (hd (xe_order (demo_expiry (\<lambda>_. False) (\<lambda>t xs. if even t then xs else rotate1 xs)) (Suc t) (expired_rows 12224000 (demo_store (map (\<lambda>i. demo_backup i 1) [0..<600])))))
      \<noteq> bk_id (hd (xe_order (demo_expiry (\<lambda>_. False) (\<lambda>t xs. if even t then xs else rotate1 xs)) t (expired_rows 12224000 (demo_store (map (\<lambda>i. demo_backup i 1) [0..<600])))))"
    unfolding demo_many unfolding split by (simp add: demo_expiry_def demo_backup_def del: upt_rec_numeral)
  show "500 \<le> length (expired_rows 12224000 (demo_store (map (\<lambda>i. demo_backup i 1) [0..<600])))"
    unfolding demo_many by simp
qed (simp_all add: demo_expiry_def mset_rotate1)

text \<open>A store of images behind every server.\<close>

definition image_store :: "string list sweeper" where
  "image_store = \<lparr>sw_list = (\<lambda>_ _. Some []), sw_stop = (\<lambda>_ _ r. (True, r)), sw_remove = (\<lambda>_ _ r. (True, r)),
     sw_remove_image = (\<lambda>_ t r. (t \<in> set r, removeAll t r))\<rparr>"

lemma image_store_ok: "images_ok image_store (\<lambda>_. ()) (\<lambda>r _. set r) {}"
  by (auto simp: images_ok_def image_store_def)

definition demo_built :: "uuid \<Rightarrow> instant \<Rightarrow> string \<Rightarrow> string \<Rightarrow> deployment_row" where
  "demo_built i t st img = (new_deployment i t 7 ''manual'' '''' '''')\<lparr>dy_status := st, dy_image := img\<rparr>"

definition demo_placed :: placed_app where
  "demo_placed = \<lparr>pa_id = 7, pa_server = 1, pa_type = ''git'', pa_slug = ''shop'', pa_project_slug = ''acme''\<rparr>"

lemmas demo_retention_defs = demo_built_def demo_placed_def demo_cleanup_def new_deployment_def newest_first_def old_deployments_def

theorem retention_keeps_newest_witness:
  "set (fst (cleanup_app_deployments image_store demo_cleanup 1 demo_placed ([demo_built 1 100 ''success'' ''shop:1'', demo_built 2 200 ''failed'' ''''], []))) =
    {demo_built 2 200 ''failed'' ''''}"
  by (subst retention_keeps_newest) (auto simp: demo_retention_defs)

theorem retention_takes_kept_image_witness:
  "\<exists>rows r. cleanup_app_deployments image_store demo_cleanup 1 demo_placed
      ([demo_built 8 100 ''success'' ''shop:8'', demo_built 7 200 ''success'' ''shop:8''], [''shop:8'']) = (rows, r) \<and>
    demo_built 7 200 ''success'' ''shop:8'' \<in> set rows \<and> ''shop:8'' \<notin> set r"
  using retention_takes_kept_image [OF image_store_ok, where rows = "[demo_built 8 100 ''success'' ''shop:8'', demo_built 7 200 ''success'' ''shop:8'']" and en = demo_cleanup
      and a = demo_placed and d = "demo_built 8 100 ''success'' ''shop:8''" and n = 1 and kept = "demo_built 7 200 ''success'' ''shop:8''" and r = "[''shop:8'']"]
  by (auto simp: demo_retention_defs image_tag_def prod_eq_iff)

theorem retention_forgets_running_witness:
  "\<exists>te c s. dk_rows s = fst (cleanup_app_deployments image_store demo_cleanup 3 demo_placed
      ([demo_built 1 100 ''success'' ''shop:1'', demo_built 2 200 ''failed'' '''', demo_built 3 300 ''failed'' '''', demo_built 4 400 ''failed'' ''''], [])) \<and>
    reload_application map_queue te c ''7'' s = (Inl TNothingDeployed, s)"
proof -
  let ?rows = "[demo_built 1 100 ''success'' ''shop:1'', demo_built 2 200 ''failed'' '''', demo_built 3 300 ''failed'' '''', demo_built 4 400 ''failed'' '''']"
  let ?te = "(demo_desk_env 9 500)\<lparr>te_access := demo_access_db\<lparr>app_owner := (\<lambda>_. Found demo_owner_row)\<rparr>\<rparr>" and ?admin = "demo_caller ''admin'' None"
  define s where "s = demo_desk (fst (cleanup_app_deployments image_store demo_cleanup 3 demo_placed (?rows, []))) Active"
  have target: "trigger_target ?te ?admin ''7'' = Inr (pa_id demo_placed)"
    by (simp add: trigger_target_def demo_desk_env_def demo_placed_def can_access_application_def can_access_owned_def owned_access_def
        owner_may_access_def demo_caller_def demo_owner_row_def pin_allows_def token_projects_def)
  have failed: "\<forall>d \<in> set (take 3 (newest_first (filter (\<lambda>d. dy_app d = pa_id demo_placed) ?rows))). dy_status d \<noteq> dep_success"
    by (simp add: demo_retention_defs dep_success_def)
  have ids: "distinct (map dy_id ?rows)" by (simp add: demo_retention_defs)
  have rows: "dk_rows s = fst (cleanup_app_deployments image_store demo_cleanup 3 demo_placed (?rows, []))" by (simp add: s_def demo_desk_def)
  have "reload_application map_queue ?te ?admin ''7'' s = (Inl TNothingDeployed, s)"
    by (rule retention_forgets_running [OF ids _ _ _ failed target rows]) (simp_all add: demo_cleanup_def demo_placed_def)
  then show ?thesis using rows by blast
qed

end
