(* ===== verification/Spec2Isabelle.thy ===== *)
theory Spec2Isabelle
  imports Prelude Quota Authz Hub Keyring Totp Sessions Tokens Json Features DomainRules Routes CaddyAdmin CaddyClient
    Capability Dns RouteConfig Reconciler ProxyPass Domains DomainRoutes Deployments DeployTask EventWatcher Cleanup
begin

text \<open>
  Belune is a self-hosted platform that builds applications, runs them as Docker containers and puts them
  behind a Caddy reverse proxy. This library models the control plane, the Go program under
  \<open>src/apps/api\<close>; file names below are relative to it.

  The program's parts. The REST API and a WebSocket hub receive requests; middlewares and per-resource
  checks decide who may do what. Handlers write PostgreSQL rows, queue tasks (asynq, on Redis) and call the
  proxy client. A worker takes the tasks: it deploys and builds applications, checks quotas, cleans up. A
  reconciler makes Caddy's configuration follow the rows, an event watcher makes the rows follow the
  containers. Secrets are stored in an envelope under a ring of keys.

  Theories, in the order of their imports:

  \<^item> \<open>Prelude\<close>: identifiers, instants, results of fallible functions, Go's fixed-width arithmetic, the byte
    strings of package \<open>strings\<close>, sorting by a comparison, and the locales \<open>key_comparison\<close>, \<open>guarded_machine\<close>
    and \<open>machine\<close> (an invariant kept by every step is kept by every run), which the components interpret
    on their own steps.
  \<^item> \<open>Quota\<close> (\<open>internal/quota\<close>, \<open>worker/quota_task.go\<close>): limits, usage, the checks before a creation and the
    alerts; what is admitted keeps within the limits when the floating-point CPU sums are not rounded up.
  \<^item> \<open>Authz\<close> (\<open>server/middleware/scope.go\<close>, \<open>handler/authz.go\<close>, \<open>mcpserver/access.go\<close>, \<open>handler/ws_authz.go\<close>):
    scopes, project pins, ownership; the three surfaces agree and a pinned token is confined.
  \<^item> \<open>Hub\<close> (\<open>internal/ws\<close>): the hub and its clients as a machine over an explicit heap of clients; its counters
    agree with its clients and every subscription was authorized.
  \<^item> \<open>Keyring\<close> (\<open>pkg/crypto/keyring.go\<close>, \<open>cmd/rewrap\<close>): the envelope, the ring, the rotation of every column;
    round trip, no secret is changed, a finished rotation leaves no old key in use.
  \<^item> \<open>Totp\<close>, \<open>Sessions\<close>, \<open>Tokens\<close> (\<open>service/totp.go\<close>, \<open>auth.go\<close>, \<open>auth_challenge.go\<close>, \<open>token.go\<close> and the
    handlers and middlewares in front): second factor, login with lockout, refresh rotation, revocation,
    personal access tokens, CSRF. Every handler that issues a session is modelled, the acceptance of an
    invitation and the turning on or off of a second factor included. The lockout's queries may fail, and
    then a login goes on as in the code; what is proved of revocation and lockout holds while Redis and
    that query answer.
  \<^item> \<open>Json\<close>, \<open>Features\<close>, \<open>DomainRules\<close>: \<open>encoding/json\<close> on syntax trees, the schema of every route feature
    (\<open>proxy/features.go\<close>, \<open>features_normalize.go\<close>), the rules of host names and paths.
  \<^item> \<open>Routes\<close>, \<open>RouteConfig\<close> (\<open>proxy/caddy/routes.go\<close>, \<open>waf.go\<close>, \<open>proxy/routeconfig.go\<close>): from a row to a Caddy
    route, route ids, the order of the table; a request reaches the most specific route, with hosts and
    paths compared in lower case as Caddy does.
  \<^item> \<open>CaddyAdmin\<close>, \<open>CaddyClient\<close> (\<open>proxy/caddy\<close>): the client of Caddy's admin API. Caddy is a parameter, a
    function from requests to replies over a state of its own, with its documented behaviour as a contract.
  \<^item> \<open>Capability\<close>, \<open>Dns\<close> (\<open>proxy/capability\<close>, \<open>proxy/dns.go\<close>, \<open>dns_plan.go\<close>): what the running Caddy can do
    and which certificates it obtains by the DNS challenge.
  \<^item> \<open>Reconciler\<close>, \<open>ProxyPass\<close> (\<open>proxy/reconciler.go\<close>, \<open>reconciler_waf.go\<close>): one pass over expected and actual
    routes against the locale \<open>proxy_manager\<close>, which \<open>ProxyPass\<close> interprets on the Caddy client.
  \<^item> \<open>Domains\<close>, \<open>DomainRoutes\<close> (\<open>handler/domains.go\<close> and its queries): adding, changing and removing domains and
    their features, and what that leaves in Caddy.
  \<^item> \<open>Deployments\<close> (\<open>service/deploy_queue.go\<close>, \<open>deployments.sql.go\<close>, the deployment handlers): the table, the
    queue guard and all the ways to trigger a deploy. The task queue is a parameter with asynq's laws, each
    call of which may fail; a running deploy is never displaced, and a trigger ends in a queued task or a
    refusal whose row is failed, or left pending when the write that fails it fails too.
  \<^item> \<open>DeployTask\<close> (\<open>worker/deploy_task.go\<close>, \<open>build_task.go\<close>): the stages of a deploy from loading to settling, with
    every early return, the compensators and the failure path. The container runtime and the proxy are
    parameters with laws; a stop or a removal may fail, and where a property needs removals to take effect
    it assumes so by name. A deploy that fails before the teardown, its application's row read, leaves what
    was serving; one that succeeds runs the image, variables and volumes of the run; and a task whose first
    query and final writes answer settles its row at its last attempt.
  \<^item> \<open>EventWatcher\<close> (\<open>eventwatcher/watcher.go\<close>, \<open>service/application_actions.go\<close>): container events and the
    reconciliation at startup, and how a deliberate stop meets them while the status can be read.
  \<^item> \<open>Cleanup\<close> (\<open>worker/cleanup_task.go\<close>): retention of deployments, the sweep of orphan containers over every
    host, the expiry of backups kept after their database.

  How they meet: \<open>Deployments\<close> asks \<open>Authz\<close> who may trigger; \<open>DeployTask\<close> works on the rows \<open>Deployments\<close> writes
  and puts routes through the interface of \<open>Reconciler\<close>; \<open>EventWatcher\<close> writes the application status that
  decides what \<open>Reconciler\<close> routes; \<open>Cleanup\<close> deletes the deployments a reload of \<open>Deployments\<close> looks for and
  reads the container labels \<open>DeployTask\<close> writes.

  State is passed explicitly as records; database tables are lists of rows or partial functions; an
  environment record says which calls to the outside answer, so that every error path is a branch. Text is
  a list of bytes as in Go. Instants are whole seconds where a theory does not say otherwise.

  Loops and bounds. Loops over lists are structural. The page loop of the backup expiry is a
  \<open>partial_function\<close>: it returns under a stable listing order and need not otherwise, and both are proved.
  Polling loops of the deploy run over the finite list of answers the environment gives. No fuel is used
  in these; where another theory bounds a recursion, it states the bound and proves it enough.

  Not modelled: the web application and the documentation site; the remaining generated queries, which
  scan rows; the Docker and git adapters, the image builders and the other programs the code runs;
  parsing of webhooks and preview environments; the creation and editing of applications, databases,
  projects and accounts, which validate input and write single rows; the database and backup workers,
  which stream archives through containers; the updater, templates, scheduled tasks, terminal; logs,
  metrics, notifications and the pages that only read. Of the cleanup job, the dispatcher, the pruning of
  dangling images and the reaping of previews are left out; of the Caddy client, the access log payload;
  of the sessions, the first setup, the profile pages and the start of an enrollment. HTTP bodies, log lines and audit text are left
  out except where a later decision reads them.
\<close>

end
